(* ===== verification/Prelude.thy ===== *)
theory Prelude
  imports "HOL-Library.Word"
begin

text \<open>
  Shared vocabulary of the development.

  \<^item> Go \<^verbatim>\<open>string\<close> and \<^verbatim>\<open>[]byte\<close> values are lists of \<open>char\<close>: a \<open>char\<close> is one byte,
    so \<open>length\<close> counts bytes as Go's \<^verbatim>\<open>len\<close> does, and literals are written as in the source.
  \<^item> A Go function that may fail, may mutate its receiver and may loop is a function of type
    \<open>('s, 'e, 'a) sm\<close>: from a state to \<open>None\<close> (the call does not return) or to
    \<open>Some\<close> of an error or a value together with the state afterwards. An error keeps the
    state, because the Go callers go on using the receiver after some errors.
  \<^item> Loops whose end depends on their environment are \<^theory_text>\<open>partial_function (option)\<close>;
    \<open>bindM_mono\<close> makes sequencing usable in them.
\<close>

named_theorems sm_simps
  \<open>unfolding rules of the state and error monad\<close>

type_synonym bytes = "char list"

type_synonym ('s, 'e, 'a) sm = "'s \<Rightarrow> (('e + 'a) \<times> 's) option"

definition returnM :: "'a \<Rightarrow> ('s, 'e, 'a) sm" where
  "returnM a = (\<lambda>s. Some (Inr a, s))"

definition failM :: "'e \<Rightarrow> ('s, 'e, 'a) sm" where
  "failM e = (\<lambda>s. Some (Inl e, s))"

definition bindM :: "('s, 'e, 'a) sm \<Rightarrow> ('a \<Rightarrow> ('s, 'e, 'b) sm) \<Rightarrow> ('s, 'e, 'b) sm" where
  "bindM m f = (\<lambda>s. case m s of
       None \<Rightarrow> None
     | Some (r, s') \<Rightarrow> (case r of Inl e \<Rightarrow> Some (Inl e, s') | Inr a \<Rightarrow> f a s'))"

text \<open>Reading and updating the state as a whole.\<close>

definition getM :: "('s, 'e, 's) sm" where
  "getM = (\<lambda>s. Some (Inr s, s))"

definition putM :: "'s \<Rightarrow> ('s, 'e, unit) sm" where
  "putM t = (\<lambda>_. Some (Inr (), t))"

definition modifyM :: "('s \<Rightarrow> 's) \<Rightarrow> ('s, 'e, unit) sm" where
  "modifyM g = (\<lambda>s. Some (Inr (), g s))"

definition mapS :: "('a \<Rightarrow> 'b) \<Rightarrow> ('s, 'e, 'a) sm \<Rightarrow> ('s, 'e, 'b) sm" where
  "mapS g m = bindM m (\<lambda>a. returnM (g a))"

lemma returnM_apply [simp, sm_simps]: "returnM a s = Some (Inr a, s)"
  by (simp add: returnM_def)

lemma failM_apply [simp, sm_simps]: "failM e s = Some (Inl e, s)"
  by (simp add: failM_def)

lemma getM_apply [simp, sm_simps]: "getM s = Some (Inr s, s)"
  by (simp add: getM_def)

lemma putM_apply [simp, sm_simps]: "putM t s = Some (Inr (), t)"
  by (simp add: putM_def)

lemma modifyM_apply [simp, sm_simps]: "modifyM g s = Some (Inr (), g s)"
  by (simp add: modifyM_def)

lemma bindM_apply [sm_simps]:
  "bindM m f s = (case m s of
       None \<Rightarrow> None
     | Some (r, s') \<Rightarrow> (case r of Inl e \<Rightarrow> Some (Inl e, s') | Inr a \<Rightarrow> f a s'))"
  by (simp add: bindM_def)

lemma bindM_Inr [simp]: "m s = Some (Inr a, s') \<Longrightarrow> bindM m f s = f a s'"
  by (simp add: bindM_def)

lemma bindM_Inl [simp]: "m s = Some (Inl e, s') \<Longrightarrow> bindM m f s = Some (Inl e, s')"
  by (simp add: bindM_def)

lemma bindM_None [simp]: "m s = None \<Longrightarrow> bindM m f s = None"
  by (simp add: bindM_def)

lemma bindM_eq_InrE:
  assumes "bindM m f s = Some (Inr b, t)"
  obtains a s' where "m s = Some (Inr a, s')" and "f a s' = Some (Inr b, t)"
  using assms by (auto simp: bindM_def split: option.splits sum.splits prod.splits)

lemma bindM_eq_Some_cases:
  assumes "bindM m f s = Some (r, t)"
  obtains (err) e where "m s = Some (Inl e, t)" and "r = Inl e"
    | (ok) a s' where "m s = Some (Inr a, s')" and "f a s' = Some (r, t)"
  using assms by (auto simp: bindM_def split: option.splits sum.splits prod.splits)

lemma bindM_cong [fundef_cong]:
  assumes "s = t" and "m t = n t"
    and "\<And>a s'. n t = Some (Inr a, s') \<Longrightarrow> f a s' = g a s'"
  shows "bindM m f s = bindM n g t"
  using assms by (auto simp: bindM_def split: option.splits sum.splits prod.splits)

lemma bindM_flat_mono:
  assumes "flat_ord None (m s) (m' s)" and "\<And>a t. flat_ord None (f a t) (f' a t)"
  shows "flat_ord None (bindM m f s) (bindM m' f' s)"
proof (cases "m s")
  case None
  then show ?thesis by (simp add: flat_ord_def)
next
  case (Some rs)
  with assms(1) have eq: "m' s = Some rs" by (auto simp: flat_ord_def)
  then show ?thesis
    using Some assms(2) by (cases rs; cases "fst rs") (auto simp: flat_ord_def)
qed

lemma bindM_mono [partial_function_mono]:
  assumes "mono_option (\<lambda>f. B f s)"
    and "\<And>y t. mono_option (\<lambda>f. C y f t)"
  shows "mono_option (\<lambda>f. bindM (B f) (\<lambda>y. C y f) s)"
  using assms unfolding monotone_def by (auto intro: bindM_flat_mono)

text \<open>Branches written above the state argument.\<close>

lemma if_app_mono [partial_function_mono]:
  assumes "mono_option (\<lambda>f. A f s)" and "mono_option (\<lambda>f. B f s)"
  shows "mono_option (\<lambda>f. (if c then A f else B f) s)"
  using assms by (cases c) simp_all

lemma option_app_mono [partial_function_mono]:
  assumes "mono_option (\<lambda>f. A f s)" and "\<And>a. mono_option (\<lambda>f. B a f s)"
  shows "mono_option (\<lambda>f. (case x of None \<Rightarrow> A f | Some a \<Rightarrow> B a f) s)"
  using assms by (cases x) simp_all

lemma prod_app_mono [partial_function_mono]:
  assumes "\<And>a b. mono_option (\<lambda>f. B a b f s)"
  shows "mono_option (\<lambda>f. (case x of (a, b) \<Rightarrow> B a b f) s)"
  using assms by (cases x) simp

subsection \<open>Functional simulation\<close>

text \<open>
  \<open>simulates ok ab m n\<close>: started in a good state, \<open>m\<close> returns, stays good, and does on the
  abstraction of the state exactly what \<open>n\<close> does: the same error or value, and the abstraction of
  the final state. It is closed under sequencing, so a grammar written over an interface
  simulates the grammar over the abstract one as soon as the interface's operations do.
\<close>

definition simulates ::
  "('s \<Rightarrow> bool) \<Rightarrow> ('s \<Rightarrow> 't) \<Rightarrow> ('s, 'e, 'a) sm \<Rightarrow> ('t, 'e, 'a) sm \<Rightarrow> bool" where
  "simulates ok ab m n \<longleftrightarrow>
     (\<forall>s. ok s \<longrightarrow> (\<exists>r s'. m s = Some (r, s') \<and> ok s' \<and> n (ab s) = Some (r, ab s')))"

named_theorems sim_intros \<open>introduction rules for simulations\<close>

lemma simulatesI:
  assumes "\<And>s. ok s \<Longrightarrow> \<exists>r s'. m s = Some (r, s') \<and> ok s' \<and> n (ab s) = Some (r, ab s')"
  shows "simulates ok ab m n"
  using assms by (simp add: simulates_def)

lemma simulatesE:
  assumes "simulates ok ab m n" and "ok s"
  obtains r s' where "m s = Some (r, s')" and "ok s'" and "n (ab s) = Some (r, ab s')"
  using assms by (auto simp: simulates_def)

lemma simulates_return [sim_intros]: "simulates ok ab (returnM a) (returnM a)"
  by (simp add: simulates_def)

lemma simulates_fail [sim_intros]: "simulates ok ab (failM e) (failM e)"
  by (simp add: simulates_def)

lemma simulates_bind [sim_intros]:
  assumes "simulates ok ab m n" and "\<And>a. simulates ok ab (f a) (g a)"
  shows "simulates ok ab (bindM m f) (bindM n g)"
proof (rule simulatesI)
  fix s
  assume "ok s"
  with assms(1) obtain r s' where m: "m s = Some (r, s')" and s': "ok s'"
    and n: "n (ab s) = Some (r, ab s')" by (rule simulatesE)
  show "\<exists>r s'. bindM m f s = Some (r, s') \<and> ok s' \<and> bindM n g (ab s) = Some (r, ab s')"
  proof (cases r)
    case (Inl e)
    then show ?thesis using m n s' by simp
  next
    case (Inr a)
    from assms(2) s' obtain r2 s2 where "f a s' = Some (r2, s2)" and "ok s2"
      and "g a (ab s') = Some (r2, ab s2)" by (rule simulatesE)
    then show ?thesis using m n Inr by simp
  qed
qed

lemma simulates_if [sim_intros]:
  assumes "c \<Longrightarrow> simulates ok ab m n" and "\<not> c \<Longrightarrow> simulates ok ab m' n'"
  shows "simulates ok ab (if c then m else m') (if c then n else n')"
  using assms by simp

subsection \<open>Lists\<close>

text \<open>The length of the longest prefix whose elements satisfy a predicate: the index at which a
  scanning loop \<^verbatim>\<open>for end < len(w) && p(w[end])\<close> stops.\<close>

definition spanLen :: "('a \<Rightarrow> bool) \<Rightarrow> 'a list \<Rightarrow> nat" where
  "spanLen p xs = length (takeWhile p xs)"

lemma spanLen_le [simp]: "spanLen p xs \<le> length xs"
  by (simp add: spanLen_def length_takeWhile_le)

lemma spanLen_Nil [simp]: "spanLen p [] = 0"
  by (simp add: spanLen_def)

lemma spanLen_Cons [simp]: "spanLen p (x # xs) = (if p x then Suc (spanLen p xs) else 0)"
  by (simp add: spanLen_def)

lemma nth_spanLen: "spanLen p xs < length xs \<Longrightarrow> \<not> p (xs ! spanLen p xs)"
  by (simp add: spanLen_def nth_length_takeWhile)

lemma drop_spanLen: "drop (spanLen p xs) xs = dropWhile p xs"
  by (simp add: spanLen_def dropWhile_eq_drop)

lemma take_spanLen: "take (spanLen p xs) xs = takeWhile p xs"
  by (simp add: spanLen_def takeWhile_eq_take [symmetric])

lemma spanLen_take:
  "spanLen p (take n xs) = min n (spanLen p xs)"
proof (induction xs arbitrary: n)
  case Nil
  then show ?case by simp
next
  case (Cons x xs)
  then show ?case by (cases n) auto
qed

text \<open>A scan that stops inside a window is the scan of the whole list; one that runs through the
  window continues behind it.\<close>

lemma spanLen_window_stops:
  assumes "spanLen p (take n xs) < length (take n xs)"
  shows "spanLen p (take n xs) = spanLen p xs" and "spanLen p xs < length xs"
    and "spanLen p xs < n"
  using assms by (auto simp: spanLen_take min_def split: if_splits)

lemma spanLen_window_runs:
  assumes "\<not> spanLen p (take n xs) < length (take n xs)"
  shows "spanLen p (take n xs) = length (take n xs)"
    and "dropWhile p (drop (length (take n xs)) xs) = dropWhile p xs"
    and "length (take n xs) \<le> spanLen p xs"
proof -
  show eq: "spanLen p (take n xs) = length (take n xs)"
    using assms spanLen_le [of p "take n xs"] by linarith
  then show le: "length (take n xs) \<le> spanLen p xs"
    by (simp add: spanLen_take)
  let ?m = "length (take n xs)"
  have "take ?m xs = take ?m (takeWhile p xs)"
    using le by (simp add: take_spanLen [symmetric] min_def)
  then have all: "\<And>x. x \<in> set (take ?m xs) \<Longrightarrow> p x"
    by (metis in_set_takeD set_takeWhileD)
  have "dropWhile p xs = dropWhile p (take ?m xs @ drop ?m xs)" by simp
  also have "\<dots> = dropWhile p (drop ?m xs)" using all by (rule dropWhile_append2)
  finally show "dropWhile p (drop ?m xs) = dropWhile p xs" by simp
qed

lemma dropWhile_Cons_spanLen:
  assumes "spanLen p xs < length xs"
  shows "dropWhile p xs = xs ! spanLen p xs # drop (Suc (spanLen p xs)) xs"
  using assms by (simp add: drop_spanLen [symmetric] Cons_nth_drop_Suc)

lemma dropWhile_Nil_spanLen: "\<not> spanLen p xs < length xs \<Longrightarrow> dropWhile p xs = []"
  by (simp add: drop_spanLen [symmetric])

end
