(* ===== verification/GoStd.thy ===== *)
theory GoStd
  imports Prelude
begin

text \<open>
  The parts of the Go language and standard library the modelled code uses: numeric text
  (\<^verbatim>\<open>strconv\<close>), UTF-8 and Unicode white space (\<^verbatim>\<open>unicode/utf8\<close>, \<^verbatim>\<open>unicode\<close>), string
  splitting and trimming (\<^verbatim>\<open>strings\<close>) and little-endian integers (\<^verbatim>\<open>encoding/binary\<close>).
  Everything is executable on byte lists.
\<close>

section \<open>Bytes and little-endian integers\<close>

definition byteOf :: "char \<Rightarrow> nat" where
  "byteOf c = of_char c"

lemma byteOf_less [simp]: "byteOf c < 256"
  by (simp add: byteOf_def)

fun leNat :: "bytes \<Rightarrow> nat" where
  "leNat [] = 0"
| "leNat (b # bs) = byteOf b + 256 * leNat bs"

fun leBytes :: "nat \<Rightarrow> nat \<Rightarrow> bytes" where
  "leBytes 0 n = []"
| "leBytes (Suc k) n = char_of (n mod 256) # leBytes k (n div 256)"

definition leWord :: "bytes \<Rightarrow> 'w::len word" where
  "leWord bs = word_of_nat (leNat bs)"

lemma length_leBytes [simp]: "length (leBytes k n) = k"
  by (induction k arbitrary: n) auto

lemma byteOf_char_of [simp]: "byteOf (char_of (n :: nat)) = n mod 256"
  by (simp add: byteOf_def)

lemma leNat_leBytes: "leNat (leBytes k n) = n mod 256 ^ k"
proof (induction k arbitrary: n)
  case 0
  then show ?case by simp
next
  case (Suc k)
  then show ?case by (simp add: mod_mult2_eq [of n 256 "256 ^ k"])
qed

lemma leWord_leBytes:
  assumes "(256 :: nat) ^ k = 2 ^ LENGTH('w)"
  shows "leWord (leBytes k (unat w)) = (w :: 'w::len word)"
proof -
  have "unat w < 256 ^ k" using assms unsigned_less [of w] by simp
  then show ?thesis by (simp add: leWord_def leNat_leBytes)
qed

section \<open>Decimal and hexadecimal numbers\<close>

definition isDigit :: "char \<Rightarrow> bool" where
  "isDigit c \<longleftrightarrow> 48 \<le> byteOf c \<and> byteOf c \<le> 57"

definition digitChar :: "nat \<Rightarrow> char" where
  "digitChar d = char_of (48 + d)"

text \<open>\<^verbatim>\<open>strconv.FormatUint(n, 10)\<close>.\<close>

fun formatNat :: "nat \<Rightarrow> bytes" where
  "formatNat n = (if n < 10 then [digitChar n] else formatNat (n div 10) @ [digitChar (n mod 10)])"

declare formatNat.simps [simp del]

text \<open>\<^verbatim>\<open>strconv.FormatInt(n, 10)\<close> and \<^verbatim>\<open>strconv.Itoa\<close>.\<close>

definition formatInt :: "int \<Rightarrow> bytes" where
  "formatInt n = (if n < 0 then CHR ''-'' # formatNat (nat (- n)) else formatNat (nat n))"

text \<open>The value of one digit in a base up to 36, as \<^verbatim>\<open>strconv.ParseUint\<close> reads it.\<close>

definition digitValue :: "char \<Rightarrow> nat option" where
  "digitValue c =
     (let b = byteOf c in
      if 48 \<le> b \<and> b \<le> 57 then Some (b - 48)
      else if 97 \<le> b \<and> b \<le> 122 then Some (b - 97 + 10)
      else if 65 \<le> b \<and> b \<le> 90 then Some (b - 65 + 10)
      else None)"

fun parseDigits :: "nat \<Rightarrow> nat \<Rightarrow> bytes \<Rightarrow> nat option" where
  "parseDigits base acc [] = Some acc"
| "parseDigits base acc (c # cs) =
     (case digitValue c of
        None \<Rightarrow> None
      | Some d \<Rightarrow> if d < base then parseDigits base (acc * base + d) cs else None)"

text \<open>\<^verbatim>\<open>strconv.ParseUint(s, base, bits)\<close> for an explicit base: no sign, no underscores, at
  least one digit; a value that does not fit is an error.\<close>

definition parseUint :: "nat \<Rightarrow> nat \<Rightarrow> bytes \<Rightarrow> nat option" where
  "parseUint base bits s =
     (if s = [] then None
      else case parseDigits base 0 s of
        None \<Rightarrow> None
      | Some n \<Rightarrow> if int n < 2 ^ bits then Some n else None)"

text \<open>\<^verbatim>\<open>strconv.ParseInt(s, 10, 64)\<close>, which is also \<^verbatim>\<open>strconv.Atoi\<close> on a 64-bit platform: an
  optional sign, then digits; the result lies in the 64-bit two's complement range.\<close>

definition parseInt :: "bytes \<Rightarrow> int option" where
  "parseInt s =
     (case s of
        [] \<Rightarrow> None
      | c # cs \<Rightarrow>
          let neg = (c = CHR ''-'');
              body = (if c = CHR ''+'' \<or> c = CHR ''-'' then cs else s)
          in case parseUint 10 64 body of
               None \<Rightarrow> None
             | Some n \<Rightarrow>
                 if \<not> neg \<and> int n \<ge> 2 ^ 63 then None
                 else if neg \<and> int n > 2 ^ 63 then None
                 else Some (if neg then - int n else int n))"

lemma byteOf_digitChar [simp]: "d < 10 \<Longrightarrow> byteOf (digitChar d) = 48 + d"
  by (simp add: byteOf_def digitChar_def)

lemma isDigit_digitChar [simp]: "d < 10 \<Longrightarrow> isDigit (digitChar d)"
  by (simp add: isDigit_def)

lemma digitValue_digitChar [simp]: "d < 10 \<Longrightarrow> digitValue (digitChar d) = Some d"
  by (simp add: digitValue_def Let_def)

lemma formatNat_nonempty [simp]: "formatNat n \<noteq> []"
  by (subst formatNat.simps) simp

lemma formatNat_digits: "c \<in> set (formatNat n) \<Longrightarrow> isDigit c"
proof (induction n rule: formatNat.induct)
  case (1 n)
  show ?case
  proof (cases "n < 10")
    case True
    with 1 show ?thesis by (simp add: formatNat.simps [of n])
  next
    case False
    then have "c \<in> set (formatNat (n div 10)) \<or> c = digitChar (n mod 10)"
      using "1.prems" by (auto simp: formatNat.simps [of n])
    with False 1 show ?thesis by auto
  qed
qed

lemma parseDigits_append:
  "parseDigits b acc (xs @ ys) =
     (case parseDigits b acc xs of None \<Rightarrow> None | Some m \<Rightarrow> parseDigits b m ys)"
  by (induction xs arbitrary: acc) (auto split: option.splits)

lemma parseDigits_formatNat: "parseDigits 10 0 (formatNat n) = Some n"
proof (induction n rule: formatNat.induct)
  case (1 n)
  show ?case
  proof (cases "n < 10")
    case True
    then show ?thesis by (simp add: formatNat.simps [of n])
  next
    case False
    with 1 show ?thesis by (simp add: formatNat.simps [of n] parseDigits_append)
  qed
qed

lemma parseUint_formatNat: "int n < 2 ^ bits \<Longrightarrow> parseUint 10 bits (formatNat n) = Some n"
  by (simp add: parseUint_def parseDigits_formatNat)

lemma formatNat_no_sign:
  "formatNat n = c # cs \<Longrightarrow> c \<noteq> CHR ''-'' \<and> c \<noteq> CHR ''+''"
  using formatNat_digits [of c n] by (auto simp: isDigit_def byteOf_def)

lemma parseInt_formatInt:
  assumes "- (2 ^ 63) \<le> n" and "n < 2 ^ 63"
  shows "parseInt (formatInt n) = Some n"
proof (cases "n < 0")
  case True
  then have "parseUint 10 64 (formatNat (nat (- n))) = Some (nat (- n))"
    using assms by (intro parseUint_formatNat) auto
  moreover have "nat (- n) \<le> 2 ^ 63" using assms True by auto
  ultimately show ?thesis using True by (simp add: parseInt_def formatInt_def)
next
  case False
  have p: "parseUint 10 64 (formatNat (nat n)) = Some (nat n)"
    using assms by (intro parseUint_formatNat) auto
  obtain c cs where c: "formatNat (nat n) = c # cs"
    using formatNat_nonempty [of "nat n"] by (cases "formatNat (nat n)") auto
  have "nat n < 2 ^ 63" using assms False by auto
  then show ?thesis
    using False p c formatNat_no_sign [OF c] by (simp add: parseInt_def formatInt_def)
qed

lemma parseInt_range: "parseInt s = Some n \<Longrightarrow> - (2 ^ 63) \<le> n \<and> n < 2 ^ 63"
  by (auto simp: parseInt_def parseUint_def Let_def split: list.splits option.splits if_splits)

section \<open>UTF-8\<close>

definition runeError :: int where
  "runeError = 65533"

definition isCont :: "char \<Rightarrow> bool" where
  "isCont c \<longleftrightarrow> 128 \<le> byteOf c \<and> byteOf c < 192"

text \<open>\<^verbatim>\<open>utf8.DecodeRune\<close>: the rune at the front and its width. A malformed sequence is
  \<open>(runeError, 1)\<close>, the empty input \<open>(runeError, 0)\<close>; surrogates, overlong forms and values
  above U+10FFFF are malformed.\<close>

definition decodeRune :: "bytes \<Rightarrow> int \<times> nat" where
  "decodeRune bs =
     (case bs of
        [] \<Rightarrow> (runeError, 0)
      | b0 # r0 \<Rightarrow>
        let x = int (byteOf b0) in
        if x < 128 then (x, 1)
        else if x < 194 then (runeError, 1)
        else if x < 224 then
          (case r0 of
             b1 # _ \<Rightarrow> if isCont b1 then ((x - 192) * 64 + (int (byteOf b1) - 128), 2) else (runeError, 1)
           | [] \<Rightarrow> (runeError, 1))
        else if x < 240 then
          (case r0 of
             b1 # b2 # _ \<Rightarrow>
               if isCont b1 \<and> isCont b2 \<and> (x = 224 \<longrightarrow> 160 \<le> byteOf b1) \<and> (x = 237 \<longrightarrow> byteOf b1 < 160)
               then ((x - 224) * 4096 + (int (byteOf b1) - 128) * 64 + (int (byteOf b2) - 128), 3)
               else (runeError, 1)
           | _ \<Rightarrow> (runeError, 1))
        else if x < 245 then
          (case r0 of
             b1 # b2 # b3 # _ \<Rightarrow>
               if isCont b1 \<and> isCont b2 \<and> isCont b3 \<and> (x = 240 \<longrightarrow> 144 \<le> byteOf b1)
                  \<and> (x = 244 \<longrightarrow> byteOf b1 < 144)
               then ((x - 240) * 262144 + (int (byteOf b1) - 128) * 4096 + (int (byteOf b2) - 128) * 64
                      + (int (byteOf b3) - 128), 4)
               else (runeError, 1)
           | _ \<Rightarrow> (runeError, 1))
        else (runeError, 1))"

lemma decodeRune_ascii:
  "byteOf b < 128 \<Longrightarrow> decodeRune (b # bs) = (int (byteOf b), 1)"
  by (simp add: decodeRune_def)

lemma decodeRune_size_pos: "bs \<noteq> [] \<Longrightarrow> 1 \<le> snd (decodeRune bs)"
  by (auto simp: decodeRune_def Let_def split: list.splits)

lemma decodeRune_size_le: "snd (decodeRune bs) \<le> length bs"
  by (auto simp: decodeRune_def Let_def split: list.splits)

text \<open>\<^verbatim>\<open>utf8.DecodeLastRune\<close>: the rune that ends the input, found by stepping back over at most
  three continuation bytes.\<close>

definition decodeLastRune :: "bytes \<Rightarrow> int \<times> nat" where
  "decodeLastRune p =
     (let end = length p in
      if end = 0 then (runeError, 0)
      else if byteOf (p ! (end - 1)) < 128 then (int (byteOf (p ! (end - 1))), 1)
      else
        let lim = end - 4;
            cands = [s \<leftarrow> rev [lim ..< end - 1]. \<not> isCont (p ! s)];
            start = (case cands of s # _ \<Rightarrow> s | [] \<Rightarrow> (if lim = 0 then 0 else lim - 1));
            (r, size) = decodeRune (drop start p)
        in if start + size = end then (r, size) else (runeError, 1))"

function utf8Valid :: "bytes \<Rightarrow> bool" where
  "utf8Valid bs =
     (if bs = [] then True
      else let (r, size) = decodeRune bs in
        if r = runeError \<and> size = 1 then False else utf8Valid (drop size bs))"
  by pat_completeness auto
termination
proof (relation "measure length", goal_cases)
  case 1
  then show ?case by simp
next
  case (2 bs x r size)
  have "1 \<le> snd (decodeRune bs)" using decodeRune_size_pos "2"(1) by blast
  then have "1 \<le> size" using "2"(2,3) by (metis snd_conv)
  then show ?case using "2"(1) by simp
qed

declare utf8Valid.simps [simp del]

text \<open>\<^verbatim>\<open>utf8.RuneCountInString\<close>.\<close>

function runeCount :: "bytes \<Rightarrow> nat" where
  "runeCount bs = (if bs = [] then 0 else Suc (runeCount (drop (snd (decodeRune bs)) bs)))"
  by pat_completeness auto
termination
proof (relation "measure length", goal_cases)
  case 1
  then show ?case by simp
next
  case (2 bs)
  then show ?case using decodeRune_size_pos [of bs] by simp
qed

declare runeCount.simps [simp del]

section \<open>White space, trimming, splitting\<close>

text \<open>\<^verbatim>\<open>unicode.IsSpace\<close>: the Unicode White Space property.\<close>

definition isSpaceRune :: "int \<Rightarrow> bool" where
  "isSpaceRune r \<longleftrightarrow>
     r \<in> {9, 10, 11, 12, 13, 32, 133, 160, 5760, 8232, 8233, 8239, 8287, 12288}
     \<or> 8192 \<le> r \<and> r \<le> 8202"

function trimLeftSpace :: "bytes \<Rightarrow> bytes" where
  "trimLeftSpace bs =
     (if bs \<noteq> [] \<and> isSpaceRune (fst (decodeRune bs))
      then trimLeftSpace (drop (snd (decodeRune bs)) bs) else bs)"
  by pat_completeness auto
termination
proof (relation "measure length", goal_cases)
  case 1
  then show ?case by simp
next
  case (2 bs)
  then show ?case using decodeRune_size_pos [of bs] by simp
qed

declare trimLeftSpace.simps [simp del]

lemma decodeLastRune_size_pos: "bs \<noteq> [] \<Longrightarrow> 1 \<le> snd (decodeLastRune bs)"
proof -
  assume ne: "bs \<noteq> []"
  obtain start where start: "start < length bs"
    and eq: "decodeLastRune bs = (int (byteOf (bs ! (length bs - 1))), 1) \<or>
      decodeLastRune bs =
        (let (r, size) = decodeRune (drop start bs)
         in if start + size = length bs then (r, size) else (runeError, 1))"
  proof -
    let ?cands = "[s \<leftarrow> rev [length bs - 4 ..< length bs - 1]. \<not> isCont (bs ! s)]"
    let ?start = "case ?cands of s # _ \<Rightarrow> s
      | [] \<Rightarrow> (if length bs - 4 = 0 then 0 else length bs - 4 - 1)"
    have "?start < length bs"
    proof (cases ?cands)
      case Nil
      then show ?thesis using ne by auto
    next
      case (Cons s ss)
      then have "s \<in> set ?cands" by simp
      then have "s < length bs" by auto
      then show ?thesis using Cons by simp
    qed
    then show ?thesis
      using that [of ?start] ne by (simp add: decodeLastRune_def Let_def)
  qed
  have "1 \<le> snd (decodeRune (drop start bs))"
    using start by (intro decodeRune_size_pos) simp
  then show ?thesis
    using eq by (auto simp: Let_def split: prod.splits if_splits)
qed

function trimRightSpace :: "bytes \<Rightarrow> bytes" where
  "trimRightSpace bs =
     (if bs \<noteq> [] \<and> isSpaceRune (fst (decodeLastRune bs))
      then trimRightSpace (take (length bs - snd (decodeLastRune bs)) bs) else bs)"
  by pat_completeness auto
termination
proof (relation "measure length", goal_cases)
  case 1
  then show ?case by simp
next
  case (2 bs)
  then show ?case using decodeLastRune_size_pos [of bs] by (cases bs) auto
qed

declare trimRightSpace.simps [simp del]

text \<open>\<^verbatim>\<open>strings.TrimSpace\<close>.\<close>

definition trimSpace :: "bytes \<Rightarrow> bytes" where
  "trimSpace s = trimRightSpace (trimLeftSpace s)"

text \<open>\<^verbatim>\<open>strings.Split(s, sep)\<close> for a one-byte separator: always at least one field.\<close>

fun splitOn :: "char \<Rightarrow> bytes \<Rightarrow> bytes list" where
  "splitOn sep [] = [[]]"
| "splitOn sep (c # cs) =
     (if c = sep then [] # splitOn sep cs
      else case splitOn sep cs of
        [] \<Rightarrow> [[c]]
      | f # fs \<Rightarrow> (c # f) # fs)"

text \<open>\<^verbatim>\<open>strings.Join(parts, sep)\<close> for a one-byte separator.\<close>

fun joinWith :: "char \<Rightarrow> bytes list \<Rightarrow> bytes" where
  "joinWith sep [] = []"
| "joinWith sep [p] = p"
| "joinWith sep (p # q # ps) = p @ sep # joinWith sep (q # ps)"

lemma splitOn_nonempty [simp]: "splitOn sep s \<noteq> []"
  by (induction s) (auto split: list.splits)

lemma splitOn_no_sep: "sep \<notin> set s \<Longrightarrow> splitOn sep s = [s]"
  by (induction s) auto

lemma splitOn_append_sep:
  "sep \<notin> set p \<Longrightarrow> splitOn sep (p @ sep # s) = p # splitOn sep s"
  by (induction p) auto

lemma splitOn_joinWith:
  "ps \<noteq> [] \<Longrightarrow> (\<And>p. p \<in> set ps \<Longrightarrow> sep \<notin> set p) \<Longrightarrow> splitOn sep (joinWith sep ps) = ps"
  by (induction ps rule: joinWith.induct) (auto simp: splitOn_no_sep splitOn_append_sep)

lemma splitOn_fields_no_sep: "p \<in> set (splitOn sep s) \<Longrightarrow> sep \<notin> set p"
  by (induction s arbitrary: p) (auto split: list.splits if_splits)

text \<open>\<^verbatim>\<open>strings.HasPrefix\<close>, \<^verbatim>\<open>strings.HasSuffix\<close> and \<^verbatim>\<open>strings.IndexByte\<close> (\<open>None\<close> for -1).\<close>

definition hasPrefix :: "bytes \<Rightarrow> bytes \<Rightarrow> bool" where
  "hasPrefix s p \<longleftrightarrow> take (length p) s = p"

definition hasSuffix :: "bytes \<Rightarrow> bytes \<Rightarrow> bool" where
  "hasSuffix s p \<longleftrightarrow> length p \<le> length s \<and> drop (length s - length p) s = p"

definition indexByte :: "bytes \<Rightarrow> char \<Rightarrow> nat option" where
  "indexByte s c = (let n = spanLen (\<lambda>x. x \<noteq> c) s in if n < length s then Some n else None)"

lemma indexByte_append: "c \<notin> set p \<Longrightarrow> indexByte (p @ c # s) c = Some (length p)"
proof -
  assume "c \<notin> set p"
  then have "takeWhile (\<lambda>x. x \<noteq> c) (p @ c # s) = p"
    by (induction p) auto
  then show ?thesis by (simp add: indexByte_def spanLen_def)
qed

lemma indexByte_None: "c \<notin> set s \<Longrightarrow> indexByte s c = None"
proof -
  assume "c \<notin> set s"
  then have "takeWhile (\<lambda>x. x \<noteq> c) s = s" by (auto simp: takeWhile_eq_all_conv)
  then have "spanLen (\<lambda>x. x \<noteq> c) s = length s" by (simp only: spanLen_def)
  then show ?thesis by (simp add: indexByte_def Let_def)
qed

text \<open>
  \<^verbatim>\<open>strings.ToLower\<close> as far as a comparison with ASCII text can tell: the ASCII letters, and the two other
  characters that are lowered to one, U+0130 and U+212A.
\<close>

fun lowerText :: "bytes \<Rightarrow> bytes" where
  "lowerText [] = []"
| "lowerText (c # cs) =
     (if c = CHR 0xC4 \<and> take 1 cs = [CHR 0xB0] then CHR ''i'' # lowerText (drop 1 cs)
      else if c = CHR 0xE2 \<and> take 2 cs = [CHR 0x84, CHR 0xAA] then CHR ''k'' # lowerText (drop 2 cs)
      else (let n = byteOf c in if 65 \<le> n \<and> n \<le> 90 then char_of (n + 32) else c) # lowerText cs)"

text \<open>\<^verbatim>\<open>strings.Contains\<close>.\<close>

fun containsText :: "bytes \<Rightarrow> bytes \<Rightarrow> bool" where
  "containsText [] part = (part = [])"
| "containsText (c # cs) part = (hasPrefix (c # cs) part \<or> containsText cs part)"

end
