(* ===== verification/Float64.thy ===== *)
theory Float64
  imports GoStd
begin

text \<open>
  IEEE 754 binary64 values as Go's \<^verbatim>\<open>float64\<close> holds them: 64-bit words. The code converts
  integers and decimal text to floats, widens \<^verbatim>\<open>float32\<close> bit patterns, multiplies by 255 and divides by
  100000.0. Each operation is the exact rational result rounded to nearest, ties to even,
  which is what IEEE arithmetic and \<^verbatim>\<open>strconv.ParseFloat\<close> compute.
\<close>

type_synonym float64 = "64 word"

fun bitLen :: "nat \<Rightarrow> nat" where
  "bitLen n = (if n = 0 then 0 else Suc (bitLen (n div 2)))"

declare bitLen.simps [simp del]

text \<open>Division rounded to the nearest integer, ties to even.\<close>

definition roundQuot :: "nat \<Rightarrow> nat \<Rightarrow> nat" where
  "roundQuot n d =
     (let q = n div d; r = n mod d
      in if d < 2 * r \<or> (2 * r = d \<and> odd q) then Suc q else q)"

text \<open>The quotient \<open>n / (d * 2 ^ e)\<close> as numerator and denominator.\<close>

definition scaleBy :: "int \<Rightarrow> nat \<Rightarrow> nat \<Rightarrow> nat \<times> nat" where
  "scaleBy e n d = (if 0 \<le> e then (n, d * 2 ^ nat e) else (n * 2 ^ nat (- e), d))"

text \<open>
  The exponent and fraction fields of the rounding of \<open>n / d\<close>, as one number:
  \<open>2047 * 2 ^ 52\<close> is infinity, and a value at or above it before clamping is an overflow.
  A subnormal result has exponent -1074; a carry out of the fraction moves into the exponent
  field by plain addition.
\<close>

definition f64Magnitude :: "nat \<Rightarrow> nat \<Rightarrow> nat" where
  "f64Magnitude n d =
     (if n = 0 then 0
      else
        let e0 = int (bitLen n) - int (bitLen d) - 53;
            (n0, d0) = scaleBy e0 n d;
            e1 = (if 2 ^ 53 * d0 \<le> n0 then e0 + 1 else e0);
            e = max e1 (- 1074);
            (n1, d1) = scaleBy e n d
        in nat (e + 1074) * 2 ^ 52 + roundQuot n1 d1)"

definition f64Infinity :: nat where
  "f64Infinity = 2047 * 2 ^ 52"

definition f64OfRat :: "bool \<Rightarrow> nat \<Rightarrow> nat \<Rightarrow> float64" where
  "f64OfRat neg n d =
     word_of_nat ((if neg then 2 ^ 63 else 0) + min (f64Magnitude n d) f64Infinity)"

definition f64Overflows :: "nat \<Rightarrow> nat \<Rightarrow> bool" where
  "f64Overflows n d \<longleftrightarrow> f64Infinity \<le> f64Magnitude n d"

text \<open>Sign, and the exact value of a finite magnitude as numerator and denominator.\<close>

definition f64Negative :: "float64 \<Rightarrow> bool" where
  "f64Negative w \<longleftrightarrow> 2 ^ 63 \<le> unat w"

definition f64MagOf :: "float64 \<Rightarrow> nat" where
  "f64MagOf w = unat w mod 2 ^ 63"

definition f64Finite :: "float64 \<Rightarrow> bool" where
  "f64Finite w \<longleftrightarrow> f64MagOf w < f64Infinity"

definition f64Ratio :: "nat \<Rightarrow> nat \<times> nat" where
  "f64Ratio m =
     (let E = m div 2 ^ 52; F = m mod 2 ^ 52;
          mant = (if E = 0 then F else F + 2 ^ 52);
          ex = (if E = 0 then - 1074 else int E - 1075)
      in if 0 \<le> ex then (mant * 2 ^ nat ex, 1) else (mant, 2 ^ nat (- ex)))"

text \<open>\<^verbatim>\<open>float64(i)\<close> for an integer.\<close>

definition f64OfInt :: "int \<Rightarrow> float64" where
  "f64OfInt i = f64OfRat (i < 0) (nat \<bar>i\<bar>) 1"

text \<open>Multiplication and division by a positive integer constant; infinities and NaNs stay as
  they are.\<close>

definition f64MulNat :: "float64 \<Rightarrow> nat \<Rightarrow> float64" where
  "f64MulNat w k =
     (if f64Finite w
      then let (n, d) = f64Ratio (f64MagOf w) in f64OfRat (f64Negative w) (n * k) d
      else w)"

definition f64DivNat :: "float64 \<Rightarrow> nat \<Rightarrow> float64" where
  "f64DivNat w k =
     (if f64Finite w
      then let (n, d) = f64Ratio (f64MagOf w) in f64OfRat (f64Negative w) n (d * k)
      else w)"

text \<open>\<^verbatim>\<open>float64(math.Float32frombits(b))\<close>: widening is exact; a NaN keeps its payload and is
  made quiet.\<close>

definition f64OfF32Bits :: "32 word \<Rightarrow> float64" where
  "f64OfF32Bits b =
     (let u = unat b; neg = 2 ^ 31 \<le> u; m = u mod 2 ^ 31; E = m div 2 ^ 23; F = m mod 2 ^ 23
      in if E = 255
         then word_of_nat ((if neg then 2 ^ 63 else 0) + f64Infinity
                + (if F = 0 then 0 else (if F < 2 ^ 22 then F + 2 ^ 22 else F) * 2 ^ 29))
         else let mant = (if E = 0 then F else F + 2 ^ 23);
                  ex = (if E = 0 then - 149 else int E - 150)
              in if 0 \<le> ex then f64OfRat neg (mant * 2 ^ nat ex) 1
                 else f64OfRat neg mant (2 ^ nat (- ex)))"

text \<open>
  \<^verbatim>\<open>uint32(f)\<close>. The language fixes the result only where the truncated value is representable;
  the model takes the amd64 compilation for the rest: truncation to a 64-bit integer
  (\<open>-2 ^ 63\<close> where that is impossible), then the low 32 bits.
\<close>

definition f64ToU32 :: "float64 \<Rightarrow> 32 word" where
  "f64ToU32 w =
     (if f64Finite w
      then let (n, d) = f64Ratio (f64MagOf w); t = int (n div d);
               i = (if f64Negative w then - t else t)
           in if - (2 ^ 63) \<le> i \<and> i < 2 ^ 63 then word_of_int i else 0
      else 0)"

lemma roundQuot_exact [simp]: "0 < d \<Longrightarrow> roundQuot (q * d) d = q"
  by (simp add: roundQuot_def)

lemma roundQuot_near:
  assumes "0 < d"
  shows "2 * n \<le> (2 * roundQuot n d + 1) * d" and "2 * (roundQuot n d * d) \<le> 2 * n + d"
proof -
  obtain q r where qr: "n div d = q" "n mod d = r" by simp
  have n: "n = q * d + r" using qr div_mult_mod_eq [of n d] by simp
  have r: "r < d" using qr assms by auto
  have rq: "roundQuot n d = (if d < 2 * r \<or> (2 * r = d \<and> odd q) then Suc q else q)"
    by (simp add: roundQuot_def qr)
  show "2 * n \<le> (2 * roundQuot n d + 1) * d"
    unfolding rq using r by (auto simp: n algebra_simps)
  show "2 * (roundQuot n d * d) \<le> 2 * n + d"
    unfolding rq using r by (auto simp: n algebra_simps)
qed

end
