(* ===== verification/SaveFile.thy ===== *)
theory SaveFile
  imports Float64
begin

text \<open>
  \<^verbatim>\<open>internal/savefile/savefile.go\<close>: the resource limits of one save read and the typed refusals,
  and the types of \<^verbatim>\<open>internal/savefile/binary.go\<close> that both grammars produce: token kinds and
  tokens. A refusal keeps its kind and its detail text; formatted details are lists of
  pieces, so that a quoted or numeric argument is kept as a value.
\<close>

section \<open>Refusals\<close>

datatype ErrorKind =
    ErrHeader
  | ErrUnsupportedLayout
  | ErrContainerMismatch
  | ErrBounds
  | ErrTooLarge
  | ErrTruncated
  | ErrMalformedToken
  | ErrArchive
  | ErrTokenMap
  | ErrPath

datatype piece = Lit string | Num int | Quoted bytes

text \<open>A refusal; an error value of another package (\<^verbatim>\<open>io.EOF\<close>); or a run-time panic: the code indexes
  one fixed-size array without a bounds check (see \<open>TextToken\<close>), and a panic unwinds every caller
  as an error does.\<close>

datatype SaveError =
    SaveError ErrorKind "piece list" "string option"
  | ForeignError string
  | GoPanic string

text \<open>\<^verbatim>\<open>KindOf\<close>; only an \<^verbatim>\<open>*Error\<close> value has a kind.\<close>

fun KindOf :: "SaveError \<Rightarrow> ErrorKind option" where
  "KindOf (SaveError k d c) = Some k"
| "KindOf (ForeignError m) = None"
| "KindOf (GoPanic m) = None"

definition newError :: "ErrorKind \<Rightarrow> string \<Rightarrow> SaveError" where
  "newError k d = SaveError k [Lit d] None"

definition newErrorf :: "ErrorKind \<Rightarrow> piece list \<Rightarrow> SaveError" where
  "newErrorf k d = SaveError k d None"

definition wrapError :: "ErrorKind \<Rightarrow> string \<Rightarrow> string \<Rightarrow> SaveError" where
  "wrapError k d cause = SaveError k [Lit d] (Some cause)"

lemma KindOf_errors [simp]:
  "KindOf (newError k d) = Some k"
  "KindOf (newErrorf k ps) = Some k"
  "KindOf (wrapError k d c) = Some k"
  by (simp_all add: newError_def newErrorf_def wrapError_def)

type_synonym ('s, 'a) save_m = "('s, SaveError, 'a) sm"

section \<open>Limits\<close>

record Limits =
  MaxFileBytes :: int
  MaxSectionBytes :: int
  MaxGamestateBytes :: int
  MaxTokens :: int
  MaxDepth :: int
  MaxStringBytes :: int
  MaxArrayItems :: int

definition DefaultLimits :: Limits where
  "DefaultLimits = \<lparr>
     MaxFileBytes = 512 * 2 ^ 20,
     MaxSectionBytes = 8 * 2 ^ 20,
     MaxGamestateBytes = 2 * 2 ^ 30,
     MaxTokens = 4 * 2 ^ 20,
     MaxDepth = 128,
     MaxStringBytes = 64 * 2 ^ 10,
     MaxArrayItems = 4096 \<rparr>"

definition gamestateCeiling :: "Limits \<Rightarrow> int" where
  "gamestateCeiling l = (if MaxGamestateBytes l > 0 then MaxGamestateBytes l else MaxSectionBytes l)"

text \<open>Go's \<^verbatim>\<open>/\<close> truncates toward zero. The token budget every gamestate pass derives from the byte
  ceiling.\<close>

definition goQuot :: "int \<Rightarrow> int \<Rightarrow> int" where
  "goQuot a b = (if (a < 0) = (b < 0) then \<bar>a\<bar> div \<bar>b\<bar> else - (\<bar>a\<bar> div \<bar>b\<bar>))"

definition streamLimits :: "Limits \<Rightarrow> Limits" where
  "streamLimits l = l\<lparr>MaxTokens := goQuot (gamestateCeiling l) 2 + 1\<rparr>"

section \<open>Tokens\<close>

datatype TokenKind =
    KindInvalid
  | KindOpen
  | KindClose
  | KindEqual
  | KindID
  | KindU32
  | KindU64
  | KindI32
  | KindI64
  | KindBool
  | KindF32
  | KindF64
  | KindQuoted
  | KindUnquoted
  | KindRGB
  | KindLookup
  | KindDecimal

record Token =
  Kind :: TokenKind
  ID :: "16 word"
  Text :: bytes
  Unsigned :: "64 word"
  Signed :: "64 word"
  Bits :: bytes
  Bool :: bool
  Lookup :: "32 word"
  RGB :: "32 word list"
  RGBHasAlpha :: bool

text \<open>The zero value of the Go struct: \<open>Bits\<close> is \<^verbatim>\<open>[8]byte\<close>, \<open>RGB\<close> is \<^verbatim>\<open>[4]uint32\<close>.\<close>

definition zeroToken :: Token where
  "zeroToken = \<lparr>Kind = KindInvalid, ID = 0, Text = [], Unsigned = 0, Signed = 0,
     Bits = replicate 8 (CHR 0x00), Bool = False, Lookup = 0, RGB = [0, 0, 0, 0],
     RGBHasAlpha = False\<rparr>"

definition tokenOf :: "TokenKind \<Rightarrow> Token" where
  "tokenOf k = zeroToken\<lparr>Kind := k\<rparr>"

lemma Kind_tokenOf [simp]: "Kind (tokenOf k) = k"
  by (simp add: tokenOf_def)

fun scalarKind :: "TokenKind \<Rightarrow> bool" where
  "scalarKind KindInvalid = False"
| "scalarKind KindOpen = False"
| "scalarKind KindClose = False"
| "scalarKind KindEqual = False"
| "scalarKind _ = True"

definition IsScalar :: "Token \<Rightarrow> bool" where
  "IsScalar t = scalarKind (Kind t)"

section \<open>Reading scalars\<close>

text \<open>\<^verbatim>\<open>signedOf\<close>, \<^verbatim>\<open>numericKey\<close> (gamestate.go) and \<^verbatim>\<open>unsigned\<close> (metadata.go). The conversion between
  \<^verbatim>\<open>int64\<close> and \<^verbatim>\<open>uint64\<close> keeps the bits, so it is the identity on words; \<open>sint\<close> reads the signed
  value.\<close>

definition signedOf :: "Token \<Rightarrow> 64 word" where
  "signedOf t =
     (case Kind t of
        KindU32 \<Rightarrow> Unsigned t
      | KindU64 \<Rightarrow> Unsigned t
      | KindI32 \<Rightarrow> Signed t
      | KindI64 \<Rightarrow> Signed t
      | _ \<Rightarrow> 0)"

definition isNumericKind :: "TokenKind \<Rightarrow> bool" where
  "isNumericKind k \<longleftrightarrow> k = KindU32 \<or> k = KindU64 \<or> k = KindI32 \<or> k = KindI64"

definition numericKey :: "Token \<Rightarrow> 64 word option" where
  "numericKey t = (if isNumericKind (Kind t) then Some (signedOf t) else None)"

definition unsignedOf :: "Token \<Rightarrow> 64 word" where
  "unsignedOf t =
     (case Kind t of
        KindU32 \<Rightarrow> Unsigned t
      | KindU64 \<Rightarrow> Unsigned t
      | KindI32 \<Rightarrow> if sint (Signed t) < 0 then 0 else Signed t
      | KindI64 \<Rightarrow> if sint (Signed t) < 0 then 0 else Signed t
      | _ \<Rightarrow> 0)"

definition float32BitsToFloat :: "bytes \<Rightarrow> float64" where
  "float32BitsToFloat bits = f64OfF32Bits (leWord (take 4 bits))"

definition float64BitsToFloat :: "bytes \<Rightarrow> float64" where
  "float64BitsToFloat bits = f64DivNat (f64OfInt (sint (leWord bits :: 64 word))) 100000"

definition textDecimal :: "Token \<Rightarrow> float64" where
  "textDecimal t = leWord (Bits t)"

definition floatOf :: "Token \<Rightarrow> float64" where
  "floatOf t =
     (case Kind t of
        KindU32 \<Rightarrow> f64OfInt (uint (Unsigned t))
      | KindU64 \<Rightarrow> f64OfInt (uint (Unsigned t))
      | KindI32 \<Rightarrow> f64OfInt (sint (Signed t))
      | KindI64 \<Rightarrow> f64OfInt (sint (Signed t))
      | KindF32 \<Rightarrow> float32BitsToFloat (Bits t)
      | KindF64 \<Rightarrow> float64BitsToFloat (Bits t)
      | KindDecimal \<Rightarrow> textDecimal t
      | _ \<Rightarrow> 0)"

text \<open>The state every decoder keeps next to its source: how many tokens were asked for, and the
  container nesting.\<close>

record Counters =
  ctTokens :: int
  ctDepth :: int

end
