(* ===== verification/BinaryToken.thy ===== *)
theory BinaryToken
  imports SaveFile
begin

text \<open>
  The binary grammar of \<^verbatim>\<open>internal/savefile/binary.go\<close>: \<^verbatim>\<open>decodeToken\<close> and its helpers, over any
  \<^verbatim>\<open>takeFunc\<close>. The two \<^verbatim>\<open>int64\<close>/\<^verbatim>\<open>int\<close> pointers the Go function writes through are the \<open>Counters\<close>
  beside the source state.
\<close>

section \<open>Lexeme ids\<close>

definition lexEqual :: "16 word" where "lexEqual = 0x0001"
definition lexOpen :: "16 word" where "lexOpen = 0x0003"
definition lexClose :: "16 word" where "lexClose = 0x0004"
definition lexI32 :: "16 word" where "lexI32 = 0x000c"
definition lexF32 :: "16 word" where "lexF32 = 0x000d"
definition lexBool :: "16 word" where "lexBool = 0x000e"
definition lexQuoted :: "16 word" where "lexQuoted = 0x000f"
definition lexU32 :: "16 word" where "lexU32 = 0x0014"
definition lexUnquoted :: "16 word" where "lexUnquoted = 0x0017"
definition lexF64 :: "16 word" where "lexF64 = 0x0167"
definition lexRGB :: "16 word" where "lexRGB = 0x0243"
definition lexU64 :: "16 word" where "lexU64 = 0x029c"
definition lexI64 :: "16 word" where "lexI64 = 0x0317"
definition lexLookupU16 :: "16 word" where "lexLookupU16 = 0x0d3e"
definition lexLookupU32 :: "16 word" where "lexLookupU32 = 0x0d3f"
definition lexLookupU8 :: "16 word" where "lexLookupU8 = 0x0d40"
definition lexLookupU24 :: "16 word" where "lexLookupU24 = 0x0d41"
definition lexCompactFirst :: "16 word" where "lexCompactFirst = 0x0d42"
definition lexCompactLast :: "16 word" where "lexCompactLast = 0x0d55"

lemmas lex_defs =
  lexEqual_def lexOpen_def lexClose_def lexI32_def lexF32_def lexBool_def lexQuoted_def
  lexU32_def lexUnquoted_def lexF64_def lexRGB_def lexU64_def lexI64_def lexLookupU16_def
  lexLookupU32_def lexLookupU8_def lexLookupU24_def lexCompactFirst_def lexCompactLast_def

section \<open>Reading through a take function\<close>

type_synonym 's takeFunc = "nat \<Rightarrow> ('s, bytes) save_m"

definition readU16 :: "'s takeFunc \<Rightarrow> ('s, 16 word) save_m" where
  "readU16 tk = bindM (tk 2) (\<lambda>raw. returnM (leWord raw))"

definition readString :: "'s takeFunc \<Rightarrow> Limits \<Rightarrow> ('s, bytes) save_m" where
  "readString tk limits =
     bindM (readU16 tk) (\<lambda>len.
       if int (unat len) > MaxStringBytes limits
       then failM (newError ErrTooLarge ''a scalar string exceeds the configured limit'')
       else tk (unat len))"

text \<open>One RGB channel: the \<^verbatim>\<open>U32\<close> marker and its payload.\<close>

definition readRGBChannel :: "'s takeFunc \<Rightarrow> ('s, 32 word) save_m" where
  "readRGBChannel tk =
     bindM (readU16 tk) (\<lambda>marker.
       if marker \<noteq> lexU32
       then failM (newError ErrMalformedToken ''an rgb channel is not a 32-bit unsigned value'')
       else bindM (tk 4) (\<lambda>raw. returnM (leWord raw)))"

definition decodeRGB :: "'s takeFunc \<Rightarrow> ('s, Token) save_m" where
  "decodeRGB tk =
     bindM (readU16 tk) (\<lambda>op.
     if op \<noteq> lexOpen
     then failM (newError ErrMalformedToken ''an rgb value is not followed by a container'')
     else
       bindM (readRGBChannel tk) (\<lambda>r.
       bindM (readRGBChannel tk) (\<lambda>g.
       bindM (readRGBChannel tk) (\<lambda>b.
       bindM (readU16 tk) (\<lambda>nxt.
         if nxt = lexClose
         then returnM ((tokenOf KindRGB)\<lparr>RGB := [r, g, b, 0]\<rparr>)
         else if nxt = lexU32 then
           bindM (tk 4) (\<lambda>raw.
           bindM (readU16 tk) (\<lambda>fin.
             if fin \<noteq> lexClose
             then failM (newError ErrMalformedToken ''an rgb value does not close after its alpha channel'')
             else returnM ((tokenOf KindRGB)\<lparr>RGB := [r, g, b, leWord raw], RGBHasAlpha := True\<rparr>)))
         else failM (newError ErrMalformedToken ''an rgb value has an unexpected fourth component''))))))"

text \<open>The payload of every lexeme that carries one, as the \<^verbatim>\<open>switch\<close> of \<^verbatim>\<open>decodeToken\<close> reads it;
  \<open>None\<close> for an identifier the switch does not name.\<close>

definition decodePayload :: "'s takeFunc \<Rightarrow> Limits \<Rightarrow> 16 word \<Rightarrow> ('s, Token) save_m option" where
  "decodePayload tk limits idn =
     (if idn = lexEqual then Some (returnM (tokenOf KindEqual))
      else if idn = lexU32 then
        Some (bindM (tk 4) (\<lambda>raw. returnM ((tokenOf KindU32)\<lparr>Unsigned := ucast (leWord raw :: 32 word)\<rparr>)))
      else if idn = lexU64 then
        Some (bindM (tk 8) (\<lambda>raw. returnM ((tokenOf KindU64)\<lparr>Unsigned := leWord raw\<rparr>)))
      else if idn = lexI32 then
        Some (bindM (tk 4) (\<lambda>raw. returnM ((tokenOf KindI32)\<lparr>Signed := scast (leWord raw :: 32 word)\<rparr>)))
      else if idn = lexI64 then
        Some (bindM (tk 8) (\<lambda>raw. returnM ((tokenOf KindI64)\<lparr>Signed := leWord raw\<rparr>)))
      else if idn = lexBool then
        Some (bindM (tk 1) (\<lambda>raw. returnM ((tokenOf KindBool)\<lparr>Bool := (byteOf (hd raw) \<noteq> 0)\<rparr>)))
      else if idn = lexQuoted \<or> idn = lexUnquoted then
        Some (bindM (readString tk limits) (\<lambda>text.
          returnM ((tokenOf (if idn = lexUnquoted then KindUnquoted else KindQuoted))\<lparr>Text := text\<rparr>)))
      else if idn = lexF32 then
        Some (bindM (tk 4) (\<lambda>raw. returnM ((tokenOf KindF32)\<lparr>Bits := raw @ replicate 4 (CHR 0x00)\<rparr>)))
      else if idn = lexF64 then
        Some (bindM (tk 8) (\<lambda>raw. returnM ((tokenOf KindF64)\<lparr>Bits := raw\<rparr>)))
      else if idn = lexRGB then Some (decodeRGB tk)
      else if idn = lexLookupU8 then
        Some (bindM (tk 1) (\<lambda>raw. returnM ((tokenOf KindLookup)\<lparr>Lookup := word_of_nat (byteOf (hd raw))\<rparr>)))
      else if idn = lexLookupU16 then
        Some (bindM (readU16 tk) (\<lambda>v. returnM ((tokenOf KindLookup)\<lparr>Lookup := ucast v\<rparr>)))
      else if idn = lexLookupU24 then
        Some (bindM (tk 3) (\<lambda>raw. returnM ((tokenOf KindLookup)\<lparr>Lookup := leWord (raw @ [CHR 0x00])\<rparr>)))
      else if idn = lexLookupU32 then
        Some (bindM (tk 4) (\<lambda>raw. returnM ((tokenOf KindLookup)\<lparr>Lookup := leWord raw\<rparr>)))
      else None)"

text \<open>Lifting a source operation next to the counters.\<close>

definition onSource :: "('s, 'a) save_m \<Rightarrow> ('s \<times> Counters, 'a) save_m" where
  "onSource m = (\<lambda>(s, c). case m s of None \<Rightarrow> None | Some (r, s') \<Rightarrow> Some (r, (s', c)))"

text \<open>The budget check and the container bookkeeping shared by both grammars.\<close>

definition countToken :: "Limits \<Rightarrow> ('s \<times> Counters, unit) save_m" where
  "countToken limits = (\<lambda>(s, c).
     let c' = c\<lparr>ctTokens := ctTokens c + 1\<rparr> in
     if ctTokens c' > MaxTokens limits
     then Some (Inl (newError ErrTooLarge ''the section exceeds the configured token budget''), (s, c'))
     else Some (Inr (), (s, c')))"

definition openContainer :: "Limits \<Rightarrow> ('s \<times> Counters, Token) save_m" where
  "openContainer limits = (\<lambda>(s, c).
     let c' = c\<lparr>ctDepth := ctDepth c + 1\<rparr> in
     if ctDepth c' > MaxDepth limits
     then Some (Inl (newError ErrTooLarge ''container nesting exceeds the configured depth limit''), (s, c'))
     else Some (Inr (tokenOf KindOpen), (s, c')))"

definition closeContainer :: "('s \<Rightarrow> 's) \<Rightarrow> ('s \<times> Counters, Token) save_m" where
  "closeContainer consume = (\<lambda>(s, c).
     if ctDepth c = 0
     then Some (Inl (newError ErrMalformedToken ''a container close appeared outside any container''), (s, c))
     else Some (Inr (tokenOf KindClose), (consume s, c\<lparr>ctDepth := ctDepth c - 1\<rparr>)))"

definition decodeToken :: "'s takeFunc \<Rightarrow> Limits \<Rightarrow> ('s \<times> Counters, Token) save_m" where
  "decodeToken tk limits =
     bindM (countToken limits) (\<lambda>_.
     bindM (onSource (readU16 tk)) (\<lambda>idn.
       if idn = lexOpen then openContainer limits
       else if idn = lexClose then closeContainer (\<lambda>s. s)
       else case decodePayload tk limits idn of
         Some m \<Rightarrow> onSource m
       | None \<Rightarrow>
           if lexCompactFirst \<le> idn \<and> idn \<le> lexCompactLast
           then failM (newError ErrMalformedToken
             ''the save uses a compact token encoding that CK3 does not emit; refusing to guess its meaning'')
           else returnM ((tokenOf KindID)\<lparr>ID := idn\<rparr>)))"

end
