(* ===== verification/TextToken.thy ===== *)
theory TextToken
  imports BinaryToken
begin

text \<open>
  The text grammar of \<^verbatim>\<open>internal/savefile/text.go\<close>: the same tokens as the binary grammar, decoded
  from any \<^verbatim>\<open>textSource\<close>. A source hands out unconsumed bytes without saying how it holds them;
  the Go interface is the record \<open>textSource\<close> of its two methods.
\<close>

datatype Encoding = EncodingBinary | EncodingText

record 's textSource =
  peekAhead :: "nat \<Rightarrow> ('s, bytes) save_m"
  discard :: "nat \<Rightarrow> 's \<Rightarrow> 's"

definition discardM :: "'s textSource \<Rightarrow> nat \<Rightarrow> ('s, unit) save_m" where
  "discardM src n = modifyM (discard src n)"

definition textScanChunk :: nat where
  "textScanChunk = 64"

definition isTextSpace :: "char \<Rightarrow> bool" where
  "isTextSpace b \<longleftrightarrow> b = CHR '' '' \<or> b = CHR 0x09 \<or> b = CHR 0x0A \<or> b = CHR 0x0D
     \<or> b = CHR 0x0B \<or> b = CHR 0x0C"

definition isTextDelimiter :: "char \<Rightarrow> bool" where
  "isTextDelimiter b \<longleftrightarrow> isTextSpace b \<or> b = CHR ''{'' \<or> b = CHR ''}'' \<or> b = CHR ''=''
     \<or> b = CHR 0x22 \<or> b = CHR ''#''"

section \<open>White space and comments\<close>

text \<open>The inner loop of \<^verbatim>\<open>skipTextFiller\<close>: consume to the end of a comment line. \<open>False\<close> when the
  source ends inside the comment.\<close>

partial_function (option) skipComment :: "'s textSource \<Rightarrow> 's \<Rightarrow> ((SaveError + bool) \<times> 's) option" where
  "skipComment src s =
     bindM (peekAhead src textScanChunk) (\<lambda>line s.
       if line = [] then returnM False s
       else
         let end = spanLen (\<lambda>b. b \<noteq> CHR 0x0A) line in
         if end < length line then returnM True (discard src (end + 1) s)
         else skipComment src (discard src end s)) s"

partial_function (option) skipTextFiller :: "'s textSource \<Rightarrow> 's \<Rightarrow> ((SaveError + bool) \<times> 's) option" where
  "skipTextFiller src s =
     bindM (peekAhead src textScanChunk) (\<lambda>window s.
       if window = [] then returnM False s
       else
         let consumed = spanLen isTextSpace window in
         if consumed = length window then skipTextFiller src (discard src consumed s)
         else if window ! consumed \<noteq> CHR ''#'' then returnM True (discard src consumed s)
         else
           bindM (skipComment src) (\<lambda>more s.
             if more then skipTextFiller src s else returnM False s)
             (discard src consumed s)) s"

section \<open>Quoted scalars\<close>

text \<open>\<^verbatim>\<open>scanQuotedBody\<close>: the loop over \<open>window\<close> from index 1. The result is the index one past the
  closing quote if there is one, and whether an escape was seen.\<close>

fun scanQuotedFrom :: "nat \<Rightarrow> bool \<Rightarrow> bytes \<Rightarrow> nat option \<times> bool" where
  "scanQuotedFrom index escapes [] = (None, escapes)"
| "scanQuotedFrom index escapes (c # cs) =
     (if c = CHR 0x5C then
        (case cs of
           [] \<Rightarrow> (None, True)
         | _ # rest \<Rightarrow> scanQuotedFrom (index + 2) True rest)
      else if c = CHR 0x22 then (Some (index + 1), escapes)
      else scanQuotedFrom (index + 1) escapes cs)"

definition scanQuotedBody :: "bytes \<Rightarrow> nat option \<times> bool" where
  "scanQuotedBody window = scanQuotedFrom 1 False (tl window)"

fun unescapeTextScalar :: "bytes \<Rightarrow> bytes" where
  "unescapeTextScalar [] = []"
| "unescapeTextScalar (c # cs) =
     (if c = CHR 0x5C then
        (case cs of
           [] \<Rightarrow> [c]
         | d # rest \<Rightarrow> d # unescapeTextScalar rest)
      else c # unescapeTextScalar cs)"

partial_function (option) decodeTextQuotedFrom ::
  "'s textSource \<Rightarrow> Limits \<Rightarrow> nat \<Rightarrow> 's \<Rightarrow> ((SaveError + Token) \<times> 's) option" where
  "decodeTextQuotedFrom src limits sz s =
     bindM (peekAhead src sz) (\<lambda>window s.
       if window = [] \<or> hd window \<noteq> CHR 0x22
       then failM (newError ErrMalformedToken ''a quoted scalar does not begin with a quote'') s
       else case scanQuotedBody window of
         (Some end, escapes) \<Rightarrow>
           if int end - 1 > MaxStringBytes limits
           then failM (newError ErrTooLarge ''a scalar string exceeds the configured limit'') s
           else
             let raw = take (end - 2) (drop 1 window);
                 text = (if escapes then unescapeTextScalar raw else raw)
             in returnM ((tokenOf KindQuoted)\<lparr>Text := text\<rparr>) (discard src end s)
       | (None, escapes) \<Rightarrow>
           if length window < sz
           then failM (newError ErrTruncated ''a quoted scalar is not closed before the section ends'') s
           else if int sz > MaxStringBytes limits
           then failM (newError ErrTooLarge ''a scalar string exceeds the configured limit'') s
           else decodeTextQuotedFrom src limits (sz * 2) s) s"

definition decodeTextQuoted :: "'s textSource \<Rightarrow> Limits \<Rightarrow> ('s, Token) save_m" where
  "decodeTextQuoted src limits = decodeTextQuotedFrom src limits textScanChunk"

section \<open>Unquoted scalars\<close>

text \<open>\<^verbatim>\<open>isTextDecimal\<close>: the \<open>-?digits.digits\<close> shape, with \<open>digits\<close> and \<open>dots\<close> counted along.\<close>

fun decimalScan :: "nat \<Rightarrow> nat \<Rightarrow> bytes \<Rightarrow> bool" where
  "decimalScan digits dots [] = (dots = 1 \<and> digits > 0)"
| "decimalScan digits dots (c # cs) =
     (if isDigit c then decimalScan (Suc digits) dots cs
      else if c = CHR ''.'' then
        (if Suc dots > 1 then False else decimalScan digits (Suc dots) cs)
      else False)"

definition dropSign :: "bytes \<Rightarrow> bytes" where
  "dropSign raw =
     (case raw of
        [] \<Rightarrow> []
      | c # cs \<Rightarrow> if c = CHR ''-'' \<or> c = CHR ''+'' then cs else raw)"

definition isTextDecimal :: "bytes \<Rightarrow> bool" where
  "isTextDecimal raw = decimalScan 0 0 (dropSign raw)"

text \<open>\<^verbatim>\<open>strconv.ParseFloat\<close> on that shape: the correctly rounded quotient of the digits by a power
  of ten, or a range error.\<close>

definition digitsValue :: "bytes \<Rightarrow> nat" where
  "digitsValue ds = fold (\<lambda>c acc. acc * 10 + (byteOf c - 48)) ds 0"

definition parseFloatDecimal :: "bytes \<Rightarrow> float64 option" where
  "parseFloatDecimal raw =
     (let body = dropSign raw;
          whole = takeWhile (\<lambda>c. c \<noteq> CHR ''.'') body;
          frac = drop (Suc (length whole)) body;
          n = digitsValue (whole @ frac);
          d = 10 ^ length frac
      in if f64Overflows n d then None
         else Some (f64OfRat (take 1 raw = [CHR ''-'']) n d))"

definition classifyTextScalar :: "bytes \<Rightarrow> Token" where
  "classifyTextScalar raw =
     (if raw = ''yes'' then (tokenOf KindBool)\<lparr>Bool := True, Text := raw\<rparr>
      else if raw = ''no'' then (tokenOf KindBool)\<lparr>Bool := False, Text := raw\<rparr>
      else case parseInt raw of
        Some value \<Rightarrow> (tokenOf KindI64)\<lparr>Signed := word_of_int value, Text := raw\<rparr>
      | None \<Rightarrow>
          (case (if isTextDecimal raw then parseFloatDecimal raw else None) of
             Some value \<Rightarrow> (tokenOf KindDecimal)\<lparr>Text := raw, Bits := leBytes 8 (unat value)\<rparr>
           | None \<Rightarrow> (tokenOf KindUnquoted)\<lparr>Text := raw\<rparr>))"

partial_function (option) decodeTextUnquotedFrom ::
  "'s textSource \<Rightarrow> Limits \<Rightarrow> nat \<Rightarrow> 's \<Rightarrow> ((SaveError + Token) \<times> 's) option" where
  "decodeTextUnquotedFrom src limits sz s =
     bindM (peekAhead src sz) (\<lambda>window s.
       let end = spanLen (\<lambda>b. \<not> isTextDelimiter b) window in
       if end < length window \<or> length window < sz then
         (if end = 0
          then failM (newError ErrMalformedToken ''an unquoted scalar is empty'') s
          else if int end > MaxStringBytes limits
          then failM (newError ErrTooLarge ''a scalar string exceeds the configured limit'') s
          else returnM (classifyTextScalar (take end window)) (discard src end s))
       else if int sz > MaxStringBytes limits
       then failM (newError ErrTooLarge ''a scalar string exceeds the configured limit'') s
       else decodeTextUnquotedFrom src limits (sz * 2) s) s"

definition decodeTextUnquoted :: "'s textSource \<Rightarrow> Limits \<Rightarrow> ('s, Token) save_m" where
  "decodeTextUnquoted src limits = decodeTextUnquotedFrom src limits textScanChunk"

section \<open>Colours\<close>

definition isColourName :: "bytes \<Rightarrow> bool" where
  "isColourName raw \<longleftrightarrow> raw = ''rgb'' \<or> raw = ''hsv'' \<or> raw = ''hsv360''"

text \<open>One channel of a colour: an integer, or a fraction scaled by 255.\<close>

definition colourChannel :: "Token \<Rightarrow> 32 word option" where
  "colourChannel component =
     (case Kind component of
        KindI64 \<Rightarrow> Some (ucast (Signed component))
      | KindDecimal \<Rightarrow> Some (f64ToU32 (f64MulNat (textDecimal component) 255))
      | _ \<Rightarrow> None)"

partial_function (option) decodeColourChannels ::
  "'s textSource \<Rightarrow> Limits \<Rightarrow> nat \<Rightarrow> Token \<Rightarrow> 's \<Rightarrow> ((SaveError + Token) \<times> 's) option" where
  "decodeColourChannels src limits channel token s =
     bindM (skipTextFiller src) (\<lambda>_.
     bindM (peekAhead src 1) (\<lambda>window s.
       if window = []
       then failM (newError ErrTruncated ''a colour value is not closed before the section ends'') s
       else if hd window = CHR ''}''
       then returnM (token\<lparr>RGBHasAlpha := (channel > 3)\<rparr>) (discard src 1 s)
       else bindM (decodeTextUnquoted src limits) (\<lambda>component s.
         if channel < 4 then
           (case colourChannel component of
              None \<Rightarrow> failM (newError ErrMalformedToken
                ''a colour channel is neither a number nor a fraction'') s
            | Some v \<Rightarrow>
                decodeColourChannels src limits (channel + 1)
                  (token\<lparr>RGB := (RGB token)[channel := v]\<rparr>) s)
         else failM (newError ErrMalformedToken ''a colour value has too many channels'') s) s)) s"

definition decodeTextColour :: "'s textSource \<Rightarrow> Limits \<Rightarrow> ('s, Token) save_m" where
  "decodeTextColour src limits =
     bindM (skipTextFiller src) (\<lambda>remaining.
       if \<not> remaining then returnM ((tokenOf KindUnquoted)\<lparr>Text := ''rgb''\<rparr>)
       else bindM (peekAhead src 1) (\<lambda>window.
         if window = [] \<or> hd window \<noteq> CHR ''{''
         then returnM ((tokenOf KindUnquoted)\<lparr>Text := ''rgb''\<rparr>)
         else bindM (discardM src 1) (\<lambda>_.
           decodeColourChannels src limits 0 (tokenOf KindRGB))))"

section \<open>Tokens\<close>

definition decodeTextToken :: "'s textSource \<Rightarrow> Limits \<Rightarrow> ('s \<times> Counters, Token) save_m" where
  "decodeTextToken src limits =
     bindM (countToken limits) (\<lambda>_.
     bindM (onSource (skipTextFiller src)) (\<lambda>remaining.
     if \<not> remaining
     then failM (newError ErrTruncated ''the section ended where a token was expected'')
     else
       bindM (onSource (peekAhead src 1)) (\<lambda>window.
         if hd window = CHR ''{''
         then bindM (onSource (discardM src 1)) (\<lambda>_. openContainer limits)
         else if hd window = CHR ''}'' then closeContainer (discard src 1)
         else if hd window = CHR ''=''
         then bindM (onSource (discardM src 1)) (\<lambda>_. returnM (tokenOf KindEqual))
         else if hd window = CHR 0x22 then onSource (decodeTextQuoted src limits)
         else bindM (onSource (decodeTextUnquoted src limits)) (\<lambda>token.
           if Kind token = KindUnquoted \<and> isColourName (Text token)
           then onSource (decodeTextColour src limits)
           else returnM token))))"

section \<open>Dates written as text\<close>

text \<open>
  \<^verbatim>\<open>textDate\<close>. The components are the array \<^verbatim>\<open>[4]int\<close>; \<open>None\<close> is the run-time panic of writing
  \<^verbatim>\<open>components[4]\<close>, which a fifth dotted number reaches because the component count is only
  checked at a separator. \<open>Some []\<close> is the empty string the code returns for anything that is
  not a date.
\<close>

definition dateRanges :: "nat list \<Rightarrow> nat \<Rightarrow> bool" where
  "dateRanges comps count \<longleftrightarrow>
     \<not> count < 3
     \<and> \<not> (comps ! 1 < 1 \<or> comps ! 1 > 12 \<or> comps ! 2 < 1 \<or> comps ! 2 > 31)
     \<and> \<not> (count = 4 \<and> comps ! 3 > 23)"

fun textDateScan :: "nat list \<Rightarrow> nat \<Rightarrow> nat \<Rightarrow> bytes \<Rightarrow> bool option" where
  "textDateScan comps count digits [] =
     (if digits = 0 \<or> count = length comps then Some False
      else Some (dateRanges comps (Suc count)))"
| "textDateScan comps count digits (c # cs) =
     (if c = CHR ''.'' then
        (if digits = 0 \<or> count = length comps then Some False
         else textDateScan comps (Suc count) 0 cs)
      else if \<not> isDigit c then Some False
      else if count \<ge> length comps then None
      else
        let v = comps ! count * 10 + (byteOf c - 48) in
        if int v > 2 ^ 20 then Some False
        else textDateScan (comps[count := v]) count (Suc digits) cs)"

definition textDate :: "bytes \<Rightarrow> bytes option" where
  "textDate raw =
     (case textDateScan [0, 0, 0, 0] 0 0 raw of
        None \<Rightarrow> None
      | Some ok \<Rightarrow> Some (if ok then raw else []))"

section \<open>Interning field names\<close>

definition maxInternedNames :: int where
  "maxInternedNames = 4096"

text \<open>\<^verbatim>\<open>nameTable\<close>: the map is an association list, one entry per interned name.\<close>

type_synonym nameTable = "(bytes \<times> bytes) list"

definition intern :: "nameTable \<Rightarrow> bytes \<Rightarrow> bytes \<times> nameTable" where
  "intern t raw =
     (case map_of t raw of
        Some name \<Rightarrow> (name, t)
      | None \<Rightarrow>
          if int (length t) \<ge> maxInternedNames then (raw, t)
          else (raw, (raw, raw) # t))"

text \<open>The loops run as they are written.\<close>

declare skipComment.simps [code]
  skipTextFiller.simps [code]
  decodeTextQuotedFrom.simps [code]
  decodeTextUnquotedFrom.simps [code]
  decodeColourChannels.simps [code]

end
