(* ===== verification/TokenMap.thy ===== *)
theory TokenMap
  imports SaveFile
begin

text \<open>
  \<^verbatim>\<open>internal/savefile/tokens.go\<close>: the map from raw binary identifiers to field names, its text
  format, and the choice of a map by coverage. \<^verbatim>\<open>map[uint16]string\<close> is an association list with
  at most one entry per identifier.
\<close>

definition tokenMapMaxBytes :: int where "tokenMapMaxBytes = 16 * 2 ^ 20"
definition tokenMapMaxLineLen :: int where "tokenMapMaxLineLen = 4 * 2 ^ 10"
definition tokenMapMaxNameLen :: int where "tokenMapMaxNameLen = 256"
definition tokenMapMinEntries :: int where "tokenMapMinEntries = 1"
definition tokenMapMaxEntries :: int where "tokenMapMaxEntries = 2 ^ 20"

definition tokenMapNameCharset :: bytes where
  "tokenMapNameCharset = ''abcdefghijklmnopqrstuvwxyzABCDEFGHIJKLMNOPQRSTUVWXYZ0123456789_.''"

record TokenMap =
  Label :: bytes
  mapNames :: "(16 word \<times> bytes) list"

text \<open>\<^verbatim>\<open>TokenMap.Lookup\<close> and \<^verbatim>\<open>TokenMap.Size\<close>.\<close>

definition Lookup_id :: "TokenMap \<Rightarrow> 16 word \<Rightarrow> bytes option" where
  "Lookup_id m idn = map_of (mapNames m) idn"

definition Size :: "TokenMap \<Rightarrow> nat" where
  "Size m = length (mapNames m)"

section \<open>The text format\<close>

text \<open>One line of \<^verbatim>\<open>ParseTokenMap\<close>, with the checks in the order of the code. The charset is ASCII,
  so a name has an unsupported rune exactly when one of its bytes is outside the charset.\<close>

definition parseTokenLine ::
  "nat \<Rightarrow> (16 word \<times> bytes) list \<Rightarrow> bytes \<Rightarrow> SaveError + (16 word \<times> bytes) list" where
  "parseTokenLine number names rawLine =
     (let line = (if hasSuffix rawLine [CHR 0x0D] then butlast rawLine else rawLine);
          bad = (\<lambda>k d. Inl (newErrorf k [Lit ''token map line '', Num (int number), Lit d]))
      in
      if int (length line) > tokenMapMaxLineLen then bad ErrTooLarge '' exceeds its length limit''
      else
        let trimmed = trimSpace line in
        if trimmed = [] then Inr names
        else case indexByte trimmed (CHR '' '') of
          None \<Rightarrow> bad ErrTokenMap '' has no token/name separator''
        | Some cutAt \<Rightarrow>
            let idn = take cutAt trimmed; name = trimSpace (drop (cutAt + 1) trimmed) in
            if name = [] \<or> int (length name) > tokenMapMaxNameLen
            then bad ErrTokenMap '' has an empty or oversized name''
            else if \<exists>c \<in> set name. c \<notin> set tokenMapNameCharset
            then bad ErrTokenMap '' has an unsupported character in its name''
            else if \<not> hasPrefix idn ''0x''
            then bad ErrTokenMap '' does not begin with a 0x identifier''
            else case parseUint 16 16 (drop 2 idn) of
              None \<Rightarrow> bad ErrTokenMap '' has a malformed identifier''
            | Some value \<Rightarrow>
                if map_of names (word_of_nat value) \<noteq> None
                then Inl (newErrorf ErrTokenMap
                  [Lit ''token map line '', Num (int number), Lit '' repeats identifier '', Lit idn])
                else if int (length names) \<ge> tokenMapMaxEntries
                then Inl (newError ErrTooLarge ''the token map exceeds its entry limit'')
                else Inr ((word_of_nat value, name) # names))"

fun parseTokenLines ::
  "nat \<Rightarrow> (16 word \<times> bytes) list \<Rightarrow> bytes list \<Rightarrow> SaveError + (16 word \<times> bytes) list" where
  "parseTokenLines number names [] = Inr names"
| "parseTokenLines number names (line # lines) =
     (case parseTokenLine number names line of
        Inl e \<Rightarrow> Inl e
      | Inr names' \<Rightarrow> parseTokenLines (number + 1) names' lines)"

definition ParseTokenMap :: "bytes \<Rightarrow> bytes \<Rightarrow> SaveError + TokenMap" where
  "ParseTokenMap label raw =
     (case parseTokenLines 1 [] (splitOn (CHR 0x0A) raw) of
        Inl e \<Rightarrow> Inl e
      | Inr names \<Rightarrow>
          if int (length names) < tokenMapMinEntries
          then Inl (newError ErrTokenMap ''the token map is empty'')
          else Inr \<lparr>Label = label, mapNames = names\<rparr>)"

text \<open>\<^verbatim>\<open>LoadTokenMap\<close> once the file is open: \<open>content\<close> is what the file holds, of which at most one
  byte more than the limit is read.\<close>

definition LoadTokenMapFrom :: "bytes \<Rightarrow> bytes \<Rightarrow> SaveError + TokenMap" where
  "LoadTokenMapFrom label content =
     (let raw = take (nat (tokenMapMaxBytes + 1)) content in
      if int (length raw) > tokenMapMaxBytes
      then Inl (newError ErrTooLarge ''the token map exceeds its size limit'')
      else ParseTokenMap label raw)"

section \<open>Choosing a map by coverage\<close>

definition tokenMapNotNeeded :: bytes where
  "tokenMapNotNeeded = ''(not needed: text save)''"

record Coverage =
  ObservedIdentifiers :: nat
  ResolvedIdentifiers :: nat
  Complete :: bool
  CoverageMap :: bytes

definition resolvedBy :: "TokenMap \<Rightarrow> 16 word list \<Rightarrow> nat" where
  "resolvedBy m observed = length [i \<leftarrow> observed. Lookup_id m i \<noteq> None]"

text \<open>The loop of \<^verbatim>\<open>SelectTokenMap\<close>: \<open>best\<close> is the best map so far with its count; a complete map
  ends the search.\<close>

definition improveBest ::
  "16 word list \<Rightarrow> (TokenMap \<times> nat) option \<Rightarrow> TokenMap \<Rightarrow> (TokenMap \<times> nat) option" where
  "improveBest observed best candidate =
     (let resolved = resolvedBy candidate observed in
      case best of
        None \<Rightarrow> Some (candidate, resolved)
      | Some (m, r) \<Rightarrow> if resolved > r then Some (candidate, resolved) else best)"

fun selectLoop ::
  "16 word list \<Rightarrow> (TokenMap \<times> nat) option \<Rightarrow> TokenMap list \<Rightarrow> (TokenMap \<times> nat) option" where
  "selectLoop observed best [] = best"
| "selectLoop observed best (candidate # rest) =
     (if resolvedBy candidate observed = length observed then improveBest observed best candidate
      else selectLoop observed (improveBest observed best candidate) rest)"

definition SelectTokenMap ::
  "TokenMap list \<Rightarrow> 16 word list \<Rightarrow> TokenMap option \<times> Coverage \<times> SaveError option" where
  "SelectTokenMap maps observed =
     (if maps = [] then
        (None,
         \<lparr>ObservedIdentifiers = length observed, ResolvedIdentifiers = 0, Complete = False,
          CoverageMap = []\<rparr>,
         Some (newError ErrTokenMap ''no token maps are configured, so no field can be named''))
      else case selectLoop observed None maps of
        None \<Rightarrow> (None, \<lparr>ObservedIdentifiers = length observed, ResolvedIdentifiers = 0,
          Complete = (0 = length observed), CoverageMap = []\<rparr>, None)
      | Some (m, r) \<Rightarrow>
          let cov = \<lparr>ObservedIdentifiers = length observed, ResolvedIdentifiers = r,
                      Complete = (r = length observed), CoverageMap = Label m\<rparr>
          in if r = length observed then (Some m, cov, None)
             else (Some m, cov, Some (newErrorf ErrTokenMap
               [Lit ''no configured token map names every field this save uses (best match '',
                Lit (Label m), Lit '' resolved '', Num (int r), Lit '' of '',
                Num (int (length observed)),
                Lit ''); generate a map for this CK3 version''])))"

subsection \<open>What a successful parse guarantees\<close>

definition validMapEntries :: "(16 word \<times> bytes) list \<Rightarrow> bool" where
  "validMapEntries ns \<longleftrightarrow>
     distinct (map fst ns) \<and>
     (\<forall>name \<in> snd ` set ns. name \<noteq> [] \<and> int (length name) \<le> tokenMapMaxNameLen
        \<and> set name \<subseteq> set tokenMapNameCharset)"

lemma parseTokenLine_valid:
  assumes "parseTokenLine number names line = Inr names'" and "validMapEntries names"
  shows "validMapEntries names'"
  using assms
  by (auto simp: parseTokenLine_def validMapEntries_def Let_def map_of_eq_None_iff
      split: if_splits option.splits)

lemma parseTokenLines_valid:
  "parseTokenLines number names lines = Inr names' \<Longrightarrow> validMapEntries names
     \<Longrightarrow> validMapEntries names'"
  by (induction lines arbitrary: number names)
     (auto split: sum.splits dest: parseTokenLine_valid)

text \<open>The error of a refused line names a token-map or size problem, never another kind.\<close>

lemma parseTokenLine_error:
  "parseTokenLine number names line = Inl e \<Longrightarrow> KindOf e = Some ErrTokenMap \<or> KindOf e = Some ErrTooLarge"
  by (auto simp: parseTokenLine_def Let_def split: if_splits option.splits)

lemma parseTokenLines_error:
  "parseTokenLines number names lines = Inl e \<Longrightarrow> KindOf e = Some ErrTokenMap \<or> KindOf e = Some ErrTooLarge"
  by (induction lines arbitrary: number names)
     (auto split: sum.splits dest: parseTokenLine_error)

subsection \<open>What the selection guarantees\<close>

lemma resolvedBy_le: "resolvedBy m observed \<le> length observed"
  by (simp add: resolvedBy_def)

lemma length_filter_eq_iff: "length (filter P xs) = length xs \<longleftrightarrow> (\<forall>x \<in> set xs. P x)"
proof (induction xs)
  case Nil
  then show ?case by simp
next
  case (Cons x xs)
  have "length (filter P xs) \<noteq> Suc (length xs)"
    using length_filter_le [of P xs] by linarith
  with Cons show ?case by auto
qed

lemma resolvedBy_complete:
  "resolvedBy m observed = length observed \<longleftrightarrow> (\<forall>i \<in> set observed. Lookup_id m i \<noteq> None)"
  by (simp add: resolvedBy_def length_filter_eq_iff)

definition bestInv :: "16 word list \<Rightarrow> (TokenMap \<times> nat) option \<Rightarrow> bool" where
  "bestInv observed best \<longleftrightarrow> (\<forall>m r. best = Some (m, r) \<longrightarrow> r = resolvedBy m observed)"

lemma improveBest_facts:
  assumes "bestInv observed best"
  obtains m r where "improveBest observed best x = Some (m, r)" and "r = resolvedBy m observed"
    and "resolvedBy x observed \<le> r" and "m = x \<or> best = Some (m, r)"
    and "\<And>m0 r0. best = Some (m0, r0) \<Longrightarrow> r0 \<le> r"
  using assms
  by (cases best) (force simp: improveBest_def bestInv_def Let_def split: if_splits)+

lemma selectLoop_best:
  assumes "selectLoop observed best maps = Some (m, r)" and "bestInv observed best"
  shows "r = resolvedBy m observed
    \<and> (m \<in> set maps \<or> best = Some (m, r))
    \<and> (\<forall>x \<in> set maps. resolvedBy x observed \<le> r)
    \<and> (\<forall>m0 r0. best = Some (m0, r0) \<longrightarrow> r0 \<le> r)"
  using assms
proof (induction maps arbitrary: best)
  case Nil
  then show ?case by (simp add: bestInv_def)
next
  case (Cons x maps)
  from Cons.prems(2) obtain m' r' where b: "improveBest observed best x = Some (m', r')"
    and r': "r' = resolvedBy m' observed" and ge: "resolvedBy x observed \<le> r'"
    and m': "m' = x \<or> best = Some (m', r')"
    and old: "\<And>m0 r0. best = Some (m0, r0) \<Longrightarrow> r0 \<le> r'"
    by (rule improveBest_facts [of observed best x]) blast
  show ?case
  proof (cases "resolvedBy x observed = length observed")
    case True
    then have "m = m'" and "r = r'" using Cons.prems(1) b by simp_all
    moreover have "length observed \<le> r'" using ge True by simp
    ultimately show ?thesis
      using r' m' old resolvedBy_le [of _ observed] by (auto intro: order_trans)
  next
    case False
    have inv: "bestInv observed (Some (m', r'))" using r' by (simp add: bestInv_def)
    have "selectLoop observed (Some (m', r')) maps = Some (m, r)"
      using Cons.prems(1) b False by simp
    from Cons.IH [OF this inv] show ?thesis
      using m' ge old by (auto dest: order_trans)
  qed
qed

lemma selectLoop_Some: "maps \<noteq> [] \<or> best \<noteq> None \<Longrightarrow> \<exists>m r. selectLoop observed best maps = Some (m, r)"
  by (induction maps arbitrary: best) (auto simp: improveBest_def Let_def split: option.splits)

end
