(* ===== verification/Decoders.thy ===== *)
theory Decoders
  imports TextToken TokenMap
begin

text \<open>
  The two decoders: \<^verbatim>\<open>Decoder\<close> (\<^verbatim>\<open>binary.go\<close>) walks a section held in memory, \<^verbatim>\<open>StreamDecoder\<close>
  (\<^verbatim>\<open>stream.go\<close>) a section read through a reusable window. Both call the one implementation of each
  grammar. A byte slice \<^verbatim>\<open>buf[start:end]\<close> of the window is modelled by its contents; the bytes of the
  buffer outside it are never read. A token's text is a copy of the bytes at the time it is
  decoded: the lifetime of \<^verbatim>\<open>Token.Text\<close> inside the shared window is not modelled.
\<close>

section \<open>The in-memory decoder\<close>

record Decoder =
  d_data :: bytes
  d_pos :: nat
  d_limits :: Limits
  d_tokens :: int
  d_depth :: int
  d_encoding :: Encoding
  d_names :: nameTable

definition NewDecoderFor :: "Encoding \<Rightarrow> bytes \<Rightarrow> Limits \<Rightarrow> Decoder" where
  "NewDecoderFor encoding data limits =
     \<lparr>d_data = data, d_pos = 0, d_limits = limits, d_tokens = 0, d_depth = 0,
      d_encoding = encoding, d_names = []\<rparr>"

definition NewDecoder :: "bytes \<Rightarrow> Limits \<Rightarrow> Decoder" where
  "NewDecoder data limits = NewDecoderFor EncodingBinary data limits"

definition Decoder_peekAhead :: "nat \<Rightarrow> (Decoder, bytes) save_m" where
  "Decoder_peekAhead n d = Some (Inr (take n (drop (d_pos d) (d_data d))), d)"

definition Decoder_discard :: "nat \<Rightarrow> Decoder \<Rightarrow> Decoder" where
  "Decoder_discard n d = d\<lparr>d_pos := d_pos d + n\<rparr>"

definition Decoder_source :: "Decoder textSource" where
  "Decoder_source = \<lparr>peekAhead = Decoder_peekAhead, discard = Decoder_discard\<rparr>"

definition Decoder_take :: "nat \<Rightarrow> (Decoder, bytes) save_m" where
  "Decoder_take n d =
     (if length (d_data d) - d_pos d < n
      then Some (Inl (newError ErrTruncated ''token payload extends past the end of the section''), d)
      else Some (Inr (take n (drop (d_pos d) (d_data d))), d\<lparr>d_pos := d_pos d + n\<rparr>))"

definition Decoder_Done :: "(Decoder, bool) save_m" where
  "Decoder_Done d =
     (if d_encoding d = EncodingText
      then (case skipTextFiller Decoder_source d of
              None \<Rightarrow> None
            | Some (Inl e, d') \<Rightarrow> Some (Inr True, d')
            | Some (Inr remaining, d') \<Rightarrow> Some (Inr (\<not> remaining), d'))
      else Some (Inr (length (d_data d) \<le> d_pos d), d))"

text \<open>Running a grammar with the decoder's own token and depth fields as the counters it updates.\<close>

definition Decoder_run :: "(Decoder \<times> Counters, 'a) save_m \<Rightarrow> (Decoder, 'a) save_m" where
  "Decoder_run m d =
     (case m (d, \<lparr>ctTokens = d_tokens d, ctDepth = d_depth d\<rparr>) of
        None \<Rightarrow> None
      | Some (r, (d', c)) \<Rightarrow> Some (r, d'\<lparr>d_tokens := ctTokens c, d_depth := ctDepth c\<rparr>))"

definition Decoder_Next :: "(Decoder, Token) save_m" where
  "Decoder_Next =
     bindM Decoder_Done (\<lambda>done.
       if done
       then failM (newError ErrTruncated ''the section ended where a token was expected'')
       else bindM getM (\<lambda>d.
         if d_encoding d = EncodingText
         then Decoder_run (decodeTextToken Decoder_source (d_limits d))
         else Decoder_run (decodeToken Decoder_take (d_limits d))))"

definition Decoder_keyName :: "Token \<Rightarrow> TokenMap option \<Rightarrow> Decoder \<Rightarrow> bytes option \<times> Decoder" where
  "Decoder_keyName token resolver d =
     (if d_encoding d = EncodingText
      then let (name, t) = intern (d_names d) (Text token) in (Some name, d\<lparr>d_names := t\<rparr>)
      else if Kind token \<noteq> KindID then (None, d)
      else case resolver of
        None \<Rightarrow> (Some [], d)
      | Some m \<Rightarrow> (Some (case Lookup_id m (ID token) of None \<Rightarrow> [] | Some n \<Rightarrow> n), d))"

text \<open>The loop of \<^verbatim>\<open>SkipValue\<close>: read tokens until the nesting is back at the target.\<close>

partial_function (option) Decoder_SkipTo :: "int \<Rightarrow> Decoder \<Rightarrow> ((SaveError + unit) \<times> Decoder) option" where
  "Decoder_SkipTo target d =
     (if d_depth d > target
      then bindM Decoder_Next (\<lambda>_. Decoder_SkipTo target) d
      else returnM () d)"

definition Decoder_SkipValue :: "Token \<Rightarrow> (Decoder, unit) save_m" where
  "Decoder_SkipValue token d =
     (if Kind token \<noteq> KindOpen then returnM () d else Decoder_SkipTo (d_depth d - 1) d)"

section \<open>The reader behind a stream\<close>

text \<open>
  An \<^verbatim>\<open>io.Reader\<close> as the answers it still has to give: data (possibly empty), data that ends the
  stream in the same call, or data followed by a failure. A call delivers at most as many bytes as
  the buffer holds and keeps the rest for the next one; an exhausted reader answers \<^verbatim>\<open>io.EOF\<close>, a
  failed one goes on failing.
\<close>

datatype readEvent =
    RData bytes
  | RDataEOF bytes
  | RFail bytes string

datatype readStatus = ReadOK | ReadEOF | ReadErr string

fun readSome :: "int \<Rightarrow> readEvent list \<Rightarrow> bytes \<times> readStatus \<times> readEvent list" where
  "readSome k [] = ([], ReadEOF, [])"
| "readSome k (RData b # es) =
     (if int (length b) \<le> k then (b, ReadOK, es) else (take (nat k) b, ReadOK, RData (drop (nat k) b) # es))"
| "readSome k (RDataEOF b # es) =
     (if int (length b) \<le> k then (b, ReadEOF, []) else (take (nat k) b, ReadOK, RDataEOF (drop (nat k) b) # es))"
| "readSome k (RFail b m # es) =
     (if int (length b) \<le> k then (b, ReadErr m, [RFail [] m])
      else (take (nat k) b, ReadOK, RFail (drop (nat k) b) m # es))"

section \<open>The streaming decoder\<close>

record StreamDecoder =
  sd_src :: "readEvent list"
  sd_win :: bytes
  sd_start :: nat
  sd_cap :: int
  sd_eof :: bool
  sd_limits :: Limits
  sd_tokens :: int
  sd_depth :: int
  sd_read :: int
  sd_encoding :: Encoding
  sd_names :: nameTable

definition streamBufferBytes :: int where
  "streamBufferBytes = 2 ^ 20"

definition NewStreamDecoderFor :: "Encoding \<Rightarrow> readEvent list \<Rightarrow> Limits \<Rightarrow> StreamDecoder" where
  "NewStreamDecoderFor encoding src limits =
     \<lparr>sd_src = src, sd_win = [], sd_start = 0, sd_cap = streamBufferBytes, sd_eof = False,
      sd_limits = limits, sd_tokens = 0, sd_depth = 0, sd_read = 0, sd_encoding = encoding,
      sd_names = []\<rparr>"

definition NewStreamDecoder :: "readEvent list \<Rightarrow> Limits \<Rightarrow> StreamDecoder" where
  "NewStreamDecoder src limits = NewStreamDecoderFor EncodingBinary src limits"

text \<open>\<^verbatim>\<open>d.end\<close>, the end of the window in the buffer.\<close>

definition sd_end :: "StreamDecoder \<Rightarrow> nat" where
  "sd_end d = sd_start d + length (sd_win d)"

definition StreamDecoder_fill :: "(StreamDecoder, unit) save_m" where
  "StreamDecoder_fill d =
     (if sd_eof d then Some (Inl (ForeignError ''EOF''), d)
      else
        let d1 = d\<lparr>sd_start := 0\<rparr> in
        if int (sd_end d1) = sd_cap d1 then Some (Inr (), d1)
        else
          let (n, status, src) = readSome (sd_cap d1 - int (sd_end d1)) (sd_src d1);
              d2 = d1\<lparr>sd_win := sd_win d1 @ n, sd_src := src\<rparr>
          in case status of
               ReadOK \<Rightarrow> Some (Inr (), d2)
             | ReadEOF \<Rightarrow> Some (Inr (), d2\<lparr>sd_eof := True\<rparr>)
             | ReadErr m \<Rightarrow> Some (Inl (wrapError ErrTruncated ''the section could not be read'' m), d2))"

text \<open>Growing the buffer to \<open>n\<close> bytes when one scalar is wider than it.\<close>

definition StreamDecoder_grow :: "nat \<Rightarrow> StreamDecoder \<Rightarrow> StreamDecoder" where
  "StreamDecoder_grow n d = (if int n > sd_cap d then d\<lparr>sd_cap := int n, sd_start := 0\<rparr> else d)"

definition StreamDecoder_discard :: "nat \<Rightarrow> StreamDecoder \<Rightarrow> StreamDecoder" where
  "StreamDecoder_discard n d =
     d\<lparr>sd_start := sd_start d + n, sd_win := drop n (sd_win d), sd_read := sd_read d + int n\<rparr>"

text \<open>The loop of \<^verbatim>\<open>take\<close>: refill until the window holds \<open>n\<close> bytes or the reader is exhausted.\<close>

partial_function (option) StreamDecoder_takeLoop ::
  "nat \<Rightarrow> StreamDecoder \<Rightarrow> ((SaveError + unit) \<times> StreamDecoder) option" where
  "StreamDecoder_takeLoop n d =
     (if length (sd_win d) < n then
        (if sd_eof d
         then failM (newError ErrTruncated ''token payload extends past the end of the section'') d
         else bindM StreamDecoder_fill (\<lambda>_. StreamDecoder_takeLoop n) d)
      else returnM () d)"

definition StreamDecoder_take :: "nat \<Rightarrow> (StreamDecoder, bytes) save_m" where
  "StreamDecoder_take n d =
     bindM (StreamDecoder_takeLoop n) (\<lambda>_ d.
       Some (Inr (take n (sd_win d)), StreamDecoder_discard n d)) (StreamDecoder_grow n d)"

partial_function (option) StreamDecoder_peekLoop ::
  "nat \<Rightarrow> StreamDecoder \<Rightarrow> ((SaveError + unit) \<times> StreamDecoder) option" where
  "StreamDecoder_peekLoop n d =
     (if length (sd_win d) < n \<and> \<not> sd_eof d
      then bindM StreamDecoder_fill (\<lambda>_. StreamDecoder_peekLoop n) d
      else returnM () d)"

definition StreamDecoder_peekAhead :: "nat \<Rightarrow> (StreamDecoder, bytes) save_m" where
  "StreamDecoder_peekAhead n d =
     bindM (StreamDecoder_peekLoop n) (\<lambda>_ d. Some (Inr (take n (sd_win d)), d)) (StreamDecoder_grow n d)"

definition StreamDecoder_source :: "StreamDecoder textSource" where
  "StreamDecoder_source = \<lparr>peekAhead = StreamDecoder_peekAhead, discard = StreamDecoder_discard\<rparr>"

definition StreamDecoder_Done :: "(StreamDecoder, bool) save_m" where
  "StreamDecoder_Done d =
     (if sd_encoding d = EncodingText
      then (case skipTextFiller StreamDecoder_source d of
              None \<Rightarrow> None
            | Some (Inl e, d') \<Rightarrow> Some (Inr True, d')
            | Some (Inr remaining, d') \<Rightarrow> Some (Inr (\<not> remaining), d'))
      else if sd_win d \<noteq> [] then Some (Inr False, d)
      else if sd_eof d then Some (Inr True, d)
      else (case StreamDecoder_fill d of
              None \<Rightarrow> None
            | Some (Inl e, d') \<Rightarrow> Some (Inr True, d')
            | Some (Inr _, d') \<Rightarrow> Some (Inr (sd_win d' = [] \<and> sd_eof d'), d')))"

definition StreamDecoder_run :: "(StreamDecoder \<times> Counters, 'a) save_m \<Rightarrow> (StreamDecoder, 'a) save_m" where
  "StreamDecoder_run m d =
     (case m (d, \<lparr>ctTokens = sd_tokens d, ctDepth = sd_depth d\<rparr>) of
        None \<Rightarrow> None
      | Some (r, (d', c)) \<Rightarrow> Some (r, d'\<lparr>sd_tokens := ctTokens c, sd_depth := ctDepth c\<rparr>))"

definition StreamDecoder_Next :: "(StreamDecoder, Token) save_m" where
  "StreamDecoder_Next =
     bindM StreamDecoder_Done (\<lambda>done.
       if done
       then failM (newError ErrTruncated ''the section ended where a token was expected'')
       else bindM getM (\<lambda>d.
         if sd_encoding d = EncodingText
         then StreamDecoder_run (decodeTextToken StreamDecoder_source (sd_limits d))
         else StreamDecoder_run (decodeToken StreamDecoder_take (sd_limits d))))"

definition StreamDecoder_keyName ::
  "Token \<Rightarrow> TokenMap option \<Rightarrow> StreamDecoder \<Rightarrow> bytes option \<times> StreamDecoder" where
  "StreamDecoder_keyName token resolver d =
     (if sd_encoding d = EncodingText
      then let (name, t) = intern (sd_names d) (Text token) in (Some name, d\<lparr>sd_names := t\<rparr>)
      else if Kind token \<noteq> KindID then (None, d)
      else case resolver of
        None \<Rightarrow> (Some [], d)
      | Some m \<Rightarrow> (Some (case Lookup_id m (ID token) of None \<Rightarrow> [] | Some n \<Rightarrow> n), d))"

definition StreamDecoder_entryKey ::
  "Token \<Rightarrow> TokenMap option \<Rightarrow> StreamDecoder \<Rightarrow> bytes option \<times> StreamDecoder" where
  "StreamDecoder_entryKey token resolver d =
     (if \<not> IsScalar token then (None, d)
      else if Kind token = KindU32 \<or> Kind token = KindU64
      then (Some (formatNat (unat (Unsigned token))), d)
      else if Kind token = KindI32 \<or> Kind token = KindI64
      then (if sd_encoding d = EncodingText
            then let (name, t) = intern (sd_names d) (Text token) in (Some name, d\<lparr>sd_names := t\<rparr>)
            else (Some (formatInt (sint (Signed token))), d))
      else StreamDecoder_keyName token resolver d)"

partial_function (option) StreamDecoder_SkipToDepth ::
  "int \<Rightarrow> StreamDecoder \<Rightarrow> ((SaveError + unit) \<times> StreamDecoder) option" where
  "StreamDecoder_SkipToDepth target d =
     (if sd_depth d > target
      then bindM StreamDecoder_Next (\<lambda>_. StreamDecoder_SkipToDepth target) d
      else returnM () d)"

definition StreamDecoder_SkipValue :: "Token \<Rightarrow> (StreamDecoder, unit) save_m" where
  "StreamDecoder_SkipValue token d =
     (if Kind token \<noteq> KindOpen then returnM () d
      else StreamDecoder_SkipToDepth (sd_depth d - 1) d)"

text \<open>The loops run as they are written.\<close>

declare Decoder_SkipTo.simps [code]
  StreamDecoder_takeLoop.simps [code]
  StreamDecoder_peekLoop.simps [code]
  StreamDecoder_SkipToDepth.simps [code]

end
