(* ===== verification/SourceSpec.thy ===== *)
theory SourceSpec
  imports Decoders
begin

text \<open>
  What a token is, independent of how the bytes are held: the text grammar as a total function on
  the remaining bytes, and the binary grammar over the source that is the list of remaining
  bytes. The locales \<open>take_source\<close> and \<open>text_source\<close> state what the two grammars rely on from a source;
  inside them each grammar is shown to simulate its specification. Both decoders provide both
  interfaces.
\<close>

section \<open>The binary grammar over a take function\<close>

definition truncatedTake :: SaveError where
  "truncatedTake = newError ErrTruncated ''token payload extends past the end of the section''"

definition pureTake :: "bytes takeFunc" where
  "pureTake n bs =
     (if length bs < n then Some (Inl truncatedTake, bs) else Some (Inr (take n bs), drop n bs))"

definition pairAbs :: "('s \<Rightarrow> 't) \<Rightarrow> 's \<times> Counters \<Rightarrow> 't \<times> Counters" where
  "pairAbs ab = (\<lambda>(s, c). (ab s, c))"

definition pairOk :: "('s \<Rightarrow> bool) \<Rightarrow> 's \<times> Counters \<Rightarrow> bool" where
  "pairOk ok = (\<lambda>(s, c). ok s)"

lemma simulates_onSource [sim_intros]:
  "simulates ok ab m n \<Longrightarrow> simulates (pairOk ok) (pairAbs ab) (onSource m) (onSource n)"
  by (fastforce simp: simulates_def onSource_def pairOk_def pairAbs_def)

lemma simulates_countToken [sim_intros]:
  "simulates (pairOk ok) (pairAbs ab) (countToken limits) (countToken limits)"
  by (auto simp: simulates_def countToken_def pairOk_def pairAbs_def Let_def)

lemma simulates_openContainer [sim_intros]:
  "simulates (pairOk ok) (pairAbs ab) (openContainer limits) (openContainer limits)"
  by (auto simp: simulates_def openContainer_def pairOk_def pairAbs_def Let_def)

lemma simulates_closeContainer_id [sim_intros]:
  "simulates (pairOk ok) (pairAbs ab) (closeContainer (\<lambda>s. s)) (closeContainer (\<lambda>s. s))"
  by (auto simp: simulates_def closeContainer_def pairOk_def pairAbs_def Let_def)

lemma rel_option_if:
  assumes "c \<Longrightarrow> rel_option R a b" and "\<not> c \<Longrightarrow> rel_option R a' b'"
  shows "rel_option R (if c then a else a') (if c then b else b')"
  using assms by simp

lemma rel_option_Some: "R a b \<Longrightarrow> rel_option R (Some a) (Some b)"
  by simp

lemma rel_option_None: "rel_option R None None"
  by simp

locale take_source =
  fixes tk :: "'s takeFunc" and rest :: "'s \<Rightarrow> bytes" and ok :: "'s \<Rightarrow> bool"
  assumes take_law: "simulates ok rest (tk n) (pureTake n)"
begin

lemma readU16_sim [sim_intros]: "simulates ok rest (readU16 tk) (readU16 pureTake)"
  unfolding readU16_def by (intro sim_intros take_law)

lemma readString_sim [sim_intros]: "simulates ok rest (readString tk l) (readString pureTake l)"
  unfolding readString_def by (intro sim_intros take_law)

lemma channel_sim [sim_intros]:
  "simulates ok rest (readRGBChannel tk) (readRGBChannel pureTake)"
  unfolding readRGBChannel_def by (intro sim_intros take_law)

lemma decodeRGB_sim [sim_intros]: "simulates ok rest (decodeRGB tk) (decodeRGB pureTake)"
  unfolding decodeRGB_def by (intro sim_intros take_law)

lemma decodePayload_sim:
  "rel_option (simulates ok rest) (decodePayload tk l idn) (decodePayload pureTake l idn)"
  unfolding decodePayload_def
  by (intro rel_option_if rel_option_Some rel_option_None sim_intros take_law)

lemma decodeToken_sim:
  "simulates (pairOk ok) (pairAbs rest) (decodeToken tk l) (decodeToken pureTake l)"
proof -
  have payload: "simulates (pairOk ok) (pairAbs rest)
      (case decodePayload tk l idn of Some m \<Rightarrow> onSource m | None \<Rightarrow> x)
      (case decodePayload pureTake l idn of Some m \<Rightarrow> onSource m | None \<Rightarrow> y)"
    if "simulates (pairOk ok) (pairAbs rest) x y" for idn x y
    using decodePayload_sim [of l idn] that
    by (cases "decodePayload tk l idn"; cases "decodePayload pureTake l idn")
       (auto intro: sim_intros)
  show ?thesis
    unfolding decodeToken_def by (intro sim_intros payload)
qed

end

section \<open>The text grammar on the remaining bytes\<close>

function specFiller :: "bytes \<Rightarrow> bytes" where
  "specFiller bs =
     (case dropWhile isTextSpace bs of
        [] \<Rightarrow> []
      | c # cs \<Rightarrow>
          if c = CHR ''#'' then specFiller (tl (dropWhile (\<lambda>b. b \<noteq> CHR 0x0A) cs)) else c # cs)"
  by pat_completeness auto
termination
proof (relation "measure length", goal_cases)
  case 1
  then show ?case by simp
next
  case (2 bs c cs)
  then have "length cs < length bs"
    using length_dropWhile_le [of isTextSpace bs] by simp
  then show ?case
    using length_dropWhile_le [of "\<lambda>b. b \<noteq> CHR 0x0A" cs] by simp
qed

declare specFiller.simps [simp del]

definition specUnquoted :: "Limits \<Rightarrow> bytes \<Rightarrow> (SaveError + Token) \<times> bytes" where
  "specUnquoted limits bs =
     (let n = spanLen (\<lambda>b. \<not> isTextDelimiter b) bs in
      if n = 0 then (Inl (newError ErrMalformedToken ''an unquoted scalar is empty''), bs)
      else if int n > MaxStringBytes limits
      then (Inl (newError ErrTooLarge ''a scalar string exceeds the configured limit''), bs)
      else (Inr (classifyTextScalar (take n bs)), drop n bs))"

text \<open>An unclosed quote is reported by whichever limit the growing look-ahead of the code meets
  first: the end of the section or the string limit.\<close>

function unclosedTooLarge :: "nat \<Rightarrow> int \<Rightarrow> nat \<Rightarrow> bool" where
  "unclosedTooLarge sz limit len =
     (if len < sz \<or> sz = 0 then False
      else if int sz > limit then True
      else unclosedTooLarge (sz * 2) limit len)"
  by pat_completeness auto
termination
  by (relation "measure (\<lambda>(sz, limit, len). Suc len - sz)") auto

declare unclosedTooLarge.simps [simp del]

definition specQuoted :: "Limits \<Rightarrow> bytes \<Rightarrow> (SaveError + Token) \<times> bytes" where
  "specQuoted limits bs =
     (if bs = [] \<or> hd bs \<noteq> CHR 0x22
      then (Inl (newError ErrMalformedToken ''a quoted scalar does not begin with a quote''), bs)
      else case scanQuotedBody bs of
        (Some n, escapes) \<Rightarrow>
          if int n - 1 > MaxStringBytes limits
          then (Inl (newError ErrTooLarge ''a scalar string exceeds the configured limit''), bs)
          else
            let raw = take (n - 2) (drop 1 bs);
                text = (if escapes then unescapeTextScalar raw else raw)
            in (Inr ((tokenOf KindQuoted)\<lparr>Text := text\<rparr>), drop n bs)
      | (None, escapes) \<Rightarrow>
          if unclosedTooLarge textScanChunk (MaxStringBytes limits) (length bs)
          then (Inl (newError ErrTooLarge ''a scalar string exceeds the configured limit''), bs)
          else (Inl (newError ErrTruncated
            ''a quoted scalar is not closed before the section ends''), bs))"

function specColourChannels ::
  "Limits \<Rightarrow> nat \<Rightarrow> Token \<Rightarrow> bytes \<Rightarrow> (SaveError + Token) \<times> bytes" where
  "specColourChannels limits channel token bs =
     (let r = specFiller bs in
      if r = [] then (Inl (newError ErrTruncated
        ''a colour value is not closed before the section ends''), r)
      else if hd r = CHR ''}'' then (Inr (token\<lparr>RGBHasAlpha := (channel > 3)\<rparr>), drop 1 r)
      else case specUnquoted limits r of
        (Inl e, r') \<Rightarrow> (Inl e, r')
      | (Inr component, r') \<Rightarrow>
          if channel < 4 then
            (case colourChannel component of
               None \<Rightarrow> (Inl (newError ErrMalformedToken
                 ''a colour channel is neither a number nor a fraction''), r')
             | Some v \<Rightarrow>
                 specColourChannels limits (channel + 1) (token\<lparr>RGB := (RGB token)[channel := v]\<rparr>) r')
          else (Inl (newError ErrMalformedToken ''a colour value has too many channels''), r'))"
  by pat_completeness auto
termination
  by (relation "measure (\<lambda>(limits, channel, token, bs). 5 - channel)") auto

declare specColourChannels.simps [simp del]

definition specColour :: "Limits \<Rightarrow> bytes \<Rightarrow> (SaveError + Token) \<times> bytes" where
  "specColour limits bs =
     (let r = specFiller bs in
      if r = [] \<or> hd r \<noteq> CHR ''{'' then (Inr ((tokenOf KindUnquoted)\<lparr>Text := ''rgb''\<rparr>), r)
      else specColourChannels limits 0 (tokenOf KindRGB) (drop 1 r))"

definition lift_spec :: "(bytes \<Rightarrow> (SaveError + 'a) \<times> bytes) \<Rightarrow> (bytes, 'a) save_m" where
  "lift_spec f bs = Some (f bs)"

definition specTextToken :: "Limits \<Rightarrow> (bytes \<times> Counters, Token) save_m" where
  "specTextToken limits =
     bindM (countToken limits) (\<lambda>_ (bs, c).
       let r = specFiller bs in
       if r = [] then failM (newError ErrTruncated ''the section ended where a token was expected'') (r, c)
       else if hd r = CHR ''{'' then openContainer limits (drop 1 r, c)
       else if hd r = CHR ''}'' then closeContainer (drop 1) (r, c)
       else if hd r = CHR ''='' then returnM (tokenOf KindEqual) (drop 1 r, c)
       else if hd r = CHR 0x22 then onSource (lift_spec (specQuoted limits)) (r, c)
       else bindM (onSource (lift_spec (specUnquoted limits))) (\<lambda>token.
           if Kind token = KindUnquoted \<and> isColourName (Text token)
           then onSource (lift_spec (specColour limits))
           else returnM token) (r, c))"

section \<open>The text grammar over a source\<close>

locale text_source =
  fixes src :: "'s textSource" and rest :: "'s \<Rightarrow> bytes" and ok :: "'s \<Rightarrow> bool"
  assumes peek_law: "ok s \<Longrightarrow>
    \<exists>s'. peekAhead src n s = Some (Inr (take n (rest s)), s') \<and> ok s' \<and> rest s' = rest s
       \<and> (\<forall>m \<le> length (take n (rest s)).
            ok (discard src m s') \<and> rest (discard src m s') = drop m (rest s))"
begin

text \<open>Running \<open>m\<close> from \<open>s\<close> returns \<open>r\<close> and leaves \<open>bs\<close>.\<close>

definition yields :: "('s, 'a) save_m \<Rightarrow> 's \<Rightarrow> (SaveError + 'a) \<Rightarrow> bytes \<Rightarrow> bool" where
  "yields m s r bs \<longleftrightarrow> (\<exists>s'. m s = Some (r, s') \<and> ok s' \<and> rest s' = bs)"

lemma yieldsI: "m s = Some (r, s') \<Longrightarrow> ok s' \<Longrightarrow> rest s' = bs \<Longrightarrow> yields m s r bs"
  by (auto simp: yields_def)

lemma yields_return [simp]: "ok s \<Longrightarrow> yields (returnM a) s r bs \<longleftrightarrow> r = Inr a \<and> bs = rest s"
  by (auto simp: yields_def)

lemma yields_fail [simp]: "ok s \<Longrightarrow> yields (failM e) s r bs \<longleftrightarrow> r = Inl e \<and> bs = rest s"
  by (auto simp: yields_def)

lemma yields_bind:
  assumes "yields m s (Inr a) bs" and "\<And>t. ok t \<Longrightarrow> rest t = bs \<Longrightarrow> yields (f a) t r bs'"
  shows "yields (bindM m f) s r bs'"
  using assms by (fastforce simp: yields_def)

lemma yields_bind_error:
  assumes "yields m s (Inl e) bs" shows "yields (bindM m f) s (Inl e) bs"
  using assms by (fastforce simp: yields_def)

text \<open>Peeking, with what may be discarded afterwards.\<close>

lemma yields_peek:
  assumes "ok s"
    and "\<And>t. ok t \<Longrightarrow> rest t = rest s
      \<Longrightarrow> (\<And>m. m \<le> n \<Longrightarrow> m \<le> length (rest s) \<Longrightarrow> ok (discard src m t))
      \<Longrightarrow> (\<And>m. m \<le> n \<Longrightarrow> m \<le> length (rest s) \<Longrightarrow> rest (discard src m t) = drop m (rest s))
      \<Longrightarrow> yields (f (take n (rest s))) t r bs"
  shows "yields (bindM (peekAhead src n) f) s r bs"
  using peek_law [OF assms(1), of n] assms(2) by (fastforce simp: yields_def)

lemma yields_unfold: "m s = bindM a f s \<Longrightarrow> yields (bindM a f) s r bs \<Longrightarrow> yields m s r bs"
  by (simp add: yields_def)

lemma skipComment_yields:
  assumes "ok s"
  shows "yields (skipComment src) s (Inr (dropWhile (\<lambda>b. b \<noteq> CHR 0x0A) (rest s) \<noteq> []))
    (tl (dropWhile (\<lambda>b. b \<noteq> CHR 0x0A) (rest s)))"
  using assms
proof (induction "length (rest s)" arbitrary: s rule: less_induct)
  case less
  let ?p = "\<lambda>b. b \<noteq> CHR 0x0A" and ?bs = "rest s"
  have unfold: "skipComment src s = bindM (peekAhead src textScanChunk) (\<lambda>line s.
       if line = [] then returnM False s
       else let end = spanLen ?p line in
         if end < length line then returnM True (discard src (end + 1) s)
         else skipComment src (discard src end s)) s"
    by (subst skipComment.simps) (rule refl)
  show ?case
  proof (rule yields_unfold [where m = "skipComment src", OF unfold], rule yields_peek [OF less.prems])
    fix t
    assume t: "ok t" "rest t = ?bs"
      and ok: "\<And>m. m \<le> textScanChunk \<Longrightarrow> m \<le> length ?bs \<Longrightarrow> ok (discard src m t)"
      and rest: "\<And>m. m \<le> textScanChunk \<Longrightarrow> m \<le> length ?bs \<Longrightarrow> rest (discard src m t) = drop m ?bs"
    let ?w = "take textScanChunk ?bs" and ?e = "spanLen ?p (take textScanChunk ?bs)"
    have chunk: "0 < textScanChunk" by (simp add: textScanChunk_def)
    show "yields (\<lambda>s. if ?w = [] then returnM False s
         else let end = ?e in
           if end < length ?w then returnM True (discard src (end + 1) s)
           else skipComment src (discard src end s)) t
        (Inr (dropWhile ?p ?bs \<noteq> [])) (tl (dropWhile ?p ?bs))"
    proof (cases "?w = []")
      case True
      then have "?bs = []" using chunk by auto
      then show ?thesis using t by (simp add: yields_def)
    next
      case nonempty: False
      show ?thesis
      proof (cases "?e < length ?w")
        case True
        note sp = spanLen_window_stops [OF True]
        show ?thesis
          using nonempty True sp ok [of "?e + 1"] rest [of "?e + 1"]
          by (simp add: yields_def Let_def dropWhile_Cons_spanLen [OF sp(2)] del: dropWhile_eq_Nil_conv)
      next
        case False
        note run = spanLen_window_runs [OF False]
        have le: "length ?w \<le> textScanChunk" "length ?w \<le> length ?bs" by simp_all
        have shorter: "length (drop (length ?w) ?bs) < length ?bs"
          using nonempty by (cases ?bs) auto
        have "yields (skipComment src) (discard src (length ?w) t)
            (Inr (dropWhile ?p (drop (length ?w) ?bs) \<noteq> []))
            (tl (dropWhile ?p (drop (length ?w) ?bs)))"
          using less.hyps [of "discard src (length ?w) t"] ok [OF le] rest [OF le] shorter by simp
        then show ?thesis
          using nonempty False unfolding run(2)
          by (auto simp: yields_def Let_def run(1) min_def)
      qed
    qed
  qed
qed

lemma specFiller_Nil [simp]: "specFiller [] = []"
  by (simp add: specFiller.simps)

lemma specFiller_stop:
  assumes "spanLen isTextSpace bs < length bs" and "bs ! spanLen isTextSpace bs \<noteq> CHR ''#''"
  shows "specFiller bs = drop (spanLen isTextSpace bs) bs"
proof -
  let ?k = "spanLen isTextSpace bs"
  have d: "drop ?k bs = bs ! ?k # drop (Suc ?k) bs"
    using assms(1) by (simp add: Cons_nth_drop_Suc)
  show ?thesis
    using assms(2) by (simp add: specFiller.simps [of bs] drop_spanLen [symmetric] d)
qed

lemma specFiller_comment:
  assumes "spanLen isTextSpace bs < length bs" and "bs ! spanLen isTextSpace bs = CHR ''#''"
  shows "specFiller bs
    = specFiller (tl (dropWhile (\<lambda>b. b \<noteq> CHR 0x0A) (drop (spanLen isTextSpace bs) bs)))"
proof -
  let ?k = "spanLen isTextSpace bs"
  have d: "drop ?k bs = CHR ''#'' # drop (Suc ?k) bs"
    using assms by (metis Cons_nth_drop_Suc)
  show ?thesis
    by (simp add: specFiller.simps [of bs] drop_spanLen [symmetric] d)
qed

lemma specFiller_dropWhile_cong:
  "dropWhile isTextSpace bs = dropWhile isTextSpace bs' \<Longrightarrow> specFiller bs = specFiller bs'"
  by (simp add: specFiller.simps [of bs] specFiller.simps [of bs'])

lemma skipTextFiller_yields:
  assumes "ok s"
  shows "yields (skipTextFiller src) s (Inr (specFiller (rest s) \<noteq> [])) (specFiller (rest s))"
  using assms
proof (induction "length (rest s)" arbitrary: s rule: less_induct)
  case less
  let ?bs = "rest s"
  have unfold: "skipTextFiller src s = bindM (peekAhead src textScanChunk) (\<lambda>window s.
       if window = [] then returnM False s
       else let consumed = spanLen isTextSpace window in
         if consumed = length window then skipTextFiller src (discard src consumed s)
         else if window ! consumed \<noteq> CHR ''#'' then returnM True (discard src consumed s)
         else bindM (skipComment src) (\<lambda>more s.
           if more then skipTextFiller src s else returnM False s) (discard src consumed s)) s"
    by (subst skipTextFiller.simps) (rule refl)
  show ?case
  proof (rule yields_unfold [where m = "skipTextFiller src", OF unfold], rule yields_peek [OF less.prems])
    fix t
    assume t: "ok t" "rest t = ?bs"
      and ok: "\<And>m. m \<le> textScanChunk \<Longrightarrow> m \<le> length ?bs \<Longrightarrow> ok (discard src m t)"
      and rest: "\<And>m. m \<le> textScanChunk \<Longrightarrow> m \<le> length ?bs \<Longrightarrow> rest (discard src m t) = drop m ?bs"
    let ?w = "take textScanChunk ?bs"
    let ?k = "spanLen isTextSpace ?w"
    let ?goal = "yields (\<lambda>s. if ?w = [] then returnM False s
         else let consumed = ?k in
         if consumed = length ?w then skipTextFiller src (discard src consumed s)
         else if ?w ! consumed \<noteq> CHR ''#'' then returnM True (discard src consumed s)
         else bindM (skipComment src) (\<lambda>more s.
           if more then skipTextFiller src s else returnM False s) (discard src consumed s)) t
        (Inr (specFiller ?bs \<noteq> [])) (specFiller ?bs)"
    have chunk: "0 < textScanChunk" by (simp add: textScanChunk_def)
    consider (empty) "?w = []" | (runs) "?w \<noteq> []" "\<not> ?k < length ?w"
      | (stops) "?w \<noteq> []" "?k < length ?w" by blast
    then show ?goal
    proof cases
      case empty
      then have "?bs = []" using chunk by auto
      then show ?thesis using t by (simp add: yields_def)
    next
      case runs
      note run = spanLen_window_runs [OF runs(2)]
      have le: "length ?w \<le> textScanChunk" "length ?w \<le> length ?bs" by simp_all
      have "length (drop (length ?w) ?bs) < length ?bs"
        using runs(1) by (cases ?bs) auto
      then have "yields (skipTextFiller src) (discard src (length ?w) t)
          (Inr (specFiller (drop (length ?w) ?bs) \<noteq> [])) (specFiller (drop (length ?w) ?bs))"
        using less.hyps [of "discard src (length ?w) t"] ok [OF le] rest [OF le] by simp
      then show ?thesis
        using runs(1) unfolding specFiller_dropWhile_cong [OF run(2)]
        by (auto simp: yields_def Let_def run(1))
    next
      case stops
      note sp = spanLen_window_stops [OF stops(2)]
      have le: "?k \<le> textScanChunk" "?k \<le> length ?bs" using sp by simp_all
      have nth: "?w ! ?k = ?bs ! ?k" using sp by simp
      show ?thesis
      proof (cases "?bs ! ?k = CHR ''#''")
        case False
        then show ?thesis
          using stops ok [OF le] rest [OF le] sp nth
          by (auto simp: yields_def Let_def specFiller_stop)
      next
        case True
        define r where "r = dropWhile (\<lambda>b. b \<noteq> CHR 0x0A) (drop ?k ?bs)"
        have sf: "specFiller ?bs = specFiller (tl r)"
          using specFiller_comment [of ?bs] True sp by (simp add: r_def)
        have len: "length (tl r) < length ?bs" if "r \<noteq> []"
          using that length_dropWhile_le [of "\<lambda>b. b \<noteq> CHR 0x0A" "drop ?k ?bs"] sp
          unfolding r_def [symmetric] by (cases r) auto
        have "yields (skipComment src) (discard src ?k t) (Inr (r \<noteq> [])) (tl r)"
          using skipComment_yields [OF ok [OF le]] rest [OF le] by (simp add: r_def)
        then have "yields (bindM (skipComment src) (\<lambda>more s.
             if more then skipTextFiller src s else returnM False s)) (discard src ?k t)
            (Inr (specFiller ?bs \<noteq> [])) (specFiller ?bs)"
        proof (rule yields_bind)
          fix u
          assume u: "ok u" "rest u = tl r"
          show "yields (\<lambda>s. if r \<noteq> [] then skipTextFiller src s else returnM False s) u
              (Inr (specFiller ?bs \<noteq> [])) (specFiller ?bs)"
          proof (cases "r = []")
            case True
            then show ?thesis using u sf by (simp add: yields_def)
          next
            case False
            then show ?thesis
              using less.hyps [of u] u len sf by simp
          qed
        qed
        then show ?thesis
          using stops nth True by (auto simp: yields_def Let_def min_def split: if_splits)
      qed
    qed
  qed
qed

lemma decodeTextUnquotedFrom_yields:
  assumes "ok s" and "0 < sz"
  shows "yields (decodeTextUnquotedFrom src l sz) s
    (fst (specUnquoted l (rest s))) (snd (specUnquoted l (rest s)))"
  using assms
proof (induction "Suc (length (rest s)) - sz" arbitrary: s sz rule: less_induct)
  case less
  let ?bs = "rest s" and ?p = "\<lambda>b. \<not> isTextDelimiter b"
  have unfold: "decodeTextUnquotedFrom src l sz s = bindM (peekAhead src sz) (\<lambda>window s.
       let end = spanLen ?p window in
       if end < length window \<or> length window < sz then
         (if end = 0
          then failM (newError ErrMalformedToken ''an unquoted scalar is empty'') s
          else if int end > MaxStringBytes l
          then failM (newError ErrTooLarge ''a scalar string exceeds the configured limit'') s
          else returnM (classifyTextScalar (take end window)) (discard src end s))
       else if int sz > MaxStringBytes l
       then failM (newError ErrTooLarge ''a scalar string exceeds the configured limit'') s
       else decodeTextUnquotedFrom src l (sz * 2) s) s"
    by (subst decodeTextUnquotedFrom.simps) (rule refl)
  show ?case
  proof (rule yields_unfold [where m = "decodeTextUnquotedFrom src l sz", OF unfold],
      rule yields_peek [OF less.prems(1)])
    fix t
    assume t: "ok t" "rest t = ?bs"
      and ok: "\<And>m. m \<le> sz \<Longrightarrow> m \<le> length ?bs \<Longrightarrow> ok (discard src m t)"
      and rest: "\<And>m. m \<le> sz \<Longrightarrow> m \<le> length ?bs \<Longrightarrow> rest (discard src m t) = drop m ?bs"
    let ?w = "take sz ?bs"
    let ?k = "spanLen ?p ?w"
    show "yields (\<lambda>s. let end = ?k in
       if end < length ?w \<or> length ?w < sz then
         (if end = 0
          then failM (newError ErrMalformedToken ''an unquoted scalar is empty'') s
          else if int end > MaxStringBytes l
          then failM (newError ErrTooLarge ''a scalar string exceeds the configured limit'') s
          else returnM (classifyTextScalar (take end ?w)) (discard src end s))
       else if int sz > MaxStringBytes l
       then failM (newError ErrTooLarge ''a scalar string exceeds the configured limit'') s
       else decodeTextUnquotedFrom src l (sz * 2) s) t
      (fst (specUnquoted l ?bs)) (snd (specUnquoted l ?bs))"
    proof (cases "?k < length ?w \<or> length ?w < sz")
      case True
      have k: "?k = spanLen ?p ?bs"
      proof (cases "length ?w < sz")
        case True
        then have "?w = ?bs" by simp
        then show ?thesis by simp
      next
        case False
        with True show ?thesis using spanLen_window_stops(1) [of ?p sz ?bs] by simp
      qed
      have le: "?k \<le> sz" "?k \<le> length ?bs"
        using spanLen_le [of ?p ?w] by simp_all
      have tk: "take ?k ?w = take ?k ?bs" using le(1) by (simp add: min_def)
      show ?thesis
        using True t ok [OF le] rest [OF le] unfolding Let_def tk
        by (auto simp: yields_def specUnquoted_def Let_def k)
    next
      case False
      note run = spanLen_window_runs [of ?p sz ?bs]
      have len: "sz \<le> length ?bs" "sz \<le> spanLen ?p ?bs"
        using False run by (auto simp: min_def split: if_splits)
      show ?thesis
      proof (cases "int sz > MaxStringBytes l")
        case True
        then show ?thesis
          using False t len less.prems(2) by (auto simp: yields_def specUnquoted_def Let_def)
      next
        case small: False
        have "Suc (length (rest t)) - sz * 2 < Suc (length ?bs) - sz"
          using t len less.prems(2) by simp
        then have "yields (decodeTextUnquotedFrom src l (sz * 2)) t
            (fst (specUnquoted l ?bs)) (snd (specUnquoted l ?bs))"
          using less.hyps [of t "sz * 2"] t less.prems(2) by simp
        then show ?thesis using False small by (auto simp: yields_def Let_def)
      qed
    qed
  qed
qed

lemma decodeTextUnquoted_yields:
  "ok s \<Longrightarrow> yields (decodeTextUnquoted src l) s
    (fst (specUnquoted l (rest s))) (snd (specUnquoted l (rest s)))"
  unfolding decodeTextUnquoted_def
  by (rule decodeTextUnquotedFrom_yields) (simp_all add: textScanChunk_def)

end

lemma scanQuotedFrom_ge:
  "scanQuotedFrom i esc bs = (Some n, e) \<Longrightarrow> i < n \<and> n \<le> i + length bs"
  by (induction i esc bs rule: scanQuotedFrom.induct) (auto split: list.splits if_splits)

text \<open>Scanning a prefix finds the closing quote exactly when it lies in the prefix.\<close>

lemma scanQuotedFrom_take_found:
  assumes "scanQuotedFrom i esc bs = (Some n, e)" and "n \<le> i + m"
  shows "scanQuotedFrom i esc (take m bs) = (Some n, e)"
  using assms
proof (induction i esc bs arbitrary: m rule: scanQuotedFrom.induct)
  case (1 i esc)
  then show ?case by simp
next
  case (2 i esc c cs)
  note gt = scanQuotedFrom_ge [OF "2.prems"(1)]
  then obtain m' where m: "m = Suc m'" using "2.prems"(2) by (cases m) auto
  show ?case
  proof (cases "c = CHR 0x5C")
    case True
    with "2.prems"(1) obtain d rest where cs: "cs = d # rest"
      and scan: "scanQuotedFrom (i + 2) True rest = (Some n, e)"
      by (auto split: list.splits)
    from scanQuotedFrom_ge [OF scan] obtain m'' where m': "m' = Suc m''"
      using "2.prems"(2) m by (cases m') auto
    have "scanQuotedFrom (i + 2) True (take m'' rest) = (Some n, e)"
      using "2.IH"(1) [OF True cs scan] "2.prems"(2) m m' by simp
    then show ?thesis using True m m' cs by simp
  next
    case noesc: False
    show ?thesis
    proof (cases "c = CHR 0x22")
      case True
      then show ?thesis using "2.prems"(1) noesc m by simp
    next
      case False
      have "scanQuotedFrom (i + 1) esc cs = (Some n, e)"
        using "2.prems"(1) noesc False by simp
      then have "scanQuotedFrom (i + 1) esc (take m' cs) = (Some n, e)"
        using "2.IH"(2) [OF noesc False, of m'] "2.prems"(2) m by simp
      then show ?thesis using noesc False m by simp
    qed
  qed
qed

text \<open>A quote found in a prefix is the quote of the whole text.\<close>

lemma scanQuotedFrom_prefix:
  assumes "scanQuotedFrom i esc xs = (Some n, e)"
  shows "scanQuotedFrom i esc (xs @ ys) = (Some n, e)"
  using assms
proof (induction i esc xs rule: scanQuotedFrom.induct)
  case (1 i esc)
  then show ?case by simp
next
  case (2 i esc c cs)
  then show ?case
    by (cases "c = CHR 0x5C"; cases "c = CHR 0x22"; cases cs) simp_all
qed

lemma scanQuotedBody_take_found:
  assumes "scanQuotedBody bs = (Some n, e)" and "n \<le> m"
  shows "scanQuotedBody (take m bs) = (Some n, e)"
proof -
  have "1 < n" using assms(1) scanQuotedFrom_ge [of 1 False "tl bs" n e]
    by (simp add: scanQuotedBody_def)
  then have "tl (take m bs) = take (m - 1) (tl bs)" and "n \<le> 1 + (m - 1)"
    using assms(2) by (cases bs; cases m; simp)+
  then show ?thesis
    using assms(1) scanQuotedFrom_take_found [of 1 False "tl bs" n e "m - 1"]
    unfolding scanQuotedBody_def by simp
qed

lemma scanQuotedBody_take_missing:
  assumes "\<And>n e. scanQuotedBody bs = (Some n, e) \<Longrightarrow> m < n" and "0 < m"
  shows "fst (scanQuotedBody (take m bs)) = None"
proof (rule ccontr)
  assume "fst (scanQuotedBody (take m bs)) \<noteq> None"
  then obtain n e where s: "scanQuotedBody (take m bs) = (Some n, e)"
    by (cases "scanQuotedBody (take m bs)") auto
  then have ge: "n \<le> 1 + length (tl (take m bs))"
    unfolding scanQuotedBody_def using scanQuotedFrom_ge by fastforce
  have "tl bs = tl (take m bs) @ drop m bs"
    using assms(2) by (cases bs; cases m) auto
  then have "scanQuotedBody bs = (Some n, e)"
    using s scanQuotedFrom_prefix [of 1 False "tl (take m bs)" n e "drop m bs"]
    by (simp add: scanQuotedBody_def)
  then have "m < n" by (rule assms(1))
  then show False using ge assms(2) by (cases m) auto
qed

lemma scanQuotedBody_bounds:
  "bs \<noteq> [] \<Longrightarrow> scanQuotedBody bs = (Some n, e) \<Longrightarrow> 1 < n \<and> n \<le> length bs"
  using scanQuotedFrom_ge [of 1 False "tl bs" n e] by (cases bs) (auto simp: scanQuotedBody_def)

context text_source
begin

lemma decodeTextQuotedFrom_yields:
  assumes "ok s" and "0 < sz"
    and "unclosedTooLarge textScanChunk (MaxStringBytes l) (length (rest s))
       = unclosedTooLarge sz (MaxStringBytes l) (length (rest s))"
  shows "yields (decodeTextQuotedFrom src l sz) s
    (fst (specQuoted l (rest s))) (snd (specQuoted l (rest s)))"
  using assms
proof (induction "Suc (length (rest s)) - sz" arbitrary: s sz rule: less_induct)
  case less
  let ?bs = "rest s"
  have unfold: "decodeTextQuotedFrom src l sz s = bindM (peekAhead src sz) (\<lambda>window s.
       if window = [] \<or> hd window \<noteq> CHR 0x22
       then failM (newError ErrMalformedToken ''a quoted scalar does not begin with a quote'') s
       else case scanQuotedBody window of
         (Some end, escapes) \<Rightarrow>
           if int end - 1 > MaxStringBytes l
           then failM (newError ErrTooLarge ''a scalar string exceeds the configured limit'') s
           else
             let raw = take (end - 2) (drop 1 window);
                 text = (if escapes then unescapeTextScalar raw else raw)
             in returnM ((tokenOf KindQuoted)\<lparr>Text := text\<rparr>) (discard src end s)
       | (None, escapes) \<Rightarrow>
           if length window < sz
           then failM (newError ErrTruncated ''a quoted scalar is not closed before the section ends'') s
           else if int sz > MaxStringBytes l
           then failM (newError ErrTooLarge ''a scalar string exceeds the configured limit'') s
           else decodeTextQuotedFrom src l (sz * 2) s) s"
    by (subst decodeTextQuotedFrom.simps) (rule refl)
  show ?case
  proof (rule yields_unfold [where m = "decodeTextQuotedFrom src l sz", OF unfold],
      rule yields_peek [OF less.prems(1)])
    fix t
    assume t: "ok t" "rest t = ?bs"
      and ok: "\<And>m. m \<le> sz \<Longrightarrow> m \<le> length ?bs \<Longrightarrow> ok (discard src m t)"
      and rest: "\<And>m. m \<le> sz \<Longrightarrow> m \<le> length ?bs \<Longrightarrow> rest (discard src m t) = drop m ?bs"
    let ?w = "take sz ?bs"
    let ?g = "\<lambda>s. if ?w = [] \<or> hd ?w \<noteq> CHR 0x22
       then failM (newError ErrMalformedToken ''a quoted scalar does not begin with a quote'') s
       else case scanQuotedBody ?w of
         (Some end, escapes) \<Rightarrow>
           if int end - 1 > MaxStringBytes l
           then failM (newError ErrTooLarge ''a scalar string exceeds the configured limit'') s
           else
             let raw = take (end - 2) (drop 1 ?w);
                 text = (if escapes then unescapeTextScalar raw else raw)
             in returnM ((tokenOf KindQuoted)\<lparr>Text := text\<rparr>) (discard src end s)
       | (None, escapes) \<Rightarrow>
           if length ?w < sz
           then failM (newError ErrTruncated ''a quoted scalar is not closed before the section ends'') s
           else if int sz > MaxStringBytes l
           then failM (newError ErrTooLarge ''a scalar string exceeds the configured limit'') s
           else decodeTextQuotedFrom src l (sz * 2) s"
    show "yields ?g t (fst (specQuoted l ?bs)) (snd (specQuoted l ?bs))"
    proof (cases "?bs = [] \<or> hd ?bs \<noteq> CHR 0x22")
      case True
      then show ?thesis using t less.prems(2) by (auto simp: yields_def specQuoted_def)
    next
      case quote: False
      then have ne: "?bs \<noteq> []" and w: "?w \<noteq> []" "hd ?w = CHR 0x22"
        using less.prems(2) by auto
      obtain closing escapes where body: "scanQuotedBody ?bs = (closing, escapes)"
        by fastforce
      have again: "yields ?g t (fst (specQuoted l ?bs)) (snd (specQuoted l ?bs))"
        if notin: "fst (scanQuotedBody ?w) = None" and len: "sz \<le> length ?bs"
          and small: "int sz \<le> MaxStringBytes l"
      proof -
        have "unclosedTooLarge sz (MaxStringBytes l) (length ?bs)
            = unclosedTooLarge (sz * 2) (MaxStringBytes l) (length ?bs)"
          using len small less.prems(2) by (subst unclosedTooLarge.simps) simp
        moreover have "Suc (length (rest t)) - sz * 2 < Suc (length ?bs) - sz"
          using t len less.prems(2) by simp
        ultimately have "yields (decodeTextQuotedFrom src l (sz * 2)) t
            (fst (specQuoted l ?bs)) (snd (specQuoted l ?bs))"
          using less.hyps [of t "sz * 2"] t less.prems by simp
        then show ?thesis
          using notin w small len by (cases "scanQuotedBody ?w") (simp add: yields_def)
      qed
      show ?thesis
      proof (cases closing)
        case (Some n)
        note bnd = scanQuotedBody_bounds [OF ne body [unfolded Some]]
        show ?thesis
        proof (cases "n \<le> sz")
          case True
          then have sw: "scanQuotedBody ?w = (Some n, escapes)"
            using body Some by (simp add: scanQuotedBody_take_found)
          have raw: "take (n - 2) (drop (Suc 0) ?w) = take (n - 2) (drop (Suc 0) ?bs)"
            using True bnd by (simp add: drop_take min_def)
          show ?thesis
            using w quote sw body Some t ok [OF True] rest [OF True] bnd
            by (simp add: yields_def specQuoted_def Let_def raw)
        next
          case False
          then have nf: "fst (scanQuotedBody ?w) = None"
            using body Some less.prems(2) by (intro scanQuotedBody_take_missing) simp_all
          have len: "sz \<le> length ?bs" using False bnd by simp
          show ?thesis
          proof (cases "int sz > MaxStringBytes l")
            case True
            then show ?thesis
              using nf w len quote body Some False t
              by (cases "scanQuotedBody ?w") (simp add: yields_def specQuoted_def)
          next
            case small: False
            then show ?thesis using again nf len by simp
          qed
        qed
      next
        case None
        then have nf: "fst (scanQuotedBody ?w) = None"
          using body less.prems(2) by (intro scanQuotedBody_take_missing) simp_all
        show ?thesis
        proof (cases "length ?w < sz")
          case True
          then have short: "length ?bs < sz" by simp
          then have "\<not> unclosedTooLarge sz (MaxStringBytes l) (length ?bs)"
            by (subst unclosedTooLarge.simps) simp
          then show ?thesis
            using True short nf w quote body None t less.prems(3)
            by (cases "scanQuotedBody ?w") (simp add: yields_def specQuoted_def)
        next
          case False
          then have len: "sz \<le> length ?bs" by simp
          show ?thesis
          proof (cases "int sz > MaxStringBytes l")
            case True
            have "unclosedTooLarge sz (MaxStringBytes l) (length ?bs)"
              using len True less.prems(2) by (subst unclosedTooLarge.simps) simp
            then show ?thesis
              using True len nf w quote body None t less.prems(3)
              by (cases "scanQuotedBody ?w") (simp add: yields_def specQuoted_def)
          next
            case small: False
            then show ?thesis using again nf len by simp
          qed
        qed
      qed
    qed
  qed
qed

lemma decodeTextQuoted_yields:
  "ok s \<Longrightarrow> yields (decodeTextQuoted src l) s
    (fst (specQuoted l (rest s))) (snd (specQuoted l (rest s)))"
  unfolding decodeTextQuoted_def
  by (rule decodeTextQuotedFrom_yields) (simp_all add: textScanChunk_def)

text \<open>Consuming the byte that was just looked at.\<close>

lemma discard_one:
  assumes "ok s" and "rest s \<noteq> []"
  obtains t where "peekAhead src 1 s = Some (Inr [hd (rest s)], t)" and "ok t" and "rest t = rest s"
    and "ok (discard src 1 t)" and "rest (discard src 1 t) = drop 1 (rest s)"
proof -
  from peek_law [OF assms(1), of 1] obtain t where "peekAhead src 1 s = Some (Inr (take 1 (rest s)), t)"
    and "ok t" and "rest t = rest s"
    and "\<forall>m \<le> length (take 1 (rest s)). ok (discard src m t) \<and> rest (discard src m t) = drop m (rest s)"
    by blast
  then show ?thesis using that [of t] assms(2) by (cases "rest s") auto
qed

lemma decodeColourChannels_yields:
  assumes "ok s"
  shows "yields (decodeColourChannels src l channel token) s
    (fst (specColourChannels l channel token (rest s))) (snd (specColourChannels l channel token (rest s)))"
  using assms
proof (induction "5 - channel" arbitrary: s channel token rule: less_induct)
  case less
  let ?bs = "specFiller (rest s)"
  from skipTextFiller_yields [OF less.prems] obtain s1 where s1: "ok s1" "rest s1 = ?bs"
    and skip: "skipTextFiller src s = Some (Inr (?bs \<noteq> []), s1)" by (auto simp: yields_def)
  show ?case
  proof (cases "?bs = []")
    case True
    from peek_law [OF s1(1), of 1] obtain t where "peekAhead src 1 s1 = Some (Inr [], t)" "ok t" "rest t = []"
      using s1 True by auto
    then show ?thesis
      using skip True
      by (simp add: bindM_apply yields_def decodeColourChannels.simps [of src l channel token s]
          specColourChannels.simps [of l channel token "rest s"])
  next
    case ne: False
    from discard_one [of s1] s1 ne obtain t where peek: "peekAhead src 1 s1 = Some (Inr [hd ?bs], t)"
      and t: "ok t" "rest t = ?bs" "ok (discard src 1 t)" "rest (discard src 1 t) = drop 1 ?bs" by metis
    show ?thesis
    proof (cases "hd ?bs = CHR ''}''")
      case True
      then show ?thesis
        using skip ne peek t
        by (simp add: bindM_apply yields_def decodeColourChannels.simps [of src l channel token s]
            specColourChannels.simps [of l channel token "rest s"])
    next
      case False
      from decodeTextUnquoted_yields [OF t(1), of l] obtain u where u: "ok u"
        and unq: "decodeTextUnquoted src l t = Some (fst (specUnquoted l ?bs), u)"
        and ru: "rest u = snd (specUnquoted l ?bs)" using t by (auto simp: yields_def)
      show ?thesis
      proof (cases "fst (specUnquoted l ?bs)")
        case (Inl e)
        then show ?thesis
          using skip ne peek t unq u ru False
          by (cases "specUnquoted l ?bs")
             (simp add: bindM_apply yields_def decodeColourChannels.simps [of src l channel token s]
              specColourChannels.simps [of l channel token "rest s"])
      next
        case (Inr component)
        note rec = less.hyps [of "channel + 1" u]
        show ?thesis
          using skip ne peek t unq u ru False Inr rec
          by (cases "specUnquoted l ?bs"; cases "colourChannel component")
             (auto simp add: bindM_apply yields_def decodeColourChannels.simps [of src l channel token s]
              specColourChannels.simps [of l channel token "rest s"])
      qed
    qed
  qed
qed

lemma decodeTextColour_yields:
  assumes "ok s"
  shows "yields (decodeTextColour src l) s (fst (specColour l (rest s))) (snd (specColour l (rest s)))"
proof -
  let ?bs = "specFiller (rest s)"
  from skipTextFiller_yields [OF assms] obtain s1 where s1: "ok s1" "rest s1 = ?bs"
    and skip: "skipTextFiller src s = Some (Inr (?bs \<noteq> []), s1)" by (auto simp: yields_def)
  show ?thesis
  proof (cases "?bs = []")
    case True
    then show ?thesis using skip s1 by (simp add: bindM_apply yields_def decodeTextColour_def specColour_def)
  next
    case ne: False
    from discard_one [of s1] s1 ne obtain t where peek: "peekAhead src 1 s1 = Some (Inr [hd ?bs], t)"
      and t: "ok t" "rest t = ?bs" "ok (discard src 1 t)" "rest (discard src 1 t) = drop 1 ?bs" by metis
    show ?thesis
      using skip ne peek t decodeColourChannels_yields [OF t(3), of l 0 "tokenOf KindRGB"]
      by (auto simp: bindM_apply yields_def decodeTextColour_def specColour_def discardM_def Let_def)
  qed
qed

lemma simulates_of_yields:
  assumes "\<And>s. ok s \<Longrightarrow> yields m s (fst (f (rest s))) (snd (f (rest s)))"
  shows "simulates ok rest m (lift_spec f)"
proof (rule simulatesI)
  fix s
  assume "ok s"
  from assms [OF this] obtain s' where "m s = Some (fst (f (rest s)), s')" "ok s'"
    "rest s' = snd (f (rest s))" by (auto simp: yields_def)
  then show "\<exists>r s'. m s = Some (r, s') \<and> ok s' \<and> lift_spec f (rest s) = Some (r, rest s')"
    by (simp add: lift_spec_def prod_eq_iff)
qed

lemmas scalar_sims =
  simulates_of_yields [OF decodeTextQuoted_yields]
  simulates_of_yields [OF decodeTextUnquoted_yields]
  simulates_of_yields [OF decodeTextColour_yields]

theorem decodeTextToken_sim:
  "simulates (pairOk ok) (pairAbs rest) (decodeTextToken src l) (specTextToken l)"
  unfolding decodeTextToken_def specTextToken_def
proof (rule simulates_bind [OF simulates_countToken], rule simulatesI)
  fix a :: unit and sc :: "'s \<times> Counters"
  assume "pairOk ok sc"
  then obtain s c where sc: "sc = (s, c)" and s: "ok s" by (cases sc) (auto simp: pairOk_def)
  let ?bs = "specFiller (rest s)"
  from skipTextFiller_yields [OF s] obtain s1 where s1: "ok s1" "rest s1 = ?bs"
    and skip: "skipTextFiller src s = Some (Inr (?bs \<noteq> []), s1)" by (auto simp: yields_def)
  have skip': "onSource (skipTextFiller src) sc = Some (Inr (?bs \<noteq> []), (s1, c))"
    using skip by (simp add: onSource_def sc)
  note defs = pairOk_def pairAbs_def sc
  let ?lhs = "bindM (onSource (skipTextFiller src)) (\<lambda>remaining.
     if \<not> remaining
     then failM (newError ErrTruncated ''the section ended where a token was expected'')
     else
       bindM (onSource (peekAhead src 1)) (\<lambda>window.
         if hd window = CHR ''{''
         then bindM (onSource (discardM src 1)) (\<lambda>_. openContainer l)
         else if hd window = CHR ''}'' then closeContainer (discard src 1)
         else if hd window = CHR ''=''
         then bindM (onSource (discardM src 1)) (\<lambda>_. returnM (tokenOf KindEqual))
         else if hd window = CHR 0x22 then onSource (decodeTextQuoted src l)
         else bindM (onSource (decodeTextUnquoted src l)) (\<lambda>token.
           if Kind token = KindUnquoted \<and> isColourName (Text token)
           then onSource (decodeTextColour src l)
           else returnM token)))"
  let ?rhs = "\<lambda>(bs, c).
       let r = specFiller bs in
       if r = [] then failM (newError ErrTruncated ''the section ended where a token was expected'') (r, c)
       else if hd r = CHR ''{'' then openContainer l (drop 1 r, c)
       else if hd r = CHR ''}'' then closeContainer (drop 1) (r, c)
       else if hd r = CHR ''='' then returnM (tokenOf KindEqual) (drop 1 r, c)
       else if hd r = CHR 0x22 then onSource (lift_spec (specQuoted l)) (r, c)
       else bindM (onSource (lift_spec (specUnquoted l))) (\<lambda>token.
           if Kind token = KindUnquoted \<and> isColourName (Text token)
           then onSource (lift_spec (specColour l))
           else returnM token) (r, c)"
  have "\<exists>r s'. ?lhs sc = Some (r, s') \<and> pairOk ok s' \<and> ?rhs (pairAbs rest sc) = Some (r, pairAbs rest s')"
  proof (cases "?bs = []")
    case True
    then show ?thesis using skip' s1 by (auto simp: defs bindM_apply)
  next
    case ne: False
    from discard_one [of s1] s1 ne obtain t where peek: "peekAhead src 1 s1 = Some (Inr [hd ?bs], t)"
      and t: "ok t" "rest t = ?bs" "ok (discard src 1 t)" "rest (discard src 1 t) = drop 1 ?bs" by metis
    have peek': "onSource (peekAhead src 1) (s1, c) = Some (Inr [hd ?bs], (t, c))"
      using peek by (simp add: onSource_def)
    consider (op) "hd ?bs = CHR ''{''" | (cl) "hd ?bs = CHR ''}''" | (eq) "hd ?bs = CHR ''=''"
      | (quote) "hd ?bs = CHR 0x22"
      | (bare) "hd ?bs \<notin> {CHR ''{'', CHR ''}'', CHR ''='', CHR 0x22}" by blast
    then show ?thesis
    proof cases
      case op
      then show ?thesis
        using skip' ne peek' t
        by (auto simp: defs onSource_def discardM_def openContainer_def Let_def bindM_apply)
    next
      case cl
      then show ?thesis
        using skip' ne peek' t by (auto simp: defs closeContainer_def Let_def bindM_apply)
    next
      case eq
      then show ?thesis
        using skip' ne peek' t by (auto simp: defs onSource_def discardM_def bindM_apply)
    next
      case quote
      from simulates_onSource [OF scalar_sims(1)]
      have "\<exists>r s'. onSource (decodeTextQuoted src l) (t, c) = Some (r, s') \<and> pairOk ok s'
          \<and> onSource (lift_spec (specQuoted l)) (?bs, c) = Some (r, pairAbs rest s')"
        using t by (fastforce simp: simulates_def defs)
      then show ?thesis using skip' ne peek' quote by (auto simp: defs bindM_apply)
    next
      case bare
      have "simulates (pairOk ok) (pairAbs rest)
          (bindM (onSource (decodeTextUnquoted src l)) (\<lambda>token.
             if Kind token = KindUnquoted \<and> isColourName (Text token)
             then onSource (decodeTextColour src l) else returnM token))
          (bindM (onSource (lift_spec (specUnquoted l))) (\<lambda>token.
             if Kind token = KindUnquoted \<and> isColourName (Text token)
             then onSource (lift_spec (specColour l)) else returnM token))"
        by (intro sim_intros scalar_sims)
      then obtain r s' where "bindM (onSource (decodeTextUnquoted src l)) (\<lambda>token.
             if Kind token = KindUnquoted \<and> isColourName (Text token)
             then onSource (decodeTextColour src l) else returnM token) (t, c) = Some (r, s')"
          and "pairOk ok s'" and "bindM (onSource (lift_spec (specUnquoted l))) (\<lambda>token.
             if Kind token = KindUnquoted \<and> isColourName (Text token)
             then onSource (lift_spec (specColour l)) else returnM token) (?bs, c) = Some (r, pairAbs rest s')"
        using t by (fastforce simp: simulates_def defs)
      then show ?thesis using skip' ne peek' bare by (auto simp: defs bindM_apply)
    qed
  qed
  then show "\<exists>r s'. ?lhs sc = Some (r, s') \<and> pairOk ok s' \<and> ?rhs (pairAbs rest sc) = Some (r, pairAbs rest s')" .
qed

end

end
