(* ===== verification/DecoderFacts.thy ===== *)
theory DecoderFacts
  imports SourceSpec
begin

text \<open>
  Both decoders provide the interfaces of \<open>SourceSpec\<close>, so both decode exactly the specified tokens.
  The abstraction of a decoder is the list of bytes it has not consumed and its two counters. For
  the streaming decoder this holds for every way the reader may cut the section into pieces, as
  long as the reader does not fail; termination of every loop of both decoders is part of the
  statement.
\<close>

section \<open>One step of the specification\<close>

definition specDone :: "Encoding \<Rightarrow> (bytes \<times> Counters, bool) save_m" where
  "specDone enc = (\<lambda>(bs, c).
     if enc = EncodingText then Some (Inr (specFiller bs = []), (specFiller bs, c))
     else Some (Inr (bs = []), (bs, c)))"

definition specNext :: "Encoding \<Rightarrow> Limits \<Rightarrow> (bytes \<times> Counters, Token) save_m" where
  "specNext enc limits =
     bindM (specDone enc) (\<lambda>done.
       if done
       then failM (newError ErrTruncated ''the section ended where a token was expected'')
       else if enc = EncodingText then specTextToken limits else decodeToken pureTake limits)"

section \<open>The in-memory decoder\<close>

definition mem_rest :: "Decoder \<Rightarrow> bytes" where
  "mem_rest d = drop (d_pos d) (d_data d)"

text \<open>The invariant, and the invariant with every field the source operations must not touch held
  fixed; preserving the second is preserving the first and the frame.\<close>

definition mem_ok :: "Encoding \<Rightarrow> Limits \<Rightarrow> Decoder \<Rightarrow> bool" where
  "mem_ok enc limits d \<longleftrightarrow>
     d_pos d \<le> length (d_data d) \<and> d_encoding d = enc \<and> d_limits d = limits"

definition mem_frame :: "Encoding \<Rightarrow> Limits \<Rightarrow> Counters \<Rightarrow> nameTable \<Rightarrow> Decoder \<Rightarrow> bool" where
  "mem_frame enc limits c names d \<longleftrightarrow>
     mem_ok enc limits d \<and> d_tokens d = ctTokens c \<and> d_depth d = ctDepth c \<and> d_names d = names"

definition mem_counters :: "Decoder \<Rightarrow> Counters" where
  "mem_counters d = \<lparr>ctTokens = d_tokens d, ctDepth = d_depth d\<rparr>"

definition mem_abs :: "Decoder \<Rightarrow> bytes \<times> Counters" where
  "mem_abs d = (mem_rest d, mem_counters d)"

lemma mem_frame_self: "mem_ok enc limits d \<Longrightarrow> mem_frame enc limits (mem_counters d) (d_names d) d"
  by (simp add: mem_frame_def mem_counters_def)

lemma mem_frameD:
  "mem_frame enc limits c names d \<Longrightarrow> mem_ok enc limits d \<and> mem_counters d = c \<and> d_names d = names"
  by (simp add: mem_frame_def mem_counters_def)

interpretation mem_take: take_source Decoder_take mem_rest "mem_frame enc limits c names"
  for enc limits c names
  by unfold_locales
     (auto simp: simulates_def Decoder_take_def pureTake_def mem_rest_def mem_frame_def mem_ok_def
       truncatedTake_def add.commute)

interpretation mem_text: text_source Decoder_source mem_rest "mem_frame enc limits c names"
  for enc limits c names
  by unfold_locales
     (auto simp: Decoder_source_def Decoder_peekAhead_def Decoder_discard_def mem_rest_def
       mem_frame_def mem_ok_def add.commute)

lemma mem_run:
  assumes sim: "\<And>c names. simulates (pairOk (mem_frame enc limits c names)) (pairAbs mem_rest) m n"
    and ok: "mem_ok enc limits d"
  obtains r d' where "Decoder_run m d = Some (r, d')" and "mem_ok enc limits d'"
    and "n (mem_abs d) = Some (r, mem_abs d')" and "d_names d' = d_names d"
proof -
  have "pairOk (mem_frame enc limits (mem_counters d) (d_names d)) (d, mem_counters d)"
    using ok by (simp add: pairOk_def mem_frame_self)
  with sim obtain r d' c where m: "m (d, mem_counters d) = Some (r, (d', c))"
    and fr: "mem_frame enc limits (mem_counters d) (d_names d) d'"
    and n: "n (mem_rest d, mem_counters d) = Some (r, (mem_rest d', c))"
    by (auto simp: simulates_def pairOk_def pairAbs_def) (metis old.prod.exhaust)
  let ?d = "d'\<lparr>d_tokens := ctTokens c, d_depth := ctDepth c\<rparr>"
  show ?thesis
  proof (rule that [of r ?d])
    show "Decoder_run m d = Some (r, ?d)"
      using m by (simp add: Decoder_run_def mem_counters_def)
    show "mem_ok enc limits ?d" and "d_names ?d = d_names d"
      using mem_frameD [OF fr] by (simp_all add: mem_ok_def)
    show "n (mem_abs d) = Some (r, mem_abs ?d)"
      using n by (simp add: mem_abs_def mem_rest_def mem_counters_def)
  qed
qed

lemma mem_Done:
  assumes "mem_ok enc limits d"
  obtains r d' where "Decoder_Done d = Some (Inr r, d')" and "mem_ok enc limits d'"
    and "specDone enc (mem_abs d) = Some (Inr r, mem_abs d')" and "d_names d' = d_names d"
proof (cases "enc = EncodingText")
  case True
  from mem_text.skipTextFiller_yields [OF mem_frame_self [OF assms]] obtain d'
    where "skipTextFiller Decoder_source d = Some (Inr (specFiller (mem_rest d) \<noteq> []), d')"
      and "mem_frame enc limits (mem_counters d) (d_names d) d'"
      and "mem_rest d' = specFiller (mem_rest d)"
    by (auto simp: mem_text.yields_def)
  then show ?thesis
    using that [of "specFiller (mem_rest d) = []" d'] True assms mem_frameD [of enc limits _ _ d']
    by (auto simp: Decoder_Done_def mem_ok_def specDone_def mem_abs_def)
next
  case False
  then show ?thesis
    using that [of "mem_rest d = []" d] assms
    by (auto simp: Decoder_Done_def mem_ok_def specDone_def mem_abs_def mem_rest_def)
qed

lemma mem_Next:
  assumes "mem_ok enc limits d"
  obtains r d' where "Decoder_Next d = Some (r, d')" and "mem_ok enc limits d'"
    and "specNext enc limits (mem_abs d) = Some (r, mem_abs d')" and "d_names d' = d_names d"
proof -
  from assms obtain fin d1 where dn: "Decoder_Done d = Some (Inr fin, d1)"
    and d1: "mem_ok enc limits d1" "d_names d1 = d_names d"
    and spec: "specDone enc (mem_abs d) = Some (Inr fin, mem_abs d1)" by (rule mem_Done)
  have fields: "d_encoding d1 = enc" "d_limits d1 = limits" using d1 by (simp_all add: mem_ok_def)
  show ?thesis
  proof (cases fin)
    case True
    then show ?thesis
      using that [OF _ d1(1) _ d1(2)] dn spec by (simp add: Decoder_Next_def specNext_def bindM_apply)
  next
    case more: False
    show ?thesis
    proof (cases "enc = EncodingText")
      case True
      from mem_run [OF mem_text.decodeTextToken_sim d1(1), of limits] obtain r d'
        where "Decoder_run (decodeTextToken Decoder_source limits) d1 = Some (r, d')"
          and "mem_ok enc limits d'" and "specTextToken limits (mem_abs d1) = Some (r, mem_abs d')"
          and "d_names d' = d_names d1" .
      then show ?thesis
        using that [of r d'] more True dn spec fields d1
        by (simp add: Decoder_Next_def specNext_def bindM_apply)
    next
      case False
      from mem_run [OF mem_take.decodeToken_sim d1(1), of limits] obtain r d'
        where "Decoder_run (decodeToken Decoder_take limits) d1 = Some (r, d')"
          and "mem_ok enc limits d'" and "decodeToken pureTake limits (mem_abs d1) = Some (r, mem_abs d')"
          and "d_names d' = d_names d1" .
      then show ?thesis
        using that [of r d'] more False dn spec fields d1
        by (simp add: Decoder_Next_def specNext_def bindM_apply)
    qed
  qed
qed

section \<open>The streaming decoder\<close>

text \<open>The bytes a reader still has to deliver; a reader that will not fail; and how many answers and
  bytes it still holds, which every read makes smaller.\<close>

fun readerBytes :: "readEvent list \<Rightarrow> bytes" where
  "readerBytes [] = []"
| "readerBytes (RData b # es) = b @ readerBytes es"
| "readerBytes (RDataEOF b # es) = b"
| "readerBytes (RFail b m # es) = b"

fun healthy :: "readEvent list \<Rightarrow> bool" where
  "healthy [] = True"
| "healthy (RData b # es) = (b \<noteq> [] \<and> healthy es)"
| "healthy (RDataEOF b # es) = True"
| "healthy (RFail b m # es) = False"

fun readerSize :: "readEvent list \<Rightarrow> nat" where
  "readerSize [] = 0"
| "readerSize (RData b # es) = Suc (length b) + readerSize es"
| "readerSize (RDataEOF b # es) = Suc (length b)"
| "readerSize (RFail b m # es) = Suc (length b)"

lemma readSome_facts:
  assumes "healthy es" and "readSome k es = (b, status, es')" and "0 < k"
  shows "readerBytes es = b @ readerBytes es'" and "healthy es'" and "int (length b) \<le> k"
    and "status = ReadOK \<or> (status = ReadEOF \<and> es' = [])"
    and "status = ReadOK \<Longrightarrow> readerSize es' < readerSize es" and "status = ReadOK \<Longrightarrow> b \<noteq> []"
  using assms by (cases es; cases "hd es"; force split: if_splits)+

definition stream_rest :: "StreamDecoder \<Rightarrow> bytes" where
  "stream_rest d = sd_win d @ readerBytes (sd_src d)"

definition stream_ok :: "Encoding \<Rightarrow> Limits \<Rightarrow> StreamDecoder \<Rightarrow> bool" where
  "stream_ok enc limits d \<longleftrightarrow>
     int (sd_end d) \<le> sd_cap d \<and> 0 < sd_cap d \<and> healthy (sd_src d) \<and> (sd_eof d \<longrightarrow> sd_src d = [])
     \<and> sd_encoding d = enc \<and> sd_limits d = limits"

definition stream_frame ::
  "Encoding \<Rightarrow> Limits \<Rightarrow> Counters \<Rightarrow> nameTable \<Rightarrow> StreamDecoder \<Rightarrow> bool" where
  "stream_frame enc limits c names d \<longleftrightarrow>
     stream_ok enc limits d \<and> sd_tokens d = ctTokens c \<and> sd_depth d = ctDepth c \<and> sd_names d = names"

definition stream_counters :: "StreamDecoder \<Rightarrow> Counters" where
  "stream_counters d = \<lparr>ctTokens = sd_tokens d, ctDepth = sd_depth d\<rparr>"

definition stream_abs :: "StreamDecoder \<Rightarrow> bytes \<times> Counters" where
  "stream_abs d = (stream_rest d, stream_counters d)"

lemma stream_frame_self:
  "stream_ok enc limits d \<Longrightarrow> stream_frame enc limits (stream_counters d) (sd_names d) d"
  by (simp add: stream_frame_def stream_counters_def)

lemma stream_frameD:
  "stream_frame enc limits c names d
     \<Longrightarrow> stream_ok enc limits d \<and> stream_counters d = c \<and> sd_names d = names"
  by (simp add: stream_frame_def stream_counters_def)

text \<open>What is left to read, as a measure for the refill loops.\<close>

definition pending :: "StreamDecoder \<Rightarrow> nat" where
  "pending d = readerSize (sd_src d) + (if sd_eof d then 0 else 1)"

lemma fill_facts:
  assumes fr: "stream_frame enc limits c names d" and eof: "\<not> sd_eof d"
    and room: "int (length (sd_win d)) < sd_cap d"
  obtains d' where "StreamDecoder_fill d = Some (Inr (), d')"
    and "stream_frame enc limits c names d'" and "stream_rest d' = stream_rest d"
    and "sd_cap d' = sd_cap d" and "pending d' < pending d" and "sd_win d' \<noteq> [] \<or> sd_eof d'"
proof -
  let ?k = "sd_cap d - int (length (sd_win d))"
  obtain b status es where rs: "readSome ?k (sd_src d) = (b, status, es)" by (cases "readSome ?k (sd_src d)")
  have h: "healthy (sd_src d)" and "0 < ?k"
    using fr room by (auto simp: stream_frame_def stream_ok_def)
  note facts = readSome_facts [OF h rs \<open>0 < ?k\<close>]
  let ?d = "d\<lparr>sd_start := 0, sd_win := sd_win d @ b, sd_src := es\<rparr>"
  from facts(4) show ?thesis
  proof
    assume st: "status = ReadOK"
    then show ?thesis
      using that [of ?d] fr eof room rs facts
      by (simp add: StreamDecoder_fill_def sd_end_def stream_frame_def stream_ok_def stream_rest_def
          pending_def Let_def)
  next
    assume st: "status = ReadEOF \<and> es = []"
    then show ?thesis
      using that [of "?d\<lparr>sd_eof := True\<rparr>"] fr eof room rs facts
      by (simp add: StreamDecoder_fill_def sd_end_def stream_frame_def stream_ok_def stream_rest_def
          pending_def Let_def)
  qed
qed

lemma grow_facts:
  assumes "stream_frame enc limits c names d"
  shows "stream_frame enc limits c names (StreamDecoder_grow n d)"
    and "stream_rest (StreamDecoder_grow n d) = stream_rest d"
    and "int n \<le> sd_cap (StreamDecoder_grow n d)"
  using assms
  by (auto simp: StreamDecoder_grow_def stream_frame_def stream_ok_def stream_rest_def sd_end_def)

lemma takeLoop_facts:
  assumes "stream_frame enc limits c names d" and "int n \<le> sd_cap d"
  shows "\<exists>d'. stream_frame enc limits c names d' \<and> stream_rest d' = stream_rest d
    \<and> (if n \<le> length (stream_rest d)
       then StreamDecoder_takeLoop n d = Some (Inr (), d') \<and> n \<le> length (sd_win d')
       else StreamDecoder_takeLoop n d = Some (Inl truncatedTake, d'))"
  using assms
proof (induction "pending d" arbitrary: d rule: less_induct)
  case less
  show ?case
  proof (cases "length (sd_win d) < n")
    case False
    then show ?thesis
      using less.prems by (auto simp: StreamDecoder_takeLoop.simps [of n d] stream_rest_def)
  next
    case short: True
    show ?thesis
    proof (cases "sd_eof d")
      case True
      then have "stream_rest d = sd_win d"
        using less.prems by (simp add: stream_rest_def stream_frame_def stream_ok_def)
      then show ?thesis
        using less.prems short True
        by (auto simp: StreamDecoder_takeLoop.simps [of n d] truncatedTake_def)
    next
      case False
      from fill_facts [OF less.prems(1) False] short less.prems(2) obtain d1
        where fill: "StreamDecoder_fill d = Some (Inr (), d1)"
          and d1: "stream_frame enc limits c names d1" "stream_rest d1 = stream_rest d"
          "sd_cap d1 = sd_cap d" "pending d1 < pending d" by force
      have "StreamDecoder_takeLoop n d = StreamDecoder_takeLoop n d1"
        using short False fill by (simp add: StreamDecoder_takeLoop.simps [of n d])
      then show ?thesis
        using less.hyps [OF d1(4) d1(1)] less.prems(2) d1
        by (cases "n \<le> length (stream_rest d)") simp_all
    qed
  qed
qed

lemma peekLoop_facts:
  assumes "stream_frame enc limits c names d" and "int n \<le> sd_cap d"
  shows "\<exists>d'. stream_frame enc limits c names d' \<and> stream_rest d' = stream_rest d
    \<and> StreamDecoder_peekLoop n d = Some (Inr (), d')
    \<and> take n (sd_win d') = take n (stream_rest d)"
  using assms
proof (induction "pending d" arbitrary: d rule: less_induct)
  case less
  show ?case
  proof (cases "length (sd_win d) < n \<and> \<not> sd_eof d")
    case False
    then have "take n (sd_win d) = take n (stream_rest d)"
      using less.prems by (auto simp: stream_rest_def stream_frame_def stream_ok_def)
    then show ?thesis
      using less.prems False by (auto simp: StreamDecoder_peekLoop.simps [of n d])
  next
    case True
    with fill_facts [OF less.prems(1)] less.prems(2) obtain d1
      where fill: "StreamDecoder_fill d = Some (Inr (), d1)"
        and d1: "stream_frame enc limits c names d1" "stream_rest d1 = stream_rest d"
        "sd_cap d1 = sd_cap d" "pending d1 < pending d" by force
    have "StreamDecoder_peekLoop n d = StreamDecoder_peekLoop n d1"
      using True fill by (simp add: StreamDecoder_peekLoop.simps [of n d])
    then show ?thesis
      using less.hyps [OF d1(4) d1(1)] less.prems(2) d1 by simp
  qed
qed

lemma discard_facts:
  assumes "stream_frame enc limits c names d" and "m \<le> length (sd_win d)"
  shows "stream_frame enc limits c names (StreamDecoder_discard m d)"
    and "stream_rest (StreamDecoder_discard m d) = drop m (stream_rest d)"
  using assms
  by (auto simp: StreamDecoder_discard_def stream_frame_def stream_ok_def stream_rest_def sd_end_def)

interpretation stream_take: take_source StreamDecoder_take stream_rest "stream_frame enc limits c names"
  for enc limits c names
proof (unfold_locales, rule simulatesI)
  fix n d
  assume fr: "stream_frame enc limits c names d"
  note g = grow_facts [OF fr, of n]
  from takeLoop_facts [OF g(1,3)] obtain d1 where d1: "stream_frame enc limits c names d1"
      "stream_rest d1 = stream_rest d"
    and loop: "if n \<le> length (stream_rest d)
       then StreamDecoder_takeLoop n (StreamDecoder_grow n d) = Some (Inr (), d1) \<and> n \<le> length (sd_win d1)
       else StreamDecoder_takeLoop n (StreamDecoder_grow n d) = Some (Inl truncatedTake, d1)"
    using g by auto
  show "\<exists>r d'. StreamDecoder_take n d = Some (r, d') \<and> stream_frame enc limits c names d'
      \<and> pureTake n (stream_rest d) = Some (r, stream_rest d')"
  proof (cases "n \<le> length (stream_rest d)")
    case True
    then have w: "n \<le> length (sd_win d1)" using loop by simp
    have "take n (sd_win d1) = take n (stream_rest d)"
      using w d1(2) [symmetric] by (simp add: stream_rest_def)
    then show ?thesis
      using True loop w d1 discard_facts [OF d1(1) w]
      by (auto simp: StreamDecoder_take_def pureTake_def bindM_apply)
  next
    case False
    then show ?thesis
      using loop d1 by (auto simp: StreamDecoder_take_def pureTake_def bindM_apply)
  qed
qed

interpretation stream_text: text_source StreamDecoder_source stream_rest "stream_frame enc limits c names"
  for enc limits c names
proof unfold_locales
  fix d n
  assume fr: "stream_frame enc limits c names d"
  note g = grow_facts [OF fr, of n]
  from peekLoop_facts [OF g(1,3)] obtain d1 where d1: "stream_frame enc limits c names d1"
      "stream_rest d1 = stream_rest d"
    and loop: "StreamDecoder_peekLoop n (StreamDecoder_grow n d) = Some (Inr (), d1)"
    and w: "take n (sd_win d1) = take n (stream_rest d)" using g by auto
  have len: "length (take n (stream_rest d)) \<le> length (sd_win d1)"
    unfolding w [symmetric] by simp
  show "\<exists>d'. peekAhead StreamDecoder_source n d = Some (Inr (take n (stream_rest d)), d')
      \<and> stream_frame enc limits c names d' \<and> stream_rest d' = stream_rest d
      \<and> (\<forall>m \<le> length (take n (stream_rest d)).
           stream_frame enc limits c names (discard StreamDecoder_source m d')
           \<and> stream_rest (discard StreamDecoder_source m d') = drop m (stream_rest d))"
    using loop d1 w discard_facts [OF d1(1)] len
    by (auto simp: StreamDecoder_source_def StreamDecoder_peekAhead_def bindM_apply simp del: length_take
        dest: order_trans)
qed

lemma stream_run:
  assumes sim: "\<And>c names. simulates (pairOk (stream_frame enc limits c names)) (pairAbs stream_rest) m n"
    and ok: "stream_ok enc limits d"
  obtains r d' where "StreamDecoder_run m d = Some (r, d')" and "stream_ok enc limits d'"
    and "n (stream_abs d) = Some (r, stream_abs d')" and "sd_names d' = sd_names d"
proof -
  have "pairOk (stream_frame enc limits (stream_counters d) (sd_names d)) (d, stream_counters d)"
    using ok by (simp add: pairOk_def stream_frame_self)
  with sim obtain r d' c where m: "m (d, stream_counters d) = Some (r, (d', c))"
    and fr: "stream_frame enc limits (stream_counters d) (sd_names d) d'"
    and n: "n (stream_rest d, stream_counters d) = Some (r, (stream_rest d', c))"
    by (auto simp: simulates_def pairOk_def pairAbs_def) (metis old.prod.exhaust)
  let ?d = "d'\<lparr>sd_tokens := ctTokens c, sd_depth := ctDepth c\<rparr>"
  show ?thesis
  proof (rule that [of r ?d])
    show "StreamDecoder_run m d = Some (r, ?d)"
      using m by (simp add: StreamDecoder_run_def stream_counters_def)
    show "stream_ok enc limits ?d" and "sd_names ?d = sd_names d"
      using stream_frameD [OF fr] by (simp_all add: stream_ok_def sd_end_def)
    show "n (stream_abs d) = Some (r, stream_abs ?d)"
      using n by (simp add: stream_abs_def stream_rest_def stream_counters_def)
  qed
qed

lemma stream_Done:
  assumes "stream_ok enc limits d"
  obtains r d' where "StreamDecoder_Done d = Some (Inr r, d')" and "stream_ok enc limits d'"
    and "specDone enc (stream_abs d) = Some (Inr r, stream_abs d')" and "sd_names d' = sd_names d"
proof (cases "enc = EncodingText")
  case True
  from stream_text.skipTextFiller_yields [OF stream_frame_self [OF assms]] obtain d'
    where "skipTextFiller StreamDecoder_source d = Some (Inr (specFiller (stream_rest d) \<noteq> []), d')"
      and "stream_frame enc limits (stream_counters d) (sd_names d) d'"
      and "stream_rest d' = specFiller (stream_rest d)"
    by (auto simp: stream_text.yields_def)
  then show ?thesis
    using that [of "specFiller (stream_rest d) = []" d'] True assms stream_frameD [of enc limits _ _ d']
    by (auto simp: StreamDecoder_Done_def stream_ok_def specDone_def stream_abs_def)
next
  case binary: False
  have enc: "sd_encoding d = enc" using assms by (simp add: stream_ok_def)
  show ?thesis
  proof (cases "sd_win d \<noteq> [] \<or> sd_eof d")
    case True
    then have "sd_win d = [] \<longleftrightarrow> stream_rest d = []"
      using assms by (auto simp: stream_ok_def stream_rest_def)
    then show ?thesis
      using that [of "stream_rest d = []" d] binary enc assms True
      by (auto simp: StreamDecoder_Done_def specDone_def stream_abs_def)
  next
    case False
    then obtain d1 where fill: "StreamDecoder_fill d = Some (Inr (), d1)"
      and fr: "stream_frame enc limits (stream_counters d) (sd_names d) d1"
      and rest: "stream_rest d1 = stream_rest d" and win: "sd_win d1 \<noteq> [] \<or> sd_eof d1"
      using fill_facts [OF stream_frame_self [OF assms]] assms by (force simp: stream_ok_def)
    have "(sd_win d1 = [] \<and> sd_eof d1) \<longleftrightarrow> stream_rest d1 = []"
      using win fr by (auto simp: stream_rest_def stream_frame_def stream_ok_def)
    then show ?thesis
      using that [of "stream_rest d = []" d1] binary enc False fill rest stream_frameD [OF fr]
      by (auto simp: StreamDecoder_Done_def specDone_def stream_abs_def)
  qed
qed

lemma stream_Next:
  assumes "stream_ok enc limits d"
  obtains r d' where "StreamDecoder_Next d = Some (r, d')" and "stream_ok enc limits d'"
    and "specNext enc limits (stream_abs d) = Some (r, stream_abs d')" and "sd_names d' = sd_names d"
proof -
  from assms obtain fin d1 where dn: "StreamDecoder_Done d = Some (Inr fin, d1)"
    and d1: "stream_ok enc limits d1" "sd_names d1 = sd_names d"
    and spec: "specDone enc (stream_abs d) = Some (Inr fin, stream_abs d1)" by (rule stream_Done)
  have fields: "sd_encoding d1 = enc" "sd_limits d1 = limits" using d1 by (simp_all add: stream_ok_def)
  show ?thesis
  proof (cases fin)
    case True
    then show ?thesis
      using that [OF _ d1(1) _ d1(2)] dn spec by (simp add: StreamDecoder_Next_def specNext_def bindM_apply)
  next
    case more: False
    show ?thesis
    proof (cases "enc = EncodingText")
      case True
      from stream_run [OF stream_text.decodeTextToken_sim d1(1), of limits] obtain r d'
        where "StreamDecoder_run (decodeTextToken StreamDecoder_source limits) d1 = Some (r, d')"
          and "stream_ok enc limits d'" and "specTextToken limits (stream_abs d1) = Some (r, stream_abs d')"
          and "sd_names d' = sd_names d1" .
      then show ?thesis
        using that [of r d'] more True dn spec fields d1
        by (simp add: StreamDecoder_Next_def specNext_def bindM_apply)
    next
      case False
      from stream_run [OF stream_take.decodeToken_sim d1(1), of limits] obtain r d'
        where "StreamDecoder_run (decodeToken StreamDecoder_take limits) d1 = Some (r, d')"
          and "stream_ok enc limits d'" and "decodeToken pureTake limits (stream_abs d1) = Some (r, stream_abs d')"
          and "sd_names d' = sd_names d1" .
      then show ?thesis
        using that [of r d'] more False dn spec fields d1
        by (simp add: StreamDecoder_Next_def specNext_def bindM_apply)
    qed
  qed
qed

end
