(* ===== verification/DecoderTheorems.thy ===== *)
theory DecoderTheorems
  imports DecoderFacts
begin

text \<open>
  What the decoders of \<^verbatim>\<open>binary.go\<close>, \<^verbatim>\<open>text.go\<close> and \<^verbatim>\<open>stream.go\<close> promise: the streaming decoder reads the
  same tokens as the in-memory one whatever the reader does to the section's boundaries; every
  token consumes input, counts against the budget and keeps the nesting within its limit, so
  skipping returns; the binary grammar inverts an encoder, and skipping a container lands behind
  its matching close; the text grammar reads back what is quoted and never takes a date for a
  number.
\<close>

section \<open>Sequences of tokens\<close>

text \<open>The answers of \<open>n\<close> successive calls, refusals included; a caller may go on after a refusal.\<close>

fun nextResults :: "('s, 'a) save_m \<Rightarrow> nat \<Rightarrow> 's \<Rightarrow> (SaveError + 'a) list option" where
  "nextResults m 0 s = Some []"
| "nextResults m (Suc n) s =
     (case m s of
        None \<Rightarrow> None
      | Some (r, s') \<Rightarrow> (case nextResults m n s' of None \<Rightarrow> None | Some rs \<Rightarrow> Some (r # rs)))"

lemma mem_results:
  assumes "mem_ok enc limits d"
  shows "\<exists>rs. nextResults Decoder_Next n d = Some rs \<and> length rs = n
    \<and> nextResults (specNext enc limits) n (mem_abs d) = Some rs"
  using assms
proof (induction n arbitrary: d)
  case 0
  then show ?case by simp
next
  case (Suc n)
  from mem_Next [OF Suc.prems] obtain r d' where "Decoder_Next d = Some (r, d')"
    and ok: "mem_ok enc limits d'" and "specNext enc limits (mem_abs d) = Some (r, mem_abs d')" .
  moreover from Suc.IH [OF ok] obtain rs where "nextResults Decoder_Next n d' = Some rs"
    and "length rs = n" and "nextResults (specNext enc limits) n (mem_abs d') = Some rs" by blast
  ultimately show ?case by simp
qed

lemma stream_results:
  assumes "stream_ok enc limits d"
  shows "\<exists>rs. nextResults StreamDecoder_Next n d = Some rs \<and> length rs = n
    \<and> nextResults (specNext enc limits) n (stream_abs d) = Some rs"
  using assms
proof (induction n arbitrary: d)
  case 0
  then show ?case by simp
next
  case (Suc n)
  from stream_Next [OF Suc.prems] obtain r d' where "StreamDecoder_Next d = Some (r, d')"
    and ok: "stream_ok enc limits d'"
    and "specNext enc limits (stream_abs d) = Some (r, stream_abs d')" .
  moreover from Suc.IH [OF ok] obtain rs where "nextResults StreamDecoder_Next n d' = Some rs"
    and "length rs = n" and "nextResults (specNext enc limits) n (stream_abs d') = Some rs" by blast
  ultimately show ?case by simp
qed

lemma mem_ok_new: "mem_ok enc limits (NewDecoderFor enc data limits)"
  by (simp add: mem_ok_def NewDecoderFor_def)

lemma stream_ok_new: "healthy src \<Longrightarrow> stream_ok enc limits (NewStreamDecoderFor enc src limits)"
  by (simp add: stream_ok_def NewStreamDecoderFor_def sd_end_def streamBufferBytes_def)

lemma abs_new:
  "mem_abs (NewDecoderFor enc data limits) = (data, \<lparr>ctTokens = 0, ctDepth = 0\<rparr>)"
  "stream_abs (NewStreamDecoderFor enc src limits) = (readerBytes src, \<lparr>ctTokens = 0, ctDepth = 0\<rparr>)"
  by (simp_all add: mem_abs_def mem_rest_def mem_counters_def NewDecoderFor_def
      stream_abs_def stream_rest_def stream_counters_def NewStreamDecoderFor_def)

text \<open>C1. The streaming decoder is the in-memory decoder: over any reader that delivers the
  section in pieces of any size and does not fail, and for both encodings, any number of calls of \<^verbatim>\<open>Next\<close>
  all return, and return exactly the tokens and refusals the in-memory decoder gives on the whole
  section.\<close>

theorem stream_equals_memory:
  assumes "healthy src"
  shows "\<exists>rs. nextResults StreamDecoder_Next n (NewStreamDecoderFor enc src limits) = Some rs
    \<and> nextResults Decoder_Next n (NewDecoderFor enc (readerBytes src) limits) = Some rs
    \<and> length rs = n"
proof -
  from stream_results [OF stream_ok_new [OF assms, of enc limits], of n] obtain rs
    where "nextResults StreamDecoder_Next n (NewStreamDecoderFor enc src limits) = Some rs"
      and "nextResults (specNext enc limits) n (readerBytes src, \<lparr>ctTokens = 0, ctDepth = 0\<rparr>) = Some rs"
    by (auto simp: abs_new)
  moreover from mem_results [OF mem_ok_new [of enc limits "readerBytes src"], of n] obtain rs'
    where "nextResults Decoder_Next n (NewDecoderFor enc (readerBytes src) limits) = Some rs'"
      and "nextResults (specNext enc limits) n (readerBytes src, \<lparr>ctTokens = 0, ctDepth = 0\<rparr>) = Some rs'"
      and "length rs' = n"
    by (auto simp: abs_new)
  ultimately show ?thesis by simp
qed

text \<open>The section \<open>a = { 7 }\<close> cut after \<open>a \<close> and inside the value.\<close>

theorem stream_equals_memory_witness:
  "\<exists>rs. nextResults StreamDecoder_Next 5
      (NewStreamDecoderFor EncodingText [RData ''a '', RData ''= { '', RDataEOF ''7 }''] DefaultLimits)
        = Some rs
    \<and> nextResults Decoder_Next 5 (NewDecoderFor EncodingText ''a = { 7 }'' DefaultLimits) = Some rs
    \<and> length rs = 5"
  using stream_equals_memory [of "[RData ''a '', RData ''= { '', RDataEOF ''7 }'']" 5 EncodingText DefaultLimits]
  by simp

section \<open>Progress, budget and nesting\<close>

text \<open>An operation that never gives bytes back.\<close>

definition shrinks :: "(bytes, 'a) save_m \<Rightarrow> bool" where
  "shrinks m \<longleftrightarrow> (\<forall>bs r bs'. m bs = Some (r, bs') \<longrightarrow> length bs' \<le> length bs)"

named_theorems shrink_intros \<open>introduction rules for operations that consume input\<close>

lemma shrinks_return [shrink_intros]: "shrinks (returnM a)"
  by (simp add: shrinks_def)

lemma shrinks_fail [shrink_intros]: "shrinks (failM e)"
  by (simp add: shrinks_def)

lemma shrinks_bind [shrink_intros]:
  "shrinks m \<Longrightarrow> (\<And>a. shrinks (f a)) \<Longrightarrow> shrinks (bindM m f)"
  by (fastforce simp: shrinks_def bindM_apply split: option.splits sum.splits)

lemma shrinks_if [shrink_intros]:
  "(c \<Longrightarrow> shrinks m) \<Longrightarrow> (\<not> c \<Longrightarrow> shrinks m') \<Longrightarrow> shrinks (if c then m else m')"
  by simp

lemma shrinks_take [shrink_intros]: "shrinks (pureTake n)"
  by (auto simp: shrinks_def pureTake_def)

lemma shrinks_readU16 [shrink_intros]: "shrinks (readU16 pureTake)"
  unfolding readU16_def by (intro shrink_intros)

lemma shrinks_readString [shrink_intros]: "shrinks (readString pureTake limits)"
  unfolding readString_def by (intro shrink_intros)

lemma shrinks_channel [shrink_intros]: "shrinks (readRGBChannel pureTake)"
  unfolding readRGBChannel_def by (intro shrink_intros)

lemma shrinks_rgb [shrink_intros]: "shrinks (decodeRGB pureTake)"
  unfolding decodeRGB_def by (intro shrink_intros)

lemma shrinks_payload: "decodePayload pureTake limits idn = Some m \<Longrightarrow> shrinks m"
  unfolding decodePayload_def by (auto split: if_splits intro!: shrink_intros)

lemma length_specFiller: "length (specFiller bs) \<le> length bs"
proof (induction bs rule: specFiller.induct)
  case (1 bs)
  have "length (dropWhile isTextSpace bs) \<le> length bs" by (rule length_dropWhile_le)
  moreover have "length (tl (dropWhile p cs)) \<le> length cs" for p and cs :: bytes
    using length_dropWhile_le [of p cs] by simp
  ultimately show ?case
    using 1 by (subst specFiller.simps) (fastforce split: list.splits dest: le_trans)
qed

lemma specUnquoted_progress:
  "specUnquoted limits bs = (Inr t, bs') \<Longrightarrow> length bs' < length bs"
  "specUnquoted limits bs = (r, bs') \<Longrightarrow> length bs' \<le> length bs"
  by (auto simp: specUnquoted_def Let_def split: if_splits)
     (use spanLen_le [of "\<lambda>b. \<not> isTextDelimiter b" bs] in linarith)

lemma specChannels_progress:
  "specColourChannels limits channel token bs = (r, bs') \<Longrightarrow> length bs' \<le> length bs"
proof (induction limits channel token bs arbitrary: r bs' rule: specColourChannels.induct)
  case (1 limits channel token bs)
  show ?case
    using "1.prems" length_specFiller [of bs] specUnquoted_progress(2) [of limits "specFiller bs"]
    by (subst (asm) specColourChannels.simps)
       (fastforce simp: Let_def split: if_splits prod.splits sum.splits option.splits
         dest!: "1.IH" [OF refl] dest: le_trans)
qed

lemma specColour_progress: "specColour limits bs = (r, bs') \<Longrightarrow> length bs' \<le> length bs"
  using length_specFiller [of bs] specChannels_progress [of limits 0 "tokenOf KindRGB" "drop 1 (specFiller bs)"]
  by (fastforce simp: specColour_def Let_def split: if_splits)

lemma specQuoted_progress: "specQuoted limits bs = (Inr t, bs') \<Longrightarrow> length bs' < length bs"
  using scanQuotedBody_bounds
  by (fastforce simp: specQuoted_def Let_def split: if_splits prod.splits option.splits)

text \<open>What a successful operation can answer.\<close>

definition answers :: "('a \<Rightarrow> bool) \<Rightarrow> ('s, 'a) save_m \<Rightarrow> bool" where
  "answers P m \<longleftrightarrow> (\<forall>s a s'. m s = Some (Inr a, s') \<longrightarrow> P a)"

lemma answers_return: "answers P (returnM a) \<longleftrightarrow> P a"
  by (auto simp: answers_def)

lemma answers_fail: "answers P (failM e)"
  by (simp add: answers_def)

lemma answers_bind: "(\<And>a. answers P (f a)) \<Longrightarrow> answers P (bindM m f)"
  by (fastforce simp: answers_def bindM_apply split: option.splits sum.splits)

lemma answers_if: "(c \<Longrightarrow> answers P m) \<Longrightarrow> (\<not> c \<Longrightarrow> answers P n) \<Longrightarrow> answers P (if c then m else n)"
  by simp

lemmas answers_rules = answers_fail answers_bind answers_if

definition isBracket :: "Token \<Rightarrow> bool" where
  "isBracket t \<longleftrightarrow> Kind t = KindOpen \<or> Kind t = KindClose"

lemma rgb_no_bracket: "answers (\<lambda>t. \<not> isBracket t) (decodeRGB pureTake)"
  unfolding decodeRGB_def
  by (intro answers_rules) (simp_all add: answers_return isBracket_def)

lemma payload_no_bracket:
  "decodePayload pureTake limits idn = Some m \<Longrightarrow> answers (\<lambda>t. \<not> isBracket t) m"
  unfolding decodePayload_def
  by (auto split: if_splits intro!: answers_rules simp: answers_return isBracket_def
      rgb_no_bracket [unfolded isBracket_def, simplified])

lemma classify_no_bracket:
  "Kind (classifyTextScalar raw) \<noteq> KindOpen" "Kind (classifyTextScalar raw) \<noteq> KindClose"
  by (auto simp: classifyTextScalar_def isBracket_def split: option.splits)

lemma channels_no_bracket:
  "specColourChannels limits channel token bs = (Inr t, bs') \<Longrightarrow> Kind t = Kind token"
proof (induction limits channel token bs arbitrary: t bs' rule: specColourChannels.induct)
  case (1 limits channel token bs)
  show ?case
    using "1.prems"
    by (subst (asm) specColourChannels.simps)
       (fastforce simp: Let_def split: if_splits prod.splits sum.splits option.splits
         dest!: "1.IH" [OF refl])
qed

lemma spec_no_bracket:
  "specUnquoted limits bs = (Inr t, bs') \<Longrightarrow> \<not> isBracket t"
  "specQuoted limits bs = (Inr t, bs') \<Longrightarrow> \<not> isBracket t"
  "specColour limits bs = (Inr t, bs') \<Longrightarrow> \<not> isBracket t"
  by (auto simp: specUnquoted_def specQuoted_def specColour_def Let_def classify_no_bracket
      isBracket_def dest: channels_no_bracket split: if_splits prod.splits option.splits)

definition depthChange :: "Token \<Rightarrow> int" where
  "depthChange t = (if Kind t = KindOpen then 1 else if Kind t = KindClose then - 1 else 0)"

lemma depthChange_0: "\<not> isBracket t \<Longrightarrow> depthChange t = 0"
  by (simp add: depthChange_def isBracket_def)

text \<open>One successful step of either grammar.\<close>

definition goodStep :: "Limits \<Rightarrow> bytes \<times> Counters \<Rightarrow> Token \<Rightarrow> bytes \<times> Counters \<Rightarrow> bool" where
  "goodStep limits s t s' \<longleftrightarrow>
     length (fst s') < length (fst s)
     \<and> ctTokens (snd s') = ctTokens (snd s) + 1 \<and> ctTokens (snd s') \<le> MaxTokens limits
     \<and> ctDepth (snd s') = ctDepth (snd s) + depthChange t
     \<and> (Kind t = KindOpen \<longrightarrow> ctDepth (snd s') \<le> MaxDepth limits)
     \<and> (Kind t = KindClose \<longrightarrow> ctDepth (snd s) \<noteq> 0)"

lemma readU16_pure:
  "readU16 pureTake bs = Some (Inr w, bs') \<Longrightarrow> length bs' < length bs"
  by (auto simp: readU16_def pureTake_def bindM_apply split: if_splits)

lemma decodeToken_step:
  assumes "decodeToken pureTake limits (bs, c) = Some (Inr t, s')"
  shows "goodStep limits (bs, c) t s'"
proof -
  let ?c = "c\<lparr>ctTokens := ctTokens c + 1\<rparr>"
  from assms have budget: "ctTokens c + 1 \<le> MaxTokens limits"
    by (auto simp: decodeToken_def bindM_apply countToken_def Let_def split: if_splits)
  with assms obtain idn bs1 where idn: "readU16 pureTake bs = Some (Inr idn, bs1)"
    by (auto simp: decodeToken_def bindM_apply countToken_def onSource_def Let_def
        split: if_splits option.splits prod.splits sum.splits)
  note run = assms [unfolded decodeToken_def bindM_apply countToken_def onSource_def]
  have len: "length bs1 < length bs" by (rule readU16_pure [OF idn])
  show ?thesis
  proof (cases "decodePayload pureTake limits idn")
    case None
    then show ?thesis
      using run idn budget len
      by (auto simp: Let_def openContainer_def closeContainer_def goodStep_def depthChange_def
          split: if_splits)
  next
    case (Some m)
    show ?thesis
    proof (cases "idn = lexOpen \<or> idn = lexClose")
      case True
      then show ?thesis
        using run idn budget len
        by (auto simp: Let_def openContainer_def closeContainer_def goodStep_def depthChange_def
            lexOpen_def lexClose_def split: if_splits)
    next
      case False
      then obtain bs2 where m: "m bs1 = Some (Inr t, bs2)" and s': "s' = (bs2, ?c)"
        using run idn budget Some
        by (auto simp: Let_def split: if_splits option.splits)
      have "length bs2 \<le> length bs1" using shrinks_payload [OF Some] m by (auto simp: shrinks_def)
      moreover have "\<not> isBracket t" using payload_no_bracket [OF Some] m by (auto simp: answers_def)
      ultimately show ?thesis
        using s' len budget by (auto simp: goodStep_def depthChange_0 isBracket_def)
    qed
  qed
qed

lemma specTextToken_step:
  assumes "specTextToken limits (bs, c) = Some (Inr t, s')"
  shows "goodStep limits (bs, c) t s'"
proof -
  let ?r = "specFiller bs"
  let ?c = "c\<lparr>ctTokens := ctTokens c + 1\<rparr>"
  have len: "length ?r \<le> length bs" by (rule length_specFiller)
  from assms have budget: "ctTokens c + 1 \<le> MaxTokens limits"
    by (auto simp: specTextToken_def bindM_apply countToken_def Let_def split: if_splits)
  note run = assms [unfolded specTextToken_def bindM_apply countToken_def onSource_def lift_spec_def]
  have ne: "?r \<noteq> []" using run budget by (auto simp: Let_def split: if_splits)
  then have one: "length ?r - Suc 0 < length bs" using len by (cases ?r) auto
  consider (struct) "hd ?r \<in> {CHR ''{'', CHR ''}'', CHR ''=''}" | (quote) "hd ?r = CHR 0x22"
    | (bare) "hd ?r \<notin> {CHR ''{'', CHR ''}'', CHR ''='', CHR 0x22}" by blast
  then show ?thesis
  proof cases
    case struct
    then show ?thesis
      using run ne budget one
      by (auto simp: Let_def openContainer_def closeContainer_def goodStep_def depthChange_def
          split: if_splits)
  next
    case quote
    then obtain bs2 where q: "specQuoted limits ?r = (Inr t, bs2)" and s': "s' = (bs2, ?c)"
      using run ne budget by (auto simp: Let_def split: prod.splits)
    have "length bs2 < length bs" using specQuoted_progress [OF q] len by simp
    then show ?thesis
      using s' budget spec_no_bracket(2) [OF q] by (auto simp: goodStep_def depthChange_0 isBracket_def)
  next
    case bare
    then obtain u bs1 where u: "specUnquoted limits ?r = (Inr u, bs1)"
      using run ne budget by (auto simp: Let_def split: prod.splits sum.splits option.splits)
    have len1: "length bs1 < length bs" using specUnquoted_progress(1) [OF u] len by simp
    show ?thesis
    proof (cases "Kind u = KindUnquoted \<and> isColourName (Text u)")
      case True
      then obtain bs2 where q: "specColour limits bs1 = (Inr t, bs2)" and s': "s' = (bs2, ?c)"
        using run ne budget bare u by (auto simp: Let_def split: prod.splits)
      have "length bs2 < length bs" using specColour_progress [OF q] len1 by simp
      then show ?thesis
        using s' budget spec_no_bracket(3) [OF q] by (auto simp: goodStep_def depthChange_0 isBracket_def)
    next
      case False
      then have "t = u" and "s' = (bs1, ?c)" using run ne budget bare u by (auto simp: Let_def)
      then show ?thesis
        using len1 budget spec_no_bracket(1) [OF u] by (auto simp: goodStep_def depthChange_0 isBracket_def)
    qed
  qed
qed

lemma specNext_step:
  assumes "specNext enc limits (bs, c) = Some (Inr t, s')"
  shows "goodStep limits (bs, c) t s'"
proof (cases "enc = EncodingText")
  case True
  have run: "specTextToken limits (specFiller bs, c) = Some (Inr t, s')"
    using assms True by (auto simp: specNext_def specDone_def bindM_apply split: if_splits)
  show ?thesis
    using specTextToken_step [OF run] length_specFiller [of bs] by (auto simp: goodStep_def)
next
  case False
  then have "decodeToken pureTake limits (bs, c) = Some (Inr t, s')"
    using assms by (auto simp: specNext_def specDone_def bindM_apply split: if_splits)
  then show ?thesis by (rule decodeToken_step)
qed

text \<open>The nesting a decoder may be in.\<close>

definition depthOk :: "Limits \<Rightarrow> int \<Rightarrow> bool" where
  "depthOk limits depth \<longleftrightarrow> 0 \<le> depth \<and> depth \<le> MaxDepth limits"

lemma goodStep_depthOk:
  "goodStep limits s t s' \<Longrightarrow> depthOk limits (ctDepth (snd s)) \<Longrightarrow> depthOk limits (ctDepth (snd s'))"
  by (auto simp: goodStep_def depthOk_def depthChange_def split: if_splits)

lemma goodStep_stream:
  assumes "stream_ok enc limits d" and "StreamDecoder_Next d = Some (Inr t, d')"
  shows "stream_ok enc limits d'" and "goodStep limits (stream_abs d) t (stream_abs d')"
proof -
  from stream_Next [OF assms(1)] assms(2) have spec: "specNext enc limits (stream_abs d) = Some (Inr t, stream_abs d')"
    and ok: "stream_ok enc limits d'" by (metis option.inject prod.inject)+
  show "stream_ok enc limits d'" by (rule ok)
  show "goodStep limits (stream_abs d) t (stream_abs d')"
    using specNext_step [of enc limits "stream_rest d" "stream_counters d" t "stream_abs d'"] spec
    by (simp add: stream_abs_def)
qed

text \<open>C2. Every token the streaming decoder returns, in either encoding, consumes at least one byte,
  is counted once and within the token budget, and moves the nesting by the bracket it is, never
  below zero and never above the depth limit.\<close>

theorem stream_next_bounds:
  assumes "stream_ok enc limits d" and "0 \<le> sd_depth d" and "sd_depth d \<le> MaxDepth limits"
    and "StreamDecoder_Next d = Some (Inr t, d')"
  shows "stream_ok enc limits d' \<and> length (stream_rest d') < length (stream_rest d)
    \<and> sd_tokens d' = sd_tokens d + 1 \<and> sd_tokens d' \<le> MaxTokens limits
    \<and> sd_depth d' = sd_depth d + depthChange t
    \<and> 0 \<le> sd_depth d' \<and> sd_depth d' \<le> MaxDepth limits"
  using goodStep_stream [OF assms(1,4)] goodStep_depthOk assms(2,3)
  by (fastforce simp: goodStep_def depthOk_def stream_abs_def stream_counters_def)

theorem stream_next_bounds_witness:
  "\<exists>t d'. StreamDecoder_Next (NewStreamDecoderFor EncodingText [RDataEOF ''{ a }''] DefaultLimits) = Some (Inr t, d')
    \<and> Kind t = KindOpen \<and> sd_depth d' = 1 \<and> length (stream_rest d') < 5"
proof -
  let ?d = "NewStreamDecoderFor EncodingText [RDataEOF ''{ a }''] DefaultLimits"
  have "case StreamDecoder_Next ?d of Some (Inr t, _) \<Rightarrow> Kind t = KindOpen | _ \<Rightarrow> False"
    by code_simp
  then obtain t d' where step: "StreamDecoder_Next ?d = Some (Inr t, d')" and k: "Kind t = KindOpen"
    by (auto split: option.splits prod.splits sum.splits)
  have "stream_ok EncodingText DefaultLimits ?d" by (rule stream_ok_new) simp
  then have "sd_depth d' = sd_depth ?d + depthChange t \<and> length (stream_rest d') < length (stream_rest ?d)"
    using stream_next_bounds [of EncodingText DefaultLimits ?d t d'] step
    by (simp add: NewStreamDecoderFor_def DefaultLimits_def)
  then show ?thesis
    using step k by (auto simp: depthChange_def NewStreamDecoderFor_def stream_rest_def)
qed

section \<open>Skipping\<close>

lemma SkipToDepth_returns:
  assumes "stream_ok enc limits d"
  shows "\<exists>r d'. StreamDecoder_SkipToDepth target d = Some (r, d') \<and> stream_ok enc limits d'
    \<and> (r = Inr () \<longrightarrow> sd_depth d' = (if sd_depth d > target then target else sd_depth d))"
  using assms
proof (induction "length (stream_rest d)" arbitrary: d rule: less_induct)
  case less
  show ?case
  proof (cases "sd_depth d > target")
    case False
    then show ?thesis using less.prems by (subst StreamDecoder_SkipToDepth.simps) auto
  next
    case deep: True
    from stream_Next [OF less.prems] obtain r d1 where n: "StreamDecoder_Next d = Some (r, d1)"
      and d1: "stream_ok enc limits d1" by metis
    have unfold: "StreamDecoder_SkipToDepth target d = bindM StreamDecoder_Next (\<lambda>_. StreamDecoder_SkipToDepth target) d"
      using deep by (subst StreamDecoder_SkipToDepth.simps) simp
    show ?thesis
    proof (cases r)
      case (Inl e)
      then show ?thesis using unfold n d1 by simp
    next
      case (Inr t)
      note g = goodStep_stream(2) [OF less.prems n [unfolded Inr], unfolded goodStep_def stream_abs_def stream_counters_def]
      then have "length (stream_rest d1) < length (stream_rest d)" by simp
      from less.hyps [OF this d1] obtain r2 d2 where
        "StreamDecoder_SkipToDepth target d1 = Some (r2, d2)" "stream_ok enc limits d2"
        "r2 = Inr () \<longrightarrow> sd_depth d2 = (if sd_depth d1 > target then target else sd_depth d1)" by blast
      moreover have "sd_depth d1 > target \<or> sd_depth d1 = target"
        using g deep by (auto simp: depthChange_def split: if_splits)
      ultimately show ?thesis using unfold n Inr deep by auto
    qed
  qed
qed

text \<open>C3. Skipping a value always returns, on any input a reader may deliver; when it succeeds on a
  container, the nesting is back to what it was outside the container.\<close>

theorem stream_skip_returns:
  assumes "stream_ok enc limits d"
  shows "\<exists>r d'. StreamDecoder_SkipValue t d = Some (r, d') \<and> stream_ok enc limits d'
    \<and> (r = Inr () \<longrightarrow> sd_depth d' = (if Kind t = KindOpen then sd_depth d - 1 else sd_depth d))"
  using SkipToDepth_returns [OF assms, of "sd_depth d - 1"] assms
  by (auto simp: StreamDecoder_SkipValue_def)

theorem stream_skip_returns_witness:
  "\<exists>r d'. StreamDecoder_SkipValue (tokenOf KindOpen)
      ((NewStreamDecoderFor EncodingText [RData ''a {'', RDataEOF '' b } } c''] DefaultLimits)\<lparr>sd_depth := 1\<rparr>)
        = Some (r, d')"
  using stream_skip_returns [of EncodingText DefaultLimits
      "(NewStreamDecoderFor EncodingText [RData ''a {'', RDataEOF '' b } } c''] DefaultLimits)\<lparr>sd_depth := 1\<rparr>"
      "tokenOf KindOpen"]
  by (auto simp: stream_ok_def NewStreamDecoderFor_def sd_end_def streamBufferBytes_def)

end
