(* ===== verification/BinaryRoundtrip.thy ===== *)
theory BinaryRoundtrip
  imports DecoderTheorems
begin

text \<open>
  The wire form of the binary grammar, written down independently of the decoder: the lexemes a
  section is made of, the bytes of each, and the token each stands for. The decoder of
  \<^verbatim>\<open>binary.go\<close> inverts it, and \<^verbatim>\<open>SkipValue\<close> finds the close that matches.
\<close>

datatype lexeme =
    LxOpen
  | LxClose
  | LxEqual
  | LxID "16 word"
  | LxU32 "32 word"
  | LxU64 "64 word"
  | LxI32 "32 word"
  | LxI64 "64 word"
  | LxBool bool
  | LxQuoted bytes
  | LxUnquoted bytes
  | LxF32 bytes
  | LxF64 bytes
  | LxRGB "32 word" "32 word" "32 word" "32 word option"
  | LxLookup8 "8 word"
  | LxLookup16 "16 word"
  | LxLookup24 bytes
  | LxLookup32 "32 word"

definition le16 :: "16 word \<Rightarrow> bytes" where "le16 w = leBytes 2 (unat w)"
definition le32 :: "32 word \<Rightarrow> bytes" where "le32 w = leBytes 4 (unat w)"
definition le64 :: "64 word \<Rightarrow> bytes" where "le64 w = leBytes 8 (unat w)"

definition lenPrefixed :: "bytes \<Rightarrow> bytes" where
  "lenPrefixed text = le16 (word_of_nat (length text)) @ text"

fun encodeLexeme :: "lexeme \<Rightarrow> bytes" where
  "encodeLexeme LxOpen = le16 lexOpen"
| "encodeLexeme LxClose = le16 lexClose"
| "encodeLexeme LxEqual = le16 lexEqual"
| "encodeLexeme (LxID i) = le16 i"
| "encodeLexeme (LxU32 w) = le16 lexU32 @ le32 w"
| "encodeLexeme (LxU64 w) = le16 lexU64 @ le64 w"
| "encodeLexeme (LxI32 w) = le16 lexI32 @ le32 w"
| "encodeLexeme (LxI64 w) = le16 lexI64 @ le64 w"
| "encodeLexeme (LxBool b) = le16 lexBool @ [if b then CHR 0x01 else CHR 0x00]"
| "encodeLexeme (LxQuoted text) = le16 lexQuoted @ lenPrefixed text"
| "encodeLexeme (LxUnquoted text) = le16 lexUnquoted @ lenPrefixed text"
| "encodeLexeme (LxF32 raw) = le16 lexF32 @ raw"
| "encodeLexeme (LxF64 raw) = le16 lexF64 @ raw"
| "encodeLexeme (LxRGB r g b alpha) =
     le16 lexRGB @ le16 lexOpen @ le16 lexU32 @ le32 r @ le16 lexU32 @ le32 g @ le16 lexU32 @ le32 b
     @ (case alpha of None \<Rightarrow> [] | Some a \<Rightarrow> le16 lexU32 @ le32 a) @ le16 lexClose"
| "encodeLexeme (LxLookup8 w) = le16 lexLookupU8 @ leBytes 1 (unat w)"
| "encodeLexeme (LxLookup16 w) = le16 lexLookupU16 @ le16 w"
| "encodeLexeme (LxLookup24 raw) = le16 lexLookupU24 @ raw"
| "encodeLexeme (LxLookup32 w) = le16 lexLookupU32 @ le32 w"

fun lexemeToken :: "lexeme \<Rightarrow> Token" where
  "lexemeToken LxOpen = tokenOf KindOpen"
| "lexemeToken LxClose = tokenOf KindClose"
| "lexemeToken LxEqual = tokenOf KindEqual"
| "lexemeToken (LxID i) = (tokenOf KindID)\<lparr>ID := i\<rparr>"
| "lexemeToken (LxU32 w) = (tokenOf KindU32)\<lparr>Unsigned := ucast w\<rparr>"
| "lexemeToken (LxU64 w) = (tokenOf KindU64)\<lparr>Unsigned := w\<rparr>"
| "lexemeToken (LxI32 w) = (tokenOf KindI32)\<lparr>Signed := scast w\<rparr>"
| "lexemeToken (LxI64 w) = (tokenOf KindI64)\<lparr>Signed := w\<rparr>"
| "lexemeToken (LxBool b) = (tokenOf KindBool)\<lparr>Bool := b\<rparr>"
| "lexemeToken (LxQuoted text) = (tokenOf KindQuoted)\<lparr>Text := text\<rparr>"
| "lexemeToken (LxUnquoted text) = (tokenOf KindUnquoted)\<lparr>Text := text\<rparr>"
| "lexemeToken (LxF32 raw) = (tokenOf KindF32)\<lparr>Bits := raw @ replicate 4 (CHR 0x00)\<rparr>"
| "lexemeToken (LxF64 raw) = (tokenOf KindF64)\<lparr>Bits := raw\<rparr>"
| "lexemeToken (LxRGB r g b alpha) =
     (case alpha of
        None \<Rightarrow> (tokenOf KindRGB)\<lparr>RGB := [r, g, b, 0]\<rparr>
      | Some a \<Rightarrow> (tokenOf KindRGB)\<lparr>RGB := [r, g, b, a], RGBHasAlpha := True\<rparr>)"
| "lexemeToken (LxLookup8 w) = (tokenOf KindLookup)\<lparr>Lookup := ucast w\<rparr>"
| "lexemeToken (LxLookup16 w) = (tokenOf KindLookup)\<lparr>Lookup := ucast w\<rparr>"
| "lexemeToken (LxLookup24 raw) = (tokenOf KindLookup)\<lparr>Lookup := leWord (raw @ [CHR 0x00])\<rparr>"
| "lexemeToken (LxLookup32 w) = (tokenOf KindLookup)\<lparr>Lookup := w\<rparr>"

text \<open>The identifiers left for field names.\<close>

definition reservedIDs :: "16 word list" where
  "reservedIDs = [lexEqual, lexOpen, lexClose, lexI32, lexF32, lexBool, lexQuoted, lexU32, lexUnquoted,
     lexF64, lexRGB, lexU64, lexI64, lexLookupU16, lexLookupU32, lexLookupU8, lexLookupU24]"

fun lexemeOk :: "Limits \<Rightarrow> lexeme \<Rightarrow> bool" where
  "lexemeOk limits (LxID i) =
     (i \<notin> set reservedIDs \<and> \<not> (lexCompactFirst \<le> i \<and> i \<le> lexCompactLast))"
| "lexemeOk limits (LxQuoted text) = (int (length text) < 65536 \<and> int (length text) \<le> MaxStringBytes limits)"
| "lexemeOk limits (LxUnquoted text) = (int (length text) < 65536 \<and> int (length text) \<le> MaxStringBytes limits)"
| "lexemeOk limits (LxF32 raw) = (length raw = 4)"
| "lexemeOk limits (LxF64 raw) = (length raw = 8)"
| "lexemeOk limits (LxLookup24 raw) = (length raw = 3)"
| "lexemeOk limits _ = True"

lemma le16_nonempty [simp]: "le16 w \<noteq> []"
proof -
  have "length (le16 w) = 2" by (simp add: le16_def)
  then show ?thesis by auto
qed

lemma pureTake_append: "length bs = n \<Longrightarrow> pureTake n (bs @ r) = Some (Inr bs, r)"
  by (simp add: pureTake_def)

lemma readU16_le16: "readU16 pureTake (le16 w @ r) = Some (Inr w, r)"
  by (simp add: readU16_def bindM_apply le16_def pureTake_append leWord_leBytes)

lemma take_le32: "pureTake 4 (le32 w @ r) = Some (Inr (le32 w), r)"
  by (simp add: le32_def pureTake_append)

lemma take_le64: "pureTake 8 (le64 w @ r) = Some (Inr (le64 w), r)"
  by (simp add: le64_def pureTake_append)

lemma leWord_le: "leWord (le32 w) = w" "leWord (le64 v) = v"
  by (simp_all add: le32_def le64_def leWord_leBytes)

lemma readString_lenPrefixed:
  assumes "int (length text) < 65536" and "int (length text) \<le> MaxStringBytes limits"
  shows "readString pureTake limits (lenPrefixed text @ r) = Some (Inr text, r)"
proof -
  have "unat (word_of_nat (length text) :: 16 word) = length text"
    using assms(1) by (simp add: unat_of_nat)
  then show ?thesis
    using assms(2)
    by (simp add: readString_def lenPrefixed_def readU16_le16 bindM_apply pureTake_append
        del: of_nat_unat)
qed

lemma readRGBChannel_le: "readRGBChannel pureTake (le16 lexU32 @ le32 w @ r) = Some (Inr w, r)"
  by (simp add: readRGBChannel_def readU16_le16 take_le32 leWord_le bindM_apply)

text \<open>The lexeme ids are told apart once, by evaluation.\<close>

lemma lex_distinct:
  "lexU32 \<noteq> lexClose" "lexClose \<noteq> lexU32" "lexClose \<noteq> lexOpen"
  by (simp_all add: lex_defs)

lemma payload_not_bracket:
  "i \<in> {lexEqual, lexI32, lexF32, lexBool, lexQuoted, lexU32, lexUnquoted, lexF64, lexRGB, lexU64, lexI64,
     lexLookupU16, lexLookupU32, lexLookupU8, lexLookupU24} \<Longrightarrow> i \<noteq> lexOpen \<and> i \<noteq> lexClose"
  by (auto simp: lex_defs)

lemma decodeRGB_le:
  "decodeRGB pureTake (le16 lexOpen @ le16 lexU32 @ le32 x @ le16 lexU32 @ le32 y @ le16 lexU32 @ le32 z
     @ (case alpha of None \<Rightarrow> [] | Some a \<Rightarrow> le16 lexU32 @ le32 a) @ le16 lexClose @ r)
   = Some (Inr (lexemeToken (LxRGB x y z alpha)), r)"
  by (cases alpha)
     (simp_all add: decodeRGB_def bindM_apply readU16_le16 readRGBChannel_le take_le32 leWord_le
       lex_distinct)

lemma decodePayload_lex:
  "decodePayload tk limits lexEqual = Some (returnM (tokenOf KindEqual))"
  "decodePayload tk limits lexU32 =
     Some (bindM (tk 4) (\<lambda>raw. returnM ((tokenOf KindU32)\<lparr>Unsigned := ucast (leWord raw :: 32 word)\<rparr>)))"
  "decodePayload tk limits lexU64 =
     Some (bindM (tk 8) (\<lambda>raw. returnM ((tokenOf KindU64)\<lparr>Unsigned := leWord raw\<rparr>)))"
  "decodePayload tk limits lexI32 =
     Some (bindM (tk 4) (\<lambda>raw. returnM ((tokenOf KindI32)\<lparr>Signed := scast (leWord raw :: 32 word)\<rparr>)))"
  "decodePayload tk limits lexI64 =
     Some (bindM (tk 8) (\<lambda>raw. returnM ((tokenOf KindI64)\<lparr>Signed := leWord raw\<rparr>)))"
  "decodePayload tk limits lexBool =
     Some (bindM (tk 1) (\<lambda>raw. returnM ((tokenOf KindBool)\<lparr>Bool := (byteOf (hd raw) \<noteq> 0)\<rparr>)))"
  "decodePayload tk limits lexQuoted =
     Some (bindM (readString tk limits) (\<lambda>text. returnM ((tokenOf KindQuoted)\<lparr>Text := text\<rparr>)))"
  "decodePayload tk limits lexUnquoted =
     Some (bindM (readString tk limits) (\<lambda>text. returnM ((tokenOf KindUnquoted)\<lparr>Text := text\<rparr>)))"
  "decodePayload tk limits lexF32 =
     Some (bindM (tk 4) (\<lambda>raw. returnM ((tokenOf KindF32)\<lparr>Bits := raw @ replicate 4 (CHR 0x00)\<rparr>)))"
  "decodePayload tk limits lexF64 =
     Some (bindM (tk 8) (\<lambda>raw. returnM ((tokenOf KindF64)\<lparr>Bits := raw\<rparr>)))"
  "decodePayload tk limits lexRGB = Some (decodeRGB tk)"
  "decodePayload tk limits lexLookupU8 =
     Some (bindM (tk 1) (\<lambda>raw. returnM ((tokenOf KindLookup)\<lparr>Lookup := word_of_nat (byteOf (hd raw))\<rparr>)))"
  "decodePayload tk limits lexLookupU16 =
     Some (bindM (readU16 tk) (\<lambda>v. returnM ((tokenOf KindLookup)\<lparr>Lookup := ucast v\<rparr>)))"
  "decodePayload tk limits lexLookupU24 =
     Some (bindM (tk 3) (\<lambda>raw. returnM ((tokenOf KindLookup)\<lparr>Lookup := leWord (raw @ [CHR 0x00])\<rparr>)))"
  "decodePayload tk limits lexLookupU32 =
     Some (bindM (tk 4) (\<lambda>raw. returnM ((tokenOf KindLookup)\<lparr>Lookup := leWord raw\<rparr>)))"
  by (simp_all add: decodePayload_def lex_defs)

lemma decodePayload_plain:
  assumes "i \<notin> set reservedIDs" shows "decodePayload tk limits i = None"
  using assms by (simp add: decodePayload_def reservedIDs_def)

lemma lookup8_le: "word_of_nat (byteOf (hd (leBytes 1 (unat w)))) = (ucast (w :: 8 word) :: 32 word)"
proof -
  have "unat w < 256" using unsigned_less [of w, where 'a = nat] by simp
  then show ?thesis by simp
qed

lemma take_one: "pureTake (Suc 0) (b # r) = Some (Inr [b], r)"
  by (simp add: pureTake_def)

definition afterLexeme :: "lexeme \<Rightarrow> Counters \<Rightarrow> Counters" where
  "afterLexeme l c =
     \<lparr>ctTokens = ctTokens c + 1, ctDepth = ctDepth c + depthChange (lexemeToken l)\<rparr>"

definition fits :: "Limits \<Rightarrow> Counters \<Rightarrow> lexeme \<Rightarrow> bool" where
  "fits limits c l \<longleftrightarrow> lexemeOk limits l \<and> ctTokens c < MaxTokens limits
     \<and> (l = LxOpen \<longrightarrow> ctDepth c < MaxDepth limits) \<and> (l = LxClose \<longrightarrow> ctDepth c \<noteq> 0)"

lemma decode_lexeme:
  assumes "fits limits c l"
  shows "decodeToken pureTake limits (encodeLexeme l @ r, c) = Some (Inr (lexemeToken l), (r, afterLexeme l c))"
proof -
  obtain tokens depth where c: "c = \<lparr>ctTokens = tokens, ctDepth = depth\<rparr>" by (cases c)
  have start: "decodeToken pureTake limits (le16 i @ bs, \<lparr>ctTokens = tokens, ctDepth = depth\<rparr>) =
      (if i = lexOpen then openContainer limits
       else if i = lexClose then closeContainer (\<lambda>s. s)
       else case decodePayload pureTake limits i of
         Some m \<Rightarrow> onSource m
       | None \<Rightarrow>
           if lexCompactFirst \<le> i \<and> i \<le> lexCompactLast
           then failM (newError ErrMalformedToken
             ''the save uses a compact token encoding that CK3 does not emit; refusing to guess its meaning'')
           else returnM ((tokenOf KindID)\<lparr>ID := i\<rparr>)) (bs, \<lparr>ctTokens = tokens + 1, ctDepth = depth\<rparr>)"
    for i bs
    using assms c
    by (simp add: decodeToken_def bindM_apply countToken_def Let_def onSource_def readU16_le16 fits_def)
  note facts = c start payload_not_bracket decodePayload_lex onSource_def bindM_apply pureTake_append
    afterLexeme_def depthChange_def take_le32 take_le64 leWord_le readU16_le16 lex_distinct
  show ?thesis
  proof (cases l)
    case (LxID i)
    then show ?thesis
      using assms by (auto simp: facts decodePayload_plain fits_def reservedIDs_def)
  next
    case (LxRGB x y z alpha)
    then show ?thesis
      using decodeRGB_le [of x y z alpha r] by (cases alpha) (simp_all add: facts)
  next
    case (LxLookup8 w)
    then show ?thesis
      using lookup8_le [of w] by (simp add: facts take_one)
  next
    case (LxQuoted str)
    then show ?thesis
      using assms by (simp add: facts readString_lenPrefixed fits_def)
  next
    case (LxUnquoted str)
    then show ?thesis
      using assms by (simp add: facts readString_lenPrefixed fits_def)
  next
    case (LxBool b)
    then show ?thesis
      by (simp add: facts take_one byteOf_def)
  qed (use assms in \<open>simp_all add: facts fits_def openContainer_def closeContainer_def Let_def\<close>)
qed

section \<open>Sequences of lexemes\<close>

definition encodeAll :: "lexeme list \<Rightarrow> bytes" where
  "encodeAll ls = concat (map encodeLexeme ls)"

lemma encodeAll_simps [simp]:
  "encodeAll [] = []" "encodeAll (l # ls) = encodeLexeme l @ encodeAll ls"
  "encodeAll (ls @ ms) = encodeAll ls @ encodeAll ms"
  by (simp_all add: encodeAll_def)

fun fitsFrom :: "Limits \<Rightarrow> Counters \<Rightarrow> lexeme list \<Rightarrow> bool" where
  "fitsFrom limits c [] = True"
| "fitsFrom limits c (l # ls) = (fits limits c l \<and> fitsFrom limits (afterLexeme l c) ls)"

lemma encodeLexeme_nonempty: "encodeLexeme l \<noteq> []"
  by (cases l) simp_all

lemma stream_next_lexeme:
  assumes "stream_ok EncodingBinary limits d" and "stream_rest d = encodeLexeme l @ r"
    and "fits limits (stream_counters d) l"
  obtains d' where "StreamDecoder_Next d = Some (Inr (lexemeToken l), d')"
    and "stream_ok EncodingBinary limits d'" and "stream_rest d' = r"
    and "stream_counters d' = afterLexeme l (stream_counters d)" and "sd_names d' = sd_names d"
proof -
  from stream_Next [OF assms(1)] obtain res d' where n: "StreamDecoder_Next d = Some (res, d')"
    and ok: "stream_ok EncodingBinary limits d'" and names: "sd_names d' = sd_names d"
    and spec: "specNext EncodingBinary limits (stream_abs d) = Some (res, stream_abs d')" .
  have "specNext EncodingBinary limits (stream_abs d)
      = Some (Inr (lexemeToken l), (r, afterLexeme l (stream_counters d)))"
    using assms(2) encodeLexeme_nonempty [of l] decode_lexeme [OF assms(3), of r]
    by (simp add: specNext_def specDone_def stream_abs_def bindM_apply)
  then show ?thesis
    using that [of d'] n ok spec names by (simp add: stream_abs_def)
qed

lemma stream_next_lexemes:
  assumes "stream_ok EncodingBinary limits d" and "stream_rest d = encodeAll ls @ r"
    and "fitsFrom limits (stream_counters d) ls"
  shows "nextResults StreamDecoder_Next (length ls) d = Some (map (\<lambda>l. Inr (lexemeToken l)) ls)"
  using assms
proof (induction ls arbitrary: d)
  case Nil
  then show ?case by simp
next
  case (Cons l ls)
  from Cons.prems obtain d' where "StreamDecoder_Next d = Some (Inr (lexemeToken l), d')"
    and "stream_ok EncodingBinary limits d'" and "stream_rest d' = encodeAll ls @ r"
    and "stream_counters d' = afterLexeme l (stream_counters d)"
    using stream_next_lexeme [of limits d l "encodeAll ls @ r"] by auto
  then show ?case using Cons by simp
qed

text \<open>C4. The binary grammar reads back what is encoded: over any reader whose bytes are the
  encoding of a sequence of lexemes within the limits, in any pieces, successive calls of \<^verbatim>\<open>Next\<close> return the tokens
  of those lexemes.\<close>

theorem binary_roundtrip:
  assumes "healthy src" and "readerBytes src = encodeAll ls @ r"
    and "fitsFrom limits \<lparr>ctTokens = 0, ctDepth = 0\<rparr> ls"
  shows "nextResults StreamDecoder_Next (length ls) (NewStreamDecoder src limits)
    = Some (map (\<lambda>l. Inr (lexemeToken l)) ls)"
  unfolding NewStreamDecoder_def
  using stream_next_lexemes [OF stream_ok_new [OF assms(1), of EncodingBinary limits], of ls r] assms(2,3)
  by (simp add: stream_rest_def stream_counters_def NewStreamDecoderFor_def)

definition sampleLexemes :: "lexeme list" where
  "sampleLexemes =
     [LxID 0x2f00, LxEqual, LxOpen, LxQuoted ''ab'', LxI32 (- 5), LxRGB 1 2 3 (Some 4), LxClose]"

theorem binary_roundtrip_witness:
  "nextResults StreamDecoder_Next 7
     (NewStreamDecoder [RData (take 5 (encodeAll sampleLexemes)), RDataEOF (drop 5 (encodeAll sampleLexemes))]
       DefaultLimits)
   = Some (map (\<lambda>l. Inr (lexemeToken l)) sampleLexemes)"
proof -
  have "take 5 (encodeAll sampleLexemes) \<noteq> []"
    by (simp add: sampleLexemes_def)
  moreover have "fitsFrom DefaultLimits \<lparr>ctTokens = 0, ctDepth = 0\<rparr> sampleLexemes"
    by code_simp
  moreover have "length sampleLexemes = 7"
    by (simp add: sampleLexemes_def)
  ultimately show ?thesis
    using binary_roundtrip [of "[RData (take 5 (encodeAll sampleLexemes)), RDataEOF (drop 5 (encodeAll sampleLexemes))]"
        sampleLexemes "[]" DefaultLimits]
    by simp
qed

section \<open>Skipping a container\<close>

text \<open>Lexemes that open and close the same containers, from \<open>n\<close> open ones.\<close>

fun balancedFrom :: "nat \<Rightarrow> lexeme list \<Rightarrow> bool" where
  "balancedFrom n [] = (n = 0)"
| "balancedFrom n (l # ls) =
     (if l = LxOpen then balancedFrom (Suc n) ls
      else if l = LxClose then 0 < n \<and> balancedFrom (n - 1) ls
      else balancedFrom n ls)"

lemma depthChange_lexeme:
  "depthChange (lexemeToken l) = (if l = LxOpen then 1 else if l = LxClose then - 1 else 0)"
  by (cases l) (auto simp: depthChange_def split: option.split)

lemma skip_balanced:
  assumes "stream_ok EncodingBinary limits d" and "stream_rest d = encodeAll ls @ encodeLexeme LxClose @ r"
    and "fitsFrom limits (stream_counters d) (ls @ [LxClose])"
    and "balancedFrom n ls" and "sd_depth d = target + 1 + int n"
  shows "\<exists>d'. StreamDecoder_SkipToDepth target d = Some (Inr (), d') \<and> stream_rest d' = r
    \<and> stream_ok EncodingBinary limits d' \<and> sd_depth d' = target
    \<and> stream_counters d' = fold afterLexeme (ls @ [LxClose]) (stream_counters d)"
  using assms
proof (induction ls arbitrary: d n)
  case Nil
  from Nil.prems obtain d' where "StreamDecoder_Next d = Some (Inr (lexemeToken LxClose), d')"
    and ok: "stream_ok EncodingBinary limits d'" and "stream_rest d' = r"
    and "stream_counters d' = afterLexeme LxClose (stream_counters d)"
    using stream_next_lexeme [of limits d LxClose r] by auto
  moreover from this have "sd_depth d' = target"
    using Nil.prems by (simp add: stream_counters_def afterLexeme_def depthChange_def)
  ultimately show ?case
    using Nil.prems
    by (subst StreamDecoder_SkipToDepth.simps) (simp, subst StreamDecoder_SkipToDepth.simps, simp)
next
  case (Cons l ls)
  from Cons.prems obtain d' where n: "StreamDecoder_Next d = Some (Inr (lexemeToken l), d')"
    and ok: "stream_ok EncodingBinary limits d'"
    and rest: "stream_rest d' = encodeAll ls @ encodeLexeme LxClose @ r"
    and ct: "stream_counters d' = afterLexeme l (stream_counters d)"
    using stream_next_lexeme [of limits d l "encodeAll ls @ encodeLexeme LxClose @ r"] by auto
  have depth: "sd_depth d' = sd_depth d + depthChange (lexemeToken l)"
    using ct by (simp add: stream_counters_def afterLexeme_def)
  have fit: "fitsFrom limits (stream_counters d') (ls @ [LxClose])" using Cons.prems(3) ct by simp
  have "\<exists>m. balancedFrom m ls \<and> sd_depth d' = target + 1 + int m"
    using Cons.prems(4,5) depth by (auto simp: depthChange_lexeme split: if_splits)
  with Cons.IH [OF ok rest fit] obtain d2 where "StreamDecoder_SkipToDepth target d' = Some (Inr (), d2)"
    and "stream_rest d2 = r" "stream_ok EncodingBinary limits d2" "sd_depth d2 = target"
    and "stream_counters d2 = fold afterLexeme (ls @ [LxClose]) (stream_counters d')" by blast
  then show ?case
    using n ct Cons.prems(5) by (subst StreamDecoder_SkipToDepth.simps) simp
qed

text \<open>C5. \<^verbatim>\<open>SkipValue\<close> after an open bracket consumes exactly the container it opened: whatever balanced
  content it holds, what is left is what follows the matching close, and the nesting is one less.\<close>

theorem skip_lands_behind_close:
  assumes "stream_ok EncodingBinary limits d"
    and "stream_rest d = encodeAll body @ encodeLexeme LxClose @ r" and "balancedFrom 0 body"
    and "fitsFrom limits (stream_counters d) (body @ [LxClose])"
  shows "\<exists>d'. StreamDecoder_SkipValue (tokenOf KindOpen) d = Some (Inr (), d') \<and> stream_rest d' = r
    \<and> sd_depth d' = sd_depth d - 1"
  using skip_balanced [OF assms(1,2,4,3), of "sd_depth d - 1"]
  by (auto simp: StreamDecoder_SkipValue_def)

theorem skip_lands_behind_close_witness:
  "\<exists>d'. StreamDecoder_SkipValue (tokenOf KindOpen)
      ((NewStreamDecoder [RDataEOF (encodeAll [LxOpen, LxU32 7, LxClose] @ encodeLexeme LxClose
          @ encodeLexeme (LxBool True))] DefaultLimits)\<lparr>sd_depth := 1\<rparr>) = Some (Inr (), d')
    \<and> stream_rest d' = encodeLexeme (LxBool True) \<and> sd_depth d' = 0"
proof -
  let ?d = "(NewStreamDecoder [RDataEOF (encodeAll [LxOpen, LxU32 7, LxClose] @ encodeLexeme LxClose
          @ encodeLexeme (LxBool True))] DefaultLimits)\<lparr>sd_depth := 1\<rparr>"
  have "stream_ok EncodingBinary DefaultLimits ?d"
    by (simp add: stream_ok_def NewStreamDecoder_def NewStreamDecoderFor_def sd_end_def streamBufferBytes_def)
  moreover have "fitsFrom DefaultLimits (stream_counters ?d) ([LxOpen, LxU32 7, LxClose] @ [LxClose])"
    by (simp add: stream_counters_def NewStreamDecoder_def NewStreamDecoderFor_def fits_def afterLexeme_def
        depthChange_def DefaultLimits_def)
  ultimately show ?thesis
    using skip_lands_behind_close [of DefaultLimits ?d "[LxOpen, LxU32 7, LxClose]" "encodeLexeme (LxBool True)"]
    by (simp add: stream_rest_def NewStreamDecoder_def NewStreamDecoderFor_def)
qed

end
