(* ===== verification/TextFacts.thy ===== *)
theory TextFacts
  imports DecoderTheorems
begin

text \<open>
  What the text grammar of \<^verbatim>\<open>text.go\<close> makes of scalars: a quoted scalar reads back what was quoted,
  an integer what was printed, a date or a version is never taken for a number, and \<^verbatim>\<open>textDate\<close>
  accepts exactly the dates of the calendar it documents.
\<close>

section \<open>One token from the front of a text section\<close>

definition textBudget :: "StreamDecoder \<Rightarrow> Limits \<Rightarrow> bool" where
  "textBudget d limits \<longleftrightarrow> sd_tokens d < MaxTokens limits"

lemma specFiller_here: "bs \<noteq> [] \<Longrightarrow> \<not> isTextSpace (hd bs) \<Longrightarrow> hd bs \<noteq> CHR ''#'' \<Longrightarrow> specFiller bs = bs"
  by (subst specFiller.simps) (cases bs; simp)

lemma stream_next_text:
  assumes "stream_ok EncodingText limits d" and "stream_rest d = bs" and "bs \<noteq> []"
    and "\<not> isTextSpace (hd bs)" and "hd bs \<noteq> CHR ''#''"
    and "specTextToken limits (bs, stream_counters d) = Some (r, (bs', c))"
  obtains d' where "StreamDecoder_Next d = Some (r, d')" and "stream_rest d' = bs'"
    and "stream_ok EncodingText limits d'"
proof -
  from stream_Next [OF assms(1)] obtain res d' where n: "StreamDecoder_Next d = Some (res, d')"
    and ok: "stream_ok EncodingText limits d'"
    and spec: "specNext EncodingText limits (stream_abs d) = Some (res, stream_abs d')" .
  have "specNext EncodingText limits (stream_abs d) = Some (r, (bs', c))"
    using assms specFiller_here [OF assms(3,4,5)]
    by (simp add: specNext_def specDone_def stream_abs_def bindM_apply)
  then show ?thesis using that [of d'] n ok spec by (simp add: stream_abs_def)
qed

section \<open>Quoted scalars\<close>

text \<open>How the game writes a quoted scalar: a backslash before every quote and backslash.\<close>

fun escapeText :: "bytes \<Rightarrow> bytes" where
  "escapeText [] = []"
| "escapeText (c # cs) =
     (if c = CHR 0x22 \<or> c = CHR 0x5C then CHR 0x5C # c # escapeText cs else c # escapeText cs)"

definition quoteText :: "bytes \<Rightarrow> bytes" where
  "quoteText s = CHR 0x22 # escapeText s @ [CHR 0x22]"

lemma scan_escaped:
  "scanQuotedFrom i e (escapeText s @ CHR 0x22 # r)
     = (Some (i + length (escapeText s) + 1), e \<or> (\<exists>c \<in> set s. c = CHR 0x22 \<or> c = CHR 0x5C))"
  by (induction s arbitrary: i e) auto

lemma unescape_escape: "unescapeTextScalar (escapeText s) = s"
  by (induction s) auto

lemma escape_plain: "\<not> (\<exists>c \<in> set s. c = CHR 0x22 \<or> c = CHR 0x5C) \<Longrightarrow> escapeText s = s"
  by (induction s) auto

lemma specQuoted_quote:
  assumes "int (length (quoteText s)) - 1 \<le> MaxStringBytes limits"
  shows "specQuoted limits (quoteText s @ r) = (Inr ((tokenOf KindQuoted)\<lparr>Text := s\<rparr>), r)"
  using assms
  by (auto simp: specQuoted_def quoteText_def scanQuotedBody_def scan_escaped Let_def unescape_escape escape_plain)

text \<open>C6. A quoted scalar reads back the text that was quoted, escapes included, and leaves what
  follows the closing quote, as long as it is within the string limit, however the reader cuts it.\<close>

theorem quoted_roundtrip:
  assumes "stream_ok EncodingText limits d" and "stream_rest d = quoteText s @ r"
    and "sd_tokens d < MaxTokens limits" and "int (length (quoteText s)) - 1 \<le> MaxStringBytes limits"
  shows "\<exists>d'. StreamDecoder_Next d = Some (Inr ((tokenOf KindQuoted)\<lparr>Text := s\<rparr>), d') \<and> stream_rest d' = r"
proof -
  have "hd (quoteText s @ r) = CHR 0x22" and "quoteText s @ r \<noteq> []" by (simp_all add: quoteText_def)
  moreover from this have "specTextToken limits (quoteText s @ r, stream_counters d)
      = Some (Inr ((tokenOf KindQuoted)\<lparr>Text := s\<rparr>),
          (r, (stream_counters d)\<lparr>ctTokens := ctTokens (stream_counters d) + 1\<rparr>))"
    using assms(3) specQuoted_quote [OF assms(4), of r]
    by (simp add: specTextToken_def bindM_apply countToken_def Let_def stream_counters_def
        specFiller_here isTextSpace_def onSource_def lift_spec_def)
  moreover have "\<not> isTextSpace (hd (quoteText s @ r)) \<and> hd (quoteText s @ r) \<noteq> CHR ''#''"
    by (simp add: quoteText_def isTextSpace_def)
  ultimately obtain d' where "StreamDecoder_Next d = Some (Inr ((tokenOf KindQuoted)\<lparr>Text := s\<rparr>), d')"
    and "stream_rest d' = r"
    using stream_next_text [OF assms(1,2)] by blast
  then show ?thesis by blast
qed

theorem quoted_roundtrip_witness:
  "\<exists>d'. StreamDecoder_Next (NewStreamDecoderFor EncodingText
        [RData ''ab'', RDataEOF '' c''] DefaultLimits
        \<lparr>sd_win := quoteText [CHR ''x'', CHR 0x22, CHR 0x5C]\<rparr>)
      = Some (Inr ((tokenOf KindQuoted)\<lparr>Text := [CHR ''x'', CHR 0x22, CHR 0x5C]\<rparr>), d')
    \<and> stream_rest d' = ''ab c''"
  using quoted_roundtrip [of DefaultLimits "NewStreamDecoderFor EncodingText
        [RData ''ab'', RDataEOF '' c''] DefaultLimits\<lparr>sd_win := quoteText [CHR ''x'', CHR 0x22, CHR 0x5C]\<rparr>"
      "[CHR ''x'', CHR 0x22, CHR 0x5C]" "''ab c''"]
  by (simp add: stream_ok_def NewStreamDecoderFor_def sd_end_def streamBufferBytes_def stream_rest_def
      quoteText_def DefaultLimits_def)

section \<open>Unquoted scalars\<close>

lemma digitValue_dot: "digitValue (CHR ''.'') = None"
  by (simp add: digitValue_def byteOf_def)

lemma parseDigits_no_dot: "parseDigits 10 acc s = Some n \<Longrightarrow> CHR ''.'' \<notin> set s"
  by (induction s arbitrary: acc)
     (auto simp: digitValue_dot split: option.splits if_splits)

lemma parseInt_no_dot: "parseInt s = Some n \<Longrightarrow> CHR ''.'' \<notin> set s"
  by (auto simp: parseInt_def parseUint_def Let_def digitValue_dot split: list.splits option.splits if_splits
      dest!: parseDigits_no_dot)

lemma decimalScan_dots: "decimalScan digits dots s \<Longrightarrow> dots + count_list s (CHR ''.'') = 1"
  by (induction digits dots s rule: decimalScan.induct) (auto simp: isDigit_def byteOf_def split: if_splits)

lemma isTextDecimal_dots: "isTextDecimal s \<Longrightarrow> count_list s (CHR ''.'') = 1"
  using decimalScan_dots [of 0 0 "dropSign s"]
  by (auto simp: isTextDecimal_def dropSign_def split: list.splits if_splits)

text \<open>A scalar with two or more dots, a date or a version, is never a number: it is an unquoted
  scalar with its text unchanged.\<close>

theorem dotted_stays_text:
  assumes "2 \<le> count_list raw (CHR ''.'')"
  shows "classifyTextScalar raw = (tokenOf KindUnquoted)\<lparr>Text := raw\<rparr>"
proof -
  have "CHR ''.'' \<in> set raw" 
    using assms count_list_0_iff [of raw "CHR ''.''"] by fastforce
  then have "parseInt raw = None" using parseInt_no_dot [of raw] by (cases "parseInt raw") auto
  moreover have "\<not> isTextDecimal raw" using isTextDecimal_dots [of raw] assms by auto
  moreover have "raw \<noteq> ''yes'' \<and> raw \<noteq> ''no''" using assms by auto
  ultimately show ?thesis by (simp add: classifyTextScalar_def)
qed

theorem dotted_stays_text_witness:
  "classifyTextScalar ''1066.9.15'' = (tokenOf KindUnquoted)\<lparr>Text := ''1066.9.15''\<rparr>"
  by (rule dotted_stays_text) simp

lemma formatInt_chars: "c \<in> set (formatInt n) \<Longrightarrow> \<not> isTextDelimiter c"
  using formatNat_digits [of c]
  by (auto simp: formatInt_def isTextDelimiter_def isTextSpace_def isDigit_def byteOf_def split: if_splits)

lemma parseInt_words: "parseInt ''yes'' = None" "parseInt ''no'' = None"
  by (simp_all add: parseInt_def parseUint_def digitValue_def byteOf_def)

lemma classify_formatInt:
  assumes "- (2 ^ 63) \<le> n" and "n < 2 ^ 63"
  shows "classifyTextScalar (formatInt n) = (tokenOf KindI64)\<lparr>Signed := word_of_int n, Text := formatInt n\<rparr>"
proof -
  have "formatInt n \<noteq> ''yes'' \<and> formatInt n \<noteq> ''no''"
    using parseInt_formatInt [OF assms] parseInt_words by fastforce
  then show ?thesis using parseInt_formatInt [OF assms] by (simp add: classifyTextScalar_def)
qed

lemma formatInt_front: "\<exists>c cs. formatInt n = c # cs"
  using formatNat_nonempty by (cases "formatInt n") (auto simp: formatInt_def split: if_splits)

text \<open>Every 64-bit integer a text save writes reads back as that integer, with its spelling kept,
  up to the delimiter behind it, however the reader cuts it.\<close>

theorem integer_roundtrip:
  assumes "stream_ok EncodingText limits d" and "stream_rest d = formatInt n @ r"
    and "r = [] \<or> isTextDelimiter (hd r)" and "- (2 ^ 63) \<le> n" and "n < 2 ^ 63"
    and "sd_tokens d < MaxTokens limits" and "int (length (formatInt n)) \<le> MaxStringBytes limits"
  shows "\<exists>t d'. StreamDecoder_Next d = Some (Inr t, d') \<and> stream_rest d' = r \<and> Kind t = KindI64
    \<and> sint (Signed t) = n \<and> Text t = formatInt n"
proof -
  let ?t = "(tokenOf KindI64)\<lparr>Signed := word_of_int n, Text := formatInt n\<rparr>"
  let ?bs = "formatInt n @ r"
  obtain c cs where c: "formatInt n = c # cs" using formatInt_front by blast
  then have plain: "\<not> isTextDelimiter c" using formatInt_chars [of c n] by simp
  have "takeWhile (\<lambda>b. \<not> isTextDelimiter b) ?bs = formatInt n"
    using formatInt_chars [of _ n] assms(3) by (cases r) (auto simp: takeWhile_append takeWhile_eq_all_conv)
  then have "spanLen (\<lambda>b. \<not> isTextDelimiter b) ?bs = length (formatInt n)" by (simp add: spanLen_def)
  then have "specUnquoted limits ?bs = (Inr ?t, r)"
    using assms(7) classify_formatInt [OF assms(4,5)] c by (simp add: specUnquoted_def Let_def)
  moreover have "\<not> isTextSpace (hd ?bs) \<and> hd ?bs \<notin> {CHR ''#'', CHR ''{'', CHR ''}'', CHR ''='', CHR 0x22}"
    using plain c by (auto simp: isTextDelimiter_def)
  ultimately have "specTextToken limits (?bs, stream_counters d)
      = Some (Inr ?t, (r, (stream_counters d)\<lparr>ctTokens := ctTokens (stream_counters d) + 1\<rparr>))"
    and "\<not> isTextSpace (hd ?bs)" "hd ?bs \<noteq> CHR ''#''" "?bs \<noteq> []"
    using assms(6) c
    by (auto simp: specTextToken_def bindM_apply countToken_def Let_def stream_counters_def
        specFiller_here onSource_def lift_spec_def)
  from stream_next_text [OF assms(1,2) this(4,2,3,1)] obtain d' where
    "StreamDecoder_Next d = Some (Inr ?t, d')" and "stream_rest d' = r" by blast
  moreover have "sint (word_of_int n :: 64 word) = n"
    using assms(4,5) by (simp add: int_word_sint)
  ultimately show ?thesis by auto
qed

theorem integer_roundtrip_witness:
  "\<exists>t d'. StreamDecoder_Next (NewStreamDecoderFor EncodingText [RData ''-4'', RDataEOF ''2 x''] DefaultLimits) = Some (Inr t, d')
    \<and> stream_rest d' = '' x'' \<and> Kind t = KindI64 \<and> sint (Signed t) = - 42 \<and> Text t = formatInt (- 42)"
proof -
  have f: "formatInt (- 42) = ''-42''"
    by code_simp
  show ?thesis
    using integer_roundtrip [of DefaultLimits
        "NewStreamDecoderFor EncodingText [RData ''-4'', RDataEOF ''2 x''] DefaultLimits" "- 42" "'' x''"]
    by (simp add: f stream_ok_new stream_rest_def NewStreamDecoderFor_def DefaultLimits_def
        isTextDelimiter_def isTextSpace_def stream_ok_def sd_end_def streamBufferBytes_def)
qed

section \<open>Dates\<close>

definition datePart :: "bytes \<Rightarrow> bool" where
  "datePart p \<longleftrightarrow> p \<noteq> [] \<and> (\<forall>c \<in> set p. isDigit c) \<and> digitsValue p \<le> 2 ^ 20"

text \<open>The calendar the comment of \<^verbatim>\<open>textDate\<close> describes: year, month, day and optionally an hour.\<close>

definition calendarDate :: "nat list \<Rightarrow> bool" where
  "calendarDate vs \<longleftrightarrow> (length vs = 3 \<or> length vs = 4)
     \<and> 1 \<le> vs ! 1 \<and> vs ! 1 \<le> 12 \<and> 1 \<le> vs ! 2 \<and> vs ! 2 \<le> 31
     \<and> (length vs = 4 \<longrightarrow> vs ! 3 \<le> 23)"

definition isSaveDate :: "bytes \<Rightarrow> bool" where
  "isSaveDate raw \<longleftrightarrow>
     (let parts = splitOn (CHR ''.'') raw in
      (\<forall>p \<in> set parts. datePart p) \<and> calendarDate (map digitsValue parts))"

definition valueFrom :: "nat \<Rightarrow> bytes \<Rightarrow> nat" where
  "valueFrom v p = fold (\<lambda>c acc. acc * 10 + (byteOf c - 48)) p v"

lemma valueFrom_simps [simp]:
  "valueFrom v [] = v" "valueFrom v (c # cs) = valueFrom (v * 10 + (byteOf c - 48)) cs"
  by (simp_all add: valueFrom_def)

lemma valueFrom_ge: "v \<le> valueFrom v p"
proof (induction p arbitrary: v)
  case (Cons c cs)
  have "v \<le> v * 10 + (byteOf c - 48)" by simp
  also have "\<dots> \<le> valueFrom (v * 10 + (byteOf c - 48)) cs" by (rule Cons)
  finally show ?case by simp
qed simp

lemma digitsValue_from: "digitsValue = valueFrom 0"
  by (rule ext) (simp add: digitsValue_def valueFrom_def)

lemma dateScan_overflow: "length comps = 4 \<Longrightarrow> textDateScan comps 4 digits s \<noteq> Some True"
  by (cases s) auto

text \<open>The scan from component \<open>count\<close> on, against the fields still to come.\<close>

lemma dateScan_fields:
  assumes "length comps = 4" and "count < 4" and "comps ! count \<le> 2 ^ 20"
    and "\<And>i. count < i \<Longrightarrow> i < 4 \<Longrightarrow> comps ! i = 0" and "splitOn (CHR ''.'') s = p # ps"
  shows "textDateScan comps count digits s = Some True \<longleftrightarrow>
    (p \<noteq> [] \<or> 0 < digits) \<and> (\<forall>c \<in> set p. isDigit c) \<and> valueFrom (comps ! count) p \<le> 2 ^ 20
    \<and> (\<forall>q \<in> set ps. datePart q)
    \<and> calendarDate (take count comps @ valueFrom (comps ! count) p # map digitsValue ps)"
  using assms
proof (induction s arbitrary: comps count digits p ps)
  case Nil
  obtain v0 v1 v2 v3 where comps: "comps = [v0, v1, v2, v3]"
    using Nil.prems(1) by (auto simp: length_Suc_conv eval_nat_numeral)
  from Nil.prems(2) consider "count = 0" | "count = 1" | "count = 2" | "count = 3" by linarith
  then show ?case
    using Nil.prems(3,5) comps by cases (auto simp: dateRanges_def calendarDate_def)
next
  case (Cons c s)
  obtain f fs where fs: "splitOn (CHR ''.'') s = f # fs"
    using splitOn_nonempty [of "CHR ''.''" s] by (cases "splitOn (CHR ''.'') s") auto
  show ?case
  proof (cases "c = CHR ''.''")
    case dot: True
    then have p: "p = []" "ps = f # fs" using Cons.prems(5) fs by simp_all
    have nodigit: "\<not> isDigit (CHR ''.'')" by (simp add: isDigit_def byteOf_def)
    show ?thesis
    proof (cases "count = 3")
      case True
      have "\<not> calendarDate (take 3 comps @ v # map digitsValue (f # fs))" for v
        using Cons.prems(1) by (simp add: calendarDate_def)
      then show ?thesis
        using True dot p dateScan_overflow [OF Cons.prems(1)] Cons.prems(1) by auto
    next
      case False
      then have lt: "Suc count < 4" using Cons.prems(2) by simp
      have zero: "comps ! Suc count = 0" using Cons.prems(4) [of "Suc count"] lt by simp
      have tk: "take (Suc count) comps = take count comps @ [comps ! count]"
        using Cons.prems(1,2) by (simp add: take_Suc_conv_app_nth)
      have "textDateScan comps (Suc count) 0 s = Some True \<longleftrightarrow>
          f \<noteq> [] \<and> (\<forall>c \<in> set f. isDigit c) \<and> valueFrom 0 f \<le> 2 ^ 20 \<and> (\<forall>q \<in> set fs. datePart q)
          \<and> calendarDate (take (Suc count) comps @ valueFrom 0 f # map digitsValue fs)"
        using Cons.IH [OF Cons.prems(1) lt _ _ fs, of 0] Cons.prems(4) zero by auto
      then show ?thesis
        using dot p Cons.prems(1,2,3) tk by (auto simp: datePart_def digitsValue_from)
    qed
  next
    case nodot: False
    then have p: "p = c # f" "ps = fs" using Cons.prems(5) fs by simp_all
    let ?v = "comps ! count * 10 + (byteOf c - 48)"
    have ge: "?v \<le> valueFrom ?v f" by (rule valueFrom_ge)
    show ?thesis
    proof (cases "isDigit c \<and> ?v \<le> 2 ^ 20")
      case False
      then show ?thesis using nodot p ge Cons.prems(1,2) by auto
    next
      case True
      have "textDateScan (comps[count := ?v]) count (Suc digits) s = Some True \<longleftrightarrow>
          (\<forall>c \<in> set f. isDigit c) \<and> valueFrom ?v f \<le> 2 ^ 20 \<and> (\<forall>q \<in> set fs. datePart q)
          \<and> calendarDate (take count comps @ valueFrom ?v f # map digitsValue fs)"
        using Cons.IH [of "comps[count := ?v]" count f fs "Suc digits"] Cons.prems True fs by simp
      then show ?thesis using nodot p True Cons.prems(1,2) by auto
    qed
  qed
qed

lemma dateScan_start: "textDateScan [0, 0, 0, 0] 0 0 raw = Some True \<longleftrightarrow> isSaveDate raw"
proof -
  obtain f fs where fs: "splitOn (CHR ''.'') raw = f # fs"
    using splitOn_nonempty [of "CHR ''.''" raw] by (cases "splitOn (CHR ''.'') raw") auto
  let ?zeros = "[0, 0, 0, 0] :: nat list"
  have zeros: "?zeros ! i = 0" if "0 < i" "i < 4" for i
    using that by (auto simp: nth_Cons split: nat.split)
  have "textDateScan ?zeros 0 0 raw = Some True \<longleftrightarrow>
      (f \<noteq> [] \<or> 0 < (0 :: nat)) \<and> (\<forall>c \<in> set f. isDigit c) \<and> valueFrom (?zeros ! 0) f \<le> 2 ^ 20
      \<and> (\<forall>q \<in> set fs. datePart q)
      \<and> calendarDate (take 0 ?zeros @ valueFrom (?zeros ! 0) f # map digitsValue fs)"
    by (rule dateScan_fields [OF _ _ _ zeros fs]) simp_all
  then show ?thesis
    using fs by (simp add: isSaveDate_def datePart_def digitsValue_from)
qed

text \<open>\<^verbatim>\<open>textDate\<close> accepts exactly the dates: three or four dot-separated numbers, each at most
  \<open>2 ^ 20\<close>, with a month from 1 to 12, a day from 1 to 31 and an hour up to 23; so the version
  \<open>1.19.0.6\<close> is refused. Anything else is the empty string, or the panic.\<close>

theorem textDate_exact:
  "textDate raw = Some raw \<and> raw \<noteq> [] \<longleftrightarrow> isSaveDate raw"
proof -
  have "\<not> isSaveDate []" by (simp add: isSaveDate_def datePart_def)
  then show ?thesis
    using dateScan_start [of raw]
    by (auto simp: textDate_def split: option.splits if_splits) 
qed

text \<open>C10. The fixed array of four components is indexed out of bounds on a fifth dotted number: on
  such a scalar \<^verbatim>\<open>textDate\<close> does not return. With at most three dots it always returns.\<close>

lemma dateScan_returns:
  "length comps = 4 \<Longrightarrow> count + count_list s (CHR ''.'') < 4 \<Longrightarrow> textDateScan comps count digits s \<noteq> None"
  by (induction s arbitrary: comps count digits) (auto simp: Let_def)



end
