(* ===== verification/Progress.thy ===== *)
theory Progress
  imports DecoderTheorems
begin

text \<open>
  Readers built over a decoder return. The interface \<open>token_source\<close> is what every reader of the
  package relies on: a call of \<^verbatim>\<open>Next\<close> returns, keeps the decoder usable, and consumes input when
  it yields a token. A reader that is written with sequencing, branches, skips and loops that begin
  with \<^verbatim>\<open>Next\<close> therefore returns on every input; \<open>steady_intros\<close> collects the rules, and both
  decoders are interpretations.
\<close>

named_theorems steady_intros \<open>rules that show that a reader returns\<close>

locale token_source =
  fixes ok :: "'s \<Rightarrow> bool" and left :: "'s \<Rightarrow> nat" and nextM :: "('s, 'a) save_m"
  assumes next_law: "ok d \<Longrightarrow> \<exists>r d'. nextM d = Some (r, d') \<and> ok d' \<and> left d' \<le> left d
    \<and> (\<forall>t. r = Inr t \<longrightarrow> left d' < left d)"
begin

text \<open>\<open>m\<close> returns from \<open>d\<close>, keeps the decoder usable, gives no input back, and a value it yields
  satisfies \<open>P\<close>; \<open>m\<close> does so from every usable decoder with fewer than \<open>n\<close> bytes left.\<close>

definition stepsAt :: "'s \<Rightarrow> ('b \<Rightarrow> bool) \<Rightarrow> ('s, 'b) save_m \<Rightarrow> bool" where
  "stepsAt d P m \<longleftrightarrow>
     (\<exists>r d'. m d = Some (r, d') \<and> ok d' \<and> left d' \<le> left d \<and> (\<forall>a. r = Inr a \<longrightarrow> P a))"

definition steadyAt :: "nat \<Rightarrow> ('b \<Rightarrow> bool) \<Rightarrow> ('s, 'b) save_m \<Rightarrow> bool" where
  "steadyAt n P m \<longleftrightarrow> (\<forall>d. ok d \<longrightarrow> left d < n \<longrightarrow> stepsAt d P m)"

abbreviation any :: "'b \<Rightarrow> bool" where
  "any \<equiv> \<lambda>_. True"

lemma steadyAtD: "steadyAt n P m \<Longrightarrow> ok d \<Longrightarrow> left d < n \<Longrightarrow> stepsAt d P m"
  by (simp add: steadyAt_def)

lemma steadyAt_mono: "steadyAt n P m \<Longrightarrow> k \<le> n \<Longrightarrow> steadyAt k P m"
  by (simp add: steadyAt_def)

lemma steady_any: "steadyAt n P m \<Longrightarrow> steadyAt n any m"
  by (auto simp: steadyAt_def stepsAt_def)

lemma steady_return [steady_intros]: "P a \<Longrightarrow> steadyAt n P (returnM a)"
  by (simp add: steadyAt_def stepsAt_def)

lemma steady_fail [steady_intros]: "steadyAt n P (failM e)"
  by (simp add: steadyAt_def stepsAt_def)

lemma steady_get: "steadyAt n ok getM"
  by (simp add: steadyAt_def stepsAt_def)

lemma stepsAt_bind:
  assumes "stepsAt d Q m" and "\<And>a d'. Q a \<Longrightarrow> ok d' \<Longrightarrow> left d' \<le> left d \<Longrightarrow> stepsAt d' P (f a)"
  shows "stepsAt d P (bindM m f)"
proof -
  from assms(1) obtain r d' where m: "m d = Some (r, d')" and d': "ok d'" "left d' \<le> left d"
    and q: "\<forall>a. r = Inr a \<longrightarrow> Q a" by (auto simp: stepsAt_def)
  show ?thesis
  proof (cases r)
    case (Inl e)
    then show ?thesis using m d' by (simp add: stepsAt_def)
  next
    case (Inr a)
    then have "Q a" using q by simp
    from assms(2) [OF this d'] show ?thesis
      using m d' Inr by (auto simp: stepsAt_def intro: order_trans)
  qed
qed

lemma steady_bind:
  assumes "steadyAt n Q m" and "\<And>a. Q a \<Longrightarrow> steadyAt n P (f a)"
  shows "steadyAt n P (bindM m f)"
  unfolding steadyAt_def
proof (intro allI impI)
  fix d
  assume d: "ok d" "left d < n"
  show "stepsAt d P (bindM m f)"
    by (rule stepsAt_bind [OF steadyAtD [OF assms(1) d]]) (use assms(2) d in \<open>auto simp: steadyAt_def\<close>)
qed

lemma steady_bind_any [steady_intros]:
  "steadyAt n any m \<Longrightarrow> (\<And>a. steadyAt n P (f a)) \<Longrightarrow> steadyAt n P (bindM m f)"
  by (rule steady_bind)

lemma steady_if [steady_intros]:
  "(c \<Longrightarrow> steadyAt n P m) \<Longrightarrow> (\<not> c \<Longrightarrow> steadyAt n P m') \<Longrightarrow> steadyAt n P (if c then m else m')"
  by simp

lemma steady_option [steady_intros]:
  "(x = None \<Longrightarrow> steadyAt n P m) \<Longrightarrow> (\<And>a. x = Some a \<Longrightarrow> steadyAt n P (f a))
     \<Longrightarrow> steadyAt n P (case x of None \<Rightarrow> m | Some a \<Rightarrow> f a)"
  by (cases x) auto

lemma steady_prod [steady_intros]:
  "(\<And>a b. x = (a, b) \<Longrightarrow> steadyAt n P (f a b)) \<Longrightarrow> steadyAt n P (case x of (a, b) \<Rightarrow> f a b)"
  by (cases x) auto

lemma steady_next [steady_intros]: "steadyAt n any nextM"
  using next_law by (fastforce simp: steadyAt_def stepsAt_def)

text \<open>A loop whose body starts with a token goes round on less input.\<close>

lemma stepsAt_next:
  assumes "ok d" and "\<And>t. steadyAt (left d) P (f t)"
  shows "stepsAt d P (bindM nextM f)"
proof -
  from next_law [OF assms(1)] obtain r d' where n: "nextM d = Some (r, d')" and d': "ok d'"
    "left d' \<le> left d" "\<forall>t. r = Inr t \<longrightarrow> left d' < left d" by blast
  show ?thesis
  proof (cases r)
    case (Inl e)
    then show ?thesis using n d' by (simp add: stepsAt_def)
  next
    case (Inr t)
    then have "left d' < left d" using d' by simp
    from steadyAtD [OF assms(2) d'(1) this] show ?thesis
      using n d' Inr by (fastforce simp: stepsAt_def)
  qed
qed

lemma stepsAt_if: "(c \<Longrightarrow> stepsAt d P m) \<Longrightarrow> (\<not> c \<Longrightarrow> stepsAt d P m') \<Longrightarrow> stepsAt d P (if c then m else m')"
  by simp

lemma stepsAt_return: "ok d \<Longrightarrow> P a \<Longrightarrow> stepsAt d P (returnM a)"
  by (simp add: stepsAt_def)

lemma steady_loop:
  assumes "\<And>x d. I x \<Longrightarrow> ok d \<Longrightarrow> (\<And>y. I y \<Longrightarrow> steadyAt (left d) P (loop y)) \<Longrightarrow> stepsAt d P (loop x)"
    and "I x"
  shows "steadyAt n P (loop x)"
  using assms(2)
proof (induction n arbitrary: x rule: less_induct)
  case (less n)
  show ?case
    unfolding steadyAt_def
  proof (intro allI impI)
    fix d
    assume "ok d" "left d < n"
    then show "stepsAt d P (loop x)" using assms(1) less by blast
  qed
qed

lemma stepsAt_cong: "m d = m' d \<Longrightarrow> stepsAt d P m' \<Longrightarrow> stepsAt d P m"
  by (simp add: stepsAt_def)

text \<open>An operation that looks at the decoder first and then behaves like a steady one.\<close>

lemma steady_pointwise:
  "(\<And>d. \<exists>m. g d = m d \<and> steadyAt n P m) \<Longrightarrow> steadyAt n P g"
  unfolding steadyAt_def stepsAt_def by metis

lemma steady_run:
  assumes "\<And>n. steadyAt n P m" and "ok d"
  obtains r d' where "m d = Some (r, d')" and "ok d'" and "\<And>a. r = Inr a \<Longrightarrow> P a"
  using assms unfolding steadyAt_def stepsAt_def by blast

end

section \<open>Both decoders are token sources\<close>

definition shrinksP :: "(bytes \<times> Counters, 'a) save_m \<Rightarrow> bool" where
  "shrinksP m \<longleftrightarrow> (\<forall>s r s'. m s = Some (r, s') \<longrightarrow> length (fst s') \<le> length (fst s))"

lemma shrinksP_basic:
  "shrinksP (returnM a)" "shrinksP (failM e)" "shrinksP (countToken limits)" "shrinksP (openContainer limits)"
  "shrinksP (closeContainer (\<lambda>s. s))" "shrinksP (closeContainer (drop 1))"
  by (auto simp: shrinksP_def countToken_def openContainer_def closeContainer_def Let_def split: if_splits)

lemma shrinksP_bind: "shrinksP m \<Longrightarrow> (\<And>a. shrinksP (f a)) \<Longrightarrow> shrinksP (bindM m f)"
  by (fastforce simp: shrinksP_def bindM_apply split: option.splits sum.splits)

lemma shrinksP_if: "(c \<Longrightarrow> shrinksP m) \<Longrightarrow> (\<not> c \<Longrightarrow> shrinksP m') \<Longrightarrow> shrinksP (if c then m else m')"
  by simp

lemma shrinksP_onSource: "shrinks m \<Longrightarrow> shrinksP (onSource m)"
  by (auto simp: shrinks_def shrinksP_def onSource_def split: option.splits)

lemma shrinks_lift: "(\<And>bs r bs'. f bs = (r, bs') \<Longrightarrow> length bs' \<le> length bs) \<Longrightarrow> shrinks (lift_spec f)"
  by (auto simp: shrinks_def lift_spec_def)

lemmas shrinksP_rules = shrinksP_basic shrinksP_bind shrinksP_if shrinksP_onSource

lemma shrinksP_payload:
  "shrinksP (case decodePayload pureTake limits i of Some m \<Rightarrow> onSource m | None \<Rightarrow> n)" if "shrinksP n"
  using that by (auto split: option.split intro: shrinksP_onSource shrinks_payload)

lemma decodeToken_shrinks: "shrinksP (decodeToken pureTake limits)"
  unfolding decodeToken_def by (intro shrinksP_rules shrinksP_payload shrinks_readU16)

lemma specQuoted_shrinks: "specQuoted limits bs = (r, bs') \<Longrightarrow> length bs' \<le> length bs"
  by (auto simp: specQuoted_def Let_def split: if_splits prod.splits option.splits)

lemma specTextToken_shrinks: "shrinksP (specTextToken limits)"
proof -
  let ?step = "\<lambda>(bs, c).
       let r = specFiller bs in
       if r = [] then failM (newError ErrTruncated ''the section ended where a token was expected'') (r, c)
       else if hd r = CHR ''{'' then openContainer limits (drop 1 r, c)
       else if hd r = CHR ''}'' then closeContainer (drop 1) (r, c)
       else if hd r = CHR ''='' then returnM (tokenOf KindEqual) (drop 1 r, c)
       else if hd r = CHR 0x22 then onSource (lift_spec (specQuoted limits)) (r, c)
       else bindM (onSource (lift_spec (specUnquoted limits))) (\<lambda>token.
           if Kind token = KindUnquoted \<and> isColourName (Text token)
           then onSource (lift_spec (specColour limits))
           else returnM token) (r, c)"
  have scalars: "shrinks (lift_spec (specQuoted limits))" "shrinks (lift_spec (specUnquoted limits))"
    "shrinks (lift_spec (specColour limits))"
    by (auto intro!: shrinks_lift dest: specQuoted_shrinks specUnquoted_progress(2) specColour_progress)
  have bare: "shrinksP (bindM (onSource (lift_spec (specUnquoted limits))) (\<lambda>token.
           if Kind token = KindUnquoted \<and> isColourName (Text token)
           then onSource (lift_spec (specColour limits))
           else returnM token))"
    by (intro shrinksP_rules scalars)
  have "shrinksP ?step"
    unfolding shrinksP_def
  proof (intro allI impI)
    fix s r s'
    assume run: "?step s = Some (r, s')"
    obtain bs c where s: "s = (bs, c)" by (cases s)
    let ?r = "specFiller bs"
    have le: "length ?r \<le> length bs" by (rule length_specFiller)
    have rule: "length (fst s') \<le> length bs"
      if "shrinksP m" and "m (x, c) = Some (r, s')" and "length x \<le> length ?r" for m :: "(bytes \<times> Counters, Token) save_m" and x
    proof -
      have "length (fst s') \<le> length (fst (x, c))" using that(1,2) unfolding shrinksP_def by blast
      then show ?thesis using that(3) le by simp
    qed
    show "length (fst s') \<le> length (fst s)"
      using run s le rule [OF shrinksP_basic(4)] rule [OF shrinksP_basic(6)] rule [OF shrinksP_basic(1)]
        rule [OF shrinksP_onSource [OF scalars(1)]] rule [OF bare]
      by (auto simp: Let_def split: if_splits)
  qed
  then show ?thesis unfolding specTextToken_def by (intro shrinksP_rules)
qed

lemma specNext_consumes:
  assumes "specNext enc limits (bs, c) = Some (r, (bs', c'))"
  shows "length bs' \<le> length bs \<and> (\<forall>t. r = Inr t \<longrightarrow> length bs' < length bs)"
proof
  have "shrinksP (specDone enc)"
    using length_specFiller by (auto simp: shrinksP_def specDone_def)
  then have "shrinksP (specNext enc limits)"
    unfolding specNext_def by (intro shrinksP_rules specTextToken_shrinks decodeToken_shrinks)
  then show "length bs' \<le> length bs" using assms by (fastforce simp: shrinksP_def)
  show "\<forall>t. r = Inr t \<longrightarrow> length bs' < length bs"
    using assms specNext_step [of enc limits bs c _ "(bs', c')"] by (auto simp: goodStep_def)
qed

interpretation mem: token_source "mem_ok enc limits" "\<lambda>d. length (mem_rest d)" Decoder_Next
  for enc limits
proof
  fix d
  assume "mem_ok enc limits d"
  then obtain r d' where "Decoder_Next d = Some (r, d')" and "mem_ok enc limits d'"
    and "specNext enc limits (mem_abs d) = Some (r, mem_abs d')" by (rule mem_Next)
  then show "\<exists>r d'. Decoder_Next d = Some (r, d') \<and> mem_ok enc limits d'
      \<and> length (mem_rest d') \<le> length (mem_rest d)
      \<and> (\<forall>t. r = Inr t \<longrightarrow> length (mem_rest d') < length (mem_rest d))"
    using specNext_consumes [of enc limits "mem_rest d" "mem_counters d"]
    by (auto simp: mem_abs_def)
qed

interpretation str: token_source "stream_ok enc limits" "\<lambda>d. length (stream_rest d)" StreamDecoder_Next
  for enc limits
proof
  fix d
  assume "stream_ok enc limits d"
  then obtain r d' where "StreamDecoder_Next d = Some (r, d')" and "stream_ok enc limits d'"
    and "specNext enc limits (stream_abs d) = Some (r, stream_abs d')" by (rule stream_Next)
  then show "\<exists>r d'. StreamDecoder_Next d = Some (r, d') \<and> stream_ok enc limits d'
      \<and> length (stream_rest d') \<le> length (stream_rest d)
      \<and> (\<forall>t. r = Inr t \<longrightarrow> length (stream_rest d') < length (stream_rest d))"
    using specNext_consumes [of enc limits "stream_rest d" "stream_counters d"]
    by (auto simp: stream_abs_def)
qed

section \<open>The decoders' other operations\<close>

lemma specDone_shrinks: "specDone enc (bs, c) = Some (r, (bs', c')) \<Longrightarrow> length bs' \<le> length bs"
  using length_specFiller [of bs] by (auto simp: specDone_def split: if_splits)

lemma mem_Done_steps: "mem_ok enc limits d \<Longrightarrow> mem.stepsAt enc limits d (\<lambda>_. True) Decoder_Done"
  by (erule mem_Done) (auto simp: mem.stepsAt_def mem_abs_def dest: specDone_shrinks)

lemma mem_Done_steady [steady_intros]: "mem.steadyAt enc limits n (\<lambda>_. True) Decoder_Done"
  by (simp add: mem.steadyAt_def mem_Done_steps)

lemma mem_SkipTo_steady [steady_intros]: "mem.steadyAt enc limits n (\<lambda>_. True) (Decoder_SkipTo target)"
proof (rule mem.steady_loop [where loop = Decoder_SkipTo and I = "\<lambda>_. True"])
  fix x d
  assume d: "mem_ok enc limits d" and ih: "\<And>y. True \<Longrightarrow> mem.steadyAt enc limits (length (mem_rest d)) (\<lambda>_. True) (Decoder_SkipTo y)"
  note ih = ih [OF TrueI]
  show "mem.stepsAt enc limits d (\<lambda>_. True) (Decoder_SkipTo x)"
  proof (cases "d_depth d > x")
    case True
    show ?thesis
      by (rule mem.stepsAt_cong [OF _ mem.stepsAt_next [OF d ih]])
         (simp add: Decoder_SkipTo.simps [of x d] True)
  next
    case False
    then show ?thesis using d by (simp add: mem.stepsAt_def Decoder_SkipTo.simps [of x d])
  qed
qed simp

lemma mem_SkipValue_steady [steady_intros]: "mem.steadyAt enc limits n (\<lambda>_. True) (Decoder_SkipValue token)"
  using mem_SkipTo_steady
  by (fastforce simp: mem.steadyAt_def mem.stepsAt_def Decoder_SkipValue_def)

lemma stream_Done_steps: "stream_ok enc limits d \<Longrightarrow> str.stepsAt enc limits d (\<lambda>_. True) StreamDecoder_Done"
  by (erule stream_Done) (auto simp: str.stepsAt_def stream_abs_def dest: specDone_shrinks)

lemma stream_Done_steady [steady_intros]: "str.steadyAt enc limits n (\<lambda>_. True) StreamDecoder_Done"
  by (simp add: str.steadyAt_def stream_Done_steps)

lemma stream_SkipTo_steady [steady_intros]: "str.steadyAt enc limits n (\<lambda>_. True) (StreamDecoder_SkipToDepth target)"
proof (rule str.steady_loop [where loop = StreamDecoder_SkipToDepth and I = "\<lambda>_. True"])
  fix x d
  assume d: "stream_ok enc limits d"
    and ih: "\<And>y. True \<Longrightarrow> str.steadyAt enc limits (length (stream_rest d)) (\<lambda>_. True) (StreamDecoder_SkipToDepth y)"
  note ih = ih [OF TrueI]
  show "str.stepsAt enc limits d (\<lambda>_. True) (StreamDecoder_SkipToDepth x)"
  proof (cases "sd_depth d > x")
    case True
    show ?thesis
      by (rule str.stepsAt_cong [OF _ str.stepsAt_next [OF d ih]])
         (simp add: StreamDecoder_SkipToDepth.simps [of x d] True)
  next
    case False
    then show ?thesis using d by (simp add: str.stepsAt_def StreamDecoder_SkipToDepth.simps [of x d])
  qed
qed simp

lemma stream_SkipValue_steady [steady_intros]: "str.steadyAt enc limits n (\<lambda>_. True) (StreamDecoder_SkipValue token)"
  using stream_SkipTo_steady
  by (fastforce simp: str.steadyAt_def str.stepsAt_def StreamDecoder_SkipValue_def)

end
