(* ===== verification/Metadata.thy ===== *)
theory Metadata
  imports Progress
begin

text \<open>
  \<^verbatim>\<open>internal/savefile/metadata.go\<close>: the metadata section of a save, read in two passes over the
  in-memory decoder. A visitor closure that fills a struct is a function from the value collected
  so far to the next one; a failing read discards it, as the Go caller does. A nil slice and an
  empty one are both the empty list.
\<close>

section \<open>Rendering scalars\<close>

definition hexDigit :: "nat \<Rightarrow> char" where
  "hexDigit d = (if d < 10 then char_of (48 + d) else char_of (87 + d))"

text \<open>\<^verbatim>\<open>hex.EncodeToString\<close>.\<close>

definition hexEncode :: "bytes \<Rightarrow> bytes" where
  "hexEncode bs = concat (map (\<lambda>c. [hexDigit (byteOf c div 16), hexDigit (byteOf c mod 16)]) bs)"

text \<open>\<^verbatim>\<open>text\<close>.\<close>

definition textOf :: "Token \<Rightarrow> bytes" where
  "textOf token =
     (case Kind token of
        KindQuoted \<Rightarrow> if utf8Valid (Text token) then Text token else ''0x'' @ hexEncode (Text token)
      | KindUnquoted \<Rightarrow> if utf8Valid (Text token) then Text token else ''0x'' @ hexEncode (Text token)
      | KindU32 \<Rightarrow> formatInt (uint (Unsigned token))
      | KindU64 \<Rightarrow> formatInt (uint (Unsigned token))
      | KindI32 \<Rightarrow> formatInt (sint (Signed token))
      | KindI64 \<Rightarrow> formatInt (sint (Signed token))
      | KindBool \<Rightarrow> if Bool token then ''yes'' else ''no''
      | _ \<Rightarrow> [])"

text \<open>The fixed 365-day calendar of the binary dates.\<close>

definition monthOrdinal :: "int list" where
  "monthOrdinal = [0, 31, 59, 90, 120, 151, 181, 212, 243, 273, 304, 334]"

text \<open>The loop of \<^verbatim>\<open>date\<close> from December down; \<open>n\<close> is one more than the month it looks at, and 11
  remains when no month matches.\<close>

fun monthFrom :: "nat \<Rightarrow> int \<Rightarrow> nat" where
  "monthFrom 0 ordinal = 11"
| "monthFrom (Suc index) ordinal =
     (if ordinal \<ge> monthOrdinal ! index then index else monthFrom index ordinal)"

definition dottedDate :: "int list \<Rightarrow> bytes" where
  "dottedDate parts = joinWith (CHR ''.'') (map formatInt parts)"

definition binaryDate :: "int \<Rightarrow> bytes" where
  "binaryDate raw =
     (if raw < 0 then []
      else
        let hour = raw mod 24;
            remaining = raw div 24;
            ordinal = remaining mod 365;
            year = remaining div 365 - 5000;
            month = monthFrom 12 ordinal;
            day = ordinal - monthOrdinal ! month + 1
        in if hour \<noteq> 0 then dottedDate [year, int month + 1, day, hour]
           else dottedDate [year, int month + 1, day])"

text \<open>\<^verbatim>\<open>date\<close>; \<open>None\<close> is the panic of \<open>textDate\<close>.\<close>

definition dateOf :: "Token \<Rightarrow> bytes option" where
  "dateOf token =
     (case Kind token of
        KindI32 \<Rightarrow> Some (binaryDate (sint (Signed token)))
      | KindI64 \<Rightarrow> Some (binaryDate (sint (Signed token)))
      | KindU32 \<Rightarrow> Some (if uint (Unsigned token) > 2 ^ 62 then [] else binaryDate (uint (Unsigned token)))
      | KindU64 \<Rightarrow> Some (if uint (Unsigned token) > 2 ^ 62 then [] else binaryDate (uint (Unsigned token)))
      | KindQuoted \<Rightarrow> textDate (Text token)
      | KindUnquoted \<Rightarrow> textDate (Text token)
      | _ \<Rightarrow> Some [])"

text \<open>The same inside a reader, where a panic unwinds it.\<close>

definition dateM :: "Token \<Rightarrow> ('s, bytes) save_m" where
  "dateM token =
     (case dateOf token of
        None \<Rightarrow> failM (GoPanic ''index out of range'')
      | Some s \<Rightarrow> returnM s)"

section \<open>Walking a container\<close>

type_synonym 'v objectVisitor = "bytes \<Rightarrow> Token \<Rightarrow> 'v \<Rightarrow> (Decoder, 'v) save_m"

definition keyNameM :: "Token \<Rightarrow> TokenMap option \<Rightarrow> (Decoder, bytes option) save_m" where
  "keyNameM token resolver d = (let (name, d') = Decoder_keyName token resolver d in Some (Inr name, d'))"

partial_function (option) readObject ::
  "TokenMap option \<Rightarrow> 'v \<Rightarrow> 'v objectVisitor \<Rightarrow> Decoder \<Rightarrow> ((SaveError + 'v) \<times> Decoder) option" where
  "readObject resolver acc visit d =
     bindM Decoder_Done (\<lambda>fin.
     if fin then returnM acc
     else
       bindM Decoder_Next (\<lambda>token.
       if Kind token = KindClose then returnM acc
       else
         bindM (keyNameM token resolver) (\<lambda>name.
         if name = None \<or> \<not> IsScalar token
         then bindM (Decoder_SkipValue token) (\<lambda>_. readObject resolver acc visit)
         else
           bindM Decoder_Next (\<lambda>nxt.
           if Kind nxt \<noteq> KindEqual then
             (if Kind nxt = KindClose then returnM acc
              else bindM (Decoder_SkipValue nxt) (\<lambda>_. readObject resolver acc visit))
           else
             bindM Decoder_Next (\<lambda>value.
             bindM (visit (the name) value acc) (\<lambda>acc'. readObject resolver acc' visit)))))) d"

text \<open>The loop of \<^verbatim>\<open>readList\<close>.\<close>

partial_function (option) readListLoop ::
  "int \<Rightarrow> bytes list \<Rightarrow> bool \<Rightarrow> Decoder \<Rightarrow> ((SaveError + (bytes list \<times> bool)) \<times> Decoder) option" where
  "readListLoop target items truncated d =
     (if d_depth d > target then
        bindM Decoder_Next (\<lambda>token.
          if Kind token = KindOpen
          then bindM (Decoder_SkipValue token) (\<lambda>_. readListLoop target items truncated)
          else if Kind token = KindQuoted \<or> Kind token = KindUnquoted then
            bindM getM (\<lambda>d.
              if int (length items) \<ge> MaxArrayItems (d_limits d) then readListLoop target items True
              else readListLoop target (items @ [textOf token]) truncated)
          else readListLoop target items truncated) d
      else returnM (items, truncated) d)"

definition readList :: "Token \<Rightarrow> (Decoder, bytes list \<times> bool) save_m" where
  "readList value d =
     (if Kind value \<noteq> KindOpen
      then bindM (Decoder_SkipValue value) (\<lambda>_. returnM ([], False)) d
      else readListLoop (d_depth d - 1) [] False d)"

definition appendTruncated :: "bytes list \<Rightarrow> bool \<Rightarrow> bytes \<Rightarrow> bytes list" where
  "appendTruncated current truncated name = (if \<not> truncated then current else current @ [name])"

section \<open>The metadata fields\<close>

record Metadata =
  Version :: bytes
  SaveGameVersion :: "64 word"
  PortraitsVersion :: "64 word"
  Date :: bytes
  RealDate :: bytes
  PlayerName :: bytes
  TitleName :: bytes
  PlayerTier :: "64 word"
  HouseName :: bytes
  Government :: bytes
  NumberOfPlayers :: "64 word"
  AchievementsEnabled :: "bool option"
  Mods :: "bytes list"
  DLCs :: "bytes list"
  GameRules :: "bytes list"
  Truncated :: "bytes list"
  MetaCoverage :: Coverage

definition emptyMetadata :: "Coverage \<Rightarrow> Metadata" where
  "emptyMetadata coverage =
     \<lparr>Version = [], SaveGameVersion = 0, PortraitsVersion = 0, Date = [], RealDate = [],
      PlayerName = [], TitleName = [], PlayerTier = 0, HouseName = [], Government = [],
      NumberOfPlayers = 0, AchievementsEnabled = None, Mods = [], DLCs = [], GameRules = [],
      Truncated = [], MetaCoverage = coverage\<rparr>"

definition readGameRules :: "TokenMap option \<Rightarrow> Token \<Rightarrow> Metadata \<Rightarrow> (Decoder, Metadata) save_m" where
  "readGameRules resolver value m =
     (if Kind value \<noteq> KindOpen then bindM (Decoder_SkipValue value) (\<lambda>_. returnM m)
      else readObject resolver m (\<lambda>name inner m.
        if name \<noteq> ''settings'' then bindM (Decoder_SkipValue inner) (\<lambda>_. returnM m)
        else bindM (readList inner) (\<lambda>(items, truncated).
          returnM (m\<lparr>GameRules := items,
            Truncated := appendTruncated (Truncated m) truncated ''game_rules''\<rparr>))))"

text \<open>\<^verbatim>\<open>assign\<close>: scalar fields fall through to the shared \<^verbatim>\<open>SkipValue\<close>.\<close>

definition assign :: "TokenMap option \<Rightarrow> bytes \<Rightarrow> Token \<Rightarrow> Metadata \<Rightarrow> (Decoder, Metadata) save_m" where
  "assign resolver name value m =
     (let finish = (\<lambda>m. bindM (Decoder_SkipValue value) (\<lambda>_. returnM m)) in
      if name = ''version'' then finish (m\<lparr>Version := textOf value\<rparr>)
      else if name = ''save_game_version'' then finish (m\<lparr>SaveGameVersion := unsignedOf value\<rparr>)
      else if name = ''portraits_version'' then finish (m\<lparr>PortraitsVersion := unsignedOf value\<rparr>)
      else if name = ''meta_date'' then bindM (dateM value) (\<lambda>s. finish (m\<lparr>Date := s\<rparr>))
      else if name = ''meta_real_date'' then bindM (dateM value) (\<lambda>s. finish (m\<lparr>RealDate := s\<rparr>))
      else if name = ''meta_player_name'' then finish (m\<lparr>PlayerName := textOf value\<rparr>)
      else if name = ''meta_title_name'' then finish (m\<lparr>TitleName := textOf value\<rparr>)
      else if name = ''meta_player_tier'' then finish (m\<lparr>PlayerTier := unsignedOf value\<rparr>)
      else if name = ''meta_house_name'' then finish (m\<lparr>HouseName := textOf value\<rparr>)
      else if name = ''meta_government'' then finish (m\<lparr>Government := textOf value\<rparr>)
      else if name = ''meta_number_of_players'' then finish (m\<lparr>NumberOfPlayers := unsignedOf value\<rparr>)
      else if name = ''can_get_achievements'' then
        finish (if Kind value = KindBool then m\<lparr>AchievementsEnabled := Some (Bool value)\<rparr> else m)
      else if name = ''mods'' then
        bindM (readList value) (\<lambda>(items, truncated).
          returnM (m\<lparr>Mods := items, Truncated := appendTruncated (Truncated m) truncated ''mods''\<rparr>))
      else if name = ''dlcs'' then
        bindM (readList value) (\<lambda>(items, truncated).
          returnM (m\<lparr>DLCs := items, Truncated := appendTruncated (Truncated m) truncated ''dlcs''\<rparr>))
      else if name = ''game_rules'' then readGameRules resolver value m
      else finish m)"

section \<open>Reading the section\<close>

partial_function (option) observedLoop ::
  "16 word list \<Rightarrow> Decoder \<Rightarrow> ((SaveError + 16 word list) \<times> Decoder) option" where
  "observedLoop order d =
     bindM Decoder_Done (\<lambda>fin.
     if fin then returnM order
     else bindM Decoder_Next (\<lambda>token.
       if Kind token \<noteq> KindID then observedLoop order
       else if ID token \<in> set order then observedLoop order
       else observedLoop (order @ [ID token]))) d"

definition observedIdentifiers :: "bytes \<Rightarrow> Limits \<Rightarrow> (SaveError + 16 word list) option" where
  "observedIdentifiers section limits =
     (case observedLoop [] (NewDecoder section limits) of
        None \<Rightarrow> None
      | Some (Inl e, d) \<Rightarrow> Some (Inl e)
      | Some (Inr order, d) \<Rightarrow>
          if d_depth d \<noteq> 0
          then Some (Inl (newError ErrTruncated ''the metadata section ends inside an unclosed container''))
          else Some (Inr order))"

text \<open>The extraction pass: the outer visitor looks for \<open>meta_data\<close> and notes that it was found.\<close>

definition extractMetadata ::
  "Encoding \<Rightarrow> bytes \<Rightarrow> TokenMap option \<Rightarrow> Coverage \<Rightarrow> Limits \<Rightarrow> (SaveError + Metadata) option" where
  "extractMetadata encoding section tokenMap coverage limits =
     (case readObject tokenMap (False, emptyMetadata coverage) (\<lambda>name value (found, m).
        if name \<noteq> ''meta_data'' \<or> Kind value \<noteq> KindOpen
        then bindM (Decoder_SkipValue value) (\<lambda>_. returnM (found, m))
        else bindM (readObject tokenMap m (assign tokenMap)) (\<lambda>m. returnM (True, m)))
        (NewDecoderFor encoding section limits) of
        None \<Rightarrow> None
      | Some (Inl e, d) \<Rightarrow> Some (Inl e)
      | Some (Inr (found, m), d) \<Rightarrow>
          if \<not> found
          then Some (Inl (newError ErrMalformedToken ''the metadata section has no meta_data container''))
          else Some (Inr m))"

definition ReadMetadataFor ::
  "Encoding \<Rightarrow> bytes \<Rightarrow> TokenMap list \<Rightarrow> Limits \<Rightarrow> (SaveError + Metadata) option" where
  "ReadMetadataFor encoding section maps limits =
     (if encoding = EncodingText
      then extractMetadata encoding section None
        \<lparr>ObservedIdentifiers = 0, ResolvedIdentifiers = 0, Complete = True, CoverageMap = tokenMapNotNeeded\<rparr>
        limits
      else case observedIdentifiers section limits of
        None \<Rightarrow> None
      | Some (Inl e) \<Rightarrow> Some (Inl e)
      | Some (Inr observed) \<Rightarrow>
          (case SelectTokenMap maps observed of
             (tokenMap, coverage, Some e) \<Rightarrow> Some (Inl e)
           | (tokenMap, coverage, None) \<Rightarrow> extractMetadata encoding section tokenMap coverage limits))"

definition ReadMetadata :: "bytes \<Rightarrow> TokenMap list \<Rightarrow> Limits \<Rightarrow> (SaveError + Metadata) option" where
  "ReadMetadata section maps limits = ReadMetadataFor EncodingBinary section maps limits"

text \<open>The loops run as they are written.\<close>

declare readObject.simps [code]
  readListLoop.simps [code]
  observedLoop.simps [code]

end
