(* ===== verification/MetadataFacts.thy ===== *)
theory MetadataFacts
  imports Metadata TextFacts BinaryRoundtrip
begin

text \<open>
  What a metadata read guarantees: it returns on every section, the binary date is the inverse of
  the documented encoding, the reported lists stay within the element cap, and a token map is
  used only when it names every identifier the section holds.
\<close>

section \<open>Readers with a loop invariant\<close>

lemma mem_keyName_steady [steady_intros]: "mem.steadyAt enc limits n (\<lambda>_. True) (keyNameM token resolver)"
  unfolding mem.steadyAt_def mem.stepsAt_def
  by (auto simp: keyNameM_def Decoder_keyName_def Let_def intern_def mem_ok_def mem_rest_def
      split: option.splits if_splits)

lemma dateM_steady [steady_intros]: "mem.steadyAt enc limits n (\<lambda>_. True) (dateM token)"
  unfolding dateM_def by (intro steady_intros TrueI)

text \<open>\<open>readObject\<close> returns and keeps every invariant of the accumulator its visitor keeps.\<close>

lemma mem_readObject_steady:
  assumes visit: "\<And>name value acc n. I acc \<Longrightarrow> mem.steadyAt enc limits n I (visit name value acc)" and "I acc"
  shows "mem.steadyAt enc limits n I (readObject resolver acc visit)"
proof (rule mem.steady_loop [where loop = "\<lambda>acc. readObject resolver acc visit" and I = I, OF _ assms(2)])
  fix acc d
  assume acc: "I acc" and d: "mem_ok enc limits d"
    and ih: "\<And>acc. I acc \<Longrightarrow> mem.steadyAt enc limits (length (mem_rest d)) I (readObject resolver acc visit)"
  show "mem.stepsAt enc limits d I (readObject resolver acc visit)"
    by (rule mem.stepsAt_cong, rule readObject.simps, rule mem.stepsAt_bind [OF mem_Done_steps [OF d]])
       (intro mem.steady_bind [OF visit [OF acc]] mem.stepsAt_if mem.stepsAt_return mem.stepsAt_next acc
          steady_intros mem.steadyAt_mono [OF ih] | assumption)+
qed

text \<open>The cap a list is held to; a negative limit admits no item.\<close>

definition itemCap :: "Limits \<Rightarrow> int" where
  "itemCap limits = max 0 (MaxArrayItems limits)"

lemma itemCap_pos [simp]: "0 \<le> itemCap limits"
  by (simp add: itemCap_def)

lemma readListLoop_steady:
  assumes "int (length items) \<le> itemCap limits"
  shows "mem.steadyAt enc limits n (\<lambda>(items, truncated). int (length items) \<le> itemCap limits)
    (readListLoop target items truncated)"
proof -
  let ?Q = "\<lambda>(items :: bytes list, truncated :: bool). int (length items) \<le> itemCap limits"
  let ?loop = "\<lambda>(items, truncated). readListLoop target items truncated"
  have "mem.steadyAt enc limits n ?Q (?loop (items, truncated))"
  proof (rule mem.steady_loop [where loop = ?loop and I = ?Q])
    fix x :: "bytes list \<times> bool" and d
    assume q: "?Q x" and d: "mem_ok enc limits d"
      and ih: "\<And>y. ?Q y \<Longrightarrow> mem.steadyAt enc limits (length (mem_rest d)) ?Q (?loop y)"
    obtain items truncated where x: "x = (items, truncated)" by (cases x)
    have items: "int (length items) \<le> itemCap limits" using q x by simp
    have loop: "mem.steadyAt enc limits (length (mem_rest d)) ?Q (readListLoop target i t)"
      if "int (length i) \<le> itemCap limits" for i t
      using ih [of "(i, t)"] that by simp
    have more: "mem.steadyAt enc limits (length (mem_rest d)) ?Q (bindM getM (\<lambda>d.
              if int (length items) \<ge> MaxArrayItems (d_limits d) then readListLoop target items True
              else readListLoop target (items @ [t]) truncated))" for t
      by (rule mem.steady_bind [OF mem.steady_get], intro steady_intros loop)
         (use items in \<open>auto simp: mem_ok_def itemCap_def\<close>)
    show "mem.stepsAt enc limits d ?Q (?loop x)"
    proof (cases "d_depth d > target")
      case True
      have "readListLoop target items truncated d = bindM Decoder_Next (\<lambda>token.
          if Kind token = KindOpen
          then bindM (Decoder_SkipValue token) (\<lambda>_. readListLoop target items truncated)
          else if Kind token = KindQuoted \<or> Kind token = KindUnquoted then
            bindM getM (\<lambda>d.
              if int (length items) \<ge> MaxArrayItems (d_limits d) then readListLoop target items True
              else readListLoop target (items @ [textOf token]) truncated)
          else readListLoop target items truncated) d"
        using True by (subst readListLoop.simps) simp
      then show ?thesis
        unfolding x prod.case
        by (rule mem.stepsAt_cong) (intro mem.stepsAt_next d more loop items steady_intros)
    next
      case False
      then show ?thesis
        using d x items by (simp add: mem.stepsAt_def readListLoop.simps [of target items truncated d])
    qed
  qed (use assms in simp)
  then show ?thesis by simp
qed

lemma readList_steady:
  shows "mem.steadyAt enc limits n (\<lambda>(items, truncated). int (length items) \<le> itemCap limits) (readList value)"
proof -
  have "mem.steadyAt enc limits n (\<lambda>(items, truncated). int (length items) \<le> itemCap limits)
      (bindM (Decoder_SkipValue value) (\<lambda>_. returnM ([] :: bytes list, False)))"
    by (intro steady_intros) (simp add: itemCap_def)
  then show ?thesis
    using readListLoop_steady [of "[]" limits enc] itemCap_pos [of limits]
    unfolding mem.steadyAt_def mem.stepsAt_def readList_def by simp
qed

definition listsBounded :: "Limits \<Rightarrow> Coverage \<Rightarrow> Metadata \<Rightarrow> bool" where
  "listsBounded limits coverage m \<longleftrightarrow> MetaCoverage m = coverage \<and> int (length (Mods m)) \<le> itemCap limits
     \<and> int (length (DLCs m)) \<le> itemCap limits \<and> int (length (GameRules m)) \<le> itemCap limits"

lemma assign_steady:
  assumes "listsBounded limits coverage m"
  shows "mem.steadyAt enc limits n (listsBounded limits coverage) (assign resolver name value m)"
proof -
  note list = mem.steady_bind [OF readList_steady]
  have rules: "mem.steadyAt enc limits n (listsBounded limits coverage) (readGameRules resolver value m)"
    unfolding readGameRules_def
    by (intro list mem_readObject_steady steady_intros)
       (auto simp: listsBounded_def assms [unfolded listsBounded_def] intro: mem.steady_return)
  have lists: "mem.steadyAt enc limits n (listsBounded limits coverage) (bindM (readList value) (\<lambda>(items, truncated).
          returnM (m\<lparr>Mods := items, Truncated := appendTruncated (Truncated m) truncated ''mods''\<rparr>)))"
    "mem.steadyAt enc limits n (listsBounded limits coverage) (bindM (readList value) (\<lambda>(items, truncated).
          returnM (m\<lparr>DLCs := items, Truncated := appendTruncated (Truncated m) truncated ''dlcs''\<rparr>)))"
    by (intro list; use assms in \<open>auto simp: listsBounded_def intro: mem.steady_return\<close>)+
  show ?thesis
    unfolding assign_def Let_def
    by (intro lists rules steady_intros) (use assms in \<open>simp_all add: listsBounded_def\<close>)
qed

section \<open>Reading returns\<close>

lemma observedLoop_steady:
  assumes "distinct order"
  shows "mem.steadyAt enc limits n distinct (observedLoop order)"
proof (rule mem.steady_loop [where loop = observedLoop and I = distinct, OF _ assms])
  fix order :: "16 word list" and d
  assume order: "distinct order" and d: "mem_ok enc limits d"
    and ih: "\<And>order. distinct order \<Longrightarrow> mem.steadyAt enc limits (length (mem_rest d)) distinct (observedLoop order)"
  have more: "mem.steadyAt enc limits k distinct (observedLoop (order @ [i]))"
    if "i \<notin> set order" "k \<le> length (mem_rest d)" for i k
    using mem.steadyAt_mono [OF ih [of "order @ [i]"] that(2)] order that(1) by simp
  show "mem.stepsAt enc limits d distinct (observedLoop order)"
    by (rule mem.stepsAt_cong, rule observedLoop.simps, rule mem.stepsAt_bind [OF mem_Done_steps [OF d]])
       (intro mem.stepsAt_if mem.stepsAt_return mem.stepsAt_next order steady_intros
          mem.steadyAt_mono [OF ih] more | assumption)+
qed

lemma observedIdentifiers_total:
  obtains r where "observedIdentifiers sec limits = Some r" and "\<And>ids. r = Inr ids \<Longrightarrow> distinct ids"
proof -
  obtain r d' where run: "observedLoop [] (NewDecoder sec limits) = Some (r, d')"
    and "\<And>a. r = Inr a \<Longrightarrow> distinct a"
    using mem.steady_run [OF observedLoop_steady [OF distinct.simps(1) [THEN iffD2, OF TrueI]] mem_ok_new [of EncodingBinary limits sec]]
    by (metis NewDecoder_def)
  then show ?thesis
    by (cases r; cases "d_depth d' = 0") (auto simp: observedIdentifiers_def intro!: that)
qed

lemma extractMetadata_total:
  obtains r where "extractMetadata enc sec tokenMap coverage limits = Some r"
    and "\<And>m. r = Inr m \<Longrightarrow> listsBounded limits coverage m"
proof -
  let ?visit = "\<lambda>name value (found :: bool, m).
        if name \<noteq> ''meta_data'' \<or> Kind value \<noteq> KindOpen
        then bindM (Decoder_SkipValue value) (\<lambda>_. returnM (found, m))
        else bindM (readObject tokenMap m (assign tokenMap)) (\<lambda>m. returnM (True, m))"
  let ?I = "\<lambda>(found :: bool, m). listsBounded limits coverage m"
  have visit: "mem.steadyAt enc limits n ?I (?visit name val acc)" if "?I acc" for name val acc n
  proof -
    obtain found m where acc: "acc = (found, m)" by (cases acc)
    then have m: "listsBounded limits coverage m" using that by simp
    have inner: "mem.steadyAt enc limits n (listsBounded limits coverage) (readObject tokenMap m (assign tokenMap))"
      by (rule mem_readObject_steady [OF assign_steady m])
    show ?thesis
      unfolding acc prod.case
      by (intro mem.steady_bind [OF inner] steady_intros) (simp_all add: m)
  qed
  have start: "?I (False, emptyMetadata coverage)"
    by (simp add: listsBounded_def emptyMetadata_def)
  note total = mem_readObject_steady [where I = ?I, OF visit start]
  show ?thesis
  proof (rule mem.steady_run [OF total mem_ok_new])
    fix r d'
    assume run: "readObject tokenMap (False, emptyMetadata coverage) ?visit (NewDecoderFor enc sec limits) = Some (r, d')"
      and post: "\<And>a. r = Inr a \<Longrightarrow> ?I a"
    show ?thesis
    proof (cases r)
      case (Inl e)
      then show ?thesis using that [of "Inl e"] run by (simp add: extractMetadata_def)
    next
      case (Inr b)
      obtain found m where b: "b = (found, m)" by (cases b)
      show ?thesis
      proof (rule that)
        show "extractMetadata enc sec tokenMap coverage limits =
            Some (if \<not> found
              then Inl (newError ErrMalformedToken ''the metadata section has no meta_data container'')
              else Inr m)"
          using run Inr b by (simp add: extractMetadata_def)
      qed (use post [OF Inr] b in \<open>auto split: if_splits\<close>)
    qed
  qed
qed


section \<open>Binary dates\<close>

definition monthLength :: "int list" where
  "monthLength = [31, 28, 31, 30, 31, 30, 31, 31, 30, 31, 30, 31]"

definition encodeDate :: "int \<Rightarrow> nat \<Rightarrow> int \<Rightarrow> int \<Rightarrow> int" where
  "encodeDate year month day hour =
     ((year + 5000) * 365 + monthOrdinal ! (month - 1) + (day - 1)) * 24 + hour"

lemma monthFrom_ordinal:
  assumes "1 \<le> month" and "month \<le> 12" and "1 \<le> day" and "day \<le> monthLength ! (month - 1)"
  shows "monthFrom 12 (monthOrdinal ! (month - 1) + (day - 1)) = month - 1"
    and "0 \<le> monthOrdinal ! (month - 1) + (day - 1)" and "monthOrdinal ! (month - 1) + (day - 1) < 365"
proof -
  have "month \<in> {1, 2, 3, 4, 5, 6, 7, 8, 9, 10, 11, 12}" using assms(1,2) unfolding insert_iff empty_iff by presburger
  then show "monthFrom 12 (monthOrdinal ! (month - 1) + (day - 1)) = month - 1"
    and "0 \<le> monthOrdinal ! (month - 1) + (day - 1)" and "monthOrdinal ! (month - 1) + (day - 1) < 365"
    using assms(3,4) by (auto simp: monthOrdinal_def monthLength_def eval_nat_numeral)
qed

lemma div_mod_parts:
  "0 \<le> h \<Longrightarrow> h < k \<Longrightarrow> (x * k + h) mod k = h" "0 \<le> h \<Longrightarrow> h < k \<Longrightarrow> (x * k + h) div k = x" for h k x :: int
  by simp_all

lemma binaryDate_encode:
  assumes "- 5000 \<le> year" and "1 \<le> month" and "month \<le> 12" and "1 \<le> day"
    and "day \<le> monthLength ! (month - 1)" and "0 \<le> hour" and "hour < 24"
  shows "binaryDate (encodeDate year month day hour)
    = dottedDate ([year, int month, day] @ (if hour = 0 then [] else [hour]))"
proof -
  note mo = monthFrom_ordinal [OF assms(2-5)]
  let ?o = "monthOrdinal ! (month - 1) + (day - 1)"
  let ?raw = "encodeDate year month day hour"
  have raw: "?raw = ((year + 5000) * 365 + ?o) * 24 + hour" by (simp add: encodeDate_def)
  have h: "?raw mod 24 = hour" and r: "?raw div 24 = (year + 5000) * 365 + ?o"
    unfolding raw by (rule div_mod_parts [OF assms(6,7)])+
  have o: "((year + 5000) * 365 + ?o) mod 365 = ?o" and y: "((year + 5000) * 365 + ?o) div 365 = year + 5000"
    by (rule div_mod_parts [OF mo(2,3)])+
  have pos: "\<not> ?raw < 0" using assms(1,6) mo(2) unfolding raw by simp
  have m: "int (month - 1) + 1 = int month" using assms(2) by simp
  show ?thesis
    unfolding binaryDate_def Let_def h r o y mo(1) using pos m by simp
qed

text \<open>The binary date decoding inverts the documented encoding: every date of the 365-day calendar
  from year -5000 on, stored as a signed or unsigned integer, is rendered as its year, month, day
  and, when it is not zero, hour.\<close>

theorem date_decodes:
  assumes "- 5000 \<le> year" and "1 \<le> month" and "month \<le> 12" and "1 \<le> day"
    and "day \<le> monthLength ! (month - 1)" and "0 \<le> hour" and "hour < 24"
    and "encodeDate year month day hour \<le> 2 ^ 62"
  shows "dateOf ((tokenOf KindI64)\<lparr>Signed := word_of_int (encodeDate year month day hour)\<rparr>)
      = Some (dottedDate ([year, int month, day] @ (if hour = 0 then [] else [hour])))
    \<and> dateOf ((tokenOf KindU64)\<lparr>Unsigned := word_of_int (encodeDate year month day hour)\<rparr>)
      = Some (dottedDate ([year, int month, day] @ (if hour = 0 then [] else [hour])))"
proof -
  let ?raw = "encodeDate year month day hour"
  have "0 \<le> ?raw" using assms(1,6) monthFrom_ordinal(2) [OF assms(2-5)] by (simp add: encodeDate_def)
  then have "sint (word_of_int ?raw :: 64 word) = ?raw" and "uint (word_of_int ?raw :: 64 word) = ?raw"
    using assms(8) by (simp_all add: int_word_sint uint_word_of_int)
  then show ?thesis
    using binaryDate_encode [OF assms(1-7)] assms(8) by (simp add: dateOf_def)
qed

text \<open>The date of the comment in the source: 1066.10.1 is 53144712 hours.\<close>

theorem date_decodes_witness:
  "dateOf ((tokenOf KindI64)\<lparr>Signed := word_of_int 53144712\<rparr>) = Some (dottedDate [1066, 10, 1])"
proof -
  have "encodeDate 1066 10 1 0 = 53144712"
    by (simp add: encodeDate_def monthOrdinal_def eval_nat_numeral)
  moreover have "monthLength ! 9 = 31" by (simp add: monthLength_def eval_nat_numeral)
  ultimately show ?thesis using date_decodes [of 1066 10 1 0] by simp
qed

section \<open>The element cap\<close>

text \<open>The lists a metadata read reports never exceed the element cap, whatever the section
  holds.\<close>

theorem metadata_lists_bounded:
  assumes "ReadMetadataFor encoding sec maps limits = Some (Inr m)"
  shows "int (length (Mods m)) \<le> max 0 (MaxArrayItems limits)
    \<and> int (length (DLCs m)) \<le> max 0 (MaxArrayItems limits)
    \<and> int (length (GameRules m)) \<le> max 0 (MaxArrayItems limits)"
proof -
  have "\<exists>tokenMap coverage. extractMetadata encoding sec tokenMap coverage limits = Some (Inr m)"
    using assms by (auto simp: ReadMetadataFor_def split: if_splits option.splits sum.splits prod.splits)
  then obtain tokenMap coverage where run: "extractMetadata encoding sec tokenMap coverage limits = Some (Inr m)"
    by blast
  have "listsBounded limits coverage m"
    using run by (rule_tac extractMetadata_total [of encoding sec tokenMap coverage limits]) simp
  then show ?thesis by (simp add: listsBounded_def itemCap_def)
qed

text \<open>A text section with two mods, read with a cap of one.\<close>

definition sampleMetadata :: bytes where
  "sampleMetadata = ''meta_data={ version=''@ quoteText ''1.19.0'' @'' meta_date=1066.9.15 mods={ a b } }''"

theorem metadata_lists_bounded_witness:
  "\<exists>m. ReadMetadataFor EncodingText sampleMetadata [] (DefaultLimits\<lparr>MaxArrayItems := 1\<rparr>) = Some (Inr m)
    \<and> int (length (Mods m)) \<le> 1 \<and> Date m = ''1066.9.15'' \<and> Mods m = [''a''] \<and> Truncated m = [''mods'']"
proof -
  have "case ReadMetadataFor EncodingText sampleMetadata [] (DefaultLimits\<lparr>MaxArrayItems := 1\<rparr>) of
      Some (Inr m) \<Rightarrow> Date m = ''1066.9.15'' \<and> Mods m = [''a''] \<and> Truncated m = [''mods''] | _ \<Rightarrow> False"
    by code_simp
  then obtain m where m: "ReadMetadataFor EncodingText sampleMetadata [] (DefaultLimits\<lparr>MaxArrayItems := 1\<rparr>) = Some (Inr m)"
    and f: "Date m = ''1066.9.15''" "Mods m = [''a'']" "Truncated m = [''mods'']"
    by (auto split: option.splits sum.splits)
  show ?thesis
    using metadata_lists_bounded [OF m] m f by auto
qed

section \<open>Token maps\<close>

lemma SelectTokenMap_cases:
  assumes "maps \<noteq> []"
  obtains m where "m \<in> set maps" and "\<And>x. x \<in> set maps \<Longrightarrow> resolvedBy x observed \<le> resolvedBy m observed"
    and "fst (SelectTokenMap maps observed) = Some m"
    and "CoverageMap (fst (snd (SelectTokenMap maps observed))) = Label m"
    and "Complete (fst (snd (SelectTokenMap maps observed))) = (\<forall>i \<in> set observed. Lookup_id m i \<noteq> None)"
    and "snd (snd (SelectTokenMap maps observed)) = None \<longleftrightarrow> (\<forall>i \<in> set observed. Lookup_id m i \<noteq> None)"
proof -
  from selectLoop_Some [of maps None observed] assms obtain m r
    where sel: "selectLoop observed None maps = Some (m, r)" by auto
  from selectLoop_best [OF sel] have "r = resolvedBy m observed" and "m \<in> set maps"
    and "\<forall>x \<in> set maps. resolvedBy x observed \<le> r" by (auto simp: bestInv_def)
  then show ?thesis
    using that [of m] sel assms resolvedBy_complete [of m observed]
    by (simp add: SelectTokenMap_def Let_def)
qed

text \<open>C14. The map chosen for a save resolves at least as many of its identifiers as every other
  configured map, and is accepted without an error exactly when it names all of them.\<close>

theorem selected_map_is_best:
  assumes "maps \<noteq> []"
  shows "\<exists>m. fst (SelectTokenMap maps observed) = Some m \<and> m \<in> set maps
    \<and> (\<forall>x \<in> set maps. resolvedBy x observed \<le> resolvedBy m observed)
    \<and> (snd (snd (SelectTokenMap maps observed)) = None \<longleftrightarrow> (\<forall>i \<in> set observed. Lookup_id m i \<noteq> None))"
  using SelectTokenMap_cases [OF assms, of observed] by metis

definition sampleMaps :: "TokenMap list" where
  "sampleMaps = [\<lparr>Label = ''old'', mapNames = [(0x10, ''version'')]\<rparr>,
     \<lparr>Label = ''new'', mapNames = [(0x11, ''mods''), (0x10, ''version'')]\<rparr>]"

theorem selected_map_is_best_witness:
  "\<exists>m. fst (SelectTokenMap sampleMaps [0x10, 0x11]) = Some m \<and> Label m = ''new''
    \<and> (\<forall>x \<in> set sampleMaps. resolvedBy x [0x10, 0x11] \<le> resolvedBy m [0x10, 0x11])"
proof -
  have "map_option Label (fst (SelectTokenMap sampleMaps [0x10, 0x11])) = Some ''new''" by code_simp
  then show ?thesis
    using selected_map_is_best [of sampleMaps "[0x10, 0x11]"] by (auto simp: sampleMaps_def)
qed


text \<open>A binary section \<open>meta_data = { version = "1" }\<close> under the ids 17 and 16.\<close>

definition sampleBinarySection :: bytes where
  "sampleBinarySection = encodeAll [LxID 0x11, LxEqual, LxOpen, LxID 0x10, LxEqual, LxQuoted ''1'', LxClose]"

definition sampleMetaMap :: TokenMap where
  "sampleMetaMap = \<lparr>Label = ''m'', mapNames = [(0x11, ''meta_data''), (0x10, ''version'')]\<rparr>"


text \<open>A token map that parses holds each identifier once, and every name in it is non-empty, at
  most 256 bytes long and within the documented character set; a text that does not parse is
  refused as a token-map or size problem.\<close>

theorem parsed_map_valid:
  "(case ParseTokenMap label raw of
      Inr m \<Rightarrow> Label m = label \<and> mapNames m \<noteq> [] \<and> distinct (map fst (mapNames m))
        \<and> (\<forall>name \<in> snd ` set (mapNames m). name \<noteq> [] \<and> int (length name) \<le> 256
             \<and> set name \<subseteq> set tokenMapNameCharset)
    | Inl e \<Rightarrow> KindOf e = Some ErrTokenMap \<or> KindOf e = Some ErrTooLarge)"
proof (cases "parseTokenLines 1 [] (splitOn (CHR 0x0A) raw)")
  case (Inl e)
  then show ?thesis by (auto simp: ParseTokenMap_def dest: parseTokenLines_error)
next
  case (Inr names)
  from parseTokenLines_valid [OF Inr] have "validMapEntries names" by (simp add: validMapEntries_def)
  then show ?thesis
    using Inr by (cases "names = []")
      (auto simp: ParseTokenMap_def validMapEntries_def tokenMapMinEntries_def tokenMapMaxNameLen_def)
qed

theorem parsed_map_valid_witness:
  "case ParseTokenMap ''m'' ''0x10 version'' of
      Inr m \<Rightarrow> distinct (map fst (mapNames m)) \<and> mapNames m = [(0x10, ''version'')]
    | Inl e \<Rightarrow> False"
proof -
  have "case ParseTokenMap ''m'' ''0x10 version'' of Inr m \<Rightarrow> mapNames m = [(0x10, ''version'')] | Inl e \<Rightarrow> False"
    by code_simp
  then show ?thesis
    using parsed_map_valid [of "''m''" "''0x10 version''"] by (auto split: sum.splits)
qed

end
