(* ===== verification/Envelope.thy ===== *)
theory Envelope
  imports Decoders TextToken GoStd
begin

text \<open>
  \<^verbatim>\<open>internal/savefile/envelope.go\<close>: the header line of a save, the six layouts, where the two sections of a
  save lie in the file, and how they are read. Offsets and lengths are \<^verbatim>\<open>int64\<close> and \<^verbatim>\<open>int\<close> in the
  code and \<open>int\<close> here; the one sum that is checked for overflow is kept at its width.

  \<^item> An \<^verbatim>\<open>io.ReaderAt\<close> is a function from an offset and a count to an error or the bytes read, fewer than
    the count when the source ends or fails on the way. Nothing is assumed of it.
  \<^item> \<^verbatim>\<open>archive/zip\<close> is the argument \<open>newZip\<close> of the operations that use it: from the section of the file that
    holds the archive to an error or the entries in the order of the central directory. An opened entry
    is the stream of \<open>Decoders\<close>.
\<close>

section \<open>Sources\<close>

record Reader =
  ReaderAt :: "int \<Rightarrow> int \<Rightarrow> string + bytes"
  ReaderSize :: int

text \<open>\<^verbatim>\<open>bytes.Reader.ReadAt\<close>, and a save held in memory.\<close>

definition memoryAt :: "bytes \<Rightarrow> int \<Rightarrow> int \<Rightarrow> string + bytes" where
  "memoryAt data offset n =
     (if offset < 0 then Inl ''bytes.Reader.ReadAt: negative offset''
      else if offset \<ge> int (length data) then Inl ''EOF''
      else Inr (take (nat n) (drop (nat offset) data)))"

definition Bytes :: "bytes \<Rightarrow> Reader" where
  "Bytes data = \<lparr>ReaderAt = memoryAt data, ReaderSize = int (length data)\<rparr>"

text \<open>\<^verbatim>\<open>io.NewSectionReader\<close>: the source behind an offset, cut at a length.\<close>

definition NewSectionReader :: "Reader \<Rightarrow> int \<Rightarrow> int \<Rightarrow> Reader" where
  "NewSectionReader r start n =
     \<lparr>ReaderAt = (\<lambda>offset k. if offset < 0 \<or> offset \<ge> n then Inl ''EOF''
                             else ReaderAt r (start + offset) (min k (n - offset))),
      ReaderSize = n\<rparr>"

text \<open>\<^verbatim>\<open>io.ReadFull\<close> into a buffer of \<open>n\<close> bytes, from the start of a section: an empty buffer asks for
  nothing.\<close>

definition readFull :: "Reader \<Rightarrow> int \<Rightarrow> string + bytes" where
  "readFull r n =
     (if n = 0 then Inr []
      else case ReaderAt r 0 n of
        Inl m \<Rightarrow> Inl m
      | Inr b \<Rightarrow> if int (length b) = n then Inr b else Inl ''unexpected EOF'')"

definition readBytes :: "Reader \<Rightarrow> int \<Rightarrow> int \<Rightarrow> SaveError + bytes" where
  "readBytes r offset n =
     (if n < 0 \<or> offset < 0 \<or> offset > ReaderSize r \<or> n > ReaderSize r - offset
      then Inl (newError ErrBounds ''a read extends past the end of the save'')
      else case readFull (NewSectionReader r offset n) n of
        Inl m \<Rightarrow> Inl (wrapError ErrBounds ''the save could not be read'' m)
      | Inr b \<Rightarrow> Inr b)"

definition peekBytes :: "Reader \<Rightarrow> int \<Rightarrow> int \<Rightarrow> SaveError + bytes" where
  "peekBytes r offset n =
     (if offset < 0 \<or> offset > ReaderSize r
      then Inl (newError ErrBounds ''a read starts past the end of the save'')
      else
        let available = ReaderSize r - offset in
        readBytes r offset (if n > available then available else n))"

section \<open>The header line\<close>

record Header =
  Version :: "16 word"
  KindCode :: "16 word"
  HeaderBytes :: int
  DeclaredMetadataBytes :: "64 word"

definition maxHeaderBytes :: nat where "maxHeaderBytes = 33"

definition zipLocalSignature :: bytes where
  "zipLocalSignature = [CHR ''P'', CHR ''K'', CHR 0x03, CHR 0x04]"

text \<open>\<^verbatim>\<open>data[i:j]\<close>.\<close>

definition slice :: "bytes \<Rightarrow> nat \<Rightarrow> nat \<Rightarrow> bytes" where
  "slice data i j = take (j - i) (drop i data)"

definition ParseHeader :: "bytes \<Rightarrow> SaveError + Header" where
  "ParseHeader data =
     (if length data < 24 then Inl (newError ErrHeader ''the file is shorter than a save header'')
      else if \<not> hasPrefix data ''SAV''
      then Inl (newError ErrHeader ''the file does not begin with a SAV magic'')
      else case parseUint 16 16 (slice data 3 5) of
        None \<Rightarrow> Inl (newError ErrHeader ''the header version is not hexadecimal'')
      | Some version \<Rightarrow> (case parseUint 16 16 (slice data 5 7) of
        None \<Rightarrow> Inl (newError ErrHeader ''the header kind is not hexadecimal'')
      | Some kind \<Rightarrow> (case parseUint 16 64 (slice data 15 23) of
        None \<Rightarrow> Inl (newError ErrHeader ''the declared metadata length is not hexadecimal'')
      | Some metadataLen \<Rightarrow>
          let limit = min (length data) maxHeaderBytes in
          (case indexByte (take limit data) (CHR 0x0A) of
             None \<Rightarrow> Inl (newError ErrHeader ''the header line is not terminated'')
           | Some newline \<Rightarrow>
               let paddingEnd =
                 (if newline > 0 \<and> data ! (newline - 1) = CHR 0x0D then newline - 1 else newline) in
               if paddingEnd \<noteq> 23 \<and> paddingEnd \<noteq> 31
               then Inl (newError ErrHeader ''the header line has an unsupported width'')
               else Inr \<lparr>Version = word_of_nat version, KindCode = word_of_nat kind,
                         HeaderBytes = int newline + 1,
                         DeclaredMetadataBytes = word_of_nat metadataLen\<rparr>))))"

section \<open>Layouts\<close>

datatype Layout =
    LayoutTextUncompressed
  | LayoutBinaryUncompressed
  | LayoutUnifiedTextZip
  | LayoutUnifiedBinaryZip
  | LayoutSplitTextZip
  | LayoutSplitBinaryZip

record Envelope =
  EnvHeader :: Header
  EnvLayout :: Layout
  EnvEncoding :: Encoding
  metadataStart :: int
  metadataEnd :: int
  archiveStart :: int
  hasArchive :: bool

definition layoutOf :: "16 word \<Rightarrow> (Layout \<times> Encoding) option" where
  "layoutOf kind =
     (if kind = 0 then Some (LayoutTextUncompressed, EncodingText)
      else if kind = 1 then Some (LayoutBinaryUncompressed, EncodingBinary)
      else if kind = 2 then Some (LayoutUnifiedTextZip, EncodingText)
      else if kind = 3 then Some (LayoutUnifiedBinaryZip, EncodingBinary)
      else if kind = 4 then Some (LayoutSplitTextZip, EncodingText)
      else if kind = 5 then Some (LayoutSplitBinaryZip, EncodingBinary)
      else None)"

definition isSplit :: "Layout \<Rightarrow> bool" where
  "isSplit layout \<longleftrightarrow> layout = LayoutSplitBinaryZip \<or> layout = LayoutSplitTextZip"

definition isUnified :: "Layout \<Rightarrow> bool" where
  "isUnified layout \<longleftrightarrow> layout = LayoutUnifiedBinaryZip \<or> layout = LayoutUnifiedTextZip"

definition isUncompressed :: "Layout \<Rightarrow> bool" where
  "isUncompressed layout \<longleftrightarrow> layout = LayoutBinaryUncompressed \<or> layout = LayoutTextUncompressed"

text \<open>The declared length is compared unsigned, the sum wraps as an \<^verbatim>\<open>int64\<close>.\<close>

definition inlineMetadataEnd :: "Reader \<Rightarrow> Header \<Rightarrow> SaveError + int" where
  "inlineMetadataEnd src header =
     (if DeclaredMetadataBytes header > word_of_int (ReaderSize src)
      then Inl (newError ErrBounds ''the declared metadata extends beyond the save'')
      else
        let stop = sint ((word_of_int (HeaderBytes header) :: 64 word) + DeclaredMetadataBytes header) in
        if stop < HeaderBytes header \<or> stop > ReaderSize src
        then Inl (newError ErrBounds ''the declared metadata extends beyond the save'')
        else Inr stop)"

text \<open>\<^verbatim>\<open>Analyze\<close>, split where the code branches on a split layout.\<close>

definition analyzeSplit :: "Reader \<Rightarrow> Header \<Rightarrow> Envelope \<Rightarrow> SaveError + Envelope" where
  "analyzeSplit src header envelope =
     (if DeclaredMetadataBytes header \<noteq> 0
      then Inl (newError ErrContainerMismatch
        ''a split save declares inline metadata, but its metadata belongs to the archive'')
      else case peekBytes src (HeaderBytes header) (int (length zipLocalSignature)) of
        Inl e \<Rightarrow> Inl e
      | Inr archive \<Rightarrow>
          if archive \<noteq> zipLocalSignature
          then Inl (newError ErrContainerMismatch
            ''a split save has no archive immediately after its header'')
          else Inr (envelope\<lparr>archiveStart := HeaderBytes header, hasArchive := True\<rparr>))"

definition analyzeInline :: "Reader \<Rightarrow> Header \<Rightarrow> Envelope \<Rightarrow> SaveError + Envelope" where
  "analyzeInline src header envelope =
     (case inlineMetadataEnd src header of
        Inl e \<Rightarrow> Inl e
      | Inr stop \<Rightarrow>
          let envelope = envelope\<lparr>metadataStart := HeaderBytes header, metadataEnd := stop\<rparr> in
          (case peekBytes src stop (int (length zipLocalSignature)) of
             Inl e \<Rightarrow> Inl e
           | Inr following \<Rightarrow>
               let followedByArchive = (following = zipLocalSignature) in
               if isUnified (EnvLayout envelope) then
                 if \<not> followedByArchive
                 then Inl (newError ErrContainerMismatch
                   ''a unified save has no archive immediately after its inline metadata'')
                 else Inr (envelope\<lparr>archiveStart := stop, hasArchive := True\<rparr>)
               else if followedByArchive
               then Inl (newError ErrContainerMismatch
                 ''an uncompressed save has an archive where its inline gamestate should start'')
               else if stop = ReaderSize src
               then Inl (newError ErrBounds
                 ''the declared metadata consumes the whole save, leaving no gamestate'')
               else Inr envelope))"

definition Analyze :: "Reader \<Rightarrow> Limits \<Rightarrow> SaveError + Envelope" where
  "Analyze src limits =
     (if ReaderSize src > MaxFileBytes limits
      then Inl (newError ErrTooLarge ''the save exceeds the configured file size limit'')
      else case peekBytes src 0 (int maxHeaderBytes) of
        Inl e \<Rightarrow> Inl e
      | Inr front \<Rightarrow> (case ParseHeader front of
        Inl e \<Rightarrow> Inl e
      | Inr header \<Rightarrow> (case layoutOf (KindCode header) of
        None \<Rightarrow> Inl (newErrorf ErrUnsupportedLayout
          [Lit ''unsupported save header kind 0x'', Num (uint (KindCode header))])
      | Some (layout, encoding) \<Rightarrow>
          if HeaderBytes header > ReaderSize src
          then Inl (newError ErrBounds ''the save is shorter than its declared header'')
          else
            let envelope = \<lparr>EnvHeader = header, EnvLayout = layout, EnvEncoding = encoding,
                            metadataStart = 0, metadataEnd = 0, archiveStart = 0, hasArchive = False\<rparr> in
            if isSplit layout then analyzeSplit src header envelope
            else analyzeInline src header envelope)))"

section \<open>The embedded archive\<close>

record zipFile =
  ZfName :: bytes
  ZfUncompressedSize64 :: "64 word"
  ZfOpen :: "string + readEvent list"

type_synonym zipOpener = "Reader \<Rightarrow> string + zipFile list"

definition openArchive :: "zipOpener \<Rightarrow> Envelope \<Rightarrow> Reader \<Rightarrow> SaveError + zipFile list" where
  "openArchive newZip e src =
     (if \<not> hasArchive e then Inl (newError ErrArchive ''this layout has no embedded archive'')
      else case newZip (NewSectionReader src (archiveStart e) (ReaderSize src - archiveStart e)) of
        Inl m \<Rightarrow> Inl (wrapError ErrArchive ''the embedded archive could not be opened'' m)
      | Inr entries \<Rightarrow> Inr entries)"

definition ArchiveEntryNames :: "zipOpener \<Rightarrow> Envelope \<Rightarrow> Reader \<Rightarrow> SaveError + bytes list" where
  "ArchiveEntryNames newZip e src =
     (if \<not> hasArchive e then Inr []
      else case openArchive newZip e src of
        Inl err \<Rightarrow> Inl err
      | Inr entries \<Rightarrow> Inr (map ZfName entries))"

text \<open>
  \<^verbatim>\<open>io.ReadAll\<close> of \<^verbatim>\<open>io.LimitReader\<close>: at most \<open>k\<close> bytes; a failure counts when it is met before the limit,
  or with the byte that reaches it. How the reads cut the data does not matter.
\<close>

fun readAllLimited :: "int \<Rightarrow> readEvent list \<Rightarrow> string + bytes" where
  "readAllLimited k [] = Inr []"
| "readAllLimited k (RData b # es) =
     (if k \<le> 0 then Inr []
      else if int (length b) > k then Inr (take (nat k) b)
      else case readAllLimited (k - int (length b)) es of
        Inl m \<Rightarrow> Inl m
      | Inr rest \<Rightarrow> Inr (b @ rest))"
| "readAllLimited k (RDataEOF b # es) = Inr (if k \<le> 0 then [] else take (nat k) b)"
| "readAllLimited k (RFail b m # es) =
     (if k \<le> 0 then Inr [] else if int (length b) > k then Inr (take (nat k) b) else Inl m)"

definition quotedEntry :: "bytes \<Rightarrow> SaveError" where
  "quotedEntry name = newErrorf ErrArchive [Lit ''the archive has no '', Quoted name, Lit '' entry'']"

definition archiveEntry :: "zipOpener \<Rightarrow> Envelope \<Rightarrow> Reader \<Rightarrow> bytes \<Rightarrow> Limits \<Rightarrow> SaveError + bytes" where
  "archiveEntry newZip e src name limits =
     (case openArchive newZip e src of
        Inl err \<Rightarrow> Inl err
      | Inr entries \<Rightarrow> (case find (\<lambda>f. ZfName f = name) entries of
        None \<Rightarrow> Inl (quotedEntry name)
      | Some f \<Rightarrow>
          if ZfUncompressedSize64 f > word_of_int (MaxSectionBytes limits)
          then Inl (newError ErrTooLarge ''an archive entry exceeds the configured section limit'')
          else (case ZfOpen f of
            Inl m \<Rightarrow> Inl (wrapError ErrArchive ''an archive entry could not be opened'' m)
          | Inr handle \<Rightarrow> (case readAllLimited (MaxSectionBytes limits + 1) handle of
            Inl m \<Rightarrow> Inl (wrapError ErrArchive ''an archive entry could not be read'' m)
          | Inr payload \<Rightarrow>
              if int (length payload) > MaxSectionBytes limits
              then Inl (newError ErrTooLarge ''an archive entry exceeds the configured section limit'')
              else if word_of_nat (length payload) \<noteq> ZfUncompressedSize64 f
              then Inl (newError ErrArchive ''an archive entry is not the size it declares'')
              else Inr payload))))"

text \<open>What \<^verbatim>\<open>GamestateReader\<close> hands out: a section of the file, or an opened entry.\<close>

datatype gamestateSource =
    InlineSection Reader
  | ArchiveHandle "readEvent list"

definition archiveEntryReader ::
  "zipOpener \<Rightarrow> Envelope \<Rightarrow> Reader \<Rightarrow> bytes \<Rightarrow> Limits \<Rightarrow> SaveError + gamestateSource" where
  "archiveEntryReader newZip e src name limits =
     (case openArchive newZip e src of
        Inl err \<Rightarrow> Inl err
      | Inr entries \<Rightarrow> (case find (\<lambda>f. ZfName f = name) entries of
        None \<Rightarrow> Inl (quotedEntry name)
      | Some f \<Rightarrow>
          if ZfUncompressedSize64 f > word_of_int (gamestateCeiling limits)
          then Inl (newError ErrTooLarge ''the gamestate exceeds the configured limit'')
          else (case ZfOpen f of
            Inl m \<Rightarrow> Inl (wrapError ErrArchive ''the gamestate entry could not be opened'' m)
          | Inr handle \<Rightarrow> Inr (ArchiveHandle handle))))"

definition metaEntry :: bytes where "metaEntry = ''meta''"
definition gamestateEntry :: bytes where "gamestateEntry = ''gamestate''"

section \<open>The two sections\<close>

definition MetadataSection :: "zipOpener \<Rightarrow> Envelope \<Rightarrow> Reader \<Rightarrow> Limits \<Rightarrow> SaveError + bytes" where
  "MetadataSection newZip e src limits =
     (if \<not> isSplit (EnvLayout e) then
        let n = metadataEnd e - metadataStart e in
        if n > MaxSectionBytes limits
        then Inl (newError ErrTooLarge ''the metadata exceeds the configured section limit'')
        else readBytes src (metadataStart e) n
      else archiveEntry newZip e src metaEntry limits)"

definition GamestateReader :: "zipOpener \<Rightarrow> Envelope \<Rightarrow> Reader \<Rightarrow> Limits \<Rightarrow> SaveError + gamestateSource" where
  "GamestateReader newZip e src limits =
     (if isUncompressed (EnvLayout e) then
        let n = ReaderSize src - metadataEnd e in
        if n \<le> 0 then Inl (newError ErrBounds ''the save has no inline gamestate'')
        else if n > gamestateCeiling limits
        then Inl (newError ErrTooLarge ''the gamestate exceeds the configured limit'')
        else Inr (InlineSection (NewSectionReader src (metadataEnd e) n))
      else archiveEntryReader newZip e src gamestateEntry limits)"

end
