(* ===== verification/EnvelopeFacts.thy ===== *)
theory EnvelopeFacts
  imports Envelope DecoderFacts
begin

text \<open>
  What \<open>Envelope\<close> promises. A source that reads as some bytes is described by \<open>readsAs\<close>; sections of such a
  source read as the slices. A header line is written by \<open>headerLine\<close>, and \<open>containerOk\<close> says what each of
  the six layouts has behind its header. \<open>sections_read_back\<close>: the two sections of a save so written are
  found and read back. \<open>sections_inside\<close>: whatever the bytes and however the source answers, what \<open>Analyze\<close>
  accepts lies inside the file.
\<close>

section \<open>Sources that read as given bytes\<close>

definition readsAs :: "Reader \<Rightarrow> bytes \<Rightarrow> bool" where
  "readsAs r data \<longleftrightarrow> ReaderSize r = int (length data)
     \<and> (\<forall>i n. 0 < n \<longrightarrow> i + n \<le> length data \<longrightarrow> ReaderAt r (int i) (int n) = Inr (take n (drop i data)))"

lemma readsAs_size: "readsAs r data \<Longrightarrow> ReaderSize r = int (length data)"
  by (simp add: readsAs_def)

lemma readsAs_at:
  "readsAs r data \<Longrightarrow> 0 < n \<Longrightarrow> i + n \<le> length data
    \<Longrightarrow> ReaderAt r (int i) (int n) = Inr (take n (drop i data))"
  by (simp add: readsAs_def)

lemma readsAs_Bytes [simp]: "readsAs (Bytes data) data"
  by (simp add: readsAs_def Bytes_def memoryAt_def)

lemma readsAs_section:
  assumes "readsAs r data" and "i + n \<le> length data"
  shows "readsAs (NewSectionReader r (int i) (int n)) (take n (drop i data))"
proof -
  have "ReaderAt (NewSectionReader r (int i) (int n)) (int j) (int k) = Inr (take k (drop j (take n (drop i data))))"
    if "0 < k" and "j + k \<le> n" for j k
  proof -
    have "ReaderAt r (int (i + j)) (int k) = Inr (take k (drop (i + j) data))"
      using assms that by (intro readsAs_at) auto
    moreover have "take k (drop j (take n (drop i data))) = take k (drop (i + j) data)"
      using that by (simp add: drop_take min_def add.commute)
    ultimately show ?thesis
      using that by (simp add: NewSectionReader_def min_def of_nat_diff)
  qed
  then show ?thesis
    using assms by (simp add: readsAs_def NewSectionReader_def)
qed

lemma readFull_all: "readsAs r data \<Longrightarrow> readFull r (int (length data)) = Inr data"
  using readsAs_at [of r data "length data" 0] by (cases data) (auto simp: readFull_def)

lemma readBytes_reads:
  assumes "readsAs r data" and "i + n \<le> length data"
  shows "readBytes r (int i) (int n) = Inr (take n (drop i data))"
proof -
  have "length (take n (drop i data)) = n" using assms by simp
  then have "readFull (NewSectionReader r (int i) (int n)) (int n) = Inr (take n (drop i data))"
    using readFull_all [OF readsAs_section [OF assms]] by metis
  then show ?thesis
    using assms by (simp add: readBytes_def readsAs_size)
qed

lemma peekBytes_reads:
  assumes "readsAs r data" and "i \<le> length data"
  shows "peekBytes r (int i) (int n) = Inr (take n (drop i data))"
proof (cases "n \<le> length data - i")
  case True
  with assms have "\<not> int n > int (length data) - int i" by linarith
  then show ?thesis
    using assms True readBytes_reads [OF assms(1), of i n] by (simp add: peekBytes_def readsAs_size Let_def)
next
  case False
  with assms have "int n > int (length data) - int i" by linarith
  moreover from False have "take n (drop i data) = take (length data - i) (drop i data)" by simp
  ultimately show ?thesis
    using assms False readBytes_reads [OF assms(1), of i "length data - i"]
    by (simp add: peekBytes_def readsAs_size Let_def of_nat_diff)
qed

lemma readBytes_length: "readBytes r i n = Inr b \<Longrightarrow> int (length b) = n"
  by (auto simp: readBytes_def readFull_def split: if_splits sum.splits)

section \<open>A written header line\<close>

definition hexDigit :: "nat \<Rightarrow> char" where
  "hexDigit d = (if d < 10 then char_of (48 + d) else char_of (87 + d))"

fun hexText :: "nat \<Rightarrow> nat \<Rightarrow> bytes" where
  "hexText 0 n = []"
| "hexText (Suc w) n = hexText w (n div 16) @ [hexDigit (n mod 16)]"

definition headerLine :: "nat \<Rightarrow> nat \<Rightarrow> bytes \<Rightarrow> nat \<Rightarrow> bytes \<Rightarrow> bool \<Rightarrow> bytes" where
  "headerLine version kind salt declared pad crlf =
     ''SAV'' @ hexText 2 version @ hexText 2 kind @ salt @ hexText 8 declared @ pad
     @ (if crlf then [CHR 0x0D] else []) @ [CHR 0x0A]"

text \<open>The fields fit their columns, no column holds a newline, and no padding ends in a carriage
  return that would be read as part of the line end.\<close>

definition lineOk :: "nat \<Rightarrow> nat \<Rightarrow> bytes \<Rightarrow> nat \<Rightarrow> bytes \<Rightarrow> bool \<Rightarrow> bool" where
  "lineOk version kind salt declared pad crlf \<longleftrightarrow>
     version < 16 ^ 2 \<and> kind < 16 ^ 2 \<and> declared < 16 ^ 8 \<and> length salt = 8
     \<and> (pad = [] \<or> length pad = 8 \<and> (\<not> crlf \<longrightarrow> last pad \<noteq> CHR 0x0D))
     \<and> CHR 0x0A \<notin> set salt \<and> CHR 0x0A \<notin> set pad"

lemma length_hexText [simp]: "length (hexText w n) = w"
  by (induction w arbitrary: n) auto

lemma digitValue_hexDigit: "d < 16 \<Longrightarrow> digitValue (hexDigit d) = Some d"
  by (auto simp: digitValue_def hexDigit_def byteOf_def Let_def)

lemma hexDigit_not_newline: "d < 16 \<Longrightarrow> hexDigit d \<noteq> CHR 0x0A \<and> hexDigit d \<noteq> CHR 0x0D"
proof
  assume "d < 16"
  then show "hexDigit d \<noteq> CHR 0x0A" using digitValue_hexDigit [of d] by (auto simp: digitValue_def byteOf_def)
next
  assume "d < 16"
  then show "hexDigit d \<noteq> CHR 0x0D" using digitValue_hexDigit [of d] by (auto simp: digitValue_def byteOf_def)
qed

lemma hexText_clean: "c \<in> set (hexText w n) \<Longrightarrow> c \<noteq> CHR 0x0A \<and> c \<noteq> CHR 0x0D"
  by (induction w arbitrary: n) (auto simp: hexDigit_not_newline)

lemma parseDigits_hexText: "n < 16 ^ w \<Longrightarrow> parseDigits 16 acc (hexText w n) = Some (acc * 16 ^ w + n)"
proof (induction w arbitrary: n)
  case (Suc w)
  have "n div 16 < 16 ^ w" using Suc.prems by (simp add: less_mult_imp_div_less mult.commute)
  then have "parseDigits 16 acc (hexText w (n div 16)) = Some (acc * 16 ^ w + n div 16)"
    by (rule Suc.IH)
  then show ?case
    by (simp add: parseDigits_append digitValue_hexDigit algebra_simps)
qed simp

lemma parseUint_hexText: "0 < w \<Longrightarrow> n < 16 ^ w \<Longrightarrow> int n < 2 ^ bits \<Longrightarrow> parseUint 16 bits (hexText w n) = Some n"
  using length_hexText [of w n] by (cases "hexText w n = []") (simp_all add: parseUint_def parseDigits_hexText)

lemma slice_mid: "length p = i \<Longrightarrow> length q = j - i \<Longrightarrow> slice (p @ q @ r) i j = q"
  by (simp add: slice_def)

section \<open>Reading the header line\<close>

lemma headerLine_split:
  "headerLine version kind salt declared pad crlf =
     (''SAV'' @ hexText 2 version @ hexText 2 kind @ salt @ hexText 8 declared @ pad
        @ (if crlf then [CHR 0x0D] else [])) @ [CHR 0x0A]"
  by (simp add: headerLine_def)

lemma length_headerLine:
  "lineOk version kind salt declared pad crlf \<Longrightarrow>
     length (headerLine version kind salt declared pad crlf) = 24 + length pad + (if crlf then 1 else 0)"
  by (auto simp: lineOk_def headerLine_def)

lemma headerLine_width:
  "lineOk version kind salt declared pad crlf \<Longrightarrow>
     24 \<le> length (headerLine version kind salt declared pad crlf)
     \<and> length (headerLine version kind salt declared pad crlf) \<le> maxHeaderBytes"
  by (subst length_headerLine) (auto simp: lineOk_def length_headerLine maxHeaderBytes_def)

lemma ParseHeader_headerLine:
  assumes ok: "lineOk version kind salt declared pad crlf"
  defines "line \<equiv> headerLine version kind salt declared pad crlf"
  shows "ParseHeader (take maxHeaderBytes (line @ behind)) =
    Inr \<lparr>Version = word_of_nat version, KindCode = word_of_nat kind,
         HeaderBytes = int (length line), DeclaredMetadataBytes = word_of_nat declared\<rparr>"
proof -
  define body where "body = ''SAV'' @ hexText 2 version @ hexText 2 kind @ salt @ hexText 8 declared @ pad
        @ (if crlf then [CHR 0x0D] else [])"
  define front where "front = take maxHeaderBytes (line @ behind)"
  have line: "line = body @ [CHR 0x0A]" by (simp add: line_def body_def headerLine_split)
  have w: "24 \<le> length line" "length line \<le> maxHeaderBytes"
    using headerLine_width [OF ok] by (simp_all add: line_def)
  then have "front = line @ take (maxHeaderBytes - length line) behind" by (simp add: front_def)
  then obtain others where front: "front = body @ CHR 0x0A # others" using line by simp
  have salt: "length salt = 8" and v: "version < 16 ^ 2" and k: "kind < 16 ^ 2" and d: "declared < 16 ^ 8"
    and nl: "CHR 0x0A \<notin> set salt" "CHR 0x0A \<notin> set pad"
    using ok by (simp_all add: lineOk_def)
  have len: "length body = 23 + length pad + (if crlf then 1 else 0)"
    using salt by (simp add: body_def)
  have clean: "CHR 0x0A \<notin> set body"
    using nl hexText_clean by (auto simp: body_def)
  have s1: "slice front 3 5 = hexText 2 version"
    using slice_mid [of "''SAV''" 3 "hexText 2 version" 5] by (simp add: front body_def)
  have s2: "slice front 5 7 = hexText 2 kind"
    using slice_mid [of "''SAV'' @ hexText 2 version" 5 "hexText 2 kind" 7] by (simp add: front body_def)
  have s3: "slice front 15 23 = hexText 8 declared"
    using slice_mid [of "''SAV'' @ hexText 2 version @ hexText 2 kind @ salt" 15 "hexText 8 declared" 23] salt
    by (simp add: front body_def)
  have pre: "hasPrefix front ''SAV''" by (simp add: front body_def hasPrefix_def)
  have lf: "length front \<le> maxHeaderBytes" by (simp add: front_def)
  then have idx: "indexByte (take (min (length front) maxHeaderBytes) front) (CHR 0x0A) = Some (length body)"
    using indexByte_append [OF clean] by (simp add: front min_def)
  have "body \<noteq> []" using len by auto
  then have "front ! (length body - 1) = last body"
    by (simp add: front nth_append last_conv_nth)
  moreover have "last body = (if crlf then CHR 0x0D else if pad = [] then last (hexText 8 declared) else last pad)"
    using last_appendR [of "hexText 8 declared"] length_hexText [of 8 declared]
    by (cases "hexText 8 declared") (auto simp: body_def last_append)
  moreover have "last (hexText 8 declared) \<noteq> CHR 0x0D"
    using hexText_clean [of _ 8 declared] length_hexText [of 8 declared]
    by (metis last_in_set length_0_conv zero_neq_numeral)
  ultimately have "front ! (length body - 1) = CHR 0x0D \<longleftrightarrow> crlf"
    using ok by (auto simp: lineOk_def)
  then have pe: "(if length body > 0 \<and> front ! (length body - 1) = CHR 0x0D then length body - 1 else length body)
      = 23 + length pad"
    using len by auto
  have "pad = [] \<or> length pad = 8" using ok by (auto simp: lineOk_def)
  moreover have "\<not> length front < 24" using w line by (simp add: front)
  moreover have "parseUint 16 16 (hexText 2 version) = Some version"
    using v by (intro parseUint_hexText) auto
  moreover have "parseUint 16 16 (hexText 2 kind) = Some kind"
    using k by (intro parseUint_hexText) auto
  moreover have "parseUint 16 64 (hexText 8 declared) = Some declared"
    using d by (intro parseUint_hexText) auto
  ultimately show ?thesis
    using pe line
    by (fold front_def) (auto simp: ParseHeader_def pre s1 s2 s3 idx Let_def)
qed

section \<open>What a save has behind its header\<close>

text \<open>\<^verbatim>\<open>archive/zip\<close> opens every source that reads as these bytes with these entries.\<close>

definition archiveHas :: "zipOpener \<Rightarrow> bytes \<Rightarrow> zipFile list \<Rightarrow> bool" where
  "archiveHas newZip archive entries \<longleftrightarrow> (\<forall>r. readsAs r archive \<longrightarrow> newZip r = Inr entries)"

text \<open>The first entry of a name opens, delivers the content, declares its size and is within a limit.\<close>

definition entryHolds :: "zipFile list \<Rightarrow> bytes \<Rightarrow> bytes \<Rightarrow> int \<Rightarrow> bool" where
  "entryHolds entries name content limit =
     (case find (\<lambda>f. ZfName f = name) entries of
        None \<Rightarrow> False
      | Some f \<Rightarrow> (case ZfOpen f of
          Inl m \<Rightarrow> False
        | Inr handle \<Rightarrow> healthy handle \<and> readerBytes handle = content
            \<and> ZfUncompressedSize64 f = word_of_nat (length content) \<and> int (length content) \<le> limit))"

definition containerOk ::
  "zipOpener \<Rightarrow> Limits \<Rightarrow> nat \<Rightarrow> bytes \<Rightarrow> bytes \<Rightarrow> bytes \<Rightarrow> zipFile list \<Rightarrow> bool" where
  "containerOk newZip limits kind meta game rest entries \<longleftrightarrow>
     (if kind \<le> 1
      then rest = game \<and> game \<noteq> [] \<and> take 4 game \<noteq> zipLocalSignature
        \<and> int (length game) \<le> gamestateCeiling limits
      else take 4 rest = zipLocalSignature \<and> archiveHas newZip rest entries
        \<and> entryHolds entries gamestateEntry game (gamestateCeiling limits))
     \<and> (if kind \<ge> 4 then entryHolds entries metaEntry meta (MaxSectionBytes limits)
        else int (length meta) \<le> MaxSectionBytes limits)"

text \<open>The bytes of a save: a split save declares no inline metadata and has none.\<close>

definition saveBytes :: "nat \<Rightarrow> nat \<Rightarrow> bytes \<Rightarrow> bytes \<Rightarrow> bool \<Rightarrow> bytes \<Rightarrow> bytes \<Rightarrow> bytes" where
  "saveBytes version kind salt pad crlf meta rest =
     (if kind \<ge> 4 then headerLine version kind salt 0 pad crlf @ rest
      else headerLine version kind salt (length meta) pad crlf @ meta @ rest)"

text \<open>A gamestate source delivers these bytes: an open entry, or a section that reads as them.\<close>

fun delivers :: "gamestateSource \<Rightarrow> bytes \<Rightarrow> bool" where
  "delivers (InlineSection r) game = readsAs r game"
| "delivers (ArchiveHandle handle) game = (healthy handle \<and> readerBytes handle = game)"

section \<open>Both sections are read back\<close>

lemma layoutOf_kind:
  assumes "kind \<le> 5"
  obtains layout encoding where "layoutOf (word_of_nat kind) = Some (layout, encoding)"
    and "isSplit layout \<longleftrightarrow> 4 \<le> kind" and "isUncompressed layout \<longleftrightarrow> kind \<le> 1"
    and "isUnified layout \<longleftrightarrow> kind = 2 \<or> kind = 3" and "encoding = EncodingText \<longleftrightarrow> even kind"
proof -
  have "kind \<in> {0, 1, 2, 3, 4, 5}" using assms by auto
  then show ?thesis
    by (auto intro: that simp: layoutOf_def isSplit_def isUncompressed_def isUnified_def)
qed

lemma readAllLimited_all:
  "healthy handle \<Longrightarrow> int (length (readerBytes handle)) < k \<Longrightarrow> readAllLimited k handle = Inr (readerBytes handle)"
  by (induction k handle rule: readAllLimited.induct) auto

lemma size_fits: "int n \<le> limit \<Longrightarrow> limit < 2 ^ 63 \<Longrightarrow> \<not> (word_of_nat n :: 64 word) > word_of_int limit"
proof -
  assume "int n \<le> limit" and "limit < 2 ^ 63"
  then have "uint (word_of_nat n :: 64 word) = int n" and "uint (word_of_int limit :: 64 word) = limit"
    by (simp_all add: unsigned_of_nat unsigned_of_int take_bit_int_eq_self take_bit_nat_eq_self)
  then show ?thesis using \<open>int n \<le> limit\<close> by (simp add: word_less_def)
qed

lemma archiveEntry_reads:
  assumes "openArchive newZip e src = Inr entries" and "entryHolds entries name content (MaxSectionBytes limits)"
    and "MaxSectionBytes limits < 2 ^ 63"
  shows "archiveEntry newZip e src name limits = Inr content"
proof -
  from assms(2) obtain f handle where f: "find (\<lambda>f. ZfName f = name) entries = Some f" and h: "ZfOpen f = Inr handle"
    and "healthy handle" and content: "readerBytes handle = content"
    and size: "ZfUncompressedSize64 f = word_of_nat (length content)" and le: "int (length content) \<le> MaxSectionBytes limits"
    by (auto simp: entryHolds_def split: option.splits sum.splits)
  then have "readAllLimited (MaxSectionBytes limits + 1) handle = Inr content"
    using readAllLimited_all [of handle "MaxSectionBytes limits + 1"] by simp
  then show ?thesis
    using size_fits [OF le assms(3)] le by (simp add: archiveEntry_def assms(1) f h size)
qed

lemma archiveEntryReader_delivers:
  assumes "openArchive newZip e src = Inr entries" and "entryHolds entries name content (gamestateCeiling limits)"
    and "gamestateCeiling limits < 2 ^ 63"
  shows "\<exists>g. archiveEntryReader newZip e src name limits = Inr g \<and> delivers g content"
proof -
  from assms(2) obtain f handle where f: "find (\<lambda>f. ZfName f = name) entries = Some f" and h: "ZfOpen f = Inr handle"
    and "healthy handle" and content: "readerBytes handle = content"
    and size: "ZfUncompressedSize64 f = word_of_nat (length content)" and le: "int (length content) \<le> gamestateCeiling limits"
    by (auto simp: entryHolds_def split: option.splits sum.splits)
  then show ?thesis
    using size_fits [OF le assms(3)] by (simp add: archiveEntryReader_def assms(1) f h size)
qed

lemma openArchive_opens:
  assumes "readsAs src (front @ archive)" and "archiveHas newZip archive entries"
    and "hasArchive e" and "archiveStart e = int (length front)"
  shows "openArchive newZip e src = Inr entries"
proof -
  have "readsAs (NewSectionReader src (int (length front)) (int (length archive))) archive"
    using readsAs_section [OF assms(1), of "length front" "length archive"] by simp
  then show ?thesis
    using assms by (simp add: openArchive_def archiveHas_def readsAs_size)
qed

lemma inlineMetadataEnd_value:
  assumes "ReaderSize src < 2 ^ 63" and "HeaderBytes header = int h"
    and "DeclaredMetadataBytes header = word_of_nat n" and "int (h + n) \<le> ReaderSize src"
  shows "inlineMetadataEnd src header = Inr (int (h + n))"
proof -
  have "(word_of_int (int h) :: 64 word) + word_of_nat n = word_of_int (int (h + n))"
    by simp
  moreover have "sint (word_of_int (int (h + n)) :: 64 word) = int (h + n)"
    using assms by (simp only: sint_sbintrunc') (simp add: signed_take_bit_int_eq_self)
  ultimately have "sint ((word_of_int (HeaderBytes header) :: 64 word) + DeclaredMetadataBytes header) = int (h + n)"
    using assms(2,3) by simp
  moreover have "\<not> DeclaredMetadataBytes header > word_of_int (ReaderSize src)"
    using size_fits [of n "ReaderSize src"] assms by simp
  ultimately show ?thesis
    using assms by (simp add: inlineMetadataEnd_def)
qed

lemma Analyze_front:
  assumes src: "readsAs src (line @ behind)" and "int (length (line @ behind)) \<le> MaxFileBytes limits"
    and "lineOk version kind salt declared pad crlf"
    and line: "line = headerLine version kind salt declared pad crlf"
    and layout: "layoutOf (word_of_nat kind) = Some (layout, encoding)"
  defines "header \<equiv> \<lparr>Header.Version = word_of_nat version, KindCode = word_of_nat kind,
         HeaderBytes = int (length line), DeclaredMetadataBytes = word_of_nat declared\<rparr>"
  defines "start \<equiv> \<lparr>EnvHeader = header, EnvLayout = layout, EnvEncoding = encoding,
         metadataStart = 0, metadataEnd = 0, archiveStart = 0, hasArchive = False\<rparr>"
  shows "Analyze src limits = (if isSplit layout then analyzeSplit src header start else analyzeInline src header start)"
proof -
  have "peekBytes src 0 (int maxHeaderBytes) = Inr (take maxHeaderBytes (line @ behind))"
    using peekBytes_reads [OF src, of 0 maxHeaderBytes] by simp
  then show ?thesis
    using assms ParseHeader_headerLine [OF assms(3), of behind]
    by (simp add: Analyze_def readsAs_size)
qed

text \<open>The envelope of a written save, split by where its metadata lies.\<close>

lemma Analyze_split_save:
  assumes src: "readsAs src (line @ rest)" and "int (length (line @ rest)) \<le> MaxFileBytes limits"
    and "lineOk version kind salt 0 pad crlf" and line: "line = headerLine version kind salt 0 pad crlf"
    and layout: "layoutOf (word_of_nat kind) = Some (layout, encoding)" and split: "isSplit layout"
    and zip: "take 4 rest = zipLocalSignature"
  obtains env where "Analyze src limits = Inr env" and "EnvLayout env = layout" and "EnvEncoding env = encoding"
    and "hasArchive env" and "archiveStart env = int (length line)"
proof -
  have "peekBytes src (int (length line)) (int (length zipLocalSignature)) = Inr zipLocalSignature"
    using peekBytes_reads [OF src, of "length line" 4] zip by (simp add: zipLocalSignature_def)
  then show ?thesis
    using that Analyze_front [OF assms(1-5)] split by (simp add: analyzeSplit_def)
qed

lemma Analyze_inline_save:
  assumes src: "readsAs src (line @ meta @ rest)" and "int (length (line @ meta @ rest)) \<le> MaxFileBytes limits"
    and fits: "int (length (line @ meta @ rest)) < 2 ^ 63"
    and "lineOk version kind salt (length meta) pad crlf"
    and line: "line = headerLine version kind salt (length meta) pad crlf"
    and layout: "layoutOf (word_of_nat kind) = Some (layout, encoding)" and split: "\<not> isSplit layout"
    and zip: "take 4 rest = zipLocalSignature \<longleftrightarrow> isUnified layout" and "rest \<noteq> []"
  obtains env where "Analyze src limits = Inr env" and "EnvLayout env = layout" and "EnvEncoding env = encoding"
    and "metadataStart env = int (length line)" and "metadataEnd env = int (length (line @ meta))"
    and "isUnified layout \<Longrightarrow> hasArchive env \<and> archiveStart env = int (length (line @ meta))"
proof -
  have "peekBytes src (int (length line + length meta)) (int (length zipLocalSignature)) = Inr (take 4 rest)"
    using peekBytes_reads [OF src, of "length line + length meta" 4] by (simp add: zipLocalSignature_def)
  moreover have "inlineMetadataEnd src
      \<lparr>Header.Version = word_of_nat version, KindCode = word_of_nat kind, HeaderBytes = int (length line),
       DeclaredMetadataBytes = word_of_nat (length meta)\<rparr> = Inr (int (length line + length meta))"
    using src fits by (intro inlineMetadataEnd_value) (simp_all add: readsAs_size)
  moreover have "\<not> isUnified layout \<Longrightarrow> int (length line + length meta) \<noteq> ReaderSize src"
    using src \<open>rest \<noteq> []\<close> by (simp add: readsAs_size)
  ultimately show ?thesis
    using that Analyze_front [OF assms(1,2,4-6)] split zip
    by (cases "isUnified layout") (simp_all add: analyzeInline_def)
qed

lemma inline_metadata_reads:
  assumes "readsAs src (line @ meta @ rest)" and "metadataStart env = int (length line)"
    and "metadataEnd env = int (length (line @ meta))" and "\<not> isSplit (EnvLayout env)"
    and "int (length meta) \<le> MaxSectionBytes limits"
  shows "MetadataSection newZip env src limits = Inr meta"
  using assms readBytes_reads [OF assms(1), of "length line" "length meta"] by (simp add: MetadataSection_def)

lemma inline_gamestate_delivers:
  assumes "readsAs src (front @ game)" and "metadataEnd env = int (length front)" and "game \<noteq> []"
    and "isUncompressed (EnvLayout env)" and "int (length game) \<le> gamestateCeiling limits"
  shows "\<exists>g. GamestateReader newZip env src limits = Inr g \<and> delivers g game"
  using assms readsAs_section [OF assms(1), of "length front" "length game"]
  by (simp add: GamestateReader_def readsAs_size)

definition readsBack :: "zipOpener \<Rightarrow> Limits \<Rightarrow> Reader \<Rightarrow> Layout \<Rightarrow> Encoding \<Rightarrow> bytes \<Rightarrow> bytes \<Rightarrow> bool" where
  "readsBack newZip limits src layout encoding meta game \<longleftrightarrow>
     (\<exists>env. Analyze src limits = Inr env \<and> EnvLayout env = layout \<and> EnvEncoding env = encoding
       \<and> MetadataSection newZip env src limits = Inr meta
       \<and> (\<exists>g. GamestateReader newZip env src limits = Inr g \<and> delivers g game))"

lemma split_reads_back:
  assumes src: "readsAs src (line @ rest)" and "int (length (line @ rest)) \<le> MaxFileBytes limits"
    and "lineOk version kind salt 0 pad crlf" and "line = headerLine version kind salt 0 pad crlf"
    and "layoutOf (word_of_nat kind) = Some (layout, encoding)" and flags: "isSplit layout" "\<not> isUncompressed layout"
    and "take 4 rest = zipLocalSignature" and zip: "archiveHas newZip rest entries"
    and game: "entryHolds entries gamestateEntry game (gamestateCeiling limits)" "gamestateCeiling limits < 2 ^ 63"
    and meta: "entryHolds entries metaEntry meta (MaxSectionBytes limits)" "MaxSectionBytes limits < 2 ^ 63"
  shows "readsBack newZip limits src layout encoding meta game"
proof -
  obtain env where env: "Analyze src limits = Inr env" "EnvLayout env = layout" "EnvEncoding env = encoding"
    "hasArchive env" "archiveStart env = int (length line)"
    using Analyze_split_save [OF assms(1-6) assms(8)] .
  have "openArchive newZip env src = Inr entries"
    using openArchive_opens [OF src zip env(4,5)] .
  then show ?thesis
    using env flags archiveEntry_reads [OF _ meta] archiveEntryReader_delivers [OF _ game]
    by (simp add: readsBack_def MetadataSection_def GamestateReader_def)
qed

lemma unified_reads_back:
  assumes src: "readsAs src (line @ meta @ rest)" and "int (length (line @ meta @ rest)) \<le> MaxFileBytes limits"
    and "int (length (line @ meta @ rest)) < 2 ^ 63"
    and "lineOk version kind salt (length meta) pad crlf"
    and "line = headerLine version kind salt (length meta) pad crlf"
    and "layoutOf (word_of_nat kind) = Some (layout, encoding)"
    and flags: "\<not> isSplit layout" "isUnified layout" "\<not> isUncompressed layout"
    and sig: "take 4 rest = zipLocalSignature" and zip: "archiveHas newZip rest entries"
    and game: "entryHolds entries gamestateEntry game (gamestateCeiling limits)" "gamestateCeiling limits < 2 ^ 63"
    and meta: "int (length meta) \<le> MaxSectionBytes limits"
  shows "readsBack newZip limits src layout encoding meta game"
proof -
  have "rest \<noteq> []" using sig by (auto simp: zipLocalSignature_def)
  then obtain env where env: "Analyze src limits = Inr env" "EnvLayout env = layout" "EnvEncoding env = encoding"
    "metadataStart env = int (length line)" "metadataEnd env = int (length (line @ meta))"
    "hasArchive env" "archiveStart env = int (length (line @ meta))"
    using Analyze_inline_save [OF assms(1-7)] sig flags by metis
  have "openArchive newZip env src = Inr entries"
    using openArchive_opens [OF _ zip env(6,7)] src by simp
  moreover have "MetadataSection newZip env src limits = Inr meta"
    using inline_metadata_reads [OF src env(4,5)] env(2) flags meta by simp
  ultimately show ?thesis
    using env flags archiveEntryReader_delivers [OF _ game] by (simp add: readsBack_def GamestateReader_def)
qed

lemma plain_reads_back:
  assumes src: "readsAs src (line @ meta @ game)" and "int (length (line @ meta @ game)) \<le> MaxFileBytes limits"
    and "int (length (line @ meta @ game)) < 2 ^ 63"
    and "lineOk version kind salt (length meta) pad crlf"
    and "line = headerLine version kind salt (length meta) pad crlf"
    and "layoutOf (word_of_nat kind) = Some (layout, encoding)"
    and flags: "\<not> isSplit layout" "\<not> isUnified layout" "isUncompressed layout"
    and game: "take 4 game \<noteq> zipLocalSignature" "game \<noteq> []" "int (length game) \<le> gamestateCeiling limits"
    and meta: "int (length meta) \<le> MaxSectionBytes limits"
  shows "readsBack newZip limits src layout encoding meta game"
proof -
  obtain env where env: "Analyze src limits = Inr env" "EnvLayout env = layout" "EnvEncoding env = encoding"
    "metadataStart env = int (length line)" "metadataEnd env = int (length (line @ meta))"
    using Analyze_inline_save [OF assms(1-7)] game flags by metis
  have "MetadataSection newZip env src limits = Inr meta"
    using inline_metadata_reads [OF src env(4,5)] env(2) flags meta by simp
  moreover have "readsAs src ((line @ meta) @ game)" using src by simp
  ultimately show ?thesis
    using env flags game inline_gamestate_delivers [of src "line @ meta" game env limits newZip]
    by (simp add: readsBack_def)
qed

text \<open>
  Claim C8. Both sections of a save are found and read back. For every header line in one of the two widths
  and line ends, every layout and every source that reads as the file: \<open>Analyze\<close> accepts, the layout and the
  grammar are those of the header's kind, the metadata section is what was written, and the gamestate reader
  delivers what was written. \<^verbatim>\<open>archive/zip\<close> is assumed to list the entries of the archive that was
  embedded and to deliver their contents.
\<close>

theorem sections_read_back:
  assumes "kind \<le> 5"
    and "lineOk version kind salt (if kind \<ge> 4 then 0 else length meta) pad crlf"
    and "containerOk newZip limits kind meta game rest entries"
    and "readsAs src (saveBytes version kind salt pad crlf meta rest)"
    and "int (length (saveBytes version kind salt pad crlf meta rest)) \<le> MaxFileBytes limits"
    and "MaxFileBytes limits < 2 ^ 63" and "MaxSectionBytes limits < 2 ^ 63" and "gamestateCeiling limits < 2 ^ 63"
  shows "\<exists>env. Analyze src limits = Inr env
    \<and> layoutOf (word_of_nat kind) = Some (EnvLayout env, EnvEncoding env)
    \<and> MetadataSection newZip env src limits = Inr meta
    \<and> (\<exists>g. GamestateReader newZip env src limits = Inr g \<and> delivers g game)"
proof -
  obtain layout encoding where layout: "layoutOf (word_of_nat kind) = Some (layout, encoding)"
    and flags: "isSplit layout \<longleftrightarrow> 4 \<le> kind" "isUncompressed layout \<longleftrightarrow> kind \<le> 1"
      "isUnified layout \<longleftrightarrow> kind = 2 \<or> kind = 3"
    using layoutOf_kind [OF assms(1)] by metis
  have fits: "int (length (saveBytes version kind salt pad crlf meta rest)) < 2 ^ 63" using assms(5,6) by simp
  consider "4 \<le> kind" | "kind = 2 \<or> kind = 3" | "kind \<le> 1" by linarith
  then have "readsBack newZip limits src layout encoding meta game"
  proof cases
    case 1
    then show ?thesis
      using assms flags split_reads_back [OF _ _ _ refl layout]
      by (auto simp: saveBytes_def containerOk_def)
  next
    case 2
    then show ?thesis
      using assms flags fits unified_reads_back [OF _ _ _ _ refl layout]
      by (auto simp: saveBytes_def containerOk_def)
  next
    case 3
    then show ?thesis
      using assms flags fits plain_reads_back [OF _ _ _ _ refl layout]
      by (auto simp: saveBytes_def containerOk_def)
  qed
  then show ?thesis using layout by (auto simp: readsBack_def)
qed

text \<open>
  A split text save with a wide header and a carriage return, and a zip that tells sources apart by their
  bytes.
\<close>

definition sampleArchive :: bytes where
  "sampleArchive = zipLocalSignature @ ''...''"

definition sampleEntries :: "zipFile list" where
  "sampleEntries =
     [\<lparr>ZfName = gamestateEntry, ZfUncompressedSize64 = 3, ZfOpen = Inr [RData ''a='', RDataEOF ''1'']\<rparr>,
      \<lparr>ZfName = metaEntry, ZfUncompressedSize64 = 4, ZfOpen = Inr [RData ''m={}'']\<rparr>]"

definition sampleZip :: zipOpener where
  "sampleZip r = (case readFull r (ReaderSize r) of
     Inl m \<Rightarrow> Inl m
   | Inr b \<Rightarrow> if b = sampleArchive then Inr sampleEntries else Inl ''zip: not a valid zip file'')"

lemma sampleZip_archive: "archiveHas sampleZip sampleArchive sampleEntries"
  by (auto simp: archiveHas_def sampleZip_def readsAs_size readFull_all)

lemma sections_read_back_witness:
  "\<exists>env. Analyze (Bytes (saveBytes 1 4 ''01234567'' ''........'' True ''m={}'' sampleArchive)) DefaultLimits = Inr env
    \<and> layoutOf 4 = Some (EnvLayout env, EnvEncoding env)
    \<and> MetadataSection sampleZip env (Bytes (saveBytes 1 4 ''01234567'' ''........'' True ''m={}'' sampleArchive))
        DefaultLimits = Inr ''m={}''
    \<and> (\<exists>g. GamestateReader sampleZip env (Bytes (saveBytes 1 4 ''01234567'' ''........'' True ''m={}'' sampleArchive))
        DefaultLimits = Inr g \<and> delivers g ''a=1'')"
proof -
  have "containerOk sampleZip DefaultLimits 4 ''m={}'' ''a=1'' sampleArchive sampleEntries"
    using sampleZip_archive
    by (simp add: containerOk_def entryHolds_def sampleEntries_def sampleArchive_def gamestateEntry_def metaEntry_def
        DefaultLimits_def gamestateCeiling_def zipLocalSignature_def)
  then show ?thesis
    using sections_read_back [of 4 1 "''01234567''" "''m={}''" "''........''" True sampleZip DefaultLimits "''a=1''"
        sampleArchive sampleEntries "Bytes (saveBytes 1 4 ''01234567'' ''........'' True ''m={}'' sampleArchive)"]
    by (simp add: lineOk_def saveBytes_def headerLine_def DefaultLimits_def gamestateCeiling_def sampleArchive_def
        zipLocalSignature_def)
qed

section \<open>Everything an accepted save names lies inside the file\<close>

lemma ParseHeader_width: "ParseHeader data = Inr header \<Longrightarrow> 24 \<le> HeaderBytes header \<and> HeaderBytes header \<le> int maxHeaderBytes"
proof -
  assume "ParseHeader data = Inr header"
  then obtain newline where idx: "indexByte (take (min (length data) maxHeaderBytes) data) (CHR 0x0A) = Some newline"
    and "HeaderBytes header = int newline + 1" and "23 \<le> newline"
    by (auto simp: ParseHeader_def Let_def split: if_splits option.splits)
  moreover from idx have "newline < maxHeaderBytes"
    by (auto simp: indexByte_def Let_def split: if_splits)
  ultimately show ?thesis by simp
qed

definition envelopeInside :: "Reader \<Rightarrow> Limits \<Rightarrow> Envelope \<Rightarrow> bool" where
  "envelopeInside src limits env \<longleftrightarrow>
     ReaderSize src \<le> MaxFileBytes limits
     \<and> 24 \<le> HeaderBytes (EnvHeader env) \<and> HeaderBytes (EnvHeader env) \<le> 33
     \<and> layoutOf (KindCode (EnvHeader env)) = Some (EnvLayout env, EnvEncoding env)
     \<and> hasArchive env = (\<not> isUncompressed (EnvLayout env))
     \<and> (isSplit (EnvLayout env) \<longrightarrow>
          archiveStart env = HeaderBytes (EnvHeader env) \<and> archiveStart env \<le> ReaderSize src)
     \<and> (\<not> isSplit (EnvLayout env) \<longrightarrow>
          metadataStart env = HeaderBytes (EnvHeader env)
          \<and> metadataStart env \<le> metadataEnd env \<and> metadataEnd env \<le> ReaderSize src
          \<and> uint (DeclaredMetadataBytes (EnvHeader env)) = metadataEnd env - metadataStart env)
     \<and> (isUnified (EnvLayout env) \<longrightarrow> archiveStart env = metadataEnd env)
     \<and> (isUncompressed (EnvLayout env) \<longrightarrow> metadataEnd env < ReaderSize src)"

lemma inlineMetadataEnd_exact:
  assumes "inlineMetadataEnd src header = Inr stop" and "0 \<le> ReaderSize src" and "ReaderSize src < 2 ^ 63"
    and "0 \<le> HeaderBytes header" and "HeaderBytes header \<le> 33"
  shows "stop = HeaderBytes header + uint (DeclaredMetadataBytes header) \<and> stop \<le> ReaderSize src"
proof -
  let ?d = "uint (DeclaredMetadataBytes header)"
  from assms(1) have le: "DeclaredMetadataBytes header \<le> word_of_int (ReaderSize src)"
    and stop: "stop = sint ((word_of_int (HeaderBytes header) :: 64 word) + DeclaredMetadataBytes header)"
    and "HeaderBytes header \<le> stop" and "stop \<le> ReaderSize src"
    by (auto simp: inlineMetadataEnd_def Let_def split: if_splits)
  have "uint (word_of_int (ReaderSize src) :: 64 word) = ReaderSize src"
    using assms by (simp add: unsigned_of_int take_bit_int_eq_self)
  then have d: "?d \<le> ReaderSize src" using le by (simp add: word_le_def)
  have "(word_of_int (HeaderBytes header) :: 64 word) + DeclaredMetadataBytes header = word_of_int (HeaderBytes header + ?d)"
    by simp
  then have sint: "stop = signed_take_bit 63 (HeaderBytes header + ?d)"
    using stop by (simp only: sint_sbintrunc') simp
  have "HeaderBytes header + ?d < 2 ^ 63"
  proof (rule ccontr)
    assume "\<not> HeaderBytes header + ?d < 2 ^ 63"
    then have "stop \<le> HeaderBytes header + ?d - 2 ^ Suc 63"
      using sint signed_take_bit_int_less_eq [of 63 "HeaderBytes header + ?d"] by simp
    then show False using d assms(3-5) \<open>HeaderBytes header \<le> stop\<close> by simp
  qed
  moreover have "- (2 ^ 63) \<le> HeaderBytes header + ?d"
    using assms(4) by (intro order_trans [OF _ add_nonneg_nonneg]) simp_all
  ultimately have "stop = HeaderBytes header + ?d"
    using sint signed_take_bit_int_eq_self [of 63 "HeaderBytes header + ?d"] by simp
  then show ?thesis using \<open>stop \<le> ReaderSize src\<close> by simp
qed

lemma layout_flags:
  "layoutOf kind = Some (layout, encoding) \<Longrightarrow> (\<not> isUncompressed layout) = (isSplit layout \<or> isUnified layout)
     \<and> \<not> (isSplit layout \<and> isUnified layout)"
  by (auto simp: layoutOf_def isSplit_def isUnified_def isUncompressed_def split: if_splits)

theorem sections_inside:
  assumes "Analyze src limits = Inr env" and "0 \<le> ReaderSize src" and "ReaderSize src < 2 ^ 63"
  shows "envelopeInside src limits env"
proof -
  from assms(1) obtain front header layout encoding start where "ReaderSize src \<le> MaxFileBytes limits"
    and header: "ParseHeader front = Inr header" and layout: "layoutOf (KindCode header) = Some (layout, encoding)"
    and fits: "HeaderBytes header \<le> ReaderSize src"
    and start: "start = \<lparr>EnvHeader = header, EnvLayout = layout, EnvEncoding = encoding,
       metadataStart = 0, metadataEnd = 0, archiveStart = 0, hasArchive = False\<rparr>"
    and env: "(if isSplit layout then analyzeSplit src header start else analyzeInline src header start) = Inr env"
    by (auto simp: Analyze_def Let_def split: if_splits sum.splits option.splits)
  note width = ParseHeader_width [OF header, unfolded maxHeaderBytes_def]
  show ?thesis
  proof (cases "isSplit layout")
    case True
    then show ?thesis
      using env start fits width layout layout_flags [OF layout] \<open>ReaderSize src \<le> MaxFileBytes limits\<close>
      by (auto simp: analyzeSplit_def envelopeInside_def split: if_splits sum.splits)
  next
    case False
    with env start obtain stop where stop: "inlineMetadataEnd src header = Inr stop"
      by (auto simp: analyzeInline_def split: sum.splits)
    then have le: "stop \<le> ReaderSize src" and declared: "uint (DeclaredMetadataBytes header) = stop - HeaderBytes header"
      using inlineMetadataEnd_exact [OF stop assms(2,3)] width by linarith+
    then have "HeaderBytes header \<le> stop"
      using uint_nonnegative [of "DeclaredMetadataBytes header"] by linarith
    then show ?thesis
      using False stop env start width le declared layout layout_flags [OF layout] \<open>ReaderSize src \<le> MaxFileBytes limits\<close>
      by (auto simp: analyzeInline_def envelopeInside_def Let_def split: if_splits sum.splits)
  qed
qed

end
