(* ===== verification/SavePath.thy ===== *)
theory SavePath
  imports SaveFile
begin

text \<open>
  \<^verbatim>\<open>internal/savefile/path.go\<close>: a requested save path is resolved against the configured roots. The file
  system is the argument \<open>lstat\<close>, \<^verbatim>\<open>os.Lstat\<close> for the time of one call: from a path to the mode of what is
  there, and \<open>None\<close> where the call fails. The working directory is the argument \<open>cwd\<close>, \<^verbatim>\<open>os.Getwd\<close>. The
  functions of \<^verbatim>\<open>path/filepath\<close> are those of a Unix system, where the separator is a slash and a path has
  no volume.
\<close>

section \<open>Paths\<close>

abbreviation slash :: char where "slash \<equiv> CHR ''/''"

definition isAbsPath :: "bytes \<Rightarrow> bool" where
  "isAbsPath s = hasPrefix s ''/''"

text \<open>\<^verbatim>\<open>filepath.Clean\<close>: empty and dot elements go, and a double dot takes the element before it with it; one
  at the start of a rooted path goes too. What is kept is collected in reverse.\<close>

fun cleanElems :: "bool \<Rightarrow> bytes list \<Rightarrow> bytes list \<Rightarrow> bytes list" where
  "cleanElems rooted kept [] = rev kept"
| "cleanElems rooted kept (p # ps) =
     (if p = [] \<or> p = ''.'' then cleanElems rooted kept ps
      else if p = ''..'' then
        (case kept of
           [] \<Rightarrow> cleanElems rooted (if rooted then [] else [p]) ps
         | q # qs \<Rightarrow> if q \<noteq> ''..'' then cleanElems rooted qs ps else cleanElems rooted (p # kept) ps)
      else cleanElems rooted (p # kept) ps)"

definition cleanPath :: "bytes \<Rightarrow> bytes" where
  "cleanPath s =
     (let rooted = isAbsPath s; elems = cleanElems rooted [] (splitOn slash s) in
      if rooted then slash # joinWith slash elems
      else if elems = [] then ''.''
      else joinWith slash elems)"

text \<open>\<^verbatim>\<open>filepath.Join\<close> of two elements, and \<^verbatim>\<open>filepath.Abs\<close>.\<close>

definition joinPath :: "bytes \<Rightarrow> bytes \<Rightarrow> bytes" where
  "joinPath a b =
     (if a \<noteq> [] then cleanPath (a @ slash # b) else if b \<noteq> [] then cleanPath b else [])"

definition absPath :: "string + bytes \<Rightarrow> bytes \<Rightarrow> string + bytes" where
  "absPath cwd s =
     (if isAbsPath s then Inr (cleanPath s)
      else case cwd of Inl m \<Rightarrow> Inl m | Inr wd \<Rightarrow> Inr (joinPath wd s))"

text \<open>\<^verbatim>\<open>filepath.Rel\<close>: the two cleaned paths are compared word by word; what is left of the base is climbed
  before the rest of the target is descended.\<close>

definition pathWords :: "bytes \<Rightarrow> bytes list" where
  "pathWords s = (if s = [] then [] else if s = ''/'' then [[]] else splitOn slash s)"

fun dropCommon :: "bytes list \<Rightarrow> bytes list \<Rightarrow> bytes list \<times> bytes list" where
  "dropCommon (b # bs) (t # ts) = (if b = t then dropCommon bs ts else (b # bs, t # ts))"
| "dropCommon bs ts = (bs, ts)"

definition relPath :: "bytes \<Rightarrow> bytes \<Rightarrow> string + bytes" where
  "relPath basepath targpath =
     (let base = cleanPath basepath; targ = cleanPath targpath in
      if targ = base then Inr ''.''
      else
        let base = (if base = ''.'' then [] else base) in
        if isAbsPath base \<noteq> isAbsPath targ then Inl ''Rel: can't make target relative to base''
        else
          let (bs, ts) = dropCommon (pathWords base) (pathWords targ) in
          if bs \<noteq> [] \<and> ts \<noteq> [] \<and> hd bs = ''..'' then Inl ''Rel: can't make target relative to base''
          else Inr (joinWith slash (replicate (length bs) ''..'' @ ts)))"

section \<open>File modes\<close>

text \<open>\<^verbatim>\<open>fs.FileMode\<close>: the type bits are those of a directory (31), a symbolic link (27), a device (26), a named
  pipe (25), a socket (24), a character device (21) and an irregular file (19).\<close>

definition IsDir :: "32 word \<Rightarrow> bool" where "IsDir mode = bit mode 31"
definition isSymlink :: "32 word \<Rightarrow> bool" where "isSymlink mode = bit mode 27"

definition IsRegular :: "32 word \<Rightarrow> bool" where
  "IsRegular mode = list_all (\<lambda>b. \<not> bit mode b) [31, 27, 26, 25, 24, 21, 19]"

section \<open>Resolving\<close>

definition pathError :: "string \<Rightarrow> SaveError" where
  "pathError d = newError ErrPath d"

fun confineParts :: "(bytes \<Rightarrow> 32 word option) \<Rightarrow> bytes \<Rightarrow> int \<Rightarrow> bytes list \<Rightarrow> SaveError + bytes" where
  "confineParts lstat current index [] = Inl (pathError ''the save path is not inside any configured save root'')"
| "confineParts lstat current index (part # rest) =
     (if part = [] \<or> part = ''.'' then Inl (pathError ''the save path has an empty component'')
      else
        let current = joinPath current part in
        case lstat current of
          None \<Rightarrow> Inl (pathError ''the requested save does not exist'')
        | Some mode \<Rightarrow>
            if isSymlink mode
            then Inl (newErrorf ErrPath [Lit ''the save path passes through a symlink at depth '', Num (index + 1)])
            else if rest = [] then
              if \<not> IsRegular mode then Inl (pathError ''the requested save is not a regular file'')
              else Inr current
            else if \<not> IsDir mode then Inl (pathError ''the save path descends through a non-directory'')
            else confineParts lstat current (index + 1) rest)"

definition confineToRoot :: "(bytes \<Rightarrow> 32 word option) \<Rightarrow> bytes \<Rightarrow> bytes \<Rightarrow> SaveError + bytes" where
  "confineToRoot lstat root target =
     (case relPath root (cleanPath target) of
        Inl m \<Rightarrow> Inl (pathError ''the save path is not inside any configured save root'')
      | Inr relative \<Rightarrow>
          if relative = ''..'' \<or> hasPrefix relative ''../''
          then Inl (pathError ''the save path escapes its configured save root'')
          else if relative = ''.'' then Inl (pathError ''the save path names a directory, not a save'')
          else (case lstat root of
              None \<Rightarrow> Inl (pathError ''a configured save root does not exist'')
            | Some mode \<Rightarrow>
                if \<not> IsDir mode then Inl (pathError ''a configured save root is not a directory'')
                else confineParts lstat root 0 (splitOn slash relative)))"

text \<open>The loop over the roots keeps the refusal of the last one.\<close>

fun resolveRoots ::
  "(bytes \<Rightarrow> 32 word option) \<Rightarrow> string + bytes \<Rightarrow> bytes \<Rightarrow> SaveError option \<Rightarrow> bytes list \<Rightarrow> SaveError + bytes" where
  "resolveRoots lstat cwd candidate lastErr [] =
     (case lastErr of
        Some e \<Rightarrow> Inl e
      | None \<Rightarrow> Inl (pathError ''the save path is not inside any configured save root''))"
| "resolveRoots lstat cwd candidate lastErr (root # rest) =
     (case absPath cwd root of
        Inl m \<Rightarrow> resolveRoots lstat cwd candidate (Some (ForeignError m)) rest
      | Inr absoluteRoot \<Rightarrow>
          let target = (if \<not> isAbsPath candidate then joinPath absoluteRoot candidate else candidate) in
          (case confineToRoot lstat absoluteRoot target of
             Inl e \<Rightarrow> resolveRoots lstat cwd candidate (Some e) rest
           | Inr resolved \<Rightarrow> Inr resolved))"

definition ResolveUnderRoots ::
  "(bytes \<Rightarrow> 32 word option) \<Rightarrow> string + bytes \<Rightarrow> bytes list \<Rightarrow> bytes \<Rightarrow> SaveError + bytes" where
  "ResolveUnderRoots lstat cwd roots candidate =
     (if trimSpace candidate = [] then Inl (pathError ''no save path was given'')
      else if CHR 0x00 \<in> set candidate then Inl (pathError ''the save path contains a null byte'')
      else if roots = [] then Inl (pathError ''no save roots are configured, so no save may be read'')
      else resolveRoots lstat cwd candidate None roots)"

end
