(* ===== verification/SavePathFacts.thy ===== *)
theory SavePathFacts
  imports SavePath
begin

text \<open>
  What \<open>SavePath\<close> promises. A cleaned absolute path is a list of plain elements, \<open>absOf\<close>. \<open>resolve_exact\<close> says
  exactly which requests are answered and with what: the path under the first root that reaches it, through
  real directories only, ending in a regular file.
\<close>

section \<open>Cleaned absolute paths\<close>

definition plainElem :: "bytes \<Rightarrow> bool" where
  "plainElem q \<longleftrightarrow> q \<noteq> [] \<and> q \<noteq> ''.'' \<and> q \<noteq> ''..'' \<and> slash \<notin> set q"

definition absOf :: "bytes list \<Rightarrow> bytes" where
  "absOf cs = slash # joinWith slash cs"

lemma plainElem_no_slash: "list_all plainElem cs \<Longrightarrow> p \<in> set cs \<Longrightarrow> slash \<notin> set p"
  by (auto simp: list_all_iff plainElem_def)

lemma joinWith_snoc: "cs \<noteq> [] \<Longrightarrow> joinWith sep (cs @ [q]) = joinWith sep cs @ sep # q"
  by (induction cs rule: joinWith.induct) auto

lemma splitOn_plain: "list_all plainElem cs \<Longrightarrow> cs \<noteq> [] \<Longrightarrow> splitOn slash (joinWith slash cs) = cs"
  using plainElem_no_slash by (intro splitOn_joinWith) auto

lemma splitOn_absOf: "list_all plainElem cs \<Longrightarrow> splitOn slash (absOf cs) = [] # (if cs = [] then [[]] else cs)"
  by (simp add: absOf_def splitOn_plain)

lemma pathWords_absOf: "list_all plainElem cs \<Longrightarrow> pathWords (absOf cs) = [] # cs"
proof (cases cs)
  case (Cons c rest)
  assume plain: "list_all plainElem cs"
  then have "joinWith slash cs \<noteq> []" using Cons by (cases rest) (auto simp: plainElem_def)
  then show ?thesis using plain Cons splitOn_absOf [OF plain] by (simp add: pathWords_def absOf_def)
qed (simp add: pathWords_def absOf_def)

lemma absOf_inject: "list_all plainElem cs \<Longrightarrow> list_all plainElem ds \<Longrightarrow> absOf cs = absOf ds \<longleftrightarrow> cs = ds"
  using pathWords_absOf by (metis list.inject)

lemma absOf_not_dot [simp]: "absOf cs \<noteq> ''.''"
  by (simp add: absOf_def)

lemma isAbsPath_absOf [simp]: "isAbsPath (absOf cs)"
  by (simp add: isAbsPath_def hasPrefix_def absOf_def)

lemma cleanElems_plain:
  assumes "list_all (\<lambda>p. slash \<notin> set p) ps" and "list_all plainElem kept"
  shows "list_all plainElem (cleanElems True kept ps)"
  using assms
proof (induction ps arbitrary: kept)
  case Nil
  then show ?case by (simp add: list_all_iff)
next
  case (Cons p ps)
  then show ?case by (cases kept) (auto simp: plainElem_def)
qed

lemma cleanElems_keeps: "list_all plainElem ps \<Longrightarrow> cleanElems rooted kept ps = rev kept @ ps"
  by (induction ps arbitrary: kept) (auto simp: plainElem_def)

lemma cleanElems_append: "list_all plainElem ps \<Longrightarrow> cleanElems rooted kept (ps @ qs) = cleanElems rooted (rev ps @ kept) qs"
  by (induction ps arbitrary: kept) (auto simp: plainElem_def)

lemma cleanPath_rooted:
  assumes "isAbsPath s"
  obtains cs where "cleanPath s = absOf cs" and "list_all plainElem cs"
proof
  have "list_all (\<lambda>p. slash \<notin> set p) (splitOn slash s)"
    using splitOn_fields_no_sep by (auto simp: list_all_iff)
  then show "list_all plainElem (cleanElems True [] (splitOn slash s))"
    by (rule cleanElems_plain) simp
  show "cleanPath s = absOf (cleanElems True [] (splitOn slash s))"
    using assms by (simp add: cleanPath_def absOf_def)
qed

lemma cleanPath_absOf: "list_all plainElem cs \<Longrightarrow> cleanPath (absOf cs) = absOf cs"
  by (simp add: cleanPath_def splitOn_absOf cleanElems_keeps) (simp add: absOf_def)

lemma cleanPath_idem: "isAbsPath s \<Longrightarrow> cleanPath (cleanPath s) = cleanPath s"
  by (metis cleanPath_absOf cleanPath_rooted)

lemma joinPath_absOf:
  assumes "list_all plainElem cs" and "plainElem q"
  shows "joinPath (absOf cs) q = absOf (cs @ [q])"
proof -
  have q: "splitOn slash q = [q]" using assms by (simp add: plainElem_def splitOn_no_sep)
  have "splitOn slash (absOf cs @ slash # q) = [] # (if cs = [] then [[], q] else cs @ [q])"
  proof (cases "cs = []")
    case False
    then have "absOf cs @ slash # q = absOf (cs @ [q])" by (simp add: absOf_def joinWith_snoc)
    then show ?thesis using False assms splitOn_absOf [of "cs @ [q]"] by simp
  qed (simp add: absOf_def q)
  moreover have "isAbsPath (absOf cs @ slash # q)" by (simp add: isAbsPath_def hasPrefix_def absOf_def)
  ultimately have "cleanPath (absOf cs @ slash # q) = absOf (cs @ [q])"
    using assms by (auto simp: cleanPath_def absOf_def cleanElems_keeps plainElem_def)
  then show ?thesis by (simp add: joinPath_def absOf_def)
qed

lemma joinPath_rooted: "isAbsPath a \<Longrightarrow> joinPath a b = cleanPath (a @ slash # b) \<and> isAbsPath (a @ slash # b)"
  by (cases a) (auto simp: joinPath_def isAbsPath_def hasPrefix_def)

lemma absPath_rooted:
  assumes "absPath cwd s = Inr a" and "\<And>wd. cwd = Inr wd \<Longrightarrow> isAbsPath wd"
  obtains cs where "a = absOf cs" and "list_all plainElem cs"
proof -
  have "\<exists>s'. isAbsPath s' \<and> a = cleanPath s'"
    using assms joinPath_rooted by (auto simp: absPath_def split: if_splits sum.splits)
  then show ?thesis using that cleanPath_rooted by metis
qed

section \<open>Relative paths\<close>

lemma dropCommon_append [simp]: "dropCommon stem (stem @ parts) = ([], parts)"
  by (induction stem) (auto split: list.splits elim: dropCommon.elims)

lemma dropCommon_Nil: "dropCommon stem ts = ([], parts) \<Longrightarrow> ts = stem @ parts"
  by (induction stem ts rule: dropCommon.induct) (auto split: if_splits)

lemma dropCommon_suffix: "dropCommon stem ts = (bs, parts) \<Longrightarrow> set bs \<subseteq> set stem \<and> set parts \<subseteq> set ts"
  by (induction stem ts rule: dropCommon.induct) (auto split: if_splits)

text \<open>The relative path of a target goes up exactly when the target is not below the base.\<close>

lemma joinWith_climbs: "take 2 (joinWith slash (''..'' # ts)) = ''..'' \<and>
    (joinWith slash (''..'' # ts) = ''..'' \<or> hasPrefix (joinWith slash (''..'' # ts)) ''../'')"
  by (cases ts) (auto simp: hasPrefix_def)

lemma relPath_below:
  assumes "list_all plainElem stem" and "list_all plainElem parts" and "parts \<noteq> []"
  shows "relPath (absOf stem) (absOf (stem @ parts)) = Inr (joinWith slash parts)"
  using assms absOf_inject [of stem "stem @ parts"]
  by (simp add: relPath_def cleanPath_absOf pathWords_absOf Let_def)

lemma relPath_same: "list_all plainElem stem \<Longrightarrow> relPath (absOf stem) (absOf stem) = Inr ''.''"
  by (simp add: relPath_def)

lemma relPath_outside:
  assumes "list_all plainElem stem" and "list_all plainElem ts" and "\<And>parts. ts \<noteq> stem @ parts"
    and "relPath (absOf stem) (absOf ts) = Inr relative"
  shows "relative = ''..'' \<or> hasPrefix relative ''../''"
proof -
  obtain bs rest where drop: "dropCommon stem ts = (bs, rest)" by (cases "dropCommon stem ts")
  then have "bs \<noteq> []" using assms(3) dropCommon_Nil by metis
  then obtain bs' where "replicate (length bs) ''..'' @ rest = ''..'' # bs'" by (cases bs) auto
  moreover have "ts \<noteq> stem" using assms(3) [of "[]"] by simp
  ultimately have "relative = joinWith slash (''..'' # bs')"
    using assms(1,2,4) drop absOf_inject [OF assms(2,1)]
    by (auto simp: relPath_def cleanPath_absOf pathWords_absOf Let_def split: if_splits)
  then show ?thesis using joinWith_climbs by metis
qed

section \<open>What is accepted\<close>

text \<open>The mode of an existing path, and a chain of real directories from a root down to a regular file.\<close>

definition realDir :: "(bytes \<Rightarrow> 32 word option) \<Rightarrow> bytes \<Rightarrow> bool" where
  "realDir lstat path \<longleftrightarrow> (\<exists>mode. lstat path = Some mode \<and> IsDir mode \<and> \<not> isSymlink mode)"

definition regularFile :: "(bytes \<Rightarrow> 32 word option) \<Rightarrow> bytes \<Rightarrow> bool" where
  "regularFile lstat path \<longleftrightarrow> (\<exists>mode. lstat path = Some mode \<and> IsRegular mode)"

definition chainOk :: "(bytes \<Rightarrow> 32 word option) \<Rightarrow> bytes list \<Rightarrow> bytes list \<Rightarrow> bool" where
  "chainOk lstat stem parts \<longleftrightarrow> parts \<noteq> [] \<and> regularFile lstat (absOf (stem @ parts))
     \<and> (\<forall>k. 0 < k \<longrightarrow> k < length parts \<longrightarrow> realDir lstat (absOf (stem @ take k parts)))"

lemma chainOk_one: "chainOk lstat stem [part] \<longleftrightarrow> regularFile lstat (absOf (stem @ [part]))"
  by (auto simp: chainOk_def)

lemma chainOk_step:
  "rest \<noteq> [] \<Longrightarrow> chainOk lstat stem (part # rest) \<longleftrightarrow>
     realDir lstat (absOf (stem @ [part])) \<and> chainOk lstat (stem @ [part]) rest"
proof -
  assume "rest \<noteq> []"
  have "(\<forall>k. 0 < k \<longrightarrow> k < length (part # rest) \<longrightarrow> realDir lstat (absOf (stem @ take k (part # rest))))
     \<longleftrightarrow> realDir lstat (absOf (stem @ [part]))
       \<and> (\<forall>k. 0 < k \<longrightarrow> k < length rest \<longrightarrow> realDir lstat (absOf ((stem @ [part]) @ take k rest)))"
    (is "?all \<longleftrightarrow> ?first \<and> ?others")
  proof
    assume all: ?all
    have ?first using all [rule_format, of 1] \<open>rest \<noteq> []\<close> by simp
    moreover have ?others using all [rule_format, of "Suc _"] by auto
    ultimately show "?first \<and> ?others" ..
  next
    assume both: "?first \<and> ?others"
    show ?all
    proof (intro allI impI)
      fix k assume "0 < k" and "k < length (part # rest)"
      then obtain j where k: "k = Suc j" and "j < length rest" by (cases k) auto
      then show "realDir lstat (absOf (stem @ take k (part # rest)))"
        using both by (cases "j = 0") auto
    qed
  qed
  then show ?thesis using \<open>rest \<noteq> []\<close> by (auto simp: chainOk_def)
qed

lemma regular_not_symlink: "IsRegular mode \<Longrightarrow> \<not> isSymlink mode"
  by (simp add: IsRegular_def isSymlink_def)

lemma confineParts_exact:
  assumes "list_all plainElem stem" and "list_all plainElem parts" and "parts \<noteq> []"
  shows "confineParts lstat (absOf stem) index parts = Inr p \<longleftrightarrow> chainOk lstat stem parts \<and> p = absOf (stem @ parts)"
  using assms
proof (induction parts arbitrary: stem index)
  case (Cons part rest)
  then have part: "plainElem part" and step: "joinPath (absOf stem) part = absOf (stem @ [part])"
    using joinPath_absOf by simp_all
  show ?case
  proof (cases "rest = []")
    case True
    then show ?thesis
      using part step regular_not_symlink
      by (auto simp: plainElem_def chainOk_one regularFile_def Let_def split: option.splits)
  next
    case False
    then have "confineParts lstat (absOf (stem @ [part])) (index + 1) rest = Inr p
        \<longleftrightarrow> chainOk lstat (stem @ [part]) rest \<and> p = absOf ((stem @ [part]) @ rest)"
      using Cons by (intro Cons.IH) auto
    then show ?thesis
      using False part step
      by (auto simp: plainElem_def chainOk_step realDir_def Let_def split: option.splits)
  qed
qed simp

text \<open>A root reaches a path: it is a directory, and the cleaned target lies below it on a chain of real
  directories that ends in a regular file.\<close>

definition isDirectory :: "(bytes \<Rightarrow> 32 word option) \<Rightarrow> bytes \<Rightarrow> bool" where
  "isDirectory lstat path \<longleftrightarrow> (\<exists>mode. lstat path = Some mode \<and> IsDir mode)"

definition reachesUnder :: "(bytes \<Rightarrow> 32 word option) \<Rightarrow> bytes list \<Rightarrow> bytes \<Rightarrow> bytes \<Rightarrow> bool" where
  "reachesUnder lstat stem target p \<longleftrightarrow> isDirectory lstat (absOf stem) \<and> p = cleanPath target
     \<and> (\<exists>parts. list_all plainElem parts \<and> p = absOf (stem @ parts) \<and> chainOk lstat stem parts)"

lemma plain_join_inside:
  assumes "list_all plainElem parts" and "parts \<noteq> []"
  shows "\<not> (joinWith slash parts = ''..'' \<or> hasPrefix (joinWith slash parts) ''../'' \<or> joinWith slash parts = ''.'')"
proof
  let ?s = "joinWith slash parts"
  assume "?s = ''..'' \<or> hasPrefix ?s ''../'' \<or> ?s = ''.''"
  then have "\<exists>rest. ?s = ''..'' \<or> ?s = ''..'' @ slash # rest \<or> ?s = ''.''"
    by (metis append_take_drop_id hasPrefix_def append_Cons append_Nil)
  moreover have "splitOn slash (''..'' @ slash # rest) = ''..'' # splitOn slash rest" for rest
    by (rule splitOn_append_sep) simp
  ultimately have "''..'' \<in> set (splitOn slash ?s) \<or> ''.'' \<in> set (splitOn slash ?s)" by fastforce
  then show False using assms splitOn_plain [OF assms] by (auto simp: list_all_iff plainElem_def)
qed

lemma confineToRoot_exact:
  assumes stem: "list_all plainElem stem" and target: "isAbsPath target"
  shows "confineToRoot lstat (absOf stem) target = Inr p \<longleftrightarrow> reachesUnder lstat stem target p"
proof -
  obtain ts where ts: "cleanPath target = absOf ts" "list_all plainElem ts"
    using cleanPath_rooted [OF target] .
  consider (below) parts where "ts = stem @ parts" and "parts \<noteq> []" | (same) "ts = stem"
    | (outside) "\<forall>parts. ts \<noteq> stem @ parts" by auto
  then show ?thesis
  proof cases
    case below
    then have parts: "list_all plainElem parts" using ts by simp
    have rel: "relPath (absOf stem) (absOf ts) = Inr (joinWith slash parts)"
      using relPath_below [OF stem parts] below by simp
    moreover have "\<not> (joinWith slash parts = ''..'' \<or> hasPrefix (joinWith slash parts) ''../'' \<or> joinWith slash parts = ''.'')"
      by (rule plain_join_inside [OF parts \<open>parts \<noteq> []\<close>])
    ultimately show ?thesis
      using below ts parts confineParts_exact [OF stem parts \<open>parts \<noteq> []\<close>]
      by (auto simp: confineToRoot_def cleanPath_absOf splitOn_plain reachesUnder_def isDirectory_def
          absOf_inject split: option.splits)
  next
    case same
    then show ?thesis
      using ts stem absOf_inject
      by (auto simp: confineToRoot_def cleanPath_absOf relPath_same reachesUnder_def chainOk_def hasPrefix_def)
  next
    case outside
    then have "\<not> reachesUnder lstat stem target p"
      using ts stem absOf_inject by (fastforce simp: reachesUnder_def)
    moreover have "confineToRoot lstat (absOf stem) target \<noteq> Inr p"
      using outside ts relPath_outside [OF stem ts(2)]
      by (fastforce simp: confineToRoot_def cleanPath_absOf split: sum.splits)
    ultimately show ?thesis by simp
  qed
qed

section \<open>Resolving a request\<close>

text \<open>What one configured root makes of a request: a relative request is joined to it, an absolute one must lie
  inside it.\<close>

definition rootReaches ::
  "(bytes \<Rightarrow> 32 word option) \<Rightarrow> string + bytes \<Rightarrow> bytes \<Rightarrow> bytes \<Rightarrow> bytes \<Rightarrow> bool" where
  "rootReaches lstat cwd candidate root p \<longleftrightarrow>
     (\<exists>stem. absPath cwd root = Inr (absOf stem) \<and> list_all plainElem stem
        \<and> reachesUnder lstat stem (if isAbsPath candidate then candidate else absOf stem @ slash # candidate) p)"

lemma rootReaches_confine:
  assumes "\<And>wd. cwd = Inr wd \<Longrightarrow> isAbsPath wd"
  shows "rootReaches lstat cwd candidate root p \<longleftrightarrow>
    (\<exists>a. absPath cwd root = Inr a
      \<and> confineToRoot lstat a (if \<not> isAbsPath candidate then joinPath a candidate else candidate) = Inr p)"
proof (cases "absPath cwd root")
  case (Inl m)
  then show ?thesis by (simp add: rootReaches_def)
next
  case (Inr a)
  then obtain stem where a: "a = absOf stem" and stem: "list_all plainElem stem"
    using absPath_rooted assms by metis
  let ?joined = "absOf stem @ slash # candidate"
  have rooted: "isAbsPath ?joined" and joined: "joinPath (absOf stem) candidate = cleanPath ?joined"
    using joinPath_rooted [of "absOf stem" candidate] by simp_all
  have "reachesUnder lstat stem (cleanPath ?joined) p \<longleftrightarrow> reachesUnder lstat stem ?joined p"
    by (simp only: reachesUnder_def cleanPath_idem [OF rooted])
  moreover have "isAbsPath (cleanPath ?joined)"
    using cleanPath_rooted [OF rooted] isAbsPath_absOf by metis
  ultimately have "confineToRoot lstat (absOf stem) (if \<not> isAbsPath candidate then joinPath (absOf stem) candidate else candidate) = Inr p
      \<longleftrightarrow> reachesUnder lstat stem (if isAbsPath candidate then candidate else ?joined) p"
    using confineToRoot_exact [OF stem, of "cleanPath ?joined" lstat p] confineToRoot_exact [OF stem, of candidate lstat p]
    by (cases "isAbsPath candidate") (simp_all only: joined if_True if_False not_True_eq_False not_False_eq_True)
  moreover have "rootReaches lstat cwd candidate root p
      \<longleftrightarrow> reachesUnder lstat stem (if isAbsPath candidate then candidate else ?joined) p"
  proof
    assume "rootReaches lstat cwd candidate root p"
    then obtain stem' where "absPath cwd root = Inr (absOf stem')" and "list_all plainElem stem'"
      and reach: "reachesUnder lstat stem' (if isAbsPath candidate then candidate else absOf stem' @ slash # candidate) p"
      by (auto simp only: rootReaches_def)
    then have "stem' = stem" using Inr a stem absOf_inject by simp
    then show "reachesUnder lstat stem (if isAbsPath candidate then candidate else ?joined) p"
      using reach by (simp only:)
  next
    assume "reachesUnder lstat stem (if isAbsPath candidate then candidate else ?joined) p"
    then show "rootReaches lstat cwd candidate root p"
      unfolding rootReaches_def using Inr a stem by blast
  qed
  ultimately show ?thesis using Inr a by simp
qed

lemma first_or_later:
  "(\<exists>before root behind. x # xs = before @ root # behind \<and> P root \<and> (\<forall>r \<in> set before. Q r)) \<longleftrightarrow>
     P x \<or> Q x \<and> (\<exists>before root behind. xs = before @ root # behind \<and> P root \<and> (\<forall>r \<in> set before. Q r))"
  (is "?lhs \<longleftrightarrow> P x \<or> Q x \<and> ?later")
proof
  assume ?lhs
  then obtain before root behind where "x # xs = before @ root # behind" and "P root" and "\<forall>r \<in> set before. Q r"
    by blast
  then show "P x \<or> Q x \<and> ?later" by (cases before) auto
next
  assume "P x \<or> Q x \<and> ?later"
  then show ?lhs
  proof
    assume "P x"
    then show ?lhs by (intro exI [of _ "[]"]) auto
  next
    assume "Q x \<and> ?later"
    then obtain before root behind where "xs = before @ root # behind" and "P root" and "\<forall>r \<in> set (x # before). Q r"
      by auto
    then show ?lhs by (metis append_Cons)
  qed
qed

lemma resolveRoots_exact:
  assumes wd: "\<And>wd. cwd = Inr wd \<Longrightarrow> isAbsPath wd"
  shows "resolveRoots lstat cwd candidate lastErr roots = Inr p \<longleftrightarrow>
    (\<exists>before root behind. roots = before @ root # behind \<and> rootReaches lstat cwd candidate root p
       \<and> (\<forall>r \<in> set before. \<forall>q. \<not> rootReaches lstat cwd candidate r q))"
proof (induction roots arbitrary: lastErr)
  case Nil
  then show ?case by (simp split: option.splits)
next
  case (Cons root rest)
  note here = rootReaches_confine [OF wd, where lstat = lstat and candidate = candidate and root = root]
  show ?case
    unfolding first_or_later
    by (cases "absPath cwd root") (auto simp: here Cons.IH Let_def split: sum.splits)
qed

text \<open>
  Claim C23. A requested save is confined to the configured roots, and nothing inside them is refused. The call
  answers with a path exactly when the request is not blank and has no null byte and some root reaches it; the
  answer is the cleaned path under the first such root. A root reaches a path that lies strictly below it
  element by element, with no empty, dot or double-dot element, through directories none of which is a
  symbolic link, and ends in a regular file. \<^verbatim>\<open>os.Getwd\<close> is assumed to answer an absolute path.
\<close>

theorem resolve_exact:
  assumes "\<And>wd. cwd = Inr wd \<Longrightarrow> isAbsPath wd"
  shows "ResolveUnderRoots lstat cwd roots candidate = Inr p \<longleftrightarrow>
    trimSpace candidate \<noteq> [] \<and> CHR 0x00 \<notin> set candidate
    \<and> (\<exists>before root behind. roots = before @ root # behind \<and> rootReaches lstat cwd candidate root p
         \<and> (\<forall>r \<in> set before. \<forall>q. \<not> rootReaches lstat cwd candidate r q))"
  using resolveRoots_exact [OF assms] by (auto simp: ResolveUnderRoots_def)

text \<open>The refusal that is reported is the one of the last root, not the most specific one.\<close>

lemma resolve_reports_last:
  assumes "\<And>r q. r \<in> set roots \<Longrightarrow> \<not> rootReaches lstat cwd candidate r q"
    and wd: "\<And>wd. cwd = Inr wd \<Longrightarrow> isAbsPath wd"
  shows "resolveRoots lstat cwd candidate lastErr (roots @ [root]) = resolveRoots lstat cwd candidate None [root]"
  using assms(1)
proof (induction roots arbitrary: lastErr)
  case Nil
  then show ?case by (simp add: Let_def split: sum.splits)
next
  case (Cons r roots)
  then have "\<And>q. \<not> rootReaches lstat cwd candidate r q" by simp
  then have fails: "confineToRoot lstat a (if \<not> isAbsPath candidate then joinPath a candidate else candidate) \<noteq> Inr q"
    if "absPath cwd r = Inr a" for a q
    using that rootReaches_confine [OF wd] by blast
  have "resolveRoots lstat cwd candidate lastErr (r # roots @ [root]) \<in>
      range (\<lambda>e. resolveRoots lstat cwd candidate e (roots @ [root]))"
  proof (cases "absPath cwd r")
    case (Inr a)
    then obtain e where "confineToRoot lstat a (if \<not> isAbsPath candidate then joinPath a candidate else candidate) = Inl e"
      using fails by (metis sum.exhaust)
    then show ?thesis using Inr by (simp add: Let_def)
  qed simp
  moreover have "resolveRoots lstat cwd candidate e (roots @ [root]) = resolveRoots lstat cwd candidate None [root]" for e
    using Cons by (simp del: resolveRoots.simps)
  ultimately show ?case by (auto simp del: resolveRoots.simps)
qed

text \<open>The first root lacks the file and the second has it, and a request that climbs out of its
  directory and back in is cleaned.\<close>

definition sampleTree :: "bytes \<Rightarrow> 32 word option" where
  "sampleTree path =
     (if path = ''/a'' \<or> path = ''/b'' \<or> path = ''/b/g'' then Some (2 ^ 31)
      else if path = ''/b/g/s.ck3'' then Some 420
      else if path = ''/a/g'' then Some (2 ^ 27)
      else None)"

lemma resolve_exact_witness:
  "ResolveUnderRoots sampleTree (Inr ''/'') [''/a'', ''b''] ''g/./x/../s.ck3'' = Inr ''/b/g/s.ck3''
    \<and> (\<exists>before root behind. [''/a'', ''b''] = before @ root # behind
         \<and> rootReaches sampleTree (Inr ''/'') ''g/./x/../s.ck3'' root ''/b/g/s.ck3''
         \<and> filter (\<lambda>r. \<exists>q. rootReaches sampleTree (Inr ''/'') ''g/./x/../s.ck3'' r q) before = [])"
proof -
  have "ResolveUnderRoots sampleTree (Inr ''/'') [''/a'', ''b''] ''g/./x/../s.ck3'' = Inr ''/b/g/s.ck3''"
    by code_simp
  moreover have "isAbsPath ''/''" by code_simp
  ultimately show ?thesis
    using resolve_exact [of "Inr ''/''" sampleTree "[''/a'', ''b'']" "''g/./x/../s.ck3''" "''/b/g/s.ck3''"]
    by (simp add: filter_empty_conv)
qed

end
