(* ===== verification/Gamestate.thy ===== *)
theory Gamestate
  imports Metadata
begin

text \<open>
  \<^verbatim>\<open>internal/savefile/gamestate.go\<close>: one bounded pass over a streamed gamestate. The Go visitors are
  closures over the scan; here the visitor takes what was collected so far and yields the next
  value, and an error discards it together with the scan, as \<^verbatim>\<open>ScanGamestateFor\<close> does. Save ids
  are \<^verbatim>\<open>int64\<close> bit patterns. A \<^verbatim>\<open>map[string]struct{}\<close> used as a set is the list of its members.
\<close>

section \<open>Walking the stream\<close>

type_synonym 'v streamVisitor = "bytes \<Rightarrow> Token \<Rightarrow> 'v \<Rightarrow> (StreamDecoder, 'v) save_m"

type_synonym 'v numberedVisitor = "64 word \<Rightarrow> Token \<Rightarrow> 'v \<Rightarrow> (StreamDecoder, 'v) save_m"

definition streamKeyM :: "Token \<Rightarrow> TokenMap option \<Rightarrow> (StreamDecoder, bytes option) save_m" where
  "streamKeyM token resolver d =
     (let (name, d') = StreamDecoder_keyName token resolver d in Some (Inr name, d'))"

partial_function (option) readObjectLoop ::
  "int \<Rightarrow> TokenMap option \<Rightarrow> 'v \<Rightarrow> 'v streamVisitor \<Rightarrow> StreamDecoder \<Rightarrow> ((SaveError + 'v) \<times> StreamDecoder) option" where
  "readObjectLoop target resolver acc visit d =
     (if sd_depth d \<le> target then returnM acc d
      else
        bindM StreamDecoder_Done (\<lambda>fin.
        if fin then returnM acc
        else
          bindM StreamDecoder_Next (\<lambda>token.
          if Kind token = KindClose then returnM acc
          else
            bindM (streamKeyM token resolver) (\<lambda>name.
            if name = None \<or> \<not> IsScalar token
            then bindM (StreamDecoder_SkipValue token) (\<lambda>_. readObjectLoop target resolver acc visit)
            else
              bindM StreamDecoder_Next (\<lambda>nxt.
              if Kind nxt \<noteq> KindEqual then
                (if Kind nxt = KindClose then returnM acc
                 else bindM (StreamDecoder_SkipValue nxt) (\<lambda>_. readObjectLoop target resolver acc visit))
              else
                bindM StreamDecoder_Next (\<lambda>value.
                bindM (visit (the name) value acc) (\<lambda>acc'. readObjectLoop target resolver acc' visit)))))) d)"

definition readObjectStream ::
  "TokenMap option \<Rightarrow> 'v \<Rightarrow> 'v streamVisitor \<Rightarrow> (StreamDecoder, 'v) save_m" where
  "readObjectStream resolver acc visit d = readObjectLoop (sd_depth d - 1) resolver acc visit d"

partial_function (option) readNumberedLoop ::
  "int \<Rightarrow> 'v \<Rightarrow> 'v numberedVisitor \<Rightarrow> StreamDecoder \<Rightarrow> ((SaveError + 'v) \<times> StreamDecoder) option" where
  "readNumberedLoop target acc visit d =
     (if sd_depth d > target then
        bindM StreamDecoder_Next (\<lambda>token.
          if Kind token = KindClose then readNumberedLoop target acc visit
          else if Kind token = KindOpen
          then bindM (StreamDecoder_SkipValue token) (\<lambda>_. readNumberedLoop target acc visit)
          else case numericKey token of
            None \<Rightarrow> readNumberedLoop target acc visit
          | Some idn \<Rightarrow>
              bindM StreamDecoder_Next (\<lambda>nxt.
              if Kind nxt \<noteq> KindEqual
              then bindM (StreamDecoder_SkipValue nxt) (\<lambda>_. readNumberedLoop target acc visit)
              else
                bindM StreamDecoder_Next (\<lambda>entry.
                if Kind entry \<noteq> KindOpen then readNumberedLoop target acc visit
                else
                  bindM getM (\<lambda>before.
                  bindM (visit idn entry acc) (\<lambda>acc'.
                  bindM (StreamDecoder_SkipToDepth (sd_depth before - 1)) (\<lambda>_.
                    readNumberedLoop target acc' visit)))))) d
      else returnM acc d)"

definition readNumberedEntries :: "'v \<Rightarrow> 'v numberedVisitor \<Rightarrow> (StreamDecoder, 'v) save_m" where
  "readNumberedEntries acc visit d = readNumberedLoop (sd_depth d - 1) acc visit d"

text \<open>A visitor that leaves its value to the shared \<^verbatim>\<open>d.SkipValue(value)\<close> at the end.\<close>

definition skipThen :: "Token \<Rightarrow> 'v \<Rightarrow> (StreamDecoder, 'v) save_m" where
  "skipThen value acc = bindM (StreamDecoder_SkipValue value) (\<lambda>_. returnM acc)"

section \<open>Lists and numbers\<close>

partial_function (option) streamListLoop ::
  "int \<Rightarrow> Limits \<Rightarrow> bytes list \<Rightarrow> bool \<Rightarrow> StreamDecoder
    \<Rightarrow> ((SaveError + (bytes list \<times> bool)) \<times> StreamDecoder) option" where
  "streamListLoop target limits items truncated d =
     (if sd_depth d > target then
        bindM StreamDecoder_Next (\<lambda>token.
          if Kind token = KindOpen
          then bindM (StreamDecoder_SkipValue token) (\<lambda>_. streamListLoop target limits items truncated)
          else if Kind token = KindQuoted \<or> Kind token = KindUnquoted then
            (if int (length items) \<ge> MaxArrayItems limits then streamListLoop target limits items True
             else streamListLoop target limits (items @ [Text token]) truncated)
          else streamListLoop target limits items truncated) d
      else returnM (items, truncated) d)"

definition readStreamList :: "Token \<Rightarrow> Limits \<Rightarrow> (StreamDecoder, bytes list \<times> bool) save_m" where
  "readStreamList value limits d =
     (if Kind value \<noteq> KindOpen then skipThen value ([], False) d
      else streamListLoop (sd_depth d - 1) limits [] False d)"

partial_function (option) streamNumbersLoop ::
  "int \<Rightarrow> Limits \<Rightarrow> 64 word list \<Rightarrow> bool \<Rightarrow> StreamDecoder
    \<Rightarrow> ((SaveError + (64 word list \<times> bool)) \<times> StreamDecoder) option" where
  "streamNumbersLoop target limits items truncated d =
     (if sd_depth d > target then
        bindM StreamDecoder_Next (\<lambda>token.
          if Kind token = KindOpen
          then bindM (StreamDecoder_SkipValue token) (\<lambda>_. streamNumbersLoop target limits items truncated)
          else if isNumericKind (Kind token) then
            (if int (length items) \<ge> MaxArrayItems limits then streamNumbersLoop target limits items True
             else streamNumbersLoop target limits (items @ [signedOf token]) truncated)
          else streamNumbersLoop target limits items truncated) d
      else returnM (items, truncated) d)"

definition readStreamNumbers :: "Token \<Rightarrow> Limits \<Rightarrow> (StreamDecoder, 64 word list \<times> bool) save_m" where
  "readStreamNumbers value limits d =
     (if Kind value \<noteq> KindOpen then Some (Inr ([signedOf value], False), d)
      else streamNumbersLoop (sd_depth d - 1) limits [] False d)"

definition readWrappedNumber :: "TokenMap option \<Rightarrow> Token \<Rightarrow> bytes \<Rightarrow> (StreamDecoder, float64) save_m" where
  "readWrappedNumber resolver value inner =
     (if Kind value \<noteq> KindOpen then returnM (floatOf value)
      else readObjectStream resolver 0 (\<lambda>field fieldValue out.
        skipThen fieldValue (if field = inner then floatOf fieldValue else out)))"

section \<open>The query and what a pass collects\<close>

record GamestateQuery =
  QCharacter :: "64 word"
  TitlesHeldBy :: "64 word"
  QHouse :: "64 word"
  HouseValid :: bool
  Inventory :: bool

record TitleRecord =
  TitleSaveID :: "64 word"
  TitleKey :: bytes
  TitleRecName :: bytes
  Adjective :: bytes
  Holder :: "64 word"
  DeJureLiege :: "64 word"
  Since :: bytes

record HouseRecord =
  HouseSaveID :: "64 word"
  NameKey :: bytes
  LocalizedName :: bytes
  MottoKey :: bytes
  FoundDate :: bytes
  HeadOfHouse :: "64 word"

record CharacterRecord =
  CharSaveID :: "64 word"
  FirstNameKey :: bytes
  Birth :: bytes
  NicknameKey :: bytes
  NicknameText :: bytes
  Ethnicity :: bytes
  Alive :: bool
  CultureID :: "64 word"
  FaithID :: "64 word"
  HouseID :: "64 word"
  Skills :: "64 word list"
  TraitIndices :: "64 word list"
  Traits :: "bytes list"
  PrimarySpouse :: "64 word"
  Spouses :: "64 word list"
  Children :: "64 word list"
  Employer :: "64 word"
  Knight :: bool
  Gold :: float64
  Piety :: float64
  Prestige :: float64
  Health :: float64

record GamestateScan =
  TraitsLookup :: "bytes list"
  TitleKeys :: "bytes list"
  HouseNameKeys :: "bytes list"
  ScanCharacter :: "CharacterRecord option"
  Titles :: "TitleRecord list"
  ScanHouse :: "HouseRecord option"
  PlayedCharacter :: "64 word"
  ScanTruncated :: "bytes list"
  BytesRead :: int

definition newTitleRecord :: "64 word \<Rightarrow> TitleRecord" where
  "newTitleRecord idn =
     \<lparr>TitleSaveID = idn, TitleKey = [], TitleRecName = [], Adjective = [], Holder = 0,
      DeJureLiege = 0, Since = []\<rparr>"

definition newHouseRecord :: "64 word \<Rightarrow> HouseRecord" where
  "newHouseRecord idn =
     \<lparr>HouseSaveID = idn, NameKey = [], LocalizedName = [], MottoKey = [], FoundDate = [], HeadOfHouse = 0\<rparr>"

definition newCharacterRecord :: "64 word \<Rightarrow> bool \<Rightarrow> CharacterRecord" where
  "newCharacterRecord idn alive =
     \<lparr>CharSaveID = idn, FirstNameKey = [], Birth = [], NicknameKey = [], NicknameText = [],
      Ethnicity = [], Alive = alive, CultureID = 0, FaithID = 0, HouseID = 0, Skills = [],
      TraitIndices = [], Traits = [], PrimarySpouse = 0, Spouses = [], Children = [], Employer = 0,
      Knight = False, Gold = 0, Piety = 0, Prestige = 0, Health = 0\<rparr>"

definition emptyScan :: GamestateScan where
  "emptyScan =
     \<lparr>TraitsLookup = [], TitleKeys = [], HouseNameKeys = [], ScanCharacter = None, Titles = [],
      ScanHouse = None, PlayedCharacter = 0, ScanTruncated = [], BytesRead = 0\<rparr>"

section \<open>Landed titles\<close>

text \<open>The field visitor of one title. \<open>title_name_data\<close> is read as a container whatever its value is.\<close>

definition titleField :: "TokenMap option \<Rightarrow> TitleRecord streamVisitor" where
  "titleField resolver field value record =
     (if field = ''key'' then skipThen value (record\<lparr>TitleKey := Text value\<rparr>)
      else if field = ''holder'' then skipThen value (record\<lparr>Holder := signedOf value\<rparr>)
      else if field = ''de_jure_liege'' then skipThen value (record\<lparr>DeJureLiege := signedOf value\<rparr>)
      else if field = ''date'' then bindM (dateM value) (\<lambda>s. skipThen value (record\<lparr>Since := s\<rparr>))
      else if field = ''title_name_data'' then
        readObjectStream resolver record (\<lambda>sub subValue record.
          skipThen subValue
            (if sub = ''name'' then record\<lparr>TitleRecName := Text subValue\<rparr>
             else if sub = ''adj'' then record\<lparr>Adjective := Text subValue\<rparr>
             else record))
      else skipThen value record)"

definition noteTitleKey ::
  "Limits \<Rightarrow> TitleRecord \<Rightarrow> GamestateScan \<times> bytes list \<Rightarrow> GamestateScan \<times> bytes list" where
  "noteTitleKey limits record = (\<lambda>(scan, seen).
     if TitleKey record \<in> set seen then (scan, seen)
     else if int (length (TitleKeys scan)) \<ge> MaxArrayItems limits
     then (scan\<lparr>ScanTruncated := appendTruncated (ScanTruncated scan) True ''title_keys''\<rparr>, seen)
     else (scan\<lparr>TitleKeys := TitleKeys scan @ [TitleKey record]\<rparr>, TitleKey record # seen))"

definition noteTitle :: "Limits \<Rightarrow> TitleRecord \<Rightarrow> GamestateScan \<Rightarrow> GamestateScan" where
  "noteTitle limits record scan =
     (if int (length (Titles scan)) \<ge> MaxArrayItems limits
      then scan\<lparr>ScanTruncated := appendTruncated (ScanTruncated scan) True ''titles''\<rparr>
      else scan\<lparr>Titles := Titles scan @ [record]\<rparr>)"

definition titleEntry ::
  "TokenMap option \<Rightarrow> GamestateQuery \<Rightarrow> Limits \<Rightarrow> (GamestateScan \<times> bytes list) numberedVisitor" where
  "titleEntry resolver query limits idn entry = (\<lambda>(scan, seen).
     bindM (readObjectStream resolver (newTitleRecord idn) (titleField resolver)) (\<lambda>record.
       let (scan1, seen1) =
             (if Inventory query \<and> TitleKey record \<noteq> [] then noteTitleKey limits record (scan, seen)
              else (scan, seen));
           scan2 =
             (if TitlesHeldBy query \<noteq> 0 \<and> Holder record = TitlesHeldBy query
              then noteTitle limits record scan1 else scan1)
       in returnM (scan2, seen1)))"

definition readLandedTitles ::
  "TokenMap option \<Rightarrow> Token \<Rightarrow> GamestateQuery \<Rightarrow> Limits \<Rightarrow> GamestateScan \<Rightarrow> (StreamDecoder, GamestateScan) save_m" where
  "readLandedTitles resolver value query limits scan =
     (if Kind value \<noteq> KindOpen then skipThen value scan
      else if \<not> Inventory query \<and> TitlesHeldBy query = 0 then skipThen value scan
      else mapS fst (readObjectStream resolver (scan, [])
        (\<lambda>name inner acc.
           if name \<noteq> ''landed_titles'' \<or> Kind inner \<noteq> KindOpen then skipThen inner acc
           else readNumberedEntries acc (titleEntry resolver query limits))))"

section \<open>Dynasty houses\<close>

definition houseField :: "TokenMap option \<Rightarrow> HouseRecord streamVisitor" where
  "houseField resolver field value record =
     (if field = ''name'' then skipThen value (record\<lparr>NameKey := Text value\<rparr>)
      else if field = ''localized_name'' then skipThen value (record\<lparr>LocalizedName := Text value\<rparr>)
      else if field = ''found_date'' then bindM (dateM value) (\<lambda>s. skipThen value (record\<lparr>FoundDate := s\<rparr>))
      else if field = ''head_of_house'' then skipThen value (record\<lparr>HeadOfHouse := signedOf value\<rparr>)
      else if field = ''motto'' then
        (if Kind value = KindOpen then
           readObjectStream resolver record (\<lambda>sub subValue record.
             skipThen subValue (if sub = ''key'' then record\<lparr>MottoKey := Text subValue\<rparr> else record))
         else if Kind value = KindQuoted \<or> Kind value = KindUnquoted
         then skipThen value (record\<lparr>MottoKey := Text value\<rparr>)
         else skipThen value record)
      else skipThen value record)"

definition noteHouseKey ::
  "Limits \<Rightarrow> HouseRecord \<Rightarrow> GamestateScan \<times> bytes list \<Rightarrow> GamestateScan \<times> bytes list" where
  "noteHouseKey limits record = (\<lambda>(scan, seen).
     if NameKey record \<in> set seen then (scan, seen)
     else if int (length (HouseNameKeys scan)) \<ge> MaxArrayItems limits
     then (scan\<lparr>ScanTruncated := appendTruncated (ScanTruncated scan) True ''house_name_keys''\<rparr>, seen)
     else (scan\<lparr>HouseNameKeys := HouseNameKeys scan @ [NameKey record]\<rparr>, NameKey record # seen))"

definition houseEntry ::
  "TokenMap option \<Rightarrow> GamestateQuery \<Rightarrow> Limits \<Rightarrow> (GamestateScan \<times> bytes list) numberedVisitor" where
  "houseEntry resolver query limits idn entry = (\<lambda>(scan, seen).
     let wanted = HouseValid query \<and> idn = QHouse query in
     if \<not> wanted \<and> \<not> Inventory query then returnM (scan, seen)
     else
       bindM (readObjectStream resolver (newHouseRecord idn) (houseField resolver)) (\<lambda>record.
         let (scan1, seen1) =
               (if Inventory query \<and> NameKey record \<noteq> [] then noteHouseKey limits record (scan, seen)
                else (scan, seen))
         in returnM (if wanted then scan1\<lparr>ScanHouse := Some record\<rparr> else scan1, seen1)))"

definition readDynasties ::
  "TokenMap option \<Rightarrow> Token \<Rightarrow> GamestateQuery \<Rightarrow> Limits \<Rightarrow> GamestateScan \<Rightarrow> (StreamDecoder, GamestateScan) save_m" where
  "readDynasties resolver value query limits scan =
     (if Kind value \<noteq> KindOpen then skipThen value scan
      else if \<not> Inventory query \<and> \<not> HouseValid query then skipThen value scan
      else mapS fst (readObjectStream resolver (scan, [])
        (\<lambda>name inner acc.
           if name \<noteq> ''dynasty_house'' \<or> Kind inner \<noteq> KindOpen then skipThen inner acc
           else readNumberedEntries acc (houseEntry resolver query limits))))"

section \<open>Characters\<close>

definition familyField :: "Limits \<Rightarrow> CharacterRecord streamVisitor" where
  "familyField limits sub value c =
     (if sub = ''primary_spouse'' then skipThen value (c\<lparr>PrimarySpouse := signedOf value\<rparr>)
      else if sub = ''spouse'' then
        (if Kind value = KindOpen
         then bindM (readStreamNumbers value limits) (\<lambda>(values, truncated). returnM (c\<lparr>Spouses := values\<rparr>))
         else skipThen value (c\<lparr>Spouses := Spouses c @ [signedOf value]\<rparr>))
      else if sub = ''child'' then
        bindM (readStreamNumbers value limits) (\<lambda>(values, truncated). returnM (c\<lparr>Children := values\<rparr>))
      else skipThen value c)"

definition courtField :: "CharacterRecord streamVisitor" where
  "courtField sub value c =
     skipThen value
       (if sub = ''employer'' then c\<lparr>Employer := signedOf value\<rparr>
        else if sub = ''knight'' then c\<lparr>Knight := (Kind value = KindBool \<and> Bool value)\<rparr>
        else c)"

definition aliveField :: "TokenMap option \<Rightarrow> CharacterRecord streamVisitor" where
  "aliveField resolver sub value c =
     (if sub = ''health'' then skipThen value (c\<lparr>Health := floatOf value\<rparr>)
      else if sub = ''gold'' then
        bindM (readWrappedNumber resolver value ''value'') (\<lambda>x. returnM (c\<lparr>Gold := x\<rparr>))
      else if sub = ''piety'' then
        bindM (readWrappedNumber resolver value ''currency'') (\<lambda>x. returnM (c\<lparr>Piety := x\<rparr>))
      else if sub = ''prestige'' then
        bindM (readWrappedNumber resolver value ''currency'') (\<lambda>x. returnM (c\<lparr>Prestige := x\<rparr>))
      else skipThen value c)"

definition characterField :: "TokenMap option \<Rightarrow> Limits \<Rightarrow> CharacterRecord streamVisitor" where
  "characterField resolver limits field value c =
     (if field = ''first_name'' then skipThen value (c\<lparr>FirstNameKey := Text value\<rparr>)
      else if field = ''birth'' then bindM (dateM value) (\<lambda>s. skipThen value (c\<lparr>Birth := s\<rparr>))
      else if field = ''nickname'' then skipThen value (c\<lparr>NicknameKey := Text value\<rparr>)
      else if field = ''nickname_text'' then skipThen value (c\<lparr>NicknameText := Text value\<rparr>)
      else if field = ''ethnicity'' then skipThen value (c\<lparr>Ethnicity := Text value\<rparr>)
      else if field = ''culture'' then skipThen value (c\<lparr>CultureID := signedOf value\<rparr>)
      else if field = ''faith'' then skipThen value (c\<lparr>FaithID := signedOf value\<rparr>)
      else if field = ''dynasty_house'' then skipThen value (c\<lparr>HouseID := signedOf value\<rparr>)
      else if field = ''skill'' then
        bindM (readStreamNumbers value limits) (\<lambda>(values, truncated). returnM (c\<lparr>Skills := values\<rparr>))
      else if field = ''traits'' then
        bindM (readStreamNumbers value limits) (\<lambda>(values, truncated). returnM (c\<lparr>TraitIndices := values\<rparr>))
      else if field = ''family_data'' then readObjectStream resolver c (familyField limits)
      else if field = ''court_data'' then readObjectStream resolver c courtField
      else if field = ''alive_data'' then readObjectStream resolver c (aliveField resolver)
      else skipThen value c)"

definition readFields ::
  "TokenMap option \<Rightarrow> Limits \<Rightarrow> CharacterRecord \<Rightarrow> (StreamDecoder, CharacterRecord) save_m" where
  "readFields resolver limits c = readObjectStream resolver c (characterField resolver limits)"

definition characterEntry ::
  "TokenMap option \<Rightarrow> GamestateQuery \<Rightarrow> Limits \<Rightarrow> bool \<Rightarrow> GamestateScan numberedVisitor" where
  "characterEntry resolver query limits alive idn entry scan =
     (if idn \<noteq> QCharacter query then returnM scan
      else bindM (readFields resolver limits (newCharacterRecord idn alive)) (\<lambda>record.
        returnM (scan\<lparr>ScanCharacter := Some record\<rparr>)))"

definition readCharacters ::
  "TokenMap option \<Rightarrow> Token \<Rightarrow> GamestateQuery \<Rightarrow> Limits \<Rightarrow> bool \<Rightarrow> GamestateScan
    \<Rightarrow> (StreamDecoder, GamestateScan) save_m" where
  "readCharacters resolver value query limits alive scan =
     (if Kind value \<noteq> KindOpen \<or> QCharacter query = 0 \<or> ScanCharacter scan \<noteq> None then skipThen value scan
      else readNumberedEntries scan (characterEntry resolver query limits alive))"

definition readPlayed ::
  "TokenMap option \<Rightarrow> Token \<Rightarrow> GamestateScan \<Rightarrow> (StreamDecoder, GamestateScan) save_m" where
  "readPlayed resolver value scan =
     (if Kind value \<noteq> KindOpen then skipThen value scan
      else readObjectStream resolver scan (\<lambda>field fieldValue scan.
        skipThen fieldValue
          (if field = ''character'' then scan\<lparr>PlayedCharacter := signedOf fieldValue\<rparr> else scan)))"

section \<open>The pass\<close>

text \<open>\<^verbatim>\<open>traitIndex\<close>: every \<open>traits_lookup\<close> block writes its positions into one map.\<close>

type_synonym traitIndex = "(64 word \<times> bytes) list"

definition indexTraits :: "bytes list \<Rightarrow> traitIndex \<Rightarrow> traitIndex" where
  "indexTraits names index = map (\<lambda>(i, n). (word_of_nat i, n)) (rev (enumerate 0 names)) @ index"

definition scanBlock ::
  "TokenMap option \<Rightarrow> GamestateQuery \<Rightarrow> Limits \<Rightarrow> (GamestateScan \<times> traitIndex) streamVisitor" where
  "scanBlock resolver query limits name value = (\<lambda>(scan, index).
     let keep = (\<lambda>m. bindM m (\<lambda>scan. returnM (scan, index))) in
     if name = ''traits_lookup'' then
       bindM (readStreamList value limits) (\<lambda>(names, truncated).
         returnM (scan\<lparr>TraitsLookup := names,
             ScanTruncated := appendTruncated (ScanTruncated scan) truncated ''traits_lookup''\<rparr>,
           indexTraits names index))
     else if name = ''landed_titles'' then keep (readLandedTitles resolver value query limits scan)
     else if name = ''dynasties'' then keep (readDynasties resolver value query limits scan)
     else if name = ''living'' \<or> name = ''dead_unprunable'' \<or> name = ''characters''
     then keep (readCharacters resolver value query limits (name = ''living'') scan)
     else if name = ''played_character'' then keep (readPlayed resolver value scan)
     else skipThen value (scan, index))"

definition resolveTraits :: "traitIndex \<Rightarrow> CharacterRecord \<Rightarrow> CharacterRecord" where
  "resolveTraits index c =
     c\<lparr>Traits := Traits c @ List.map_filter (map_of index) (TraitIndices c)\<rparr>"

definition ScanGamestateFor ::
  "Encoding \<Rightarrow> readEvent list \<Rightarrow> TokenMap option \<Rightarrow> GamestateQuery \<Rightarrow> Limits
    \<Rightarrow> (SaveError + GamestateScan) option" where
  "ScanGamestateFor encoding src resolver query limits =
     (if resolver = None \<and> encoding \<noteq> EncodingText
      then Some (Inl (newError ErrTokenMap ''a token map is required to navigate a binary gamestate''))
      else
        case readObjectStream resolver (emptyScan, []) (scanBlock resolver query limits)
            (NewStreamDecoderFor encoding src (streamLimits limits)) of
          None \<Rightarrow> None
        | Some (Inl e, d) \<Rightarrow> Some (Inl e)
        | Some (Inr (scan, index), d) \<Rightarrow>
            Some (Inr (scan\<lparr>ScanCharacter := map_option (resolveTraits index) (ScanCharacter scan),
              BytesRead := sd_read d\<rparr>)))"

definition ScanGamestate ::
  "readEvent list \<Rightarrow> TokenMap option \<Rightarrow> GamestateQuery \<Rightarrow> Limits \<Rightarrow> (SaveError + GamestateScan) option" where
  "ScanGamestate src resolver query limits = ScanGamestateFor EncodingBinary src resolver query limits"

text \<open>The loops run as they are written.\<close>

declare readObjectLoop.simps [code]
  readNumberedLoop.simps [code]
  streamListLoop.simps [code]
  streamNumbersLoop.simps [code]

end
