(* ===== verification/Timeline.thy ===== *)
theory Timeline
  imports Gamestate "HOL-Library.AList"
begin

text \<open>
  \<^verbatim>\<open>internal/savefile/timeline.go\<close>: one bounded pass over a streamed gamestate that collects dated events, sorts
  them by date and cuts them to a window. As in \<open>Gamestate\<close> a visitor takes what was collected so far and yields
  the next value, and an error discards it. Maps are association lists; a map that is nil and one that is empty
  are the same list. Character and save ids are \<^verbatim>\<open>int64\<close> bit patterns.
\<close>

section \<open>Events and queries\<close>

definition noCharacter :: "64 word" where "noCharacter = 4294967295"

definition EventTitleHistory :: bytes where "EventTitleHistory = ''title_history''"
definition EventCharacterMemory :: bytes where "EventCharacterMemory = ''character_memory''"
definition EventScheme :: bytes where "EventScheme = ''scheme''"
definition EventCourtPosition :: bytes where "EventCourtPosition = ''court_position''"
definition EventVassalContract :: bytes where "EventVassalContract = ''vassal_contract''"
definition EventHouseRelation :: bytes where "EventHouseRelation = ''house_relation''"
definition EventStruggle :: bytes where "EventStruggle = ''struggle''"

definition TimelineKinds :: "bytes list" where
  "TimelineKinds = [EventTitleHistory, EventCharacterMemory, EventScheme, EventCourtPosition,
     EventVassalContract, EventHouseRelation, EventStruggle]"

record TimelineEvent =
  TeDate :: bytes
  TeKind :: bytes
  TeType :: bytes
  TeTitle :: bytes
  TeTitleID :: "64 word"
  TeHolder :: "64 word"
  TeMemoryID :: "64 word"
  TeParticipants :: "(bytes \<times> 64 word) list"
  TeEndDate :: bytes
  TeOwner :: "64 word"
  TeTarget :: "64 word"
  TeTargetType :: bytes
  TeStatus :: bytes
  TeProgress :: "64 word"
  TeExposed :: bool
  TeHouses :: "64 word list"
  TeLevel :: bytes
  TeAmount :: float64
  TeReason :: bytes

text \<open>The literal \<^verbatim>\<open>TimelineEvent{Kind: kind}\<close>.\<close>

definition newEvent :: "bytes \<Rightarrow> TimelineEvent" where
  "newEvent kind =
     \<lparr>TeDate = [], TeKind = kind, TeType = [], TeTitle = [], TeTitleID = 0, TeHolder = 0, TeMemoryID = 0,
      TeParticipants = [], TeEndDate = [], TeOwner = 0, TeTarget = 0, TeTargetType = [], TeStatus = [],
      TeProgress = 0, TeExposed = False, TeHouses = [], TeLevel = [], TeAmount = 0, TeReason = []\<rparr>"

record TimelineQuery =
  TqCharacter :: "64 word"
  TqKinds :: "bytes list"
  TqMaxEvents :: int

definition wantsKind :: "TimelineQuery \<Rightarrow> bytes \<Rightarrow> bool" where
  "wantsKind q kind \<longleftrightarrow> TqKinds q = [] \<or> kind \<in> set (TqKinds q)"

definition maxCollectedEvents :: int where "maxCollectedEvents = 50000"

record TimelineScan =
  TsEvents :: "TimelineEvent list"
  TsTotal :: int
  TsTotals :: "(bytes \<times> int) list"
  TitlesSeen :: int
  MemoriesSeen :: int
  SchemesSeen :: int
  CourtPositionsSeen :: int
  ContractsSeen :: int
  HouseRelationsSeen :: int
  StrugglesSeen :: int
  TsTruncated :: "bytes list"
  TsBytesRead :: int

definition emptyTimeline :: TimelineScan where
  "emptyTimeline =
     \<lparr>TsEvents = [], TsTotal = 0, TsTotals = [], TitlesSeen = 0, MemoriesSeen = 0, SchemesSeen = 0,
      CourtPositionsSeen = 0, ContractsSeen = 0, HouseRelationsSeen = 0, StrugglesSeen = 0,
      TsTruncated = [], TsBytesRead = 0\<rparr>"

definition Examined :: "TimelineScan \<Rightarrow> (bytes \<times> int) list" where
  "Examined s =
     [(EventTitleHistory, TitlesSeen s), (EventCharacterMemory, MemoriesSeen s), (EventScheme, SchemesSeen s),
      (EventCourtPosition, CourtPositionsSeen s), (EventVassalContract, ContractsSeen s),
      (EventHouseRelation, HouseRelationsSeen s), (EventStruggle, StrugglesSeen s)]"

text \<open>\<^verbatim>\<open>keep\<close>: the totals go on past the ceiling, a missing total counts from zero.\<close>

definition hasTruncation :: "bytes list \<Rightarrow> bytes \<Rightarrow> bool" where
  "hasTruncation reasons reason \<longleftrightarrow> reason \<in> set reasons"

definition totalOf :: "(bytes \<times> int) list \<Rightarrow> bytes \<Rightarrow> int" where
  "totalOf totals kind = (case map_of totals kind of None \<Rightarrow> 0 | Some n \<Rightarrow> n)"

definition keepEvent :: "TimelineEvent \<Rightarrow> TimelineScan \<Rightarrow> TimelineScan" where
  "keepEvent event s =
     (let s = s\<lparr>TsTotal := TsTotal s + 1,
               TsTotals := AList.update (TeKind event) (totalOf (TsTotals s) (TeKind event) + 1) (TsTotals s)\<rparr> in
      if int (length (TsEvents s)) \<ge> maxCollectedEvents
      then s\<lparr>TsTruncated := appendTruncated (TsTruncated s)
              (\<not> hasTruncation (TsTruncated s) ''collection_ceiling'') ''collection_ceiling''\<rparr>
      else s\<lparr>TsEvents := TsEvents s @ [event]\<rparr>)"

definition windowEvents :: "int \<Rightarrow> TimelineScan \<Rightarrow> TimelineScan" where
  "windowEvents limit s =
     (if limit \<le> 0 \<or> int (length (TsEvents s)) \<le> limit then s
      else s\<lparr>TsEvents := drop (length (TsEvents s) - nat limit) (TsEvents s),
             TsTruncated := appendTruncated (TsTruncated s) (\<not> hasTruncation (TsTruncated s) ''events'') ''events''\<rparr>)"

definition characterRef :: "Token \<Rightarrow> 64 word" where
  "characterRef token = (let value = signedOf token in if value \<noteq> noCharacter then value else 0)"

section \<open>Shared walks\<close>

text \<open>\<^verbatim>\<open>readDatabaseEntries\<close>, and \<^verbatim>\<open>readContainerList\<close> with its count of the elements visited.\<close>

definition readDatabaseEntries ::
  "TokenMap option \<Rightarrow> Token \<Rightarrow> 'v \<Rightarrow> 'v numberedVisitor \<Rightarrow> (StreamDecoder, 'v) save_m" where
  "readDatabaseEntries resolver value acc visit =
     (if Kind value \<noteq> KindOpen then skipThen value acc
      else readObjectStream resolver acc (\<lambda>name inner acc.
        if name \<noteq> ''database'' \<or> Kind inner \<noteq> KindOpen then skipThen inner acc
        else readNumberedEntries acc visit))"

partial_function (option) containerListLoop ::
  "int \<Rightarrow> Limits \<Rightarrow> int \<Rightarrow> 'v \<Rightarrow> ('v \<Rightarrow> (StreamDecoder, 'v) save_m) \<Rightarrow> StreamDecoder
    \<Rightarrow> ((SaveError + 'v) \<times> StreamDecoder) option" where
  "containerListLoop target limits seen acc visit d =
     (if sd_depth d > target then
        bindM StreamDecoder_Next (\<lambda>token.
          if Kind token = KindClose then containerListLoop target limits seen acc visit
          else if Kind token \<noteq> KindOpen then containerListLoop target limits seen acc visit
          else if seen \<ge> MaxArrayItems limits
          then bindM (StreamDecoder_SkipValue token) (\<lambda>_. containerListLoop target limits seen acc visit)
          else
            bindM getM (\<lambda>before.
            bindM (visit acc) (\<lambda>acc'.
            bindM (StreamDecoder_SkipToDepth (sd_depth before - 1)) (\<lambda>_.
              containerListLoop target limits (seen + 1) acc' visit)))) d
      else returnM acc d)"

definition readContainerList ::
  "Token \<Rightarrow> Limits \<Rightarrow> 'v \<Rightarrow> ('v \<Rightarrow> (StreamDecoder, 'v) save_m) \<Rightarrow> (StreamDecoder, 'v) save_m" where
  "readContainerList value limits acc visit d =
     (if Kind value \<noteq> KindOpen then skipThen value acc d
      else containerListLoop (sd_depth d - 1) limits 0 acc visit d)"

declare containerListLoop.simps [code]

section \<open>Titles\<close>

text \<open>\<^verbatim>\<open>readTitleHistory\<close>: the keys of the entries are the dates.\<close>

definition successionField :: "TimelineEvent streamVisitor" where
  "successionField field value event =
     skipThen value
       (if field = ''type'' then event\<lparr>TeType := Text value\<rparr>
        else if field = ''holder'' then event\<lparr>TeHolder := signedOf value\<rparr>
        else event)"

definition successionEntry :: "TokenMap option \<Rightarrow> Limits \<Rightarrow> TimelineEvent list streamVisitor" where
  "successionEntry resolver limits time entry events =
     (if int (length events) \<ge> MaxArrayItems limits then skipThen entry events
      else
        let event = (newEvent EventTitleHistory)\<lparr>TeDate := time\<rparr> in
        if Kind entry \<noteq> KindOpen then returnM (events @ [event\<lparr>TeHolder := signedOf entry\<rparr>])
        else bindM (readObjectStream resolver event successionField) (\<lambda>event. returnM (events @ [event])))"

definition readTitleHistory ::
  "TokenMap option \<Rightarrow> Token \<Rightarrow> Limits \<Rightarrow> (StreamDecoder, TimelineEvent list) save_m" where
  "readTitleHistory resolver value limits =
     (if Kind value \<noteq> KindOpen then skipThen value []
      else readObjectStream resolver [] (successionEntry resolver limits))"

definition titleHistoryField :: "TokenMap option \<Rightarrow> Limits \<Rightarrow> (bytes \<times> TimelineEvent list) streamVisitor" where
  "titleHistoryField resolver limits field value = (\<lambda>(key, events).
     if field = ''key'' then skipThen value (Text value, events)
     else if field = ''history''
     then bindM (readTitleHistory resolver value limits) (\<lambda>collected. returnM (key, collected))
     else skipThen value (key, events))"

definition keepSuccession :: "TimelineQuery \<Rightarrow> bytes \<Rightarrow> 64 word \<Rightarrow> TimelineEvent \<Rightarrow> TimelineScan \<Rightarrow> TimelineScan" where
  "keepSuccession query key idn event s =
     (if TqCharacter query \<noteq> 0 \<and> TeHolder event \<noteq> TqCharacter query then s
      else keepEvent (event\<lparr>TeTitle := key, TeTitleID := idn\<rparr>) s)"

definition titleHistoryEntry :: "TokenMap option \<Rightarrow> TimelineQuery \<Rightarrow> Limits \<Rightarrow> TimelineScan numberedVisitor" where
  "titleHistoryEntry resolver query limits idn entry s =
     bindM (readObjectStream resolver ([], []) (titleHistoryField resolver limits)) (\<lambda>(key, events).
       returnM (fold (keepSuccession query key idn) events (s\<lparr>TitlesSeen := TitlesSeen s + 1\<rparr>)))"

definition readTitleHistories ::
  "TokenMap option \<Rightarrow> Token \<Rightarrow> TimelineQuery \<Rightarrow> Limits \<Rightarrow> TimelineScan \<Rightarrow> (StreamDecoder, TimelineScan) save_m" where
  "readTitleHistories resolver value query limits s =
     (if Kind value \<noteq> KindOpen then skipThen value s
      else readObjectStream resolver s (\<lambda>name inner s.
        if name \<noteq> ''landed_titles'' \<or> Kind inner \<noteq> KindOpen then skipThen inner s
        else readNumberedEntries s (titleHistoryEntry resolver query limits)))"

section \<open>Characters and memories\<close>

record characterContext =
  CcMemories :: "64 word list"
  CcHouse :: "64 word"

definition emptyContext :: characterContext where
  "emptyContext = \<lparr>CcMemories = [], CcHouse = 0\<rparr>"

definition memoryIds :: "Limits \<Rightarrow> characterContext streamVisitor" where
  "memoryIds limits sub value context =
     (if sub \<noteq> ''memories'' then skipThen value context
      else bindM (readStreamNumbers value limits) (\<lambda>(ids, truncated).
        returnM (context\<lparr>CcMemories := CcMemories context @ ids\<rparr>)))"

definition contextField :: "TokenMap option \<Rightarrow> Limits \<Rightarrow> characterContext streamVisitor" where
  "contextField resolver limits field value context =
     (if field = ''dynasty_house'' then skipThen value (context\<lparr>CcHouse := signedOf value\<rparr>)
      else if field \<noteq> ''alive_data'' \<and> field \<noteq> ''dead_data'' then skipThen value context
      else readObjectStream resolver context (memoryIds limits))"

definition readCharacterContext ::
  "TokenMap option \<Rightarrow> Token \<Rightarrow> TimelineQuery \<Rightarrow> Limits \<Rightarrow> characterContext \<Rightarrow> (StreamDecoder, characterContext) save_m" where
  "readCharacterContext resolver value query limits context =
     (if Kind value \<noteq> KindOpen then skipThen value context
      else readNumberedEntries context (\<lambda>idn entry context.
        if idn \<noteq> TqCharacter query then returnM context
        else readObjectStream resolver context (contextField resolver limits)))"

definition participantField :: "Limits \<Rightarrow> TimelineEvent streamVisitor" where
  "participantField limits role who event =
     skipThen who
       (if int (length (TeParticipants event)) < MaxArrayItems limits
        then event\<lparr>TeParticipants := AList.update role (signedOf who) (TeParticipants event)\<rparr>
        else event)"

definition memoryField :: "TokenMap option \<Rightarrow> Limits \<Rightarrow> TimelineEvent streamVisitor" where
  "memoryField resolver limits field value event =
     (if field = ''type'' then skipThen value (event\<lparr>TeType := Text value\<rparr>)
      else if field = ''creation_date'' then bindM (dateM value) (\<lambda>s. skipThen value (event\<lparr>TeDate := s\<rparr>))
      else if field = ''end_date'' then bindM (dateM value) (\<lambda>s. skipThen value (event\<lparr>TeEndDate := s\<rparr>))
      else if field = ''participants'' then
        (if Kind value \<noteq> KindOpen then skipThen value event
         else readObjectStream resolver event (participantField limits))
      else skipThen value event)"

definition memoryInvolves :: "TimelineEvent \<Rightarrow> 64 word \<Rightarrow> 64 word list \<Rightarrow> bool" where
  "memoryInvolves event character owned \<longleftrightarrow>
     TeMemoryID event \<in> set owned \<or> character \<in> set (map snd (TeParticipants event))"

definition memoryEntry ::
  "TokenMap option \<Rightarrow> TimelineQuery \<Rightarrow> Limits \<Rightarrow> 64 word list \<Rightarrow> TimelineScan numberedVisitor" where
  "memoryEntry resolver query limits owned idn entry s =
     bindM (readObjectStream resolver ((newEvent EventCharacterMemory)\<lparr>TeMemoryID := idn\<rparr>) (memoryField resolver limits))
       (\<lambda>event.
         let s = s\<lparr>MemoriesSeen := MemoriesSeen s + 1\<rparr> in
         returnM (if TqCharacter query \<noteq> 0 \<and> \<not> memoryInvolves event (TqCharacter query) owned then s
                  else keepEvent event s))"

definition readMemories ::
  "TokenMap option \<Rightarrow> Token \<Rightarrow> TimelineQuery \<Rightarrow> Limits \<Rightarrow> 64 word list \<Rightarrow> TimelineScan \<Rightarrow> (StreamDecoder, TimelineScan) save_m" where
  "readMemories resolver value query limits owned s =
     (if Kind value \<noteq> KindOpen then skipThen value s
      else readObjectStream resolver s (\<lambda>name inner s.
        if name \<noteq> ''database'' \<or> Kind inner \<noteq> KindOpen then skipThen inner s
        else readNumberedEntries s (memoryEntry resolver query limits owned)))"

section \<open>Schemes, court positions and contracts\<close>

text \<open>Events with two ends, kept when the character is one of them.\<close>

definition keepBetween :: "TimelineQuery \<Rightarrow> TimelineEvent \<Rightarrow> TimelineScan \<Rightarrow> TimelineScan" where
  "keepBetween query event s =
     (if TqCharacter query \<noteq> 0 \<and> TeOwner event \<noteq> TqCharacter query \<and> TeTarget event \<noteq> TqCharacter query then s
      else keepEvent event s)"

definition schemeTarget :: "TimelineEvent streamVisitor" where
  "schemeTarget sub value event =
     skipThen value
       (if sub = ''type'' then event\<lparr>TeTargetType := Text value\<rparr>
        else if sub = ''target'' then event\<lparr>TeTarget := signedOf value\<rparr>
        else event)"

definition schemeField :: "TokenMap option \<Rightarrow> TimelineEvent streamVisitor" where
  "schemeField resolver field value event =
     (if field = ''type'' then skipThen value (event\<lparr>TeType := Text value\<rparr>)
      else if field = ''status'' then skipThen value (event\<lparr>TeStatus := Text value\<rparr>)
      else if field = ''owner'' then skipThen value (event\<lparr>TeOwner := signedOf value\<rparr>)
      else if field = ''progress'' then skipThen value (event\<lparr>TeProgress := signedOf value\<rparr>)
      else if field = ''scheme_exposed'' then skipThen value (event\<lparr>TeExposed := (Kind value = KindBool \<and> Bool value)\<rparr>)
      else if field = ''date'' then bindM (dateM value) (\<lambda>s. skipThen value (event\<lparr>TeDate := s\<rparr>))
      else if field = ''target'' then
        (if Kind value \<noteq> KindOpen then returnM (event\<lparr>TeTarget := signedOf value\<rparr>)
         else readObjectStream resolver event schemeTarget)
      else skipThen value event)"

definition schemeEntry :: "TokenMap option \<Rightarrow> TimelineQuery \<Rightarrow> TimelineScan numberedVisitor" where
  "schemeEntry resolver query idn entry s =
     bindM (readObjectStream resolver (newEvent EventScheme) (schemeField resolver)) (\<lambda>event.
       returnM (keepBetween query event (s\<lparr>SchemesSeen := SchemesSeen s + 1\<rparr>)))"

definition readSchemes ::
  "TokenMap option \<Rightarrow> Token \<Rightarrow> TimelineQuery \<Rightarrow> TimelineScan \<Rightarrow> (StreamDecoder, TimelineScan) save_m" where
  "readSchemes resolver value query s =
     (if Kind value \<noteq> KindOpen then skipThen value s
      else readObjectStream resolver s (\<lambda>name inner s.
        if name \<noteq> ''active'' \<or> Kind inner \<noteq> KindOpen then skipThen inner s
        else readNumberedEntries s (schemeEntry resolver query)))"

definition courtPositionField :: "TimelineEvent streamVisitor" where
  "courtPositionField field value event =
     (if field = ''court_position'' then skipThen value (event\<lparr>TeType := Text value\<rparr>)
      else if field = ''employer'' then skipThen value (event\<lparr>TeOwner := characterRef value\<rparr>)
      else if field = ''employee'' then skipThen value (event\<lparr>TeTarget := characterRef value\<rparr>)
      else if field = ''hire_date'' then bindM (dateM value) (\<lambda>s. skipThen value (event\<lparr>TeDate := s\<rparr>))
      else skipThen value event)"

definition courtPositionEntry :: "TokenMap option \<Rightarrow> TimelineQuery \<Rightarrow> TimelineScan numberedVisitor" where
  "courtPositionEntry resolver query idn entry s =
     bindM (readObjectStream resolver (newEvent EventCourtPosition) courtPositionField) (\<lambda>event.
       returnM (keepBetween query event (s\<lparr>CourtPositionsSeen := CourtPositionsSeen s + 1\<rparr>)))"

definition readCourtPositions ::
  "TokenMap option \<Rightarrow> Token \<Rightarrow> TimelineQuery \<Rightarrow> TimelineScan \<Rightarrow> (StreamDecoder, TimelineScan) save_m" where
  "readCourtPositions resolver value query s = readDatabaseEntries resolver value s (courtPositionEntry resolver query)"

definition vassalContractField :: "TimelineEvent streamVisitor" where
  "vassalContractField field value event =
     (if field = ''contract_group'' then skipThen value (event\<lparr>TeType := Text value\<rparr>)
      else if field = ''liege'' then skipThen value (event\<lparr>TeOwner := characterRef value\<rparr>)
      else if field = ''vassal'' then skipThen value (event\<lparr>TeTarget := characterRef value\<rparr>)
      else if field = ''date'' then bindM (dateM value) (\<lambda>s. skipThen value (event\<lparr>TeDate := s\<rparr>))
      else skipThen value event)"

definition vassalContractEntry :: "TokenMap option \<Rightarrow> TimelineQuery \<Rightarrow> TimelineScan numberedVisitor" where
  "vassalContractEntry resolver query idn entry s =
     bindM (readObjectStream resolver (newEvent EventVassalContract) vassalContractField) (\<lambda>event.
       returnM (keepBetween query event (s\<lparr>ContractsSeen := ContractsSeen s + 1\<rparr>)))"

definition readVassalContracts ::
  "TokenMap option \<Rightarrow> Token \<Rightarrow> TimelineQuery \<Rightarrow> TimelineScan \<Rightarrow> (StreamDecoder, TimelineScan) save_m" where
  "readVassalContracts resolver value query s = readDatabaseEntries resolver value s (vassalContractEntry resolver query)"

section \<open>House relations\<close>

definition houseChangeField :: "TimelineEvent streamVisitor" where
  "houseChangeField sub value change =
     (if sub = ''date'' then bindM (dateM value) (\<lambda>s. skipThen value (change\<lparr>TeDate := s\<rparr>))
      else if sub = ''amount'' then skipThen value (change\<lparr>TeAmount := floatOf value\<rparr>)
      else if sub = ''level'' then skipThen value (change\<lparr>TeLevel := Text value\<rparr>)
      else if sub = ''change_reason'' then skipThen value (change\<lparr>TeReason := Text value\<rparr>)
      else skipThen value change)"

definition houseChange ::
  "TokenMap option \<Rightarrow> TimelineEvent list \<Rightarrow> (StreamDecoder, TimelineEvent list) save_m" where
  "houseChange resolver changes =
     bindM (readObjectStream resolver (newEvent EventHouseRelation) houseChangeField) (\<lambda>change.
       returnM (changes @ [change]))"

definition houseRelationField ::
  "TokenMap option \<Rightarrow> Limits \<Rightarrow> (64 word list \<times> TimelineEvent list) streamVisitor" where
  "houseRelationField resolver limits field value = (\<lambda>(houses, changes).
     if field = ''houses''
     then bindM (readStreamNumbers value limits) (\<lambda>(values, truncated). returnM (values, changes))
     else if field = ''history''
     then bindM (readContainerList value limits changes (houseChange resolver)) (\<lambda>changes. returnM (houses, changes))
     else skipThen value (houses, changes))"

definition containsID :: "64 word list \<Rightarrow> 64 word \<Rightarrow> bool" where
  "containsID values want \<longleftrightarrow> want \<noteq> 0 \<and> want \<in> set values"

definition houseRelationEntry ::
  "TokenMap option \<Rightarrow> TimelineQuery \<Rightarrow> Limits \<Rightarrow> 64 word \<Rightarrow> TimelineScan numberedVisitor" where
  "houseRelationEntry resolver query limits house idn entry s =
     bindM (readObjectStream resolver ([], []) (houseRelationField resolver limits)) (\<lambda>(houses, changes).
       let s = s\<lparr>HouseRelationsSeen := HouseRelationsSeen s + 1\<rparr> in
       returnM (if TqCharacter query \<noteq> 0 \<and> \<not> containsID houses house then s
                else fold (\<lambda>change. keepEvent (change\<lparr>TeHouses := houses\<rparr>)) changes s))"

definition readHouseRelations ::
  "TokenMap option \<Rightarrow> Token \<Rightarrow> TimelineQuery \<Rightarrow> Limits \<Rightarrow> 64 word \<Rightarrow> TimelineScan \<Rightarrow> (StreamDecoder, TimelineScan) save_m" where
  "readHouseRelations resolver value query limits house s =
     readDatabaseEntries resolver value s (houseRelationEntry resolver query limits house)"

section \<open>Struggles\<close>

definition catalystField :: "TimelineEvent streamVisitor" where
  "catalystField name value catalyst =
     (if name = ''catalysts'' then skipThen value (catalyst\<lparr>TeType := Text value\<rparr>)
      else if name = ''struggle_phase'' then skipThen value (catalyst\<lparr>TeStatus := Text value\<rparr>)
      else if name = ''time'' then bindM (dateM value) (\<lambda>s. skipThen value (catalyst\<lparr>TeDate := s\<rparr>))
      else if name = ''character'' then skipThen value (catalyst\<lparr>TeOwner := characterRef value\<rparr>)
      else skipThen value catalyst)"

definition readCatalyst ::
  "TokenMap option \<Rightarrow> bytes \<Rightarrow> TimelineEvent list \<Rightarrow> (StreamDecoder, TimelineEvent list) save_m" where
  "readCatalyst resolver phase catalysts =
     bindM (readObjectStream resolver ((newEvent EventStruggle)\<lparr>TeStatus := phase\<rparr>) catalystField) (\<lambda>catalyst.
       returnM (catalysts @ [catalyst]))"

definition phaseField :: "TokenMap option \<Rightarrow> Limits \<Rightarrow> bytes \<Rightarrow> TimelineEvent list streamVisitor" where
  "phaseField resolver limits phase sub value catalysts =
     (if sub \<noteq> ''history'' then skipThen value catalysts
      else readContainerList value limits catalysts (readCatalyst resolver phase))"

definition strugglePhase :: "TokenMap option \<Rightarrow> Limits \<Rightarrow> TimelineEvent list streamVisitor" where
  "strugglePhase resolver limits phase value catalysts =
     (if Kind value \<noteq> KindOpen then skipThen value catalysts
      else readObjectStream resolver catalysts (phaseField resolver limits phase))"

definition struggleField ::
  "TokenMap option \<Rightarrow> Limits \<Rightarrow> (TimelineEvent \<times> TimelineEvent list) streamVisitor" where
  "struggleField resolver limits field value = (\<lambda>(opening, catalysts).
     if field = ''struggle_type'' then skipThen value (opening\<lparr>TeType := Text value\<rparr>, catalysts)
     else if field = ''struggle_start_date''
     then bindM (dateM value) (\<lambda>s. skipThen value (opening\<lparr>TeDate := s\<rparr>, catalysts))
     else if field = ''struggle_progress_data'' then
       (if Kind value \<noteq> KindOpen then skipThen value (opening, catalysts)
        else bindM (readObjectStream resolver catalysts (strugglePhase resolver limits)) (\<lambda>catalysts.
          returnM (opening, catalysts)))
     else skipThen value (opening, catalysts))"

definition keepCatalyst :: "TimelineQuery \<Rightarrow> TimelineEvent \<Rightarrow> TimelineScan \<Rightarrow> TimelineScan" where
  "keepCatalyst query catalyst s =
     (if TqCharacter query \<noteq> 0 \<and> TeOwner catalyst \<noteq> TqCharacter query then s else keepEvent catalyst s)"

definition struggleEntry :: "TokenMap option \<Rightarrow> TimelineQuery \<Rightarrow> Limits \<Rightarrow> TimelineScan numberedVisitor" where
  "struggleEntry resolver query limits idn entry s =
     bindM (readObjectStream resolver ((newEvent EventStruggle)\<lparr>TeStatus := ''began''\<rparr>, []) (struggleField resolver limits))
       (\<lambda>(opening, catalysts).
         let s = s\<lparr>StrugglesSeen := StrugglesSeen s + 1\<rparr>;
             s = (if TeDate opening \<noteq> [] \<and> TqCharacter query = 0 then keepEvent opening s else s)
         in returnM (fold (keepCatalyst query) catalysts s))"

definition readStruggles ::
  "TokenMap option \<Rightarrow> Token \<Rightarrow> TimelineQuery \<Rightarrow> Limits \<Rightarrow> TimelineScan \<Rightarrow> (StreamDecoder, TimelineScan) save_m" where
  "readStruggles resolver value query limits s =
     readDatabaseEntries resolver value s (struggleEntry resolver query limits)"

section \<open>Order by date\<close>

definition saveDateComponent :: "bytes list \<Rightarrow> nat \<Rightarrow> int" where
  "saveDateComponent parts index =
     (if index \<ge> length parts then 0
      else case parseInt (parts ! index) of None \<Rightarrow> 0 | Some value \<Rightarrow> value)"

fun compareComponents :: "bytes list \<Rightarrow> bytes list \<Rightarrow> nat list \<Rightarrow> int" where
  "compareComponents leftParts rightParts [] = 0"
| "compareComponents leftParts rightParts (index # rest) =
     (let a = saveDateComponent leftParts index; b = saveDateComponent rightParts index in
      if a \<noteq> b then (if a < b then -1 else 1) else compareComponents leftParts rightParts rest)"

definition compareSaveDates :: "bytes \<Rightarrow> bytes \<Rightarrow> int" where
  "compareSaveDates left right =
     compareComponents (splitOn (CHR ''.'') left) (splitOn (CHR ''.'') right) [0, 1, 2, 3]"

text \<open>\<^verbatim>\<open>sort.SliceStable\<close>: events that compare equal keep their order.\<close>

fun insertEvent :: "TimelineEvent \<Rightarrow> TimelineEvent list \<Rightarrow> TimelineEvent list" where
  "insertEvent e [] = [e]"
| "insertEvent e (x # xs) =
     (if compareSaveDates (TeDate x) (TeDate e) < 0 then x # insertEvent e xs else e # x # xs)"

definition sortTimeline :: "TimelineEvent list \<Rightarrow> TimelineEvent list" where
  "sortTimeline events = foldr insertEvent events []"

section \<open>The pass\<close>

definition timelineBlock ::
  "TokenMap option \<Rightarrow> TimelineQuery \<Rightarrow> Limits \<Rightarrow> (TimelineScan \<times> characterContext) streamVisitor" where
  "timelineBlock resolver query limits name value = (\<lambda>(s, context).
     let keep = (\<lambda>kind m. if \<not> wantsKind query kind then skipThen value (s, context)
                          else bindM m (\<lambda>s. returnM (s, context))) in
     if name = ''landed_titles'' then keep EventTitleHistory (readTitleHistories resolver value query limits s)
     else if name = ''living'' \<or> name = ''dead_unprunable'' \<or> name = ''characters'' then
       (if TqCharacter query = 0 \<or> (\<not> wantsKind query EventCharacterMemory \<and> \<not> wantsKind query EventHouseRelation)
        then skipThen value (s, context)
        else bindM (readCharacterContext resolver value query limits context) (\<lambda>context. returnM (s, context)))
     else if name = ''character_memory_manager''
     then keep EventCharacterMemory (readMemories resolver value query limits (CcMemories context) s)
     else if name = ''schemes'' then keep EventScheme (readSchemes resolver value query s)
     else if name = ''court_positions'' then keep EventCourtPosition (readCourtPositions resolver value query s)
     else if name = ''vassal_contracts'' then keep EventVassalContract (readVassalContracts resolver value query s)
     else if name = ''house_relations''
     then keep EventHouseRelation (readHouseRelations resolver value query limits (CcHouse context) s)
     else if name = ''struggle_manager'' then keep EventStruggle (readStruggles resolver value query limits s)
     else skipThen value (s, context))"

definition timelineWindow :: "TimelineQuery \<Rightarrow> int" where
  "timelineWindow query = (if TqMaxEvents query \<le> 0 then 200 else TqMaxEvents query)"

definition ScanTimeline ::
  "Encoding \<Rightarrow> readEvent list \<Rightarrow> TokenMap option \<Rightarrow> TimelineQuery \<Rightarrow> Limits
    \<Rightarrow> (SaveError + TimelineScan) option" where
  "ScanTimeline encoding src resolver query limits =
     (if resolver = None \<and> encoding \<noteq> EncodingText
      then Some (Inl (newError ErrTokenMap ''a token map is required to navigate a binary gamestate''))
      else
        case readObjectStream resolver (emptyTimeline, emptyContext) (timelineBlock resolver query limits)
            (NewStreamDecoderFor encoding src (streamLimits limits)) of
          None \<Rightarrow> None
        | Some (Inl e, d) \<Rightarrow> Some (Inl e)
        | Some (Inr (s, context), d) \<Rightarrow>
            Some (Inr ((windowEvents (timelineWindow query) (s\<lparr>TsEvents := sortTimeline (TsEvents s)\<rparr>))
              \<lparr>TsBytesRead := sd_read d\<rparr>)))"

end
