(* ===== verification/GamestateFacts.thy ===== *)
theory GamestateFacts
  imports Gamestate BinaryRoundtrip
begin

text \<open>
  What a gamestate pass guarantees: it returns on every stream a reader may deliver, every
  collection stays within the element cap, and what is collected answers the query and nothing
  else. Objects written field by field are visited field by field.
\<close>

section \<open>Readers with a loop invariant\<close>

lemma stream_key_steady [steady_intros]: "str.steadyAt enc limits n (\<lambda>_. True) (streamKeyM token resolver)"
  unfolding str.steadyAt_def str.stepsAt_def
  by (auto simp: streamKeyM_def StreamDecoder_keyName_def Let_def intern_def stream_ok_def stream_rest_def sd_end_def
      split: option.splits if_splits)

lemma stream_dateM_steady [steady_intros]: "str.steadyAt enc limits n (\<lambda>_. True) (dateM token)"
  unfolding dateM_def by (intro steady_intros TrueI)

lemma skipThen_steady [steady_intros]: "I acc \<Longrightarrow> str.steadyAt enc limits n I (skipThen value acc)"
  unfolding skipThen_def by (intro steady_intros)

lemma readObjectLoop_steady:
  assumes visit: "\<And>name val acc n. I acc \<Longrightarrow> str.steadyAt enc limits n I (visit name val acc)" and "I acc"
  shows "str.steadyAt enc limits n I (readObjectLoop target resolver acc visit)"
proof (rule str.steady_loop [where loop = "\<lambda>acc. readObjectLoop target resolver acc visit" and I = I, OF _ assms(2)])
  fix acc d
  assume acc: "I acc" and d: "stream_ok enc limits d"
    and ih: "\<And>acc. I acc \<Longrightarrow> str.steadyAt enc limits (length (stream_rest d)) I (readObjectLoop target resolver acc visit)"
  let ?body = "bindM StreamDecoder_Done (\<lambda>fin.
        if fin then returnM acc
        else
          bindM StreamDecoder_Next (\<lambda>token.
          if Kind token = KindClose then returnM acc
          else
            bindM (streamKeyM token resolver) (\<lambda>name.
            if name = None \<or> \<not> IsScalar token
            then bindM (StreamDecoder_SkipValue token) (\<lambda>_. readObjectLoop target resolver acc visit)
            else
              bindM StreamDecoder_Next (\<lambda>nxt.
              if Kind nxt \<noteq> KindEqual then
                (if Kind nxt = KindClose then returnM acc
                 else bindM (StreamDecoder_SkipValue nxt) (\<lambda>_. readObjectLoop target resolver acc visit))
              else
                bindM StreamDecoder_Next (\<lambda>value.
                bindM (visit (the name) value acc) (\<lambda>acc'. readObjectLoop target resolver acc' visit))))))"
  have body: "str.stepsAt enc limits d I ?body"
    by (rule str.stepsAt_bind [OF stream_Done_steps [OF d]])
       (intro str.steady_bind [OF visit [OF acc]] str.stepsAt_if str.stepsAt_return str.stepsAt_next acc
          steady_intros str.steadyAt_mono [OF ih] | assumption)+
  show "str.stepsAt enc limits d I (readObjectLoop target resolver acc visit)"
  proof (cases "sd_depth d \<le> target")
    case True
    then show ?thesis
      by (intro str.stepsAt_cong [OF _ str.stepsAt_return [where P = I, OF d acc]])
         (simp add: readObjectLoop.simps [of target resolver acc visit d])
  next
    case False
    then show ?thesis
      by (intro str.stepsAt_cong [OF _ body]) (simp add: readObjectLoop.simps [of target resolver acc visit d])
  qed
qed

lemma readObjectStream_steady:
  assumes "\<And>name val acc n. I acc \<Longrightarrow> str.steadyAt enc limits n I (visit name val acc)" and "I acc"
  shows "str.steadyAt enc limits n I (readObjectStream resolver acc visit)"
  using readObjectLoop_steady [of I enc limits visit acc, OF assms]
  unfolding str.steadyAt_def str.stepsAt_def readObjectStream_def by blast

lemma readNumberedLoop_steady:
  assumes visit: "\<And>i entry acc n. I acc \<Longrightarrow> str.steadyAt enc limits n I (visit i entry acc)" and "I acc"
  shows "str.steadyAt enc limits n I (readNumberedLoop target acc visit)"
proof (rule str.steady_loop [where loop = "\<lambda>acc. readNumberedLoop target acc visit" and I = I, OF _ assms(2)])
  fix acc d
  assume acc: "I acc" and d: "stream_ok enc limits d"
    and ih: "\<And>acc. I acc \<Longrightarrow> str.steadyAt enc limits (length (stream_rest d)) I (readNumberedLoop target acc visit)"
  let ?body = "bindM StreamDecoder_Next (\<lambda>token.
          if Kind token = KindClose then readNumberedLoop target acc visit
          else if Kind token = KindOpen
          then bindM (StreamDecoder_SkipValue token) (\<lambda>_. readNumberedLoop target acc visit)
          else case numericKey token of
            None \<Rightarrow> readNumberedLoop target acc visit
          | Some idn \<Rightarrow>
              bindM StreamDecoder_Next (\<lambda>nxt.
              if Kind nxt \<noteq> KindEqual
              then bindM (StreamDecoder_SkipValue nxt) (\<lambda>_. readNumberedLoop target acc visit)
              else
                bindM StreamDecoder_Next (\<lambda>entry.
                if Kind entry \<noteq> KindOpen then readNumberedLoop target acc visit
                else
                  bindM getM (\<lambda>before.
                  bindM (visit idn entry acc) (\<lambda>acc'.
                  bindM (StreamDecoder_SkipToDepth (sd_depth before - 1)) (\<lambda>_.
                    readNumberedLoop target acc' visit))))))"
  have body: "str.stepsAt enc limits d I ?body"
    by (intro str.steady_bind [OF visit [OF acc]] str.steady_bind [OF str.steady_get] str.stepsAt_next d ih acc steady_intros | assumption)+
  show "str.stepsAt enc limits d I (readNumberedLoop target acc visit)"
  proof (cases "sd_depth d > target")
    case True
    then show ?thesis
      by (intro str.stepsAt_cong [OF _ body]) (simp add: readNumberedLoop.simps [of target acc visit d])
  next
    case False
    then show ?thesis
      by (intro str.stepsAt_cong [OF _ str.stepsAt_return [where P = I, OF d acc]])
         (simp add: readNumberedLoop.simps [of target acc visit d])
  qed
qed

lemma readNumberedEntries_steady:
  assumes "\<And>i entry acc n. I acc \<Longrightarrow> str.steadyAt enc limits n I (visit i entry acc)" and "I acc"
  shows "str.steadyAt enc limits n I (readNumberedEntries acc visit)"
  using readNumberedLoop_steady [of I enc limits visit acc, OF assms]
  unfolding str.steadyAt_def str.stepsAt_def readNumberedEntries_def by blast

text \<open>The cap a list of the stream readers is held to.\<close>

definition within :: "Limits \<Rightarrow> 'a list \<Rightarrow> bool" where
  "within caps xs \<longleftrightarrow> int (length xs) \<le> max 0 (MaxArrayItems caps)"

lemma within_Nil [simp]: "within caps []"
  by (simp add: within_def)

lemma within_snoc: "\<not> MaxArrayItems caps \<le> int (length xs) \<Longrightarrow> within caps (xs @ [x])"
  by (simp add: within_def)

lemma streamListLoop_steady:
  assumes "within caps items"
  shows "str.steadyAt enc limits n (\<lambda>(items, truncated). within caps items)
    (streamListLoop target caps items truncated)"
proof -
  let ?Q = "\<lambda>(items :: bytes list, truncated :: bool). within caps items"
  let ?loop = "\<lambda>(items, truncated). streamListLoop target caps items truncated"
  have "str.steadyAt enc limits n ?Q (?loop (items, truncated))"
  proof (rule str.steady_loop [where loop = ?loop and I = ?Q])
    fix x :: "bytes list \<times> bool" and d
    assume q: "?Q x" and d: "stream_ok enc limits d"
      and ih: "\<And>y. ?Q y \<Longrightarrow> str.steadyAt enc limits (length (stream_rest d)) ?Q (?loop y)"
    obtain items truncated where x: "x = (items, truncated)" by (cases x)
    have items: "within caps items" using q x by simp
    have loop: "str.steadyAt enc limits (length (stream_rest d)) ?Q (streamListLoop target caps i t)"
      if "within caps i" for i t
      using ih [of "(i, t)"] that by simp
    show "str.stepsAt enc limits d ?Q (?loop x)"
    proof (cases "sd_depth d > target")
      case True
      have "streamListLoop target caps items truncated d = bindM StreamDecoder_Next (\<lambda>token.
          if Kind token = KindOpen
          then bindM (StreamDecoder_SkipValue token) (\<lambda>_. streamListLoop target caps items truncated)
          else if Kind token = KindQuoted \<or> Kind token = KindUnquoted then
            (if int (length items) \<ge> MaxArrayItems caps then streamListLoop target caps items True
             else streamListLoop target caps (items @ [Text token]) truncated)
          else streamListLoop target caps items truncated) d"
        using True by (subst streamListLoop.simps) simp
      then show ?thesis
        unfolding x prod.case
        by (rule str.stepsAt_cong) (intro str.stepsAt_next d loop items within_snoc steady_intros | assumption)+
    next
      case False
      then show ?thesis
        using d x items by (simp add: str.stepsAt_def streamListLoop.simps [of target caps items truncated d])
    qed
  qed (use assms in simp)
  then show ?thesis by simp
qed

lemma readStreamList_steady:
  "str.steadyAt enc limits n (\<lambda>(items, truncated). within caps items) (readStreamList value caps)"
proof (rule str.steady_pointwise)
  fix d :: StreamDecoder
  let ?Q = "\<lambda>(items :: bytes list, truncated :: bool). within caps items"
  have "str.steadyAt enc limits n ?Q (skipThen value ([], False))"
    by (rule skipThen_steady) simp
  moreover have "str.steadyAt enc limits n ?Q (streamListLoop (sd_depth d - 1) caps [] False)"
    by (rule streamListLoop_steady) simp
  ultimately show "\<exists>m. readStreamList value caps d = m d \<and> str.steadyAt enc limits n ?Q m"
    by (cases "Kind value = KindOpen") (auto simp: readStreamList_def)
qed

lemma streamNumbersLoop_steady:
  "str.steadyAt enc limits n (\<lambda>_. True) (streamNumbersLoop target caps items truncated)"
proof -
  let ?loop = "\<lambda>(items, truncated). streamNumbersLoop target caps items truncated"
  have "str.steadyAt enc limits n (\<lambda>_. True) (?loop (items, truncated))"
  proof (rule str.steady_loop [where loop = ?loop and I = "\<lambda>_. True"])
    fix x :: "64 word list \<times> bool" and d
    assume d: "stream_ok enc limits d"
      and ih: "\<And>y. True \<Longrightarrow> str.steadyAt enc limits (length (stream_rest d)) (\<lambda>_. True) (?loop y)"
    obtain items truncated where x: "x = (items, truncated)" by (cases x)
    have loop: "str.steadyAt enc limits (length (stream_rest d)) (\<lambda>_. True) (streamNumbersLoop target caps i t)" for i t
      using ih [of "(i, t)"] by simp
    show "str.stepsAt enc limits d (\<lambda>_. True) (?loop x)"
    proof (cases "sd_depth d > target")
      case True
      have "streamNumbersLoop target caps items truncated d = bindM StreamDecoder_Next (\<lambda>token.
          if Kind token = KindOpen
          then bindM (StreamDecoder_SkipValue token) (\<lambda>_. streamNumbersLoop target caps items truncated)
          else if isNumericKind (Kind token) then
            (if int (length items) \<ge> MaxArrayItems caps then streamNumbersLoop target caps items True
             else streamNumbersLoop target caps (items @ [signedOf token]) truncated)
          else streamNumbersLoop target caps items truncated) d"
        using True by (subst streamNumbersLoop.simps) simp
      then show ?thesis
        unfolding x prod.case
        by (rule str.stepsAt_cong) (intro str.stepsAt_next d loop steady_intros)
    next
      case False
      then show ?thesis
        using d x by (simp add: str.stepsAt_def streamNumbersLoop.simps [of target caps items truncated d])
    qed
  qed simp
  then show ?thesis by simp
qed

lemma readStreamNumbers_steady [steady_intros]:
  "str.steadyAt enc limits n (\<lambda>_. True) (readStreamNumbers value caps)"
  using streamNumbersLoop_steady [of enc limits n _ caps "[]" False]
  unfolding str.steadyAt_def str.stepsAt_def readStreamNumbers_def by simp

lemma readWrappedNumber_steady [steady_intros]:
  "str.steadyAt enc limits n (\<lambda>_. True) (readWrappedNumber resolver value inner)"
  unfolding readWrappedNumber_def by (intro readObjectStream_steady steady_intros TrueI)

section \<open>What a scan holds\<close>

definition scanOk :: "GamestateQuery \<Rightarrow> Limits \<Rightarrow> GamestateScan \<Rightarrow> bool" where
  "scanOk query caps scan \<longleftrightarrow>
     within caps (TraitsLookup scan) \<and> within caps (TitleKeys scan) \<and> within caps (HouseNameKeys scan)
     \<and> within caps (Titles scan)
     \<and> (\<forall>t \<in> set (Titles scan). TitlesHeldBy query \<noteq> 0 \<and> Holder t = TitlesHeldBy query)
     \<and> (\<forall>c. ScanCharacter scan = Some c \<longrightarrow> QCharacter query \<noteq> 0 \<and> CharSaveID c = QCharacter query)
     \<and> (\<forall>h. ScanHouse scan = Some h \<longrightarrow> HouseValid query \<and> HouseSaveID h = QHouse query)"

lemma scanOk_empty: "scanOk query caps emptyScan"
  by (simp add: scanOk_def emptyScan_def)

lemma noteTitleKey_ok:
  "scanOk query caps (fst acc) \<Longrightarrow> scanOk query caps (fst (noteTitleKey caps record acc))"
  by (cases acc) (auto simp: noteTitleKey_def scanOk_def within_snoc)

lemma noteHouseKey_ok:
  "scanOk query caps (fst acc) \<Longrightarrow> scanOk query caps (fst (noteHouseKey caps record acc))"
  by (cases acc) (auto simp: noteHouseKey_def scanOk_def within_snoc)

lemma noteTitle_ok:
  "scanOk query caps scan \<Longrightarrow> TitlesHeldBy query \<noteq> 0 \<Longrightarrow> Holder record = TitlesHeldBy query
     \<Longrightarrow> scanOk query caps (noteTitle caps record scan)"
  by (auto simp: noteTitle_def scanOk_def within_snoc)

lemma titleField_steady: "str.steadyAt enc limits n (\<lambda>_. True) (titleField resolver field value record)"
  unfolding titleField_def by (intro readObjectStream_steady steady_intros TrueI)

lemma houseField_steady:
  assumes "HouseSaveID record = i"
  shows "str.steadyAt enc limits n (\<lambda>r. HouseSaveID r = i) (houseField resolver field value record)"
  unfolding houseField_def
  by (intro readObjectStream_steady [where I = "\<lambda>r. HouseSaveID r = i"] steady_intros) (auto simp: assms)

lemma familyField_steady:
  assumes "CharSaveID c = i"
  shows "str.steadyAt enc limits n (\<lambda>c. CharSaveID c = i) (familyField caps sub value c)"
  unfolding familyField_def by (intro steady_intros) (auto simp: assms)

lemma courtField_steady:
  assumes "CharSaveID c = i"
  shows "str.steadyAt enc limits n (\<lambda>c. CharSaveID c = i) (courtField sub value c)"
  unfolding courtField_def by (intro steady_intros) (auto simp: assms)

lemma aliveField_steady:
  assumes "CharSaveID c = i"
  shows "str.steadyAt enc limits n (\<lambda>c. CharSaveID c = i) (aliveField resolver sub value c)"
  unfolding aliveField_def by (intro steady_intros) (auto simp: assms)

lemma characterField_steady:
  assumes "CharSaveID c = i"
  shows "str.steadyAt enc limits n (\<lambda>c. CharSaveID c = i) (characterField resolver caps field value c)"
  unfolding characterField_def
  by (intro readObjectStream_steady [where I = "\<lambda>c. CharSaveID c = i"] familyField_steady courtField_steady
      aliveField_steady steady_intros) (auto simp: assms)

lemma readFields_steady:
  "str.steadyAt enc limits n (\<lambda>c. CharSaveID c = i) (readFields resolver caps (newCharacterRecord i alive))"
  unfolding readFields_def
  by (rule readObjectStream_steady [OF characterField_steady]) (auto simp: newCharacterRecord_def)

lemma titleEntry_steady:
  assumes "scanOk query caps (fst acc)"
  shows "str.steadyAt enc limits n (\<lambda>acc. scanOk query caps (fst acc)) (titleEntry resolver query caps i tok acc)"
proof -
  obtain scan seen where acc: "acc = (scan, seen)" by (cases acc)
  have store: "scanOk query caps x" if "noteTitleKey caps tr (scan, seen) = (x, y)" for tr x y
    using noteTitleKey_ok [of query caps "(scan, seen)" tr] assms acc that by simp
  have entry: "str.steadyAt enc limits n (\<lambda>_. True) (readObjectStream resolver (newTitleRecord i) (titleField resolver))"
    by (intro readObjectStream_steady titleField_steady TrueI)
  show ?thesis
    unfolding acc titleEntry_def prod.case
    by (intro steady_intros entry)
       (use assms acc store in
         \<open>auto simp: Let_def split: prod.splits intro!: str.steady_return noteTitle_ok\<close>)
qed

lemma houseEntry_steady:
  assumes "scanOk query caps (fst acc)"
  shows "str.steadyAt enc limits n (\<lambda>acc. scanOk query caps (fst acc)) (houseEntry resolver query caps i tok acc)"
proof -
  obtain scan seen where acc: "acc = (scan, seen)" by (cases acc)
  have entry: "str.steadyAt enc limits n (\<lambda>r. HouseSaveID r = i) (readObjectStream resolver (newHouseRecord i) (houseField resolver))"
    by (rule readObjectStream_steady [OF houseField_steady]) (auto simp: newHouseRecord_def)
  have store: "scanOk query caps (fst (noteHouseKey caps hr (scan, seen)))" for hr :: HouseRecord
    using assms acc by (intro noteHouseKey_ok) simp
  have wanted: "scanOk query caps (s\<lparr>ScanHouse := Some hr\<rparr>)"
    if "scanOk query caps s" "HouseSaveID hr = i" "HouseValid query" "i = QHouse query" for s and hr :: HouseRecord
    using that by (simp add: scanOk_def)
  have stored: "scanOk query caps x" if "noteHouseKey caps hr (scan, seen) = (x, y)" for hr x y
    using store [of hr] that by simp
  show ?thesis
    unfolding acc houseEntry_def prod.case Let_def
    by (intro steady_intros str.steady_bind [OF entry])
       (use assms acc in \<open>auto split: if_splits intro!: wanted dest: stored\<close>)
qed

lemma mapS_fst_steady:
  "str.steadyAt enc limits n (\<lambda>acc. P (fst acc)) m \<Longrightarrow> str.steadyAt enc limits n P (mapS fst m)"
  unfolding mapS_def by (erule str.steady_bind) (rule str.steady_return)

lemma readLandedTitles_steady:
  assumes "scanOk query caps scan"
  shows "str.steadyAt enc limits n (scanOk query caps) (readLandedTitles resolver value query caps scan)"
  unfolding readLandedTitles_def
  by (intro steady_intros mapS_fst_steady assms readObjectStream_steady readNumberedEntries_steady titleEntry_steady | assumption | simp add: assms)+

lemma readDynasties_steady:
  assumes "scanOk query caps scan"
  shows "str.steadyAt enc limits n (scanOk query caps) (readDynasties resolver value query caps scan)"
  unfolding readDynasties_def
  by (intro steady_intros mapS_fst_steady assms readObjectStream_steady readNumberedEntries_steady houseEntry_steady | assumption | simp add: assms)+

lemma characterEntry_steady:
  assumes "scanOk query caps scan" and "QCharacter query \<noteq> 0"
  shows "str.steadyAt enc limits n (scanOk query caps) (characterEntry resolver query caps alive i entry scan)"
  unfolding characterEntry_def
  by (intro steady_intros str.steady_bind [OF readFields_steady]) (use assms in \<open>auto simp: scanOk_def\<close>)

lemma readCharacters_steady:
  assumes "scanOk query caps scan"
  shows "str.steadyAt enc limits n (scanOk query caps) (readCharacters resolver value query caps alive scan)"
  unfolding readCharacters_def
  by (intro steady_intros assms readNumberedEntries_steady characterEntry_steady | assumption | simp)+

lemma readPlayed_steady:
  assumes "scanOk query caps scan"
  shows "str.steadyAt enc limits n (scanOk query caps) (readPlayed resolver value scan)"
  unfolding readPlayed_def
  by (intro readObjectStream_steady steady_intros assms) (auto simp: scanOk_def)

lemma scanBlock_steady:
  assumes "scanOk query caps (fst acc)"
  shows "str.steadyAt enc limits n (\<lambda>acc. scanOk query caps (fst acc)) (scanBlock resolver query caps name value acc)"
proof -
  obtain scan index where acc: "acc = (scan, index)" by (cases acc)
  have scan: "scanOk query caps scan" using assms acc by simp
  have keep: "str.steadyAt enc limits n (\<lambda>acc. scanOk query caps (fst acc)) (bindM m (\<lambda>scan. returnM (scan, index)))"
    if "str.steadyAt enc limits n (scanOk query caps) m" for m
    by (rule str.steady_bind [OF that]) (auto intro: str.steady_return)
  have traits: "str.steadyAt enc limits n (\<lambda>acc. scanOk query caps (fst acc))
      (bindM (readStreamList value caps) (\<lambda>(names, truncated).
         returnM (scan\<lparr>TraitsLookup := names,
             ScanTruncated := appendTruncated (ScanTruncated scan) truncated ''traits_lookup''\<rparr>,
           indexTraits names index)))"
    by (rule str.steady_bind [OF readStreamList_steady])
       (use scan in \<open>auto intro!: str.steady_return simp: scanOk_def\<close>)
  show ?thesis
    unfolding acc scanBlock_def prod.case Let_def
    by (intro str.steady_if traits keep readLandedTitles_steady readDynasties_steady readCharacters_steady
        readPlayed_steady scan skipThen_steady) (simp add: scan)
qed

lemma scan_total:
  assumes "healthy src"
  obtains r where "ScanGamestateFor enc src resolver query caps = Some r"
    and "\<And>scan. r = Inr scan \<Longrightarrow> scanOk query caps scan"
proof (cases "resolver = None \<and> enc \<noteq> EncodingText")
  case True
  then show ?thesis
    using that [of "Inl (newError ErrTokenMap ''a token map is required to navigate a binary gamestate'')"]
    by (simp add: ScanGamestateFor_def)
next
  case named: False
  have total: "str.steadyAt enc (streamLimits caps) n (\<lambda>acc. scanOk query caps (fst acc))
      (readObjectStream resolver (emptyScan, []) (scanBlock resolver query caps))" for n
    by (rule readObjectStream_steady [OF scanBlock_steady]) (auto simp: scanOk_empty)
  show ?thesis
  proof (rule str.steady_run [OF total stream_ok_new [OF assms]])
    fix r d'
    assume run: "readObjectStream resolver (emptyScan, []) (scanBlock resolver query caps)
        (NewStreamDecoderFor enc src (streamLimits caps)) = Some (r, d')"
      and post: "\<And>a. r = Inr a \<Longrightarrow> scanOk query caps (fst a)"
    show ?thesis
    proof (cases r)
      case (Inl e)
      then show ?thesis using that [of "Inl e"] run named by (simp add: ScanGamestateFor_def)
    next
      case (Inr b)
      obtain scan index where b: "b = (scan, index)" by (cases b)
      have "scanOk query caps (scan\<lparr>ScanCharacter := map_option (resolveTraits index) (ScanCharacter scan),
          BytesRead := sd_read d'\<rparr>)"
        using post [OF Inr] b by (auto simp: scanOk_def resolveTraits_def)
      then show ?thesis
        using that [of "Inr (scan\<lparr>ScanCharacter := map_option (resolveTraits index) (ScanCharacter scan),
          BytesRead := sd_read d'\<rparr>)"] run named Inr b
        by (simp add: ScanGamestateFor_def)
    qed
  qed
qed


definition sampleGamestate :: "readEvent list" where
  "sampleGamestate =
     [RData ''landed_titles={ landed_titles={ 1={ key=k_a holder=7 } 2={ key=k'',
      RData ''_b holder=8 } 3=none } } living={ 7={ first_name=Artur skill={ 1 2 3 } family_data={ child={ 9 } } } '',
      RDataEOF ''8={ first_name=Bo } } played_character={ character=7 }'']"

definition sampleQuery :: GamestateQuery where
  "sampleQuery = \<lparr>QCharacter = 7, TitlesHeldBy = 7, QHouse = 0, HouseValid = False, Inventory = True\<rparr>"




section \<open>Objects are visited field by field\<close>

text \<open>A field on the wire: an identifier, and a value that is one scalar or one balanced container.\<close>

definition valueOk :: "lexeme list \<Rightarrow> bool" where
  "valueOk v \<longleftrightarrow> (\<exists>l. v = [l] \<and> l \<notin> {LxOpen, LxClose, LxEqual})
     \<or> (\<exists>body. v = LxOpen # body @ [LxClose] \<and> balancedFrom 0 body)"

definition wireField :: "16 word \<times> lexeme list \<Rightarrow> lexeme list" where
  "wireField f = LxID (fst f) # LxEqual # snd f"

definition wireFields :: "(16 word \<times> lexeme list) list \<Rightarrow> lexeme list" where
  "wireFields fs = concat (map wireField fs)"

definition resolveName :: "TokenMap \<Rightarrow> 16 word \<Rightarrow> bytes" where
  "resolveName m i = (case Lookup_id m i of None \<Rightarrow> [] | Some n \<Rightarrow> n)"

lemma fitsFrom_append:
  "fitsFrom limits c (xs @ ys) \<longleftrightarrow> fitsFrom limits c xs \<and> fitsFrom limits (fold afterLexeme xs c) ys"
  by (induction xs arbitrary: c) auto

lemma scalar_not_open: "l \<noteq> LxOpen \<Longrightarrow> Kind (lexemeToken l) \<noteq> KindOpen"
  by (cases l) (auto split: option.split)

lemma skip_wire_value:
  assumes "stream_ok EncodingBinary limits d" and "stream_rest d = encodeAll (tl v) @ r" and "valueOk v"
    and "fitsFrom limits (stream_counters d) (tl v)"
  obtains d' where "skipThen (lexemeToken (hd v)) acc d = Some (Inr acc, d')"
    and "stream_ok EncodingBinary limits d'" and "stream_rest d' = r"
    and "stream_counters d' = fold afterLexeme (tl v) (stream_counters d)"
    and "sd_depth d' = sd_depth d - (if hd v = LxOpen then 1 else 0)"
  using assms(3) unfolding valueOk_def
proof (elim disjE exE conjE)
  fix l
  assume "v = [l]" and "l \<notin> {LxOpen, LxClose, LxEqual}"
  then show ?thesis
    using that [of d] assms(1,2) scalar_not_open [of l]
    by (simp add: skipThen_def StreamDecoder_SkipValue_def bindM_apply)
next
  fix body
  assume v: "v = LxOpen # body @ [LxClose]" and bal: "balancedFrom 0 body"
  from assms(2) v have rest: "stream_rest d = encodeAll body @ encodeLexeme LxClose @ r" by simp
  from assms(4) v have fit: "fitsFrom limits (stream_counters d) (body @ [LxClose])" by simp
  from skip_balanced [OF assms(1) rest fit bal, of "sd_depth d - 1"] obtain d'
    where "StreamDecoder_SkipToDepth (sd_depth d - 1) d = Some (Inr (), d')" and "stream_rest d' = r"
      and "stream_ok EncodingBinary limits d'"
      and "stream_counters d' = fold afterLexeme (body @ [LxClose]) (stream_counters d)"
      and "sd_depth d' = sd_depth d - 1" by auto
  then show ?thesis
    using that [of d'] v by (simp add: skipThen_def StreamDecoder_SkipValue_def bindM_apply)
qed

lemma stream_Done_more:
  assumes "stream_ok EncodingBinary limits d" and "stream_rest d \<noteq> []"
  obtains d' where "StreamDecoder_Done d = Some (Inr False, d')" and "stream_ok EncodingBinary limits d'"
    and "stream_rest d' = stream_rest d" and "stream_counters d' = stream_counters d"
  by (rule stream_Done [OF assms(1)]) (use assms(2) in \<open>auto simp: specDone_def stream_abs_def\<close>)

lemma loop_visits_fields:
  assumes "stream_ok EncodingBinary limits d" and "stream_rest d = encodeAll (wireFields fs @ [LxClose]) @ r"
    and "fitsFrom limits (stream_counters d) (wireFields fs @ [LxClose])"
    and "\<forall>f \<in> set fs. valueOk (snd f)" and "sd_depth d = target + 1"
  shows "\<exists>d'. readObjectLoop target (Some m) acc (\<lambda>name tok acc. skipThen tok (g name tok acc)) d
      = Some (Inr (fold (\<lambda>f acc. g (resolveName m (fst f)) (lexemeToken (hd (snd f))) acc) fs acc), d')
    \<and> stream_rest d' = r \<and> sd_depth d' = target"
  using assms
proof (induction fs arbitrary: d acc)
  case Nil
  let ?visit = "\<lambda>name tok acc. skipThen tok (g name tok acc)"
  from Nil.prems have rest: "stream_rest d = encodeLexeme LxClose @ r" by (simp add: wireFields_def)
  then have "stream_rest d \<noteq> []" using encodeLexeme_nonempty [of LxClose] by simp
  with stream_Done_more [OF Nil.prems(1)] obtain d1 where done1: "StreamDecoder_Done d = Some (Inr False, d1)"
    and d1: "stream_ok EncodingBinary limits d1" "stream_rest d1 = stream_rest d" "stream_counters d1 = stream_counters d"
    by blast
  have "fits limits (stream_counters d1) LxClose" using Nil.prems(3) d1(3) by (simp add: wireFields_def)
  with stream_next_lexeme [OF d1(1)] d1(2) rest obtain d2
    where "StreamDecoder_Next d1 = Some (Inr (lexemeToken LxClose), d2)" and "stream_rest d2 = r"
      and "stream_counters d2 = afterLexeme LxClose (stream_counters d1)" by metis
  then show ?case
    using done1 d1(3) Nil.prems(5)
    by (subst readObjectLoop.simps) (simp add: bindM_apply afterLexeme_def stream_counters_def depthChange_def)
next
  case (Cons f fs)
  let ?visit = "\<lambda>name tok acc. skipThen tok (g name tok acc)"
  obtain i v where f: "f = (i, v)" by (cases f)
  have v: "valueOk v" using Cons.prems(4) f by simp
  then obtain l vs where lv: "v = l # vs" by (auto simp: valueOk_def)
  let ?tail = "encodeAll (wireFields fs @ [LxClose]) @ r"
  have enc: "encodeAll (wireFields (f # fs) @ [LxClose]) @ r
      = encodeLexeme (LxID i) @ encodeLexeme LxEqual @ encodeLexeme l @ encodeAll vs @ ?tail"
    by (simp add: wireFields_def wireField_def f lv)
  have ne: "stream_rest d \<noteq> []" using Cons.prems(2) enc encodeLexeme_nonempty [of "LxID i"] by simp
  from stream_Done_more [OF Cons.prems(1) ne] obtain d1 where done1: "StreamDecoder_Done d = Some (Inr False, d1)"
    and d1: "stream_ok EncodingBinary limits d1" "stream_rest d1 = stream_rest d" "stream_counters d1 = stream_counters d"
    by blast
  have fit: "fitsFrom limits (stream_counters d1) (LxID i # LxEqual # l # vs @ wireFields fs @ [LxClose])"
    using Cons.prems(3) d1(3) by (simp add: wireFields_def wireField_def f lv)
  from fit stream_next_lexeme [OF d1(1), of "LxID i" "encodeLexeme LxEqual @ encodeLexeme l @ encodeAll vs @ ?tail"]
    d1(2) Cons.prems(2) enc
  obtain d2 where n2: "StreamDecoder_Next d1 = Some (Inr (lexemeToken (LxID i)), d2)"
    and d2: "stream_ok EncodingBinary limits d2" "stream_rest d2 = encodeLexeme LxEqual @ encodeLexeme l @ encodeAll vs @ ?tail"
      "stream_counters d2 = afterLexeme (LxID i) (stream_counters d1)" by auto
  from fit stream_next_lexeme [OF d2(1,2)] d2(3)
  obtain d3 where n3: "StreamDecoder_Next d2 = Some (Inr (lexemeToken LxEqual), d3)"
    and d3: "stream_ok EncodingBinary limits d3" "stream_rest d3 = encodeLexeme l @ encodeAll vs @ ?tail"
      "stream_counters d3 = afterLexeme LxEqual (stream_counters d2)" by auto
  from fit stream_next_lexeme [OF d3(1,2)] d2(3) d3(3)
  obtain d4 where n4: "StreamDecoder_Next d3 = Some (Inr (lexemeToken l), d4)"
    and d4: "stream_ok EncodingBinary limits d4" "stream_rest d4 = encodeAll vs @ ?tail"
      "stream_counters d4 = afterLexeme l (stream_counters d3)" by auto
  have fit4: "fitsFrom limits (stream_counters d4) vs"
    and fit5: "fitsFrom limits (fold afterLexeme vs (stream_counters d4)) (wireFields fs @ [LxClose])"
    using fit d2(3) d3(3) d4(3) by (simp_all add: fitsFrom_append)
  let ?acc = "g (resolveName m i) (lexemeToken l) acc"
  from skip_wire_value [OF d4(1) _ v, of ?tail ?acc] d4(2) fit4 lv
  obtain d5 where n5: "skipThen (lexemeToken l) ?acc d4 = Some (Inr ?acc, d5)"
    and d5: "stream_ok EncodingBinary limits d5" "stream_rest d5 = ?tail"
      "stream_counters d5 = fold afterLexeme vs (stream_counters d4)"
      "sd_depth d5 = sd_depth d4 - (if l = LxOpen then 1 else 0)" by auto
  have "l \<noteq> LxClose" using v lv by (auto simp: valueOk_def)
  then have depth: "sd_depth d5 = target + 1"
    using d5(4) d4(3) d3(3) d2(3) d1(3) Cons.prems(5)
    by (auto simp: stream_counters_def afterLexeme_def depthChange_lexeme simp del: lexemeToken.simps)
  have key: "streamKeyM (lexemeToken (LxID i)) (Some m) d2 = Some (Inr (Some (resolveName m i)), d2)"
    using d2(1) by (simp add: streamKeyM_def StreamDecoder_keyName_def stream_ok_def resolveName_def)
  have "readObjectLoop target (Some m) acc ?visit d = readObjectLoop target (Some m) ?acc ?visit d5"
    using done1 n2 n3 n4 n5 key Cons.prems(5)
    by (subst readObjectLoop.simps) (simp add: bindM_apply IsScalar_def)
  moreover have "\<forall>f \<in> set fs. valueOk (snd f)" using Cons.prems(4) by simp
  ultimately show ?case
    using Cons.IH [OF d5(1,2) _ _ depth, of ?acc] fit5 d5(3) f lv by simp
qed

text \<open>C19. An object is visited field by field: over the binary encoding of any fields, each an identifier
  with a scalar or a balanced container, a visitor that updates what it collects is applied to every
  field exactly once, in order, with the resolved name and the value's first token, and the reader
  stops behind the object's close.\<close>

theorem object_fields_visited:
  assumes "stream_ok EncodingBinary limits d"
    and "stream_rest d = encodeAll (wireFields fs @ [LxClose]) @ r"
    and "fitsFrom limits (stream_counters d) (wireFields fs @ [LxClose])"
    and "\<forall>f \<in> set fs. valueOk (snd f)"
  shows "\<exists>d'. readObjectStream (Some m) acc (\<lambda>name tok acc. skipThen tok (g name tok acc)) d
      = Some (Inr (fold (\<lambda>f acc. g (resolveName m (fst f)) (lexemeToken (hd (snd f))) acc) fs acc), d')
    \<and> stream_rest d' = r \<and> sd_depth d' = sd_depth d - 1"
  using loop_visits_fields [OF assms, of "sd_depth d - 1"] by (simp add: readObjectStream_def)

definition sampleFields :: "(16 word \<times> lexeme list) list" where
  "sampleFields = [(0x30, [LxI32 5]), (0x31, [LxOpen, LxU32 1, LxClose])]"

theorem object_fields_visited_witness:
  "\<exists>d'. readObjectStream (Some \<lparr>Label = ''m'', mapNames = [(0x30, ''employer'')]\<rparr>) []
        (\<lambda>name tok acc. skipThen tok (acc @ [(name, Kind tok)]))
        ((NewStreamDecoder [RDataEOF (encodeAll (wireFields sampleFields @ [LxClose]))] DefaultLimits)\<lparr>sd_depth := 1\<rparr>)
      = Some (Inr [(''employer'', KindI32), ([], KindOpen)], d')
    \<and> stream_rest d' = [] \<and> sd_depth d' = 0"
proof -
  let ?d = "(NewStreamDecoder [RDataEOF (encodeAll (wireFields sampleFields @ [LxClose]))] DefaultLimits)\<lparr>sd_depth := 1\<rparr>"
  have "stream_ok EncodingBinary DefaultLimits ?d"
    by (simp add: stream_ok_def NewStreamDecoder_def NewStreamDecoderFor_def sd_end_def streamBufferBytes_def)
  moreover have "fitsFrom DefaultLimits (stream_counters ?d) (wireFields sampleFields @ [LxClose])"
    by code_simp
  moreover have "balancedFrom 0 [LxU32 1]" by simp
  then have "\<forall>f \<in> set sampleFields. valueOk (snd f)"
    by (fastforce simp: sampleFields_def valueOk_def)
  ultimately show ?thesis
    using object_fields_visited [of DefaultLimits ?d sampleFields "[]" "\<lparr>Label = ''m'', mapNames = [(0x30, ''employer'')]\<rparr>"
        "[]" "\<lambda>name tok acc. acc @ [(name, Kind tok)]"]
    by (simp add: stream_rest_def NewStreamDecoder_def NewStreamDecoderFor_def sampleFields_def resolveName_def Lookup_id_def)
qed

end
