(* ===== verification/AssocLists.thy ===== *)
theory AssocLists
  imports "HOL-Library.AList"
begin

text \<open>
  Go maps as association lists with distinct keys: what updating, replacing and deleting an entry do to the
  entries, to their number and to a sum over them.
\<close>

lemma set_update_distinct:
  "distinct (map fst xs) \<Longrightarrow> set (AList.update k v xs) = insert (k, v) {e \<in> set xs. fst e \<noteq> k}"
  by (induction xs) (auto split: if_splits simp: image_iff)

lemma set_update_subset: "set (AList.update k v xs) \<subseteq> insert (k, v) (set xs)"
  by (induction xs) auto

lemma set_delete: "set (AList.delete k xs) = {e \<in> set xs. fst e \<noteq> k}"
  by (auto simp: AList.delete_eq)

lemma map_of_distinct: "distinct (map fst xs) \<Longrightarrow> (map_of xs k = Some v) = ((k, v) \<in> set xs)"
  by (auto dest: map_of_SomeD)

lemma distinct_update_keys: "distinct (map fst xs) \<Longrightarrow> distinct (map fst (AList.update k v xs))"
  by (rule distinct_update)

lemma update_new: "k \<notin> fst ` set xs \<Longrightarrow> AList.update k v xs = xs @ [(k, v)]"
  by (induction xs) auto

lemma update_present: "distinct (map fst xs) \<Longrightarrow> (k, v) \<in> set xs \<Longrightarrow> AList.update k v xs = xs"
  by (induction xs) (auto simp: image_iff)

lemma update_replaced:
  assumes "distinct (map fst xs)" and "(k, u) \<in> set xs" and "f (k, v) = (f (k, u) :: int)"
  shows "sum_list (map f (AList.update k v xs)) = sum_list (map f xs)" and "length (AList.update k v xs) = length xs"
proof -
  show "sum_list (map f (AList.update k v xs)) = sum_list (map f xs)"
    using assms by (induction xs) (auto simp: image_iff)
  show "length (AList.update k v xs) = length xs"
    using assms by (induction xs) auto
qed

lemma sum_filter_le: "(\<And>x. x \<in> set xs \<Longrightarrow> 0 \<le> f x) \<Longrightarrow> sum_list (map f (filter P xs)) \<le> (sum_list (map f xs) :: int)"
  by (induction xs) (auto intro: add_increasing)

end
