(* ===== verification/TimelineFacts.thy ===== *)
theory TimelineFacts
  imports Timeline GamestateFacts AssocLists "HOL-Library.Multiset"
begin

text \<open>
  What a timeline promises: it returns over every healthy reader, its events are the latest ones in order of
  date, they are of the kinds and the character that were asked for, and the totals and the truncation marks
  account for every event that was counted.
\<close>

section \<open>Dates are a total preorder\<close>

lemma compareComponents_flip: "compareComponents b a is = - compareComponents a b is"
  by (induction "is") (auto simp: Let_def)

lemma compareComponents_trans:
  "compareComponents a b is \<le> 0 \<Longrightarrow> compareComponents b c is \<le> 0 \<Longrightarrow> compareComponents a c is \<le> 0"
  by (induction "is") (auto simp: Let_def split: if_splits)

definition notLater :: "TimelineEvent \<Rightarrow> TimelineEvent \<Rightarrow> bool" where
  "notLater a b \<longleftrightarrow> compareSaveDates (TeDate a) (TeDate b) \<le> 0"

lemma notLater_trans: "notLater a b \<Longrightarrow> notLater b c \<Longrightarrow> notLater a c"
  unfolding notLater_def compareSaveDates_def by (rule compareComponents_trans)

lemma notLater_total: "\<not> compareSaveDates (TeDate a) (TeDate b) < 0 \<Longrightarrow> notLater b a"
  using compareComponents_flip [of "splitOn (CHR ''.'') (TeDate b)" "splitOn (CHR ''.'') (TeDate a)" "[0, 1, 2, 3]"]
  by (simp add: notLater_def compareSaveDates_def)

lemma insertEvent_mset: "mset (insertEvent e xs) = add_mset e (mset xs)"
  by (induction xs) auto

lemma insertEvent_sorted: "sorted_wrt notLater xs \<Longrightarrow> sorted_wrt notLater (insertEvent e xs)"
proof (induction xs)
  case (Cons x xs)
  have inside: "set (insertEvent e xs) = insert e (set xs)"
    using insertEvent_mset [of e xs] by (metis set_mset_add_mset_insert set_mset_mset)
  show ?case
  proof (cases "compareSaveDates (TeDate x) (TeDate e) < 0")
    case True
    then have "notLater x e" by (simp add: notLater_def)
    then show ?thesis using Cons True inside by simp
  next
    case False
    then have "notLater e x" by (rule notLater_total)
    then show ?thesis using Cons False notLater_trans by auto
  qed
qed simp

lemma sortTimeline_mset: "mset (sortTimeline es) = mset es"
  by (induction es) (simp_all add: sortTimeline_def insertEvent_mset)

lemma sortTimeline_sorted: "sorted_wrt notLater (sortTimeline es)"
  by (induction es) (simp_all add: sortTimeline_def insertEvent_sorted)

lemma sortTimeline_set [simp]: "set (sortTimeline es) = set es"
  using sortTimeline_mset by (metis set_mset_mset)

lemma sortTimeline_length [simp]: "length (sortTimeline es) = length es"
  using sortTimeline_mset by (metis size_mset)

text \<open>Events of the same date keep the order of the file.\<close>

lemma compareSaveDates_same:
  assumes "compareSaveDates a d = 0" and "compareSaveDates b d = 0"
  shows "compareSaveDates a b = 0"
proof -
  have flip: "compareSaveDates y x = - compareSaveDates x y" for x y
    unfolding compareSaveDates_def by (rule compareComponents_flip)
  have trans: "compareSaveDates x y \<le> 0 \<Longrightarrow> compareSaveDates y z \<le> 0 \<Longrightarrow> compareSaveDates x z \<le> 0" for x y z
    unfolding compareSaveDates_def by (rule compareComponents_trans)
  show ?thesis
    using trans [of a d b] trans [of b d a] flip [of d b] flip [of d a] flip [of a b] assms by simp
qed

lemma sortTimeline_stable:
  "filter (\<lambda>x. compareSaveDates (TeDate x) d = 0) (sortTimeline es) = filter (\<lambda>x. compareSaveDates (TeDate x) d = 0) es"
proof (induction es)
  case (Cons e es)
  let ?same = "\<lambda>x. compareSaveDates (TeDate x) d = 0"
  have "filter ?same (insertEvent e xs) = (if ?same e then e # filter ?same xs else filter ?same xs)" for xs
    by (induction xs) (auto dest: compareSaveDates_same)
  then show ?case using Cons by (simp add: sortTimeline_def)
qed (simp add: sortTimeline_def)

section \<open>What a timeline holds while it is collected\<close>

text \<open>An event names the character that was asked for. A memory may belong to the character without naming
  it, and a house relation is reached through the character's house.\<close>

definition eventNames :: "64 word \<Rightarrow> TimelineEvent \<Rightarrow> bool" where
  "eventNames c e \<longleftrightarrow>
     (TeKind e = EventTitleHistory \<longrightarrow> TeHolder e = c)
     \<and> (TeKind e \<in> {EventScheme, EventCourtPosition, EventVassalContract} \<longrightarrow> TeOwner e = c \<or> TeTarget e = c)
     \<and> (TeKind e = EventStruggle \<longrightarrow> TeOwner e = c)"

definition eventWanted :: "TimelineQuery \<Rightarrow> TimelineEvent \<Rightarrow> bool" where
  "eventWanted q e \<longleftrightarrow> wantsKind q (TeKind e) \<and> (TqCharacter q \<noteq> 0 \<longrightarrow> eventNames (TqCharacter q) e)"

definition ofKind :: "bytes \<Rightarrow> TimelineEvent list \<Rightarrow> int" where
  "ofKind kind es = int (length (filter (\<lambda>e. TeKind e = kind) es))"

definition collectedOk :: "TimelineQuery \<Rightarrow> TimelineScan \<Rightarrow> bool" where
  "collectedOk q s \<longleftrightarrow>
     list_all (eventWanted q) (TsEvents s)
     \<and> int (length (TsEvents s)) \<le> maxCollectedEvents
     \<and> distinct (map fst (TsTotals s)) \<and> sum_list (map snd (TsTotals s)) = TsTotal s
     \<and> (if TsTruncated s = []
        then TsTotal s = int (length (TsEvents s)) \<and> (\<forall>kind. totalOf (TsTotals s) kind = ofKind kind (TsEvents s))
        else TsTruncated s = [''collection_ceiling''] \<and> int (length (TsEvents s)) = maxCollectedEvents
          \<and> TsTotal s > maxCollectedEvents \<and> (\<forall>kind. totalOf (TsTotals s) kind \<ge> ofKind kind (TsEvents s)))"

lemma sum_update:
  "distinct (map fst xs) \<Longrightarrow>
     sum_list (map snd (AList.update k v xs)) = sum_list (map snd xs) - totalOf xs k + (v :: int)"
  by (induction xs) (auto simp: totalOf_def map_of_eq_None_iff)

lemma totalOf_update: "totalOf (AList.update k v xs) kind = (if kind = k then v else totalOf xs kind)"
  by (simp add: totalOf_def update_conv)

lemma collectedOk_empty: "collectedOk q emptyTimeline"
  by (simp add: collectedOk_def emptyTimeline_def maxCollectedEvents_def totalOf_def ofKind_def)

lemma ofKind_snoc: "ofKind kind (es @ [e]) = ofKind kind es + (if TeKind e = kind then 1 else 0)"
  by (simp add: ofKind_def)

lemma collectedOk_keep:
  assumes ok: "collectedOk q s" and e: "eventWanted q e"
  shows "collectedOk q (keepEvent e s)"
proof (cases "TsTruncated s = []")
  case True
  then show ?thesis
    using ok e
    by (simp add: collectedOk_def keepEvent_def Let_def sum_update totalOf_update distinct_update_keys
        appendTruncated_def hasTruncation_def ofKind_snoc)
next
  case False
  then have "\<forall>kind. ofKind kind (TsEvents s) \<le> totalOf (TsTotals s) kind" using ok by (simp add: collectedOk_def)
  then have "ofKind (TeKind e) (TsEvents s) \<le> totalOf (TsTotals s) (TeKind e) + 1" by (meson add_increasing2 zero_le_one)
  then show ?thesis
    using ok False
    by (simp add: collectedOk_def keepEvent_def Let_def sum_update totalOf_update distinct_update_keys
        appendTruncated_def hasTruncation_def)
qed

lemma collectedOk_seen [simp]:
  "collectedOk q (s\<lparr>TitlesSeen := n\<rparr>) = collectedOk q s"
  "collectedOk q (s\<lparr>MemoriesSeen := n\<rparr>) = collectedOk q s"
  "collectedOk q (s\<lparr>SchemesSeen := n\<rparr>) = collectedOk q s"
  "collectedOk q (s\<lparr>CourtPositionsSeen := n\<rparr>) = collectedOk q s"
  "collectedOk q (s\<lparr>ContractsSeen := n\<rparr>) = collectedOk q s"
  "collectedOk q (s\<lparr>HouseRelationsSeen := n\<rparr>) = collectedOk q s"
  "collectedOk q (s\<lparr>StrugglesSeen := n\<rparr>) = collectedOk q s"
  by (simp_all add: collectedOk_def)

lemma collectedOk_fold:
  "(\<And>e s. e \<in> set es \<Longrightarrow> collectedOk q s \<Longrightarrow> collectedOk q (f e s)) \<Longrightarrow> collectedOk q s \<Longrightarrow> collectedOk q (fold f es s)"
  by (induction es arbitrary: s) auto

lemmas kind_defs = EventTitleHistory_def EventCharacterMemory_def EventScheme_def EventCourtPosition_def
  EventVassalContract_def EventHouseRelation_def EventStruggle_def

lemma keepSuccession_ok:
  "collectedOk q s \<Longrightarrow> TeKind e = EventTitleHistory \<Longrightarrow> wantsKind q EventTitleHistory
    \<Longrightarrow> collectedOk q (keepSuccession q key i e s)"
  by (auto simp: keepSuccession_def eventWanted_def eventNames_def kind_defs intro!: collectedOk_keep)

lemma keepBetween_ok:
  "collectedOk q s \<Longrightarrow> TeKind e \<in> {EventScheme, EventCourtPosition, EventVassalContract} \<Longrightarrow> wantsKind q (TeKind e)
    \<Longrightarrow> collectedOk q (keepBetween q e s)"
  by (auto simp: keepBetween_def eventWanted_def eventNames_def kind_defs intro!: collectedOk_keep)

lemma keepCatalyst_ok:
  "collectedOk q s \<Longrightarrow> TeKind e = EventStruggle \<Longrightarrow> wantsKind q EventStruggle \<Longrightarrow> collectedOk q (keepCatalyst q e s)"
  by (auto simp: keepCatalyst_def eventWanted_def eventNames_def kind_defs intro!: collectedOk_keep)

lemma keep_unfiltered_ok:
  "collectedOk q s \<Longrightarrow> wantsKind q (TeKind e) \<Longrightarrow>
     TeKind e \<in> {EventCharacterMemory, EventHouseRelation} \<or> TqCharacter q = 0 \<Longrightarrow> collectedOk q (keepEvent e s)"
  by (auto simp: eventWanted_def eventNames_def kind_defs intro!: collectedOk_keep)

section \<open>Every reader returns\<close>

lemma readDatabaseEntries_steady:
  assumes "\<And>i entry acc n. I acc \<Longrightarrow> str.steadyAt enc limits n I (visit i entry acc)" and "I acc"
  shows "str.steadyAt enc limits n I (readDatabaseEntries resolver value acc visit)"
  unfolding readDatabaseEntries_def
  by (intro str.steady_if skipThen_steady readObjectStream_steady readNumberedEntries_steady assms | assumption)+

lemma containerListLoop_steady:
  assumes visit: "\<And>acc n. I acc \<Longrightarrow> str.steadyAt enc limits n I (visit acc)" and "I acc"
  shows "str.steadyAt enc limits n I (containerListLoop target caps seen acc visit)"
proof -
  let ?loop = "\<lambda>(seen, acc). containerListLoop target caps seen acc visit"
  have "str.steadyAt enc limits n I (?loop (seen, acc))"
  proof (rule str.steady_loop [where loop = ?loop and I = "\<lambda>x. I (snd x)"])
    fix x :: "int \<times> 'a" and d
    assume Ix: "I (snd x)" and d: "stream_ok enc limits d"
      and ih: "\<And>y. I (snd y) \<Longrightarrow> str.steadyAt enc limits (length (stream_rest d)) I (?loop y)"
    obtain seen acc where x: "x = (seen, acc)" by (cases x)
    have acc: "I acc" using Ix x by simp
    have loop: "str.steadyAt enc limits (length (stream_rest d)) I (containerListLoop target caps i a visit)" if "I a" for i a
      using ih [of "(i, a)"] that by simp
    show "str.stepsAt enc limits d I (?loop x)"
    proof (cases "sd_depth d > target")
      case True
      have "containerListLoop target caps seen acc visit d = bindM StreamDecoder_Next (\<lambda>token.
          if Kind token = KindClose then containerListLoop target caps seen acc visit
          else if Kind token \<noteq> KindOpen then containerListLoop target caps seen acc visit
          else if seen \<ge> MaxArrayItems caps
          then bindM (StreamDecoder_SkipValue token) (\<lambda>_. containerListLoop target caps seen acc visit)
          else
            bindM getM (\<lambda>before.
            bindM (visit acc) (\<lambda>acc'.
            bindM (StreamDecoder_SkipToDepth (sd_depth before - 1)) (\<lambda>_.
              containerListLoop target caps (seen + 1) acc' visit)))) d"
        using True by (subst containerListLoop.simps) simp
      then show ?thesis
        unfolding x prod.case
        by (rule str.stepsAt_cong)
          (intro str.steady_bind [OF visit [OF acc]] str.steady_bind [OF str.steady_get] str.stepsAt_next d loop acc
             steady_intros | assumption)+
    next
      case False
      then show ?thesis
        using d x acc by (simp add: str.stepsAt_def containerListLoop.simps [of target caps seen acc visit d])
    qed
  qed (use assms in simp)
  then show ?thesis by simp
qed

lemma readContainerList_steady:
  assumes "\<And>acc n. I acc \<Longrightarrow> str.steadyAt enc limits n I (visit acc)" and "I acc"
  shows "str.steadyAt enc limits n I (readContainerList value caps acc visit)"
proof (rule str.steady_pointwise)
  fix d :: StreamDecoder
  have "str.steadyAt enc limits n I (skipThen value acc)"
    by (rule skipThen_steady) (rule assms(2))
  moreover have "str.steadyAt enc limits n I (containerListLoop (sd_depth d - 1) caps 0 acc visit)"
    by (rule containerListLoop_steady [OF assms])
  ultimately show "\<exists>m. readContainerList value caps acc visit d = m d \<and> str.steadyAt enc limits n I m"
    by (cases "Kind value = KindOpen") (auto simp: readContainerList_def)
qed

text \<open>The field visitors keep the kind of the event they fill in.\<close>

definition ofTheKind :: "bytes \<Rightarrow> TimelineEvent \<Rightarrow> bool" where
  "ofTheKind k e \<longleftrightarrow> TeKind e = k"

lemma ofTheKind_new [simp]: "ofTheKind k (newEvent k)"
  by (simp add: ofTheKind_def newEvent_def)

lemma ofTheKind_update [simp]:
  "ofTheKind k (e\<lparr>TeDate := a\<rparr>) = ofTheKind k e" "ofTheKind k (e\<lparr>TeType := a\<rparr>) = ofTheKind k e"
  "ofTheKind k (e\<lparr>TeHolder := w\<rparr>) = ofTheKind k e" "ofTheKind k (e\<lparr>TeMemoryID := w\<rparr>) = ofTheKind k e"
  "ofTheKind k (e\<lparr>TeParticipants := ps\<rparr>) = ofTheKind k e" "ofTheKind k (e\<lparr>TeEndDate := a\<rparr>) = ofTheKind k e"
  "ofTheKind k (e\<lparr>TeOwner := w\<rparr>) = ofTheKind k e" "ofTheKind k (e\<lparr>TeTarget := w\<rparr>) = ofTheKind k e"
  "ofTheKind k (e\<lparr>TeTargetType := a\<rparr>) = ofTheKind k e" "ofTheKind k (e\<lparr>TeStatus := a\<rparr>) = ofTheKind k e"
  "ofTheKind k (e\<lparr>TeProgress := w\<rparr>) = ofTheKind k e" "ofTheKind k (e\<lparr>TeExposed := x\<rparr>) = ofTheKind k e"
  "ofTheKind k (e\<lparr>TeHouses := ws\<rparr>) = ofTheKind k e" "ofTheKind k (e\<lparr>TeLevel := a\<rparr>) = ofTheKind k e"
  "ofTheKind k (e\<lparr>TeAmount := w\<rparr>) = ofTheKind k e" "ofTheKind k (e\<lparr>TeReason := a\<rparr>) = ofTheKind k e"
  by (simp_all add: ofTheKind_def)

lemma event_fields_steady:
  assumes "ofTheKind k e"
  shows "str.steadyAt enc limits n (ofTheKind k) (successionField field value e)"
    and "str.steadyAt enc limits n (ofTheKind k) (participantField caps field value e)"
    and "str.steadyAt enc limits n (ofTheKind k) (schemeTarget field value e)"
    and "str.steadyAt enc limits n (ofTheKind k) (courtPositionField field value e)"
    and "str.steadyAt enc limits n (ofTheKind k) (vassalContractField field value e)"
    and "str.steadyAt enc limits n (ofTheKind k) (houseChangeField field value e)"
    and "str.steadyAt enc limits n (ofTheKind k) (catalystField field value e)"
  unfolding successionField_def participantField_def schemeTarget_def courtPositionField_def vassalContractField_def
    houseChangeField_def catalystField_def
  by (intro steady_intros; simp add: assms)+

lemma memoryField_steady:
  "ofTheKind k e \<Longrightarrow> str.steadyAt enc limits n (ofTheKind k) (memoryField resolver caps field value e)"
  unfolding memoryField_def
  by (intro steady_intros readObjectStream_steady event_fields_steady) auto

lemma schemeField_steady:
  "ofTheKind k e \<Longrightarrow> str.steadyAt enc limits n (ofTheKind k) (schemeField resolver field value e)"
  unfolding schemeField_def
  by (intro steady_intros readObjectStream_steady event_fields_steady) auto

text \<open>Lists of events of one kind.\<close>

abbreviation allOf :: "bytes \<Rightarrow> TimelineEvent list \<Rightarrow> bool" where
  "allOf k es \<equiv> list_all (ofTheKind k) es"

lemma successionEntry_steady:
  assumes "allOf EventTitleHistory es"
  shows "str.steadyAt enc limits n (allOf EventTitleHistory) (successionEntry resolver caps time entry es)"
  unfolding successionEntry_def Let_def
  by (intro str.steady_if skipThen_steady str.steady_return
      str.steady_bind [OF readObjectStream_steady [where I = "ofTheKind EventTitleHistory"]] event_fields_steady)
     (use assms in auto)

lemma readTitleHistory_steady:
  "str.steadyAt enc limits n (allOf EventTitleHistory) (readTitleHistory resolver value caps)"
  unfolding readTitleHistory_def
  by (intro str.steady_if skipThen_steady readObjectStream_steady successionEntry_steady) auto

lemma titleHistoryField_steady:
  assumes "allOf EventTitleHistory (snd acc)"
  shows "str.steadyAt enc limits n (\<lambda>acc. allOf EventTitleHistory (snd acc)) (titleHistoryField resolver caps field value acc)"
  unfolding titleHistoryField_def
  by (intro steady_intros str.steady_bind [OF readTitleHistory_steady]) (use assms in auto)

lemma titleHistoryEntry_steady:
  assumes "collectedOk q s" and "wantsKind q EventTitleHistory"
  shows "str.steadyAt enc limits n (collectedOk q) (titleHistoryEntry resolver q caps i entry s)"
proof -
  have entry: "str.steadyAt enc limits n (\<lambda>acc. allOf EventTitleHistory (snd acc))
      (readObjectStream resolver ([], []) (titleHistoryField resolver caps))"
    by (rule readObjectStream_steady [OF titleHistoryField_steady]) auto
  show ?thesis
    unfolding titleHistoryEntry_def
    by (intro str.steady_bind [OF entry] steady_intros)
       (use assms in \<open>auto intro!: collectedOk_fold keepSuccession_ok simp: list_all_iff ofTheKind_def\<close>)
qed

lemma readTitleHistories_steady:
  assumes "collectedOk q s" and "wantsKind q EventTitleHistory"
  shows "str.steadyAt enc limits n (collectedOk q) (readTitleHistories resolver value q caps s)"
  unfolding readTitleHistories_def
  by (intro str.steady_if skipThen_steady readObjectStream_steady readNumberedEntries_steady titleHistoryEntry_steady
      assms | assumption)+

lemma memoryIds_steady: "str.steadyAt enc limits n (\<lambda>_. True) (memoryIds caps sub value context)"
  unfolding memoryIds_def by (intro steady_intros TrueI)

lemma readCharacterContext_steady: "str.steadyAt enc limits n (\<lambda>_. True) (readCharacterContext resolver value q caps context)"
  unfolding readCharacterContext_def contextField_def
  by (intro steady_intros readNumberedEntries_steady readObjectStream_steady memoryIds_steady TrueI)

lemma memoryEntry_steady:
  assumes "collectedOk q s" and "wantsKind q EventCharacterMemory"
  shows "str.steadyAt enc limits n (collectedOk q) (memoryEntry resolver q caps owned i entry s)"
proof -
  have entry: "str.steadyAt enc limits n (ofTheKind EventCharacterMemory)
      (readObjectStream resolver ((newEvent EventCharacterMemory)\<lparr>TeMemoryID := i\<rparr>) (memoryField resolver caps))"
    by (rule readObjectStream_steady [OF memoryField_steady]) auto
  show ?thesis
    unfolding memoryEntry_def Let_def
    by (intro str.steady_bind [OF entry] steady_intros)
       (use assms in \<open>auto intro!: keep_unfiltered_ok simp: ofTheKind_def\<close>)
qed

lemma readMemories_steady:
  assumes "collectedOk q s" and "wantsKind q EventCharacterMemory"
  shows "str.steadyAt enc limits n (collectedOk q) (readMemories resolver value q caps owned s)"
  unfolding readMemories_def
  by (intro str.steady_if skipThen_steady readObjectStream_steady readNumberedEntries_steady memoryEntry_steady
      assms | assumption)+

lemma betweenEntry_steady:
  assumes "collectedOk q (f s)" and "k \<in> {EventScheme, EventCourtPosition, EventVassalContract}" and "wantsKind q k"
    and "\<And>field value e n. ofTheKind k e \<Longrightarrow> str.steadyAt enc limits n (ofTheKind k) (visit field value e)"
  shows "str.steadyAt enc limits n (collectedOk q)
    (bindM (readObjectStream resolver (newEvent k) visit) (\<lambda>event. returnM (keepBetween q event (f s))))"
proof -
  have entry: "str.steadyAt enc limits n (ofTheKind k) (readObjectStream resolver (newEvent k) visit)"
    by (rule readObjectStream_steady [OF assms(4)]) auto
  show ?thesis
    by (intro str.steady_bind [OF entry] steady_intros keepBetween_ok) (use assms in \<open>auto simp: ofTheKind_def\<close>)
qed

lemma betweenEntries_steady:
  assumes "collectedOk q s"
  shows "wantsKind q EventScheme \<Longrightarrow> str.steadyAt enc limits n (collectedOk q) (schemeEntry resolver q i entry s)"
    and "wantsKind q EventCourtPosition \<Longrightarrow> str.steadyAt enc limits n (collectedOk q) (courtPositionEntry resolver q i entry s)"
    and "wantsKind q EventVassalContract \<Longrightarrow> str.steadyAt enc limits n (collectedOk q) (vassalContractEntry resolver q i entry s)"
  unfolding schemeEntry_def courtPositionEntry_def vassalContractEntry_def
  by (rule betweenEntry_steady; use assms schemeField_steady event_fields_steady in simp)+

lemma readSchemes_steady:
  assumes "collectedOk q s" and "wantsKind q EventScheme"
  shows "str.steadyAt enc limits n (collectedOk q) (readSchemes resolver value q s)"
  unfolding readSchemes_def
  by (intro str.steady_if skipThen_steady readObjectStream_steady readNumberedEntries_steady betweenEntries_steady
      assms | assumption)+

lemma readCourtPositions_steady:
  assumes "collectedOk q s" and "wantsKind q EventCourtPosition"
  shows "str.steadyAt enc limits n (collectedOk q) (readCourtPositions resolver value q s)"
  unfolding readCourtPositions_def
  by (intro readDatabaseEntries_steady betweenEntries_steady assms | assumption)+

lemma readVassalContracts_steady:
  assumes "collectedOk q s" and "wantsKind q EventVassalContract"
  shows "str.steadyAt enc limits n (collectedOk q) (readVassalContracts resolver value q s)"
  unfolding readVassalContracts_def
  by (intro readDatabaseEntries_steady betweenEntries_steady assms | assumption)+

lemma houseChange_steady:
  assumes "allOf EventHouseRelation cs"
  shows "str.steadyAt enc limits n (allOf EventHouseRelation) (houseChange resolver cs)"
  unfolding houseChange_def
  by (intro str.steady_bind [OF readObjectStream_steady [where I = "ofTheKind EventHouseRelation"]]
      event_fields_steady str.steady_return) (use assms in auto)

lemma houseRelationField_steady:
  assumes "allOf EventHouseRelation (snd acc)"
  shows "str.steadyAt enc limits n (\<lambda>acc. allOf EventHouseRelation (snd acc)) (houseRelationField resolver caps field value acc)"
  unfolding houseRelationField_def
  by (intro steady_intros str.steady_bind [OF readContainerList_steady [where I = "allOf EventHouseRelation"]]
      houseChange_steady) (use assms in auto)

lemma houseRelationEntry_steady:
  assumes "collectedOk q s" and "wantsKind q EventHouseRelation"
  shows "str.steadyAt enc limits n (collectedOk q) (houseRelationEntry resolver q caps house i entry s)"
proof -
  have entry: "str.steadyAt enc limits n (\<lambda>acc. allOf EventHouseRelation (snd acc))
      (readObjectStream resolver ([], []) (houseRelationField resolver caps))"
    by (rule readObjectStream_steady [OF houseRelationField_steady]) auto
  have kind: "TeKind (e\<lparr>TeHouses := hs\<rparr>) = TeKind e" for e :: TimelineEvent and hs by simp
  show ?thesis
    unfolding houseRelationEntry_def Let_def
    by (intro str.steady_bind [OF entry] steady_intros)
       (use assms in \<open>auto intro!: collectedOk_fold keep_unfiltered_ok simp: list_all_iff ofTheKind_def\<close>)
qed

lemma readHouseRelations_steady:
  assumes "collectedOk q s" and "wantsKind q EventHouseRelation"
  shows "str.steadyAt enc limits n (collectedOk q) (readHouseRelations resolver value q caps house s)"
  unfolding readHouseRelations_def
  by (intro readDatabaseEntries_steady houseRelationEntry_steady assms | assumption)+

lemma readCatalyst_steady:
  assumes "allOf EventStruggle cs"
  shows "str.steadyAt enc limits n (allOf EventStruggle) (readCatalyst resolver phase cs)"
  unfolding readCatalyst_def
  by (intro str.steady_bind [OF readObjectStream_steady [where I = "ofTheKind EventStruggle"]]
      event_fields_steady str.steady_return) (use assms in auto)

lemma strugglePhase_steady:
  assumes "allOf EventStruggle cs"
  shows "str.steadyAt enc limits n (allOf EventStruggle) (strugglePhase resolver caps phase value cs)"
  unfolding strugglePhase_def phaseField_def
  by (intro str.steady_if skipThen_steady readObjectStream_steady readContainerList_steady readCatalyst_steady
      assms | assumption)+

definition struggleOk :: "TimelineEvent \<times> TimelineEvent list \<Rightarrow> bool" where
  "struggleOk acc \<longleftrightarrow> ofTheKind EventStruggle (fst acc) \<and> allOf EventStruggle (snd acc)"

lemma struggleField_steady:
  assumes "struggleOk acc"
  shows "str.steadyAt enc limits n struggleOk (struggleField resolver caps field value acc)"
proof -
  obtain began cs where acc: "acc = (began, cs)" by (cases acc)
  have phases: "str.steadyAt enc limits n (allOf EventStruggle) (readObjectStream resolver cs (strugglePhase resolver caps))"
    by (intro readObjectStream_steady strugglePhase_steady) (use assms acc in \<open>auto simp: struggleOk_def\<close>)
  show ?thesis
    unfolding acc struggleField_def prod.case
    by (intro steady_intros str.steady_bind [OF phases]) (use assms acc in \<open>auto simp: struggleOk_def\<close>)
qed

lemma struggleEntry_steady:
  assumes "collectedOk q s" and "wantsKind q EventStruggle"
  shows "str.steadyAt enc limits n (collectedOk q) (struggleEntry resolver q caps i entry s)"
proof -
  have entry: "str.steadyAt enc limits n struggleOk
      (readObjectStream resolver ((newEvent EventStruggle)\<lparr>TeStatus := ''began''\<rparr>, []) (struggleField resolver caps))"
    by (rule readObjectStream_steady [OF struggleField_steady]) (auto simp: struggleOk_def)
  show ?thesis
    unfolding struggleEntry_def Let_def
    by (intro str.steady_bind [OF entry] steady_intros)
       (use assms in \<open>auto intro!: collectedOk_fold keep_unfiltered_ok keepCatalyst_ok
          simp: list_all_iff ofTheKind_def struggleOk_def\<close>)
qed

lemma readStruggles_steady:
  assumes "collectedOk q s" and "wantsKind q EventStruggle"
  shows "str.steadyAt enc limits n (collectedOk q) (readStruggles resolver value q caps s)"
  unfolding readStruggles_def
  by (intro readDatabaseEntries_steady struggleEntry_steady assms | assumption)+

lemma timelineBlock_steady:
  assumes "collectedOk q (fst acc)"
  shows "str.steadyAt enc limits n (\<lambda>acc. collectedOk q (fst acc)) (timelineBlock resolver q caps name value acc)"
proof -
  obtain s known where acc: "acc = (s, known)" by (cases acc)
  have s: "collectedOk q s" using assms acc by simp
  have keep: "str.steadyAt enc limits n (\<lambda>acc. collectedOk q (fst acc))
      (if \<not> wantsKind q kind then skipThen value (s, known) else bindM m (\<lambda>s. returnM (s, known)))"
    if "wantsKind q kind \<Longrightarrow> str.steadyAt enc limits n (collectedOk q) m" for kind m
    by (intro str.steady_if skipThen_steady str.steady_bind [OF that] str.steady_return) (use s in auto)
  show ?thesis
    unfolding acc timelineBlock_def prod.case Let_def
    by (intro str.steady_if [where c = "name = _"] str.steady_if [where c = "name = _ \<or> _"] keep
        readTitleHistories_steady readMemories_steady readSchemes_steady readCourtPositions_steady
        readVassalContracts_steady readHouseRelations_steady readStruggles_steady s skipThen_steady
        str.steady_if [where c = "TqCharacter q = 0 \<or> _"] str.steady_bind [OF readCharacterContext_steady]
        str.steady_return | assumption | simp add: s)+
qed

section \<open>The window\<close>

text \<open>
  What is reported, against everything that was counted: the older events that were cut, then the reported
  ones, are in order of date; the cut is the window; and the two marks tell which cuts were made.
\<close>

definition timelineOk :: "TimelineQuery \<Rightarrow> TimelineScan \<Rightarrow> bool" where
  "timelineOk q s \<longleftrightarrow> (\<exists>older.
     sorted_wrt notLater (older @ TsEvents s) \<and> list_all (eventWanted q) (older @ TsEvents s)
     \<and> int (length (TsEvents s)) \<le> timelineWindow q
     \<and> (older \<noteq> [] \<longrightarrow> int (length (TsEvents s)) = timelineWindow q)
     \<and> (''events'' \<in> set (TsTruncated s) \<longleftrightarrow> older \<noteq> [])
     \<and> (''collection_ceiling'' \<notin> set (TsTruncated s) \<longrightarrow>
          TsTotal s = int (length (older @ TsEvents s))
          \<and> (\<forall>kind. totalOf (TsTotals s) kind = ofKind kind (older @ TsEvents s)))
     \<and> (''collection_ceiling'' \<in> set (TsTruncated s) \<longrightarrow>
          int (length (older @ TsEvents s)) = maxCollectedEvents \<and> TsTotal s > maxCollectedEvents)
     \<and> sum_list (map snd (TsTotals s)) = TsTotal s)"

lemma ofKind_sort [simp]: "ofKind kind (sortTimeline es) = ofKind kind es"
  unfolding ofKind_def by (metis mset_filter size_mset sortTimeline_mset)

lemma collectedOk_sorted: "collectedOk q s \<Longrightarrow> collectedOk q (s\<lparr>TsEvents := sortTimeline (TsEvents s)\<rparr>)"
  by (simp add: collectedOk_def list_all_iff)

lemma timelineOk_window:
  assumes "collectedOk q s" and "sorted_wrt notLater (TsEvents s)"
  shows "timelineOk q ((windowEvents (timelineWindow q) s)\<lparr>TsBytesRead := n\<rparr>)"
proof (cases "int (length (TsEvents s)) \<le> timelineWindow q")
  case True
  then have "windowEvents (timelineWindow q) s = s" by (simp add: windowEvents_def)
  then show ?thesis
    unfolding timelineOk_def
    by (intro exI [of _ "[]"]) (use True assms in \<open>auto simp: collectedOk_def split: if_splits\<close>)
next
  case False
  have pos: "0 < timelineWindow q" by (simp add: timelineWindow_def)
  let ?cut = "length (TsEvents s) - nat (timelineWindow q)"
  have w: "windowEvents (timelineWindow q) s =
      s\<lparr>TsEvents := drop ?cut (TsEvents s), TsTruncated := TsTruncated s @ [''events'']\<rparr>"
    using False pos assms(1)
    by (auto simp: windowEvents_def appendTruncated_def hasTruncation_def collectedOk_def split: if_splits)
  define older newer where "older = take ?cut (TsEvents s)" and "newer = drop ?cut (TsEvents s)"
  then have parts: "TsEvents s = older @ newer" by simp
  have older: "older \<noteq> []" and newer: "int (length newer) = timelineWindow q"
    using False pos by (auto simp: older_def newer_def of_nat_diff)
  let ?s = "s\<lparr>TsEvents := newer, TsTruncated := TsTruncated s @ [''events'']\<rparr>"
  have "timelineOk q (?s\<lparr>TsBytesRead := n\<rparr>)"
  proof (cases "TsTruncated s = []")
    case True
    then show ?thesis
      using assms parts older newer unfolding timelineOk_def collectedOk_def
      by (intro exI [of _ older]) simp
  next
    case False
    then show ?thesis
      using assms parts older newer unfolding timelineOk_def collectedOk_def
      by (intro exI [of _ older]) simp
  qed
  then show ?thesis using w by (simp only: newer_def)
qed

lemma timeline_total:
  assumes "healthy src"
  obtains r where "ScanTimeline enc src resolver q caps = Some r" and "\<And>s. r = Inr s \<Longrightarrow> timelineOk q s"
proof (cases "resolver = None \<and> enc \<noteq> EncodingText")
  case True
  then show ?thesis
    using that [of "Inl (newError ErrTokenMap ''a token map is required to navigate a binary gamestate'')"]
    by (simp add: ScanTimeline_def)
next
  case named: False
  have total: "str.steadyAt enc (streamLimits caps) n (\<lambda>acc. collectedOk q (fst acc))
      (readObjectStream resolver (emptyTimeline, emptyContext) (timelineBlock resolver q caps))" for n
    by (rule readObjectStream_steady [OF timelineBlock_steady]) (auto simp: collectedOk_empty)
  show ?thesis
  proof (rule str.steady_run [OF total stream_ok_new [OF assms]])
    fix r d'
    assume run: "readObjectStream resolver (emptyTimeline, emptyContext) (timelineBlock resolver q caps)
        (NewStreamDecoderFor enc src (streamLimits caps)) = Some (r, d')"
      and post: "\<And>a. r = Inr a \<Longrightarrow> collectedOk q (fst a)"
    show ?thesis
    proof (cases r)
      case (Inl e)
      then show ?thesis using that [of "Inl e"] run named by (simp add: ScanTimeline_def)
    next
      case (Inr b)
      obtain s known where b: "b = (s, known)" by (cases b)
      have "collectedOk q s" using post [OF Inr] b by simp
      then have "timelineOk q ((windowEvents (timelineWindow q) (s\<lparr>TsEvents := sortTimeline (TsEvents s)\<rparr>))
          \<lparr>TsBytesRead := sd_read d'\<rparr>)"
        by (intro timelineOk_window) (simp_all add: collectedOk_sorted sortTimeline_sorted)
      then show ?thesis using that run named Inr b by (simp add: ScanTimeline_def)
    qed
  qed
qed


text \<open>As text the tenth month would come before the ninth.\<close>

definition sampleTimeline :: "readEvent list" where
  "sampleTimeline =
     [RData ''landed_titles={ landed_titles={ 1={ history={ 1066.10.1={ hold'',
      RDataEOF ''er=7 } 1066.9.1=7 1070.1.1=8 } } } }'']"

definition sampleTimelineQuery :: TimelineQuery where
  "sampleTimelineQuery = \<lparr>TqCharacter = 7, TqKinds = [], TqMaxEvents = 1\<rparr>"


end
