(* ===== verification/DocumentPath.thy ===== *)
theory DocumentPath
  imports SaveFile
begin

text \<open>
  Paths into a save (\<^verbatim>\<open>internal/savefile/document.go\<close>): the \<open>a.b[2].c\<close> form, its parser and its
  rendering, and the position a numeric step may name.
\<close>

record DocumentStep =
  StepName :: bytes
  StepIndex :: int

type_synonym DocumentPath = "DocumentStep list"

definition pathError :: "piece list \<Rightarrow> SaveError" where
  "pathError detail = newErrorf ErrPath detail"

text \<open>One component. The index is what stands between the first bracket and the closing one that
  must end the component.\<close>

definition parseStep :: "bytes \<Rightarrow> SaveError + DocumentStep" where
  "parseStep component =
     (if component = [] then Inl (pathError [Lit ''a path component is empty''])
      else
        let named = (\<lambda>step. if StepName step = []
              then Inl (pathError [Lit ''a path component names no key'']) else Inr step)
        in case indexByte component (CHR ''['') of
             None \<Rightarrow> named \<lparr>StepName = component, StepIndex = 0\<rparr>
           | Some opn \<Rightarrow>
               if \<not> hasSuffix component [CHR '']'']
               then Inl (pathError [Lit ''path component '', Quoted component, Lit '' opens an index it never closes''])
               else
                 let digits = take (length component - 1 - (opn + 1)) (drop (opn + 1) component) in
                 (case parseInt digits of
                    None \<Rightarrow> Inl (pathError [Lit ''path component '', Quoted component, Lit '' has a non-numeric index''])
                  | Some index \<Rightarrow>
                      if index < 0
                      then Inl (pathError [Lit ''path component '', Quoted component, Lit '' has a non-numeric index''])
                      else named \<lparr>StepName = take opn component, StepIndex = index\<rparr>))"

fun parseSteps :: "bytes list \<Rightarrow> SaveError + DocumentPath" where
  "parseSteps [] = Inr []"
| "parseSteps (component # rest) =
     (case parseStep component of
        Inl e \<Rightarrow> Inl e
      | Inr step \<Rightarrow> (case parseSteps rest of Inl e \<Rightarrow> Inl e | Inr steps \<Rightarrow> Inr (step # steps)))"

definition ParseDocumentPath :: "bytes \<Rightarrow> SaveError + DocumentPath" where
  "ParseDocumentPath raw =
     (let trimmed = trimSpace raw in
      if trimmed = [] then Inr [] else parseSteps (splitOn (CHR ''.'') trimmed))"

definition stepString :: "DocumentStep \<Rightarrow> bytes" where
  "stepString step =
     (if StepIndex step = 0 then StepName step
      else StepName step @ CHR ''['' # formatInt (StepIndex step) @ [CHR '']''])"

definition pathString :: "DocumentPath \<Rightarrow> bytes" where
  "pathString p = joinWith (CHR ''.'') (map stepString p)"

text \<open>\<^verbatim>\<open>positionalStep\<close>: the list position a numeric step without an index names.\<close>

definition positionalStep :: "DocumentStep \<Rightarrow> int option" where
  "positionalStep step =
     (if StepIndex step \<noteq> 0 then None
      else case parseInt (StepName step) of
        None \<Rightarrow> None
      | Some v \<Rightarrow> if v < 0 then None else Some v)"

section \<open>Rendering and parsing\<close>

definition stepOk :: "DocumentStep \<Rightarrow> bool" where
  "stepOk step \<longleftrightarrow> StepName step \<noteq> [] \<and> CHR ''.'' \<notin> set (StepName step) \<and> CHR ''['' \<notin> set (StepName step)
     \<and> 0 \<le> StepIndex step \<and> StepIndex step < 2 ^ 63"

lemma parseStep_stepString:
  assumes "stepOk step"
  shows "parseStep (stepString step) = Inr step"
proof (cases "StepIndex step = 0")
  case True
  then show ?thesis
    using assms by (cases step) (simp add: parseStep_def stepString_def stepOk_def indexByte_None)
next
  case False
  let ?c = "StepName step @ CHR ''['' # formatInt (StepIndex step) @ [CHR '']'']"
  have idx: "indexByte ?c (CHR ''['') = Some (length (StepName step))"
    using assms by (intro indexByte_append) (simp add: stepOk_def)
  have suf: "hasSuffix ?c [CHR '']'']" by (simp add: hasSuffix_def)
  have num: "parseInt (formatInt (StepIndex step)) = Some (StepIndex step)"
    using assms by (intro parseInt_formatInt) (simp_all add: stepOk_def)
  show ?thesis
    using False assms idx suf num
    by (cases step) (simp add: parseStep_def stepString_def stepOk_def Let_def)
qed

lemma parseSteps_map: "\<forall>s \<in> set p. stepOk s \<Longrightarrow> parseSteps (map stepString p) = Inr p"
  by (induction p) (auto simp: parseStep_stepString)

lemma stepString_no_dot: "stepOk s \<Longrightarrow> CHR ''.'' \<notin> set (stepString s)"
  using formatNat_digits [of "CHR ''.''"]
  by (auto simp: stepString_def stepOk_def formatInt_def isDigit_def byteOf_def split: if_splits)

lemma stepString_nonempty: "stepOk s \<Longrightarrow> stepString s \<noteq> []"
  by (auto simp: stepString_def stepOk_def)

lemma pathString_nonempty: "p \<noteq> [] \<Longrightarrow> \<forall>s \<in> set p. stepOk s \<Longrightarrow> pathString p \<noteq> []"
  by (cases p rule: list.exhaust; cases "tl p")
     (auto simp: pathString_def stepString_nonempty)

text \<open>C20. A path reads back from its rendering: for steps with a non-empty name free of dots and
  brackets and an index within 64 bits, parsing what \<^verbatim>\<open>String\<close> renders gives the path again. White
  space at the ends is the exception, because the parser trims it.\<close>

theorem path_roundtrip:
  assumes "\<forall>s \<in> set p. stepOk s" and "trimSpace (pathString p) = pathString p"
  shows "ParseDocumentPath (pathString p) = Inr p"
proof (cases "p = []")
  case True
  then show ?thesis using assms(2) by (simp add: ParseDocumentPath_def pathString_def)
next
  case False
  then have "splitOn (CHR ''.'') (pathString p) = map stepString p"
    unfolding pathString_def using assms(1) stepString_no_dot by (intro splitOn_joinWith) auto
  then show ?thesis
    using assms pathString_nonempty [OF False assms(1)] parseSteps_map [OF assms(1)]
    by (simp add: ParseDocumentPath_def Let_def)
qed

definition samplePath :: DocumentPath where
  "samplePath = [\<lparr>StepName = ''living'', StepIndex = 0\<rparr>, \<lparr>StepName = ''child'', StepIndex = 2\<rparr>]"

theorem path_roundtrip_witness:
  "ParseDocumentPath (pathString samplePath) = Inr samplePath \<and> pathString samplePath = ''living.child[2]''"
proof -
  have s: "pathString samplePath = ''living.child[2]''" by code_simp
  have "trimSpace ''living.child[2]'' = ''living.child[2]''" by code_simp
  then show ?thesis
    using path_roundtrip [of samplePath] s by (simp add: samplePath_def stepOk_def)
qed

end
