(* ===== verification/FloatText.thy ===== *)
theory FloatText
  imports Float64
begin

text \<open>
  \<^verbatim>\<open>strconv.FormatFloat(f, 'f', -1, 64)\<close>: the shortest decimal that reads back as the same float,
  the nearest to it among those of that length, written without an exponent.
\<close>

text \<open>How many decimal digits stand before the point: the least \<open>p\<close> with \<open>n / d < 10 ^ p\<close>, which is
  negative for small fractions. \<open>bound\<close> limits the search; a finite float lies between \<open>10 ^ -324\<close> and
  \<open>10 ^ 309\<close>.\<close>

definition belowPow10 :: "nat \<Rightarrow> nat \<Rightarrow> int \<Rightarrow> bool" where
  "belowPow10 n d p \<longleftrightarrow> (if 0 \<le> p then n < d * 10 ^ nat p else n * 10 ^ nat (- p) < d)"

fun leastPow10 :: "nat \<Rightarrow> nat \<Rightarrow> nat \<Rightarrow> int \<Rightarrow> int" where
  "leastPow10 0 n d p = p"
| "leastPow10 (Suc bound) n d p =
     (if belowPow10 n d p then (if belowPow10 n d (p - 1) then leastPow10 bound n d (p - 1) else p)
      else leastPow10 bound n d (p + 1))"

text \<open>The decimal \<open>digits * 10 ^ e\<close> as numerator and denominator.\<close>

definition decimalRatio :: "nat \<Rightarrow> int \<Rightarrow> nat \<times> nat" where
  "decimalRatio digits e = (if 0 \<le> e then (digits * 10 ^ nat e, 1) else (digits, 10 ^ nat (- e)))"

definition readsBack :: "float64 \<Rightarrow> nat \<Rightarrow> int \<Rightarrow> bool" where
  "readsBack w digits e =
     (let (n, d) = decimalRatio digits e in f64OfRat False n d = w)"

text \<open>The candidates with \<open>k\<close> digits are the two decimals around the value; of two that read back the
  nearer is taken, the even one on a tie.\<close>

definition candidate :: "float64 \<Rightarrow> nat \<Rightarrow> nat \<Rightarrow> int \<Rightarrow> nat option" where
  "candidate w n d e =
     (let (n1, d1) = (if 0 \<le> e then (n, d * 10 ^ nat e) else (n * 10 ^ nat (- e), d));
          lo = n1 div d1; hi = Suc lo; near = roundQuot n1 d1;
          other = (if near = lo then hi else lo)
      in if readsBack w near e then Some near
         else if readsBack w other e then Some other
         else None)"

fun shortestFrom :: "nat \<Rightarrow> nat \<Rightarrow> float64 \<Rightarrow> nat \<Rightarrow> nat \<Rightarrow> int \<Rightarrow> nat \<times> int" where
  "shortestFrom 0 k w n d p = (0, 0)"
| "shortestFrom (Suc fuel) k w n d p =
     (let e = p - int k in
      case candidate w n d e of
        Some digits \<Rightarrow> (digits, e)
      | None \<Rightarrow> shortestFrom fuel (Suc k) w n d p)"

text \<open>Rounding up may carry into a power of ten; its zeros are not digits of the shortest decimal.\<close>

fun dropZeros :: "nat \<Rightarrow> int \<Rightarrow> nat \<times> int" where
  "dropZeros digits e =
     (if digits \<noteq> 0 \<and> digits mod 10 = 0 then dropZeros (digits div 10) (e + 1) else (digits, e))"

declare dropZeros.simps [simp del]

text \<open>Writing \<open>digits * 10 ^ e\<close> without an exponent.\<close>

definition plainDecimal :: "nat \<Rightarrow> int \<Rightarrow> bytes" where
  "plainDecimal digits e =
     (if 0 \<le> e then formatNat (digits * 10 ^ nat e)
      else
        let ds = formatNat digits; k = nat (- e);
            padded = replicate (Suc k - length ds) (CHR ''0'') @ ds
        in take (length padded - k) padded @ CHR ''.'' # drop (length padded - k) padded)"

text \<open>17 digits always read back, so the search ends before its fuel does.\<close>

definition formatFloat :: "float64 \<Rightarrow> bytes" where
  "formatFloat w =
     (if \<not> f64Finite w
      then (if f64MagOf w \<noteq> f64Infinity then ''NaN'' else if f64Negative w then ''-Inf'' else ''+Inf'')
      else
        let (n, d) = f64Ratio (f64MagOf w); sign = (if f64Negative w then ''-'' else []) in
        if n = 0 then sign @ ''0''
        else
          let p = leastPow10 400 n d 0;
              (digits, e) = shortestFrom 18 1 (word_of_nat (f64MagOf w)) n d p
          in sign @ (case dropZeros digits e of (ds, x) \<Rightarrow> plainDecimal ds x))"

end
