(* ===== verification/Document.thy ===== *)
theory Document
  imports Gamestate DocumentPath FloatText "HOL-Library.AList"
begin

text \<open>
  \<^verbatim>\<open>internal/savefile/document.go\<close>: walking a save to any path and describing or materialising what
  is there within a budget. The state of a walk is the decoder, the nodes spent and the bounds
  reached; \<^verbatim>\<open>hold\<close> preserves a token's bytes across a read, which tokens here do by being values. A
  Go map from keys to values is an association list with one entry per key.
\<close>

section \<open>Bounds, values and reports\<close>

record DocumentLimits =
  MaxNodes :: int
  DocMaxDepth :: int
  MaxChildren :: int
  MaxScalarBytes :: int

definition DefaultDocumentLimits :: DocumentLimits where
  "DefaultDocumentLimits = \<lparr>MaxNodes = 4096, DocMaxDepth = 6, MaxChildren = 256, MaxScalarBytes = 2048\<rparr>"

datatype NodeKind = NodeNone | NodeObject | NodeArray | NodeScalar | NodeEmpty

datatype docValue =
    DVNull
  | DVBool bool
  | DVUnsigned "64 word"
  | DVSigned "64 word"
  | DVFloat float64
  | DVText bytes
  | DVObject "(bytes \<times> docValue) list"
  | DVArray "docValue list"

record DocumentChild =
  ChildKey :: bytes
  ChildKind :: NodeKind
  Occurrences :: int
  ChildChildren :: int
  Preview :: bytes

record Document =
  DocPath :: bytes
  DocKind :: NodeKind
  DocChildren :: "DocumentChild list"
  ChildCount :: int
  DocValue :: "docValue option"
  DocScalar :: bytes
  RepeatedKeys :: "bytes list"
  DocTruncated :: "bytes list"
  DocBytesRead :: int

definition ellipsis :: bytes where
  "ellipsis = [CHR 0xE2, CHR 0x80, CHR 0xA6]"

definition scalarText :: "Token \<Rightarrow> int \<Rightarrow> bytes" where
  "scalarText token most =
     (let bounded = (\<lambda>s. if most > 0 \<and> int (length s) > most then take (nat most) s @ ellipsis else s) in
      case Kind token of
        KindOpen \<Rightarrow> []
      | KindClose \<Rightarrow> []
      | KindEqual \<Rightarrow> []
      | KindBool \<Rightarrow> if Bool token then ''yes'' else ''no''
      | KindU32 \<Rightarrow> bounded (formatInt (uint (Unsigned token)))
      | KindU64 \<Rightarrow> bounded (formatInt (uint (Unsigned token)))
      | KindI32 \<Rightarrow> bounded (formatInt (sint (Signed token)))
      | KindI64 \<Rightarrow> bounded (formatInt (sint (Signed token)))
      | KindF32 \<Rightarrow> bounded (formatFloat (floatOf token))
      | KindF64 \<Rightarrow> bounded (formatFloat (floatOf token))
      | KindDecimal \<Rightarrow> bounded (formatFloat (floatOf token))
      | KindRGB \<Rightarrow> ''rgb('' @ joinWith (CHR '','') (map (\<lambda>c. formatInt (uint c)) (take 3 (RGB token))) @ '')''
      | _ \<Rightarrow> bounded (Text token))"

definition scalarValue :: "Token \<Rightarrow> int \<Rightarrow> docValue" where
  "scalarValue token most =
     (case Kind token of
        KindBool \<Rightarrow> DVBool (Bool token)
      | KindU32 \<Rightarrow> DVUnsigned (Unsigned token)
      | KindU64 \<Rightarrow> DVUnsigned (Unsigned token)
      | KindI32 \<Rightarrow> DVSigned (Signed token)
      | KindI64 \<Rightarrow> DVSigned (Signed token)
      | KindF32 \<Rightarrow> DVFloat (floatOf token)
      | KindF64 \<Rightarrow> DVFloat (floatOf token)
      | KindDecimal \<Rightarrow> DVFloat (floatOf token)
      | _ \<Rightarrow> DVText (scalarText token most))"

section \<open>The walk\<close>

record documentWalk =
  wDecoder :: StreamDecoder
  wResolver :: "TokenMap option"
  wBounds :: DocumentLimits
  wNodes :: int
  wTruncated :: "bytes list"

definition onDecoder :: "(StreamDecoder, 'a) save_m \<Rightarrow> (documentWalk, 'a) save_m" where
  "onDecoder m w =
     (case m (wDecoder w) of
        None \<Rightarrow> None
      | Some (r, d) \<Rightarrow> Some (r, w\<lparr>wDecoder := d\<rparr>))"

definition noteReason :: "bytes \<Rightarrow> documentWalk \<Rightarrow> documentWalk" where
  "noteReason reason w = (if reason \<in> set (wTruncated w) then w else w\<lparr>wTruncated := wTruncated w @ [reason]\<rparr>)"

definition noteM :: "bytes \<Rightarrow> (documentWalk, unit) save_m" where
  "noteM reason = modifyM (noteReason reason)"

definition spend :: "(documentWalk, bool) save_m" where
  "spend w =
     (if wNodes w \<ge> MaxNodes (wBounds w) then Some (Inr False, noteReason ''max_nodes'' w)
      else Some (Inr True, w\<lparr>wNodes := wNodes w + 1\<rparr>))"

definition entryKeyM :: "Token \<Rightarrow> (documentWalk, bytes option) save_m" where
  "entryKeyM token w =
     (let (key, d) = StreamDecoder_entryKey token (wResolver w) (wDecoder w)
      in Some (Inr key, w\<lparr>wDecoder := d\<rparr>))"

definition nextM :: "(documentWalk, Token) save_m" where
  "nextM = onDecoder StreamDecoder_Next"

definition skipM :: "Token \<Rightarrow> (documentWalk, unit) save_m" where
  "skipM token = onDecoder (StreamDecoder_SkipValue token)"

section \<open>Counting children\<close>

definition countedKind :: "int \<Rightarrow> bool \<Rightarrow> NodeKind \<times> int" where
  "countedKind count decided =
     (if decided then (NodeObject, count) else if count > 0 then (NodeArray, count) else (NodeEmpty, 0))"

partial_function (option) countLoop ::
  "int \<Rightarrow> bool \<Rightarrow> int \<Rightarrow> documentWalk \<Rightarrow> ((SaveError + (NodeKind \<times> int)) \<times> documentWalk) option" where
  "countLoop count decided target w =
     (if sd_depth (wDecoder w) < target then returnM (countedKind count decided) w
      else
        bindM (onDecoder StreamDecoder_Done) (\<lambda>fin.
        if fin then returnM (countedKind count decided)
        else
          bindM nextM (\<lambda>token.
          if Kind token = KindClose then returnM (countedKind count decided)
          else
            bindM (entryKeyM token) (\<lambda>key.
            if key \<noteq> None then
              bindM nextM (\<lambda>nxt.
              if Kind nxt = KindEqual then
                bindM nextM (\<lambda>value.
                bindM (skipM value) (\<lambda>_. countLoop (count + 1) True target))
              else if Kind nxt = KindClose then returnM (countedKind (count + 1) decided)
              else bindM (skipM nxt) (\<lambda>_. countLoop (count + 2) decided target))
            else bindM (skipM token) (\<lambda>_. countLoop (count + 1) decided target)))) w)"

definition countChildren :: "(documentWalk, NodeKind \<times> int) save_m" where
  "countChildren w = countLoop 0 False (sd_depth (wDecoder w)) w"

section \<open>Materialising a container\<close>

record materialised =
  mKind :: NodeKind
  mCount :: int
  mChildren :: "DocumentChild list"
  mRepeated :: "bytes list"
  mValue :: docValue
  mChildIndex :: "(bytes \<times> nat) list"

text \<open>\<^verbatim>\<open>out\<close> with the local variables of \<^verbatim>\<open>materialise\<close>.\<close>

record building =
  bOut :: materialised
  bItems :: "docValue list"
  bEntries :: "(bytes \<times> int) list"
  bObject :: "(bytes \<times> docValue) list"
  bDecided :: bool

definition newBuilding :: building where
  "newBuilding =
     \<lparr>bOut = \<lparr>mKind = NodeEmpty, mCount = 0, mChildren = [], mRepeated = [], mValue = DVNull, mChildIndex = []\<rparr>,
      bItems = [], bEntries = [], bObject = [], bDecided = False\<rparr>"

definition entryCount :: "building \<Rightarrow> bytes \<Rightarrow> int" where
  "entryCount b key = (case map_of (bEntries b) key of None \<Rightarrow> 0 | Some n \<Rightarrow> n)"

definition finish :: "building \<Rightarrow> materialised" where
  "finish b =
     (if bDecided b
      then (bOut b)\<lparr>mKind := NodeObject, mValue := DVObject (bObject b),
             mChildren := map (\<lambda>c. c\<lparr>Occurrences := entryCount b (ChildKey c)\<rparr>) (mChildren (bOut b))\<rparr>
      else if mCount (bOut b) > 0 \<or> bItems b \<noteq> []
      then (bOut b)\<lparr>mKind := NodeArray, mValue := DVArray (bItems b)\<rparr>
      else (bOut b)\<lparr>mKind := NodeEmpty, mValue := DVObject []\<rparr>)"

definition newChild :: "bytes \<Rightarrow> NodeKind \<Rightarrow> DocumentChild" where
  "newChild key kind =
     \<lparr>ChildKey = key, ChildKind = kind, Occurrences = 0, ChildChildren = 0, Preview = []\<rparr>"

text \<open>The two \<^verbatim>\<open>addChild\<close> closures: an item is always listed, a key once.\<close>

definition addItemChild :: "DocumentChild \<Rightarrow> materialised \<Rightarrow> (documentWalk, materialised) save_m" where
  "addItemChild child out =
     bindM getM (\<lambda>w.
       if int (length (mChildren out)) < MaxChildren (wBounds w)
       then returnM (out\<lparr>mChildren := mChildren out @ [child]\<rparr>)
       else bindM (noteM ''max_children'') (\<lambda>_. returnM out))"

definition addEntryChild :: "bytes \<Rightarrow> DocumentChild \<Rightarrow> materialised \<Rightarrow> (documentWalk, materialised) save_m" where
  "addEntryChild key child out =
     (if map_of (mChildIndex out) key \<noteq> None then returnM out
      else
        bindM getM (\<lambda>w.
          if int (length (mChildren out)) < MaxChildren (wBounds w)
          then returnM (out\<lparr>mChildIndex := (key, length (mChildren out)) # mChildIndex out,
                            mChildren := mChildren out @ [child]\<rparr>)
          else bindM (noteM ''max_children'') (\<lambda>_. returnM out)))"

text \<open>\<^verbatim>\<open>nested\<close> is \<^verbatim>\<open>materialise(depth-1)\<close>, reached only below depth 1. The budget is charged after the
  depth test, as the short-circuit of the source does.\<close>

definition descendOrCount :: "nat \<Rightarrow> (documentWalk, bool) save_m" where
  "descendOrCount depth = (if depth \<le> 1 then returnM False else spend)"

definition spendIf :: "nat \<Rightarrow> (documentWalk, bool) save_m" where
  "spendIf depth = (if depth > 0 then spend else returnM False)"

definition recordItem ::
  "(documentWalk, materialised) save_m \<Rightarrow> nat \<Rightarrow> Token \<Rightarrow> building \<Rightarrow> (documentWalk, building) save_m" where
  "recordItem nested depth token b =
     (let out = (bOut b)\<lparr>mCount := mCount (bOut b) + 1\<rparr>; key = formatInt (mCount (bOut b)) in
      if Kind token \<noteq> KindOpen then
        bindM getM (\<lambda>w.
          let most = MaxScalarBytes (wBounds w) in
          bindM (addItemChild ((newChild key NodeScalar)\<lparr>Preview := scalarText token most\<rparr>) out) (\<lambda>out.
          bindM (spendIf depth) (\<lambda>paid.
            returnM (b\<lparr>bOut := out,
              bItems := (if paid then bItems b @ [scalarValue token most] else bItems b)\<rparr>))))
      else
        bindM (descendOrCount depth) (\<lambda>deeper.
        if \<not> deeper then
          bindM countChildren (\<lambda>(kind, count).
          bindM (addItemChild ((newChild key kind)\<lparr>ChildChildren := count\<rparr>) out) (\<lambda>out.
            if depth > 0
            then bindM (noteM ''max_depth'') (\<lambda>_. returnM (b\<lparr>bOut := out, bItems := bItems b @ [DVNull]\<rparr>))
            else returnM (b\<lparr>bOut := out\<rparr>)))
        else
          bindM nested (\<lambda>inner.
          bindM (addItemChild ((newChild key (mKind inner))\<lparr>ChildChildren := mCount inner\<rparr>) out) (\<lambda>out.
            returnM (b\<lparr>bOut := out, bItems := bItems b @ [mValue inner]\<rparr>)))))"

definition recordEntry ::
  "(documentWalk, materialised) save_m \<Rightarrow> nat \<Rightarrow> bytes \<Rightarrow> Token \<Rightarrow> materialised
    \<Rightarrow> (documentWalk, materialised \<times> docValue) save_m" where
  "recordEntry nested depth key value out =
     (if Kind value \<noteq> KindOpen then
        bindM getM (\<lambda>w.
          let most = MaxScalarBytes (wBounds w) in
          bindM (addEntryChild key ((newChild key NodeScalar)\<lparr>Preview := scalarText value most\<rparr>) out) (\<lambda>out.
          bindM (spendIf depth) (\<lambda>paid.
            returnM (out, if paid then scalarValue value most else DVNull))))
      else
        bindM (descendOrCount depth) (\<lambda>deeper.
        if \<not> deeper then
          bindM countChildren (\<lambda>(kind, count).
          bindM (addEntryChild key ((newChild key kind)\<lparr>ChildChildren := count\<rparr>) out) (\<lambda>out.
            if depth > 0 then bindM (noteM ''max_depth'') (\<lambda>_. returnM (out, DVNull))
            else returnM (out, DVNull)))
        else
          bindM nested (\<lambda>inner.
          bindM (addEntryChild key ((newChild key (mKind inner))\<lparr>ChildChildren := mCount inner\<rparr>) out) (\<lambda>out.
            returnM (out, mValue inner)))))"

text \<open>A repeated key's values become an array; the type assertion on the third and later ones holds
  because the second made it one.\<close>

definition storeEntry :: "nat \<Rightarrow> bytes \<Rightarrow> int \<Rightarrow> docValue \<Rightarrow> building \<Rightarrow> (documentWalk, building) save_m" where
  "storeEntry depth key occurrence decoded b =
     (if depth = 0 then returnM b
      else if occurrence = 0 then returnM (b\<lparr>bObject := AList.update key decoded (bObject b)\<rparr>)
      else
        let old = (case map_of (bObject b) key of None \<Rightarrow> DVNull | Some v \<Rightarrow> v);
            b1 = (if occurrence = 1 then b\<lparr>bOut := (bOut b)\<lparr>mRepeated := mRepeated (bOut b) @ [key]\<rparr>\<rparr> else b);
            sofar = (if occurrence = 1 then DVArray [old] else old)
        in case sofar of
             DVArray vs \<Rightarrow> returnM (b1\<lparr>bObject := AList.update key (DVArray (vs @ [decoded])) (bObject b1)\<rparr>)
           | _ \<Rightarrow> failM (GoPanic ''interface conversion''))"

definition recordKeyed ::
  "(documentWalk, materialised) save_m \<Rightarrow> nat \<Rightarrow> bytes \<Rightarrow> Token \<Rightarrow> building \<Rightarrow> (documentWalk, building) save_m" where
  "recordKeyed nested depth key value b =
     (let occurrence = entryCount b key;
          b1 = b\<lparr>bDecided := True, bEntries := AList.update key (occurrence + 1) (bEntries b)\<rparr>
      in bindM (recordEntry nested depth key value ((bOut b)\<lparr>mCount := mCount (bOut b) + 1\<rparr>)) (\<lambda>(out, decoded).
           storeEntry depth key occurrence decoded (b1\<lparr>bOut := out\<rparr>)))"

partial_function (option) materialiseLoop ::
  "(documentWalk, materialised) save_m \<Rightarrow> nat \<Rightarrow> building \<Rightarrow> int \<Rightarrow> documentWalk
    \<Rightarrow> ((SaveError + materialised) \<times> documentWalk) option" where
  "materialiseLoop nested depth b target w =
     (if sd_depth (wDecoder w) < target then returnM (finish b) w
      else
        bindM (onDecoder StreamDecoder_Done) (\<lambda>fin.
        if fin then returnM (finish b)
        else
          bindM nextM (\<lambda>token.
          if Kind token = KindClose then returnM (finish b)
          else
            bindM (entryKeyM token) (\<lambda>key.
            if key \<noteq> None then
              bindM nextM (\<lambda>nxt.
              if Kind nxt = KindEqual then
                bindM nextM (\<lambda>value.
                bindM (recordKeyed nested depth (the key) value b) (\<lambda>b'. materialiseLoop nested depth b' target))
              else if Kind nxt = KindClose then
                bindM (recordItem nested depth token b) (\<lambda>b'. returnM (finish b'))
              else
                bindM (recordItem nested depth token b) (\<lambda>b1.
                bindM (recordItem nested depth nxt b1) (\<lambda>b2. materialiseLoop nested depth b2 target)))
            else bindM (recordItem nested depth token b) (\<lambda>b'. materialiseLoop nested depth b' target)))) w)"

text \<open>At depths 0 and 1 the nested walk is never reached, so there it is the empty one.\<close>

primrec materialise :: "nat \<Rightarrow> documentWalk \<Rightarrow> ((SaveError + materialised) \<times> documentWalk) option" where
  "materialise 0 w = materialiseLoop (returnM (bOut newBuilding)) 0 newBuilding (sd_depth (wDecoder w)) w"
| "materialise (Suc depth) w =
     materialiseLoop (materialise depth) (Suc depth) newBuilding (sd_depth (wDecoder w)) w"

section \<open>Following a path\<close>

definition seekItem :: "int option \<Rightarrow> int \<Rightarrow> Token \<Rightarrow> (documentWalk, Token option) save_m" where
  "seekItem want position value =
     (if want = Some position then returnM (Some value)
      else bindM (skipM value) (\<lambda>_. returnM None))"

partial_function (option) seekLoop ::
  "DocumentStep \<Rightarrow> int \<Rightarrow> int \<Rightarrow> int \<Rightarrow> documentWalk \<Rightarrow> ((SaveError + Token option) \<times> documentWalk) option" where
  "seekLoop step seen position target w =
     (if sd_depth (wDecoder w) < target then returnM None w
      else
        bindM (onDecoder StreamDecoder_Done) (\<lambda>fin.
        if fin then returnM None
        else
          bindM nextM (\<lambda>token.
          if Kind token = KindClose then returnM None
          else
            bindM (entryKeyM token) (\<lambda>key.
            if key = None then
              bindM (seekItem (positionalStep step) position token) (\<lambda>found.
                if found \<noteq> None then returnM found else seekLoop step seen (position + 1) target)
            else
              bindM nextM (\<lambda>nxt.
              if Kind nxt \<noteq> KindEqual then
                bindM (seekItem (positionalStep step) position token) (\<lambda>found.
                if found \<noteq> None then returnM found
                else if Kind nxt = KindClose then returnM None
                else
                  bindM (seekItem (positionalStep step) (position + 1) nxt) (\<lambda>found.
                    if found \<noteq> None then returnM found else seekLoop step seen (position + 2) target))
              else
                bindM nextM (\<lambda>value.
                if the key \<noteq> StepName step
                then bindM (skipM value) (\<lambda>_. seekLoop step seen position target)
                else if seen = StepIndex step then returnM (Some value)
                else bindM (skipM value) (\<lambda>_. seekLoop step (seen + 1) position target)))))) w)"

definition seek :: "DocumentStep \<Rightarrow> (documentWalk, Token option) save_m" where
  "seek step w = seekLoop step 0 0 (sd_depth (wDecoder w)) w"

definition describe :: "nat \<Rightarrow> Document \<Rightarrow> (documentWalk, Document) save_m" where
  "describe depth out =
     bindM (materialise depth) (\<lambda>container.
       returnM (out\<lparr>DocKind := mKind container, ChildCount := mCount container,
         DocChildren := mChildren container, RepeatedKeys := mRepeated container,
         DocValue := (if depth > 0 then Some (mValue container) else None)\<rparr>))"

fun descendFrom :: "DocumentPath \<Rightarrow> DocumentPath \<Rightarrow> nat \<Rightarrow> Document \<Rightarrow> (documentWalk, Document) save_m" where
  "descendFrom walked [] depth out = describe depth out"
| "descendFrom walked (step # rest) depth out =
     bindM (seek step) (\<lambda>found.
       case found of
         None \<Rightarrow> failM (pathError [Lit ''no '', Quoted (StepName step), Lit '' under '', Quoted (pathString walked)])
       | Some value \<Rightarrow>
           if Kind value \<noteq> KindOpen then
             (if rest \<noteq> []
              then failM (pathError [Quoted (pathString (walked @ [step])), Lit '' is a scalar and has no children''])
              else bindM getM (\<lambda>w.
                returnM (out\<lparr>DocKind := NodeScalar, DocScalar := scalarText value (MaxScalarBytes (wBounds w))\<rparr>)))
           else descendFrom (walked @ [step]) rest depth out)"

definition emptyDocument :: "DocumentPath \<Rightarrow> Document" where
  "emptyDocument path =
     \<lparr>DocPath = pathString path, DocKind = NodeNone, DocChildren = [], ChildCount = 0, DocValue = None,
      DocScalar = [], RepeatedKeys = [], DocTruncated = [], DocBytesRead = 0\<rparr>"

definition clampDepth :: "int \<Rightarrow> DocumentLimits \<Rightarrow> nat" where
  "clampDepth depth bounds = nat (min (max depth 0) (DocMaxDepth bounds))"

definition newWalk ::
  "Encoding \<Rightarrow> readEvent list \<Rightarrow> TokenMap option \<Rightarrow> Limits \<Rightarrow> DocumentLimits \<Rightarrow> documentWalk" where
  "newWalk encoding src resolver limits bounds =
     \<lparr>wDecoder = NewStreamDecoderFor encoding src (streamLimits limits), wResolver = resolver,
      wBounds = bounds, wNodes = 0, wTruncated = []\<rparr>"

definition ReadDocument ::
  "Encoding \<Rightarrow> readEvent list \<Rightarrow> TokenMap option \<Rightarrow> DocumentPath \<Rightarrow> int \<Rightarrow> Limits \<Rightarrow> DocumentLimits
    \<Rightarrow> (SaveError + Document) option" where
  "ReadDocument encoding src resolver path depth limits bounds =
     (if resolver = None \<and> encoding \<noteq> EncodingText
      then Some (Inl (newError ErrTokenMap ''a token map is required to navigate a binary save''))
      else
        case descendFrom [] path (clampDepth depth bounds) (emptyDocument path)
            (newWalk encoding src resolver limits bounds) of
          None \<Rightarrow> None
        | Some (Inl e, w) \<Rightarrow> Some (Inl e)
        | Some (Inr document, w) \<Rightarrow>
            Some (Inr (document\<lparr>DocTruncated := wTruncated w, DocBytesRead := sd_read (wDecoder w)\<rparr>)))"

text \<open>The loops run as they are written.\<close>

declare countLoop.simps [code]
  materialiseLoop.simps [code]
  seekLoop.simps [code]

end
