(* ===== verification/DocumentFacts.thy ===== *)
theory DocumentFacts
  imports Document GamestateFacts
begin

text \<open>
  What a document walk guarantees: it returns on every stream a reader may deliver, whatever the
  path and the bounds; what it reports stays within the bounds; a repeated key is reported as such
  and its values are an array. The walk is an instance of the token source interface, so every
  loop over it is shown to end by the interface's loop rule.
\<close>

section \<open>The walk is a token source\<close>

definition walk_ok :: "Encoding \<Rightarrow> Limits \<Rightarrow> DocumentLimits \<Rightarrow> documentWalk \<Rightarrow> bool" where
  "walk_ok enc limits bounds w \<longleftrightarrow>
     stream_ok enc limits (wDecoder w) \<and> wBounds w = bounds \<and> wNodes w \<le> max 0 (MaxNodes bounds)
     \<and> distinct (wTruncated w)"

definition walk_left :: "documentWalk \<Rightarrow> nat" where
  "walk_left w = length (stream_rest (wDecoder w))"

interpretation walk: token_source "walk_ok enc limits bounds" walk_left nextM
  for enc limits bounds
proof
  fix w
  assume w: "walk_ok enc limits bounds w"
  then obtain r d where n: "StreamDecoder_Next (wDecoder w) = Some (r, d)" and d: "stream_ok enc limits d"
    "length (stream_rest d) \<le> length (stream_rest (wDecoder w))"
    "\<forall>t. r = Inr t \<longrightarrow> length (stream_rest d) < length (stream_rest (wDecoder w))"
    using str.next_law unfolding walk_ok_def by blast
  show "\<exists>r w'. nextM w = Some (r, w') \<and> walk_ok enc limits bounds w'
      \<and> walk_left w' \<le> walk_left w \<and> (\<forall>t. r = Inr t \<longrightarrow> walk_left w' < walk_left w)"
    using n w d by (simp add: nextM_def onDecoder_def walk_ok_def walk_left_def)
qed

lemma onDecoder_steps:
  assumes "walk_ok enc limits bounds w" and "str.stepsAt enc limits (wDecoder w) P m"
  shows "walk.stepsAt enc limits bounds w P (onDecoder m)"
  using assms unfolding walk.stepsAt_def str.stepsAt_def walk_ok_def walk_left_def
  by (fastforce simp: onDecoder_def)

lemma onDecoder_steady:
  assumes "\<And>n. str.steadyAt enc limits n P m"
  shows "walk.steadyAt enc limits bounds n P (onDecoder m)"
  unfolding walk.steadyAt_def
proof (intro allI impI)
  fix w
  assume w: "walk_ok enc limits bounds w"
  show "walk.stepsAt enc limits bounds w P (onDecoder m)"
    by (rule onDecoder_steps [OF w]) (use assms w in \<open>auto simp: str.steadyAt_def walk_ok_def\<close>)
qed

lemma walk_Done_steps:
  "walk_ok enc limits bounds w
     \<Longrightarrow> walk.stepsAt enc limits bounds w (\<lambda>_. True) (onDecoder StreamDecoder_Done)"
  by (rule onDecoder_steps) (auto simp: walk_ok_def intro: stream_Done_steps)

lemma walk_skip_steady [steady_intros]: "walk.steadyAt enc limits bounds n (\<lambda>_. True) (skipM token)"
  unfolding skipM_def by (intro onDecoder_steady stream_SkipValue_steady)

lemma stream_ok_names [simp]: "stream_ok enc limits (d\<lparr>sd_names := t\<rparr>) = stream_ok enc limits d"
  by (simp add: stream_ok_def sd_end_def)

lemma stream_rest_names [simp]: "stream_rest (d\<lparr>sd_names := t\<rparr>) = stream_rest d"
  by (simp add: stream_rest_def sd_end_def)

lemma same_names: "\<exists>t. d = d\<lparr>sd_names := t\<rparr>" for d :: StreamDecoder
  by (rule exI [of _ "sd_names d"]) simp

lemma keyName_names: "\<exists>t. snd (StreamDecoder_keyName token resolver d) = d\<lparr>sd_names := t\<rparr>"
  by (cases "intern (sd_names d) (Text token)")
    (auto simp: StreamDecoder_keyName_def intro: same_names split: option.split)

lemma entryKey_names: "\<exists>t. snd (StreamDecoder_entryKey token resolver d) = d\<lparr>sd_names := t\<rparr>"
proof -
  have "\<exists>t. snd (case intern (sd_names d) (Text token) of (name, t) \<Rightarrow> (Some name, d\<lparr>sd_names := t\<rparr>)) = d\<lparr>sd_names := t\<rparr>"
    by (cases "intern (sd_names d) (Text token)") auto
  then show ?thesis
    using keyName_names [of token resolver d] same_names [of d] by (simp add: StreamDecoder_entryKey_def)
qed

lemma walk_key_steady [steady_intros]: "walk.steadyAt enc limits bounds n (\<lambda>_. True) (entryKeyM token)"
  unfolding walk.steadyAt_def
proof (intro allI impI)
  fix w
  assume w: "walk_ok enc limits bounds w"
  obtain r t where k: "StreamDecoder_entryKey token (wResolver w) (wDecoder w) = (r, wDecoder w\<lparr>sd_names := t\<rparr>)"
    using entryKey_names [of token "wResolver w" "wDecoder w"] by (metis prod.collapse)
  show "walk.stepsAt enc limits bounds w (\<lambda>_. True) (entryKeyM token)"
    using w k by (simp add: walk.stepsAt_def entryKeyM_def walk_ok_def walk_left_def)
qed

lemma walk_get_steady: "walk.steadyAt enc limits bounds n (\<lambda>w. wBounds w = bounds) getM"
  by (simp add: walk.steadyAt_def walk.stepsAt_def walk_ok_def)

lemma walk_note_steady [steady_intros]: "walk.steadyAt enc limits bounds n (\<lambda>_. True) (noteM reason)"
  by (simp add: walk.steadyAt_def walk.stepsAt_def walk_ok_def walk_left_def noteM_def noteReason_def)

lemma walk_spend_steady [steady_intros]: "walk.steadyAt enc limits bounds n (\<lambda>_. True) spend"
  by (auto simp: walk.steadyAt_def walk.stepsAt_def walk_ok_def walk_left_def spend_def noteReason_def)

section \<open>Counting\<close>

text \<open>What \<^verbatim>\<open>countChildren\<close> answers: an empty container has no children, an array some.\<close>

definition countOk :: "NodeKind \<times> int \<Rightarrow> bool" where
  "countOk = (\<lambda>(kind, count). 0 \<le> count \<and> (kind = NodeEmpty \<longleftrightarrow> count = 0) \<and> kind \<in> {NodeObject, NodeArray, NodeEmpty})"

lemma countedKind_ok: "0 \<le> count \<Longrightarrow> (decided \<longrightarrow> 0 < count) \<Longrightarrow> countOk (countedKind count decided)"
  by (auto simp: countOk_def countedKind_def)

lemma countLoop_steady:
  assumes "0 \<le> count" and "decided \<longrightarrow> 0 < count"
  shows "walk.steadyAt enc limits bounds n countOk (countLoop count decided target)"
proof -
  let ?I = "\<lambda>(count :: int, decided). 0 \<le> count \<and> (decided \<longrightarrow> 0 < count)"
  let ?loop = "\<lambda>(count, decided). countLoop count decided target"
  have "walk.steadyAt enc limits bounds n countOk (?loop (count, decided))"
  proof (rule walk.steady_loop [where loop = ?loop and I = ?I])
    fix x :: "int \<times> bool" and w
    assume "?I x" and w: "walk_ok enc limits bounds w"
      and ih: "\<And>y. ?I y \<Longrightarrow> walk.steadyAt enc limits bounds (walk_left w) countOk (?loop y)"
    then obtain c b where x: "x = (c, b)" and c: "0 \<le> c" "b \<longrightarrow> 0 < c" by (cases x) auto
    have ih': "walk.steadyAt enc limits bounds (walk_left w) countOk (countLoop c' b' target)"
      if "0 \<le> c'" "b' \<longrightarrow> 0 < c'" for c' b'
      using ih [of "(c', b')"] that by simp
    let ?body = "bindM (onDecoder StreamDecoder_Done) (\<lambda>fin.
        if fin then returnM (countedKind c b)
        else
          bindM nextM (\<lambda>token.
          if Kind token = KindClose then returnM (countedKind c b)
          else
            bindM (entryKeyM token) (\<lambda>key.
            if key \<noteq> None then
              bindM nextM (\<lambda>nxt.
              if Kind nxt = KindEqual then
                bindM nextM (\<lambda>value.
                bindM (skipM value) (\<lambda>_. countLoop (c + 1) True target))
              else if Kind nxt = KindClose then returnM (countedKind (c + 1) b)
              else bindM (skipM nxt) (\<lambda>_. countLoop (c + 2) b target))
            else bindM (skipM token) (\<lambda>_. countLoop (c + 1) b target))))"
    have fin: "countOk (countedKind c b)" "countOk (countedKind (c + 1) b)"
      using c by (auto intro!: countedKind_ok)
    have "walk.stepsAt enc limits bounds w countOk ?body"
      by (rule walk.stepsAt_bind [OF walk_Done_steps [OF w]])
        (intro walk.stepsAt_if walk.stepsAt_return walk.stepsAt_next fin steady_intros
          walk.steadyAt_mono [OF ih'] | assumption | use c in simp)+
    then show "walk.stepsAt enc limits bounds w countOk (?loop x)"
      using walk.stepsAt_return [of enc limits bounds w countOk, OF w fin(1)]
      by (cases "sd_depth (wDecoder w) < target")
        (simp_all add: x walk.stepsAt_def countLoop.simps [of c b target w])
  qed (use assms in simp)
  then show ?thesis by simp
qed

lemma countChildren_steady: "walk.steadyAt enc limits bounds n countOk countChildren"
  using countLoop_steady [of 0 False enc limits bounds n]
  unfolding walk.steadyAt_def walk.stepsAt_def countChildren_def by auto

section \<open>Materialising\<close>

text \<open>How deep the containers of a value nest.\<close>

fun docDepth :: "docValue \<Rightarrow> nat" where
  "docDepth (DVObject kvs) = Suc (Max (insert 0 (set (map (docDepth \<circ> snd) kvs))))"
| "docDepth (DVArray vs) = Suc (Max (insert 0 (set (map docDepth vs))))"
| "docDepth _ = 0"

lemma docDepth_object_le: "docDepth (DVObject kvs) \<le> Suc k \<longleftrightarrow> (\<forall>kv \<in> set kvs. docDepth (snd kv) \<le> k)"
  by auto

lemma docDepth_array_le: "docDepth (DVArray vs) \<le> Suc k \<longleftrightarrow> (\<forall>v \<in> set vs. docDepth v \<le> k)"
  by auto

declare docDepth.simps(1, 2) [simp del]

lemma docDepth_scalar [simp]: "docDepth (scalarValue token most) = 0"
  by (auto simp: scalarValue_def split: TokenKind.split)

definition listed :: "DocumentLimits \<Rightarrow> materialised \<Rightarrow> bool" where
  "listed bounds out \<longleftrightarrow>
     int (length (mChildren out)) \<le> max 0 (MaxChildren bounds) \<and> int (length (mChildren out)) \<le> mCount out"

text \<open>The values collected so far at one depth: a level for the container and one for the array of a
  repeated key.\<close>

definition shallow :: "nat \<Rightarrow> docValue \<Rightarrow> bool" where
  "shallow depth v \<longleftrightarrow> docDepth v \<le> 2 * (depth - 1)"

text \<open>A key that was seen \<open>n\<close> times has one value, or an array of its \<open>n\<close> values.\<close>

definition keyOk :: "nat \<Rightarrow> building \<Rightarrow> bytes \<Rightarrow> bool" where
  "keyOk depth b key \<longleftrightarrow>
     (case map_of (bEntries b) key of
        None \<Rightarrow> map_of (bObject b) key = None \<and> key \<notin> set (mRepeated (bOut b))
      | Some n \<Rightarrow> 1 \<le> n \<and> (depth > 0 \<longrightarrow>
          (if n = 1 then (\<exists>v. map_of (bObject b) key = Some v \<and> shallow depth v) \<and> key \<notin> set (mRepeated (bOut b))
           else (\<exists>vs. map_of (bObject b) key = Some (DVArray vs) \<and> int (length vs) = n
                  \<and> (\<forall>v \<in> set vs. shallow depth v)) \<and> key \<in> set (mRepeated (bOut b)))))"

definition buildOk :: "DocumentLimits \<Rightarrow> nat \<Rightarrow> building \<Rightarrow> bool" where
  "buildOk bounds depth b \<longleftrightarrow>
     listed bounds (bOut b) \<and> (bDecided b \<longrightarrow> 0 < mCount (bOut b)) \<and> (\<forall>key. keyOk depth b key)
     \<and> distinct (map fst (bObject b)) \<and> distinct (mRepeated (bOut b)) \<and> (\<forall>v \<in> set (bItems b). shallow depth v)
     \<and> (depth = 0 \<longrightarrow> bObject b = [] \<and> mRepeated (bOut b) = [] \<and> bItems b = [])
     \<and> (0 \<le> mCount (bOut b)) \<and> (bItems b \<noteq> [] \<longrightarrow> 0 < mCount (bOut b))
     \<and> (mKind (bOut b) = NodeEmpty)"

lemma buildOk_new: "buildOk bounds depth newBuilding"
  by (simp add: buildOk_def newBuilding_def listed_def keyOk_def)

text \<open>What a finished container looks like.\<close>

definition repeatsOk :: "materialised \<Rightarrow> bool" where
  "repeatsOk m \<longleftrightarrow>
     (\<exists>kvs. mValue m = DVObject kvs \<and> distinct (map fst kvs)
       \<and> (\<forall>key \<in> set (mRepeated m). \<exists>vs. map_of kvs key = Some (DVArray vs) \<and> 2 \<le> length vs
            \<and> (\<forall>c \<in> set (mChildren m). ChildKey c = key \<longrightarrow> Occurrences c = int (length vs)))
       \<and> (\<forall>c \<in> set (mChildren m). 2 \<le> Occurrences c \<longrightarrow> ChildKey c \<in> set (mRepeated m)))"

definition finished :: "DocumentLimits \<Rightarrow> nat \<Rightarrow> materialised \<Rightarrow> bool" where
  "finished bounds depth m \<longleftrightarrow>
     listed bounds m \<and> mKind m \<in> {NodeObject, NodeArray, NodeEmpty} \<and> (mKind m = NodeEmpty \<longleftrightarrow> mCount m = 0)
     \<and> distinct (mRepeated m) \<and> docDepth (mValue m) \<le> max 1 (2 * depth)
     \<and> (depth > 0 \<longrightarrow> mKind m = NodeObject \<longrightarrow> repeatsOk m)"

lemma finish_finished:
  assumes b: "buildOk bounds depth b"
  shows "finished bounds depth (finish b)"
proof -
  have key: "keyOk depth b key" for key using b by (simp add: buildOk_def)
  have entry: "docDepth v \<le> 2 * depth - 1" if "(key, v) \<in> set (bObject b)" and "depth > 0" for key v
  proof -
    have v: "map_of (bObject b) key = Some v" using b that(1) by (simp add: buildOk_def)
    have eq: "2 * depth - 1 = Suc (2 * (depth - 1))" using that(2) by simp
    show ?thesis
      using v key [of key] that(2) docDepth_array_le [of _ "2 * (depth - 1)"]
      unfolding eq by (auto simp: keyOk_def shallow_def split: option.splits if_splits)
  qed
  have obj: "docDepth (DVObject (bObject b)) \<le> max 1 (2 * depth)"
  proof (cases "depth = 0")
    case True
    then show ?thesis using b by (simp add: buildOk_def docDepth.simps)
  next
    case False
    then have "docDepth (DVObject (bObject b)) \<le> Suc (2 * depth - 1)"
      unfolding docDepth_object_le using entry by auto
    then show ?thesis using False by linarith
  qed
  have arr: "docDepth (DVArray (bItems b)) \<le> max 1 (2 * depth)"
  proof -
    have "docDepth (DVArray (bItems b)) \<le> Suc (2 * (depth - 1))"
      unfolding docDepth_array_le using b by (auto simp: buildOk_def shallow_def)
    then show ?thesis by linarith
  qed
  have rep: "repeatsOk (finish b)" if "bDecided b" "depth > 0"
  proof -
    have "\<exists>vs. map_of (bObject b) k = Some (DVArray vs) \<and> 2 \<le> length vs \<and> entryCount b k = int (length vs)"
      if "k \<in> set (mRepeated (bOut b))" for k
      using key [of k] that \<open>depth > 0\<close>
      by (fastforce simp: keyOk_def entryCount_def split: option.splits if_splits)
    moreover have "k \<in> set (mRepeated (bOut b))" if "2 \<le> entryCount b k" for k
      using key [of k] that \<open>depth > 0\<close>
      by (auto simp: keyOk_def entryCount_def split: option.splits if_splits)
    ultimately show ?thesis
      using b that(1) unfolding repeatsOk_def finish_def buildOk_def by fastforce
  qed
  show ?thesis
    using b rep obj arr
    by (auto simp: finished_def finish_def buildOk_def listed_def docDepth.simps(1))
qed

section \<open>Recording\<close>

text \<open>\<open>out\<close> after a child may have been listed.\<close>

definition withChild :: "DocumentLimits \<Rightarrow> materialised \<Rightarrow> materialised \<Rightarrow> bool" where
  "withChild bounds out out' \<longleftrightarrow>
     (\<exists>cs index. out' = out\<lparr>mChildIndex := index, mChildren := cs\<rparr>) \<and> listed bounds out'"

lemma withChild_refl: "listed bounds out \<Longrightarrow> withChild bounds out out"
  unfolding withChild_def
  by (rule conjI, rule exI [of _ "mChildren out"], rule exI [of _ "mChildIndex out"]) simp_all

lemma withChild_add:
  "listed bounds out \<Longrightarrow> int (length (mChildren out)) < mCount out \<Longrightarrow> int (length (mChildren out)) < MaxChildren bounds
     \<Longrightarrow> withChild bounds out (out\<lparr>mChildIndex := index, mChildren := mChildren out @ [c]\<rparr>)"
  by (auto simp: withChild_def listed_def)

lemma addItemChild_steady:
  assumes "listed bounds out" and "int (length (mChildren out)) < mCount out"
  shows "walk.steadyAt enc limits bounds n (withChild bounds out) (addItemChild child out)"
proof -
  have "withChild bounds out (out\<lparr>mChildren := mChildren out @ [child]\<rparr>)"
    if "int (length (mChildren out)) < MaxChildren bounds"
    using withChild_add [OF assms that, where index = "mChildIndex out" and c = child] by simp
  then show ?thesis
    unfolding addItemChild_def
    by (intro walk.steady_bind [OF walk_get_steady] steady_intros withChild_refl assms) simp
qed

lemma addEntryChild_steady:
  assumes "listed bounds out" and "int (length (mChildren out)) < mCount out"
  shows "walk.steadyAt enc limits bounds n (withChild bounds out) (addEntryChild key child out)"
proof -
  have "withChild bounds out (out\<lparr>mChildIndex := index, mChildren := mChildren out @ [child]\<rparr>)"
    if "int (length (mChildren out)) < MaxChildren bounds" for index
    using withChild_add [OF assms that] .
  then show ?thesis
    unfolding addEntryChild_def
    by (intro walk.steady_if walk.steady_bind [OF walk_get_steady] steady_intros withChild_refl assms) simp
qed

lemma spendIf_steady: "walk.steadyAt enc limits bounds n (\<lambda>paid. paid \<longrightarrow> depth > 0) (spendIf depth)"
  unfolding spendIf_def
  by (rule walk.steady_if) (use walk_spend_steady in \<open>auto simp: walk.steadyAt_def walk.stepsAt_def\<close>)

lemma descendOrCount_steady:
  "walk.steadyAt enc limits bounds n (\<lambda>deeper. deeper \<longrightarrow> depth > 1) (descendOrCount depth)"
  unfolding descendOrCount_def
  by (rule walk.steady_if) (use walk_spend_steady in \<open>auto simp: walk.steadyAt_def walk.stepsAt_def\<close>)

lemma shallow_leaf [simp]: "shallow depth (scalarValue token most)" "shallow depth DVNull"
  by (simp_all add: shallow_def)

lemma shallow_nested: "1 < depth \<Longrightarrow> finished bounds (depth - 1) inner \<Longrightarrow> shallow depth (mValue inner)"
  by (auto simp: shallow_def finished_def)

lemma buildOk_listed: "buildOk bounds depth b \<Longrightarrow> listed bounds ((bOut b)\<lparr>mCount := mCount (bOut b) + 1\<rparr>)"
  by (auto simp: buildOk_def listed_def)

lemma buildOk_room: "buildOk bounds depth b \<Longrightarrow> int (length (mChildren (bOut b))) < mCount (bOut b) + 1"
  by (auto simp: buildOk_def listed_def)

lemma buildOk_item:
  assumes "buildOk bounds depth b" and "withChild bounds ((bOut b)\<lparr>mCount := mCount (bOut b) + 1\<rparr>) out"
    and "set vs \<subseteq> {v. shallow depth v}" and "depth = 0 \<longrightarrow> vs = []"
  shows "buildOk bounds depth (b\<lparr>bOut := out, bItems := bItems b @ vs\<rparr>)"
proof -
  obtain cs index where out: "out = (bOut b)\<lparr>mCount := mCount (bOut b) + 1, mChildIndex := index, mChildren := cs\<rparr>"
    using assms(2) by (auto simp: withChild_def)
  have "keyOk depth (b\<lparr>bOut := out, bItems := bItems b @ vs\<rparr>) key" for key
    using assms(1) by (cases "map_of (bEntries b) key") (auto simp: buildOk_def keyOk_def out dest: spec [of _ key])
  moreover have "listed bounds out" using assms(2) by (simp add: withChild_def)
  ultimately show ?thesis
    using assms(1,3,4) by (simp add: buildOk_def out subset_eq ball_Un)
qed

lemma recordItem_steady:
  assumes b: "buildOk bounds depth b"
    and nested: "1 < depth \<Longrightarrow> walk.steadyAt enc limits bounds n (finished bounds (depth - 1)) nested"
  shows "walk.steadyAt enc limits bounds n (buildOk bounds depth) (recordItem nested depth token b)"
proof -
  let ?out = "(bOut b)\<lparr>mCount := mCount (bOut b) + 1\<rparr>"
  have add: "walk.steadyAt enc limits bounds n (withChild bounds ?out) (addItemChild child ?out)" for child
    by (rule addItemChild_steady) (use buildOk_listed [OF b] buildOk_room [OF b] in simp_all)
  note item = buildOk_item [OF b]
  show ?thesis
    unfolding recordItem_def Let_def
  proof (intro walk.steady_if)
    assume "Kind token \<noteq> KindOpen"
    show "walk.steadyAt enc limits bounds n (buildOk bounds depth)
        (bindM getM (\<lambda>w. bindM (addItemChild ((newChild (formatInt (mCount (bOut b))) NodeScalar)
              \<lparr>Preview := scalarText token (MaxScalarBytes (wBounds w))\<rparr>) ?out)
            (\<lambda>out. bindM (spendIf depth) (\<lambda>paid. returnM (b\<lparr>bOut := out,
              bItems := if paid then bItems b @ [scalarValue token (MaxScalarBytes (wBounds w))] else bItems b\<rparr>)))))"
    proof (intro walk.steady_bind [OF walk_get_steady] walk.steady_bind [OF add]
        walk.steady_bind [OF spendIf_steady] walk.steady_return)
      fix w out paid
      assume "withChild bounds ?out out" and "paid \<longrightarrow> depth > 0"
      then show "buildOk bounds depth (b\<lparr>bOut := out,
          bItems := if paid then bItems b @ [scalarValue token (MaxScalarBytes (wBounds w))] else bItems b\<rparr>)"
        using item [of out "[scalarValue token (MaxScalarBytes (wBounds w))]"] item [of out "[]"] by auto
    qed
  next
    show "walk.steadyAt enc limits bounds n (buildOk bounds depth)
        (bindM (descendOrCount depth) (\<lambda>deeper.
          if \<not> deeper then
            bindM countChildren (\<lambda>(kind, count).
            bindM (addItemChild ((newChild (formatInt (mCount (bOut b))) kind)\<lparr>ChildChildren := count\<rparr>) ?out) (\<lambda>out.
              if depth > 0
              then bindM (noteM ''max_depth'') (\<lambda>_. returnM (b\<lparr>bOut := out, bItems := bItems b @ [DVNull]\<rparr>))
              else returnM (b\<lparr>bOut := out\<rparr>)))
          else
            bindM nested (\<lambda>inner.
            bindM (addItemChild ((newChild (formatInt (mCount (bOut b))) (mKind inner))\<lparr>ChildChildren := mCount inner\<rparr>) ?out) (\<lambda>out.
              returnM (b\<lparr>bOut := out, bItems := bItems b @ [mValue inner]\<rparr>)))))"
    proof (rule walk.steady_bind [OF descendOrCount_steady], rule walk.steady_if)
      fix deeper
      show "walk.steadyAt enc limits bounds n (buildOk bounds depth)
          (bindM countChildren (\<lambda>(kind, count).
            bindM (addItemChild ((newChild (formatInt (mCount (bOut b))) kind)\<lparr>ChildChildren := count\<rparr>) ?out) (\<lambda>out.
              if depth > 0
              then bindM (noteM ''max_depth'') (\<lambda>_. returnM (b\<lparr>bOut := out, bItems := bItems b @ [DVNull]\<rparr>))
              else returnM (b\<lparr>bOut := out\<rparr>))))"
        using item [of _ "[]"] item [of _ "[DVNull]"]
        by (intro walk.steady_bind [OF countChildren_steady] walk.steady_prod walk.steady_bind [OF add] steady_intros) auto
    next
      fix deeper
      assume "deeper \<longrightarrow> depth > 1" and "\<not> \<not> deeper"
      then show "walk.steadyAt enc limits bounds n (buildOk bounds depth)
          (bindM nested (\<lambda>inner.
            bindM (addItemChild ((newChild (formatInt (mCount (bOut b))) (mKind inner))\<lparr>ChildChildren := mCount inner\<rparr>) ?out) (\<lambda>out.
              returnM (b\<lparr>bOut := out, bItems := bItems b @ [mValue inner]\<rparr>))))"
        using item shallow_nested
        by (intro walk.steady_bind [OF nested] walk.steady_bind [OF add] steady_intros) auto
    qed
  qed
qed

lemma recordEntry_steady:
  assumes out: "listed bounds out" "int (length (mChildren out)) < mCount out"
    and nested: "1 < depth \<Longrightarrow> walk.steadyAt enc limits bounds n (finished bounds (depth - 1)) nested"
  shows "walk.steadyAt enc limits bounds n (\<lambda>(out', decoded). withChild bounds out out' \<and> shallow depth decoded)
    (recordEntry nested depth key token out)"
proof -
  have add: "walk.steadyAt enc limits bounds n (withChild bounds out) (addEntryChild key child out)" for child
    by (rule addEntryChild_steady [OF out])
  show ?thesis
    unfolding recordEntry_def Let_def
  proof (intro walk.steady_if)
    assume "Kind token \<noteq> KindOpen"
    show "walk.steadyAt enc limits bounds n (\<lambda>(out', decoded). withChild bounds out out' \<and> shallow depth decoded)
        (bindM getM (\<lambda>w. bindM (addEntryChild key ((newChild key NodeScalar)\<lparr>Preview := scalarText token (MaxScalarBytes (wBounds w))\<rparr>) out)
          (\<lambda>out. bindM (spendIf depth) (\<lambda>paid.
            returnM (out, if paid then scalarValue token (MaxScalarBytes (wBounds w)) else DVNull)))))"
      by (intro walk.steady_bind [OF walk_get_steady] walk.steady_bind [OF add]
        walk.steady_bind [OF spendIf_steady] walk.steady_return) auto
  next
    show "walk.steadyAt enc limits bounds n (\<lambda>(out', decoded). withChild bounds out out' \<and> shallow depth decoded)
        (bindM (descendOrCount depth) (\<lambda>deeper.
          if \<not> deeper then
            bindM countChildren (\<lambda>(kind, count).
            bindM (addEntryChild key ((newChild key kind)\<lparr>ChildChildren := count\<rparr>) out) (\<lambda>out.
              if depth > 0 then bindM (noteM ''max_depth'') (\<lambda>_. returnM (out, DVNull))
              else returnM (out, DVNull)))
          else
            bindM nested (\<lambda>inner.
            bindM (addEntryChild key ((newChild key (mKind inner))\<lparr>ChildChildren := mCount inner\<rparr>) out) (\<lambda>out.
              returnM (out, mValue inner)))))"
    proof (rule walk.steady_bind [OF descendOrCount_steady], rule walk.steady_if)
      fix deeper
      show "walk.steadyAt enc limits bounds n (\<lambda>(out', decoded). withChild bounds out out' \<and> shallow depth decoded)
          (bindM countChildren (\<lambda>(kind, count).
            bindM (addEntryChild key ((newChild key kind)\<lparr>ChildChildren := count\<rparr>) out) (\<lambda>out.
              if depth > 0 then bindM (noteM ''max_depth'') (\<lambda>_. returnM (out, DVNull))
              else returnM (out, DVNull))))"
        by (intro walk.steady_bind [OF countChildren_steady] walk.steady_prod walk.steady_bind [OF add] steady_intros) auto
    next
      fix deeper
      assume "deeper \<longrightarrow> depth > 1" and "\<not> \<not> deeper"
      then show "walk.steadyAt enc limits bounds n (\<lambda>(out', decoded). withChild bounds out out' \<and> shallow depth decoded)
          (bindM nested (\<lambda>inner.
            bindM (addEntryChild key ((newChild key (mKind inner))\<lparr>ChildChildren := mCount inner\<rparr>) out) (\<lambda>out.
              returnM (out, mValue inner))))"
        using shallow_nested
        by (intro walk.steady_bind [OF nested] walk.steady_bind [OF add] steady_intros) auto
    qed
  qed
qed

text \<open>A key's value is stored so that its occurrences and its value agree; the third occurrence finds
  the array the second one made, so the type assertion of the source holds.\<close>

lemma storeEntry_ok:
  fixes key :: bytes
  assumes b: "buildOk bounds depth b" and out: "withChild bounds ((bOut b)\<lparr>mCount := mCount (bOut b) + 1\<rparr>) out"
    and v: "shallow depth decoded"
  defines "b1 \<equiv> b\<lparr>bDecided := True, bEntries := AList.update key (entryCount b key + 1) (bEntries b), bOut := out\<rparr>"
  shows "\<exists>b'. storeEntry depth key (entryCount b key) decoded b1 = returnM b' \<and> buildOk bounds depth b'"
proof -
  obtain cs index where o: "out = (bOut b)\<lparr>mCount := mCount (bOut b) + 1, mChildIndex := index, mChildren := cs\<rparr>"
    and l: "listed bounds out" using out by (auto simp: withChild_def)
  have ok: "keyOk depth b k" for k using b by (simp add: buildOk_def)
  have one: "1 \<le> n" if "map_of (bEntries b) k = Some n" for k n using ok [of k] that by (simp add: keyOk_def)
  have rest: "0 < mCount out" "distinct (map fst (bObject b))" "distinct (mRepeated (bOut b))"
    "\<forall>v \<in> set (bItems b). shallow depth v" "mKind (bOut b) = NodeEmpty"
    "depth = 0 \<longrightarrow> bObject b = [] \<and> mRepeated (bOut b) = [] \<and> bItems b = []"
    using b by (simp_all add: buildOk_def o)
  consider (flat) "depth = 0" | (first) "depth > 0" "map_of (bEntries b) key = None"
    | (second) "depth > 0" "map_of (bEntries b) key = Some 1"
    | (more) n where "depth > 0" "map_of (bEntries b) key = Some n" "2 \<le> n"
    using one [of key] by (cases "map_of (bEntries b) key") fastforce+
  then show ?thesis
  proof cases
    case flat
    have "keyOk depth b1 k" for k
      using ok [of k] one flat rest(6)
      by (cases "map_of (bEntries b) key")
        (auto simp: keyOk_def b1_def update_conv' o entryCount_def split: option.splits dest: one)
    moreover have "storeEntry depth key (entryCount b key) decoded b1 = returnM b1"
      using flat by (simp add: storeEntry_def)
    ultimately show ?thesis
      using flat rest l by (intro exI [of _ b1]) (simp add: buildOk_def b1_def o)
  next
    case first
    let ?b = "b1\<lparr>bObject := AList.update key decoded (bObject b1)\<rparr>"
    have "keyOk depth ?b k" for k
      using ok [of k] first v
      by (cases "k = key") (auto simp: keyOk_def b1_def update_conv' o entryCount_def split: option.splits)
    moreover have "storeEntry depth key (entryCount b key) decoded b1 = returnM ?b"
      using first by (simp add: storeEntry_def entryCount_def)
    ultimately show ?thesis
      using first rest l by (intro exI [of _ ?b]) (simp add: buildOk_def b1_def o distinct_update)
  next
    case second
    from ok [of key] second obtain w where w: "map_of (bObject b) key = Some w" "shallow depth w"
      and new: "key \<notin> set (mRepeated (bOut b))" by (auto simp: keyOk_def)
    let ?b = "b1\<lparr>bOut := out\<lparr>mRepeated := mRepeated out @ [key]\<rparr>,
                bObject := AList.update key (DVArray [w, decoded]) (bObject b1)\<rparr>"
    have "keyOk depth ?b k" for k
      using ok [of k] second v w
      by (cases "k = key") (auto simp: keyOk_def b1_def update_conv' o entryCount_def split: option.splits)
    moreover have "storeEntry depth key (entryCount b key) decoded b1 = returnM ?b"
      using second w by (simp add: storeEntry_def entryCount_def b1_def Let_def)
    moreover have "listed bounds (out\<lparr>mRepeated := mRepeated out @ [key]\<rparr>)"
      using l by (simp add: listed_def)
    ultimately show ?thesis
      using second rest new by (intro exI [of _ ?b]) (simp add: buildOk_def b1_def o distinct_update)
  next
    case more
    from ok [of key] more obtain vs where vs: "map_of (bObject b) key = Some (DVArray vs)"
      "int (length vs) = n" "\<forall>v \<in> set vs. shallow depth v" and old: "key \<in> set (mRepeated (bOut b))"
      by (auto simp: keyOk_def)
    let ?b = "b1\<lparr>bObject := AList.update key (DVArray (vs @ [decoded])) (bObject b1)\<rparr>"
    have "keyOk depth ?b k" for k
      using ok [of k] more v vs old
      by (cases "k = key") (auto simp: keyOk_def b1_def update_conv' o entryCount_def split: option.splits)
    moreover have "storeEntry depth key (entryCount b key) decoded b1 = returnM ?b"
      using more vs by (simp add: storeEntry_def entryCount_def b1_def Let_def)
    ultimately show ?thesis
      using more rest l by (intro exI [of _ ?b]) (simp add: buildOk_def b1_def o distinct_update)
  qed
qed

lemma recordKeyed_steady:
  assumes b: "buildOk bounds depth b"
    and nested: "1 < depth \<Longrightarrow> walk.steadyAt enc limits bounds n (finished bounds (depth - 1)) nested"
  shows "walk.steadyAt enc limits bounds n (buildOk bounds depth) (recordKeyed nested depth key token b)"
  unfolding recordKeyed_def Let_def
proof (rule walk.steady_bind [OF recordEntry_steady], goal_cases)
  case 1
  then show ?case using buildOk_listed [OF b] .
next
  case 2
  then show ?case using buildOk_room [OF b] by simp
next
  case 3
  then show ?case by (rule nested)
next
  case (4 a)
  obtain out decoded where a: "a = (out, decoded)" by (cases a)
  from storeEntry_ok [OF b, of out decoded key] 4 a
  obtain b' where "storeEntry depth key (entryCount b key) decoded (b\<lparr>bDecided := True,
      bEntries := AList.update key (entryCount b key + 1) (bEntries b), bOut := out\<rparr>) = returnM b'"
    and "buildOk bounds depth b'" by auto
  then show ?case by (simp add: a walk.steady_return)
qed

lemma materialiseLoop_steady:
  assumes nested: "\<And>n. 1 < depth \<Longrightarrow> walk.steadyAt enc limits bounds n (finished bounds (depth - 1)) nested"
    and "buildOk bounds depth b"
  shows "walk.steadyAt enc limits bounds n (finished bounds depth) (materialiseLoop nested depth b target)"
proof (rule walk.steady_loop [where loop = "\<lambda>b. materialiseLoop nested depth b target" and I = "buildOk bounds depth", OF _ assms(2)])
  fix b w
  assume b: "buildOk bounds depth b" and w: "walk_ok enc limits bounds w"
    and ih: "\<And>b. buildOk bounds depth b
      \<Longrightarrow> walk.steadyAt enc limits bounds (walk_left w) (finished bounds depth) (materialiseLoop nested depth b target)"
  let ?body = "bindM (onDecoder StreamDecoder_Done) (\<lambda>fin.
        if fin then returnM (finish b)
        else
          bindM nextM (\<lambda>token.
          if Kind token = KindClose then returnM (finish b)
          else
            bindM (entryKeyM token) (\<lambda>key.
            if key \<noteq> None then
              bindM nextM (\<lambda>nxt.
              if Kind nxt = KindEqual then
                bindM nextM (\<lambda>value.
                bindM (recordKeyed nested depth (the key) value b) (\<lambda>b'. materialiseLoop nested depth b' target))
              else if Kind nxt = KindClose then
                bindM (recordItem nested depth token b) (\<lambda>b'. returnM (finish b'))
              else
                bindM (recordItem nested depth token b) (\<lambda>b1.
                bindM (recordItem nested depth nxt b1) (\<lambda>b2. materialiseLoop nested depth b2 target)))
            else bindM (recordItem nested depth token b) (\<lambda>b'. materialiseLoop nested depth b' target))))"
  have fin: "finished bounds depth (finish b)" by (rule finish_finished [OF b])
  have item: "walk.steadyAt enc limits bounds n (buildOk bounds depth) (recordItem nested depth token b)"
    if "buildOk bounds depth b" for n token b by (rule recordItem_steady [OF that nested])
  have keyed: "walk.steadyAt enc limits bounds n (buildOk bounds depth) (recordKeyed nested depth key token b)"
    for n key token by (rule recordKeyed_steady [OF b nested])
  have "walk.stepsAt enc limits bounds w (finished bounds depth) ?body"
    by (rule walk.stepsAt_bind [OF walk_Done_steps [OF w]])
      (intro walk.stepsAt_if walk.stepsAt_return walk.stepsAt_next fin walk.steady_bind [OF keyed]
        walk.steady_bind [OF item] b walk.steadyAt_mono [OF ih] finish_finished steady_intros | assumption)+
  then show "walk.stepsAt enc limits bounds w (finished bounds depth) (materialiseLoop nested depth b target)"
    using walk.stepsAt_return [of enc limits bounds w "finished bounds depth", OF w fin]
    by (cases "sd_depth (wDecoder w) < target")
      (simp_all add: walk.stepsAt_def materialiseLoop.simps [of nested depth b target w])
qed

lemma materialise_steady:
  "walk.steadyAt enc limits bounds n (finished bounds depth) (materialise depth)"
proof (induction depth arbitrary: n)
  case 0
  have "walk.steadyAt enc limits bounds n (finished bounds 0)
      (materialiseLoop (returnM (bOut newBuilding)) 0 newBuilding target)" for target
    by (rule materialiseLoop_steady) (simp_all add: buildOk_new)
  then show ?case by (simp add: walk.steadyAt_def walk.stepsAt_def)
next
  case (Suc depth)
  have "walk.steadyAt enc limits bounds n (finished bounds (Suc depth))
      (materialiseLoop (materialise depth) (Suc depth) newBuilding target)" for target
    by (rule materialiseLoop_steady) (simp_all add: buildOk_new Suc)
  then show ?case by (simp add: walk.steadyAt_def walk.stepsAt_def)
qed

section \<open>Following the path\<close>

lemma seekItem_steady [steady_intros]: "walk.steadyAt enc limits bounds n (\<lambda>_. True) (seekItem want position token)"
  unfolding seekItem_def by (intro steady_intros TrueI)

lemma seekLoop_steady: "walk.steadyAt enc limits bounds n (\<lambda>_. True) (seekLoop step seen position target)"
proof -
  let ?loop = "\<lambda>(seen, position). seekLoop step seen position target"
  have "walk.steadyAt enc limits bounds n (\<lambda>_. True) (?loop (seen, position))"
  proof (rule walk.steady_loop [where loop = ?loop and I = "\<lambda>_. True"])
    fix x :: "int \<times> int" and w
    assume w: "walk_ok enc limits bounds w"
      and ih: "\<And>y. True \<Longrightarrow> walk.steadyAt enc limits bounds (walk_left w) (\<lambda>_. True) (?loop y)"
    obtain seen position where x: "x = (seen, position)" by (cases x)
    have ih': "walk.steadyAt enc limits bounds (walk_left w) (\<lambda>_. True) (seekLoop step s p target)" for s p
      using ih [of "(s, p)"] by simp
    let ?body = "bindM (onDecoder StreamDecoder_Done) (\<lambda>fin.
        if fin then returnM None
        else
          bindM nextM (\<lambda>token.
          if Kind token = KindClose then returnM None
          else
            bindM (entryKeyM token) (\<lambda>key.
            if key = None then
              bindM (seekItem (positionalStep step) position token) (\<lambda>found.
                if found \<noteq> None then returnM found else seekLoop step seen (position + 1) target)
            else
              bindM nextM (\<lambda>nxt.
              if Kind nxt \<noteq> KindEqual then
                bindM (seekItem (positionalStep step) position token) (\<lambda>found.
                if found \<noteq> None then returnM found
                else if Kind nxt = KindClose then returnM None
                else
                  bindM (seekItem (positionalStep step) (position + 1) nxt) (\<lambda>found.
                    if found \<noteq> None then returnM found else seekLoop step seen (position + 2) target))
              else
                bindM nextM (\<lambda>value.
                if the key \<noteq> StepName step
                then bindM (skipM value) (\<lambda>_. seekLoop step seen position target)
                else if seen = StepIndex step then returnM (Some value)
                else bindM (skipM value) (\<lambda>_. seekLoop step (seen + 1) position target))))))"
    have "walk.stepsAt enc limits bounds w (\<lambda>_. True) ?body"
      by (rule walk.stepsAt_bind [OF walk_Done_steps [OF w]])
        (intro walk.stepsAt_if walk.stepsAt_return walk.stepsAt_next steady_intros
          walk.steadyAt_mono [OF ih'] TrueI | assumption)+
    then show "walk.stepsAt enc limits bounds w (\<lambda>_. True) (?loop x)"
      using w by (cases "sd_depth (wDecoder w) < target")
        (simp_all add: x walk.stepsAt_def seekLoop.simps [of step seen position target w])
  qed simp
  then show ?thesis by simp
qed

lemma seek_steady [steady_intros]: "walk.steadyAt enc limits bounds n (\<lambda>_. True) (seek step)"
  using seekLoop_steady unfolding walk.steadyAt_def walk.stepsAt_def seek_def by blast

text \<open>What a walk reports at its target.\<close>

definition reportOk :: "DocumentLimits \<Rightarrow> nat \<Rightarrow> Document \<Rightarrow> bool" where
  "reportOk bounds depth doc \<longleftrightarrow>
     (if DocKind doc = NodeScalar then DocChildren doc = [] \<and> RepeatedKeys doc = [] \<and> DocValue doc = None
      else (\<exists>m. finished bounds depth m \<and> DocKind doc = mKind m \<and> ChildCount doc = mCount m
             \<and> DocChildren doc = mChildren m \<and> RepeatedKeys doc = mRepeated m
             \<and> DocValue doc = (if depth > 0 then Some (mValue m) else None)))"

lemma descend_steady:
  assumes "DocChildren out = []" and "RepeatedKeys out = []" and "DocValue out = None"
  shows "walk.steadyAt enc limits bounds n (reportOk bounds depth) (descendFrom walked path depth out)"
  using assms
proof (induction walked path depth out arbitrary: n rule: descendFrom.induct)
  case (1 walked depth out)
  show ?case
    unfolding descendFrom.simps describe_def
  proof (intro walk.steady_bind [OF materialise_steady] walk.steady_return)
    fix m
    assume m: "finished bounds depth m"
    then have "mKind m \<noteq> NodeScalar" by (auto simp: finished_def)
    then show "reportOk bounds depth (out\<lparr>DocKind := mKind m, ChildCount := mCount m,
        DocChildren := mChildren m, RepeatedKeys := mRepeated m,
        DocValue := (if depth > 0 then Some (mValue m) else None)\<rparr>)"
      using m by (auto simp: reportOk_def)
  qed
next
  case (2 walked step rest depth out)
  show ?case
    unfolding descendFrom.simps
    by (intro walk.steady_bind [OF walk_get_steady] steady_intros 2)
      (use 2 in \<open>auto simp: reportOk_def\<close>)
qed

section \<open>The whole read\<close>

lemma walk_ok_new:
  assumes "healthy src"
  shows "walk_ok encoding (streamLimits limits) bounds (newWalk encoding src resolver limits bounds)"
  using stream_ok_new [OF assms] by (simp add: walk_ok_def newWalk_def)

lemma read_total:
  assumes "healthy src"
  obtains (refused) e where "ReadDocument encoding src resolver path depth limits bounds = Some (Inl e)"
    | (read) document where "ReadDocument encoding src resolver path depth limits bounds = Some (Inr document)"
      and "reportOk bounds (clampDepth depth bounds) document" and "distinct (DocTruncated document)"
proof -
  let ?w = "newWalk encoding src resolver limits bounds"
  let ?m = "descendFrom [] path (clampDepth depth bounds) (emptyDocument path)"
  have "walk.steadyAt encoding (streamLimits limits) bounds n (reportOk bounds (clampDepth depth bounds)) ?m" for n
    by (rule descend_steady) (simp_all add: emptyDocument_def)
  from walk.steady_run [OF this walk_ok_new [OF assms, of encoding limits bounds resolver]]
  obtain r w where run: "?m ?w = Some (r, w)" and w: "walk_ok encoding (streamLimits limits) bounds w"
    and ok: "\<And>document. r = Inr document \<Longrightarrow> reportOk bounds (clampDepth depth bounds) document" by metis
  show ?thesis
  proof (cases "resolver = None \<and> encoding \<noteq> EncodingText")
    case True
    then show ?thesis by (intro refused) (simp add: ReadDocument_def)
  next
    case False
    then show ?thesis
    proof (cases r)
      case (Inl e)
      then show ?thesis using False run by (intro refused) (auto simp: ReadDocument_def)
    next
      case (Inr document)
      then show ?thesis
        using False run ok w
        by (intro read [of "document\<lparr>DocTruncated := wTruncated w, DocBytesRead := sd_read (wDecoder w)\<rparr>"])
          (auto simp: ReadDocument_def reportOk_def walk_ok_def)
    qed
  qed
qed


definition sampleDocument :: "readEvent list" where
  "sampleDocument =
     [RData ''living={ 7={ name=Artur perk={ a b c } event={ id=e1 } ev'', RDataEOF ''ent={ id=e2 } } 8={ name=Bo } }'']"

definition samplePlace :: DocumentPath where
  "samplePlace = [\<lparr>StepName = ''living'', StepIndex = 0\<rparr>, \<lparr>StepName = ''7'', StepIndex = 0\<rparr>]"


text \<open>C22. What a document read reports stays within its bounds: no more children than the cap and than
  the container has, no value when only the children were asked for, a value nested at most two
  levels for each level of the clamped depth (a container and the array of a repeated key), and
  every reason for truncation once.\<close>

theorem document_bounded:
  assumes "healthy src"
    and "ReadDocument encoding src resolver path depth limits bounds = Some (Inr document)"
  shows "int (length (DocChildren document)) \<le> max 0 (MaxChildren bounds)
    \<and> (DocKind document \<noteq> NodeScalar \<longrightarrow> int (length (DocChildren document)) \<le> ChildCount document)
    \<and> (DocValue document \<noteq> None \<longrightarrow> 0 < depth \<and> 0 < DocMaxDepth bounds
        \<and> int (docDepth (the (DocValue document))) \<le> 2 * min depth (DocMaxDepth bounds))
    \<and> distinct (DocTruncated document) \<and> distinct (RepeatedKeys document)"
proof -
  from read_total [OF assms(1), of encoding resolver path depth limits bounds] assms(2)
  have ok: "reportOk bounds (clampDepth depth bounds) document" and trunc: "distinct (DocTruncated document)"
    by auto
  show ?thesis
  proof (cases "DocKind document = NodeScalar")
    case True
    then show ?thesis using ok trunc by (simp add: reportOk_def)
  next
    case False
    with ok obtain m where m: "finished bounds (clampDepth depth bounds) m" "ChildCount document = mCount m"
      "DocChildren document = mChildren m" "RepeatedKeys document = mRepeated m"
      "DocValue document = (if clampDepth depth bounds > 0 then Some (mValue m) else None)"
      by (auto simp: reportOk_def)
    then show ?thesis
      using trunc by (auto simp: finished_def listed_def clampDepth_def)
  qed
qed

lemma sample_read:
  obtains document where "ReadDocument EncodingText sampleDocument None samplePlace 3 DefaultLimits DefaultDocumentLimits
      = Some (Inr document)"
    and "DocKind document = NodeObject" and "map ChildKey (DocChildren document) = [''name'', ''perk'', ''event'']"
    and "map Occurrences (DocChildren document) = [1, 1, 2]" and "RepeatedKeys document = [''event'']"
    and "DocValue document = Some (DVObject [(''name'', DVText ''Artur''),
      (''perk'', DVArray [DVText ''a'', DVText ''b'', DVText ''c'']),
      (''event'', DVArray [DVObject [(''id'', DVText ''e1'')], DVObject [(''id'', DVText ''e2'')]])])"
proof -
  have "case ReadDocument EncodingText sampleDocument None samplePlace 3 DefaultLimits DefaultDocumentLimits of
      Some (Inr document) \<Rightarrow> DocKind document = NodeObject
        \<and> map ChildKey (DocChildren document) = [''name'', ''perk'', ''event'']
        \<and> map Occurrences (DocChildren document) = [1, 1, 2] \<and> RepeatedKeys document = [''event'']
        \<and> DocValue document = Some (DVObject [(''name'', DVText ''Artur''),
            (''perk'', DVArray [DVText ''a'', DVText ''b'', DVText ''c'']),
            (''event'', DVArray [DVObject [(''id'', DVText ''e1'')], DVObject [(''id'', DVText ''e2'')]])])
    | _ \<Rightarrow> False"
    by code_simp
  then show thesis using that by (auto split: option.splits sum.splits)
qed

theorem document_bounded_witness:
  "\<exists>document. ReadDocument EncodingText sampleDocument None samplePlace 3 DefaultLimits DefaultDocumentLimits
      = Some (Inr document)
    \<and> map ChildKey (DocChildren document) = [''name'', ''perk'', ''event'']
    \<and> int (length (DocChildren document)) \<le> 256 \<and> int (docDepth (the (DocValue document))) \<le> 6"
proof -
  obtain document where run: "ReadDocument EncodingText sampleDocument None samplePlace 3 DefaultLimits DefaultDocumentLimits
      = Some (Inr document)" and c: "map ChildKey (DocChildren document) = [''name'', ''perk'', ''event'']"
    and v: "DocValue document \<noteq> None" by (rule sample_read) simp
  have "healthy sampleDocument" by (simp add: sampleDocument_def)
  from document_bounded [OF this run] show ?thesis
    using run c v by (auto simp: DefaultDocumentLimits_def)
qed

text \<open>The occurrences of a key agree with its value: in the value of an object every key is there
  once, a key reported as repeated has an array of at least two values and its child row counts
  exactly these, and every child row that counts two or more is reported as repeated.\<close>

theorem document_repeats:
  assumes "healthy src"
    and "ReadDocument encoding src resolver path depth limits bounds = Some (Inr document)"
    and "DocKind document = NodeObject" and "DocValue document = Some value"
  shows "\<exists>kvs. value = DVObject kvs \<and> distinct (map fst kvs)
    \<and> (\<forall>key \<in> set (RepeatedKeys document). \<exists>vs. map_of kvs key = Some (DVArray vs) \<and> 2 \<le> length vs
         \<and> (\<forall>c \<in> set (DocChildren document). ChildKey c = key \<longrightarrow> Occurrences c = int (length vs)))
    \<and> (\<forall>c \<in> set (DocChildren document). 2 \<le> Occurrences c \<longrightarrow> ChildKey c \<in> set (RepeatedKeys document))"
proof -
  from read_total [OF assms(1), of encoding resolver path depth limits bounds] assms(2)
  have ok: "reportOk bounds (clampDepth depth bounds) document" by auto
  then obtain m where m: "finished bounds (clampDepth depth bounds) m" "DocKind document = mKind m"
    "DocChildren document = mChildren m" "RepeatedKeys document = mRepeated m"
    "DocValue document = (if clampDepth depth bounds > 0 then Some (mValue m) else None)"
    using assms(3) by (auto simp: reportOk_def)
  then show ?thesis
    using assms(3,4) by (auto simp: finished_def repeatsOk_def split: if_splits)
qed

theorem document_repeats_witness:
  "\<exists>document kvs vs. ReadDocument EncodingText sampleDocument None samplePlace 3 DefaultLimits DefaultDocumentLimits
      = Some (Inr document) \<and> DocValue document = Some (DVObject kvs) \<and> distinct (map fst kvs)
    \<and> RepeatedKeys document = [''event''] \<and> map_of kvs ''event'' = Some (DVArray vs) \<and> 2 \<le> length vs"
proof -
  obtain document where run: "ReadDocument EncodingText sampleDocument None samplePlace 3 DefaultLimits DefaultDocumentLimits
      = Some (Inr document)" and k: "DocKind document = NodeObject" "RepeatedKeys document = [''event'']"
    and v: "DocValue document = Some (DVObject [(''name'', DVText ''Artur''),
      (''perk'', DVArray [DVText ''a'', DVText ''b'', DVText ''c'']),
      (''event'', DVArray [DVObject [(''id'', DVText ''e1'')], DVObject [(''id'', DVText ''e2'')]])])"
    by (rule sample_read)
  have "healthy sampleDocument" by (simp add: sampleDocument_def)
  from document_repeats [OF this run k(1) v] show ?thesis
    using run k v by auto
qed

end
