(* ===== verification/ScriptLexer.thy ===== *)
theory ScriptLexer
  imports GoStd
begin

text \<open>
  \<^verbatim>\<open>internal/script/lexer.go\<close>: the lexer of the game's script language. The state of a lexer is its
  source with a byte position, the line and column of that position, and the cache of token texts
  that lexers over a caller's buffer use. A source given as bytes and one given as a string are the
  same list here; \<open>lxBorrow\<close> keeps the one difference that changes what the code executes. Lines and
  columns count runes of a source held in memory, so they are integers without a bound.
\<close>

section \<open>Tokens and lexers\<close>

datatype ScriptTokenKind =
    TokenEOF | TokenIdent | TokenString | TokenLBrace | TokenRBrace | TokenOperator | TokenComment | TokenError

record ScriptToken =
  TkKind :: ScriptTokenKind
  TkText :: bytes
  TkLine :: int
  TkCol :: int
  TkEndLine :: int
  TkEndCol :: int

definition scriptToken :: "ScriptTokenKind \<Rightarrow> bytes \<Rightarrow> int \<Rightarrow> int \<Rightarrow> ScriptToken" where
  "scriptToken kind text line col =
     \<lparr>TkKind = kind, TkText = text, TkLine = line, TkCol = col, TkEndLine = 0, TkEndCol = 0\<rparr>"

record Lexer =
  lxText :: bytes
  lxBorrow :: bool
  lxCache :: "64 word \<Rightarrow> bytes"
  lxPos :: nat
  lxLine :: int
  lxCol :: int

abbreviation CR :: char where "CR \<equiv> CHR 0x0D"
abbreviation LF :: char where "LF \<equiv> CHR 0x0A"
abbreviation quoteMark :: char where "quoteMark \<equiv> CHR 0x22"
abbreviation backslash :: char where "backslash \<equiv> CHR 0x5C"

definition sourceLen :: "Lexer \<Rightarrow> nat" where
  "sourceLen l = length (lxText l)"

definition byteAt :: "Lexer \<Rightarrow> nat \<Rightarrow> char" where
  "byteAt l p = lxText l ! p"

definition isHigh :: "char \<Rightarrow> bool" where
  "isHigh b \<longleftrightarrow> 128 \<le> byteOf b"

definition lexRune :: "Lexer \<Rightarrow> nat \<Rightarrow> int \<times> nat" where
  "lexRune l p = (if isHigh (byteAt l p) then decodeRune (drop p (lxText l)) else (int (byteOf (byteAt l p)), 1))"

definition sourceString :: "Lexer \<Rightarrow> nat \<Rightarrow> nat \<Rightarrow> bytes" where
  "sourceString l from to = take (to - from) (drop from (lxText l))"

definition skipBOM :: "Lexer \<Rightarrow> Lexer" where
  "skipBOM l =
     (if 3 \<le> sourceLen l \<and> byteAt l 0 = CHR 0xEF \<and> byteAt l 1 = CHR 0xBB \<and> byteAt l 2 = CHR 0xBF
      then l\<lparr>lxPos := 3\<rparr> else l)"

definition newLexer :: "bool \<Rightarrow> bytes \<Rightarrow> Lexer" where
  "newLexer borrow text =
     skipBOM \<lparr>lxText = text, lxBorrow = borrow, lxCache = (\<lambda>_. []), lxPos = 0, lxLine = 1, lxCol = 1\<rparr>"

text \<open>The four constructors: over a string or bytes, for token lists or for the parser.\<close>

definition newStringLexer :: "bytes \<Rightarrow> Lexer" where
  "newStringLexer text = newLexer False text"

definition newByteLexer :: "bytes \<Rightarrow> Lexer" where
  "newByteLexer input = newLexer False input"

definition newParserStringLexer :: "bytes \<Rightarrow> Lexer" where
  "newParserStringLexer text = newLexer True text"

definition newParserByteLexer :: "bytes \<Rightarrow> Lexer" where
  "newParserByteLexer input = newLexer True input"

section \<open>Moving\<close>

definition lxRight :: "nat \<Rightarrow> Lexer \<Rightarrow> Lexer" where
  "lxRight p l = l\<lparr>lxPos := p, lxCol := lxCol l + 1\<rparr>"

definition lxNewline :: "nat \<Rightarrow> Lexer \<Rightarrow> Lexer" where
  "lxNewline p l = l\<lparr>lxPos := p, lxLine := lxLine l + 1, lxCol := 1\<rparr>"

text \<open>The position behind a carriage return that ends before \<open>p\<close>, with the line feed that may follow.\<close>

definition afterCR :: "nat \<Rightarrow> Lexer \<Rightarrow> nat" where
  "afterCR p l = (if p < sourceLen l \<and> byteAt l p = LF then p + 1 else p)"

definition lxPeek :: "Lexer \<Rightarrow> int option" where
  "lxPeek l = (if sourceLen l \<le> lxPos l then None else Some (fst (lexRune l (lxPos l))))"

fun lxPeekFrom :: "Lexer \<Rightarrow> nat \<Rightarrow> nat \<Rightarrow> int" where
  "lxPeekFrom l p n =
     (if sourceLen l \<le> p then 0
      else let (r, size) = lexRune l p in
        (case n of 0 \<Rightarrow> r | Suc k \<Rightarrow> lxPeekFrom l (p + size) k))"

definition lxPeekN :: "Lexer \<Rightarrow> nat \<Rightarrow> int" where
  "lxPeekN l n = lxPeekFrom l (lxPos l) n"

definition lxAdvance :: "Lexer \<Rightarrow> Lexer" where
  "lxAdvance l =
     (if sourceLen l \<le> lxPos l then l
      else
        let (r, size) = lexRune l (lxPos l); p = lxPos l + size in
        if r = 13 \<and> p < sourceLen l \<and> byteAt l p = LF then lxNewline (p + 1) l
        else if r = 10 \<or> r = 13 then lxNewline p l
        else lxRight p l)"

section \<open>Token text\<close>

definition cacheIndex :: "Lexer \<Rightarrow> nat \<Rightarrow> nat \<Rightarrow> 64 word" where
  "cacheIndex l from to =
     (let n = to - from; b = (\<lambda>p. word_of_nat (byteOf (byteAt l p)) :: 64 word);
          index = word_of_nat (n * 131);
          index' = (if n > 0 then xor (xor (xor index (b from * 17)) (b (to - 1) * 31)) (b (from + n div 2) * 47) else index)
      in index' mod 1024)"

definition sourceEqualsString :: "Lexer \<Rightarrow> nat \<Rightarrow> nat \<Rightarrow> bytes \<Rightarrow> bool" where
  "sourceEqualsString l from to value \<longleftrightarrow>
     to - from = length value \<and> list_all (\<lambda>i. byteAt l (from + i) = value ! i) [0 ..< length value]"

definition tokenString :: "nat \<Rightarrow> nat \<Rightarrow> Lexer \<Rightarrow> bytes \<times> Lexer" where
  "tokenString from to l =
     (if lxBorrow l then (sourceString l from to, l)
      else
        let index = cacheIndex l from to; cached = lxCache l index in
        if cached \<noteq> [] \<and> sourceEqualsString l from to cached then (cached, l)
        else
          let value = sourceString l from to
          in (value, l\<lparr>lxCache := (lxCache l)(index := value)\<rparr>))"

section \<open>Scanning\<close>

text \<open>Every scan moves the position forward by at least one byte, so it ends with the source.\<close>

lemma lexRune_size_pos: "p < sourceLen l \<Longrightarrow> 0 < snd (lexRune l p)"
  using decodeRune_size_pos [of "drop p (lxText l)"] by (auto simp: lexRune_def sourceLen_def)

lemma afterCR_ge: "p \<le> afterCR p l"
  by (simp add: afterCR_def)

lemma moving_simps [simp]:
  "lxPos (lxRight p l) = p" "lxPos (lxNewline p l) = p"
  "lxText (lxRight p l) = lxText l" "lxText (lxNewline p l) = lxText l"
  "lxBorrow (lxRight p l) = lxBorrow l" "lxBorrow (lxNewline p l) = lxBorrow l"
  "lxCache (lxRight p l) = lxCache l" "lxCache (lxNewline p l) = lxCache l"
  "lxLine (lxRight p l) = lxLine l" "lxCol (lxRight p l) = lxCol l + 1"
  "lxLine (lxNewline p l) = lxLine l + 1" "lxCol (lxNewline p l) = 1"
  "sourceLen (lxRight p l) = sourceLen l" "sourceLen (lxNewline p l) = sourceLen l"
  by (simp_all add: lxRight_def lxNewline_def sourceLen_def)

text \<open>\<^verbatim>\<open>skipRune\<close>: one step over a byte that is not ASCII.\<close>

definition skipRune :: "Lexer \<Rightarrow> Lexer" where
  "skipRune l = lxRight (lxPos l + snd (lexRune l (lxPos l))) l"

lemma skipRune_simps [simp]:
  "lxText (skipRune l) = lxText l" "lxBorrow (skipRune l) = lxBorrow l" "lxCache (skipRune l) = lxCache l"
  "lxLine (skipRune l) = lxLine l" "lxCol (skipRune l) = lxCol l + 1" "sourceLen (skipRune l) = sourceLen l"
  by (simp_all add: skipRune_def)

lemma skipRune_pos: "lxPos l < sourceLen l \<Longrightarrow> lxPos l < lxPos (skipRune l)"
  using lexRune_size_pos [of "lxPos l" l] by (simp add: skipRune_def)

lemma scan_ends [termination_simp]:
  "\<not> sourceLen l \<le> lxPos l \<Longrightarrow> sourceLen l - Suc (lxPos l) < sourceLen l - lxPos l"
  "\<not> sourceLen l \<le> lxPos l \<Longrightarrow> sourceLen l - afterCR (Suc (lxPos l)) l < sourceLen l - lxPos l"
  "\<not> sourceLen l \<le> lxPos l \<Longrightarrow> sourceLen l - lxPos (skipRune l) < sourceLen l - lxPos l"
  using afterCR_ge [of "Suc (lxPos l)" l] skipRune_pos [of l] by simp_all

function skipSpace :: "Lexer \<Rightarrow> Lexer" where
  "skipSpace l =
     (if sourceLen l \<le> lxPos l then l
      else
        let b = byteAt l (lxPos l); p = lxPos l + 1 in
        if \<not> isHigh b then
          (if b \<in> {CHR 0x20, CHR 0x09, CHR 0x0B, CHR 0x0C} then skipSpace (lxRight p l)
           else if b = CR then skipSpace (lxNewline (afterCR p l) l)
           else if b = LF then skipSpace (lxNewline p l)
           else l)
        else if \<not> isSpaceRune (fst (lexRune l (lxPos l))) then l
        else skipSpace (skipRune l))"
  by pat_completeness auto
termination
  by (relation "measure (\<lambda>l. sourceLen l - lxPos l)") (simp_all add: scan_ends)

text \<open>\<^verbatim>\<open>@[ ... ]\<close> up to the bracket that balances the first.\<close>

function arithLoop :: "nat \<Rightarrow> int \<Rightarrow> int \<Rightarrow> int \<Rightarrow> Lexer \<Rightarrow> ScriptToken \<times> Lexer" where
  "arithLoop start depth line col l =
     (if sourceLen l \<le> lxPos l then (scriptToken TokenError ''unterminated arithmetic expression'' line col, l)
      else
        let b = byteAt l (lxPos l); p = lxPos l + 1 in
        if isHigh b then arithLoop start depth line col (skipRune l)
        else if b = CR then arithLoop start depth line col (lxNewline (afterCR p l) l)
        else if b = LF then arithLoop start depth line col (lxNewline p l)
        else if b = CHR ''['' then arithLoop start (depth + 1) line col (lxRight p l)
        else if b = CHR '']'' then
          (if depth - 1 = 0
           then (let (text, l') = tokenString start p (lxRight p l) in (scriptToken TokenIdent text line col, l'))
           else arithLoop start (depth - 1) line col (lxRight p l))
        else arithLoop start depth line col (lxRight p l))"
  by pat_completeness auto
termination
  by (relation "measure (\<lambda>(start, depth, line, col, l). sourceLen l - lxPos l)") (simp_all add: scan_ends)

definition arithmeticExpression :: "int \<Rightarrow> int \<Rightarrow> Lexer \<Rightarrow> ScriptToken \<times> Lexer" where
  "arithmeticExpression line col l = arithLoop (lxPos l) 0 line col l"

function commentLoop :: "nat \<Rightarrow> int \<Rightarrow> int \<Rightarrow> Lexer \<Rightarrow> ScriptToken \<times> Lexer" where
  "commentLoop start line col l =
     (if sourceLen l \<le> lxPos l \<or> byteAt l (lxPos l) = LF \<or> byteAt l (lxPos l) = CR
      then (scriptToken TokenComment (sourceString l start (lxPos l)) line col, l)
      else if \<not> isHigh (byteAt l (lxPos l)) then commentLoop start line col (lxRight (lxPos l + 1) l)
      else commentLoop start line col (skipRune l))"
  by pat_completeness auto
termination
  by (relation "measure (\<lambda>(start, line, col, l). sourceLen l - lxPos l)") (simp_all add: scan_ends)

definition comment :: "int \<Rightarrow> int \<Rightarrow> Lexer \<Rightarrow> ScriptToken \<times> Lexer" where
  "comment line col l = commentLoop (lxPos l) line col l"

text \<open>A string: \<^verbatim>\<open>decoded\<close> stays nil until an escape or a carriage return makes the value differ from
  the source. An escaped line break, or a CRLF, leaves one character in it.\<close>

definition escapedChar :: "Lexer \<Rightarrow> bytes \<times> Lexer" where
  "escapedChar l =
     (let p = lxPos l; b = byteAt l p in
      if b = CR then ([CR], lxNewline (afterCR (p + 1) l) l)
      else if b = LF then ([LF], lxNewline (p + 1) l)
      else
        let l' = (if \<not> isHigh b then lxRight (p + 1) l else skipRune l)
        in (sourceString l p (lxPos l'), l'))"

lemma escapedChar_pos:
  "lxPos l < sourceLen l \<Longrightarrow> lxPos l < lxPos (snd (escapedChar l))" "lxText (snd (escapedChar l)) = lxText l"
  "sourceLen (snd (escapedChar l)) = sourceLen l"
  using skipRune_pos [of l] afterCR_ge [of "lxPos l + 1" l]
  by (auto simp: escapedChar_def Let_def)

lemma escape_ends:
  "\<not> sourceLen l \<le> Suc (lxPos l) \<Longrightarrow>
     sourceLen l - lxPos (snd (escapedChar (lxRight (Suc (lxPos l)) l))) < sourceLen l - lxPos l"
  using escapedChar_pos(1) [of "lxRight (Suc (lxPos l)) l"] by simp

function stringLoop :: "nat \<Rightarrow> nat \<Rightarrow> bytes option \<Rightarrow> int \<Rightarrow> int \<Rightarrow> Lexer \<Rightarrow> ScriptToken \<times> Lexer" where
  "stringLoop contentStart segmentStart decoded line col l =
     (if sourceLen l \<le> lxPos l then (scriptToken TokenError ''unterminated string'' line col, l)
      else
        let charStart = lxPos l; b = byteAt l charStart; p = charStart + 1;
            sofar = (case decoded of None \<Rightarrow> [] | Some d \<Rightarrow> d) @ sourceString l segmentStart charStart in
        if isHigh b then stringLoop contentStart segmentStart decoded line col (skipRune l)
        else if b = quoteMark then
          (let l' = lxRight p l in
           case decoded of
             None \<Rightarrow> (let (text, l'') = tokenString contentStart charStart l' in (scriptToken TokenString text line col, l''))
           | Some d \<Rightarrow> (scriptToken TokenString sofar line col, l'))
        else if b = backslash then
          (let l' = lxRight p l in
           if sourceLen l' \<le> p then (scriptToken TokenError ''unterminated string'' line col, l')
           else
             stringLoop contentStart (lxPos (snd (escapedChar l'))) (Some (sofar @ fst (escapedChar l'))) line col
               (snd (escapedChar l')))
        else if b = CR then
          stringLoop contentStart (afterCR p l) (Some (sofar @ [CR])) line col (lxNewline (afterCR p l) l)
        else if b = LF then stringLoop contentStart segmentStart decoded line col (lxNewline p l)
        else stringLoop contentStart segmentStart decoded line col (lxRight p l))"
  by pat_completeness auto
termination
  by (relation "measure (\<lambda>(contentStart, segmentStart, decoded, line, col, l). sourceLen l - lxPos l)")
    (simp_all add: scan_ends escape_ends escapedChar_pos)

text \<open>\<^verbatim>\<open>Lexer.string\<close>\<close>

definition stringToken :: "int \<Rightarrow> int \<Rightarrow> Lexer \<Rightarrow> ScriptToken \<times> Lexer" where
  "stringToken line col l =
     (let l' = lxRight (lxPos l + 1) l in stringLoop (lxPos l') (lxPos l') None line col l')"

text \<open>\<^verbatim>\<open>string(r)\<close> of a rune: its UTF-8 encoding, or that of U+FFFD.\<close>

definition runeString :: "int \<Rightarrow> bytes" where
  "runeString r0 =
     (let r = (if r0 < 0 \<or> 0x10FFFF < r0 \<or> (0xD800 \<le> r0 \<and> r0 < 0xE000) then runeError else r0);
          cont = (\<lambda>n. char_of (128 + nat (n mod 64)) :: char) in
      if r < 0x80 then [char_of (nat r)]
      else if r < 0x800 then [char_of (192 + nat (r div 64)), cont r]
      else if r < 0x10000 then [char_of (224 + nat (r div 4096)), cont (r div 64), cont r]
      else [char_of (240 + nat (r div 262144)), cont (r div 4096), cont (r div 64), cont r])"

abbreviation runeOf :: "char \<Rightarrow> int" where
  "runeOf c \<equiv> int (byteOf c)"

text \<open>\<^verbatim>\<open>Lexer.operator\<close>\<close>

definition operatorToken :: "int \<Rightarrow> int \<Rightarrow> Lexer \<Rightarrow> ScriptToken \<times> Lexer" where
  "operatorToken line col l =
     (case lxPeek l of
        None \<Rightarrow> (scriptToken TokenError ''unexpected end of file'' line col, l)
      | Some first \<Rightarrow>
          let l1 = lxAdvance l; doubled = (lxPeekN l1 0 = runeOf (CHR ''='')); l2 = (if doubled then lxAdvance l1 else l1) in
          if doubled \<and> first = runeOf (CHR ''='') then (scriptToken TokenOperator ''=='' line col, l2)
          else if doubled \<and> first = runeOf (CHR ''<'') then (scriptToken TokenOperator ''<='' line col, l2)
          else if doubled \<and> first = runeOf (CHR ''>'') then (scriptToken TokenOperator ''>='' line col, l2)
          else if doubled \<and> first = runeOf (CHR ''!'') then (scriptToken TokenOperator ''!='' line col, l2)
          else if first = runeOf (CHR ''='') then (scriptToken TokenOperator ''='' line col, l2)
          else if first = runeOf (CHR ''<'') then (scriptToken TokenOperator ''<'' line col, l2)
          else if first = runeOf (CHR ''>'') then (scriptToken TokenOperator ''>'' line col, l2)
          else if first = runeOf (CHR ''!'') then (scriptToken TokenError ''unexpected !; use != for inequality'' line col, l2)
          else (scriptToken TokenOperator (runeString first) line col, l2))"

definition isASCIIIdentDelimiter :: "char \<Rightarrow> bool" where
  "isASCIIIdentDelimiter b \<longleftrightarrow>
     b \<in> {CHR '' '', CHR 0x09, LF, CR, CHR 0x0B, CHR 0x0C, CHR ''{'', CHR ''}'', CHR ''#'', quoteMark,
          CHR ''='', CHR ''<'', CHR ''>'', CHR ''!'', CHR ''?''}"

function identLoop :: "Lexer \<Rightarrow> Lexer" where
  "identLoop l =
     (if sourceLen l \<le> lxPos l then l
      else
        let b = byteAt l (lxPos l) in
        if \<not> isHigh b then (if isASCIIIdentDelimiter b then l else identLoop (lxRight (lxPos l + 1) l))
        else if isSpaceRune (fst (lexRune l (lxPos l))) then l
        else identLoop (skipRune l))"
  by pat_completeness auto
termination
  by (relation "measure (\<lambda>l. sourceLen l - lxPos l)") (simp_all add: scan_ends)

definition identToken :: "int \<Rightarrow> int \<Rightarrow> Lexer \<Rightarrow> ScriptToken \<times> Lexer" where
  "identToken line col l =
     (let l' = identLoop l in
      if lxPos l' = lxPos l then
        (case lxPeek l' of
           None \<Rightarrow> (scriptToken TokenError ''unexpected end of file'' line col, l')
         | Some r \<Rightarrow> (scriptToken TokenError (''unexpected character '' @ runeString r) line col, lxAdvance l'))
      else let (text, l'') = tokenString (lxPos l) (lxPos l') l' in (scriptToken TokenIdent text line col, l''))"

section \<open>The next token\<close>

definition rawToken :: "int \<Rightarrow> int \<Rightarrow> Lexer \<Rightarrow> ScriptToken \<times> Lexer" where
  "rawToken line col l =
     (case lxPeek l of
        None \<Rightarrow> (scriptToken TokenEOF [] line col, l)
      | Some r \<Rightarrow>
          if r = runeOf (CHR ''@'') \<and> lxPeekN l 1 = runeOf (CHR ''['') then arithmeticExpression line col l
          else if r = runeOf (CHR ''#'') then comment line col l
          else if r = runeOf (CHR ''{'') then (scriptToken TokenLBrace ''{'' line col, lxAdvance l)
          else if r = runeOf (CHR ''}'') then (scriptToken TokenRBrace ''}'' line col, lxAdvance l)
          else if r = runeOf quoteMark then stringToken line col l
          else if r \<in> {runeOf (CHR ''=''), runeOf (CHR ''<''), runeOf (CHR ''>''), runeOf (CHR ''!'')}
          then operatorToken line col l
          else if r = runeOf (CHR ''?'') then
            (if lxPeekN l 1 = runeOf (CHR ''='')
             then (scriptToken TokenOperator ''?='' line col, lxAdvance (lxAdvance l))
             else (scriptToken TokenError ''unexpected character ?'' line col, lxAdvance l))
          else identToken line col l)"

definition lexNext :: "Lexer \<Rightarrow> ScriptToken \<times> Lexer" where
  "lexNext l =
     (let l1 = skipSpace l; (token, l2) = rawToken (lxLine l1) (lxCol l1) l1
      in (token\<lparr>TkEndLine := lxLine l2, TkEndCol := lxCol l2\<rparr>, l2))"

declare skipSpace.simps [simp del] arithLoop.simps [simp del] commentLoop.simps [simp del]
  stringLoop.simps [simp del] identLoop.simps [simp del] lxPeekFrom.simps [simp del]

section \<open>Progress\<close>

text \<open>\<open>advances l l'\<close>: from \<open>l\<close> to \<open>l'\<close> the source stays, the position stays inside it, and if it
  moves at all, it moves forward and so do line and column.\<close>

named_theorems advance_intros \<open>rules that show that a scan moves forward\<close>

definition laterThan :: "int \<times> int \<Rightarrow> int \<times> int \<Rightarrow> bool" where
  "laterThan = (\<lambda>(line', col') (line, col). line < line' \<or> line = line' \<and> col < col')"

definition advances :: "Lexer \<Rightarrow> Lexer \<Rightarrow> bool" where
  "advances l l' \<longleftrightarrow>
     lxText l' = lxText l \<and> lxBorrow l' = lxBorrow l \<and> lxPos l \<le> lxPos l'
     \<and> (lxPos l \<le> sourceLen l \<longrightarrow> lxPos l' \<le> sourceLen l)
     \<and> (if lxPos l' = lxPos l then lxLine l' = lxLine l \<and> lxCol l' = lxCol l
        else laterThan (lxLine l', lxCol l') (lxLine l, lxCol l))"

lemma advances_refl [advance_intros]: "advances l l"
  by (simp add: advances_def)

lemma advances_trans: "advances l l1 \<Longrightarrow> advances l1 l2 \<Longrightarrow> advances l l2"
  by (auto simp: advances_def sourceLen_def laterThan_def split: if_splits)

lemma advances_len: "advances l l' \<Longrightarrow> sourceLen l' = sourceLen l"
  by (simp add: advances_def sourceLen_def)

lemma advances_right: "lxPos l < p \<Longrightarrow> p \<le> sourceLen l \<Longrightarrow> advances l (lxRight p l)"
  by (simp add: advances_def laterThan_def)

lemma advances_newline: "lxPos l < p \<Longrightarrow> p \<le> sourceLen l \<Longrightarrow> advances l (lxNewline p l)"
  by (simp add: advances_def laterThan_def)

lemma afterCR_le: "p \<le> sourceLen l \<Longrightarrow> afterCR p l \<le> sourceLen l"
  by (simp add: afterCR_def)

lemma skipRune_le: "lxPos l < sourceLen l \<Longrightarrow> lxPos (skipRune l) \<le> sourceLen l"
  using decodeRune_size_le [of "drop (lxPos l) (lxText l)"]
  by (auto simp: skipRune_def lexRune_def sourceLen_def)

lemma advances_skipRune: "lxPos l < sourceLen l \<Longrightarrow> advances l (skipRune l)"
  using skipRune_pos [of l] skipRune_le [of l]
  unfolding skipRune_def by (intro advances_right) simp_all

lemma advances_from:
  "advances (lxRight p l) x \<Longrightarrow> lxPos l < p \<Longrightarrow> p \<le> sourceLen l \<Longrightarrow> advances l x"
  "advances (lxNewline p l) x \<Longrightarrow> lxPos l < p \<Longrightarrow> p \<le> sourceLen l \<Longrightarrow> advances l x"
  "advances (lxNewline (afterCR p l) l) x \<Longrightarrow> lxPos l < p \<Longrightarrow> p \<le> sourceLen l \<Longrightarrow> advances l x"
  "advances (skipRune l) x \<Longrightarrow> \<not> sourceLen l \<le> lxPos l \<Longrightarrow> advances l x"
  using afterCR_ge [of p l] afterCR_le [of p l]
  by (auto elim!: advances_trans [rotated] intro!: advances_right advances_newline advances_skipRune)

lemma advances_skipSpace: "advances l (skipSpace l)"
proof (induction l rule: skipSpace.induct)
  case (1 l)
  note step = advances_from(1) [OF 1(1)] advances_from(3) [OF 1(2)] advances_from(2) [OF 1(3)]
    advances_from(4) [OF 1(4)]
  show ?case
    unfolding skipSpace.simps [of l] Let_def
    by (simp add: advances_refl step)
qed

lemma tokenString_state:
  "lxText (snd (tokenString a b l)) = lxText l" "lxBorrow (snd (tokenString a b l)) = lxBorrow l"
  "lxPos (snd (tokenString a b l)) = lxPos l" "lxLine (snd (tokenString a b l)) = lxLine l"
  "lxCol (snd (tokenString a b l)) = lxCol l" "sourceLen (snd (tokenString a b l)) = sourceLen l"
  by (simp_all add: tokenString_def Let_def sourceLen_def)

lemma advances_tokenString: "advances l l' \<Longrightarrow> advances l (snd (tokenString a b l'))"
  by (simp add: advances_def tokenString_state)

text \<open>The cache is transparent: it only answers a text that equals the source's.\<close>

lemma tokenString_text:
  assumes "b \<le> sourceLen l"
  shows "fst (tokenString a b l) = sourceString l a b"
proof -
  have "v = sourceString l a b" if "sourceEqualsString l a b v" for v
    using that assms
    by (intro nth_equalityI) (auto simp: sourceEqualsString_def sourceString_def sourceLen_def byteAt_def list_all_iff)
  then show ?thesis by (auto simp: tokenString_def Let_def)
qed

lemma advances_arithLoop: "advances l (snd (arithLoop start depth line col l))"
proof (induction start depth line col l rule: arithLoop.induct)
  case (1 start depth line col l)
  note step = advances_from(4) [OF 1(1)] advances_from(3) [OF 1(2)] advances_from(2) [OF 1(3)]
    advances_from(1) [OF 1(4)] advances_from(1) [OF 1(5)] advances_from(1) [OF 1(6)]
  show ?case
    unfolding arithLoop.simps [of start depth line col l] Let_def
    by (simp add: advances_refl step split_beta advances_tokenString advances_right)
qed

lemma advances_commentLoop: "advances l (snd (commentLoop start line col l))"
proof (induction start line col l rule: commentLoop.induct)
  case (1 start line col l)
  note step = advances_from(1) [OF 1(1), folded Suc_eq_plus1] advances_from(4) [OF 1(2)]
  show ?case
    unfolding commentLoop.simps [of start line col l] Let_def
    by (simp add: advances_refl step)
qed

lemma advances_escapedChar:
  assumes "lxPos l < sourceLen l"
  shows "advances l (snd (escapedChar l))"
  using assms afterCR_ge [of "lxPos l + 1" l] afterCR_le [of "lxPos l + 1" l]
  by (auto simp: escapedChar_def Let_def intro!: advances_right advances_newline advances_skipRune)

lemma advances_snd_if:
  "(c \<Longrightarrow> advances l (snd x)) \<Longrightarrow> (\<not> c \<Longrightarrow> advances l (snd y)) \<Longrightarrow> advances l (snd (if c then x else y))"
  by simp

lemma advances_closing:
  "advances l l' \<Longrightarrow> advances l (snd (case decoded of
       None \<Rightarrow> (case tokenString a b l' of (text, l'') \<Rightarrow> (t text, l'')) | Some d \<Rightarrow> (t' d, l')))"
  by (auto simp: split_beta advances_tokenString split: option.split)

lemma advances_stringLoop: "advances l (snd (stringLoop contentStart segmentStart decoded line col l))"
proof (induction contentStart segmentStart decoded line col l rule: stringLoop.induct)
  case (1 contentStart segmentStart decoded line col l)
  let ?l = "lxRight (lxPos l + 1) l"
  let ?sofar = "(case decoded of None \<Rightarrow> [] | Some d \<Rightarrow> d) @ sourceString l segmentStart (lxPos l)"
  show ?case
  proof (cases "sourceLen l \<le> lxPos l")
    case True
    then show ?thesis by (simp add: stringLoop.simps [of contentStart] advances_refl)
  next
    case False
    have room: "lxPos l < lxPos l + 1" "lxPos l + 1 \<le> sourceLen l" using False by simp_all
    note ih = 1 [OF False refl refl refl refl]
    show ?thesis
      unfolding stringLoop.simps [of contentStart segmentStart decoded line col l] Let_def if_not_P [OF False]
    proof (split if_split, intro conjI impI)
      assume h: "isHigh (byteAt l (lxPos l))"
      show "advances l (snd (stringLoop contentStart segmentStart decoded line col (skipRune l)))"
        by (rule advances_from(4) [OF ih(1) [OF h] False])
    next
      assume h: "\<not> isHigh (byteAt l (lxPos l))"
      have "advances l (snd (stringLoop contentStart (lxPos (snd (escapedChar ?l)))
          (Some (?sofar @ fst (escapedChar ?l))) line col (snd (escapedChar ?l))))"
        if "byteAt l (lxPos l) \<noteq> quoteMark" "byteAt l (lxPos l) = backslash" "\<not> sourceLen ?l \<le> lxPos l + 1"
      proof -
        have "advances ?l (snd (escapedChar ?l))" using that(3) by (intro advances_escapedChar) simp
        from advances_trans [OF this ih(2) [OF h that(1,2) refl that(3)]]
        show ?thesis by (rule advances_from(1) [OF _ room])
      qed
      then show "advances l (snd (if byteAt l (lxPos l) = quoteMark
          then case decoded of
              None \<Rightarrow> (case tokenString contentStart (lxPos l) ?l of (text, l'') \<Rightarrow> (scriptToken TokenString text line col, l''))
            | Some d \<Rightarrow> (scriptToken TokenString ?sofar line col, ?l)
          else if byteAt l (lxPos l) = backslash
          then if sourceLen ?l \<le> lxPos l + 1 then (scriptToken TokenError ''unterminated string'' line col, ?l)
            else stringLoop contentStart (lxPos (snd (escapedChar ?l))) (Some (?sofar @ fst (escapedChar ?l))) line col
                (snd (escapedChar ?l))
          else if byteAt l (lxPos l) = CR
          then stringLoop contentStart (afterCR (lxPos l + 1) l) (Some (?sofar @ [CR])) line col
              (lxNewline (afterCR (lxPos l + 1) l) l)
          else if byteAt l (lxPos l) = LF
          then stringLoop contentStart segmentStart decoded line col (lxNewline (lxPos l + 1) l)
          else stringLoop contentStart segmentStart decoded line col ?l))"
      proof (intro advances_snd_if, goal_cases)
        case 1
        show ?case by (rule advances_closing [OF advances_right [OF room]])
      next
        case 2
        then show ?case by (simp only: snd_conv advances_right [OF room])
      next
        case 3
        then show ?case by simp
      next
        case 4
        then show ?case by (intro advances_from(3) [OF ih(3) [OF h] room])
      next
        case 5
        then show ?case by (intro advances_from(2) [OF ih(4) [OF h] room])
      next
        case 6
        then show ?case by (intro advances_from(1) [OF ih(5) [OF h] room])
      qed
    qed
  qed
qed

lemma advances_identLoop: "advances l (identLoop l)"
proof (induction l rule: identLoop.induct)
  case (1 l)
  note step = advances_from(1) [OF 1(1), folded Suc_eq_plus1] advances_from(4) [OF 1(2)]
  show ?case
    unfolding identLoop.simps [of l] Let_def
    by (simp add: advances_refl step)
qed

lemma advances_advance: "advances l (lxAdvance l)"
proof (cases "sourceLen l \<le> lxPos l")
  case True
  then show ?thesis by (simp add: lxAdvance_def advances_refl)
next
  case False
  let ?p = "lxPos l + snd (lexRune l (lxPos l))"
  have "lxPos l < ?p" "?p \<le> sourceLen l"
    using False skipRune_pos [of l] skipRune_le [of l] by (simp_all add: skipRune_def)
  then show ?thesis
    using False by (simp add: lxAdvance_def split_beta Let_def advances_right advances_newline)
qed

lemma advance_moves: "lxPos l < sourceLen l \<Longrightarrow> lxPos l < lxPos (lxAdvance l)"
  using lexRune_size_pos [of "lxPos l" l] by (simp add: lxAdvance_def split_beta Let_def)

lemma advances_advance_twice: "advances l (lxAdvance (lxAdvance l))"
  by (rule advances_trans [OF advances_advance advances_advance])

lemma advances_operator: "advances l (snd (operatorToken line col l))"
  by (auto simp: operatorToken_def Let_def advances_refl advances_advance advances_advance_twice split: option.split)

lemma advances_ident: "advances l (snd (identToken line col l))"
  using advances_identLoop [of l] advances_trans [OF advances_identLoop advances_advance]
  by (auto simp: identToken_def Let_def split_beta advances_tokenString split: option.split)

lemma advances_string:
  assumes "lxPos l < sourceLen l"
  shows "advances l (snd (stringToken line col l))"
  unfolding stringToken_def Let_def
  by (rule advances_from(1) [OF advances_stringLoop]) (use assms in simp_all)

lemma lxPeek_None: "lxPeek l = None \<longleftrightarrow> sourceLen l \<le> lxPos l"
  by (simp add: lxPeek_def)

lemma lxPeek_SomeD: "lxPeek l = Some r \<Longrightarrow> lxPos l < sourceLen l"
  by (simp add: lxPeek_def split: if_splits)

text \<open>A case rule for the dispatch of \<^verbatim>\<open>Next\<close>: what holds of every token reader holds of the dispatch.\<close>

lemma rawToken_cases:
  assumes "sourceLen l \<le> lxPos l \<Longrightarrow> P (scriptToken TokenEOF [] line col, l)"
    and "lxPeek l = Some (runeOf (CHR ''@'')) \<Longrightarrow> P (arithmeticExpression line col l)"
    and "lxPeek l = Some (runeOf (CHR ''#'')) \<Longrightarrow> P (comment line col l)"
    and "lxPeek l = Some (runeOf (CHR ''{'')) \<Longrightarrow> P (scriptToken TokenLBrace ''{'' line col, lxAdvance l)"
    and "lxPeek l = Some (runeOf (CHR ''}'')) \<Longrightarrow> P (scriptToken TokenRBrace ''}'' line col, lxAdvance l)"
    and "lxPeek l = Some (runeOf quoteMark) \<Longrightarrow> P (stringToken line col l)"
    and "lxPos l < sourceLen l \<Longrightarrow> P (operatorToken line col l)"
    and "lxPos l < sourceLen l \<Longrightarrow> P (scriptToken TokenOperator ''?='' line col, lxAdvance (lxAdvance l))"
    and "lxPos l < sourceLen l \<Longrightarrow> P (scriptToken TokenError ''unexpected character ?'' line col, lxAdvance l)"
    and "lxPos l < sourceLen l \<Longrightarrow> P (identToken line col l)"
  shows "P (rawToken line col l)"
proof (cases "lxPeek l")
  case None
  then show ?thesis using assms(1) lxPeek_None [of l] by (simp add: rawToken_def)
next
  case (Some r)
  then have "lxPos l < sourceLen l" by (rule lxPeek_SomeD)
  then show ?thesis
    using assms(2-) Some by (simp add: rawToken_def del: of_nat_eq_iff)
qed

lemma advances_rawToken: "advances l (snd (rawToken line col l))"
  by (rule rawToken_cases)
    (simp_all add: arithmeticExpression_def comment_def advances_refl advances_advance advances_advance_twice
      advances_operator advances_ident advances_arithLoop advances_commentLoop advances_string lxPeek_SomeD)

text \<open>A token that is not the end of the file is made of at least one byte.\<close>

lemma advances_strict: "advances l l' \<Longrightarrow> lxPos l < p \<Longrightarrow> p \<le> lxPos l' \<Longrightarrow> lxPos l < lxPos l'"
  by (simp add: advances_def)

lemma advances_pos: "advances l l' \<Longrightarrow> lxPos l \<le> lxPos l'"
  by (simp add: advances_def)

lemma operator_moves: "lxPos l < sourceLen l \<Longrightarrow> lxPos l < lxPos (snd (operatorToken line col l))"
  using advance_moves [of l] advances_pos [OF advances_advance [of "lxAdvance l"]]
  by (auto simp: operatorToken_def lxPeek_def Let_def)

lemma ident_moves:
  assumes "lxPos l < sourceLen l"
  shows "lxPos l < lxPos (snd (identToken line col l))"
proof (cases "lxPos (identLoop l) = lxPos l")
  case True
  have len: "sourceLen (identLoop l) = sourceLen l" by (rule advances_len [OF advances_identLoop])
  then show ?thesis
    using advance_moves [of "identLoop l"] assms True by (simp add: identToken_def Let_def lxPeek_def)
next
  case False
  then show ?thesis
    using advances_pos [OF advances_identLoop [of l]] by (simp add: identToken_def Let_def split_beta tokenString_state)
qed

lemma cont_range: "isCont b \<Longrightarrow> 128 \<le> int (byteOf b)"
  by (simp add: isCont_def)

lemma decodeRune_high:
  assumes "128 \<le> byteOf b"
  shows "128 \<le> fst (decodeRune (b # bs))"
proof -
  let ?x = "int (byteOf b)"
  consider "?x < 194" | "194 \<le> ?x" "?x < 224" | "224 \<le> ?x" "?x < 240" | "240 \<le> ?x" "?x < 245" | "245 \<le> ?x"
    by linarith
  then show ?thesis
  proof cases
    case 1
    then show ?thesis using assms by (simp add: decodeRune_def Let_def runeError_def)
  next
    case 2
    then show ?thesis
      by (simp add: decodeRune_def Let_def runeError_def split: list.split) (auto dest: cont_range)
  next
    case 3
    have "128 \<le> (?x - 224) * 4096 + (int (byteOf b1) - 128) * 64 + (int (byteOf b2) - 128)"
      if "isCont b1" "isCont b2" "?x = 224 \<longrightarrow> 160 \<le> byteOf b1" for b1 b2
      using 3 that cont_range [of b1] cont_range [of b2] by (cases "?x = 224") simp_all
    then show ?thesis
      using 3 by (simp add: decodeRune_def Let_def runeError_def split: list.split)
  next
    case 4
    have "128 \<le> (?x - 240) * 262144 + (int (byteOf b1) - 128) * 4096 + (int (byteOf b2) - 128) * 64
        + (int (byteOf b3) - 128)"
      if "isCont b1" "isCont b2" "isCont b3" "?x = 240 \<longrightarrow> 144 \<le> byteOf b1" for b1 b2 b3
      using 4 that cont_range [of b1] cont_range [of b2] cont_range [of b3] by (cases "?x = 240") simp_all
    then show ?thesis
      using 4 by (simp add: decodeRune_def Let_def runeError_def split: list.split)
  next
    case 5
    then show ?thesis by (simp add: decodeRune_def Let_def runeError_def)
  qed
qed

lemma lexRune_low:
  assumes "p < sourceLen l" and "fst (lexRune l p) < 128"
  shows "\<not> isHigh (byteAt l p) \<and> fst (lexRune l p) = runeOf (byteAt l p)"
proof -
  have "drop p (lxText l) = byteAt l p # drop (Suc p) (lxText l)"
    using assms(1) by (simp add: byteAt_def sourceLen_def Cons_nth_drop_Suc)
  then show ?thesis
    using assms(2) decodeRune_high [of "byteAt l p" "drop (Suc p) (lxText l)"]
    by (auto simp: lexRune_def isHigh_def split: if_splits)
qed

lemma byteOf_inject [simp]: "byteOf a = byteOf b \<longleftrightarrow> a = b"
  by (simp add: byteOf_def)

lemma lxPeek_byte:
  assumes "lxPeek l = Some (runeOf c)" and "byteOf c < 128"
  shows "lxPos l < sourceLen l" and "byteAt l (lxPos l) = c"
proof -
  show pos: "lxPos l < sourceLen l" using assms(1) by (rule lxPeek_SomeD)
  have r: "fst (lexRune l (lxPos l)) = runeOf c" using assms(1) pos by (simp add: lxPeek_def)
  then have "runeOf (byteAt l (lxPos l)) = runeOf c" using lexRune_low [OF pos] assms(2) by simp
  then show "byteAt l (lxPos l) = c" by simp
qed

lemma moves_past: "advances (lxRight (Suc (lxPos l)) l) l' \<Longrightarrow> lxPos l < lxPos l'"
  by (drule advances_pos) simp

lemma comment_moves:
  assumes "lxPeek l = Some (runeOf (CHR ''#''))"
  shows "lxPos l < lxPos (snd (comment line col l))"
  using lxPeek_byte [OF assms] moves_past [OF advances_commentLoop [of _ "lxPos l" line col]]
  by (simp add: comment_def commentLoop.simps [of "lxPos l" line col l] isHigh_def byteOf_def)

lemma string_moves: "lxPos l < lxPos (snd (stringToken line col l))"
  using moves_past [OF advances_stringLoop] by (simp add: stringToken_def Let_def)

lemma arith_moves:
  assumes "lxPeek l = Some (runeOf (CHR ''@''))"
  shows "lxPos l < lxPos (snd (arithmeticExpression line col l))"
  using lxPeek_byte [OF assms] moves_past [OF advances_arithLoop [of _ "lxPos l" 0 line col]]
  by (simp add: arithmeticExpression_def arithLoop.simps [of "lxPos l" 0 line col l] isHigh_def byteOf_def Let_def)

lemma rawToken_moves:
  assumes "lxPos l < sourceLen l"
  shows "lxPos l < lxPos (snd (rawToken line col l))"
  using advance_moves [OF assms] advances_pos [OF advances_advance, of "lxAdvance l"] assms
  by - (rule rawToken_cases, simp_all add: arith_moves comment_moves string_moves operator_moves ident_moves)

text \<open>The kinds of tokens the readers produce.\<close>

lemma kind_scriptToken [simp]: "TkKind (scriptToken kind text line col) = kind"
  by (simp add: scriptToken_def)

lemma arithLoop_kind: "TkKind (fst (arithLoop start depth line col l)) \<in> {TokenIdent, TokenError}"
proof (induction start depth line col l rule: arithLoop.induct)
  case (1 start depth line col l)
  then show ?case by (subst arithLoop.simps) (simp add: Let_def split_beta)
qed

lemma commentLoop_kind: "TkKind (fst (commentLoop start line col l)) = TokenComment"
proof (induction start line col l rule: commentLoop.induct)
  case (1 start line col l)
  then show ?case by (subst commentLoop.simps) (simp add: Let_def)
qed

lemma stringLoop_result:
  assumes str: "\<And>text l. P (scriptToken TokenString text line col, l)"
    and err: "\<And>l. P (scriptToken TokenError ''unterminated string'' line col, l)"
  shows "P (stringLoop a b decoded line col l)"
  using assms
proof (induction a b decoded line col l rule: stringLoop.induct)
  case (1 a b decoded line col l)
  note str = 1(6) and err = 1(7)
  have P_if: "P (if c then x else y)" if "c \<Longrightarrow> P x" and "\<not> c \<Longrightarrow> P y" for c x y
    using that by simp
  have closing: "P (case decoded of None \<Rightarrow> (case tokenString a m l' of (text, l'') \<Rightarrow> (scriptToken TokenString text line col, l''))
      | Some d \<Rightarrow> (scriptToken TokenString t line col, l'))" for l' t m
    using str by (cases decoded) (simp_all add: split_beta)
  show ?case
  proof (cases "sourceLen l \<le> lxPos l")
    case True
    then show ?thesis using err by (simp add: stringLoop.simps [of a])
  next
    case False
    note ih = 1(1-5) [OF False refl refl refl refl]
    show ?thesis
      unfolding stringLoop.simps [of a b decoded line col l] Let_def if_not_P [OF False]
    proof (intro P_if closing err, goal_cases)
      case 1
      then show ?case by (intro ih(1) str err)
    next
      case 2
      then show ?case by (intro ih(2) [OF _ _ _ refl] str err)
    next
      case 3
      then show ?case by (intro ih(3) str err)
    next
      case 4
      then show ?case by (intro ih(4) str err)
    next
      case 5
      then show ?case by (intro ih(5) str err)
    qed
  qed
qed

lemma stringToken_kind: "TkKind (fst (stringToken line col l)) \<noteq> TokenEOF"
  unfolding stringToken_def Let_def
  by (rule stringLoop_result [where P = "\<lambda>r. TkKind (fst r) \<noteq> TokenEOF"]) simp_all

lemma operatorToken_kind: "TkKind (fst (operatorToken line col l)) \<noteq> TokenEOF"
  by (simp add: operatorToken_def Let_def split: option.split)

lemma identToken_kind: "TkKind (fst (identToken line col l)) \<noteq> TokenEOF"
  by (simp add: identToken_def Let_def split_beta split: option.split)

lemma rawToken_EOF: "TkKind (fst (rawToken line col l)) = TokenEOF \<longleftrightarrow> sourceLen l \<le> lxPos l"
  using arithLoop_kind [of "lxPos l" 0 line col l] commentLoop_kind [of "lxPos l" line col l]
  by - (rule rawToken_cases [of l "\<lambda>r. TkKind (fst r) = TokenEOF \<longleftrightarrow> sourceLen l \<le> lxPos l"],
    auto simp: arithmeticExpression_def comment_def stringToken_kind operatorToken_kind identToken_kind
      dest: lxPeek_SomeD)

lemma lexNext_advances: "advances l (snd (lexNext l))"
  unfolding lexNext_def Let_def split_beta snd_conv
  by (rule advances_trans [OF advances_skipSpace advances_rawToken])

lemma lexNext_EOF: "TkKind (fst (lexNext l)) = TokenEOF \<longleftrightarrow> sourceLen l \<le> lxPos (skipSpace l)"
  using rawToken_EOF advances_len [OF advances_skipSpace] by (simp add: lexNext_def Let_def split_beta)

lemma lexNext_moves:
  assumes "TkKind (fst (lexNext l)) \<noteq> TokenEOF"
  shows "lxPos l < lxPos (snd (lexNext l))" and "lxPos l < sourceLen l"
proof -
  let ?l = "skipSpace l"
  have "lxPos ?l < sourceLen ?l" using assms lexNext_EOF [of l] advances_len [OF advances_skipSpace [of l]] by simp
  then have "lxPos ?l < lxPos (snd (lexNext l))"
    using rawToken_moves by (simp add: lexNext_def Let_def split_beta)
  then show "lxPos l < lxPos (snd (lexNext l))" using advances_pos [OF advances_skipSpace [of l]] by simp
  show "lxPos l < sourceLen l"
    using \<open>lxPos ?l < sourceLen ?l\<close> advances_pos [OF advances_skipSpace [of l]] advances_len [OF advances_skipSpace [of l]]
    by simp
qed

lemma lexNext_less:
  assumes "TkKind (fst (lexNext l)) \<noteq> TokenEOF"
  shows "sourceLen (snd (lexNext l)) - lxPos (snd (lexNext l)) < sourceLen l - lxPos l"
  using lexNext_moves [OF assms] advances_len [OF lexNext_advances [of l]] by simp

section \<open>Whole sources\<close>

function lexAll :: "Lexer \<Rightarrow> ScriptToken list" where
  "lexAll l =
     (let tok = fst (lexNext l); out = (if TkKind tok \<noteq> TokenComment then [tok] else [])
      in if TkKind tok = TokenEOF then out else out @ lexAll (snd (lexNext l)))"
  by pat_completeness auto
termination
  by (relation "measure (\<lambda>l. sourceLen l - lxPos l)") (simp_all add: lexNext_less)

declare lexAll.simps [simp del]

definition Lex :: "bytes \<Rightarrow> ScriptToken list" where
  "Lex text = lexAll (newStringLexer text)"

definition LexBytes :: "bytes \<Rightarrow> ScriptToken list" where
  "LexBytes input = lexAll (newByteLexer input)"

record ParseError =
  PeMessage :: bytes
  PeLine :: int
  PeCol :: int

function invalidLoop :: "Lexer \<Rightarrow> ParseError option" where
  "invalidLoop l =
     (let token = fst (lexNext l) in
      if TkKind token = TokenEOF then None
      else if TkKind token \<noteq> TokenComment \<and> (\<not> utf8Valid (TkText token) \<or> CHR 0x00 \<in> set (TkText token))
      then Some \<lparr>PeMessage = ''script tokens must be UTF-8 without NUL bytes'', PeLine = TkLine token, PeCol = TkCol token\<rparr>
      else invalidLoop (snd (lexNext l)))"
  by pat_completeness auto
termination
  by (relation "measure (\<lambda>l. sourceLen l - lxPos l)") (simp_all add: lexNext_less)

declare invalidLoop.simps [simp del]

definition InvalidTokenEncoding :: "bytes \<Rightarrow> ParseError option" where
  "InvalidTokenEncoding text =
     (if utf8Valid text \<and> CHR 0x00 \<notin> set text then None
      else invalidLoop (newParserStringLexer text))"

end
