(* ===== verification/ScriptLexerFacts.thy ===== *)
theory ScriptLexerFacts
  imports ScriptLexer
begin

text \<open>
  What the script lexer guarantees: a token list ends with its only end-of-file token and holds no
  comment, tokens occupy disjoint ranges of the source in order, the text cache and the borrowed
  source of the parser's lexers give the same tokens, and printed tokens lex back to themselves.
\<close>

section \<open>Token lists\<close>

lemma lexAll_shape:
  "\<exists>ts e. lexAll l = ts @ [e] \<and> TkKind e = TokenEOF \<and> (\<forall>t \<in> set ts. TkKind t \<notin> {TokenEOF, TokenComment})"
proof (induction l rule: lexAll.induct)
  case (1 l)
  let ?tok = "fst (lexNext l)"
  let ?out = "if TkKind ?tok \<noteq> TokenComment then [?tok] else []"
  show ?case
  proof (cases "TkKind ?tok = TokenEOF")
    case True
    then have "lexAll l = [] @ [?tok]" by (subst lexAll.simps) (simp add: Let_def)
    then show ?thesis using True by (intro exI [of _ "[]"] exI [of _ ?tok]) simp
  next
    case False
    from 1 [OF refl refl False] obtain ts e where ih: "lexAll (snd (lexNext l)) = ts @ [e]" "TkKind e = TokenEOF"
      "\<forall>t \<in> set ts. TkKind t \<notin> {TokenEOF, TokenComment}" by blast
    have "lexAll l = ?out @ lexAll (snd (lexNext l))"
      using False by (subst lexAll.simps) (simp add: Let_def)
    then show ?thesis
      using ih False by (intro exI [of _ "?out @ ts"] exI [of _ e]) auto
  qed
qed

text \<open>C24. Lexing ends on every source, and the token list it gives consists of tokens that are neither
  comments nor ends of file, followed by one end-of-file token.\<close>

theorem lex_shape:
  "\<exists>ts e. Lex text = ts @ [e] \<and> TkKind e = TokenEOF \<and> (\<forall>t \<in> set ts. TkKind t \<notin> {TokenEOF, TokenComment})"
  unfolding Lex_def by (rule lexAll_shape)

theorem lex_shape_witness:
  "map TkKind (Lex (''a={b} # c'')) = [TokenIdent, TokenOperator, TokenLBrace, TokenIdent, TokenRBrace, TokenEOF]
    \<and> (\<exists>ts e. Lex (''a={b} # c'') = ts @ [e] \<and> TkKind e = TokenEOF)"
proof
  show "map TkKind (Lex (''a={b} # c'')) = [TokenIdent, TokenOperator, TokenLBrace, TokenIdent, TokenRBrace, TokenEOF]"
    by code_simp
  show "\<exists>ts e. Lex (''a={b} # c'') = ts @ [e] \<and> TkKind e = TokenEOF" using lex_shape by blast
qed

section \<open>Positions\<close>

lemma arithLoop_place: "TkLine (fst (arithLoop start depth line col l)) = line \<and> TkCol (fst (arithLoop start depth line col l)) = col"
proof (induction start depth line col l rule: arithLoop.induct)
  case (1 start depth line col l)
  then show ?case
    by (simp add: arithLoop.simps [of start depth line col l] Let_def split_beta scriptToken_def)
qed

lemma commentLoop_place: "TkLine (fst (commentLoop start line col l)) = line \<and> TkCol (fst (commentLoop start line col l)) = col"
proof (induction start line col l rule: commentLoop.induct)
  case (1 start line col l)
  then show ?case by (simp add: commentLoop.simps [of start line col l] Let_def scriptToken_def)
qed

lemma place_scriptToken [simp]:
  "TkLine (scriptToken kind text line col) = line" "TkCol (scriptToken kind text line col) = col"
  "TkText (scriptToken kind text line col) = text"
  by (simp_all add: scriptToken_def)

lemma rawToken_place: "TkLine (fst (rawToken line col l)) = line \<and> TkCol (fst (rawToken line col l)) = col"
proof (rule rawToken_cases)
  show "TkLine (fst (stringToken line col l)) = line \<and> TkCol (fst (stringToken line col l)) = col"
    unfolding stringToken_def Let_def
    by (rule stringLoop_result [where P = "\<lambda>r. TkLine (fst r) = line \<and> TkCol (fst r) = col"]) simp_all
qed (simp_all add: arithmeticExpression_def comment_def arithLoop_place commentLoop_place operatorToken_def
    identToken_def Let_def split_beta split: option.split)

definition tokenStart :: "ScriptToken \<Rightarrow> int \<times> int" where
  "tokenStart t = (TkLine t, TkCol t)"

definition tokenEnd :: "ScriptToken \<Rightarrow> int \<times> int" where
  "tokenEnd t = (TkEndLine t, TkEndCol t)"

definition placeOf :: "Lexer \<Rightarrow> int \<times> int" where
  "placeOf l = (lxLine l, lxCol l)"

lemma advances_place: "advances l l' \<Longrightarrow> placeOf l' = placeOf l \<or> laterThan (placeOf l') (placeOf l)"
  by (auto simp: advances_def placeOf_def split: if_splits)

lemma moves_place: "advances l l' \<Longrightarrow> lxPos l < lxPos l' \<Longrightarrow> laterThan (placeOf l') (placeOf l)"
  by (auto simp: advances_def placeOf_def split: if_splits)

lemma laterThan_trans: "laterThan a b \<Longrightarrow> laterThan b c \<Longrightarrow> laterThan a c"
  by (auto simp: laterThan_def)

lemma lexNext_places:
  "tokenStart (fst (lexNext l)) = placeOf (skipSpace l)" "tokenEnd (fst (lexNext l)) = placeOf (snd (lexNext l))"
  using rawToken_place [of "lxLine (skipSpace l)" "lxCol (skipSpace l)" "skipSpace l"]
  by (auto simp: lexNext_def tokenStart_def tokenEnd_def placeOf_def Let_def split_beta)

lemma lexNext_extent:
  assumes "TkKind (fst (lexNext l)) \<noteq> TokenEOF"
  shows "laterThan (tokenEnd (fst (lexNext l))) (tokenStart (fst (lexNext l)))"
proof -
  let ?l = "skipSpace l"
  have pos: "lxPos ?l < sourceLen ?l"
    using assms lexNext_EOF [of l] advances_len [OF advances_skipSpace [of l]] by simp
  have "snd (lexNext l) = snd (rawToken (lxLine ?l) (lxCol ?l) ?l)" by (simp add: lexNext_def Let_def split_beta)
  then show ?thesis
    using moves_place [OF advances_rawToken rawToken_moves [OF pos]] by (simp add: lexNext_places)
qed

lemma lexAll_after:
  "t \<in> set (lexAll l) \<Longrightarrow> tokenStart t = placeOf l \<or> laterThan (tokenStart t) (placeOf l)"
proof (induction l rule: lexAll.induct)
  case (1 l)
  have start: "tokenStart (fst (lexNext l)) = placeOf l \<or> laterThan (tokenStart (fst (lexNext l))) (placeOf l)"
    using advances_place [OF advances_skipSpace [of l]] by (simp add: lexNext_places)
  show ?case
  proof (cases "TkKind (fst (lexNext l)) = TokenEOF")
    case True
    then show ?thesis using 1(2) start by (subst (asm) lexAll.simps) (simp add: Let_def)
  next
    case False
    then consider "t = fst (lexNext l)" | "t \<in> set (lexAll (snd (lexNext l)))"
      using 1(2) by (subst (asm) lexAll.simps) (auto simp: Let_def split: if_splits)
    then show ?thesis
    proof cases
      case 1
      then show ?thesis using start by simp
    next
      case 2
      with "1.IH" [OF refl refl False] consider "tokenStart t = placeOf (snd (lexNext l))"
        | "laterThan (tokenStart t) (placeOf (snd (lexNext l)))" by blast
      then show ?thesis
        using advances_place [OF lexNext_advances [of l]]
          laterThan_trans [of "tokenStart t" "placeOf (snd (lexNext l))" "placeOf l"] by cases auto
    qed
  qed
qed

text \<open>Ranges in order: each token ends behind its start, and none starts before an earlier one ends.\<close>

fun inOrder :: "ScriptToken list \<Rightarrow> bool" where
  "inOrder [] = True"
| "inOrder (t # ts) \<longleftrightarrow>
     (TkKind t \<noteq> TokenEOF \<longrightarrow> laterThan (tokenEnd t) (tokenStart t))
     \<and> list_all (\<lambda>u. tokenStart u = tokenEnd t \<or> laterThan (tokenStart u) (tokenEnd t)) ts
     \<and> inOrder ts"

lemma lexAll_inOrder: "inOrder (lexAll l)"
proof (induction l rule: lexAll.induct)
  case (1 l)
  show ?case
  proof (cases "TkKind (fst (lexNext l)) = TokenEOF")
    case True
    then show ?thesis by (subst lexAll.simps) (simp add: Let_def)
  next
    case False
    have "list_all (\<lambda>u. tokenStart u = tokenEnd (fst (lexNext l)) \<or> laterThan (tokenStart u) (tokenEnd (fst (lexNext l))))
        (lexAll (snd (lexNext l)))"
      using lexAll_after by (auto simp: list_all_iff lexNext_places)
    then show ?thesis
      using 1 [OF refl refl False] lexNext_extent [OF False] False
      by (subst lexAll.simps) (simp add: Let_def)
  qed
qed

text \<open>C25. The tokens of a source lie in it in order and without overlap: every token but the last ends
  behind its start, and starts no earlier than every token before it ends, as lines and columns
  count.\<close>

theorem lex_in_order: "inOrder (Lex text)"
  unfolding Lex_def by (rule lexAll_inOrder)

section \<open>The cache\<close>

text \<open>A lexer without its cache, reading a borrowed source, as the parser's lexers are.\<close>

definition borrowed :: "Lexer \<Rightarrow> Lexer" where
  "borrowed l = l\<lparr>lxBorrow := True, lxCache := (\<lambda>_. [])\<rparr>"

definition asBorrowed :: "ScriptToken \<times> Lexer \<Rightarrow> ScriptToken \<times> Lexer" where
  "asBorrowed r = (fst r, borrowed (snd r))"

lemma asBorrowed_pair [simp]: "asBorrowed (t, l) = (t, borrowed l)"
  by (simp add: asBorrowed_def)

lemma borrowed_simps [simp]:
  "sourceLen (borrowed l) = sourceLen l" "byteAt (borrowed l) p = byteAt l p" "lxPos (borrowed l) = lxPos l"
  "lxLine (borrowed l) = lxLine l" "lxCol (borrowed l) = lxCol l" "lexRune (borrowed l) p = lexRune l p"
  "sourceString (borrowed l) a b = sourceString l a b" "afterCR p (borrowed l) = afterCR p l"
  "lxRight p (borrowed l) = borrowed (lxRight p l)" "lxNewline p (borrowed l) = borrowed (lxNewline p l)"
  "skipRune (borrowed l) = borrowed (skipRune l)" "lxPeek (borrowed l) = lxPeek l"
  by (simp_all add: borrowed_def sourceLen_def byteAt_def lexRune_def sourceString_def afterCR_def lxRight_def
      lxNewline_def skipRune_def lxPeek_def)

lemma borrowed_peekFrom [simp]: "lxPeekFrom (borrowed l) p n = lxPeekFrom l p n"
proof (induction n arbitrary: p)
  case 0
  show ?case by (simp add: lxPeekFrom.simps [of _ p] split_beta)
next
  case (Suc n)
  show ?case by (simp add: lxPeekFrom.simps [of _ p] Suc split_beta)
qed

lemma borrowed_peekN [simp]: "lxPeekN (borrowed l) n = lxPeekN l n"
  by (simp add: lxPeekN_def)

lemma borrowed_advance [simp]: "lxAdvance (borrowed l) = borrowed (lxAdvance l)"
  by (simp add: lxAdvance_def split_beta Let_def)

lemma tokenString_borrowed [simp]: "tokenString a b (borrowed l) = (sourceString l a b, borrowed l)"
  by (simp add: tokenString_def borrowed_def sourceString_def)

lemma borrowed_tokenString [simp]: "borrowed (snd (tokenString a b l)) = borrowed l"
  by (simp add: tokenString_def borrowed_def Let_def)

lemma borrowed_skipSpace [simp]: "skipSpace (borrowed l) = borrowed (skipSpace l)"
proof (induction l rule: skipSpace.induct)
  case (1 l)
  then show ?case by (simp add: skipSpace.simps [of l] skipSpace.simps [of "borrowed l"] Let_def)
qed

lemma borrowed_identLoop [simp]: "identLoop (borrowed l) = borrowed (identLoop l)"
proof (induction l rule: identLoop.induct)
  case (1 l)
  then show ?case by (simp add: identLoop.simps [of l] identLoop.simps [of "borrowed l"] Let_def)
qed

lemma borrowed_arithLoop: "arithLoop start depth line col (borrowed l) = asBorrowed (arithLoop start depth line col l)"
proof (induction start depth line col l rule: arithLoop.induct)
  case (1 start depth line col l)
  then show ?case
    by (simp add: arithLoop.simps [of start depth line col l] arithLoop.simps [of start depth line col "borrowed l"]
        Let_def split_beta tokenString_text tokenString_state)
qed

lemma borrowed_commentLoop: "commentLoop start line col (borrowed l) = asBorrowed (commentLoop start line col l)"
proof (induction start line col l rule: commentLoop.induct)
  case (1 start line col l)
  then show ?case
    by (simp add: commentLoop.simps [of start line col l] commentLoop.simps [of start line col "borrowed l"] Let_def)
qed

lemma borrowed_escapedChar [simp]:
  "fst (escapedChar (borrowed l)) = fst (escapedChar l)" "snd (escapedChar (borrowed l)) = borrowed (snd (escapedChar l))"
  by (simp_all add: escapedChar_def Let_def)

lemma asBorrowed_if: "asBorrowed (if c then x else y) = (if c then asBorrowed x else asBorrowed y)"
  by simp

lemma if_cong_both: "(c \<Longrightarrow> x = x') \<Longrightarrow> (\<not> c \<Longrightarrow> y = y') \<Longrightarrow> (if c then x else y) = (if c then x' else y')"
  by simp

lemma borrowed_stringLoop: "stringLoop a b decoded line col (borrowed l) = asBorrowed (stringLoop a b decoded line col l)"
proof (induction a b decoded line col l rule: stringLoop.induct)
  case (1 a b decoded line col l)
  show ?case
  proof (cases "sourceLen l \<le> lxPos l")
    case True
    then show ?thesis by (simp add: stringLoop.simps [of a])
  next
    case False
    then have len: "lxPos l \<le> sourceLen l" and F: "\<not> sourceLen (borrowed l) \<le> lxPos (borrowed l)" by simp_all
    note ih = 1 [OF False refl refl refl refl]
    show ?thesis
      unfolding stringLoop.simps [of a b decoded line col l] stringLoop.simps [of a b decoded line col "borrowed l"] Let_def
        if_not_P [OF False] if_not_P [OF F] asBorrowed_if borrowed_simps borrowed_escapedChar
    proof (intro if_cong_both, goal_cases)
      case 1
      then show ?case by (rule ih(1))
    next
      case 2
      then show ?case using len by (cases decoded) (simp_all add: split_beta tokenString_text)
    next
      case 3
      then show ?case by simp
    next
      case 4
      then show ?case using ih(2) [OF _ _ _ refl] by simp
    next
      case 5
      then show ?case by (rule ih(3))
    next
      case 6
      then show ?case by (rule ih(4))
    next
      case 7
      then show ?case by (rule ih(5))
    qed
  qed
qed

lemma borrowed_stringToken: "stringToken line col (borrowed l) = asBorrowed (stringToken line col l)"
  by (simp add: stringToken_def Let_def borrowed_stringLoop)

lemma borrowed_operator: "operatorToken line col (borrowed l) = asBorrowed (operatorToken line col l)"
  by (simp add: operatorToken_def Let_def split: option.split)

lemma borrowed_ident:
  assumes "lxPos l < sourceLen l"
  shows "identToken line col (borrowed l) = asBorrowed (identToken line col l)"
proof -
  have "lxPos (identLoop l) \<le> sourceLen (identLoop l)"
    using advances_identLoop [of l] assms by (auto simp: advances_def sourceLen_def)
  then show ?thesis by (simp add: identToken_def Let_def split_beta tokenString_text split: option.split)
qed

lemma borrowed_rawToken: "rawToken line col (borrowed l) = asBorrowed (rawToken line col l)"
proof (cases "lxPeek l")
  case None
  then show ?thesis by (simp add: rawToken_def)
next
  case (Some r)
  then have "lxPos l < sourceLen l" by (rule lxPeek_SomeD)
  then show ?thesis
    using Some
    by (simp only: rawToken_def borrowed_simps borrowed_peekN option.case asBorrowed_if arithmeticExpression_def
        comment_def borrowed_arithLoop borrowed_commentLoop borrowed_stringToken borrowed_operator borrowed_ident
        asBorrowed_pair borrowed_advance)
qed

lemma borrowed_lexNext: "lexNext (borrowed l) = asBorrowed (lexNext l)"
  by (simp add: lexNext_def Let_def split_beta borrowed_rawToken asBorrowed_def)

lemma borrowed_lexAll: "lexAll (borrowed l) = lexAll l"
proof (induction l rule: lexAll.induct)
  case (1 l)
  then show ?case
    by (simp add: lexAll.simps [of l] lexAll.simps [of "borrowed l"] borrowed_lexNext asBorrowed_def Let_def)
qed

lemma borrowed_new: "borrowed (newLexer b text) = newLexer True text"
  by (simp add: newLexer_def skipBOM_def borrowed_def sourceLen_def byteAt_def)

text \<open>The four lexers agree: a source given as a string or as bytes, lexed with cached token texts or
  through the parser's borrowed copy, has the same tokens, so the cache never answers a wrong text
  and a caller may reuse its buffer.\<close>

theorem lexers_agree:
  "Lex text = lexAll (newParserStringLexer text) \<and> LexBytes text = lexAll (newParserByteLexer text) \<and> LexBytes text = Lex text"
  unfolding Lex_def LexBytes_def newStringLexer_def newByteLexer_def newParserStringLexer_def newParserByteLexer_def
  using borrowed_lexAll [of "newLexer False text"] by (simp add: borrowed_new)

section \<open>Printed tokens\<close>

definition identByte :: "char \<Rightarrow> bool" where
  "identByte c \<longleftrightarrow> \<not> isHigh c \<and> \<not> isASCIIIdentDelimiter c"

definition operators :: "bytes list" where
  "operators = [''='', ''=='', ''<'', ''<='', ''>'', ''>='', ''!='', ''?='']"

text \<open>A kind and a text the lexer can produce: an identifier of ASCII bytes that is not an arithmetic
  expression, a string without a carriage return, a brace, an operator.\<close>

fun lexemeOk :: "ScriptTokenKind \<times> bytes \<Rightarrow> bool" where
  "lexemeOk (TokenIdent, t) \<longleftrightarrow> t \<noteq> [] \<and> list_all identByte t \<and> take 2 t \<noteq> ''@[''"
| "lexemeOk (TokenString, t) \<longleftrightarrow> CR \<notin> set t"
| "lexemeOk (TokenLBrace, t) \<longleftrightarrow> t = ''{''"
| "lexemeOk (TokenRBrace, t) \<longleftrightarrow> t = ''}''"
| "lexemeOk (TokenOperator, t) \<longleftrightarrow> t \<in> set operators"
| "lexemeOk _ \<longleftrightarrow> False"

fun escapeText :: "bytes \<Rightarrow> bytes" where
  "escapeText [] = []"
| "escapeText (c # cs) = (if c = quoteMark \<or> c = backslash then backslash # c # escapeText cs else c # escapeText cs)"

fun showLexeme :: "ScriptTokenKind \<times> bytes \<Rightarrow> bytes" where
  "showLexeme (TokenString, t) = quoteMark # escapeText t @ [quoteMark]"
| "showLexeme (_, t) = t"

definition renderTokens :: "(ScriptTokenKind \<times> bytes) list \<Rightarrow> bytes" where
  "renderTokens ts = concat (map (\<lambda>t. showLexeme t @ '' '') ts)"

definition restOf :: "Lexer \<Rightarrow> bytes" where
  "restOf l = drop (lxPos l) (lxText l)"

lemma restOf_Cons:
  assumes "restOf l = c # r"
  shows "\<not> sourceLen l \<le> lxPos l" and "byteAt l (lxPos l) = c" and "restOf (lxRight (Suc (lxPos l)) l) = r"
    and "restOf (lxNewline (Suc (lxPos l)) l) = r" and "Suc (lxPos l) \<le> sourceLen l"
proof -
  have d: "drop (lxPos l) (lxText l) = c # r" using assms by (simp add: restOf_def)
  then show "\<not> sourceLen l \<le> lxPos l" "Suc (lxPos l) \<le> sourceLen l"
    by (auto simp: sourceLen_def dest: arg_cong [of _ _ length])
  show "byteAt l (lxPos l) = c" using d by (simp add: byteAt_def nth_via_drop)
  have "drop (Suc (lxPos l)) (lxText l) = r" using d by (metis drop_Suc list.sel(3) tl_drop)
  then show "restOf (lxRight (Suc (lxPos l)) l) = r" "restOf (lxNewline (Suc (lxPos l)) l) = r"
    by (simp_all add: restOf_def)
qed

lemma restOf_Nil: "restOf l = [] \<longleftrightarrow> sourceLen l \<le> lxPos l"
  by (simp add: restOf_def sourceLen_def)

lemma slice_prefix:
  "drop a (lxText l) = t @ r \<Longrightarrow> sourceString l a (a + length t) = t"
  by (simp add: sourceString_def)

lemma slice_extend:
  assumes "a \<le> lxPos l" and "restOf l = t @ r"
  shows "sourceString l a (lxPos l + length t) = sourceString l a (lxPos l) @ t"
proof -
  have e: "lxPos l + length t - a = (lxPos l - a) + length t" using assms(1) by simp
  have d: "drop (lxPos l - a) (drop a (lxText l)) = t @ r"
    using assms by (simp add: restOf_def)
  show ?thesis unfolding sourceString_def e take_add d by simp
qed

lemma sourceString_moves [simp]:
  "sourceString (lxRight p l) a b = sourceString l a b" "sourceString (lxNewline p l) a b = sourceString l a b"
  "sourceString (skipRune l) a b = sourceString l a b"
  by (simp_all add: sourceString_def)

text \<open>Identifiers.\<close>

lemma identLoop_run:
  assumes "restOf l = t @ c # r" and "list_all identByte t" and "\<not> isHigh c" and "isASCIIIdentDelimiter c"
  shows "lxPos (identLoop l) = lxPos l + length t \<and> restOf (identLoop l) = c # r \<and> lxText (identLoop l) = lxText l"
  using assms(1,2)
proof (induction t arbitrary: l)
  case Nil
  then show ?case
    using restOf_Cons(1,2) [of l c r] assms(3,4) by (simp add: identLoop.simps [of l] Let_def)
next
  case (Cons x t)
  then have x: "restOf l = x # (t @ c # r)" "identByte x" by simp_all
  have "identLoop l = identLoop (lxRight (Suc (lxPos l)) l)"
    using restOf_Cons(1,2) [OF x(1)] x(2) by (simp add: identLoop.simps [of l] Let_def identByte_def)
  then show ?case
    using Cons.IH [of "lxRight (Suc (lxPos l)) l"] restOf_Cons(3) [OF x(1)] Cons.prems by simp
qed

lemma space_delimits: "\<not> isHigh (CHR '' '')" "isASCIIIdentDelimiter (CHR '' '')"
  by (simp_all add: isHigh_def byteOf_def isASCIIIdentDelimiter_def)

lemma identToken_run:
  assumes "restOf l = t @ CHR '' '' # r" and "t \<noteq> []" and "list_all identByte t"
  shows "TkKind (fst (identToken line col l)) = TokenIdent \<and> TkText (fst (identToken line col l)) = t
    \<and> restOf (snd (identToken line col l)) = CHR '' '' # r"
proof -
  have run: "lxPos (identLoop l) = lxPos l + length t" "restOf (identLoop l) = CHR '' '' # r"
    "lxText (identLoop l) = lxText l"
    using identLoop_run [OF assms(1,3) space_delimits] by simp_all
  have "lxPos (identLoop l) \<le> sourceLen (identLoop l)" using restOf_Cons(5) [OF run(2)] by simp
  then have "fst (tokenString (lxPos l) (lxPos l + length t) (identLoop l)) = t"
    using assms(1) run by (simp add: tokenString_text slice_prefix restOf_def)
  moreover have "restOf (snd (tokenString a b l')) = restOf l'" for a b l'
    by (simp add: restOf_def tokenString_state)
  ultimately show ?thesis
    using assms(2) run by (simp add: identToken_def Let_def split_beta)
qed

text \<open>Strings: a rune that is not ASCII is skipped whole, and all its bytes are part of the string.\<close>

lemma decodeRune_bytes:
  assumes "isHigh b"
  shows "\<forall>c \<in> set (take (snd (decodeRune (b # bs))) (b # bs)). isHigh c"
proof -
  have cont: "isCont c \<Longrightarrow> isHigh c" for c by (simp add: isCont_def isHigh_def)
  show ?thesis
    using assms by (auto simp: decodeRune_def Let_def cont split: list.splits if_splits)
qed

lemma escapeText_high:
  assumes "k \<le> length (escapeText s @ quoteMark # r)" and "\<forall>c \<in> set (take k (escapeText s @ quoteMark # r)). isHigh c"
  obtains u s' where "s = u @ s'" and "length u = k" and "escapeText s = u @ escapeText s'"
  using assms
proof (induction k arbitrary: s thesis)
  case 0
  show ?case by (rule 0(1) [of "[]" s]) simp_all
next
  case (Suc k)
  have ascii: "\<not> isHigh quoteMark" "\<not> isHigh backslash" by (simp_all add: isHigh_def byteOf_def)
  obtain c cs where s: "s = c # cs" using Suc.prems(3) ascii by (cases s) auto
  then have c: "escapeText s = c # escapeText cs" using Suc.prems(3) ascii by (auto split: if_splits)
  then have "k \<le> length (escapeText cs @ quoteMark # r)" "\<forall>c \<in> set (take k (escapeText cs @ quoteMark # r)). isHigh c"
    using Suc.prems(2,3) by simp_all
  from Suc.IH [OF _ this] obtain u s' where "cs = u @ s'" "length u = k" "escapeText cs = u @ escapeText s'" by blast
  then show ?case using c s by (intro Suc.prems(1) [of "c # u" s']) simp_all
qed

lemma skipRune_run:
  assumes "restOf l = b # bs" and "isHigh b"
  shows "lxPos (skipRune l) = lxPos l + snd (decodeRune (b # bs))"
    and "restOf (skipRune l) = drop (snd (decodeRune (b # bs))) (b # bs)"
proof -
  have d: "drop (lxPos l) (lxText l) = b # bs" using assms(1) by (simp add: restOf_def)
  have "lexRune l (lxPos l) = decodeRune (b # bs)"
    using restOf_Cons(2) [OF assms(1)] assms(2) d by (simp add: lexRune_def)
  then show pos: "lxPos (skipRune l) = lxPos l + snd (decodeRune (b # bs))" by (simp add: skipRune_def)
  have "drop (snd (decodeRune (b # bs))) (drop (lxPos l) (lxText l)) = drop (lxPos l + snd (decodeRune (b # bs))) (lxText l)"
    by (simp add: add.commute)
  then show "restOf (skipRune l) = drop (snd (decodeRune (b # bs))) (b # bs)"
    by (simp only: restOf_def pos skipRune_simps d)
qed

definition stringSoFar :: "nat \<Rightarrow> bytes option \<Rightarrow> Lexer \<Rightarrow> bytes" where
  "stringSoFar from decoded l = (case decoded of None \<Rightarrow> [] | Some d \<Rightarrow> d) @ sourceString l from (lxPos l)"

definition stringDone :: "bytes \<Rightarrow> bytes \<Rightarrow> ScriptToken \<times> Lexer \<Rightarrow> bool" where
  "stringDone t r out \<longleftrightarrow> TkKind (fst out) = TokenString \<and> TkText (fst out) = t \<and> restOf (snd out) = r"

lemma stringLoop_quote:
  assumes "restOf l = quoteMark # r" and "b \<le> lxPos l" and "decoded = None \<longrightarrow> a = b"
  shows "stringDone (stringSoFar b decoded l) r (stringLoop a b decoded line col l)"
proof -
  note q = restOf_Cons [OF assms(1)]
  have h: "\<not> isHigh quoteMark" by (simp add: isHigh_def byteOf_def)
  have "restOf (snd (tokenString x y l')) = restOf l'" for x y l' by (simp add: restOf_def tokenString_state)
  then show ?thesis
    unfolding stringLoop.simps [of a b decoded line col l] stringDone_def stringSoFar_def Let_def
    using q(1,2,3,5) assms(3) h by (cases decoded) (simp_all add: split_beta tokenString_text)
qed

lemma stringLoop_run:
  assumes "restOf l = escapeText s @ quoteMark # r" and "CR \<notin> set s" and "b \<le> lxPos l" and "decoded = None \<longrightarrow> a = b"
  shows "stringDone (stringSoFar b decoded l @ s) r (stringLoop a b decoded line col l)"
  using assms
proof (induction s arbitrary: b decoded l rule: length_induct)
  case (1 s)
  have ih: "stringDone (stringSoFar b' decoded' l' @ s') r (stringLoop a b' decoded' line col l')"
    if "length s' < length s" "restOf l' = escapeText s' @ quoteMark # r" "set s' \<subseteq> set s" "b' \<le> lxPos l'"
      "decoded' = None \<longrightarrow> a = b'" for s' b' decoded' l'
    using 1(1) that 1(3) by blast
  show ?case
  proof (cases s)
    case Nil
    then show ?thesis using stringLoop_quote 1 by simp
  next
    case (Cons c cs)
    consider (esc) "c = quoteMark \<or> c = backslash" | (high) "isHigh c" "c \<noteq> quoteMark" "c \<noteq> backslash"
      | (line) "c = LF" | (plain) "\<not> isHigh c" "c \<noteq> quoteMark" "c \<noteq> backslash" "c \<noteq> LF"
      by blast
    then show ?thesis
    proof cases
      case esc
      have rest: "restOf l = backslash # c # escapeText cs @ quoteMark # r" using 1(2) Cons esc by auto
      let ?l = "lxRight (Suc (lxPos l)) l"
      have rest1: "restOf ?l = c # escapeText cs @ quoteMark # r" by (rule restOf_Cons(3) [OF rest])
      let ?l2 = "lxRight (Suc (lxPos ?l)) ?l"
      have rest2: "restOf ?l2 = escapeText cs @ quoteMark # r" by (rule restOf_Cons(3) [OF rest1])
      have h: "\<not> isHigh c" "\<not> isHigh backslash" "c \<noteq> CR" "c \<noteq> LF" using esc by (auto simp: isHigh_def byteOf_def)
      have one: "sourceString ?l (Suc (lxPos l)) (Suc (lxPos l) + length [c]) = [c]"
        using rest1 by (intro slice_prefix) (simp add: restOf_def)
      have e: "escapedChar ?l = ([c], ?l2)"
        using h one restOf_Cons(2) [OF rest1] by (simp add: escapedChar_def Let_def)
      have "stringLoop a b decoded line col l
          = stringLoop a (lxPos ?l2) (Some (stringSoFar b decoded l @ [c])) line col ?l2"
        using restOf_Cons(1,2) [OF rest] restOf_Cons(1) [OF rest1] h e
        by (simp add: stringLoop.simps [of a b decoded line col l] stringSoFar_def Let_def)
      moreover have "stringSoFar (lxPos ?l2) (Some (stringSoFar b decoded l @ [c])) ?l2 @ cs = stringSoFar b decoded l @ s"
        by (simp add: stringSoFar_def sourceString_def Cons)
      ultimately show ?thesis
        using ih [of cs ?l2 "lxPos ?l2" "Some (stringSoFar b decoded l @ [c])"] rest2 Cons by auto
    next
      case high
      then have rest: "restOf l = c # escapeText cs @ quoteMark # r" using 1(2) Cons by simp
      let ?k = "snd (decodeRune (restOf l))"
      have k: "0 < ?k" "?k \<le> length (escapeText s @ quoteMark # r)"
        using decodeRune_size_pos [of "restOf l"] decodeRune_size_le [of "restOf l"] rest 1(2) by simp_all
      have "\<forall>c \<in> set (take ?k (escapeText s @ quoteMark # r)). isHigh c"
        using decodeRune_bytes [OF high(1), of "escapeText cs @ quoteMark # r"] rest 1(2) by simp
      then obtain u s' where u: "s = u @ s'" "length u = ?k" "escapeText s = u @ escapeText s'"
        by (rule escapeText_high [OF k(2)])
      have step: "stringLoop a b decoded line col l = stringLoop a b decoded line col (skipRune l)"
        using restOf_Cons(1,2) [OF rest] high by (simp add: stringLoop.simps [of a b decoded line col l] Let_def)
      have all: "c # escapeText cs @ quoteMark # r = u @ escapeText s' @ quoteMark # r" using rest 1(2) u(3) by simp
      have len: "length u = snd (decodeRune (c # escapeText cs @ quoteMark # r))" using u(2) rest by simp
      have pos: "lxPos (skipRune l) = lxPos l + length u" and rest': "restOf (skipRune l) = escapeText s' @ quoteMark # r"
        using skipRune_run [OF rest high(1)] unfolding len [symmetric] unfolding all by simp_all
      have "stringSoFar b decoded (skipRune l) = stringSoFar b decoded l @ u"
        using slice_extend [of b l u "escapeText s' @ quoteMark # r"] 1(2,4) u pos by (simp add: stringSoFar_def)
      then show ?thesis
        using ih [of s' "skipRune l" b decoded] rest' u k(1) pos 1(4,5) step by simp
    next
      case line
      then have rest: "restOf l = LF # escapeText cs @ quoteMark # r" using 1(2) Cons by simp
      let ?l = "lxNewline (Suc (lxPos l)) l"
      have "stringLoop a b decoded line col l = stringLoop a b decoded line col ?l"
        using restOf_Cons(1,2) [OF rest] by (simp add: stringLoop.simps [of a b decoded line col l] Let_def isHigh_def byteOf_def)
      moreover have "stringSoFar b decoded ?l = stringSoFar b decoded l @ [c]"
        using slice_extend [of b l "[c]"] rest line 1(4) by (simp add: stringSoFar_def)
      ultimately show ?thesis
        using ih [of cs ?l b decoded] restOf_Cons(4) [OF rest] Cons 1(4,5) by auto
    next
      case plain
      then have rest: "restOf l = c # escapeText cs @ quoteMark # r" using 1(2) Cons by simp
      let ?l = "lxRight (Suc (lxPos l)) l"
      have "c \<noteq> CR" using 1(3) Cons by auto
      then have "stringLoop a b decoded line col l = stringLoop a b decoded line col ?l"
        using restOf_Cons(1,2) [OF rest] plain by (simp add: stringLoop.simps [of a b decoded line col l] Let_def)
      moreover have "stringSoFar b decoded ?l = stringSoFar b decoded l @ [c]"
        using slice_extend [of b l "[c]"] rest 1(4) by (simp add: stringSoFar_def)
      ultimately show ?thesis
        using ih [of cs ?l b decoded] restOf_Cons(3) [OF rest] Cons 1(4,5) by auto
    qed
  qed
qed

text \<open>The dispatch finds the reader of each printed token.\<close>

lemma rawToken_start:
  assumes "restOf l = c # r" and "\<not> isHigh c"
  shows "lxPeek l = Some (runeOf c)"
  using restOf_Cons(1,2) [OF assms(1)] assms(2) by (simp add: lxPeek_def lexRune_def)

lemma advance_run:
  assumes "restOf l = c # r" and "\<not> isHigh c" and "c \<noteq> CR" and "c \<noteq> LF"
  shows "lxAdvance l = lxRight (Suc (lxPos l)) l"
  using restOf_Cons(1,2) [OF assms(1)] assms(2-4) byteOf_inject [of c CR] byteOf_inject [of c LF]
  by (simp add: lxAdvance_def lexRune_def byteOf_def)

lemma peekN_run:
  assumes "restOf l = c # d # r" and "\<not> isHigh c" and "\<not> isHigh d"
  shows "lxPeekN l 0 = runeOf c" and "lxPeekN l 1 = runeOf d"
proof -
  have behind: "restOf (lxRight (Suc (lxPos l)) l) = d # r" by (rule restOf_Cons(3) [OF assms(1)])
  show "lxPeekN l 0 = runeOf c"
    using restOf_Cons(1,2) [OF assms(1)] assms(2) by (simp add: lxPeekN_def lxPeekFrom.simps lexRune_def)
  have "byteAt (lxRight (Suc (lxPos l)) l) (Suc (lxPos l)) = byteAt l (Suc (lxPos l))" by (simp add: byteAt_def)
  then show "lxPeekN l 1 = runeOf d"
    using restOf_Cons(1,2) [OF assms(1)] restOf_Cons(1,2) [OF behind] assms(2,3)
    by (simp add: lxPeekN_def lxPeekFrom.simps [of l "lxPos l"] lxPeekFrom.simps [of l "Suc (lxPos l)"] lexRune_def)
qed

lemma operator_run:
  assumes "restOf l = c # d # r" and "c \<in> {CHR ''='', CHR ''<'', CHR ''>'', CHR ''!''}" and "\<not> isHigh d"
    and "d = CHR ''='' \<or> c \<noteq> CHR ''!''"
  shows "TkKind (fst (operatorToken line col l)) = TokenOperator"
    and "TkText (fst (operatorToken line col l)) = (if d = CHR ''='' then [c, d] else [c])"
    and "restOf (snd (operatorToken line col l)) = (if d = CHR ''='' then r else d # r)"
proof -
  have c: "\<not> isHigh c" "c \<noteq> CR" "c \<noteq> LF" and e: "\<not> isHigh (CHR ''='')"
    using assms(2) by (auto simp: isHigh_def byteOf_def)
  let ?l = "lxRight (Suc (lxPos l)) l"
  have rest: "restOf ?l = d # r" by (rule restOf_Cons(3) [OF assms(1)])
  have peek: "lxPeekN ?l 0 = runeOf d"
    using restOf_Cons(1,2) [OF rest] assms(3) by (simp add: lxPeekN_def lxPeekFrom.simps lexRune_def)
  have adv: "lxAdvance l = ?l" by (rule advance_run [OF assms(1) c])
  have adv2: "d = CHR ''='' \<Longrightarrow> restOf (lxAdvance ?l) = r"
    using advance_run [OF rest] restOf_Cons(3) [OF rest] assms(3) by simp
  note run = operatorToken_def rawToken_start [OF assms(1) c(1)] adv peek Let_def
  show "TkKind (fst (operatorToken line col l)) = TokenOperator"
    using assms(2,4) by (auto simp: run)
  show "TkText (fst (operatorToken line col l)) = (if d = CHR ''='' then [c, d] else [c])"
    using assms(2,4) by (auto simp: run)
  show "restOf (snd (operatorToken line col l)) = (if d = CHR ''='' then r else d # r)"
    using assms(2,4) adv2 rest by (auto simp: run)
qed

definition lexedAs :: "ScriptTokenKind \<times> bytes \<Rightarrow> bytes \<Rightarrow> ScriptToken \<times> Lexer \<Rightarrow> bool" where
  "lexedAs x r out \<longleftrightarrow> (TkKind (fst out), TkText (fst out)) = x \<and> restOf (snd out) = CHR '' '' # r"

lemma identByte_plain: "identByte c \<Longrightarrow> \<not> isHigh c \<and> c \<notin> {CHR '' '', CHR 0x09, LF, CR, CHR 0x0B, CHR 0x0C, CHR ''{'', CHR ''}'', CHR ''#'',
    quoteMark, CHR ''='', CHR ''<'', CHR ''>'', CHR ''!'', CHR ''?''}"
  by (simp add: identByte_def isASCIIIdentDelimiter_def)

lemma rawToken_ident:
  assumes "restOf l = t @ CHR '' '' # r" and "lexemeOk (TokenIdent, t)"
  shows "lexedAs (TokenIdent, t) r (rawToken line col l)"
proof -
  obtain c u where t: "t = c # u" using assms(2) by (cases t) auto
  then have c: "\<not> isHigh c" "c \<notin> {CHR ''{'', CHR ''}'', CHR ''#'', quoteMark, CHR ''='', CHR ''<'', CHR ''>'', CHR ''!'', CHR ''?''}"
    using assms(2) identByte_plain [of c] by simp_all
  have no_arith: "\<not> (c = CHR ''@'' \<and> lxPeekN l 1 = runeOf (CHR ''[''))"
  proof (cases u)
    case Nil
    then show ?thesis using peekN_run(2) [of l c "CHR '' ''" r] assms(1) t c(1) by (simp add: isHigh_def byteOf_def)
  next
    case (Cons d w)
    then have "\<not> isHigh d" using assms(2) t by (simp add: identByte_def)
    then have "lxPeekN l 1 = runeOf d" using peekN_run(2) [of l c d "w @ CHR '' '' # r"] assms(1) t Cons c(1) by simp
    then show ?thesis using assms(2) t Cons by auto
  qed
  have "rawToken line col l = identToken line col l"
    using rawToken_start [of l c "u @ CHR '' '' # r"] assms(1) t c no_arith
    by (auto simp: rawToken_def)
  then show ?thesis
    using identToken_run [OF assms(1)] assms(2) by (simp add: lexedAs_def)
qed

lemma rawToken_string:
  assumes "restOf l = quoteMark # escapeText t @ quoteMark # CHR '' '' # r" and "lexemeOk (TokenString, t)"
  shows "lexedAs (TokenString, t) r (rawToken line col l)"
proof -
  have h: "\<not> isHigh quoteMark" by (simp add: isHigh_def byteOf_def)
  let ?l = "lxRight (Suc (lxPos l)) l"
  have "rawToken line col l = stringToken line col l"
    using rawToken_start [OF assms(1) h] by (simp add: rawToken_def)
  also have "\<dots> = stringLoop (lxPos ?l) (lxPos ?l) None line col ?l" by (simp add: stringToken_def Let_def)
  finally have raw: "rawToken line col l = stringLoop (lxPos ?l) (lxPos ?l) None line col ?l" .
  have "stringDone (stringSoFar (lxPos ?l) None ?l @ t) (CHR '' '' # r) (stringLoop (lxPos ?l) (lxPos ?l) None line col ?l)"
    by (rule stringLoop_run) (use restOf_Cons(3) [OF assms(1)] assms(2) in simp_all)
  then show ?thesis by (simp add: raw stringDone_def lexedAs_def stringSoFar_def sourceString_def)
qed

lemma rawToken_punct:
  assumes "restOf l = t @ CHR '' '' # r" and "lexemeOk (kind, t)" and "kind \<in> {TokenLBrace, TokenRBrace, TokenOperator}"
  shows "lexedAs (kind, t) r (rawToken line col l)"
proof -
  have sp: "\<not> isHigh (CHR '' '')" "\<not> isHigh (CHR ''='')" "\<not> isHigh (CHR ''?'')" by (simp_all add: isHigh_def byteOf_def)
  consider (brace) c where "t = [c]" "(kind, c) = (TokenLBrace, CHR ''{'') \<or> (kind, c) = (TokenRBrace, CHR ''}'')"
    | (single) c where "kind = TokenOperator" "t = [c]" "c \<in> {CHR ''='', CHR ''<'', CHR ''>''}"
    | (double) c where "kind = TokenOperator" "t = [c, CHR ''='']" "c \<in> {CHR ''='', CHR ''<'', CHR ''>'', CHR ''!''}"
    | (query) "kind = TokenOperator" "t = ''?=''"
    using assms(2,3) by (auto simp: operators_def)
  then show ?thesis
  proof cases
    case brace
    then have rest: "restOf l = c # CHR '' '' # r" and c: "\<not> isHigh c" "c \<noteq> CR" "c \<noteq> LF"
      using assms(1) by (auto simp: isHigh_def byteOf_def)
    show ?thesis
      using rawToken_start [OF rest c(1)] advance_run [OF rest c] restOf_Cons(3) [OF rest] brace
      by (auto simp: rawToken_def lexedAs_def)
  next
    case single
    then have rest: "restOf l = c # CHR '' '' # r" and c: "\<not> isHigh c" using assms(1) by (auto simp: isHigh_def byteOf_def)
    have "rawToken line col l = operatorToken line col l"
      using rawToken_start [OF rest c] single by (auto simp: rawToken_def)
    then show ?thesis
      using operator_run [OF rest _ sp(1)] single by (auto simp: lexedAs_def)
  next
    case double
    then have rest: "restOf l = c # CHR ''='' # CHR '' '' # r" and c: "\<not> isHigh c"
      using assms(1) by (auto simp: isHigh_def byteOf_def)
    have "rawToken line col l = operatorToken line col l"
      using rawToken_start [OF rest c] double by (auto simp: rawToken_def)
    then show ?thesis
      using operator_run [OF rest _ sp(2)] double by (auto simp: lexedAs_def)
  next
    case query
    then have rest: "restOf l = CHR ''?'' # CHR ''='' # CHR '' '' # r" using assms(1) by simp
    have adv: "lxAdvance l = lxRight (Suc (lxPos l)) l" by (rule advance_run [OF rest sp(3)]) simp_all
    have rest2: "restOf (lxAdvance l) = CHR ''='' # CHR '' '' # r" using restOf_Cons(3) [OF rest] adv by simp
    have "restOf (lxAdvance (lxAdvance l)) = CHR '' '' # r"
      using advance_run [OF rest2 sp(2)] restOf_Cons(3) [OF rest2] by simp
    then show ?thesis
      using rawToken_start [OF rest sp(3)] peekN_run(2) [OF rest sp(3,2)] query
      by (simp add: rawToken_def lexedAs_def)
  qed
qed

lemma skipSpace_stop:
  assumes "restOf l = c # r" and "\<not> isHigh c" and "c \<notin> {CHR '' '', CHR 0x09, LF, CR, CHR 0x0B, CHR 0x0C}"
  shows "skipSpace l = l"
  using restOf_Cons(1,2) [OF assms(1)] assms(2,3) by (simp add: skipSpace.simps [of l] Let_def)

lemma skipSpace_space:
  assumes "restOf l = CHR '' '' # r"
  shows "skipSpace l = skipSpace (lxRight (Suc (lxPos l)) l)" and "restOf (lxRight (Suc (lxPos l)) l) = r"
  using restOf_Cons [OF assms] by (simp_all add: skipSpace.simps [of l] Let_def isHigh_def byteOf_def)

lemma showLexeme_head:
  assumes "lexemeOk x"
  obtains c u where "showLexeme x = c # u" and "\<not> isHigh c" and "c \<notin> {CHR '' '', CHR 0x09, LF, CR, CHR 0x0B, CHR 0x0C}"
proof -
  let ?plain = "\<lambda>c. \<not> isHigh c \<and> c \<notin> {CHR '' '', CHR 0x09, LF, CR, CHR 0x0B, CHR 0x0C}"
  have punct: "\<forall>t \<in> set ([''{'', ''}'', [quoteMark]] @ operators). t \<noteq> [] \<and> ?plain (hd t)" by (simp add: operators_def isHigh_def byteOf_def)
  obtain kind t where x: "x = (kind, t)" by (cases x)
  have "showLexeme x \<noteq> [] \<and> ?plain (hd (showLexeme x))"
  proof (cases "kind = TokenIdent")
    case True
    then show ?thesis using assms x identByte_plain [of "hd t"] by (cases t) simp_all
  next
    case False
    then consider "showLexeme x \<in> set ([''{'', ''}'', [quoteMark]] @ operators)"
      | "hd (showLexeme x) = quoteMark" "showLexeme x \<noteq> []"
      using assms x by (cases kind) simp_all
    then show ?thesis
    proof cases
      case 1
      show ?thesis by (rule bspec [OF punct 1])
    next
      case 2
      then show ?thesis by (simp add: isHigh_def byteOf_def)
    qed
  qed
  then show thesis using that by (cases "showLexeme x") simp_all
qed

lemma lexNext_run:
  assumes "restOf l = sp @ showLexeme x @ CHR '' '' # r" and "sp \<in> {[], '' ''}" and "lexemeOk x"
  shows "lexedAs x r (lexNext l)"
proof -
  obtain c u where c: "showLexeme x = c # u" "\<not> isHigh c" "c \<notin> {CHR '' '', CHR 0x09, LF, CR, CHR 0x0B, CHR 0x0C}"
    by (rule showLexeme_head [OF assms(3)])
  have rest: "restOf (skipSpace l) = showLexeme x @ CHR '' '' # r"
  proof (cases "sp = []")
    case True
    then show ?thesis using skipSpace_stop [of l c] assms(1) c by simp
  next
    case False
    then have sp: "restOf l = CHR '' '' # showLexeme x @ CHR '' '' # r" using assms(1,2) by simp
    then show ?thesis
      using skipSpace_space [OF sp] skipSpace_stop [of "lxRight (Suc (lxPos l)) l" c] c by simp
  qed
  have "lexedAs x r (rawToken line col (skipSpace l))" for line col
  proof (cases x)
    case (Pair kind t)
    show ?thesis
    proof (cases kind)
      case TokenIdent
      then show ?thesis using rawToken_ident [of "skipSpace l" t r] rest assms(3) Pair by simp
    next
      case TokenString
      then show ?thesis using rawToken_string [of "skipSpace l" t r] rest assms(3) Pair by simp
    qed (use rawToken_punct [of "skipSpace l" t r kind] rest assms(3) Pair in simp_all)
  qed
  then show ?thesis by (simp add: lexNext_def Let_def split_beta lexedAs_def)
qed

lemma lexNext_end:
  assumes "restOf l \<in> {[], '' ''}"
  shows "TkKind (fst (lexNext l)) = TokenEOF" and "TkText (fst (lexNext l)) = []"
proof -
  have "sourceLen (skipSpace l) \<le> lxPos (skipSpace l)"
  proof (cases "restOf l = []")
    case True
    then have "skipSpace l = l" by (simp add: restOf_Nil skipSpace.simps [of l])
    then show ?thesis using True by (simp add: restOf_Nil)
  next
    case False
    then have sp: "restOf l = CHR '' '' # []" using assms by simp
    have "skipSpace (lxRight (Suc (lxPos l)) l) = lxRight (Suc (lxPos l)) l"
      using skipSpace_space(2) [OF sp] by (simp add: restOf_Nil skipSpace.simps [of "lxRight (Suc (lxPos l)) l"])
    then show ?thesis using skipSpace_space [OF sp] by (simp add: restOf_Nil)
  qed
  then show "TkKind (fst (lexNext l)) = TokenEOF" "TkText (fst (lexNext l)) = []"
    by (simp_all add: lexNext_def rawToken_def lxPeek_def Let_def)
qed

definition tokenLexeme :: "ScriptToken \<Rightarrow> ScriptTokenKind \<times> bytes" where
  "tokenLexeme t = (TkKind t, TkText t)"

lemma lexemeOk_kind: "lexemeOk (kind, t) \<Longrightarrow> kind \<noteq> TokenEOF \<and> kind \<noteq> TokenComment"
  by (cases kind) simp_all

lemma lexAll_render:
  assumes "restOf l = sp @ renderTokens ts" and "sp \<in> {[], '' ''}" and "list_all lexemeOk ts"
  shows "map tokenLexeme (lexAll l) = ts @ [(TokenEOF, [])]"
  using assms
proof (induction ts arbitrary: l sp)
  case Nil
  then have "restOf l \<in> {[], '' ''}" by (simp add: renderTokens_def)
  then show ?case using lexNext_end by (simp add: lexAll.simps [of l] Let_def tokenLexeme_def)
next
  case (Cons x ts)
  have "restOf l = sp @ showLexeme x @ CHR '' '' # renderTokens ts"
    using Cons.prems(1) by (simp add: renderTokens_def)
  from lexNext_run [OF this Cons.prems(2)] Cons.prems(3)
  have run: "lexedAs x (renderTokens ts) (lexNext l)" by simp
  have kind: "TkKind (fst (lexNext l)) \<noteq> TokenEOF \<and> TkKind (fst (lexNext l)) \<noteq> TokenComment"
    using run Cons.prems(3) lexemeOk_kind [of "fst x" "snd x"] by (auto simp: lexedAs_def)
  have "map tokenLexeme (lexAll (snd (lexNext l))) = ts @ [(TokenEOF, [])]"
    using Cons.IH [of "snd (lexNext l)" "'' ''"] run Cons.prems(3) by (simp add: lexedAs_def)
  moreover have "tokenLexeme (fst (lexNext l)) = x" using run by (simp add: lexedAs_def tokenLexeme_def)
  ultimately show ?case
    using kind by (simp add: lexAll.simps [of l] Let_def)
qed

lemma restOf_new:
  "take 3 text \<noteq> [CHR 0xEF, CHR 0xBB, CHR 0xBF] \<Longrightarrow> restOf (newLexer b text) = text"
proof -
  assume a: "take 3 text \<noteq> [CHR 0xEF, CHR 0xBB, CHR 0xBF]"
  have "take 3 text = [text ! 0, text ! 1, text ! 2]" if "3 \<le> length text"
    using that by (intro nth_equalityI) (auto simp: less_Suc_eq numeral_2_eq_2 numeral_3_eq_3)
  then have "\<not> (3 \<le> length text \<and> text ! 0 = CHR 0xEF \<and> text ! 1 = CHR 0xBB \<and> text ! 2 = CHR 0xBF)"
    using a by auto
  then show ?thesis
    by (auto simp: newLexer_def skipBOM_def restOf_def sourceLen_def byteAt_def)
qed

lemma render_no_BOM:
  assumes "list_all lexemeOk ts"
  shows "take 3 (renderTokens ts) \<noteq> [CHR 0xEF, CHR 0xBB, CHR 0xBF]"
proof (cases ts)
  case (Cons x xs)
  then have "lexemeOk x" using assms by simp
  then obtain c u where "showLexeme x = c # u" "\<not> isHigh c" by (rule showLexeme_head)
  then show ?thesis using Cons by (auto simp: renderTokens_def isHigh_def byteOf_def)
qed (simp add: renderTokens_def)

text \<open>C27. Printed tokens lex back to themselves: any sequence of identifiers, strings (quotes and
  backslashes escaped, any other bytes except carriage returns as they are), braces and operators,
  written with a space behind each, is the token list of what it prints.\<close>

theorem lex_render:
  assumes "list_all lexemeOk ts"
  shows "map tokenLexeme (Lex (renderTokens ts)) = ts @ [(TokenEOF, [])]"
  unfolding Lex_def newStringLexer_def
  by (rule lexAll_render [of _ "[]"]) (simp_all add: assms restOf_new render_no_BOM)

definition sampleLexemes :: "(ScriptTokenKind \<times> bytes) list" where
  "sampleLexemes = [(TokenIdent, ''limit''), (TokenOperator, ''=''), (TokenLBrace, ''{''), (TokenIdent, ''age''),
     (TokenOperator, ''>=''), (TokenIdent, ''16''), (TokenString, [CHR ''a'', quoteMark, backslash, CHR 0xC3, CHR 0xA9]),
     (TokenRBrace, ''}'')]"

theorem lex_render_witness:
  "map tokenLexeme (Lex (renderTokens sampleLexemes)) = sampleLexemes @ [(TokenEOF, [])]
    \<and> renderTokens sampleLexemes = ''limit = { age >= 16 '' @ [quoteMark, CHR ''a'', backslash, quoteMark, backslash, backslash,
        CHR 0xC3, CHR 0xA9, quoteMark] @ '' } ''"
proof
  have "list_all lexemeOk sampleLexemes"
    by (simp add: sampleLexemes_def operators_def identByte_def isASCIIIdentDelimiter_def isHigh_def byteOf_def)
  then show "map tokenLexeme (Lex (renderTokens sampleLexemes)) = sampleLexemes @ [(TokenEOF, [])]" by (rule lex_render)
  show "renderTokens sampleLexemes = ''limit = { age >= 16 '' @ [quoteMark, CHR ''a'', backslash, quoteMark, backslash, backslash,
        CHR 0xC3, CHR 0xA9, quoteMark] @ '' } ''"
    by (simp add: sampleLexemes_def renderTokens_def)
qed

end
