(* ===== verification/ScriptArena.thy ===== *)
theory ScriptArena
  imports ScriptLexer
begin

text \<open>
  The nodes of a parse (\<^verbatim>\<open>internal/script/parser.go\<close>): \<^verbatim>\<open>allocNode\<close>, \<^verbatim>\<open>nodeAt\<close> and the chunks they keep
  nodes in. A pointer to a node is its chunk and its place in it. What the parser relies on is the
  interface \<open>node_store\<close>: a sequence of nodes that grows at its end and whose nodes can be read and
  changed by position; the chunked arena is shown to provide it. A node's children are not stored
  here, because the parser links them only after the parse.
\<close>

section \<open>The interface\<close>

locale node_store =
  fixes ok :: "'a \<Rightarrow> bool"
    and items :: "'a \<Rightarrow> 'n list"
    and push :: "'n \<Rightarrow> 'a \<Rightarrow> 'a"
    and look :: "nat \<Rightarrow> 'a \<Rightarrow> 'n option"
    and change :: "nat \<Rightarrow> ('n \<Rightarrow> 'n) \<Rightarrow> 'a \<Rightarrow> 'a"
  assumes push_ok: "ok a \<Longrightarrow> ok (push n a)"
    and items_push: "ok a \<Longrightarrow> items (push n a) = items a @ [n]"
    and look_items: "ok a \<Longrightarrow> i < length (items a) \<Longrightarrow> look i a = Some (items a ! i)"
    and change_ok: "ok a \<Longrightarrow> i < length (items a) \<Longrightarrow> ok (change i f a)"
    and items_change: "ok a \<Longrightarrow> i < length (items a) \<Longrightarrow> items (change i f a) = (items a)[i := f (items a ! i)]"
begin

lemma length_push: "ok a \<Longrightarrow> length (items (push n a)) = Suc (length (items a))"
  by (simp add: items_push)

lemma look_pushed: "ok a \<Longrightarrow> look (length (items a)) (push n a) = Some n"
  by (simp add: look_items push_ok items_push)

lemma look_push_old: "ok a \<Longrightarrow> i < length (items a) \<Longrightarrow> look i (push n a) = look i a"
  by (simp add: look_items push_ok items_push nth_append)

lemma length_change: "ok a \<Longrightarrow> i < length (items a) \<Longrightarrow> length (items (change i f a)) = length (items a)"
  by (simp add: items_change)

lemma look_changed:
  "ok a \<Longrightarrow> i < length (items a) \<Longrightarrow> j < length (items a)
     \<Longrightarrow> look j (change i f a) = (if i = j then map_option f (look j a) else look j a)"
  by (simp add: look_items change_ok items_change)

lemma fold_push:
  "ok a \<Longrightarrow> ok (fold push ns a) \<and> items (fold push ns a) = items a @ ns"
  by (induction ns arbitrary: a) (simp_all add: push_ok items_push)

end

section \<open>Nodes in chunks\<close>

record ScriptNode =
  NdID :: nat
  NdParent :: nat
  NdDepth :: nat
  NdKey :: bytes
  NdOperator :: bytes
  NdValue :: bytes
  NdKind :: bytes
  NdLine :: int
  NdCol :: int
  NdEndLine :: int
  NdEndCol :: int

definition blankNode :: ScriptNode where
  "blankNode = \<lparr>NdID = 0, NdParent = 0, NdDepth = 0, NdKey = [], NdOperator = [], NdValue = [], NdKind = [],
     NdLine = 0, NdCol = 0, NdEndLine = 0, NdEndCol = 0\<rparr>"

definition maxParserNodeChunk :: nat where
  "maxParserNodeChunk = 1024"

record nodeArena =
  arChunks :: "ScriptNode list list"
  arChunkSize :: nat
  arPos :: nat

definition parserNodeChunkSize :: "nat \<Rightarrow> nat" where
  "parserNodeChunkSize sourceBytes =
     (let size = sourceBytes div 64 in
      if size < 16 then 16 else if size > maxParserNodeChunk then maxParserNodeChunk else size)"

definition newArena :: "nat \<Rightarrow> nodeArena" where
  "newArena sourceBytes = \<lparr>arChunks = [], arChunkSize = parserNodeChunkSize sourceBytes, arPos = 0\<rparr>"

text \<open>\<^verbatim>\<open>p.nodeChunk\<close>: the chunk allocated last.\<close>

definition nodeChunk :: "nodeArena \<Rightarrow> ScriptNode list" where
  "nodeChunk a = (if arChunks a = [] then [] else last (arChunks a))"

definition allocNode :: "nodeArena \<Rightarrow> (nat \<times> nat) \<times> nodeArena" where
  "allocNode a =
     (let a1 = (if arPos a = length (nodeChunk a)
                then a\<lparr>arChunks := arChunks a @ [replicate (arChunkSize a) blankNode], arPos := 0\<rparr> else a)
      in ((length (arChunks a1) - 1, arPos a1), a1\<lparr>arPos := arPos a1 + 1\<rparr>))"

definition writeNode :: "nat \<times> nat \<Rightarrow> ScriptNode \<Rightarrow> nodeArena \<Rightarrow> nodeArena" where
  "writeNode ptr n a =
     a\<lparr>arChunks := (arChunks a)[fst ptr := (arChunks a ! fst ptr)[snd ptr := n]]\<rparr>"

text \<open>\<^verbatim>\<open>nodeAt\<close> by index, which is the id less one; \<open>None\<close> is an index out of range.\<close>

definition nodePtr :: "nat \<Rightarrow> nodeArena \<Rightarrow> nat \<times> nat" where
  "nodePtr index a = (index div arChunkSize a, index mod arChunkSize a)"

definition nodeAt :: "nat \<Rightarrow> nodeArena \<Rightarrow> ScriptNode option" where
  "nodeAt index a =
     (let (i, j) = nodePtr index a in
      if i < length (arChunks a) \<and> j < length (arChunks a ! i) then Some (arChunks a ! i ! j) else None)"

definition newNode :: "ScriptNode \<Rightarrow> nodeArena \<Rightarrow> nodeArena" where
  "newNode n a = (let (ptr, a1) = allocNode a in writeNode ptr n a1)"

definition changeNode :: "nat \<Rightarrow> (ScriptNode \<Rightarrow> ScriptNode) \<Rightarrow> nodeArena \<Rightarrow> nodeArena" where
  "changeNode index f a =
     (case nodeAt index a of None \<Rightarrow> a | Some n \<Rightarrow> writeNode (nodePtr index a) (f n) a)"

section \<open>The chunks are one sequence\<close>

definition arenaOk :: "nodeArena \<Rightarrow> bool" where
  "arenaOk a \<longleftrightarrow>
     0 < arChunkSize a \<and> (\<forall>c \<in> set (arChunks a). length c = arChunkSize a)
     \<and> (if arChunks a = [] then arPos a = 0 else arPos a \<le> arChunkSize a)"

definition arenaCount :: "nodeArena \<Rightarrow> nat" where
  "arenaCount a = (length (arChunks a) - 1) * arChunkSize a + arPos a"

definition arenaNodes :: "nodeArena \<Rightarrow> ScriptNode list" where
  "arenaNodes a = take (arenaCount a) (concat (arChunks a))"

lemma concat_nth_chunks:
  assumes "0 < k" and "\<forall>c \<in> set cs. length c = k" and "i < length cs * k"
  shows "concat cs ! i = cs ! (i div k) ! (i mod k)"
  using assms(2,3)
proof (induction cs arbitrary: i)
  case (Cons c cs)
  show ?case
  proof (cases "i < k")
    case True
    then show ?thesis using Cons.prems by (simp add: nth_append)
  next
    case False
    then have "concat (c # cs) ! i = concat cs ! (i - k)" using Cons.prems by (simp add: nth_append)
    moreover have "concat cs ! (i - k) = cs ! ((i - k) div k) ! ((i - k) mod k)"
      using Cons.prems False by (intro Cons.IH) simp_all
    moreover have "(i - k) div k = i div k - 1" "(i - k) mod k = i mod k"
      using False assms(1) by (simp_all add: le_div_geq le_mod_geq not_less)
    moreover have "i div k \<noteq> 0" using False assms(1) by (simp add: div_eq_0_iff)
    ultimately show ?thesis by (simp add: nth_Cons')
  qed
qed simp

lemma length_concat_chunks: "\<forall>c \<in> set cs. length c = k \<Longrightarrow> length (concat cs) = length cs * k"
  by (induction cs) simp_all

lemma concat_update_chunk:
  assumes "0 < k" and "\<forall>c \<in> set cs. length c = k" and "i < length cs * k"
  shows "concat (cs[i div k := (cs ! (i div k))[i mod k := n]]) = (concat cs)[i := n]"
proof (rule nth_equalityI)
  let ?cs = "cs[i div k := (cs ! (i div k))[i mod k := n]]"
  have i: "i div k < length cs" using assms by (simp add: less_mult_imp_div_less)
  have all: "\<forall>c \<in> set ?cs. length c = k"
    using assms(2) i by (auto dest!: set_update_subset_insert [THEN subsetD])
  show "length (concat ?cs) = length ((concat cs)[i := n])"
    using length_concat_chunks [OF all] length_concat_chunks [OF assms(2)] by simp
  fix j
  assume "j < length (concat ?cs)"
  then have j: "j < length cs * k" using length_concat_chunks [OF all] by simp
  then have jd: "j div k < length cs" by (simp add: less_mult_imp_div_less)
  have jm: "j mod k < length (cs ! (j div k))" using assms(1,2) jd by simp
  have "concat ?cs ! j = ?cs ! (j div k) ! (j mod k)"
    using concat_nth_chunks [OF assms(1) all] j by simp
  also have "\<dots> = (if j = i then n else cs ! (j div k) ! (j mod k))"
  proof (cases "j = i")
    case True
    then show ?thesis using jd jm by simp
  next
    case False
    then consider "i div k \<noteq> j div k" | "i div k = j div k" "i mod k \<noteq> j mod k" by (metis div_mult_mod_eq)
    then show ?thesis using False jd by cases simp_all
  qed
  also have "\<dots> = (concat cs)[i := n] ! j"
    using concat_nth_chunks [OF assms(1,2) j] j assms(3) length_concat_chunks [OF assms(2)]
    by (simp add: nth_list_update)
  finally show "concat ?cs ! j = (concat cs)[i := n] ! j" .
qed

lemma arenaOk_room:
  assumes "arenaOk a"
  shows "arenaCount a \<le> length (arChunks a) * arChunkSize a"
proof (cases "arChunks a = []")
  case False
  then obtain k where "length (arChunks a) = Suc k" by (cases "arChunks a") simp_all
  then show ?thesis using assms False by (simp add: arenaOk_def arenaCount_def)
qed (use assms in \<open>simp add: arenaOk_def arenaCount_def\<close>)

lemma length_arenaNodes:
  assumes "arenaOk a"
  shows "length (arenaNodes a) = arenaCount a"
  using arenaOk_room [OF assms] length_concat_chunks [of "arChunks a" "arChunkSize a"] assms
  by (simp add: arenaNodes_def arenaOk_def min_def)

lemma allocNode_fresh:
  assumes "arenaOk a" and "allocNode a = (ptr, a1)"
  shows "arenaOk a1" and "arenaCount a1 = Suc (arenaCount a)" and "ptr = nodePtr (arenaCount a) a1"
    and "concat (arChunks a1) = concat (arChunks a) \<or> (arenaCount a = length (concat (arChunks a))
      \<and> concat (arChunks a1) = concat (arChunks a) @ replicate (arChunkSize a) blankNode)"
    and "arenaCount a < length (arChunks a1) * arChunkSize a1"
proof -
  let ?k = "arChunkSize a"
  have k: "0 < ?k" and all: "\<forall>c \<in> set (arChunks a). length c = ?k" using assms(1) by (simp_all add: arenaOk_def)
  show "arenaOk a1" and "arenaCount a1 = Suc (arenaCount a)" and "ptr = nodePtr (arenaCount a) a1"
    and "concat (arChunks a1) = concat (arChunks a) \<or> (arenaCount a = length (concat (arChunks a))
      \<and> concat (arChunks a1) = concat (arChunks a) @ replicate ?k blankNode)"
    and "arenaCount a < length (arChunks a1) * arChunkSize a1"
    using assms k all length_concat_chunks [OF all]
    by (cases "arChunks a" rule: rev_cases; simp add: allocNode_def arenaOk_def arenaCount_def nodePtr_def nodeChunk_def
        Let_def split: if_splits; auto)+
qed

lemma writeNode_items:
  assumes "arenaOk a" and "i < length (arChunks a) * arChunkSize a"
  shows "arenaOk (writeNode (nodePtr i a) n a)" and "arenaCount (writeNode (nodePtr i a) n a) = arenaCount a"
    and "concat (arChunks (writeNode (nodePtr i a) n a)) = (concat (arChunks a))[i := n]"
proof -
  have k: "0 < arChunkSize a" "\<forall>c \<in> set (arChunks a). length c = arChunkSize a" using assms(1) by (simp_all add: arenaOk_def)
  have i: "i div arChunkSize a < length (arChunks a)" using assms by (simp add: less_mult_imp_div_less)
  show "arenaCount (writeNode (nodePtr i a) n a) = arenaCount a"
    by (simp add: writeNode_def arenaCount_def)
  show "concat (arChunks (writeNode (nodePtr i a) n a)) = (concat (arChunks a))[i := n]"
    using concat_update_chunk [OF k assms(2)] by (simp add: writeNode_def nodePtr_def)
  show "arenaOk (writeNode (nodePtr i a) n a)"
    using assms(1) k(2) i by (auto simp: arenaOk_def writeNode_def nodePtr_def dest!: set_update_subset_insert [THEN subsetD])
qed

lemma newNode_ok:
  assumes "arenaOk a"
  shows "arenaOk (newNode n a)" and "arenaNodes (newNode n a) = arenaNodes a @ [n]"
proof -
  obtain ptr a1 where alloc: "allocNode a = (ptr, a1)" by (cases "allocNode a")
  note fresh = allocNode_fresh [OF assms alloc]
  let ?c = "arenaCount a"
  note written = writeNode_items [OF fresh(1,5), of n, folded fresh(3)]
  show "arenaOk (newNode n a)" using written(1) by (simp add: newNode_def alloc)
  have len: "?c < length (concat (arChunks a1))"
    using fresh(1,5) length_concat_chunks [of "arChunks a1" "arChunkSize a1"] by (simp add: arenaOk_def)
  have old: "take ?c (concat (arChunks a1)) = arenaNodes a"
    using fresh(4) by (auto simp: arenaNodes_def)
  have "arenaNodes (newNode n a) = take (Suc ?c) ((concat (arChunks a1))[?c := n])"
    using written(2,3) fresh(2) by (simp add: arenaNodes_def newNode_def alloc)
  also have "\<dots> = take ?c (concat (arChunks a1)) @ [n]" using len by (simp add: take_Suc_conv_app_nth take_update_cancel)
  finally show "arenaNodes (newNode n a) = arenaNodes a @ [n]" by (simp only: old)
qed

lemma nodeAt_items:
  assumes "arenaOk a" and "i < length (arenaNodes a)"
  shows "nodeAt i a = Some (arenaNodes a ! i)" and "i < length (arChunks a) * arChunkSize a"
proof -
  have i: "i < arenaCount a" using assms length_arenaNodes by simp
  then show room: "i < length (arChunks a) * arChunkSize a" using arenaOk_room [OF assms(1)] by linarith
  have k: "0 < arChunkSize a" "\<forall>c \<in> set (arChunks a). length c = arChunkSize a" using assms(1) by (simp_all add: arenaOk_def)
  have d: "i div arChunkSize a < length (arChunks a)" using room by (simp add: less_mult_imp_div_less)
  then have "i mod arChunkSize a < length (arChunks a ! (i div arChunkSize a))" using k by simp
  then show "nodeAt i a = Some (arenaNodes a ! i)"
    using concat_nth_chunks [OF k room] d i by (simp add: nodeAt_def nodePtr_def arenaNodes_def)
qed

lemma changeNode_ok:
  assumes "arenaOk a" and "i < length (arenaNodes a)"
  shows "arenaOk (changeNode i f a)" and "arenaNodes (changeNode i f a) = (arenaNodes a)[i := f (arenaNodes a ! i)]"
proof -
  note at = nodeAt_items [OF assms]
  note written = writeNode_items [OF assms(1) at(2)]
  show "arenaOk (changeNode i f a)" using written(1) at(1) by (simp add: changeNode_def)
  show "arenaNodes (changeNode i f a) = (arenaNodes a)[i := f (arenaNodes a ! i)]"
    using written(2,3) at(1) by (simp add: changeNode_def arenaNodes_def take_update_swap)
qed

interpretation arena: node_store arenaOk arenaNodes newNode nodeAt changeNode
  by unfold_locales (simp_all add: newNode_ok nodeAt_items changeNode_ok)

lemma newArena_ok: "arenaOk (newArena n)" "arenaNodes (newArena n) = []"
  by (simp_all add: arenaOk_def newArena_def parserNodeChunkSize_def maxParserNodeChunk_def Let_def arenaNodes_def)

text \<open>The chunked nodes are one sequence: nodes pushed one after the other into a fresh arena are found
  under their positions, so under their ids less one, however many chunks they fill.\<close>

theorem arena_positions:
  assumes "i < length ns"
  shows "nodeAt i (fold newNode ns (newArena sourceBytes)) = Some (ns ! i)"
  using arena.fold_push [OF newArena_ok(1), of ns sourceBytes] assms
  by (simp add: arena.look_items newArena_ok(2))

theorem arena_positions_witness:
  "nodeAt 18 (fold newNode (map (\<lambda>k. blankNode\<lparr>NdID := Suc k\<rparr>) [0 ..< 20]) (newArena 100)) = Some (blankNode\<lparr>NdID := 19\<rparr>)"
proof -
  have "(18 :: nat) < length (map (\<lambda>k. blankNode\<lparr>NdID := Suc k\<rparr>) [0 ..< 20])" by simp
  from arena_positions [OF this, of 100] show ?thesis by simp
qed

end
