(* ===== verification/ScriptParser.thy ===== *)
theory ScriptParser
  imports ScriptArena
begin

text \<open>
  \<^verbatim>\<open>internal/script/parser.go\<close>: the parser of script and GUI files. Its state is the lexer, a ring of at
  most four tokens read ahead, the arena of nodes, the errors and two flags. A pointer to a node is
  its id. A call either returns or panics with an index out of range (\<open>failM\<close>). \<^verbatim>\<open>parseBlock\<close> and the
  statements it reads call each other one level deeper, so they are written with the deeper
  \<^verbatim>\<open>parseBlock\<close> as an argument; the recursion is over the levels that the depth limit leaves.
\<close>

section \<open>State\<close>

definition parserLookahead :: nat where
  "parserLookahead = 4"

definition MaxDepth_script :: nat where
  "MaxDepth_script = 256"

definition MaxNodes_script :: int where
  "MaxNodes_script = 500000"

record parser =
  psLexer :: Lexer
  psLookahead :: "ScriptToken list"
  psHead :: nat
  psBuffered :: nat
  psArena :: nodeArena
  psNextID :: nat
  psErrors :: "ParseError list"
  psGui :: bool
  psLimited :: bool

type_synonym 'a parse_m = "(parser, bytes, 'a) sm"

definition zeroToken :: ScriptToken where
  "zeroToken = scriptToken TokenEOF [] 0 0"

definition newParser :: "Lexer \<Rightarrow> bool \<Rightarrow> parser" where
  "newParser l gui =
     \<lparr>psLexer = l, psLookahead = replicate parserLookahead zeroToken, psHead = 0, psBuffered = 0,
      psArena = newArena (sourceLen l), psNextID = 1, psErrors = [], psGui = gui, psLimited = False\<rparr>"

section \<open>Reading ahead\<close>

function nextSignificant :: "Lexer \<Rightarrow> ScriptToken \<times> Lexer" where
  "nextSignificant l =
     (if TkKind (fst (lexNext l)) = TokenComment then nextSignificant (snd (lexNext l)) else lexNext l)"
  by pat_completeness auto
termination
  by (relation "measure (\<lambda>l. sourceLen l - lxPos l)") (simp_all add: lexNext_less)

declare nextSignificant.simps [simp del]

function fillLookahead :: "nat \<Rightarrow> parser \<Rightarrow> parser" where
  "fillLookahead offset p =
     (if psBuffered p \<le> offset then
        let (tok, l) = nextSignificant (psLexer p);
            index = (psHead p + psBuffered p) mod parserLookahead
        in fillLookahead offset (p\<lparr>psLexer := l, psLookahead := (psLookahead p)[index := tok], psBuffered := psBuffered p + 1\<rparr>)
      else p)"
  by pat_completeness auto
termination
  by (relation "measure (\<lambda>(offset, p). Suc offset - psBuffered p)") auto

declare fillLookahead.simps [simp del]

definition peekAt :: "nat \<Rightarrow> parser \<Rightarrow> ScriptToken \<times> parser" where
  "peekAt offset p =
     (if parserLookahead \<le> offset then (zeroToken, p)
      else
        let p' = fillLookahead offset p
        in (psLookahead p' ! ((psHead p' + offset) mod parserLookahead), p'))"

definition advanceToken :: "parser \<Rightarrow> ScriptToken \<times> parser" where
  "advanceToken p =
     (let (t, p') = peekAt 0 p in
      if psBuffered p' > 0
      then (t, p'\<lparr>psLookahead := (psLookahead p')[psHead p' := zeroToken],
                  psHead := (psHead p' + 1) mod parserLookahead, psBuffered := psBuffered p' - 1\<rparr>)
      else (t, p'))"

definition peekAtM :: "nat \<Rightarrow> ScriptToken parse_m" where
  "peekAtM offset p = (let (t, p') = peekAt offset p in Some (Inr t, p'))"

definition peekM :: "ScriptToken parse_m" where
  "peekM = peekAtM 0"

definition advanceM :: "ScriptToken parse_m" where
  "advanceM p = (let (t, p') = advanceToken p in Some (Inr t, p'))"

section \<open>Errors and nodes\<close>

definition recordError :: "bytes \<Rightarrow> int \<Rightarrow> int \<Rightarrow> parser \<Rightarrow> parser" where
  "recordError msg line col p =
     (if 1000 \<le> int (length (psErrors p)) then p\<lparr>psLimited := True\<rparr>
      else p\<lparr>psErrors := psErrors p @ [\<lparr>PeMessage = msg, PeLine = line, PeCol = col\<rparr>]\<rparr>)"

definition errM :: "bytes \<Rightarrow> ScriptToken \<Rightarrow> unit parse_m" where
  "errM msg tok = modifyM (recordError msg (TkLine tok) (TkCol tok))"

definition withinLimits :: "ScriptToken \<Rightarrow> nat \<Rightarrow> bool parse_m" where
  "withinLimits tok depth p =
     (if depth < MaxDepth_script \<and> int (psNextID p) \<le> MaxNodes_script then Some (Inr True, p)
      else
        let p1 = recordError ''script exceeds parser depth or node limit'' (TkLine tok) (TkCol tok) p
        in Some (Inr False, p1\<lparr>psLimited := True, psLexer := (psLexer p1)\<lparr>lxPos := sourceLen (psLexer p1)\<rparr>,
             psBuffered := 0\<rparr>))"

text \<open>\<^verbatim>\<open>n := p.allocNode(); *n = Node{ID: p.nextID, ...}; p.nextID++\<close>\<close>

definition addNode :: "ScriptNode \<Rightarrow> nat parse_m" where
  "addNode n p =
     Some (Inr (psNextID p), p\<lparr>psArena := newNode (n\<lparr>NdID := psNextID p\<rparr>) (psArena p), psNextID := psNextID p + 1\<rparr>)"

definition readNode :: "nat \<Rightarrow> ScriptNode parse_m" where
  "readNode ref p =
     (case (if ref = 0 then None else nodeAt (ref - 1) (psArena p)) of
        None \<Rightarrow> Some (Inl ''index out of range'', p)
      | Some n \<Rightarrow> Some (Inr n, p))"

definition setNode :: "nat \<Rightarrow> (ScriptNode \<Rightarrow> ScriptNode) \<Rightarrow> unit parse_m" where
  "setNode ref f = modifyM (\<lambda>p. p\<lparr>psArena := changeNode (ref - 1) f (psArena p)\<rparr>)"

definition startNode :: "nat \<Rightarrow> nat \<Rightarrow> bytes \<Rightarrow> bytes \<Rightarrow> bytes \<Rightarrow> bytes \<Rightarrow> ScriptToken \<Rightarrow> ScriptNode" where
  "startNode parent depth key operator val kind tok =
     blankNode\<lparr>NdParent := parent, NdDepth := depth, NdKey := key, NdOperator := operator, NdValue := val,
       NdKind := kind, NdLine := TkLine tok, NdCol := TkCol tok\<rparr>"

definition setEnd :: "nat \<Rightarrow> int \<Rightarrow> int \<Rightarrow> unit parse_m" where
  "setEnd ref line col = setNode ref (\<lambda>n. n\<lparr>NdEndLine := line, NdEndCol := col\<rparr>)"

definition setKind :: "nat \<Rightarrow> bytes \<Rightarrow> unit parse_m" where
  "setKind ref kind = setNode ref (\<lambda>n. n\<lparr>NdKind := kind\<rparr>)"

definition runeLen :: "bytes \<Rightarrow> int" where
  "runeLen text = int (runeCount text)"

text \<open>\<^verbatim>\<open>n.EndLine, n.EndCol = lastChild.EndLine, lastChild.EndCol\<close>\<close>

definition endAtChild :: "nat \<Rightarrow> nat \<Rightarrow> unit parse_m" where
  "endAtChild ref child = bindM (readNode child) (\<lambda>c. setEnd ref (NdEndLine c) (NdEndCol c))"

text \<open>The result of \<^verbatim>\<open>parseBlock\<close>: the closing token, whether there was one, and the last node read.\<close>

type_synonym blockEnd = "ScriptToken \<times> bool \<times> nat option"

definition setBlockEnd :: "nat \<Rightarrow> blockEnd \<Rightarrow> unit parse_m" where
  "setBlockEnd ref = (\<lambda>(close, closed, lastChild).
     if closed then setEnd ref (TkLine close) (TkCol close + 1)
     else case lastChild of
         Some c \<Rightarrow> endAtChild ref c
       | None \<Rightarrow> bindM (readNode ref) (\<lambda>n. setEnd ref (NdLine n) (NdCol n + runeLen (NdKey n))))"

definition isValueTag :: "bytes \<Rightarrow> bool" where
  "isValueTag v \<longleftrightarrow> v \<in> {''rgb'', ''hsv'', ''hsv360''}"

section \<open>Blocks and statements\<close>

definition anonymousBlock :: "(nat \<Rightarrow> blockEnd parse_m) \<Rightarrow> nat \<Rightarrow> nat \<Rightarrow> nat parse_m" where
  "anonymousBlock nested parent depth =
     bindM advanceM (\<lambda>start.
     bindM (addNode (startNode parent depth [] [] [] ''block'' start)) (\<lambda>ref.
     bindM (nested ref) (\<lambda>(close, closed, lastChild).
     bindM (if closed then setEnd ref (TkLine close) (TkCol close + 1)
            else case lastChild of
                Some c \<Rightarrow> endAtChild ref c
              | None \<Rightarrow> setEnd ref (TkLine start) (TkCol start + 1))
       (\<lambda>_. returnM ref))))"

definition isName :: "ScriptToken \<Rightarrow> bool" where
  "isName tok \<longleftrightarrow> TkKind tok = TokenIdent \<or> TkKind tok = TokenString"

text \<open>The body of a GUI prefix form: its node, then the block.\<close>

definition guiBlock ::
  "(nat \<Rightarrow> blockEnd parse_m) \<Rightarrow> nat \<Rightarrow> nat \<Rightarrow> ScriptToken \<Rightarrow> bytes \<Rightarrow> bytes \<Rightarrow> bytes \<Rightarrow> nat option parse_m" where
  "guiBlock nested parent depth first key operator val =
     bindM (addNode (startNode parent depth key operator val [] first)) (\<lambda>ref.
     bindM (setKind ref ''block'') (\<lambda>_.
     bindM (nested ref) (\<lambda>finish.
     bindM (setBlockEnd ref finish) (\<lambda>_. returnM (Some ref)))))"

definition guiNamedBlock ::
  "(nat \<Rightarrow> blockEnd parse_m) \<Rightarrow> nat \<Rightarrow> nat \<Rightarrow> ScriptToken \<Rightarrow> (bytes \<Rightarrow> bytes \<times> bytes \<times> bytes) \<Rightarrow> nat option parse_m" where
  "guiNamedBlock nested parent depth first shape =
     bindM (peekAtM 1) (\<lambda>name. bindM (peekAtM 2) (\<lambda>brace.
       if \<not> isName name \<or> TkKind brace \<noteq> TokenLBrace then returnM None
       else bindM advanceM (\<lambda>_. bindM advanceM (\<lambda>_. bindM advanceM (\<lambda>_.
         case shape (TkText name) of (key, operator, val) \<Rightarrow> guiBlock nested parent depth first key operator val)))))"

definition guiType :: "(nat \<Rightarrow> blockEnd parse_m) \<Rightarrow> nat \<Rightarrow> nat \<Rightarrow> ScriptToken \<Rightarrow> nat option parse_m" where
  "guiType nested parent depth first =
     bindM (peekAtM 1) (\<lambda>name. bindM (peekAtM 2) (\<lambda>operator. bindM (peekAtM 3) (\<lambda>base.
       if \<not> isName name \<or> TkKind operator \<noteq> TokenOperator \<or> TkText operator \<noteq> ''='' \<or> \<not> isName base then returnM None
       else bindM advanceM (\<lambda>_. bindM advanceM (\<lambda>_. bindM advanceM (\<lambda>_. bindM advanceM (\<lambda>_.
         bindM (addNode (startNode parent depth (TkText name) ''type'' (TkText base) [] first)) (\<lambda>ref.
         bindM peekM (\<lambda>brace.
           if TkKind brace = TokenLBrace then
             bindM advanceM (\<lambda>_.
             bindM (setKind ref ''block'') (\<lambda>_.
             bindM (nested ref) (\<lambda>finish.
             bindM (setBlockEnd ref finish) (\<lambda>_. returnM (Some ref)))))
           else
             bindM (setKind ref ''atom'') (\<lambda>_.
             bindM (setEnd ref (TkLine base) (TkCol base + runeLen (TkText base))) (\<lambda>_. returnM (Some ref))))))))))))"

definition guiPrefixedStatement :: "(nat \<Rightarrow> blockEnd parse_m) \<Rightarrow> nat \<Rightarrow> nat \<Rightarrow> nat option parse_m" where
  "guiPrefixedStatement nested parent depth =
     bindM peekM (\<lambda>first.
       if \<not> isName first then returnM None
       else if TkText first = ''types'' then
         guiNamedBlock nested parent depth first (\<lambda>name. (''types'', ''namespace'', name))
       else if TkText first = ''template'' \<or> TkText first = ''local_template'' then
         guiNamedBlock nested parent depth first (\<lambda>name. (name, TkText first, []))
       else if TkText first = ''type'' then guiType nested parent depth first
       else if TkText first = ''block'' \<or> TkText first = ''blockoverride'' then
         guiNamedBlock nested parent depth first (\<lambda>name. (TkText first, ''slot'', name))
       else returnM None)"

text \<open>\<^verbatim>\<open>key operator value\<close>: the value is a block, an atom (with a block behind it in GUI files and for
  colour tags), or missing.\<close>

definition atomValue :: "(nat \<Rightarrow> blockEnd parse_m) \<Rightarrow> nat \<Rightarrow> ScriptToken \<Rightarrow> unit parse_m" where
  "atomValue nested ref val =
     bindM advanceM (\<lambda>_.
     bindM (setNode ref (\<lambda>n. n\<lparr>NdValue := TkText val, NdKind := ''atom'', NdEndLine := TkEndLine val, NdEndCol := TkEndCol val\<rparr>)) (\<lambda>_.
     bindM getM (\<lambda>p.
     bindM (if psGui p \<or> TkKind val = TokenIdent \<and> isValueTag (TkText val)
            then bindM peekM (\<lambda>brace. returnM (TkKind brace = TokenLBrace)) else returnM False) (\<lambda>braced.
       if braced then
         bindM advanceM (\<lambda>_.
         bindM (setKind ref ''block'') (\<lambda>_.
         bindM (nested ref) (\<lambda>(close, closed, lastChild).
           if closed then setEnd ref (TkLine close) (TkCol close + 1) else returnM ())))
       else
         bindM (if psGui p then bindM peekM (\<lambda>op. returnM (TkKind op = TokenOperator)) else returnM False) (\<lambda>inherits.
           if inherits then
             bindM advanceM (\<lambda>nextOp.
             bindM peekM (\<lambda>nextVal.
               if isName nextVal then
                 bindM advanceM (\<lambda>_.
                   setNode ref (\<lambda>n. n\<lparr>NdValue := NdValue n @ '' '' @ TkText nextOp @ '' '' @ TkText nextVal,
                     NdEndLine := TkEndLine nextVal, NdEndCol := TkEndCol nextVal\<rparr>))
               else errM ''expected value after GUI inheritance operator'' nextVal))
           else returnM ())))))"

definition operatorValue :: "(nat \<Rightarrow> blockEnd parse_m) \<Rightarrow> nat \<Rightarrow> ScriptToken \<Rightarrow> unit parse_m" where
  "operatorValue nested ref op =
     bindM (setNode ref (\<lambda>n. n\<lparr>NdOperator := TkText op\<rparr>)) (\<lambda>_.
     bindM advanceM (\<lambda>_.
     bindM peekM (\<lambda>val.
       if TkKind val = TokenLBrace then
         bindM advanceM (\<lambda>_.
         bindM (setKind ref ''block'') (\<lambda>_.
         bindM (nested ref) (\<lambda>(close, closed, lastChild).
           if closed then setEnd ref (TkLine close) (TkCol close + 1)
           else case lastChild of Some c \<Rightarrow> endAtChild ref c | None \<Rightarrow> returnM ())))
       else if TkKind val \<in> {TokenIdent, TokenString, TokenOperator} then atomValue nested ref val
       else
         bindM (errM ''expected value or block after operator'' val) (\<lambda>_.
           if TkKind val \<noteq> TokenRBrace \<and> TkKind val \<noteq> TokenEOF
           then bindM advanceM (\<lambda>_. returnM ()) else returnM ()))))"

definition plainStatement :: "(nat \<Rightarrow> blockEnd parse_m) \<Rightarrow> nat \<Rightarrow> nat \<Rightarrow> nat parse_m" where
  "plainStatement nested parent depth =
     bindM advanceM (\<lambda>key.
     bindM (addNode (startNode parent depth (TkText key) [] [] [] key)) (\<lambda>ref.
     bindM peekM (\<lambda>op.
     bindM (if TkKind op = TokenOperator then operatorValue nested ref op
            else if TkKind op = TokenLBrace then
              bindM advanceM (\<lambda>_.
              bindM (setNode ref (\<lambda>n. n\<lparr>NdOperator := ''='', NdKind := ''block''\<rparr>)) (\<lambda>_.
              bindM (nested ref) (\<lambda>(close, closed, lastChild).
                if closed then setEnd ref (TkLine close) (TkCol close + 1) else returnM ())))
            else
              bindM (setKind ref ''bare'') (\<lambda>_. setEnd ref (TkEndLine key) (TkEndCol key))) (\<lambda>_.
     bindM (readNode ref) (\<lambda>n.
     bindM (if NdEndLine n = 0 then setEnd ref (NdLine n) (NdCol n + runeLen (NdKey n)) else returnM ())
       (\<lambda>_. returnM ref))))))"

definition statement :: "(nat \<Rightarrow> blockEnd parse_m) \<Rightarrow> nat \<Rightarrow> nat \<Rightarrow> nat parse_m" where
  "statement nested parent depth =
     bindM getM (\<lambda>p.
     bindM (if psGui p then guiPrefixedStatement nested parent depth else returnM None) (\<lambda>prefixed.
       case prefixed of Some ref \<Rightarrow> returnM ref | None \<Rightarrow> plainStatement nested parent depth))"

definition unclosedBlock :: "nat \<Rightarrow> unit parse_m" where
  "unclosedBlock parent =
     (if parent \<noteq> 0
      then bindM (readNode parent) (\<lambda>opening.
        errM ''unclosed block: expected } before end of file'' (zeroToken\<lparr>TkLine := NdLine opening, TkCol := NdCol opening\<rparr>))
      else returnM ())"

definition unexpectedClose :: "ScriptToken \<Rightarrow> unit parse_m" where
  "unexpectedClose close = errM ''unexpected closing brace }'' close"

definition expectedStatement :: "ScriptToken \<Rightarrow> unit parse_m" where
  "expectedStatement tok = errM ''expected statement'' tok"

partial_function (option) blockLoop ::
  "(nat \<Rightarrow> blockEnd parse_m) \<Rightarrow> nat \<Rightarrow> nat \<Rightarrow> nat option
    \<Rightarrow> parser \<Rightarrow> ((bytes + blockEnd) \<times> parser) option" where
  "blockLoop nested parent depth latest p =
     bindM peekM (\<lambda>tok.
       if TkKind tok = TokenEOF then
         bindM (unclosedBlock parent) (\<lambda>_. returnM (zeroToken, False, latest))
       else if TkKind tok = TokenRBrace then
         bindM advanceM (\<lambda>close.
           if parent = 0
           then bindM (unexpectedClose close) (\<lambda>_. blockLoop nested parent depth latest)
           else returnM (close, True, latest))
       else if TkKind tok = TokenError then
         bindM (errM (TkText tok) tok) (\<lambda>_. bindM advanceM (\<lambda>_. blockLoop nested parent depth latest))
       else if TkKind tok = TokenLBrace then
         bindM (withinLimits tok depth) (\<lambda>fits.
           if \<not> fits then returnM (zeroToken, False, latest)
           else bindM (anonymousBlock nested parent depth) (\<lambda>n. blockLoop nested parent depth (Some n)))
       else if TkKind tok = TokenIdent \<or> TkKind tok = TokenString then
         bindM (withinLimits tok depth) (\<lambda>fits.
           if \<not> fits then returnM (zeroToken, False, latest)
           else bindM (statement nested parent depth) (\<lambda>n. blockLoop nested parent depth (Some n)))
       else
         bindM (expectedStatement tok) (\<lambda>_. bindM advanceM (\<lambda>_.
           blockLoop nested parent depth latest))) p"

text \<open>\<open>levels\<close> is what the depth limit leaves. With none left no block is opened, so the deeper call is
  never made.\<close>

primrec parseBlock :: "nat \<Rightarrow> nat \<Rightarrow> nat \<Rightarrow> blockEnd parse_m" where
  "parseBlock 0 parent depth = blockLoop (\<lambda>_. returnM (zeroToken, False, None)) parent depth None"
| "parseBlock (Suc levels) parent depth = blockLoop (\<lambda>ref. parseBlock levels ref (depth + 1)) parent depth None"

section \<open>The tree\<close>

text \<open>\<^verbatim>\<open>buildTree\<close> sorts the nodes by parent: it counts the children of each id, gives each id with children
  a slice of one edge list, and fills the slices in the order of the ids. The three loops run over the
  ids from 1; \<open>parents\<close> lists the parent of each.\<close>

definition countSlots :: "nat list \<Rightarrow> nat \<times> nat list" where
  "countSlots parents =
     fold (\<lambda>parent (rootCount, slots).
         if parent = 0 then (rootCount + 1, slots) else (rootCount, slots[parent := slots ! parent + 1]))
       parents (0, replicate (length parents + 1) 0)"

definition placeSlots :: "nat list \<Rightarrow> nat \<Rightarrow> nat \<times> nat list \<times> (nat \<times> nat) list" where
  "placeSlots slots nodeCount =
     fold (\<lambda>ref (offset, slots, spans).
         if slots ! ref = 0 then (offset, slots, spans)
         else (offset + slots ! ref, slots[ref := offset], spans[ref := (offset, slots ! ref)]))
       [1 ..< nodeCount + 1] (0, slots, replicate (nodeCount + 1) (0, 0))"

definition linkEdges :: "nat list \<Rightarrow> nat list \<Rightarrow> nat \<Rightarrow> nat list \<times> nat list \<times> nat list" where
  "linkEdges parents slots edgeCount =
     fold (\<lambda>(ref, parent) (roots, edges, slots).
         if parent = 0 then (roots @ [ref], edges, slots)
         else (roots, edges[slots ! parent := ref], slots[parent := slots ! parent + 1]))
       (enumerate 1 parents) ([], replicate edgeCount 0, slots)"

record ScriptTree =
  trRoots :: "nat list"
  trChildren :: "nat list list"

definition buildTree :: "nat list \<Rightarrow> ScriptTree" where
  "buildTree parents =
     (let nodeCount = length parents;
          (rootCount, counts) = countSlots parents;
          (total, slots, spans) = placeSlots counts nodeCount;
          (roots, edges, _) = linkEdges parents slots (nodeCount - rootCount)
      in \<lparr>trRoots = roots, trChildren = map (\<lambda>(offset, count). take count (drop offset edges)) spans\<rparr>)"

section \<open>A parse\<close>

record ScriptFile =
  FlNodes :: "ScriptNode list"
  FlTree :: ScriptTree
  FlErrors :: "ParseError list"
  FlLimited :: bool

definition fileOf :: "parser \<Rightarrow> ScriptFile" where
  "fileOf p =
     (let nodes = map (\<lambda>ref. the (nodeAt (ref - 1) (psArena p))) [1 ..< psNextID p]
      in \<lparr>FlNodes = nodes, FlTree = buildTree (map NdParent nodes), FlErrors = psErrors p, FlLimited = psLimited p\<rparr>)"

definition parseLexer :: "Lexer \<Rightarrow> bool \<Rightarrow> (bytes + ScriptFile) option" where
  "parseLexer lexer gui =
     (case parseBlock MaxDepth_script 0 0 (newParser lexer gui) of
        None \<Rightarrow> None
      | Some (Inl panic, p) \<Rightarrow> Some (Inl panic)
      | Some (Inr _, p) \<Rightarrow> Some (Inr (fileOf p)))"

definition Parse :: "bytes \<Rightarrow> (bytes + ScriptFile) option" where
  "Parse text = parseLexer (newParserStringLexer text) False"

definition ParseBytes :: "bytes \<Rightarrow> (bytes + ScriptFile) option" where
  "ParseBytes input = parseLexer (newParserByteLexer input) False"

definition ParseGUI :: "bytes \<Rightarrow> (bytes + ScriptFile) option" where
  "ParseGUI text = parseLexer (newParserStringLexer text) True"

definition ParseGUIBytes :: "bytes \<Rightarrow> (bytes + ScriptFile) option" where
  "ParseGUIBytes input = parseLexer (newParserByteLexer input) True"

declare blockLoop.simps [code]

end
