(* ===== verification/ScriptTreeFacts.thy ===== *)
theory ScriptTreeFacts
  imports ScriptParser
begin

text \<open>
  \<^verbatim>\<open>buildTree\<close> against its reference: the counting sort of the nodes by parent gives every node the list
  of the nodes whose parent it is, in the order of their ids.
\<close>

definition childrenOf :: "nat list \<Rightarrow> nat \<Rightarrow> nat list" where
  "childrenOf parents ref = map fst (filter (\<lambda>(i, parent). parent = ref) (enumerate 1 parents))"

lemma childrenOf_Nil [simp]: "childrenOf [] ref = []"
  by (simp add: childrenOf_def)

lemma childrenOf_snoc:
  "childrenOf (xs @ [x]) ref = childrenOf xs ref @ (if x = ref then [length xs + 1] else [])"
  by (simp add: childrenOf_def enumerate_append_eq)

lemma length_childrenOf: "length (childrenOf xs ref) = count_list xs ref"
  by (induction xs rule: rev_induct) (simp_all add: childrenOf_snoc)

text \<open>How many children an id has, and where its slice begins.\<close>

definition slotOf :: "nat list \<Rightarrow> nat \<Rightarrow> nat" where
  "slotOf parents ref = sum (count_list parents) {1 ..< ref}"

lemma slotOf_Suc: "1 \<le> ref \<Longrightarrow> slotOf parents (Suc ref) = slotOf parents ref + count_list parents ref"
  by (simp add: slotOf_def)

lemma slotOf_mono: "1 \<le> a \<Longrightarrow> a < b \<Longrightarrow> slotOf parents a + count_list parents a \<le> slotOf parents b"
proof -
  assume "1 \<le> a" and "a < b"
  then have "slotOf parents (Suc a) \<le> slotOf parents b" unfolding slotOf_def by (intro sum_mono2) auto
  then show ?thesis using slotOf_Suc [OF \<open>1 \<le> a\<close>, of parents] by simp
qed

lemma countSlots_spec:
  assumes "\<forall>p \<in> set parents. p \<le> length parents"
  shows "fst (countSlots parents) = count_list parents 0"
    and "length (snd (countSlots parents)) = length parents + 1"
    and "\<forall>ref. 1 \<le> ref \<longrightarrow> ref \<le> length parents \<longrightarrow> snd (countSlots parents) ! ref = count_list parents ref"
proof -
  let ?step = "\<lambda>parent (rootCount, slots).
      if parent = 0 then (rootCount + 1 :: nat, slots) else (rootCount, slots[parent := slots ! parent + 1 :: nat])"
  have "fst (fold ?step xs (0, slots)) = count_list xs 0
      \<and> length (snd (fold ?step xs (0, slots))) = length slots
      \<and> (\<forall>ref. 1 \<le> ref \<longrightarrow> ref < length slots \<longrightarrow> snd (fold ?step xs (0, slots)) ! ref = slots ! ref + count_list xs ref)"
    if "\<forall>p \<in> set xs. p < length slots" for xs and slots :: "nat list"
    using that
  proof (induction xs rule: rev_induct)
    case (snoc x xs)
    obtain rc s where r: "fold ?step xs (0, slots) = (rc, s)" by (meson surj_pair)
    have ih: "rc = count_list xs 0" "length s = length slots"
      "\<forall>ref. 1 \<le> ref \<longrightarrow> ref < length slots \<longrightarrow> s ! ref = slots ! ref + count_list xs ref"
      using snoc r by simp_all
    show ?case using r ih snoc.prems by (auto simp: nth_list_update)
  qed simp
  from this [of parents "replicate (length parents + 1) 0"] assms
  show "fst (countSlots parents) = count_list parents 0"
    and "length (snd (countSlots parents)) = length parents + 1"
    and "\<forall>ref. 1 \<le> ref \<longrightarrow> ref \<le> length parents \<longrightarrow> snd (countSlots parents) ! ref = count_list parents ref"
    by (auto simp: countSlots_def le_imp_less_Suc)
qed

lemma placeSlots_spec:
  assumes "length counts = n + 1" and "\<forall>ref. 1 \<le> ref \<longrightarrow> ref \<le> n \<longrightarrow> counts ! ref = count_list parents ref"
  obtains total slots spans where "placeSlots counts n = (total, slots, spans)" and "length slots = n + 1"
    and "length spans = n + 1"
    and "\<forall>ref. 1 \<le> ref \<longrightarrow> ref \<le> n \<longrightarrow> count_list parents ref \<noteq> 0
      \<longrightarrow> slots ! ref = slotOf parents ref \<and> spans ! ref = (slotOf parents ref, count_list parents ref)"
    and "\<forall>ref. 1 \<le> ref \<longrightarrow> ref \<le> n \<longrightarrow> count_list parents ref = 0 \<longrightarrow> spans ! ref = (0, 0)"
    and "spans ! 0 = (0, 0)"
proof -
  let ?step = "\<lambda>ref (offset, slots, spans).
      if slots ! ref = 0 then (offset, slots, spans)
      else (offset + slots ! ref, slots[ref := offset], spans[ref := (offset, slots ! ref :: nat)])"
  have "\<exists>total slots spans. fold ?step [1 ..< k + 1] (0, counts, replicate (n + 1) (0, 0)) = (total, slots, spans)
      \<and> total = slotOf parents (k + 1) \<and> length slots = n + 1 \<and> length spans = n + 1
      \<and> (\<forall>ref. 1 \<le> ref \<longrightarrow> ref \<le> k \<longrightarrow> count_list parents ref \<noteq> 0
          \<longrightarrow> slots ! ref = slotOf parents ref \<and> spans ! ref = (slotOf parents ref, count_list parents ref))
      \<and> (\<forall>ref. 1 \<le> ref \<longrightarrow> ref \<le> n \<longrightarrow> count_list parents ref = 0 \<longrightarrow> spans ! ref = (0, 0))
      \<and> (\<forall>ref. k < ref \<longrightarrow> ref \<le> n \<longrightarrow> slots ! ref = count_list parents ref) \<and> spans ! 0 = (0, 0)"
    if "k \<le> n" for k
    using that
  proof (induction k)
    case 0
    then show ?case using assms by (simp add: slotOf_def)
  next
    case (Suc k)
    then obtain total slots spans where ih: "fold ?step [1 ..< k + 1] (0, counts, replicate (n + 1) (0, 0)) = (total, slots, spans)"
      "total = slotOf parents (k + 1)" "length slots = n + 1" "length spans = n + 1"
      "\<forall>ref. 1 \<le> ref \<longrightarrow> ref \<le> k \<longrightarrow> count_list parents ref \<noteq> 0
          \<longrightarrow> slots ! ref = slotOf parents ref \<and> spans ! ref = (slotOf parents ref, count_list parents ref)"
      "\<forall>ref. 1 \<le> ref \<longrightarrow> ref \<le> n \<longrightarrow> count_list parents ref = 0 \<longrightarrow> spans ! ref = (0, 0)"
      "\<forall>ref. k < ref \<longrightarrow> ref \<le> n \<longrightarrow> slots ! ref = count_list parents ref" "spans ! 0 = (0, 0)" by auto
    have next_count: "slots ! Suc k = count_list parents (Suc k)" using ih(7) Suc.prems by simp
    have up: "[1 ..< Suc k + 1] = [1 ..< k + 1] @ [Suc k]" by simp
    have fold_eq: "fold ?step [1 ..< Suc k + 1] (0, counts, replicate (n + 1) (0, 0)) = ?step (Suc k) (total, slots, spans)"
      unfolding up fold_append comp_def ih(1) by simp
    have more: "slotOf parents (Suc (Suc k)) = slotOf parents (Suc k) + count_list parents (Suc k)"
      by (rule slotOf_Suc) simp
    show ?case
      unfolding fold_eq
      using ih(2-8) next_count Suc.prems more
      by (auto simp: nth_list_update le_Suc_eq less_Suc_eq_le)
  qed
  from this [of n] show thesis
    using that by (auto simp: placeSlots_def)
qed


text \<open>The slices are disjoint, so filling one leaves the others alone.\<close>

definition edgesOf :: "nat list \<Rightarrow> nat list \<Rightarrow> nat list \<Rightarrow> nat \<Rightarrow> nat list" where
  "edgesOf parents edges xs ref = take (count_list xs ref) (drop (slotOf parents ref) edges)"

lemma slice_snoc:
  "s + c < length edges \<Longrightarrow> take (Suc c) (drop s (edges[s + c := x])) = take c (drop s edges) @ [x]"
  by (simp add: drop_update_swap take_Suc_conv_app_nth take_update_cancel)

lemma slice_update_other:
  assumes "pos < s \<or> s + c \<le> pos"
  shows "take c (drop s (edges[pos := x])) = take c (drop s edges)"
  using assms by (auto simp: drop_update_cancel drop_update_swap take_update_cancel)

lemma count_list_prefix: "count_list xs r \<le> count_list (xs @ ys) r"
  by simp

lemma slotOf_total:
  assumes "\<forall>p \<in> set parents. p \<le> length parents"
  shows "slotOf parents (length parents + 1) = length parents - count_list parents 0"
proof -
  have "sum (count_list parents) {0 .. length parents} = length parents"
    using assms by (intro sum_count_set) auto
  moreover have "{0 .. length parents} = insert 0 {1 ..< length parents + 1}" by auto
  ultimately show ?thesis by (simp add: slotOf_def)
qed

lemma slotOf_bound:
  assumes "\<forall>p \<in> set parents. p \<le> length parents" and "1 \<le> r" and "r \<le> length parents"
  shows "slotOf parents r + count_list parents r \<le> length parents - count_list parents 0"
proof -
  have "slotOf parents r + count_list parents r \<le> slotOf parents (length parents + 1)"
    using assms(2,3) by (intro slotOf_mono) simp_all
  then show ?thesis using slotOf_total [OF assms(1)] by simp
qed

lemma linkEdges_spec:
  assumes parents: "\<forall>p \<in> set parents. p \<le> length parents"
    and slots: "length slots = length parents + 1"
      "\<forall>ref. 1 \<le> ref \<longrightarrow> ref \<le> length parents \<longrightarrow> count_list parents ref \<noteq> 0 \<longrightarrow> slots ! ref = slotOf parents ref"
  obtains roots edges slots' where "linkEdges parents slots (length parents - count_list parents 0) = (roots, edges, slots')"
    and "roots = childrenOf parents 0"
    and "\<forall>ref. 1 \<le> ref \<longrightarrow> ref \<le> length parents \<longrightarrow> edgesOf parents edges parents ref = childrenOf parents ref"
proof -
  let ?n = "length parents" and ?m = "length parents - count_list parents 0"
  let ?step = "\<lambda>(ref, parent) (roots, edges, slots).
      if parent = 0 then (roots @ [ref], edges, slots)
      else (roots, edges[slots ! parent := ref], slots[parent := slots ! parent + 1 :: nat])"
  have "\<exists>roots edges sl. fold ?step (enumerate 1 xs) ([], replicate ?m 0, slots) = (roots, edges, sl)
      \<and> roots = childrenOf xs 0 \<and> length edges = ?m \<and> length sl = ?n + 1
      \<and> (\<forall>ref. 1 \<le> ref \<longrightarrow> ref \<le> ?n \<longrightarrow> count_list parents ref \<noteq> 0 \<longrightarrow> sl ! ref = slotOf parents ref + count_list xs ref)
      \<and> (\<forall>ref. 1 \<le> ref \<longrightarrow> ref \<le> ?n \<longrightarrow> edgesOf parents edges xs ref = childrenOf xs ref)"
    if "\<exists>ys. parents = xs @ ys" for xs
    using that
  proof (induction xs rule: rev_induct)
    case Nil
    then show ?case using slots by (simp add: edgesOf_def)
  next
    case (snoc x xs)
    then obtain ys where ys: "parents = (xs @ [x]) @ ys" by auto
    then have prefix: "parents = xs @ (x # ys)" by simp
    with snoc.IH obtain roots edges sl where ih:
      "fold ?step (enumerate 1 xs) ([], replicate ?m 0, slots) = (roots, edges, sl)"
      "roots = childrenOf xs 0" "length edges = ?m" "length sl = ?n + 1"
      "\<forall>ref. 1 \<le> ref \<longrightarrow> ref \<le> ?n \<longrightarrow> count_list parents ref \<noteq> 0 \<longrightarrow> sl ! ref = slotOf parents ref + count_list xs ref"
      "\<forall>ref. 1 \<le> ref \<longrightarrow> ref \<le> ?n \<longrightarrow> edgesOf parents edges xs ref = childrenOf xs ref" by blast
    have fold_eq: "fold ?step (enumerate 1 (xs @ [x])) ([], replicate ?m 0, slots) = ?step (length xs + 1, x) (roots, edges, sl)"
      unfolding enumerate_append_eq fold_append comp_def ih(1) by simp
    show ?case
    proof (cases "x = 0")
      case True
      then show ?thesis
        unfolding fold_eq using ih(2-6) by (auto simp: childrenOf_snoc edgesOf_def)
    next
      case False
      have x: "1 \<le> x" "x \<le> ?n" using False parents ys by auto
      have more: "Suc (count_list xs x) \<le> count_list parents x" using ys by simp
      have at: "sl ! x = slotOf parents x + count_list xs x" using ih(5) x more by simp
      have room: "slotOf parents x + count_list xs x < length edges"
        using slotOf_bound [OF parents x] more ih(3) by linarith
      have own: "edgesOf parents (edges[sl ! x := length xs + 1]) (xs @ [x]) x = childrenOf (xs @ [x]) x"
        using slice_snoc [OF room, of "length xs + 1"] ih(6) x at by (simp add: edgesOf_def childrenOf_snoc)
      have other: "edgesOf parents (edges[sl ! x := length xs + 1]) (xs @ [x]) ref = childrenOf (xs @ [x]) ref"
        if "1 \<le> ref" "ref \<le> ?n" "ref \<noteq> x" for ref
      proof -
        have "count_list xs ref \<le> count_list parents ref" using prefix by simp
        then have "sl ! x < slotOf parents ref \<or> slotOf parents ref + count_list xs ref \<le> sl ! x"
          using slotOf_mono [OF that(1), of x parents] slotOf_mono [OF x(1), of ref parents] that(3) at more by linarith
        from slice_update_other [OF this, of edges "length xs + 1"] show ?thesis
          using ih(6) that by (simp add: edgesOf_def childrenOf_snoc)
      qed
      show ?thesis
        unfolding fold_eq using False ih(2-5) own other at x
        by (auto simp: nth_list_update childrenOf_snoc)
    qed
  qed
  from this [of parents] show thesis
    using that by (auto simp: linkEdges_def)
qed

lemma buildTree_children_aux:
  assumes "\<forall>parent \<in> set parents. parent \<le> length parents"
  shows "trRoots (buildTree parents) = childrenOf parents 0
    \<and> trChildren (buildTree parents) = [] # map (childrenOf parents) [1 ..< length parents + 1]"
proof -
  let ?n = "length parents"
  obtain rc counts where c: "countSlots parents = (rc, counts)" by (meson surj_pair)
  note cs = countSlots_spec [OF assms, unfolded c fst_conv snd_conv]
  obtain total slots spans where p: "placeSlots counts ?n = (total, slots, spans)" "length slots = ?n + 1" "length spans = ?n + 1"
    "\<forall>ref. 1 \<le> ref \<longrightarrow> ref \<le> ?n \<longrightarrow> count_list parents ref \<noteq> 0
      \<longrightarrow> slots ! ref = slotOf parents ref \<and> spans ! ref = (slotOf parents ref, count_list parents ref)"
    "\<forall>ref. 1 \<le> ref \<longrightarrow> ref \<le> ?n \<longrightarrow> count_list parents ref = 0 \<longrightarrow> spans ! ref = (0, 0)" "spans ! 0 = (0, 0)"
    by (rule placeSlots_spec [OF cs(2,3)])
  obtain roots edges slots' where l: "linkEdges parents slots (?n - count_list parents 0) = (roots, edges, slots')"
    "roots = childrenOf parents 0"
    "\<forall>ref. 1 \<le> ref \<longrightarrow> ref \<le> ?n \<longrightarrow> edgesOf parents edges parents ref = childrenOf parents ref"
    using linkEdges_spec [OF assms p(2)] p(4) by blast
  let ?slice = "\<lambda>(offset, count). take count (drop offset edges)"
  have tree: "buildTree parents = \<lparr>trRoots = roots, trChildren = map ?slice spans\<rparr>"
    using c p(1) l(1) cs(1) by (simp add: buildTree_def)
  have slice: "?slice (spans ! ref) = childrenOf parents ref" if "1 \<le> ref" "ref \<le> ?n" for ref
    using p(4,5) l(3) that by (cases "count_list parents ref = 0") (auto simp: edgesOf_def)
  have "map ?slice spans = [] # map (childrenOf parents) [1 ..< ?n + 1]"
    using p(3,6) slice by (auto intro!: nth_equalityI simp: nth_Cons' simp del: upt_Suc)
  then show ?thesis using tree l(2) by simp
qed

text \<open>C29. The tree a parse returns lists, under every id, the nodes whose parent it is, in the order of their
  ids, and as roots the nodes without a parent: the counting sort over one edge list agrees with filtering
  the nodes by parent.\<close>

theorem buildTree_children:
  assumes "\<forall>parent \<in> set parents. parent \<le> length parents"
  shows "trRoots (buildTree parents) = childrenOf parents 0
    \<and> trChildren (buildTree parents) = [] # map (childrenOf parents) [1 ..< length parents + 1]"
  using assms by (rule buildTree_children_aux)

theorem buildTree_children_witness:
  "trChildren (buildTree [0, 1, 1, 0, 2]) = [[], [2, 3], [5], [], [], []]"
proof -
  have "\<forall>parent \<in> set [0, 1, 1, 0, 2 :: nat]. parent \<le> length [0, 1, 1, 0, 2 :: nat]" by simp
  from buildTree_children [OF this] show ?thesis by (simp add: childrenOf_def upt_rec)
qed

end
