(* ===== verification/ScriptLookahead.thy ===== *)
theory ScriptLookahead
  imports ScriptLexerFacts ScriptTreeFacts
begin

text \<open>
  The parser's ring of tokens read ahead. The interface \<open>token_queue\<close> is what the grammar relies on:
  a stream of tokens that can be looked at within a window and popped, and that ends. The ring over the
  lexer provides it, with the significant tokens of the source as its stream.
\<close>

section \<open>The interface\<close>

datatype lookOp = PeekOp nat | AdvanceOp

primrec runOps :: "(nat \<Rightarrow> 's \<Rightarrow> 't \<times> 's) \<Rightarrow> ('s \<Rightarrow> 't \<times> 's) \<Rightarrow> lookOp list \<Rightarrow> 's \<Rightarrow> 't list" where
  "runOps peek pop [] s = []"
| "runOps peek pop (op # ops) s =
     (let (t, s') = (case op of PeekOp k \<Rightarrow> peek k s | AdvanceOp \<Rightarrow> pop s) in t # runOps peek pop ops s')"

text \<open>The same operations on a position in a fixed stream.\<close>

primrec specOps :: "nat \<Rightarrow> 't \<Rightarrow> (nat \<Rightarrow> 't) \<Rightarrow> lookOp list \<Rightarrow> nat \<Rightarrow> 't list" where
  "specOps window none stream [] at = []"
| "specOps window none stream (op # ops) at =
     (case op of
        PeekOp k \<Rightarrow> (if k < window then stream (at + k) else none) # specOps window none stream ops at
      | AdvanceOp \<Rightarrow> stream at # specOps window none stream ops (Suc at))"

locale token_queue =
  fixes ok :: "'s \<Rightarrow> bool"
    and stream :: "'s \<Rightarrow> nat \<Rightarrow> 't"
    and ended :: "'t \<Rightarrow> bool"
    and window :: nat
    and none :: 't
    and peek :: "nat \<Rightarrow> 's \<Rightarrow> 't \<times> 's"
    and pop :: "'s \<Rightarrow> 't \<times> 's"
  assumes peek_law: "ok s \<Longrightarrow> k < window \<Longrightarrow> \<exists>s'. peek k s = (stream s k, s') \<and> ok s' \<and> stream s' = stream s"
    and peek_beyond: "window \<le> k \<Longrightarrow> peek k s = (none, s)"
    and pop_law: "ok s \<Longrightarrow> \<exists>s'. pop s = (stream s 0, s') \<and> ok s' \<and> stream s' = (\<lambda>k. stream s (Suc k))"
    and ended_stays: "ok s \<Longrightarrow> ended (stream s k) \<Longrightarrow> ended (stream s (Suc k))"
    and ends: "ok s \<Longrightarrow> \<exists>k. ended (stream s k)"
begin

lemma runOps_spec:
  "ok s \<Longrightarrow> stream s = (\<lambda>k. whole (at + k)) \<Longrightarrow> runOps peek pop ops s = specOps window none whole ops at"
proof (induction ops arbitrary: s at)
  case (Cons op ops)
  show ?case
  proof (cases op)
    case (PeekOp k)
    show ?thesis
    proof (cases "k < window")
      case True
      from peek_law [OF Cons.prems(1) this] obtain s' where s': "peek k s = (stream s k, s')" "ok s'" "stream s' = stream s"
        by blast
      then show ?thesis using PeekOp True Cons by simp
    next
      case False
      then show ?thesis using PeekOp Cons by (simp add: peek_beyond)
    qed
  next
    case AdvanceOp
    from pop_law [OF Cons.prems(1)] obtain s' where s': "pop s = (stream s 0, s')" "ok s'"
      "stream s' = (\<lambda>k. stream s (Suc k))" by blast
    then show ?thesis using AdvanceOp Cons.IH [of s' "Suc at"] Cons.prems(2) by simp
  qed
qed simp

text \<open>How many tokens are ahead of the end.\<close>

definition left :: "'s \<Rightarrow> nat" where
  "left s = (LEAST k. ended (stream s k))"

lemma left_0: "ok s \<Longrightarrow> left s = 0 \<longleftrightarrow> ended (stream s 0)"
  unfolding left_def by (metis LeastI Least_le ends le_zero_eq)

lemma left_same: "stream s' = stream s \<Longrightarrow> left s' = left s"
  by (simp add: left_def)

lemma ended_mono: "ok s \<Longrightarrow> ended (stream s 0) \<Longrightarrow> ended (stream s k)"
  by (induction k) (simp_all add: ended_stays)

lemma left_pop:
  assumes "ok s" and "stream s' = (\<lambda>k. stream s (Suc k))"
  shows "left s' = left s - 1"
proof (cases "ended (stream s 0)")
  case True
  then have "ended (stream s 1)" using ended_mono [OF assms(1)] by simp
  then have "left s' = 0" unfolding left_def assms(2) by (intro Least_equality) simp_all
  then show ?thesis using True left_0 [OF assms(1)] by simp
next
  case False
  obtain k where "ended (stream s k)" using ends assms(1) by blast
  from Least_Suc [where P = "\<lambda>k. ended (stream s k)", OF this False] show ?thesis by (simp add: left_def assms(2))
qed

end

section \<open>The lexer's significant tokens\<close>

definition streamOf :: "'t list \<Rightarrow> nat \<Rightarrow> 't" where
  "streamOf ts k = (if k < length ts then ts ! k else last ts)"

lemma streamOf_simps [simp]:
  "streamOf (t # ts) 0 = t" "ts \<noteq> [] \<Longrightarrow> streamOf (t # ts) (Suc k) = streamOf ts k" "streamOf [t] k = t"
  by (simp_all add: streamOf_def)

lemma skipSpace_end: "sourceLen l \<le> lxPos l \<Longrightarrow> skipSpace l = l"
  by (simp add: skipSpace.simps [of l])

lemma lexNext_at_end:
  assumes "TkKind (fst (lexNext l)) = TokenEOF"
  shows "lexNext (snd (lexNext l)) = lexNext l"
proof -
  let ?l = "skipSpace l"
  have e: "sourceLen ?l \<le> lxPos ?l"
    using assms lexNext_EOF [of l] advances_len [OF advances_skipSpace [of l]] by simp
  then have "lxPeek ?l = None" by (simp add: lxPeek_None)
  then have n: "lexNext l = ((scriptToken TokenEOF [] (lxLine ?l) (lxCol ?l))\<lparr>TkEndLine := lxLine ?l, TkEndCol := lxCol ?l\<rparr>, ?l)"
    by (simp add: lexNext_def rawToken_def Let_def)
  then show ?thesis using e \<open>lxPeek ?l = None\<close> by (simp add: lexNext_def rawToken_def skipSpace_end Let_def)
qed

lemma nextSignificant_tokens:
  "(TkKind (fst (nextSignificant l)) = TokenEOF \<longrightarrow>
      lexAll l = [fst (nextSignificant l)] \<and> lexAll (snd (nextSignificant l)) = [fst (nextSignificant l)])
   \<and> (TkKind (fst (nextSignificant l)) \<noteq> TokenEOF \<longrightarrow>
      lexAll l = fst (nextSignificant l) # lexAll (snd (nextSignificant l)))"
proof (induction l rule: nextSignificant.induct)
  case (1 l)
  show ?case
  proof (cases "TkKind (fst (lexNext l)) = TokenComment")
    case True
    have "lexAll l = lexAll (snd (lexNext l))" using True by (subst lexAll.simps) simp
    then show ?thesis using 1 [OF True] True by (simp add: nextSignificant.simps [of l])
  next
    case False
    then have n: "nextSignificant l = lexNext l" by (simp add: nextSignificant.simps [of l])
    show ?thesis
    proof (cases "TkKind (fst (lexNext l)) = TokenEOF")
      case True
      have "lexAll m = [fst (lexNext m)]" if "TkKind (fst (lexNext m)) = TokenEOF" for m
        using that by (subst lexAll.simps) simp
      then show ?thesis using True lexNext_at_end [OF True] n by simp
    next
      case noEnd: False
      have "lexAll l = fst (lexNext l) # lexAll (snd (lexNext l))"
        using False noEnd by (subst lexAll.simps) simp
      then show ?thesis using n noEnd by simp
    qed
  qed
qed

lemma lexAll_not_Nil [simp]: "lexAll l \<noteq> []"
  using lexAll_shape [of l] by auto

lemma streamOf_next:
  assumes "nextSignificant l = (tok, l')"
  shows "streamOf (lexAll l) 0 = tok" and "streamOf (lexAll l) (Suc k) = streamOf (lexAll l') k"
  using nextSignificant_tokens [of l] assms by (cases "TkKind tok = TokenEOF"; simp)+

lemma streamOf_lexAll_stays:
  "TkKind (streamOf (lexAll l) k) = TokenEOF \<Longrightarrow> TkKind (streamOf (lexAll l) (Suc k)) = TokenEOF"
  using lexAll_shape [of l] by (auto simp: streamOf_def nth_append split: if_splits)

lemma streamOf_lexAll_ends: "TkKind (streamOf (lexAll l) (length (lexAll l))) = TokenEOF"
  using lexAll_shape [of l] by (auto simp: streamOf_def)

lemma lexAll_at_end: "sourceLen l \<le> lxPos l \<Longrightarrow> TkKind (streamOf (lexAll l) k) = TokenEOF"
proof -
  assume "sourceLen l \<le> lxPos l"
  then have "TkKind (fst (lexNext l)) = TokenEOF" by (simp add: lexNext_EOF skipSpace_end)
  then have "lexAll l = [fst (lexNext l)]" by (subst lexAll.simps) simp
  then show ?thesis using \<open>TkKind (fst (lexNext l)) = TokenEOF\<close> by simp
qed

section \<open>The ring\<close>

definition ahead :: "parser \<Rightarrow> nat \<Rightarrow> ScriptToken" where
  "ahead p k =
     (if k < psBuffered p then psLookahead p ! ((psHead p + k) mod parserLookahead)
      else streamOf (lexAll (psLexer p)) (k - psBuffered p))"

definition ringOk :: "parser \<Rightarrow> bool" where
  "ringOk p \<longleftrightarrow>
     psHead p < parserLookahead \<and> psBuffered p \<le> parserLookahead \<and> length (psLookahead p) = parserLookahead
     \<and> (\<forall>k. TkKind (ahead p k) = TokenEOF \<longrightarrow> TkKind (ahead p (Suc k)) = TokenEOF)"

text \<open>What reading ahead leaves alone.\<close>

definition storeOf :: "parser \<Rightarrow> nodeArena \<times> nat \<times> ParseError list \<times> bool \<times> bool" where
  "storeOf p = (psArena p, psNextID p, psErrors p, psGui p, psLimited p)"

lemma ring_slot: "a < b \<Longrightarrow> b < 4 \<Longrightarrow> (h + a) mod 4 \<noteq> (h + b) mod (4 :: nat)"
proof
  assume "a < b" "b < 4" and eq: "(h + a) mod 4 = (h + b) mod 4"
  from mod_eq_dvd_iff_nat [of "h + a" "h + b" 4] eq \<open>a < b\<close> have "4 dvd b - a" by simp
  then show False using \<open>a < b\<close> \<open>b < 4\<close> by (auto dest: dvd_imp_le)
qed

lemma fill_step:
  assumes "ringOk p" and "psBuffered p < parserLookahead" and "nextSignificant (psLexer p) = (tok, l)"
  shows "ahead (p\<lparr>psLexer := l, psLookahead := (psLookahead p)[(psHead p + psBuffered p) mod parserLookahead := tok],
    psBuffered := psBuffered p + 1\<rparr>) = ahead p" (is "ahead ?p = _")
proof
  fix k
  let ?i = "(psHead p + psBuffered p) mod parserLookahead"
  have i: "?i < length (psLookahead p)" using assms(1) by (simp add: ringOk_def parserLookahead_def)
  consider "k < psBuffered p" | "k = psBuffered p" | j where "k = Suc (psBuffered p + j)"
    by (metis less_iff_Suc_add linorder_neqE_nat)
  then show "ahead ?p k = ahead p k"
  proof cases
    case 1
    then have "(psHead p + k) mod parserLookahead \<noteq> ?i"
      using assms(2) ring_slot by (simp add: parserLookahead_def)
    then show ?thesis using 1 by (simp add: ahead_def)
  next
    case 2
    then show ?thesis using i streamOf_next(1) [OF assms(3)] by (simp add: ahead_def)
  next
    case 3
    then show ?thesis using streamOf_next(2) [OF assms(3)] by (simp add: ahead_def)
  qed
qed

lemma fillLookahead_spec:
  "ringOk p \<Longrightarrow> offset < parserLookahead \<Longrightarrow>
     ringOk (fillLookahead offset p) \<and> ahead (fillLookahead offset p) = ahead p
     \<and> offset < psBuffered (fillLookahead offset p) \<and> storeOf (fillLookahead offset p) = storeOf p"
proof (induction offset p rule: fillLookahead.induct)
  case (1 offset p)
  show ?case
  proof (cases "psBuffered p \<le> offset")
    case False
    then show ?thesis using 1(2) by (simp add: fillLookahead.simps [of offset p])
  next
    case True
    obtain tok l where n: "nextSignificant (psLexer p) = (tok, l)" by (meson surj_pair)
    let ?p = "p\<lparr>psLexer := l, psLookahead := (psLookahead p)[(psHead p + psBuffered p) mod parserLookahead := tok],
      psBuffered := psBuffered p + 1\<rparr>"
    have step: "fillLookahead offset p = fillLookahead offset ?p"
      using True n by (simp add: fillLookahead.simps [of offset p])
    have room: "psBuffered p < parserLookahead" using True 1(3) by simp
    note same = fill_step [OF 1(2) room n]
    have ok: "ringOk ?p" using 1(2) room same by (simp add: ringOk_def)
    show ?thesis
      using 1(1) [OF True n [symmetric] refl refl ok 1(3)] same by (simp add: step storeOf_def)
  qed
qed

lemma peekAt_spec:
  assumes "ringOk p" and "k < parserLookahead"
  shows "\<exists>p'. peekAt k p = (ahead p k, p') \<and> ringOk p' \<and> ahead p' = ahead p \<and> storeOf p' = storeOf p
    \<and> k < psBuffered p'"
proof -
  note f = fillLookahead_spec [OF assms]
  have "psLookahead (fillLookahead k p) ! ((psHead (fillLookahead k p) + k) mod parserLookahead) = ahead p k"
    using f by (metis ahead_def)
  then show ?thesis using f assms(2) by (simp add: peekAt_def Let_def)
qed

lemma advanceToken_spec:
  assumes "ringOk p"
  shows "\<exists>p'. advanceToken p = (ahead p 0, p') \<and> ringOk p' \<and> ahead p' = (\<lambda>k. ahead p (Suc k)) \<and> storeOf p' = storeOf p"
proof -
  from peekAt_spec [OF assms, of 0] obtain q where q: "peekAt 0 p = (ahead p 0, q)" "ringOk q" "ahead q = ahead p"
    "storeOf q = storeOf p" "0 < psBuffered q" by (auto simp: parserLookahead_def)
  let ?q = "q\<lparr>psLookahead := (psLookahead q)[psHead q := zeroToken],
    psHead := (psHead q + 1) mod parserLookahead, psBuffered := psBuffered q - 1\<rparr>"
  have "ahead ?q k = ahead q (Suc k)" for k
  proof (cases "Suc k < psBuffered q")
    case True
    have "psHead q < 4" "Suc k < 4" using q(2) True by (simp_all add: ringOk_def parserLookahead_def)
    then have "(psHead q + Suc k) mod 4 \<noteq> psHead q" using ring_slot [of 0 "Suc k" "psHead q"] by simp
    then show ?thesis using True by (simp add: ahead_def parserLookahead_def mod_simps)
  next
    case False
    then show ?thesis using q(5) by (simp add: ahead_def)
  qed
  then have a: "ahead ?q = (\<lambda>k. ahead q (Suc k))" by (rule ext)
  then have "ringOk ?q" using q(2) by (auto simp: ringOk_def parserLookahead_def)
  then show ?thesis using q a by (simp add: advanceToken_def storeOf_def)
qed

interpretation look: token_queue ringOk ahead "\<lambda>t. TkKind t = TokenEOF" parserLookahead zeroToken peekAt advanceToken
proof unfold_locales
  fix p :: parser and k
  show "ringOk p \<Longrightarrow> k < parserLookahead \<Longrightarrow> \<exists>p'. peekAt k p = (ahead p k, p') \<and> ringOk p' \<and> ahead p' = ahead p"
    using peekAt_spec by blast
  show "parserLookahead \<le> k \<Longrightarrow> peekAt k p = (zeroToken, p)" by (simp add: peekAt_def)
  show "ringOk p \<Longrightarrow> \<exists>p'. advanceToken p = (ahead p 0, p') \<and> ringOk p' \<and> ahead p' = (\<lambda>k. ahead p (Suc k))"
    using advanceToken_spec by blast
  show "ringOk p \<Longrightarrow> TkKind (ahead p k) = TokenEOF \<Longrightarrow> TkKind (ahead p (Suc k)) = TokenEOF" by (simp add: ringOk_def)
  show "\<exists>k. TkKind (ahead p k) = TokenEOF"
    using streamOf_lexAll_ends [of "psLexer p"]
    by (intro exI [of _ "psBuffered p + length (lexAll (psLexer p))"]) (simp add: ahead_def)
qed

lemma newParser_ring: "ringOk (newParser l gui)" "ahead (newParser l gui) = streamOf (lexAll l)"
proof -
  show a: "ahead (newParser l gui) = streamOf (lexAll l)" by (rule ext) (simp add: ahead_def newParser_def)
  show "ringOk (newParser l gui)"
    unfolding ringOk_def a using streamOf_lexAll_stays by (simp add: newParser_def parserLookahead_def)
qed

text \<open>C30. The parser's ring refines a position in the token list of the source: whatever sequence of looks
  ahead and advances a parser makes, every look at fewer than four tokens ahead gives the token of
  \<open>Lex text\<close> at that distance, every advance the next one, and behind the last token there is the
  end-of-file token for ever; a look further ahead gives the zero token.\<close>

theorem ring_refines:
  "runOps peekAt advanceToken ops (newParser (newParserStringLexer text) gui)
     = specOps parserLookahead zeroToken (streamOf (Lex text)) ops 0"
  using look.runOps_spec [OF newParser_ring(1)] lexers_agree newParser_ring(2) by simp

end
