(* ===== verification/ScriptParserFacts.thy ===== *)
theory ScriptParserFacts
  imports ScriptLookahead
begin

text \<open>
  Every parse returns and gives a well-formed file. The state of a parse is abstracted to its spine (the
  id, the parent and the depth of each node) and a bound on the significant tokens ahead;
  \<open>goes sp n P m\<close> says that a step returns without a panic from every state with that spine and bound,
  only appends to the spine, consumes but never returns tokens, and ends in a spine, a bound and a
  value that satisfy \<open>P\<close>. \<open>goes_intros\<close> and \<open>quiet_intros\<close> collect the rules.
\<close>

named_theorems goes_intros \<open>rules for steps of the parser\<close>
named_theorems quiet_intros \<open>rules for steps that neither add nodes nor need a token\<close>

section \<open>The abstraction\<close>

type_synonym spine = "(nat \<times> nat \<times> nat) list"

definition spineOf :: "ScriptNode list \<Rightarrow> spine" where
  "spineOf = map (\<lambda>n. (NdID n, NdParent n, NdDepth n))"

text \<open>The depth of the children of \<open>ref\<close>.\<close>

definition childDepth :: "spine \<Rightarrow> nat \<Rightarrow> nat" where
  "childDepth sp ref = (if ref = 0 then 0 else Suc (snd (snd (sp ! (ref - 1)))))"

definition spineOk :: "spine \<Rightarrow> bool" where
  "spineOk sp \<longleftrightarrow>
     int (length sp) \<le> MaxNodes_script
     \<and> (\<forall>i < length sp. case sp ! i of (ref, parent, depth) \<Rightarrow>
          ref = Suc i \<and> parent \<le> i \<and> depth = childDepth sp parent \<and> depth < MaxDepth_script)"

definition known :: "spine \<Rightarrow> nat \<Rightarrow> bool" where
  "known sp ref \<longleftrightarrow> 0 < ref \<and> ref \<le> length sp"

definition inside :: "spine \<Rightarrow> nat \<Rightarrow> nat \<Rightarrow> bool" where
  "inside sp parent depth \<longleftrightarrow> parent \<le> length sp \<and> childDepth sp parent = depth"

definition fits :: "spine \<Rightarrow> nat \<Rightarrow> bool" where
  "fits sp depth \<longleftrightarrow> depth < MaxDepth_script \<and> int (length sp) < MaxNodes_script"

definition extends :: "spine \<Rightarrow> spine \<Rightarrow> bool" where
  "extends sp sp' \<longleftrightarrow> (\<exists>added. sp' = sp @ added)"

lemma extends_refl [simp]: "extends sp sp"
  by (simp add: extends_def)

lemma extends_snoc: "extends sp (sp @ added)"
  by (simp add: extends_def)

lemma extends_trans: "extends a b \<Longrightarrow> extends b c \<Longrightarrow> extends a c"
  by (auto simp: extends_def)

lemma known_extends: "known sp ref \<Longrightarrow> extends sp sp' \<Longrightarrow> known sp' ref"
  by (auto simp: extends_def known_def)

lemma childDepth_append: "ref \<le> length sp \<Longrightarrow> childDepth (sp @ added) ref = childDepth sp ref"
  by (auto simp: childDepth_def nth_append)

lemma inside_extends: "inside sp parent depth \<Longrightarrow> extends sp sp' \<Longrightarrow> inside sp' parent depth"
  by (auto simp: extends_def inside_def childDepth_append)

lemma inside_0 [simp]: "inside sp 0 0"
  by (simp add: inside_def childDepth_def)

lemma spineOk_snoc:
  assumes "spineOk sp" and "fits sp depth" and "inside sp parent depth"
  shows "spineOk (sp @ [(Suc (length sp), parent, depth)])"
proof -
  let ?sp = "sp @ [(Suc (length sp), parent, depth)]"
  have "case ?sp ! i of (ref, parent, depth) \<Rightarrow>
      ref = Suc i \<and> parent \<le> i \<and> depth = childDepth ?sp parent \<and> depth < MaxDepth_script"
    if "i < length ?sp" for i
  proof (cases "i = length sp")
    case True
    then show ?thesis using assms(2,3) by (simp add: fits_def inside_def childDepth_append)
  next
    case False
    then have "i < length sp" using that by simp
    then show ?thesis using assms(1) by (auto simp: spineOk_def nth_append childDepth_append split: prod.splits)
  qed
  then show ?thesis using assms(2) by (simp add: spineOk_def fits_def)
qed

text \<open>A state has a spine and a bound on the tokens ahead of it.\<close>

definition has :: "spine \<Rightarrow> nat \<Rightarrow> parser \<Rightarrow> bool" where
  "has sp n p \<longleftrightarrow>
     ringOk p \<and> look.left p \<le> n \<and> arenaOk (psArena p) \<and> spineOf (arenaNodes (psArena p)) = sp
     \<and> psNextID p = Suc (length sp) \<and> spineOk sp \<and> length (psErrors p) \<le> 1000"

definition goes :: "spine \<Rightarrow> nat \<Rightarrow> (spine \<Rightarrow> nat \<Rightarrow> 'a \<Rightarrow> bool) \<Rightarrow> 'a parse_m \<Rightarrow> bool" where
  "goes sp n P m \<longleftrightarrow>
     (\<forall>p. has sp n p \<longrightarrow>
        (\<exists>a p' sp' n'. m p = Some (Inr a, p') \<and> extends sp sp' \<and> n' \<le> n \<and> has sp' n' p' \<and> P sp' n' a))"

definition quiet :: "spine \<Rightarrow> 'a parse_m \<Rightarrow> bool" where
  "quiet sp m \<longleftrightarrow> (\<forall>p n. has sp n p \<longrightarrow> (\<exists>a p'. m p = Some (Inr a, p') \<and> has sp n p'))"

lemma goesD:
  assumes "goes sp n P m" and "has sp n p"
  obtains a p' sp' n' where "m p = Some (Inr a, p')" and "extends sp sp'" and "n' \<le> n" and "has sp' n' p'" and "P sp' n' a"
  using assms unfolding goes_def by blast

lemma quietD:
  assumes "quiet sp m" and "has sp n p"
  obtains a p' where "m p = Some (Inr a, p')" and "has sp n p'"
  using assms unfolding quiet_def by blast

section \<open>Rules\<close>

lemma goes_return [goes_intros]: "P sp n a \<Longrightarrow> goes sp n P (returnM a)"
  unfolding goes_def returnM_apply by (metis extends_refl order_refl)

lemma goes_bind:
  assumes "goes sp n Q m"
    and "\<And>sp' n' a. extends sp sp' \<Longrightarrow> n' \<le> n \<Longrightarrow> Q sp' n' a \<Longrightarrow> goes sp' n' P (f a)"
  shows "goes sp n P (bindM m f)"
  unfolding goes_def
proof (intro allI impI)
  fix p
  assume "has sp n p"
  with assms(1) obtain a p1 sp1 n1 where m: "m p = Some (Inr a, p1)" "extends sp sp1" "n1 \<le> n" "has sp1 n1 p1" "Q sp1 n1 a"
    by (rule goesD)
  from assms(2) [OF m(2,3,5)] m(4) obtain b p2 sp2 n2 where f: "f a p1 = Some (Inr b, p2)" "extends sp1 sp2" "n2 \<le> n1"
    "has sp2 n2 p2" "P sp2 n2 b" by (rule goesD)
  have "bindM m f p = Some (Inr b, p2)" "extends sp sp2" "n2 \<le> n"
    using m(1) f(1) extends_trans [OF m(2) f(2)] m(3) f(3) by simp_all
  then show "\<exists>a p' sp' n'. bindM m f p = Some (Inr a, p') \<and> extends sp sp' \<and> n' \<le> n \<and> has sp' n' p' \<and> P sp' n' a"
    using f(4,5) by blast
qed

lemma goes_quiet: "quiet sp m \<Longrightarrow> (\<And>a. P sp n a) \<Longrightarrow> goes sp n P m"
  unfolding goes_def by (metis extends_refl order_refl quietD)

lemma goes_bind_quiet: "quiet sp m \<Longrightarrow> (\<And>a. goes sp n P (f a)) \<Longrightarrow> goes sp n P (bindM m f)"
  by (rule goes_bind [where Q = "\<lambda>sp' n' _. sp' = sp \<and> n' = n"]) (auto intro: goes_quiet)

lemma goes_conseq: "goes sp n Q m \<Longrightarrow> (\<And>sp' n' a. extends sp sp' \<Longrightarrow> n' \<le> n \<Longrightarrow> Q sp' n' a \<Longrightarrow> P sp' n' a) \<Longrightarrow> goes sp n P m"
  unfolding goes_def by meson

lemma has_mono: "has sp n p \<Longrightarrow> n \<le> k \<Longrightarrow> has sp k p"
  by (simp add: has_def)

lemma goes_if [goes_intros]:
  "(c \<Longrightarrow> goes sp n P m) \<Longrightarrow> (\<not> c \<Longrightarrow> goes sp n P m') \<Longrightarrow> goes sp n P (if c then m else m')"
  by simp

lemma goes_option [goes_intros]:
  "(x = None \<Longrightarrow> goes sp n P m) \<Longrightarrow> (\<And>a. x = Some a \<Longrightarrow> goes sp n P (f a))
     \<Longrightarrow> goes sp n P (case x of None \<Rightarrow> m | Some a \<Rightarrow> f a)"
  by (cases x) auto

lemma goes_prod [goes_intros]:
  "(\<And>a b. x = (a, b) \<Longrightarrow> goes sp n P (f a b)) \<Longrightarrow> goes sp n P (case x of (a, b) \<Rightarrow> f a b)"
  by (cases x) auto

lemma quiet_return [quiet_intros]: "quiet sp (returnM a)"
  by (auto simp: quiet_def)

lemma quiet_bind [quiet_intros]:
  assumes "quiet sp m" and "\<And>a. quiet sp (f a)"
  shows "quiet sp (bindM m f)"
  unfolding quiet_def
proof (intro allI impI)
  fix p n
  assume "has sp n p"
  with assms(1) obtain a q where "m p = Some (Inr a, q)" "has sp n q" by (rule quietD)
  moreover from assms(2) this(2) obtain b r where "f a q = Some (Inr b, r)" "has sp n r" by (rule quietD)
  ultimately show "\<exists>a p'. bindM m f p = Some (Inr a, p') \<and> has sp n p'" by simp
qed

lemma quiet_if [quiet_intros]: "(c \<Longrightarrow> quiet sp m) \<Longrightarrow> (\<not> c \<Longrightarrow> quiet sp m') \<Longrightarrow> quiet sp (if c then m else m')"
  by simp

lemma quiet_option [quiet_intros]:
  "(x = None \<Longrightarrow> quiet sp m) \<Longrightarrow> (\<And>a. x = Some a \<Longrightarrow> quiet sp (f a)) \<Longrightarrow> quiet sp (case x of None \<Rightarrow> m | Some a \<Rightarrow> f a)"
  by (cases x) auto

lemma quiet_prod [quiet_intros]: "(\<And>a b. x = (a, b) \<Longrightarrow> quiet sp (f a b)) \<Longrightarrow> quiet sp (case x of (a, b) \<Rightarrow> f a b)"
  by (cases x) auto

lemma quiet_get [quiet_intros]: "quiet sp getM"
  by (auto simp: quiet_def)

lemma has_store:
  "has sp n p \<Longrightarrow> storeOf p' = storeOf p \<Longrightarrow> ringOk p' \<Longrightarrow> look.left p' \<le> k \<Longrightarrow> has sp k p'"
  by (simp add: has_def storeOf_def)

lemma quiet_peekAt [quiet_intros]: "k < parserLookahead \<Longrightarrow> quiet sp (peekAtM k)"
  unfolding quiet_def
proof (intro allI impI)
  fix p n
  assume k: "k < parserLookahead" and p: "has sp n p"
  then have "ringOk p" by (simp add: has_def)
  from peekAt_spec [OF this k] obtain q where q: "peekAt k p = (ahead p k, q)" "ringOk q" "ahead q = ahead p" "storeOf q = storeOf p"
    by blast
  then have "has sp n q" using has_store [OF p q(4,2), of n] look.left_same [OF q(3)] p by (simp add: has_def)
  then show "\<exists>a p'. peekAtM k p = Some (Inr a, p') \<and> has sp n p'" using q by (simp add: peekAtM_def)
qed

lemma quiet_peek [quiet_intros]: "quiet sp peekM"
  unfolding peekM_def by (rule quiet_peekAt) (simp add: parserLookahead_def)

lemma goes_advance [goes_intros]: "(\<And>t. P sp (n - 1) t) \<Longrightarrow> goes sp n P advanceM"
  unfolding goes_def
proof (intro allI impI)
  fix p
  assume P: "\<And>t. P sp (n - 1) t" and p: "has sp n p"
  then have r: "ringOk p" by (simp add: has_def)
  from advanceToken_spec [OF r] obtain q where q: "advanceToken p = (ahead p 0, q)" "ringOk q"
    "ahead q = (\<lambda>k. ahead p (Suc k))" "storeOf q = storeOf p" by blast
  have "look.left q \<le> n - 1" using look.left_pop [OF r q(3)] p by (simp add: has_def diff_le_mono)
  from has_store [OF p q(4,2) this] q(1) P
  show "\<exists>a p' sp' n'. advanceM p = Some (Inr a, p') \<and> extends sp sp' \<and> n' \<le> n \<and> has sp' n' p' \<and> P sp' n' a"
    by (intro exI [of _ "ahead p 0"] exI [of _ q] exI [of _ sp] exI [of _ "n - 1"]) (simp add: advanceM_def)
qed

lemma goes_bind_advance [goes_intros]: "(\<And>t. goes sp (n - 1) P (f t)) \<Longrightarrow> goes sp n P (bindM advanceM f)"
  by (rule goes_bind [where Q = "\<lambda>sp' n' _. sp' = sp \<and> n' = n - 1", OF goes_advance]) auto

lemma look_update [simp]:
  "ahead (p\<lparr>psArena := a\<rparr>) = ahead p" "ahead (p\<lparr>psErrors := es\<rparr>) = ahead p" "ahead (p\<lparr>psLimited := b\<rparr>) = ahead p"
  "ahead (p\<lparr>psNextID := i\<rparr>) = ahead p" "ahead (p\<lparr>psArena := a, psNextID := i\<rparr>) = ahead p"
  by (simp_all add: ahead_def fun_eq_iff)

lemma ring_update [simp]:
  "ringOk (p\<lparr>psArena := a\<rparr>) = ringOk p" "ringOk (p\<lparr>psErrors := es\<rparr>) = ringOk p" "ringOk (p\<lparr>psLimited := b\<rparr>) = ringOk p"
  "ringOk (p\<lparr>psArena := a, psNextID := i\<rparr>) = ringOk p"
  by (simp_all add: ringOk_def)

lemma left_update [simp]:
  "look.left (p\<lparr>psArena := a\<rparr>) = look.left p" "look.left (p\<lparr>psErrors := es\<rparr>) = look.left p"
  "look.left (p\<lparr>psLimited := b\<rparr>) = look.left p" "look.left (p\<lparr>psArena := a, psNextID := i\<rparr>) = look.left p"
  by (rule look.left_same, simp)+

lemma has_recordError: "has sp n p \<Longrightarrow> has sp n (recordError msg line col p)"
  by (simp add: has_def recordError_def)

lemma quiet_err [quiet_intros]: "quiet sp (errM msg tok)"
  by (simp add: quiet_def errM_def has_recordError)

lemma length_spine [simp]: "length (spineOf ns) = length ns"
  by (simp add: spineOf_def)

lemma quiet_setNode:
  assumes "known sp ref" and "\<And>n. (NdID (f n), NdParent (f n), NdDepth (f n)) = (NdID n, NdParent n, NdDepth n)"
  shows "quiet sp (setNode ref f)"
  unfolding quiet_def
proof (intro allI impI)
  fix p n
  assume p: "has sp n p"
  let ?ns = "arenaNodes (psArena p)"
  have i: "ref - 1 < length ?ns" using p assms(1) by (auto simp: has_def known_def)
  have ok: "arenaOk (psArena p)" using p by (simp add: has_def)
  have "spineOf (?ns[ref - 1 := f (?ns ! (ref - 1))]) = spineOf ?ns"
    using i assms(2) by (auto simp: spineOf_def intro!: nth_equalityI simp: nth_list_update)
  then have "has sp n (p\<lparr>psArena := changeNode (ref - 1) f (psArena p)\<rparr>)"
    using p changeNode_ok [OF ok i, of f] by (simp add: has_def)
  then show "\<exists>a p'. setNode ref f p = Some (Inr a, p') \<and> has sp n p'" by (simp add: setNode_def)
qed

lemma quiet_setEnd [quiet_intros]: "known sp ref \<Longrightarrow> quiet sp (setEnd ref line col)"
  unfolding setEnd_def by (rule quiet_setNode) simp_all

lemma quiet_setKind [quiet_intros]: "known sp ref \<Longrightarrow> quiet sp (setKind ref kind)"
  unfolding setKind_def by (rule quiet_setNode) simp_all

lemma quiet_readNode [quiet_intros]: "known sp ref \<Longrightarrow> quiet sp (readNode ref)"
  by (auto simp: quiet_def readNode_def known_def has_def nodeAt_items)

lemma quiet_endAtChild [quiet_intros]: "known sp ref \<Longrightarrow> known sp c \<Longrightarrow> quiet sp (endAtChild ref c)"
  unfolding endAtChild_def by (intro quiet_intros)

lemma goes_bind_addNode:
  assumes "fits sp (NdDepth nd)" and "inside sp (NdParent nd) (NdDepth nd)"
    and "goes (sp @ [(Suc (length sp), NdParent nd, NdDepth nd)]) n P (f (Suc (length sp)))"
  shows "goes sp n P (bindM (addNode nd) f)"
proof (rule goes_bind [where Q = "\<lambda>sp' n' ref. sp' = sp @ [(Suc (length sp), NdParent nd, NdDepth nd)] \<and> n' = n \<and> ref = Suc (length sp)"])
  let ?sp = "sp @ [(Suc (length sp), NdParent nd, NdDepth nd)]"
  show "goes sp n (\<lambda>sp' n' ref. sp' = ?sp \<and> n' = n \<and> ref = Suc (length sp)) (addNode nd)"
    unfolding goes_def
  proof (intro allI impI)
    fix p
    assume p: "has sp n p"
    then have "arenaOk (psArena p)" "spineOk sp" by (simp_all add: has_def)
    then have q: "has ?sp n (p\<lparr>psArena := newNode (nd\<lparr>NdID := psNextID p\<rparr>) (psArena p), psNextID := psNextID p + 1\<rparr>)"
      using p newNode_ok [of "psArena p"] spineOk_snoc [OF _ assms(1,2)] by (simp add: has_def spineOf_def)
    have "addNode nd p = Some (Inr (Suc (length sp)),
        p\<lparr>psArena := newNode (nd\<lparr>NdID := psNextID p\<rparr>) (psArena p), psNextID := psNextID p + 1\<rparr>)"
      using p by (simp add: addNode_def has_def)
    then show "\<exists>a p' sp' n'. addNode nd p = Some (Inr a, p') \<and> extends sp sp' \<and> n' \<le> n \<and> has sp' n' p'
        \<and> sp' = ?sp \<and> n' = n \<and> a = Suc (length sp)"
      using q extends_snoc by blast
  qed
qed (use assms(3) in simp)


text \<open>Sequencing is decomposed down to single operations.\<close>

lemma bindM_assoc: "bindM (bindM m f) g = bindM m (\<lambda>a. bindM (f a) g)"
  by (rule ext) (simp add: bindM_def split: option.split sum.split prod.split)

lemma bindM_return: "bindM (returnM a) f = f a"
  by (rule ext) simp

lemma goes_bind_flat [goes_intros]:
  "goes sp n P (bindM op (\<lambda>b. bindM (g b) f)) \<Longrightarrow> goes sp n P (bindM (bindM op g) f)"
  "goes sp n P (f a) \<Longrightarrow> goes sp n P (bindM (returnM a) f)"
  "(c \<Longrightarrow> goes sp n P (bindM m f)) \<Longrightarrow> (\<not> c \<Longrightarrow> goes sp n P (bindM m' f)) \<Longrightarrow> goes sp n P (bindM (if c then m else m') f)"
  "(x = None \<Longrightarrow> goes sp n P (bindM m f)) \<Longrightarrow> (\<And>c. x = Some c \<Longrightarrow> goes sp n P (bindM (h c) f))
     \<Longrightarrow> goes sp n P (bindM (case x of None \<Rightarrow> m | Some c \<Rightarrow> h c) f)"
  by (simp_all add: bindM_assoc bindM_return split: option.split)

lemma goes_bind_prod [goes_intros]:
  "(\<And>a b. x = (a, b) \<Longrightarrow> goes sp n P (bindM (h a b) f)) \<Longrightarrow> goes sp n P (bindM (case x of (a, b) \<Rightarrow> h a b) f)"
  by (cases x) simp

lemma quiet_setBlockEnd:
  "known sp ref \<Longrightarrow> (\<And>c. snd (snd e) = Some c \<Longrightarrow> known sp c) \<Longrightarrow> quiet sp (setBlockEnd ref e)"
  unfolding setBlockEnd_def by (intro quiet_intros) auto

lemmas quiet_ops = quiet_peek quiet_peekAt quiet_get quiet_err quiet_setEnd quiet_setKind quiet_setNode quiet_readNode
  quiet_endAtChild quiet_setBlockEnd

lemmas goes_ops [goes_intros] = quiet_ops [THEN goes_quiet] quiet_ops [THEN goes_bind_quiet]

lemma goes_bind_startNode [goes_intros]:
  assumes "fits sp depth" and "inside sp parent depth"
    and "\<And>sp1 ref. extends sp sp1 \<Longrightarrow> known sp1 ref \<Longrightarrow> inside sp1 ref (Suc depth) \<Longrightarrow> goes sp1 n P (f ref)"
  shows "goes sp n P (bindM (addNode (startNode parent depth key operator val kind tok)) f)"
proof (rule goes_bind_addNode)
  let ?nd = "startNode parent depth key operator val kind tok"
  show "fits sp (NdDepth ?nd)" "inside sp (NdParent ?nd) (NdDepth ?nd)" using assms(1,2) by (simp_all add: startNode_def)
  show "goes (sp @ [(Suc (length sp), NdParent ?nd, NdDepth ?nd)]) n P (f (Suc (length sp)))"
    by (rule assms(3)) (simp_all add: extends_def known_def inside_def childDepth_def startNode_def)
qed

section \<open>The grammar\<close>

text \<open>What a statement relies on: the deeper \<^verbatim>\<open>parseBlock\<close> returns, and a last child it names is a node.\<close>

definition endKnown :: "spine \<Rightarrow> nat \<Rightarrow> blockEnd \<Rightarrow> bool" where
  "endKnown sp n e \<longleftrightarrow> (\<forall>c. snd (snd e) = Some c \<longrightarrow> known sp c)"

definition nestedOk :: "(nat \<Rightarrow> blockEnd parse_m) \<Rightarrow> nat \<Rightarrow> bool" where
  "nestedOk nested depth \<longleftrightarrow>
     (\<forall>sp n ref. known sp ref \<longrightarrow> inside sp ref (Suc depth) \<longrightarrow> goes sp n endKnown (nested ref))"

definition takesOne :: "nat \<Rightarrow> spine \<Rightarrow> nat \<Rightarrow> nat \<Rightarrow> bool" where
  "takesOne n sp n' ref \<longleftrightarrow> n' \<le> n - 1 \<and> known sp ref"

lemma goes_bind_nested:
  assumes "nestedOk nested depth" and "known sp ref" and "inside sp ref (Suc depth)"
    and "\<And>sp1 n1 e. extends sp sp1 \<Longrightarrow> n1 \<le> n \<Longrightarrow> known sp1 ref \<Longrightarrow> endKnown sp1 n1 e \<Longrightarrow> goes sp1 n1 P (f e)"
  shows "goes sp n P (bindM (nested ref) f)"
  using assms(1,2,3) by (intro goes_bind [OF _ assms(4)]) (auto simp: nestedOk_def intro: known_extends)

lemma endKnownD: "endKnown sp n e \<Longrightarrow> e = (a, b, Some c) \<Longrightarrow> known sp c"
  by (simp add: endKnown_def)

lemma goes_anonymousBlock:
  assumes "nestedOk nested depth" and "fits sp depth" and "inside sp parent depth"
  shows "goes sp n (takesOne n) (anonymousBlock nested parent depth)"
  unfolding anonymousBlock_def
  using assms(2,3)
  by (intro goes_intros goes_bind_nested [OF assms(1)]) (auto simp: takesOne_def endKnown_def intro: known_extends)


text \<open>A GUI prefix form that is not there leaves the nodes alone.\<close>

definition prefixedTakes :: "spine \<Rightarrow> nat \<Rightarrow> spine \<Rightarrow> nat \<Rightarrow> nat option \<Rightarrow> bool" where
  "prefixedTakes sp0 n sp n' r \<longleftrightarrow> (case r of None \<Rightarrow> sp = sp0 | Some ref \<Rightarrow> n' \<le> n - 1 \<and> known sp ref)"

lemma goes_guiBlock:
  assumes "nestedOk nested depth" and "fits sp depth" and "inside sp parent depth" and "n \<le> k - 1"
  shows "goes sp n (prefixedTakes sp0 k) (guiBlock nested parent depth first key operator val)"
  unfolding guiBlock_def
  using assms(2-4)
  by (intro goes_intros goes_bind_nested [OF assms(1)])
    (auto simp: prefixedTakes_def endKnown_def intro: known_extends inside_extends)

lemma goes_guiNamedBlock:
  assumes "nestedOk nested depth" and "fits sp depth" and "inside sp parent depth"
  shows "goes sp n (prefixedTakes sp n) (guiNamedBlock nested parent depth first shape)"
  unfolding guiNamedBlock_def
  using assms(2,3)
  by (intro goes_intros goes_guiBlock [OF assms(1)]) (auto simp: prefixedTakes_def parserLookahead_def)

lemma goes_guiType:
  assumes "nestedOk nested depth" and "fits sp depth" and "inside sp parent depth"
  shows "goes sp n (prefixedTakes sp n) (guiType nested parent depth first)"
  unfolding guiType_def
  using assms(2,3)
  by (intro goes_intros goes_bind_nested [OF assms(1)])
    (auto simp: prefixedTakes_def endKnown_def parserLookahead_def intro: known_extends inside_extends)

lemma goes_guiPrefixed:
  assumes "nestedOk nested depth" and "fits sp depth" and "inside sp parent depth"
  shows "goes sp n (prefixedTakes sp n) (guiPrefixedStatement nested parent depth)"
  unfolding guiPrefixedStatement_def
  by (intro goes_intros goes_guiNamedBlock [OF assms] goes_guiType [OF assms]) (simp_all add: prefixedTakes_def)

abbreviation anyEnd :: "spine \<Rightarrow> nat \<Rightarrow> 'a \<Rightarrow> bool" where
  "anyEnd \<equiv> \<lambda>_ _ _. True"

lemma goes_atomValue:
  assumes "nestedOk nested depth" and "known sp ref" and "inside sp ref (Suc depth)"
  shows "goes sp n anyEnd (atomValue nested ref val)"
  unfolding atomValue_def
  using assms(2,3)
  by (intro goes_intros goes_bind_nested [OF assms(1)]) (auto intro: known_extends inside_extends)

lemma goes_operatorValue:
  assumes "nestedOk nested depth" and "known sp ref" and "inside sp ref (Suc depth)"
  shows "goes sp n anyEnd (operatorValue nested ref op)"
  unfolding operatorValue_def
  using assms(2,3)
  by (intro goes_intros goes_bind_nested [OF assms(1)] goes_atomValue [OF assms(1)])
    (auto simp: endKnown_def intro: known_extends inside_extends)

lemma goes_bind_any:
  assumes "goes sp n anyEnd m" and "\<And>sp1 n1 a. extends sp sp1 \<Longrightarrow> n1 \<le> n \<Longrightarrow> goes sp1 n1 P (f a)"
  shows "goes sp n P (bindM m f)"
  using assms by (rule goes_bind)

lemma goes_plainStatement:
  assumes "nestedOk nested depth" and "fits sp depth" and "inside sp parent depth"
  shows "goes sp n (takesOne n) (plainStatement nested parent depth)"
  unfolding plainStatement_def
  using assms(2,3)
  by (intro goes_intros goes_bind_nested [OF assms(1)] goes_bind_any [OF goes_operatorValue [OF assms(1)]])
    (auto simp: takesOne_def endKnown_def intro: known_extends inside_extends)

lemma goes_statement:
  assumes "nestedOk nested depth" and "fits sp depth" and "inside sp parent depth"
  shows "goes sp n (takesOne n) (statement nested parent depth)"
proof -
  have plain: "goes sp n1 (takesOne n) (plainStatement nested parent depth)" if "n1 \<le> n" for n1
    by (rule goes_conseq [OF goes_plainStatement [OF assms]]) (use that in \<open>auto simp: takesOne_def\<close>)
  have rest: "goes sp1 n1 (takesOne n) (case r of Some ref \<Rightarrow> returnM ref | None \<Rightarrow> plainStatement nested parent depth)"
    if "n1 \<le> n" "prefixedTakes sp n sp1 n1 r" for sp1 n1 r
    using that plain by (cases r) (auto simp: prefixedTakes_def takesOne_def intro!: goes_intros)
  show ?thesis
    unfolding statement_def
    by (intro goes_intros goes_bind [OF goes_guiPrefixed [OF assms]] rest plain) auto
qed


section \<open>Blocks\<close>

lemma goes_bind_peek:
  assumes "\<And>tok. (TkKind tok \<noteq> TokenEOF \<Longrightarrow> 0 < n) \<Longrightarrow> goes sp n P (f tok)"
  shows "goes sp n P (bindM peekM f)"
  unfolding goes_def
proof (intro allI impI)
  fix p
  assume p: "has sp n p"
  then have r: "ringOk p" by (simp add: has_def)
  from peekAt_spec [OF r, of 0] obtain q where q: "peekAt 0 p = (ahead p 0, q)" "ringOk q" "ahead q = ahead p" "storeOf q = storeOf p"
    by (auto simp: parserLookahead_def)
  have h: "has sp n q" using has_store [OF p q(4,2), of n] look.left_same [OF q(3)] p by (simp add: has_def)
  have "0 < n" if "TkKind (ahead p 0) \<noteq> TokenEOF"
    using look.left_0 [OF r] that p by (simp add: has_def)
  from goesD [OF assms [OF this] h] obtain a p' sp' n' where
    "f (ahead p 0) q = Some (Inr a, p')" "extends sp sp'" "n' \<le> n" "has sp' n' p'" "P sp' n' a" by blast
  then show "\<exists>a p' sp' n'. bindM peekM f p = Some (Inr a, p') \<and> extends sp sp' \<and> n' \<le> n \<and> has sp' n' p' \<and> P sp' n' a"
    using q(1) by (metis (mono_tags, lifting) bindM_Inr case_prod_conv peekAtM_def peekM_def)
qed

lemma goes_bind_within:
  assumes "fits sp depth \<Longrightarrow> goes sp n P (f True)" and "goes sp n P (f False)"
  shows "goes sp n P (bindM (withinLimits tok depth) f)"
  unfolding goes_def
proof (intro allI impI)
  fix p
  assume p: "has sp n p"
  have "\<exists>fit q. withinLimits tok depth p = Some (Inr fit, q) \<and> has sp n q \<and> (fit \<longrightarrow> fits sp depth)"
  proof (cases "depth < MaxDepth_script \<and> int (psNextID p) \<le> MaxNodes_script")
    case True
    then show ?thesis using p by (auto simp: withinLimits_def fits_def has_def)
  next
    case False
    let ?p = "recordError ''script exceeds parser depth or node limit'' (TkLine tok) (TkCol tok) p"
    let ?q = "?p\<lparr>psLimited := True, psLexer := (psLexer ?p)\<lparr>lxPos := sourceLen (psLexer ?p)\<rparr>, psBuffered := 0\<rparr>"
    have "TkKind (ahead ?q k) = TokenEOF" for k
      using lexAll_at_end [of "(psLexer ?p)\<lparr>lxPos := sourceLen (psLexer ?p)\<rparr>" k] by (simp add: ahead_def sourceLen_def)
    moreover from this have r: "ringOk ?q" using p by (simp add: ringOk_def has_def recordError_def)
    ultimately have "look.left ?q = 0" using look.left_0 [OF r] by blast
    then have "has sp n ?q" using has_recordError [OF p] r by (simp add: has_def)
    then show ?thesis using False by (auto simp: withinLimits_def Let_def ex_bool_eq)
  qed
  then obtain fit q where w: "withinLimits tok depth p = Some (Inr fit, q)" "has sp n q" "fit \<longrightarrow> fits sp depth" by blast
  have "goes sp n P (f fit)" using assms w(3) by (cases fit) simp_all
  from goesD [OF this w(2)] obtain a p' sp' n' where
    "f fit q = Some (Inr a, p')" "extends sp sp'" "n' \<le> n" "has sp' n' p'" "P sp' n' a" by blast
  then show "\<exists>a p' sp' n'. bindM (withinLimits tok depth) f p = Some (Inr a, p') \<and> extends sp sp' \<and> n' \<le> n \<and> has sp' n' p' \<and> P sp' n' a"
    using bindM_Inr [where m = "withinLimits tok depth", OF w(1)] by metis
qed

lemma quiet_unclosed: "parent \<le> length sp \<Longrightarrow> quiet sp (unclosedBlock parent)"
  unfolding unclosedBlock_def by (intro quiet_intros) (simp add: known_def)

lemma quiet_messages: "quiet sp (unexpectedClose close)" "quiet sp (expectedStatement tok)"
  unfolding unexpectedClose_def expectedStatement_def by (rule quiet_err)+

lemmas goes_messages = quiet_unclosed [THEN goes_bind_quiet] quiet_messages [THEN goes_bind_quiet]

lemma blockLoop_unfold:
  "blockLoop nested parent depth latest =
     bindM peekM (\<lambda>tok.
       if TkKind tok = TokenEOF then
         bindM (unclosedBlock parent) (\<lambda>_. returnM (zeroToken, False, latest))
       else if TkKind tok = TokenRBrace then
         bindM advanceM (\<lambda>close.
           if parent = 0
           then bindM (unexpectedClose close) (\<lambda>_. blockLoop nested parent depth latest)
           else returnM (close, True, latest))
       else if TkKind tok = TokenError then
         bindM (errM (TkText tok) tok) (\<lambda>_. bindM advanceM (\<lambda>_. blockLoop nested parent depth latest))
       else if TkKind tok = TokenLBrace then
         bindM (withinLimits tok depth) (\<lambda>fits.
           if \<not> fits then returnM (zeroToken, False, latest)
           else bindM (anonymousBlock nested parent depth) (\<lambda>n. blockLoop nested parent depth (Some n)))
       else if TkKind tok = TokenIdent \<or> TkKind tok = TokenString then
         bindM (withinLimits tok depth) (\<lambda>fits.
           if \<not> fits then returnM (zeroToken, False, latest)
           else bindM (statement nested parent depth) (\<lambda>n. blockLoop nested parent depth (Some n)))
       else
         bindM (expectedStatement tok) (\<lambda>_. bindM advanceM (\<lambda>_.
           blockLoop nested parent depth latest)))"
  by (rule ext) (rule blockLoop.simps)

lemma goes_blockLoop:
  assumes nested: "nestedOk nested depth"
  shows "inside sp parent depth \<Longrightarrow> (\<And>c. latest = Some c \<Longrightarrow> known sp c)
    \<Longrightarrow> goes sp n endKnown (blockLoop nested parent depth latest)"
proof (induction n arbitrary: sp latest rule: less_induct)
  case (less n)
  have stop: "endKnown sp k (close, closed, latest)" for k close closed
    using less.prems(2) by (simp add: endKnown_def)
  have again: "goes sp (n - 1) endKnown (blockLoop nested parent depth latest)" if "0 < n"
    using that less by simp
  have more: "goes sp1 n1 endKnown (blockLoop nested parent depth (Some ref))"
    if "0 < n" "extends sp sp1" "takesOne n sp1 n1 ref" for sp1 n1 ref
    using that less.prems(1) by (intro less.IH) (auto simp: takesOne_def intro: inside_extends)
  have one: "goes sp n endKnown (bindM m (\<lambda>ref. blockLoop nested parent depth (Some ref)))"
    if "0 < n" "goes sp n (takesOne n) m" for m
    using goes_bind [OF that(2) more [OF that(1)]] .
  show ?case
    by (subst blockLoop_unfold, rule goes_bind_peek)
      (intro goes_if goes_bind_within goes_messages goes_bind_advance goes_ops goes_return stop again
        one goes_anonymousBlock goes_statement nested less.prems(1);
       use less.prems(1) in \<open>simp add: inside_def\<close>)
qed

lemma goes_parseBlock:
  "inside sp parent depth \<Longrightarrow> depth + levels \<ge> MaxDepth_script \<Longrightarrow> goes sp n endKnown (parseBlock levels parent depth)"
proof (induction levels arbitrary: sp parent depth n)
  case 0
  have "nestedOk (\<lambda>_. returnM (zeroToken, False, None)) depth"
    by (auto simp: nestedOk_def endKnown_def intro: goes_return)
  from goes_blockLoop [OF this 0(1), of None n] show ?case by simp
next
  case (Suc levels)
  have "nestedOk (\<lambda>ref. parseBlock levels ref (depth + 1)) depth"
    using Suc by (simp add: nestedOk_def)
  from goes_blockLoop [OF this Suc.prems(1), of None n] show ?case by simp
qed

lemma has_newParser: "has [] (look.left (newParser l gui)) (newParser l gui)"
  using newParser_ring newArena_ok by (simp add: has_def newParser_def spineOf_def spineOk_def MaxNodes_script_def)


text \<open>The levels are as many as the depth limit leaves: with the depth limit reached, the deeper
  \<^verbatim>\<open>parseBlock\<close> is never called.\<close>

definition agrees :: "'a parse_m \<Rightarrow> 'a parse_m \<Rightarrow> bool" where
  "agrees m m' \<longleftrightarrow> (\<forall>p r. m p = Some r \<longrightarrow> m' p = Some r)"

lemma agreesD: "agrees m m' \<Longrightarrow> m p = Some r \<Longrightarrow> m' p = Some r"
  unfolding agrees_def by blast

lemma agrees_refl: "agrees m m"
  by (simp add: agrees_def)

lemma agrees_bind: "(\<And>a. agrees (f a) (f' a)) \<Longrightarrow> agrees (bindM m f) (bindM m f')"
  by (auto simp: agrees_def bindM_apply split: option.splits sum.splits)

lemma agrees_if: "(c \<Longrightarrow> agrees m m') \<Longrightarrow> (\<not> c \<Longrightarrow> agrees n n') \<Longrightarrow> agrees (if c then m else n) (if c then m' else n')"
  by simp

lemma agrees_within:
  "MaxDepth_script \<le> depth \<Longrightarrow> agrees (f False) (f' False)
     \<Longrightarrow> agrees (bindM (withinLimits tok depth) f) (bindM (withinLimits tok depth) f')"
  by (simp add: agrees_def bindM_apply withinLimits_def Let_def)

lemma blockLoop_deep:
  assumes "MaxDepth_script \<le> depth" and "blockLoop nested parent depth latest p = Some r"
  shows "blockLoop nested' parent depth latest p = Some r"
  apply (rule blockLoop.raw_induct [where P = "\<lambda>nested parent depth latest p r. MaxDepth_script \<le> depth
    \<longrightarrow> blockLoop nested' parent depth latest p = Some r", rule_format, OF _ assms(2,1)])
  subgoal premises prems for loop nested parent depth latest p r
  proof -
    have ih: "agrees (loop nested parent depth latest) (blockLoop nested' parent depth latest)" for latest
      using prems(1,3) by (simp add: agrees_def)
    show ?thesis
      by (rule agreesD [where p = p, rotated], rule prems(2), subst blockLoop_unfold)
        (rule agrees_within [OF prems(3)] agrees_bind agrees_if ih agrees_refl | simp)+
  qed
  done

lemma blockLoop_deep_eq: "MaxDepth_script \<le> depth \<Longrightarrow> blockLoop nested parent depth latest = blockLoop nested' parent depth latest"
proof
  fix p
  assume d: "MaxDepth_script \<le> depth"
  show "blockLoop nested parent depth latest p = blockLoop nested' parent depth latest p"
    using blockLoop_deep [OF d, of nested parent latest p _ nested'] blockLoop_deep [OF d, of nested' parent latest p _ nested]
    by (metis not_Some_eq)
qed

lemma parseBlock_levels: "MaxDepth_script \<le> depth + levels \<Longrightarrow> parseBlock (Suc levels) parent depth = parseBlock levels parent depth"
proof (induction levels arbitrary: parent depth)
  case 0
  then show ?case using blockLoop_deep_eq by simp
next
  case (Suc levels)
  have "(\<lambda>ref. parseBlock (Suc levels) ref (depth + 1)) = (\<lambda>ref. parseBlock levels ref (depth + 1))"
    using Suc by (intro ext Suc.IH) simp
  then show ?case by (simp only: parseBlock.simps)
qed

section \<open>Whole files\<close>

lemma parseLexer_result:
  obtains p sp n where "parseLexer lexer gui = Some (Inr (fileOf p))" and "has sp n p"
proof -
  have "goes [] (look.left (newParser lexer gui)) endKnown (parseBlock MaxDepth_script 0 0)"
    by (rule goes_parseBlock) simp_all
  from goesD [OF this has_newParser] obtain e p sp n where
    "parseBlock MaxDepth_script 0 0 (newParser lexer gui) = Some (Inr e, p)" "has sp n p" by metis
  then show thesis using that by (simp add: parseLexer_def)
qed

lemma fileOf_nodes:
  assumes "has sp n p"
  shows "FlNodes (fileOf p) = arenaNodes (psArena p)"
proof (rule nth_equalityI)
  have len: "psNextID p = Suc (length (arenaNodes (psArena p)))" and ok: "arenaOk (psArena p)"
    using assms by (auto simp: has_def)
  then show "length (FlNodes (fileOf p)) = length (arenaNodes (psArena p))" by (simp add: fileOf_def del: upt_Suc)
  fix i
  assume "i < length (FlNodes (fileOf p))"
  then show "FlNodes (fileOf p) ! i = arenaNodes (psArena p) ! i"
    using len nodeAt_items(1) [OF ok] by (simp add: fileOf_def del: upt_Suc)
qed


text \<open>The invariant of a parsed file.\<close>

definition fileOk :: "ScriptFile \<Rightarrow> bool" where
  "fileOk file \<longleftrightarrow>
     int (length (FlNodes file)) \<le> MaxNodes_script \<and> length (FlErrors file) \<le> 1000
     \<and> (\<forall>i < length (FlNodes file).
          NdID (FlNodes file ! i) = Suc i \<and> NdParent (FlNodes file ! i) \<le> i \<and> NdDepth (FlNodes file ! i) < MaxDepth_script
          \<and> NdDepth (FlNodes file ! i)
              = (if NdParent (FlNodes file ! i) = 0 then 0 else Suc (NdDepth (FlNodes file ! (NdParent (FlNodes file ! i) - 1)))))
     \<and> trRoots (FlTree file) = childrenOf (map NdParent (FlNodes file)) 0
     \<and> trChildren (FlTree file) = [] # map (childrenOf (map NdParent (FlNodes file))) [1 ..< length (FlNodes file) + 1]"

lemma fileOf_ok:
  assumes "has sp n p"
  shows "fileOk (fileOf p)"
proof -
  let ?ns = "arenaNodes (psArena p)"
  note nodes = fileOf_nodes [OF assms]
  have sp: "sp = spineOf ?ns" and ok: "spineOk sp" and errors: "length (psErrors p) \<le> 1000" using assms by (simp_all add: has_def)
  have at: "NdID (?ns ! i) = Suc i \<and> NdParent (?ns ! i) \<le> i \<and> NdDepth (?ns ! i) < MaxDepth_script
      \<and> NdDepth (?ns ! i) = (if NdParent (?ns ! i) = 0 then 0 else Suc (NdDepth (?ns ! (NdParent (?ns ! i) - 1))))"
    if "i < length ?ns" for i
    using ok that unfolding spineOk_def sp by (force simp: spineOf_def childDepth_def)
  have below: "\<forall>parent \<in> set (map NdParent ?ns). parent \<le> length (map NdParent ?ns)"
    using at by (auto simp: in_set_conv_nth) (meson le_less_trans less_imp_le)
  have tree: "FlTree (fileOf p) = buildTree (map NdParent ?ns)" using nodes by (simp add: fileOf_def Let_def)
  show ?thesis
    unfolding fileOk_def nodes tree
  proof (intro conjI)
    show "int (length ?ns) \<le> MaxNodes_script" using ok by (simp add: spineOk_def sp)
    show "length (FlErrors (fileOf p)) \<le> 1000" using errors by (simp add: fileOf_def Let_def)
  qed (use at in blast, use buildTree_children_aux [OF below] in \<open>simp_all del: upt_Suc\<close>)
qed

text \<open>C32. A parsed file is well formed, whatever the source: it has at most 500000 nodes, at most 1000
  errors, every node's id is its position, its parent comes before it, its depth is one more than its
  parent's and below 256, and the tree lists exactly the nodes under their parents in order.\<close>

theorem parse_well_formed:
  assumes "Parse text = Some (Inr file) \<or> ParseGUI text = Some (Inr file)"
  shows "fileOk file"
proof -
  obtain lexer gui where "parseLexer lexer gui = Some (Inr file)" using assms by (auto simp: Parse_def ParseGUI_def)
  moreover obtain p sp n where p: "parseLexer lexer gui = Some (Inr (fileOf p))" "has sp n p" by (rule parseLexer_result)
  ultimately show ?thesis using fileOf_ok [OF p(2)] by simp
qed

theorem parse_well_formed_witness:
  "\<exists>parsed. Parse ''{b}'' = Some (Inr parsed) \<and> map NdParent (FlNodes parsed) = [0, 1] \<and> fileOk parsed"
proof -
  have "case Parse ''{b}'' of Some (Inr f) \<Rightarrow> map NdParent (FlNodes f) = [0, 1] | _ \<Rightarrow> False" by code_simp
  then obtain parsed where parsed: "Parse ''{b}'' = Some (Inr parsed)" "map NdParent (FlNodes parsed) = [0, 1]"
    by (auto split: option.splits sum.splits)
  show ?thesis by (rule exI [of _ parsed]) (intro conjI parsed parse_well_formed [OF disjI1 [OF parsed(1)]])
qed

end
