(* ===== verification/TaskLimiter.thy ===== *)
theory TaskLimiter
  imports Prelude "HOL-Library.Multiset"
begin

text \<open>
  \<^verbatim>\<open>internal/mcpserver/server.go\<close>: the admission of tool calls. A session counts its running and its queued
  calls by class, and adds the same counts to counters that all sessions of the process share. The
  interface \<open>admission\<close> says what the session loop relies on, in terms of the multisets of the
  classes that run and that wait; the counters provide it.
\<close>

section \<open>Classes\<close>

datatype mcpTaskClass = ReadTask | HeavyTask | RasterTask

definition isExpensiveMCPTask :: "mcpTaskClass \<Rightarrow> bool" where
  "isExpensiveMCPTask c \<longleftrightarrow> c = HeavyTask \<or> c = RasterTask"

text \<open>A tool call's arguments as the classifier reads them: blank, not decodable, or the one field it looks
  at, trimmed and in lower case.\<close>

datatype callArguments = BlankArguments | BadArguments | FieldArguments bytes

definition healthTaskClass :: "callArguments \<Rightarrow> mcpTaskClass" where
  "healthTaskClass args =
     (case args of
        BlankArguments \<Rightarrow> ReadTask
      | BadArguments \<Rightarrow> HeavyTask
      | FieldArguments mode \<Rightarrow> if mode \<in> {'''', ''quick''} then ReadTask else HeavyTask)"

definition databaseTaskClass :: "callArguments \<Rightarrow> mcpTaskClass" where
  "databaseTaskClass args =
     (case args of
        BlankArguments \<Rightarrow> ReadTask
      | BadArguments \<Rightarrow> HeavyTask
      | FieldArguments operation \<Rightarrow> if operation \<in> {'''', ''list'', ''status''} then ReadTask else HeavyTask)"

text \<open>Blank arguments do not decode in the three classifiers that do not test for them.\<close>

definition workspaceTaskClass :: "callArguments \<Rightarrow> mcpTaskClass" where
  "workspaceTaskClass args =
     (case args of FieldArguments operation \<Rightarrow> if operation = ''capabilities'' then ReadTask else HeavyTask | _ \<Rightarrow> HeavyTask)"

definition dependencyTaskClass :: "callArguments \<Rightarrow> mcpTaskClass" where
  "dependencyTaskClass args =
     (case args of FieldArguments operation \<Rightarrow> if operation = ''event_chain'' then HeavyTask else ReadTask | _ \<Rightarrow> HeavyTask)"

definition saveTaskClass :: "callArguments \<Rightarrow> mcpTaskClass" where
  "saveTaskClass args =
     (case args of
        FieldArguments operation \<Rightarrow> if operation \<in> {''audit'', ''character''} then HeavyTask else ReadTask
      | _ \<Rightarrow> HeavyTask)"

text \<open>\<open>None\<close> is a call that does not decode; the name is trimmed and in lower case.\<close>

definition classifyMCPTask :: "(bytes \<times> callArguments) option \<Rightarrow> mcpTaskClass" where
  "classifyMCPTask call =
     (case call of
        None \<Rightarrow> ReadTask
      | Some (name, args) \<Rightarrow>
          if name \<in> {''map_render'', ''map_terrain_edit'', ''map_split_province'', ''map_apply_split''} then RasterTask
          else if name = ''ck3_save'' then saveTaskClass args
          else if name = ''ck3_health'' then healthTaskClass args
          else if name = ''ck3_database'' then databaseTaskClass args
          else if name \<in> {''ck3_review'', ''ck3_preflight'', ''ck3_impact'', ''ck3_refresh'', ''ck3_package'', ''ck3_gui'',
            ''map_asset_audit'', ''map_province_mapping'', ''map_build_metric'', ''map_physical_context'', ''map_route'',
            ''map_migration_snapshot'', ''map_province_migration'', ''map_assignment_plan'', ''map_building_candidates''}
          then HeavyTask
          else if name = ''ck3_workspace'' then workspaceTaskClass args
          else if name = ''ck3_dependencies'' then dependencyTaskClass args
          else ReadTask)"

section \<open>Counters\<close>

definition maxMCPTasks :: int where "maxMCPTasks = 12"
definition maxMCPHeavyTasks :: int where "maxMCPHeavyTasks = 2"
definition maxMCPRasterTasks :: int where "maxMCPRasterTasks = 1"
definition maxMCPQueuedTasks :: int where "maxMCPQueuedTasks = 32"

text \<open>The part of the configuration that limits tasks.\<close>

record taskConfig =
  CfMaxTasks :: int
  CfMaxHeavyTasks :: int
  CfMaxRasterTasks :: int
  CfMaxQueuedTasks :: int

record mcpTaskLimiter =
  LmActive :: int
  LmHeavy :: int
  LmRaster :: int
  LmQueued :: int
  LmQueuedHeavy :: int
  LmQueuedRaster :: int
  LmMaxActive :: int
  LmMaxHeavy :: int
  LmMaxRaster :: int
  LmMaxQueued :: int
  LmTrackProcess :: bool

text \<open>\<^verbatim>\<open>processMCPTaskUsage\<close>\<close>

record processUsage =
  UsActive :: int
  UsHeavy :: int
  UsRaster :: int
  UsQueued :: int
  UsQueuedHeavy :: int
  UsQueuedRaster :: int

type_synonym taskPool = "mcpTaskLimiter \<times> processUsage"

definition orDefault :: "int \<Rightarrow> int \<Rightarrow> int" where
  "orDefault n d = (if n \<le> 0 then d else n)"

definition limits :: "mcpTaskLimiter \<Rightarrow> int \<times> int \<times> int" where
  "limits l = (orDefault (LmMaxActive l) maxMCPTasks, orDefault (LmMaxHeavy l) maxMCPHeavyTasks,
     orDefault (LmMaxRaster l) maxMCPRasterTasks)"

definition queueLimit :: "mcpTaskLimiter \<Rightarrow> int" where
  "queueLimit l = (if LmMaxQueued l > 0 then LmMaxQueued l else maxMCPQueuedTasks)"

definition newMCPTaskLimiter :: "taskConfig \<Rightarrow> mcpTaskLimiter" where
  "newMCPTaskLimiter cfg =
     \<lparr>LmActive = 0, LmHeavy = 0, LmRaster = 0, LmQueued = 0, LmQueuedHeavy = 0, LmQueuedRaster = 0,
      LmMaxActive = orDefault (CfMaxTasks cfg) maxMCPTasks, LmMaxHeavy = orDefault (CfMaxHeavyTasks cfg) maxMCPHeavyTasks,
      LmMaxRaster = orDefault (CfMaxRasterTasks cfg) maxMCPRasterTasks,
      LmMaxQueued = orDefault (CfMaxQueuedTasks cfg) maxMCPQueuedTasks, LmTrackProcess = True\<rparr>"

text \<open>Adding to the counters of running and of queued tasks; the process counters move along.\<close>

definition addRunning :: "int \<Rightarrow> int \<Rightarrow> int \<Rightarrow> processUsage \<Rightarrow> processUsage" where
  "addRunning a h r u = u\<lparr>UsActive := UsActive u + a, UsHeavy := UsHeavy u + h, UsRaster := UsRaster u + r\<rparr>"

definition addQueued :: "int \<Rightarrow> int \<Rightarrow> int \<Rightarrow> processUsage \<Rightarrow> processUsage" where
  "addQueued a h r u =
     u\<lparr>UsQueued := UsQueued u + a, UsQueuedHeavy := UsQueuedHeavy u + h, UsQueuedRaster := UsQueuedRaster u + r\<rparr>"

definition one_if :: "bool \<Rightarrow> int" where
  "one_if b = (if b then 1 else 0)"

definition acquireTask :: "mcpTaskClass \<Rightarrow> taskPool \<Rightarrow> bool \<times> taskPool" where
  "acquireTask c = (\<lambda>(l, u).
     let (maxActive, maxHeavy, maxRaster) = limits l in
     if LmActive l \<ge> maxActive then (False, l, u)
     else if isExpensiveMCPTask c \<and> LmHeavy l + LmRaster l \<ge> maxHeavy then (False, l, u)
     else if c = RasterTask \<and> LmRaster l \<ge> maxRaster then (False, l, u)
     else (True,
       l\<lparr>LmActive := LmActive l + 1, LmHeavy := LmHeavy l + one_if (c = HeavyTask), LmRaster := LmRaster l + one_if (c = RasterTask)\<rparr>,
       if LmTrackProcess l then addRunning 1 (one_if (c = HeavyTask)) (one_if (c = RasterTask)) u else u))"

definition enqueueTask :: "mcpTaskClass \<Rightarrow> taskPool \<Rightarrow> bool \<times> taskPool" where
  "enqueueTask c = (\<lambda>(l, u).
     if LmQueued l \<ge> queueLimit l then (False, l, u)
     else (True,
       l\<lparr>LmQueued := LmQueued l + 1, LmQueuedHeavy := LmQueuedHeavy l + one_if (c = HeavyTask),
         LmQueuedRaster := LmQueuedRaster l + one_if (c = RasterTask)\<rparr>,
       if LmTrackProcess l then addQueued 1 (one_if (c = HeavyTask)) (one_if (c = RasterTask)) u else u))"

definition dequeueTask :: "mcpTaskClass \<Rightarrow> taskPool \<Rightarrow> taskPool" where
  "dequeueTask c = (\<lambda>(l, u).
     if LmQueued l \<le> 0 then (l, u)
     else
      (l\<lparr>LmQueued := LmQueued l - 1, LmQueuedHeavy := LmQueuedHeavy l - one_if (c = HeavyTask \<and> LmQueuedHeavy l > 0),
         LmQueuedRaster := LmQueuedRaster l - one_if (c = RasterTask \<and> LmQueuedRaster l > 0)\<rparr>,
       if LmTrackProcess l then addQueued (- 1) (- one_if (c = HeavyTask)) (- one_if (c = RasterTask)) u else u))"

definition releaseTask :: "mcpTaskClass \<Rightarrow> taskPool \<Rightarrow> taskPool" where
  "releaseTask c = (\<lambda>(l, u).
     if LmActive l \<le> 0 then (l, u)
     else
      (l\<lparr>LmActive := LmActive l - 1, LmHeavy := LmHeavy l - one_if (c = HeavyTask \<and> LmHeavy l > 0),
         LmRaster := LmRaster l - one_if (c = RasterTask \<and> LmRaster l > 0)\<rparr>,
       if LmTrackProcess l then addRunning (- 1) (- one_if (c = HeavyTask)) (- one_if (c = RasterTask)) u else u))"

definition closeLimiter :: "taskPool \<Rightarrow> taskPool" where
  "closeLimiter = (\<lambda>(l, u).
     if \<not> LmTrackProcess l then (l, u)
     else
      (l\<lparr>LmActive := 0, LmHeavy := 0, LmRaster := 0, LmQueued := 0, LmQueuedHeavy := 0, LmQueuedRaster := 0\<rparr>,
       addQueued (- LmQueued l) (- LmQueuedHeavy l) (- LmQueuedRaster l)
         (addRunning (- LmActive l) (- LmHeavy l) (- LmRaster l) u)))"

definition estimatedReadTaskMemoryMB :: int where "estimatedReadTaskMemoryMB = 8"
definition estimatedHeavyTaskMemoryMB :: int where "estimatedHeavyTaskMemoryMB = 192"
definition estimatedRasterTaskMemoryMB :: int where "estimatedRasterTaskMemoryMB = 768"

text \<open>\<^verbatim>\<open>EstimatedMemoryMB\<close> of \<^verbatim>\<open>currentMCPTaskUsage\<close>\<close>

definition estimatedMemoryMB :: "processUsage \<Rightarrow> int" where
  "estimatedMemoryMB u =
     (let reads = (if UsActive u - UsHeavy u - UsRaster u < 0 then 0 else UsActive u - UsHeavy u - UsRaster u) in
      reads * estimatedReadTaskMemoryMB + UsHeavy u * estimatedHeavyTaskMemoryMB + UsRaster u * estimatedRasterTaskMemoryMB)"

section \<open>The interface\<close>

text \<open>\<open>serves p R W\<close>: the pool stands for the running classes \<open>R\<close> and the waiting classes \<open>W\<close>.\<close>

locale admission =
  fixes serves :: "'p \<Rightarrow> 'c multiset \<Rightarrow> 'c multiset \<Rightarrow> bool"
    and admits :: "'p \<Rightarrow> 'c multiset \<Rightarrow> 'c \<Rightarrow> bool"
    and room :: "'p \<Rightarrow> 'c multiset \<Rightarrow> bool"
    and acquire :: "'c \<Rightarrow> 'p \<Rightarrow> bool \<times> 'p"
    and release :: "'c \<Rightarrow> 'p \<Rightarrow> 'p"
    and enqueue :: "'c \<Rightarrow> 'p \<Rightarrow> bool \<times> 'p"
    and dequeue :: "'c \<Rightarrow> 'p \<Rightarrow> 'p"
  assumes acquire_law: "serves p R W \<Longrightarrow>
      (if admits p R c then \<exists>p'. acquire c p = (True, p') \<and> serves p' (add_mset c R) W \<and> admits p' = admits p \<and> room p' = room p
       else acquire c p = (False, p))"
    and release_law: "serves p (add_mset c R) W \<Longrightarrow>
      serves (release c p) R W \<and> admits (release c p) = admits p \<and> room (release c p) = room p"
    and enqueue_law: "serves p R W \<Longrightarrow>
      (if room p W then \<exists>p'. enqueue c p = (True, p') \<and> serves p' R (add_mset c W) \<and> admits p' = admits p \<and> room p' = room p
       else enqueue c p = (False, p))"
    and dequeue_law: "serves p R (add_mset c W) \<Longrightarrow>
      serves (dequeue c p) R W \<and> admits (dequeue c p) = admits p \<and> room (dequeue c p) = room p"
    and admits_antitone: "admits p (add_mset d R) c \<Longrightarrow> admits p R c"
    and admits_idle: "admits p {#} c"
begin

text \<open>Work that is refused is refused because something runs, and stays refused when more runs.\<close>

lemma refused_busy: "\<not> admits p R c \<Longrightarrow> R \<noteq> {#}"
  using admits_idle by auto

lemma refused_stays: "\<not> admits p R c \<Longrightarrow> \<not> admits p (add_mset d R) c"
  using admits_antitone by blast

lemma acquire_True:
  assumes "serves p R W" and "acquire c p = (True, p')"
  shows "admits p R c" and "serves p' (add_mset c R) W" and "admits p' = admits p" and "room p' = room p"
  using acquire_law [OF assms(1), of c] assms(2) by (auto split: if_splits)

lemma acquire_False:
  assumes "serves p R W" and "acquire c p = (False, p')"
  shows "\<not> admits p R c" and "p' = p"
  using acquire_law [OF assms(1), of c] assms(2) by (auto split: if_splits)

text \<open>Starting a waiting task is acquiring for it and taking it off the queue.\<close>

lemma start_waiting:
  assumes "serves p R (add_mset c W)" and "acquire c p = (True, p')"
  shows "serves (dequeue c p') (add_mset c R) W" and "admits (dequeue c p') = admits p" and "room (dequeue c p') = room p"
  using acquire_True [OF assms] dequeue_law [of p' "add_mset c R" c W] by simp_all


end


section \<open>The counters are the multisets\<close>

definition classCount :: "mcpTaskClass \<Rightarrow> mcpTaskClass multiset \<Rightarrow> int" where
  "classCount c R = int (count R c)"

definition withinLimiter :: "mcpTaskLimiter \<Rightarrow> mcpTaskClass multiset \<Rightarrow> mcpTaskClass multiset \<Rightarrow> bool" where
  "withinLimiter l R W \<longleftrightarrow>
     (case limits l of (maxActive, maxHeavy, maxRaster) \<Rightarrow>
        int (size R) \<le> maxActive \<and> classCount HeavyTask R + classCount RasterTask R \<le> maxHeavy
        \<and> classCount RasterTask R \<le> maxRaster)
     \<and> int (size W) \<le> queueLimit l"

text \<open>\<open>base\<close> is the pool at the start: the limits, and what the other sessions have added to the process
  counters.\<close>

definition servesFrom :: "taskPool \<Rightarrow> taskPool \<Rightarrow> mcpTaskClass multiset \<Rightarrow> mcpTaskClass multiset \<Rightarrow> bool" where
  "servesFrom base = (\<lambda>(l, u) R W.
     LmActive l = int (size R) \<and> LmHeavy l = classCount HeavyTask R \<and> LmRaster l = classCount RasterTask R
     \<and> LmQueued l = int (size W) \<and> LmQueuedHeavy l = classCount HeavyTask W \<and> LmQueuedRaster l = classCount RasterTask W
     \<and> LmTrackProcess l
     \<and> u = addQueued (int (size W)) (classCount HeavyTask W) (classCount RasterTask W)
             (addRunning (int (size R)) (classCount HeavyTask R) (classCount RasterTask R) (snd base))
     \<and> limits l = limits (fst base) \<and> queueLimit l = queueLimit (fst base) \<and> withinLimiter l R W)"

definition admitsTask :: "taskPool \<Rightarrow> mcpTaskClass multiset \<Rightarrow> mcpTaskClass \<Rightarrow> bool" where
  "admitsTask = (\<lambda>(l, u) R c.
     case limits l of (maxActive, maxHeavy, maxRaster) \<Rightarrow>
       int (size R) < maxActive
       \<and> (isExpensiveMCPTask c \<longrightarrow> classCount HeavyTask R + classCount RasterTask R < maxHeavy)
       \<and> (c = RasterTask \<longrightarrow> classCount RasterTask R < maxRaster))"

definition queueRoom :: "taskPool \<Rightarrow> mcpTaskClass multiset \<Rightarrow> bool" where
  "queueRoom = (\<lambda>(l, u) W. int (size W) < queueLimit l)"

lemma limits_positive: "limits l = (a, h, r) \<Longrightarrow> 0 < a \<and> 0 < h \<and> 0 < r"
  by (auto simp: limits_def orDefault_def maxMCPTasks_def maxMCPHeavyTasks_def maxMCPRasterTasks_def)

lemma limits_update [simp]:
  "limits (l\<lparr>LmActive := a, LmHeavy := b, LmRaster := c\<rparr>) = limits l"
  "limits (l\<lparr>LmQueued := a, LmQueuedHeavy := b, LmQueuedRaster := c\<rparr>) = limits l"
  "queueLimit (l\<lparr>LmActive := a, LmHeavy := b, LmRaster := c\<rparr>) = queueLimit l"
  "queueLimit (l\<lparr>LmQueued := a, LmQueuedHeavy := b, LmQueuedRaster := c\<rparr>) = queueLimit l"
  by (simp_all add: limits_def queueLimit_def)

lemma classCount_simps [simp]:
  "classCount c {#} = 0" "classCount c (add_mset d R) = classCount c R + one_if (d = c)" "0 \<le> classCount c R"
  by (simp_all add: classCount_def one_if_def)

lemma one_if_simps [simp]: "one_if True = 1" "one_if False = 0" "one_if b \<ge> 0"
  by (simp_all add: one_if_def)

interpretation limiter: admission "servesFrom base" admitsTask queueRoom acquireTask releaseTask enqueueTask dequeueTask for base
proof unfold_locales
  fix p :: taskPool and R W :: "mcpTaskClass multiset" and c d :: mcpTaskClass
  obtain l u where p: "p = (l, u)" by (cases p)
  obtain a h r where lim: "limits l = (a, h, r)" by (cases "limits l")
  note pos = limits_positive [OF lim]
  show "if admitsTask p R c then \<exists>p'. acquireTask c p = (True, p') \<and> servesFrom base p' (add_mset c R) W
        \<and> admitsTask p' = admitsTask p \<and> queueRoom p' = queueRoom p
      else acquireTask c p = (False, p)" if "servesFrom base p R W"
    using that lim
    by (cases c)
      (auto simp: p servesFrom_def admitsTask_def queueRoom_def acquireTask_def isExpensiveMCPTask_def withinLimiter_def
        addQueued_def addRunning_def fun_eq_iff split: prod.splits)
  show "servesFrom base (releaseTask c p) R W \<and> admitsTask (releaseTask c p) = admitsTask p \<and> queueRoom (releaseTask c p) = queueRoom p"
    if "servesFrom base p (add_mset c R) W"
    using that lim
    by (cases c)
      (auto simp: p servesFrom_def admitsTask_def queueRoom_def releaseTask_def withinLimiter_def
        addQueued_def addRunning_def fun_eq_iff add_pos_nonneg)
  show "if queueRoom p W then \<exists>p'. enqueueTask c p = (True, p') \<and> servesFrom base p' R (add_mset c W)
        \<and> admitsTask p' = admitsTask p \<and> queueRoom p' = queueRoom p
      else enqueueTask c p = (False, p)" if "servesFrom base p R W"
    using that lim
    by (cases c)
      (auto simp: p servesFrom_def admitsTask_def queueRoom_def enqueueTask_def withinLimiter_def
        addQueued_def addRunning_def fun_eq_iff)
  show "servesFrom base (dequeueTask c p) R W \<and> admitsTask (dequeueTask c p) = admitsTask p \<and> queueRoom (dequeueTask c p) = queueRoom p"
    if "servesFrom base p R (add_mset c W)"
    using that lim
    by (cases c)
      (auto simp: p servesFrom_def admitsTask_def queueRoom_def dequeueTask_def withinLimiter_def
        addQueued_def addRunning_def fun_eq_iff)
  show "admitsTask p R c" if "admitsTask p (add_mset d R) c"
    using that lim by (cases d) (auto simp: p admitsTask_def)
  show "admitsTask p {#} c" using lim pos by (simp add: p admitsTask_def)
qed

lemma servesFrom_new: "servesFrom (newMCPTaskLimiter cfg, u) (newMCPTaskLimiter cfg, u) {#} {#}"
  using limits_positive [of "newMCPTaskLimiter cfg"]
  by (cases "limits (newMCPTaskLimiter cfg)")
    (auto simp: servesFrom_def newMCPTaskLimiter_def withinLimiter_def addQueued_def addRunning_def queueLimit_def
      maxMCPQueuedTasks_def orDefault_def less_imp_le)

lemma closeLimiter_restores: "servesFrom base p R W \<Longrightarrow> snd (closeLimiter p) = snd base"
  by (cases p) (auto simp: servesFrom_def closeLimiter_def addQueued_def addRunning_def)

end
