(* ===== verification/McpServer.thy ===== *)
theory McpServer
  imports TaskLimiter GoStd "HOL-Library.AList"
begin

text \<open>
  \<^verbatim>\<open>serveWithToolCaller\<close> of \<^verbatim>\<open>internal/mcpserver/server.go\<close>: the loop of one session. It reads requests,
  admits or queues tool calls, starts them in goroutines, and writes every response itself. The state
  holds the loop's variables, the goroutines that run, the channel of their results and what has been
  written; \<open>serverStep\<close> is one turn of the loop or one action of a goroutine or of the context. What the
  loop learns from outside is a parameter of a step: the decoded request, the time, whether the
  database lease is granted, what a tool call answers, and by \<open>sink\<close> which writes succeed.
\<close>

section \<open>State\<close>

datatype mcpTaskPhase = TaskQueued | TaskRunning

record mcpToolTask =
  TsCancelled :: bool
  TsClass :: mcpTaskClass
  TsPhase :: mcpTaskPhase
  TsQueuedAt :: int

definition newTask :: "mcpTaskClass \<Rightarrow> int \<Rightarrow> mcpToolTask" where
  "newTask class now = \<lparr>TsCancelled = False, TsClass = class, TsPhase = TaskQueued, TsQueuedAt = now\<rparr>"

record mcpSession =
  SsInitialized :: bool
  SsClientInitialized :: bool
  SsSeen :: "bytes list"

definition readyForTools :: "mcpSession \<Rightarrow> bool" where
  "readyForTools s \<longleftrightarrow> SsInitialized s \<and> SsClientInitialized s"

text \<open>What a response carries; the ids are those of the requests.\<close>

datatype outcome =
    InvalidRequest
  | DuplicateRequest
  | MethodNotFound
  | InitializeResult
  | PongResult
  | ToolsList
  | ServerBusy
  | QueueTimeout
  | LeaseUnavailable
  | OperationTimeout
  | ProtocolFailure
  | InternalFailure
  | ToolResult bytes

datatype rpcResponse = NullResponse outcome | Response bytes outcome

record taskResult =
  ReKey :: bytes
  ReOutcome :: outcome
  ReCommitted :: bool

datatype exitKind = ExitOk | ExitError | ExitContext

text \<open>\<open>svCancels\<close> is a history variable: the ids of the tasks that were cancelled.\<close>

record server =
  svTasks :: "(bytes \<times> mcpToolTask) list"
  svQueue :: "bytes list"
  svPool :: taskPool
  svSession :: mcpSession
  svInputClosed :: bool
  svWritten :: "rpcResponse list"
  svResults :: "taskResult list"
  svCapacity :: int
  svWorkers :: "bytes list"
  svContextDone :: bool
  svExit :: "exitKind option"
  svQueueTimeout :: int
  svCancels :: "bytes list"
  svBlocked :: bool

definition configuredTasks :: "taskConfig \<Rightarrow> int" where
  "configuredTasks cfg = (if CfMaxTasks cfg \<le> 0 then maxMCPTasks else CfMaxTasks cfg)"

definition mcpQueueTimeout :: "int \<Rightarrow> int" where
  "mcpQueueTimeout seconds = (if seconds \<le> 0 then 15 else seconds)"

definition startServer :: "taskConfig \<Rightarrow> int \<Rightarrow> processUsage \<Rightarrow> server" where
  "startServer cfg timeoutSeconds usage =
     \<lparr>svTasks = [], svQueue = [], svPool = (newMCPTaskLimiter cfg, usage),
      svSession = \<lparr>SsInitialized = False, SsClientInitialized = False, SsSeen = []\<rparr>,
      svInputClosed = False, svWritten = [], svResults = [], svCapacity = configuredTasks cfg, svWorkers = [],
      svContextDone = False, svExit = None, svQueueTimeout = mcpQueueTimeout timeoutSeconds,
      svCancels = [], svBlocked = False\<rparr>"

section \<open>Cancelling\<close>

definition taskAt :: "server \<Rightarrow> bytes \<Rightarrow> mcpToolTask option" where
  "taskAt sv key = map_of (svTasks sv) key"

definition dropTask :: "bytes \<Rightarrow> server \<Rightarrow> server" where
  "dropTask key sv = sv\<lparr>svTasks := AList.delete key (svTasks sv)\<rparr>"

definition putTask :: "bytes \<Rightarrow> mcpToolTask \<Rightarrow> server \<Rightarrow> server" where
  "putTask key task sv = sv\<lparr>svTasks := AList.update key task (svTasks sv)\<rparr>"

text \<open>Calling the context's \<^verbatim>\<open>cancel\<close> lets the tool end early; a tool may end at any time.\<close>

definition cancelTask :: "bytes \<Rightarrow> server \<Rightarrow> server" where
  "cancelTask key sv =
     (case taskAt sv key of
        None \<Rightarrow> sv
      | Some task \<Rightarrow>
          let sv1 = sv\<lparr>svCancels := key # svCancels sv\<rparr> in
          if TsPhase task = TaskQueued
          then (dropTask key sv1)\<lparr>svPool := dequeueTask (TsClass task) (svPool sv1)\<rparr>
          else putTask key (task\<lparr>TsCancelled := True\<rparr>) sv1)"

text \<open>The map's order does not matter; the list's order is one of them.\<close>

definition cancelTasks :: "server \<Rightarrow> server" where
  "cancelTasks sv = (fold cancelTask (map fst (svTasks sv)) sv)\<lparr>svQueue := []\<rparr>"

text \<open>\<^verbatim>\<open>writeResponse\<close> and what every caller does when it fails: cancel the tasks and return the error.\<close>

definition answer :: "(nat \<Rightarrow> bool) \<Rightarrow> rpcResponse \<Rightarrow> server \<Rightarrow> server" where
  "answer sink r sv =
     (if sink (length (svWritten sv)) then sv\<lparr>svWritten := svWritten sv @ [r]\<rparr>
      else (cancelTasks sv)\<lparr>svExit := Some ExitError\<rparr>)"

section \<open>Starting tasks\<close>

text \<open>A send by the loop to its own channel: with no room it would block for ever.\<close>

definition sendResult :: "taskResult \<Rightarrow> server \<Rightarrow> server" where
  "sendResult r sv =
     (if int (length (svResults sv)) < svCapacity sv then sv\<lparr>svResults := svResults sv @ [r]\<rparr> else sv\<lparr>svBlocked := True\<rparr>)"

definition startTask :: "(bytes \<Rightarrow> bool) \<Rightarrow> bytes \<Rightarrow> mcpToolTask \<Rightarrow> server \<Rightarrow> server" where
  "startTask leased key task sv =
     (let sv1 = putTask key (task\<lparr>TsPhase := TaskRunning\<rparr>) sv in
      if leased key then sv1\<lparr>svWorkers := svWorkers sv1 @ [key]\<rparr>
      else sendResult \<lparr>ReKey = key, ReOutcome = LeaseUnavailable, ReCommitted = False\<rparr> sv1)"

definition isQueued :: "server \<Rightarrow> bytes \<Rightarrow> bool" where
  "isQueued sv key \<longleftrightarrow> (case taskAt sv key of None \<Rightarrow> False | Some task \<Rightarrow> TsPhase task = TaskQueued)"

definition compactQueue :: "server \<Rightarrow> server" where
  "compactQueue sv = sv\<lparr>svQueue := filter (isQueued sv) (svQueue sv)\<rparr>"

text \<open>The first queued task that can be acquired, with the queue without it. The queue is compact, so every id is a task.\<close>

fun firstAcquired :: "server \<Rightarrow> bytes list \<Rightarrow> (bytes \<times> mcpToolTask \<times> taskPool \<times> bytes list) option" where
  "firstAcquired sv [] = None"
| "firstAcquired sv (key # keys) =
     (let task = (case taskAt sv key of None \<Rightarrow> newTask ReadTask 0 | Some task \<Rightarrow> task) in
      case acquireTask (TsClass task) (svPool sv) of
        (True, pool) \<Rightarrow> Some (key, task, pool, keys)
      | (False, pool) \<Rightarrow>
          (case firstAcquired sv keys of
             None \<Rightarrow> None
           | Some (selected, found, pool, rest) \<Rightarrow> Some (selected, found, pool, key # rest)))"

lemma firstAcquired_shorter: "firstAcquired sv keys = Some (key, task, pool, rest) \<Longrightarrow> length keys = Suc (length rest)"
  by (induction keys arbitrary: rest) (auto simp: Let_def split: prod.splits bool.splits option.splits)

lemma startTask_queue [simp]: "svQueue (startTask leased key task sv) = svQueue sv"
  by (simp add: startTask_def putTask_def sendResult_def Let_def)

function dispatchQueued :: "(bytes \<Rightarrow> bool) \<Rightarrow> server \<Rightarrow> server" where
  "dispatchQueued leased sv =
     (let sv1 = compactQueue sv in
      case firstAcquired sv1 (svQueue sv1) of
        None \<Rightarrow> sv1
      | Some (key, task, pool, rest) \<Rightarrow>
          dispatchQueued leased (startTask leased key task
            (sv1\<lparr>svQueue := rest, svPool := dequeueTask (TsClass task) pool\<rparr>)))"
  by pat_completeness auto
termination
proof (relation "measure (\<lambda>(leased, sv). length (svQueue sv))")
  fix leased :: "bytes \<Rightarrow> bool" and sv sv1 :: server and r key y task z pool rest
  assume "sv1 = compactQueue sv" "firstAcquired sv1 (svQueue sv1) = Some r" "(key, y) = r" "(task, z) = y" "(pool, rest) = z"
  then have "length (svQueue (compactQueue sv)) = Suc (length rest)" using firstAcquired_shorter by blast
  moreover have "length (svQueue (compactQueue sv)) \<le> length (svQueue sv)" by (simp add: compactQueue_def)
  ultimately show "((leased, startTask leased key task (sv1\<lparr>svQueue := rest, svPool := dequeueTask (TsClass task) pool\<rparr>)), leased, sv)
      \<in> measure (\<lambda>(leased, sv). length (svQueue sv))" by simp
qed simp

declare dispatchQueued.simps [simp del]

section \<open>The queue's deadline\<close>

definition taskDeadline :: "server \<Rightarrow> bytes \<Rightarrow> int" where
  "taskDeadline sv key = (case taskAt sv key of None \<Rightarrow> 0 | Some task \<Rightarrow> TsQueuedAt task + svQueueTimeout sv)"

text \<open>\<^verbatim>\<open>resetQueueTimer\<close>: the time the timer is set to, if it is set.\<close>

definition queueDeadline :: "server \<Rightarrow> int option" where
  "queueDeadline sv =
     (case filter (isQueued sv) (svQueue sv) of
        [] \<Rightarrow> None
      | key # keys \<Rightarrow> Some (fold (\<lambda>k d. if taskDeadline sv k < d then taskDeadline sv k else d) keys (taskDeadline sv key)))"

text \<open>\<^verbatim>\<open>expireQueued\<close>: \<open>kept\<close> is what stays queued. A failed write leaves the loop with the queue cut there.\<close>

fun expireLoop :: "(nat \<Rightarrow> bool) \<Rightarrow> int \<Rightarrow> bytes list \<Rightarrow> bytes list \<Rightarrow> server \<Rightarrow> server" where
  "expireLoop sink now kept [] sv = sv\<lparr>svQueue := kept\<rparr>"
| "expireLoop sink now kept (key # keys) sv =
     (case taskAt sv key of
        None \<Rightarrow> expireLoop sink now kept keys sv
      | Some task \<Rightarrow>
          if TsPhase task \<noteq> TaskQueued then expireLoop sink now kept keys sv
          else if now < TsQueuedAt task + svQueueTimeout sv then expireLoop sink now (kept @ [key]) keys sv
          else
            let sv1 = (dropTask key sv)\<lparr>svPool := dequeueTask (TsClass task) (svPool sv)\<rparr> in
            if TsCancelled task then expireLoop sink now kept keys sv1
            else if sink (length (svWritten sv1))
            then expireLoop sink now kept keys (sv1\<lparr>svWritten := svWritten sv1 @ [Response key QueueTimeout]\<rparr>)
            else (cancelTasks (sv1\<lparr>svQueue := kept\<rparr>))\<lparr>svExit := Some ExitError\<rparr>)"

definition expireQueued :: "(nat \<Rightarrow> bool) \<Rightarrow> int \<Rightarrow> server \<Rightarrow> server" where
  "expireQueued sink now sv = expireLoop sink now [] (svQueue sv) sv"

section \<open>Requests\<close>

text \<open>A decoded request: \<open>RqKey\<close> is its normalised id, \<open>None\<close> when it is neither a string nor an integer;
  \<open>RqInitializes\<close> says whether its parameters are those of an initialize request, \<open>RqCancels\<close> is the id a
  cancel notification names, \<open>RqCall\<close> what the classifier reads.\<close>

record rpcRequest =
  RqHasID :: bool
  RqKey :: "bytes option"
  RqJSONRPC :: bytes
  RqMethod :: bytes
  RqInitializes :: bool
  RqCancels :: "bytes option"
  RqCall :: "(bytes \<times> callArguments) option"

datatype readEvent =
    ReaderClosed
  | ReadFailed
  | ReadRejected bool outcome
  | ReadRequest rpcRequest

definition handleMCPNotification :: "rpcRequest \<Rightarrow> mcpSession \<Rightarrow> bytes option \<times> mcpSession" where
  "handleMCPNotification req session =
     (if RqJSONRPC req \<noteq> ''2.0'' \<or> RqMethod req = [] then (None, session)
      else if RqMethod req = ''notifications/initialized'' then
        (None, if SsInitialized session then session\<lparr>SsClientInitialized := True\<rparr> else session)
      else if RqMethod req = ''notifications/cancelled'' then (RqCancels req, session)
      else (None, session))"

definition notified :: "rpcRequest \<Rightarrow> server \<Rightarrow> server" where
  "notified req sv =
     (case handleMCPNotification req (svSession sv) of
        (cancelled, session) \<Rightarrow>
          let sv1 = sv\<lparr>svSession := session\<rparr> in
          (case cancelled of None \<Rightarrow> sv1 | Some key \<Rightarrow> cancelTask key sv1))"

text \<open>\<^verbatim>\<open>tools/call\<close>: run it, queue it, or refuse it.\<close>

definition callTool :: "(nat \<Rightarrow> bool) \<Rightarrow> (bytes \<Rightarrow> bool) \<Rightarrow> int \<Rightarrow> bytes \<Rightarrow> rpcRequest \<Rightarrow> server \<Rightarrow> server" where
  "callTool sink leased now key req sv =
     (if \<not> readyForTools (svSession sv) then answer sink (Response key InvalidRequest) sv
      else
        let class = classifyMCPTask (RqCall req); task = newTask class now in
        case acquireTask class (svPool sv) of
          (True, pool) \<Rightarrow> startTask leased key task (sv\<lparr>svPool := pool\<rparr>)
        | (False, pool) \<Rightarrow>
            (case enqueueTask class pool of
               (False, pool1) \<Rightarrow> answer sink (Response key ServerBusy) (sv\<lparr>svPool := pool1\<rparr>)
             | (True, pool1) \<Rightarrow>
                 (putTask key task (sv\<lparr>svPool := pool1\<rparr>))\<lparr>svQueue := svQueue sv @ [key]\<rparr>))"

definition identified :: "(nat \<Rightarrow> bool) \<Rightarrow> (bytes \<Rightarrow> bool) \<Rightarrow> int \<Rightarrow> bytes \<Rightarrow> rpcRequest \<Rightarrow> server \<Rightarrow> server" where
  "identified sink leased now key req sv =
     (if key \<in> set (SsSeen (svSession sv)) then answer sink (Response key DuplicateRequest) sv
      else
        let sv1 = sv\<lparr>svSession := (svSession sv)\<lparr>SsSeen := key # SsSeen (svSession sv)\<rparr>\<rparr> in
        if RqJSONRPC req \<noteq> ''2.0'' \<or> RqMethod req = [] then answer sink (Response key InvalidRequest) sv1
        else if RqMethod req = ''initialize'' then
          (if SsInitialized (svSession sv1) then answer sink (Response key InvalidRequest) sv1
           else if \<not> RqInitializes req then answer sink (Response key InvalidRequest) sv1
           else answer sink (Response key InitializeResult) (sv1\<lparr>svSession := (svSession sv1)\<lparr>SsInitialized := True\<rparr>\<rparr>))
        else if RqMethod req = ''ping'' then answer sink (Response key PongResult) sv1
        else if RqMethod req = ''tools/list'' then
          (if readyForTools (svSession sv1) then answer sink (Response key ToolsList) sv1
           else answer sink (Response key InvalidRequest) sv1)
        else if RqMethod req = ''tools/call'' then callTool sink leased now key req sv1
        else answer sink (Response key MethodNotFound) sv1)"

definition handleRequest :: "(nat \<Rightarrow> bool) \<Rightarrow> (bytes \<Rightarrow> bool) \<Rightarrow> int \<Rightarrow> rpcRequest \<Rightarrow> server \<Rightarrow> server" where
  "handleRequest sink leased now req sv =
     (if \<not> RqHasID req then notified req sv
      else case RqKey req of
        None \<Rightarrow> answer sink (NullResponse InvalidRequest) sv
      | Some key \<Rightarrow> identified sink leased now key req sv)"

text \<open>\<open>ReadRejected fatal\<close> is a protocol error of the reader.\<close>

definition handleEvent :: "(nat \<Rightarrow> bool) \<Rightarrow> (bytes \<Rightarrow> bool) \<Rightarrow> int \<Rightarrow> readEvent \<Rightarrow> server \<Rightarrow> server" where
  "handleEvent sink leased now event sv =
     (case event of
        ReaderClosed \<Rightarrow> cancelTasks (sv\<lparr>svInputClosed := True\<rparr>)
      | ReadFailed \<Rightarrow> (cancelTasks sv)\<lparr>svExit := Some ExitError\<rparr>
      | ReadRejected fatal outcome \<Rightarrow>
          let sv1 = answer sink (NullResponse outcome) sv in
          if svExit sv1 = None \<and> fatal then (cancelTasks sv1)\<lparr>svExit := Some ExitOk\<rparr> else sv1
      | ReadRequest req \<Rightarrow> handleRequest sink leased now req sv)"

section \<open>Results\<close>

text \<open>What a tool call's goroutine sends: a timeout, unless the call has published, or what the call returned.\<close>

datatype callerResult = CallerProtocolError | CallerError | CallerValue bytes

definition toolTaskOutcome :: "bool \<Rightarrow> bool \<Rightarrow> callerResult \<Rightarrow> outcome" where
  "toolTaskOutcome deadlineExceeded committed result =
     (if deadlineExceeded \<and> \<not> committed then OperationTimeout
      else case result of
        CallerProtocolError \<Rightarrow> ProtocolFailure
      | CallerError \<Rightarrow> InternalFailure
      | CallerValue value \<Rightarrow> ToolResult value)"

definition runMCPToolTask :: "bytes \<Rightarrow> bool \<Rightarrow> bool \<Rightarrow> callerResult \<Rightarrow> taskResult" where
  "runMCPToolTask key deadlineExceeded committed result =
     \<lparr>ReKey = key, ReOutcome = toolTaskOutcome deadlineExceeded committed result, ReCommitted = committed\<rparr>"

definition handleResult :: "(nat \<Rightarrow> bool) \<Rightarrow> (bytes \<Rightarrow> bool) \<Rightarrow> taskResult \<Rightarrow> server \<Rightarrow> server" where
  "handleResult sink leased result sv =
     (case taskAt sv (ReKey result) of
        None \<Rightarrow> sv
      | Some task \<Rightarrow>
          let sv1 = (dropTask (ReKey result) sv)\<lparr>svPool := releaseTask (TsClass task) (svPool sv)\<rparr>;
              sv2 = (if \<not> TsCancelled task \<or> ReCommitted result
                     then answer sink (Response (ReKey result) (ReOutcome result)) sv1 else sv1)
          in if svExit sv2 \<noteq> None then sv2 else dispatchQueued leased sv2)"

section \<open>Steps\<close>

text \<open>The loop turns while the input is open or tasks are left, and no send has blocked it.\<close>

definition looping :: "server \<Rightarrow> bool" where
  "looping sv \<longleftrightarrow> svExit sv = None \<and> \<not> svBlocked sv \<and> (\<not> svInputClosed sv \<or> svTasks sv \<noteq> [])"

inductive serverStep :: "(nat \<Rightarrow> bool) \<Rightarrow> server \<Rightarrow> server \<Rightarrow> bool" for sink where
  loop_context: "looping sv \<Longrightarrow> svContextDone sv \<Longrightarrow> serverStep sink sv ((cancelTasks sv)\<lparr>svExit := Some ExitContext\<rparr>)"
| loop_timer: "looping sv \<Longrightarrow> queueDeadline sv = Some d \<Longrightarrow> d \<le> now \<Longrightarrow> serverStep sink sv (expireQueued sink now sv)"
| loop_event: "looping sv \<Longrightarrow> \<not> svInputClosed sv \<Longrightarrow> serverStep sink sv (handleEvent sink leased now event sv)"
| loop_result: "looping sv \<Longrightarrow> svResults sv = result # results
    \<Longrightarrow> serverStep sink sv (handleResult sink leased result (sv\<lparr>svResults := results\<rparr>))"
| loop_exit: "svExit sv = None \<Longrightarrow> \<not> svBlocked sv \<Longrightarrow> svInputClosed sv \<Longrightarrow> svTasks sv = []
    \<Longrightarrow> serverStep sink sv (sv\<lparr>svExit := Some ExitOk\<rparr>)"
| worker_sends: "key \<in> set (svWorkers sv) \<Longrightarrow> int (length (svResults sv)) < svCapacity sv
    \<Longrightarrow> serverStep sink sv (sv\<lparr>svWorkers := remove1 key (svWorkers sv),
          svResults := svResults sv @ [runMCPToolTask key deadlineExceeded committed result]\<rparr>)"
| worker_gives_up: "key \<in> set (svWorkers sv) \<Longrightarrow> svContextDone sv \<or> svExit sv \<noteq> None
    \<Longrightarrow> serverStep sink sv (sv\<lparr>svWorkers := remove1 key (svWorkers sv)\<rparr>)"
| context_done: "serverStep sink sv (sv\<lparr>svContextDone := True\<rparr>)"

inductive_cases serverStepE: "serverStep sink sv sv'"

end
