(* ===== verification/McpServerFacts.thy ===== *)
theory McpServerFacts
  imports McpServer
begin

text \<open>
  The session loop keeps its promises in every reachable state: its counters are those of its tasks and
  stay within the limits, the channel of results has room, no queued call could be running, every
  request is answered at most once, and one that is not answered is still a task or was cancelled.
  \<open>serverOk base pending sv\<close> is the invariant; \<open>pending\<close> are the ids that the step in progress still has to
  account for.
\<close>

section \<open>Tasks as a multiset\<close>

definition classesIn :: "mcpTaskPhase \<Rightarrow> (bytes \<times> mcpToolTask) multiset \<Rightarrow> mcpTaskClass multiset" where
  "classesIn phase M = image_mset (\<lambda>x. TsClass (snd x)) (filter_mset (\<lambda>x. TsPhase (snd x) = phase) M)"

definition keysIn :: "mcpTaskPhase \<Rightarrow> (bytes \<times> mcpToolTask) multiset \<Rightarrow> bytes multiset" where
  "keysIn phase M = image_mset fst (filter_mset (\<lambda>x. TsPhase (snd x) = phase) M)"

lemma classesIn_simps [simp]:
  "classesIn phase {#} = {#}"
  "classesIn phase (add_mset x M) = (if TsPhase (snd x) = phase then add_mset (TsClass (snd x)) (classesIn phase M) else classesIn phase M)"
  by (simp_all add: classesIn_def)

lemma keysIn_simps [simp]:
  "keysIn phase {#} = {#}"
  "keysIn phase (add_mset x M) = (if TsPhase (snd x) = phase then add_mset (fst x) (keysIn phase M) else keysIn phase M)"
  by (simp_all add: keysIn_def)

lemma size_keysIn: "size (keysIn phase M) = size (classesIn phase M)"
  by (simp add: keysIn_def classesIn_def)

abbreviation tasksOf :: "server \<Rightarrow> (bytes \<times> mcpToolTask) multiset" where
  "tasksOf sv \<equiv> mset (svTasks sv)"

definition taskKeys :: "server \<Rightarrow> bytes set" where
  "taskKeys sv = fst ` set (svTasks sv)"

lemma taskAt_None: "taskAt sv key = None \<longleftrightarrow> key \<notin> taskKeys sv"
  by (simp add: taskAt_def taskKeys_def map_of_eq_None_iff)

lemma taskAt_Some: "taskAt sv key = Some task \<Longrightarrow> key \<in> taskKeys sv"
  using taskAt_None [of sv key] by auto

lemma delete_view:
  "distinct (map fst ts) \<Longrightarrow> map_of ts key = Some t \<Longrightarrow> mset ts = add_mset (key, t) (mset (AList.delete key ts))"
proof (induction ts)
  case (Cons x ts)
  show ?case
  proof (cases "fst x = key")
    case True
    then have "key \<notin> fst ` set ts" using Cons.prems(1) by auto
    then show ?thesis using True Cons.prems(2) by (cases x) simp
  next
    case False
    then show ?thesis using Cons by (cases x) simp
  qed
qed simp

lemma update_view:
  "distinct (map fst ts) \<Longrightarrow> mset (AList.update key t ts) = add_mset (key, t) (mset (AList.delete key ts))"
proof (induction ts)
  case (Cons x ts)
  show ?case
  proof (cases "fst x = key")
    case True
    then have "key \<notin> fst ` set ts" using Cons.prems by auto
    then show ?thesis using True by (cases x) simp
  next
    case False
    then show ?thesis using Cons by (cases x) simp
  qed
qed simp

lemma dropTask_view:
  "distinct (map fst (svTasks sv)) \<Longrightarrow> taskAt sv key = Some task \<Longrightarrow> tasksOf sv = add_mset (key, task) (tasksOf (dropTask key sv))"
  by (simp add: dropTask_def taskAt_def delete_view)

lemma putTask_view:
  "distinct (map fst (svTasks sv)) \<Longrightarrow> tasksOf (putTask key task sv) = add_mset (key, task) (tasksOf (dropTask key sv))"
  by (simp add: putTask_def dropTask_def update_view)

lemma dropTask_absent: "key \<notin> taskKeys sv \<Longrightarrow> tasksOf (dropTask key sv) = tasksOf sv"
  by (simp add: dropTask_def taskKeys_def)

lemma taskKeys_ops [simp]:
  "taskKeys (dropTask key sv) = taskKeys sv - {key}" "taskKeys (putTask key task sv) = insert key (taskKeys sv)"
proof -
  show "taskKeys (dropTask key sv) = taskKeys sv - {key}"
    by (simp add: taskKeys_def dropTask_def delete_keys flip: set_map)
  show "taskKeys (putTask key task sv) = insert key (taskKeys sv)"
    by (simp add: taskKeys_def putTask_def dom_update)
qed

lemma taskAt_ops [simp]:
  "taskAt (dropTask key sv) k = (if k = key then None else taskAt sv k)"
  "taskAt (putTask key task sv) k = (if k = key then Some task else taskAt sv k)"
  by (auto simp: taskAt_def dropTask_def putTask_def delete_conv' update_conv')

lemma distinct_ops [simp]:
  "distinct (map fst (svTasks sv)) \<Longrightarrow> distinct (map fst (svTasks (dropTask key sv)))"
  "distinct (map fst (svTasks sv)) \<Longrightarrow> distinct (map fst (svTasks (putTask key task sv)))"
  by (simp_all add: dropTask_def putTask_def distinct_delete distinct_update)

text \<open>Everything but the tasks.\<close>

lemma task_ops_fields [simp]:
  "svQueue (dropTask key sv) = svQueue sv" "svPool (dropTask key sv) = svPool sv" "svSession (dropTask key sv) = svSession sv"
  "svInputClosed (dropTask key sv) = svInputClosed sv" "svWritten (dropTask key sv) = svWritten sv"
  "svResults (dropTask key sv) = svResults sv" "svCapacity (dropTask key sv) = svCapacity sv"
  "svWorkers (dropTask key sv) = svWorkers sv" "svContextDone (dropTask key sv) = svContextDone sv"
  "svExit (dropTask key sv) = svExit sv" "svCancels (dropTask key sv) = svCancels sv" "svBlocked (dropTask key sv) = svBlocked sv"
  "svQueueTimeout (dropTask key sv) = svQueueTimeout sv"
  "svQueue (putTask key task sv) = svQueue sv" "svPool (putTask key task sv) = svPool sv" "svSession (putTask key task sv) = svSession sv"
  "svInputClosed (putTask key task sv) = svInputClosed sv" "svWritten (putTask key task sv) = svWritten sv"
  "svResults (putTask key task sv) = svResults sv" "svCapacity (putTask key task sv) = svCapacity sv"
  "svWorkers (putTask key task sv) = svWorkers sv" "svContextDone (putTask key task sv) = svContextDone sv"
  "svExit (putTask key task sv) = svExit sv" "svCancels (putTask key task sv) = svCancels sv" "svBlocked (putTask key task sv) = svBlocked sv"
  "svQueueTimeout (putTask key task sv) = svQueueTimeout sv"
  by (simp_all add: dropTask_def putTask_def)

text \<open>The other updates leave the tasks alone.\<close>

lemma taskAt_update [simp]:
  "taskAt (sv\<lparr>svPool := p\<rparr>) k = taskAt sv k" "taskAt (sv\<lparr>svQueue := q\<rparr>) k = taskAt sv k"
  "taskAt (sv\<lparr>svWritten := w\<rparr>) k = taskAt sv k" "taskAt (sv\<lparr>svExit := e\<rparr>) k = taskAt sv k"
  "taskAt (sv\<lparr>svCancels := c\<rparr>) k = taskAt sv k" "taskAt (sv\<lparr>svSession := s\<rparr>) k = taskAt sv k"
  "taskAt (sv\<lparr>svResults := rs\<rparr>) k = taskAt sv k" "taskAt (sv\<lparr>svInputClosed := b\<rparr>) k = taskAt sv k"
  by (simp_all add: taskAt_def)

lemma taskKeys_update [simp]:
  "taskKeys (sv\<lparr>svPool := p\<rparr>) = taskKeys sv" "taskKeys (sv\<lparr>svQueue := q\<rparr>) = taskKeys sv"
  "taskKeys (sv\<lparr>svWritten := w\<rparr>) = taskKeys sv" "taskKeys (sv\<lparr>svExit := e\<rparr>) = taskKeys sv"
  "taskKeys (sv\<lparr>svCancels := c\<rparr>) = taskKeys sv" "taskKeys (sv\<lparr>svSession := s\<rparr>) = taskKeys sv"
  "taskKeys (sv\<lparr>svResults := rs\<rparr>) = taskKeys sv" "taskKeys (sv\<lparr>svInputClosed := b\<rparr>) = taskKeys sv"
  "taskKeys (sv\<lparr>svWorkers := ws\<rparr>) = taskKeys sv" "taskKeys (sv\<lparr>svBlocked := b\<rparr>) = taskKeys sv"
  by (simp_all add: taskKeys_def)

section \<open>The invariant\<close>

text \<open>The ids that have their answer. A repeated id is refused under the id it repeats, so those refusals
  are left aside.\<close>

definition answers :: "rpcResponse \<Rightarrow> bytes list" where
  "answers r = (case r of Response key o1 \<Rightarrow> if o1 = DuplicateRequest then [] else [key] | NullResponse _ \<Rightarrow> [])"

definition answeredKeys :: "server \<Rightarrow> bytes list" where
  "answeredKeys sv = concat (map answers (svWritten sv))"

definition seenKeys :: "server \<Rightarrow> bytes set" where
  "seenKeys sv = set (SsSeen (svSession sv))"

definition runningClasses :: "server \<Rightarrow> mcpTaskClass multiset" where
  "runningClasses sv = classesIn TaskRunning (tasksOf sv)"

definition queuedClasses :: "server \<Rightarrow> mcpTaskClass multiset" where
  "queuedClasses sv = classesIn TaskQueued (tasksOf sv)"

definition poolOk :: "taskPool \<Rightarrow> server \<Rightarrow> bool" where
  "poolOk base sv \<longleftrightarrow>
     distinct (map fst (svTasks sv)) \<and> servesFrom base (svPool sv) (runningClasses sv) (queuedClasses sv)
     \<and> (\<forall>R c. admitsTask (svPool sv) R c \<longrightarrow> int (size R) < svCapacity sv)
     \<and> int (size (runningClasses sv)) \<le> svCapacity sv"

text \<open>Every running task has a goroutine or a result in the channel, unless they were told to give up.\<close>

definition workersOk :: "server \<Rightarrow> bool" where
  "workersOk sv \<longleftrightarrow>
     mset (svWorkers sv) + mset (map ReKey (svResults sv)) \<subseteq># keysIn TaskRunning (tasksOf sv)
     \<and> (\<not> svContextDone sv \<longrightarrow> svExit sv = None
         \<longrightarrow> mset (svWorkers sv) + mset (map ReKey (svResults sv)) = keysIn TaskRunning (tasksOf sv))
     \<and> (\<forall>r \<in> set (svResults sv). ReOutcome r \<noteq> DuplicateRequest)
     \<and> \<not> svBlocked sv"

definition queueOk :: "server \<Rightarrow> bool" where
  "queueOk sv \<longleftrightarrow> distinct (svQueue sv) \<and> (\<forall>key. isQueued sv key \<longrightarrow> key \<in> set (svQueue sv)) \<and> set (svQueue sv) \<subseteq> seenKeys sv"

definition answersOk :: "bytes set \<Rightarrow> server \<Rightarrow> bool" where
  "answersOk pending sv \<longleftrightarrow>
     distinct (answeredKeys sv) \<and> set (answeredKeys sv) \<subseteq> seenKeys sv \<and> taskKeys sv \<subseteq> seenKeys sv
     \<and> taskKeys sv \<inter> set (answeredKeys sv) = {}
     \<and> (\<forall>key t. taskAt sv key = Some t \<longrightarrow> TsCancelled t \<longrightarrow> key \<in> set (svCancels sv))
     \<and> (svExit sv \<noteq> Some ExitError \<longrightarrow> seenKeys sv \<subseteq> set (answeredKeys sv) \<union> taskKeys sv \<union> set (svCancels sv) \<union> pending)"

definition serverOk :: "taskPool \<Rightarrow> bytes set \<Rightarrow> server \<Rightarrow> bool" where
  "serverOk base pending sv \<longleftrightarrow> poolOk base sv \<and> workersOk sv \<and> queueOk sv \<and> answersOk pending sv"

text \<open>No queued call could be running.\<close>

definition settled :: "server \<Rightarrow> bool" where
  "settled sv \<longleftrightarrow> (\<forall>c \<in># queuedClasses sv. \<not> admitsTask (svPool sv) (runningClasses sv) c)"

lemma serverOk_start: "serverOk (newMCPTaskLimiter cfg, usage) {} (startServer cfg timeoutSeconds usage)"
proof -
  have cap: "int (size R) < configuredTasks cfg" if "admitsTask (newMCPTaskLimiter cfg, usage) R c" for R c
    using that by (cases "CfMaxTasks cfg \<le> 0")
      (auto simp: admitsTask_def limits_def newMCPTaskLimiter_def orDefault_def configuredTasks_def maxMCPTasks_def)
  have "0 \<le> configuredTasks cfg" by (simp add: configuredTasks_def maxMCPTasks_def)
  then show ?thesis
    using servesFrom_new cap
    by (simp add: serverOk_def poolOk_def workersOk_def queueOk_def answersOk_def startServer_def runningClasses_def
        queuedClasses_def answeredKeys_def taskKeys_def seenKeys_def isQueued_def taskAt_def)
qed

lemma settled_start: "settled (startServer cfg timeoutSeconds usage)"
  by (simp add: settled_def startServer_def queuedClasses_def)


section \<open>Updates of the tasks\<close>

lemma isQueued_ops [simp]:
  "isQueued (dropTask key sv) k \<longleftrightarrow> k \<noteq> key \<and> isQueued sv k"
  "isQueued (putTask key task sv) k \<longleftrightarrow> (if k = key then TsPhase task = TaskQueued else isQueued sv k)"
  "isQueued (sv\<lparr>svPool := p\<rparr>) k \<longleftrightarrow> isQueued sv k" "isQueued (sv\<lparr>svQueue := q\<rparr>) k \<longleftrightarrow> isQueued sv k"
  "isQueued (sv\<lparr>svWritten := w\<rparr>) k \<longleftrightarrow> isQueued sv k" "isQueued (sv\<lparr>svExit := e\<rparr>) k \<longleftrightarrow> isQueued sv k"
  "isQueued (sv\<lparr>svCancels := c\<rparr>) k \<longleftrightarrow> isQueued sv k" "isQueued (sv\<lparr>svSession := s\<rparr>) k \<longleftrightarrow> isQueued sv k"
  "isQueued (sv\<lparr>svResults := rs\<rparr>) k \<longleftrightarrow> isQueued sv k" "isQueued (sv\<lparr>svInputClosed := b\<rparr>) k \<longleftrightarrow> isQueued sv k"
  by (simp_all add: isQueued_def split: option.split)

lemma isQueued_Some: "isQueued sv key \<longleftrightarrow> (\<exists>t. taskAt sv key = Some t \<and> TsPhase t = TaskQueued)"
  by (simp add: isQueued_def split: option.split)

lemma fields_update [simp]:
  "answeredKeys (sv\<lparr>svPool := p\<rparr>) = answeredKeys sv" "answeredKeys (sv\<lparr>svQueue := q\<rparr>) = answeredKeys sv"
  "answeredKeys (sv\<lparr>svExit := e\<rparr>) = answeredKeys sv" "answeredKeys (sv\<lparr>svCancels := c\<rparr>) = answeredKeys sv"
  "answeredKeys (sv\<lparr>svSession := s\<rparr>) = answeredKeys sv" "answeredKeys (sv\<lparr>svResults := rs\<rparr>) = answeredKeys sv"
  "answeredKeys (sv\<lparr>svInputClosed := b\<rparr>) = answeredKeys sv" "answeredKeys (dropTask key sv) = answeredKeys sv"
  "answeredKeys (putTask key task sv) = answeredKeys sv" "answeredKeys (sv\<lparr>svWorkers := ws\<rparr>) = answeredKeys sv"
  "seenKeys (sv\<lparr>svPool := p\<rparr>) = seenKeys sv" "seenKeys (sv\<lparr>svQueue := q\<rparr>) = seenKeys sv"
  "seenKeys (sv\<lparr>svExit := e\<rparr>) = seenKeys sv" "seenKeys (sv\<lparr>svCancels := c\<rparr>) = seenKeys sv"
  "seenKeys (sv\<lparr>svWritten := w\<rparr>) = seenKeys sv" "seenKeys (sv\<lparr>svResults := rs\<rparr>) = seenKeys sv"
  "seenKeys (sv\<lparr>svInputClosed := b\<rparr>) = seenKeys sv" "seenKeys (dropTask key sv) = seenKeys sv"
  "seenKeys (putTask key task sv) = seenKeys sv" "seenKeys (sv\<lparr>svWorkers := ws\<rparr>) = seenKeys sv"
  by (simp_all add: answeredKeys_def seenKeys_def)

lemma classes_update [simp]:
  "runningClasses (sv\<lparr>svPool := p\<rparr>) = runningClasses sv" "queuedClasses (sv\<lparr>svPool := p\<rparr>) = queuedClasses sv"
  "runningClasses (sv\<lparr>svQueue := q\<rparr>) = runningClasses sv" "queuedClasses (sv\<lparr>svQueue := q\<rparr>) = queuedClasses sv"
  "runningClasses (sv\<lparr>svWritten := w\<rparr>) = runningClasses sv" "queuedClasses (sv\<lparr>svWritten := w\<rparr>) = queuedClasses sv"
  "runningClasses (sv\<lparr>svExit := e\<rparr>) = runningClasses sv" "queuedClasses (sv\<lparr>svExit := e\<rparr>) = queuedClasses sv"
  "runningClasses (sv\<lparr>svCancels := c\<rparr>) = runningClasses sv" "queuedClasses (sv\<lparr>svCancels := c\<rparr>) = queuedClasses sv"
  "runningClasses (sv\<lparr>svSession := s\<rparr>) = runningClasses sv" "queuedClasses (sv\<lparr>svSession := s\<rparr>) = queuedClasses sv"
  "runningClasses (sv\<lparr>svResults := rs\<rparr>) = runningClasses sv" "queuedClasses (sv\<lparr>svResults := rs\<rparr>) = queuedClasses sv"
  "runningClasses (sv\<lparr>svInputClosed := b\<rparr>) = runningClasses sv" "queuedClasses (sv\<lparr>svInputClosed := b\<rparr>) = queuedClasses sv"
  "runningClasses (sv\<lparr>svWorkers := ws\<rparr>) = runningClasses sv" "queuedClasses (sv\<lparr>svWorkers := ws\<rparr>) = queuedClasses sv"
  by (simp_all add: runningClasses_def queuedClasses_def)

lemmas serverOk_defs = serverOk_def poolOk_def workersOk_def queueOk_def answersOk_def

lemma pool_dropped:
  assumes "serverOk base P sv" and "taskAt sv key = Some task"
  shows "runningClasses sv = (if TsPhase task = TaskRunning then add_mset (TsClass task) (runningClasses (dropTask key sv))
      else runningClasses (dropTask key sv))"
    and "queuedClasses sv = (if TsPhase task = TaskQueued then add_mset (TsClass task) (queuedClasses (dropTask key sv))
      else queuedClasses (dropTask key sv))"
    and "keysIn TaskRunning (tasksOf sv) = (if TsPhase task = TaskRunning then add_mset key (keysIn TaskRunning (tasksOf (dropTask key sv)))
      else keysIn TaskRunning (tasksOf (dropTask key sv)))"
  using dropTask_view [OF _ assms(2)] assms(1) by (simp_all add: serverOk_defs runningClasses_def queuedClasses_def)

lemma pool_put:
  assumes "serverOk base P sv"
  shows "runningClasses (putTask key task sv) = (if TsPhase task = TaskRunning then add_mset (TsClass task) (runningClasses (dropTask key sv))
      else runningClasses (dropTask key sv))"
    and "queuedClasses (putTask key task sv) = (if TsPhase task = TaskQueued then add_mset (TsClass task) (queuedClasses (dropTask key sv))
      else queuedClasses (dropTask key sv))"
    and "keysIn TaskRunning (tasksOf (putTask key task sv)) = (if TsPhase task = TaskRunning
      then add_mset key (keysIn TaskRunning (tasksOf (dropTask key sv))) else keysIn TaskRunning (tasksOf (dropTask key sv)))"
  using putTask_view [of sv key task] assms by (simp_all add: serverOk_defs runningClasses_def queuedClasses_def)

text \<open>A queued task leaves: it is cancelled or answered next.\<close>

lemma serverOk_dropQueued:
  assumes ok: "serverOk base P sv" and at: "taskAt sv key = Some task" and queued: "TsPhase task = TaskQueued"
  defines "sv' \<equiv> (dropTask key sv)\<lparr>svPool := dequeueTask (TsClass task) (svPool sv)\<rparr>"
  shows "serverOk base (insert key P) sv'" and "settled sv \<Longrightarrow> settled sv'"
    and "key \<in> seenKeys sv'" and "key \<notin> set (answeredKeys sv')"
proof -
  note view = pool_dropped [OF ok at]
  have key: "key \<in> taskKeys sv" using at by (rule taskAt_Some)
  have "servesFrom base (svPool sv) (runningClasses sv) (add_mset (TsClass task) (queuedClasses (dropTask key sv)))"
    using ok view(2) queued by (simp add: serverOk_defs)
  note law = limiter.dequeue_law [OF this]
  have "poolOk base sv'"
    using ok law view(1) queued by (simp add: sv'_def serverOk_defs)
  moreover have "workersOk sv'" using ok view(3) queued by (simp add: sv'_def serverOk_defs)
  moreover have "queueOk sv'" using ok by (auto simp: sv'_def serverOk_defs)
  moreover have "answersOk (insert key P) sv'" using ok by (auto simp: sv'_def serverOk_defs)
  ultimately show "serverOk base (insert key P) sv'" by (simp add: serverOk_def)
  show "settled sv'" if "settled sv"
    using that law view(1,2) queued by (simp add: sv'_def settled_def)
  show "key \<in> seenKeys sv'" and "key \<notin> set (answeredKeys sv')" using ok key by (auto simp: sv'_def serverOk_defs)
qed

lemma serverOk_cancelled:
  "serverOk base (insert key P) sv \<Longrightarrow> key \<in> set (svCancels sv) \<Longrightarrow> serverOk base P sv"
  by (auto simp: serverOk_defs)

lemma serverOk_history: "serverOk base P sv \<Longrightarrow> serverOk base P (sv\<lparr>svCancels := key # svCancels sv\<rparr>)"
  by (auto simp: serverOk_defs taskKeys_def)

lemma settled_history [simp]: "settled (sv\<lparr>svCancels := c\<rparr>) = settled sv"
  by (simp add: settled_def)

text \<open>A running task is marked.\<close>

lemma serverOk_mark:
  assumes ok: "serverOk base P sv" and at: "taskAt sv key = Some task" and running: "TsPhase task \<noteq> TaskQueued"
    and noted: "key \<in> set (svCancels sv)"
  shows "serverOk base P (putTask key (task\<lparr>TsCancelled := True\<rparr>) sv)" and "settled sv \<Longrightarrow> settled (putTask key (task\<lparr>TsCancelled := True\<rparr>) sv)"
proof -
  have phase: "TsPhase task = TaskRunning" using running by (cases "TsPhase task") simp_all
  have key: "key \<in> taskKeys sv" using at by (rule taskAt_Some)
  note drop = pool_dropped [OF ok at] and put = pool_put [OF ok, of key "task\<lparr>TsCancelled := True\<rparr>"]
  have same: "runningClasses (putTask key (task\<lparr>TsCancelled := True\<rparr>) sv) = runningClasses sv"
    "queuedClasses (putTask key (task\<lparr>TsCancelled := True\<rparr>) sv) = queuedClasses sv"
    "keysIn TaskRunning (tasksOf (putTask key (task\<lparr>TsCancelled := True\<rparr>) sv)) = keysIn TaskRunning (tasksOf sv)"
    using drop put phase by simp_all
  show "serverOk base P (putTask key (task\<lparr>TsCancelled := True\<rparr>) sv)"
    using ok same key phase noted by (auto simp: serverOk_defs split: if_splits)
  show "settled (putTask key (task\<lparr>TsCancelled := True\<rparr>) sv)" if "settled sv"
    using that same by (simp add: settled_def)
qed

lemma serverOk_cancelTask:
  assumes "serverOk base P sv"
  shows "serverOk base P (cancelTask key sv)" and "settled sv \<Longrightarrow> settled (cancelTask key sv)"
proof -
  have "serverOk base P (cancelTask key sv) \<and> (settled sv \<longrightarrow> settled (cancelTask key sv))"
  proof (cases "taskAt sv key")
    case None
    then show ?thesis using assms by (simp add: cancelTask_def)
  next
    case (Some task)
    let ?sv = "sv\<lparr>svCancels := key # svCancels sv\<rparr>"
    have ok: "serverOk base P ?sv" using serverOk_history [OF assms] .
    have at: "taskAt ?sv key = Some task" using Some by simp
    show ?thesis
    proof (cases "TsPhase task = TaskQueued")
      case True
      note drop = serverOk_dropQueued [OF ok at True]
      from serverOk_cancelled [OF drop(1)] show ?thesis
        using True Some drop(2) by (simp add: cancelTask_def Let_def)
    next
      case False
      then show ?thesis using Some serverOk_mark [OF ok at False] by (simp add: cancelTask_def Let_def)
    qed
  qed
  then show "serverOk base P (cancelTask key sv)" and "settled sv \<Longrightarrow> settled (cancelTask key sv)" by simp_all
qed

lemma cancelTask_fields [simp]:
  "svExit (cancelTask key sv) = svExit sv" "svWritten (cancelTask key sv) = svWritten sv" "svSession (cancelTask key sv) = svSession sv"
  "svInputClosed (cancelTask key sv) = svInputClosed sv" "svContextDone (cancelTask key sv) = svContextDone sv"
  "svResults (cancelTask key sv) = svResults sv" "svWorkers (cancelTask key sv) = svWorkers sv"
  "svCapacity (cancelTask key sv) = svCapacity sv" "svBlocked (cancelTask key sv) = svBlocked sv"
  "isQueued (cancelTask key sv) k \<longleftrightarrow> k \<noteq> key \<and> isQueued sv k"
  by (auto simp: cancelTask_def Let_def isQueued_Some split: option.splits if_splits)

lemma cancelTask_keys: "taskKeys (cancelTask key sv) \<subseteq> taskKeys sv"
  using taskAt_None [of sv key] by (auto simp: cancelTask_def Let_def split: option.splits)

lemma cancelTasks_fields [simp]:
  "svExit (cancelTasks sv) = svExit sv" "svWritten (cancelTasks sv) = svWritten sv" "svSession (cancelTasks sv) = svSession sv"
  "svInputClosed (cancelTasks sv) = svInputClosed sv" "svContextDone (cancelTasks sv) = svContextDone sv"
  "svResults (cancelTasks sv) = svResults sv" "svWorkers (cancelTasks sv) = svWorkers sv"
  "svBlocked (cancelTasks sv) = svBlocked sv" "svQueue (cancelTasks sv) = []"
proof -
  have "svExit (fold cancelTask ks sv) = svExit sv \<and> svWritten (fold cancelTask ks sv) = svWritten sv
      \<and> svSession (fold cancelTask ks sv) = svSession sv \<and> svInputClosed (fold cancelTask ks sv) = svInputClosed sv
      \<and> svContextDone (fold cancelTask ks sv) = svContextDone sv \<and> svResults (fold cancelTask ks sv) = svResults sv
      \<and> svWorkers (fold cancelTask ks sv) = svWorkers sv \<and> svBlocked (fold cancelTask ks sv) = svBlocked sv" for ks
    by (induction ks arbitrary: sv) simp_all
  then show "svExit (cancelTasks sv) = svExit sv" "svWritten (cancelTasks sv) = svWritten sv" "svSession (cancelTasks sv) = svSession sv"
    "svInputClosed (cancelTasks sv) = svInputClosed sv" "svContextDone (cancelTasks sv) = svContextDone sv"
    "svResults (cancelTasks sv) = svResults sv" "svWorkers (cancelTasks sv) = svWorkers sv"
    "svBlocked (cancelTasks sv) = svBlocked sv" "svQueue (cancelTasks sv) = []"
    by (simp_all add: cancelTasks_def)
qed

lemma serverOk_cancelTasks:
  assumes "serverOk base P sv"
  shows "serverOk base P (cancelTasks sv)" and "settled (cancelTasks sv)" and "\<not> isQueued (cancelTasks sv) key"
proof -
  have fold: "serverOk base P (fold cancelTask ks sv)
      \<and> (\<forall>k. isQueued (fold cancelTask ks sv) k \<longleftrightarrow> isQueued sv k \<and> k \<notin> set ks)" if "serverOk base P sv" for ks sv
    using that by (induction ks arbitrary: sv) (auto simp: serverOk_cancelTask(1))
  let ?sv = "fold cancelTask (map fst (svTasks sv)) sv"
  have none: "\<not> isQueued ?sv k" for k
    using fold [OF assms] taskAt_None [of sv k] by (auto simp: isQueued_Some taskKeys_def)
  then show "\<not> isQueued (cancelTasks sv) key" by (simp add: cancelTasks_def)
  have ok: "serverOk base P ?sv" using fold [OF assms] by blast
  then show "serverOk base P (cancelTasks sv)" using none by (simp add: cancelTasks_def serverOk_defs)
  have "classesIn TaskQueued (tasksOf ?sv) = {#}"
  proof -
    have "filter (\<lambda>x. TsPhase (snd x) = TaskQueued) (svTasks ?sv) = []"
      using none ok by (auto simp: filter_empty_conv isQueued_Some taskAt_def serverOk_defs)
    then show ?thesis by (simp add: classesIn_def flip: mset_filter)
  qed
  then show "settled (cancelTasks sv)" by (simp add: cancelTasks_def settled_def queuedClasses_def)
qed


section \<open>Writing\<close>

lemma serverOk_exitError: "serverOk base Q sv \<Longrightarrow> serverOk base P (sv\<lparr>svExit := Some ExitError\<rparr>)"
  by (auto simp: serverOk_defs)

lemma serverOk_exit: "serverOk base P sv \<Longrightarrow> svExit sv = None \<Longrightarrow> serverOk base P (sv\<lparr>svExit := Some e\<rparr>)"
  by (auto simp: serverOk_defs)

lemma settled_exit [simp]: "settled (sv\<lparr>svExit := e\<rparr>) = settled sv" "settled (sv\<lparr>svWritten := w\<rparr>) = settled sv"
  "settled (sv\<lparr>svSession := s\<rparr>) = settled sv" "settled (sv\<lparr>svResults := rs\<rparr>) = settled sv"
  "settled (sv\<lparr>svInputClosed := b\<rparr>) = settled sv" "settled (sv\<lparr>svQueue := q\<rparr>) = settled sv"
  by (simp_all add: settled_def)

lemma settled_answer: "serverOk base P sv \<Longrightarrow> settled sv \<Longrightarrow> settled (answer sink r sv)"
  using serverOk_cancelTasks(2) by (simp add: answer_def)

lemma serverOk_answer:
  assumes "serverOk base (insert key P) sv" and "key \<in> seenKeys sv" and "key \<notin> set (answeredKeys sv)"
    and "key \<notin> taskKeys sv" and "out \<noteq> DuplicateRequest"
  shows "serverOk base P (answer sink (Response key out) sv)"
proof (cases "sink (length (svWritten sv))")
  case True
  have "answeredKeys (sv\<lparr>svWritten := svWritten sv @ [Response key out]\<rparr>) = answeredKeys sv @ [key]"
    using assms(5) by (simp add: answeredKeys_def answers_def)
  then show ?thesis using True assms(1-4) by (auto simp: answer_def serverOk_defs)
next
  case False
  then show ?thesis
    using serverOk_exitError [OF serverOk_cancelTasks(1) [OF assms(1)]] by (simp add: answer_def)
qed

lemma serverOk_reply:
  assumes "serverOk base P sv" and "answers r = []"
  shows "serverOk base P (answer sink r sv)"
proof (cases "sink (length (svWritten sv))")
  case True
  have "answeredKeys (sv\<lparr>svWritten := svWritten sv @ [r]\<rparr>) = answeredKeys sv"
    using assms(2) by (simp add: answeredKeys_def)
  then show ?thesis using True assms(1) by (auto simp: answer_def serverOk_defs)
next
  case False
  then show ?thesis
    using serverOk_exitError [OF serverOk_cancelTasks(1) [OF assms(1)]] by (simp add: answer_def)
qed

section \<open>Starting\<close>

lemma startTask_fields [simp]:
  "svExit (startTask leased key task sv) = svExit sv" "svPool (startTask leased key task sv) = svPool sv"
  "svInputClosed (startTask leased key task sv) = svInputClosed sv" "svContextDone (startTask leased key task sv) = svContextDone sv"
  "svWritten (startTask leased key task sv) = svWritten sv" "svSession (startTask leased key task sv) = svSession sv"
  "svCapacity (startTask leased key task sv) = svCapacity sv" "svCancels (startTask leased key task sv) = svCancels sv"
  "svTasks (startTask leased key task sv) = svTasks (putTask key (task\<lparr>TsPhase := TaskRunning\<rparr>) sv)"
  by (simp_all add: startTask_def sendResult_def Let_def)

lemma view_of_tasks:
  "svTasks sv = svTasks sv' \<Longrightarrow> runningClasses sv = runningClasses sv'" "svTasks sv = svTasks sv' \<Longrightarrow> queuedClasses sv = queuedClasses sv'"
  "svTasks sv = svTasks sv' \<Longrightarrow> taskKeys sv = taskKeys sv'" "svTasks sv = svTasks sv' \<Longrightarrow> isQueued sv k = isQueued sv' k"
  "svSession sv = svSession sv' \<Longrightarrow> seenKeys sv = seenKeys sv'" "svWritten sv = svWritten sv' \<Longrightarrow> answeredKeys sv = answeredKeys sv'"
  by (simp_all add: runningClasses_def queuedClasses_def taskKeys_def isQueued_def taskAt_def seenKeys_def answeredKeys_def)

lemma serverOk_startTask:
  assumes ok: "serverOk base (insert key P) ((dropTask key sv)\<lparr>svPool := pool\<rparr>)"
    and serves: "servesFrom base (svPool sv) (add_mset (TsClass task) (runningClasses (dropTask key sv))) (queuedClasses (dropTask key sv))"
    and admits: "admitsTask (svPool sv) = admitsTask pool" "admitsTask pool (runningClasses (dropTask key sv)) (TsClass task)"
    and fresh: "key \<in> seenKeys sv" "key \<notin> set (answeredKeys sv)" and distinct: "distinct (map fst (svTasks sv))"
    and running: "svExit sv = None" and unmarked: "TsCancelled task \<Longrightarrow> key \<in> set (svCancels sv)"
  shows "serverOk base P (startTask leased key task sv)"
    and "settled ((dropTask key sv)\<lparr>svPool := pool\<rparr>) \<Longrightarrow> settled (startTask leased key task sv)"
proof -
  let ?d = "dropTask key sv" and ?p = "putTask key (task\<lparr>TsPhase := TaskRunning\<rparr>) sv"
  let ?s = "startTask leased key task sv"
  have put: "tasksOf ?p = add_mset (key, task\<lparr>TsPhase := TaskRunning\<rparr>) (tasksOf ?d)" using putTask_view [OF distinct] .
  have same: "runningClasses ?s = runningClasses ?p" "queuedClasses ?s = queuedClasses ?p" "taskKeys ?s = taskKeys ?p"
    "isQueued ?s k = isQueued ?p k" "seenKeys ?s = seenKeys sv" "answeredKeys ?s = answeredKeys sv" for k
    by (rule view_of_tasks; simp)+
  have view: "runningClasses ?p = add_mset (TsClass task) (runningClasses ?d)" "queuedClasses ?p = queuedClasses ?d"
    "keysIn TaskRunning (tasksOf ?p) = add_mset key (keysIn TaskRunning (tasksOf ?d))"
    using put by (simp_all add: runningClasses_def queuedClasses_def)
  have "\<forall>R c. admitsTask pool R c \<longrightarrow> int (size R) < svCapacity sv" using ok by (auto simp: serverOk_defs)
  then have less: "int (size (runningClasses ?d)) < svCapacity sv" using admits(2) by blast
  have workers: "mset (svWorkers sv) + mset (map ReKey (svResults sv)) \<subseteq># keysIn TaskRunning (tasksOf ?d)"
    and all: "\<not> svContextDone sv \<longrightarrow> mset (svWorkers sv) + mset (map ReKey (svResults sv)) = keysIn TaskRunning (tasksOf ?d)"
    and free: "\<not> svBlocked sv"
    using ok running by (simp_all add: serverOk_defs)
  have "size (mset (svWorkers sv) + mset (map ReKey (svResults sv))) \<le> size (runningClasses ?d)"
    using size_mset_mono [OF workers] by (simp add: size_keysIn runningClasses_def)
  then have room: "int (length (svResults sv)) < svCapacity sv" using less by simp
  have replies: "\<forall>r \<in> set (svResults sv). ReOutcome r \<noteq> DuplicateRequest" using ok by (simp add: serverOk_defs)
  have sent: "mset (svWorkers ?s) + mset (map ReKey (svResults ?s)) = add_mset key (mset (svWorkers sv) + mset (map ReKey (svResults sv)))"
    "\<not> svBlocked ?s" "\<forall>r \<in> set (svResults ?s). ReOutcome r \<noteq> DuplicateRequest"
    using room free replies by (simp_all add: startTask_def sendResult_def Let_def)
  have "poolOk base ?s"
    using ok serves admits(1) less distinct_ops(2) [OF distinct] by (simp add: serverOk_defs same view)
  moreover have "workersOk ?s" using workers all sent view(3) by (simp add: workersOk_def)
  moreover have "queueOk ?s" using ok by (simp add: serverOk_defs same)
  moreover have "taskAt ?s k = (if k = key then Some (task\<lparr>TsPhase := TaskRunning\<rparr>) else taskAt sv k)" for k
    by (simp add: taskAt_def putTask_def update_conv')
  then have "answersOk P ?s" using ok fresh unmarked by (auto simp: serverOk_defs same split: if_splits)
  ultimately show "serverOk base P ?s" by (simp add: serverOk_def)
  show "settled ?s" if "settled (?d\<lparr>svPool := pool\<rparr>)"
    using that limiter.refused_stays by (simp add: settled_def same view admits(1))
qed

lemma firstAcquired_None:
  "firstAcquired sv keys = None \<Longrightarrow> key \<in> set keys \<Longrightarrow> taskAt sv key = Some task \<Longrightarrow> \<not> fst (acquireTask (TsClass task) (svPool sv))"
  by (induction keys) (auto simp: Let_def split: prod.splits bool.splits option.splits)

lemma firstAcquired_Some:
  "firstAcquired sv keys = Some (key, task, pool, rest) \<Longrightarrow>
     mset keys = add_mset key (mset rest) \<and> acquireTask (TsClass task) (svPool sv) = (True, pool)
     \<and> (\<forall>t. taskAt sv key = Some t \<longrightarrow> t = task)"
  by (induction keys arbitrary: rest) (auto simp: Let_def split: prod.splits bool.splits option.splits)

lemma serverOk_queue:
  "serverOk base P sv \<Longrightarrow> distinct q \<Longrightarrow> set q \<subseteq> seenKeys sv \<Longrightarrow> (\<And>key. isQueued sv key \<Longrightarrow> key \<in> set q)
     \<Longrightarrow> serverOk base P (sv\<lparr>svQueue := q\<rparr>)"
  by (simp add: serverOk_defs)

lemma compactQueue_ok: "serverOk base P sv \<Longrightarrow> serverOk base P (compactQueue sv)"
  unfolding compactQueue_def by (rule serverOk_queue) (auto simp: serverOk_defs)

lemma compactQueue_fields [simp]:
  "svExit (compactQueue sv) = svExit sv" "isQueued (compactQueue sv) k = isQueued sv k" "settled (compactQueue sv) = settled sv"
  by (simp_all add: compactQueue_def settled_def)

lemma queuedClasses_key:
  assumes "serverOk base P sv" and "c \<in># queuedClasses sv"
  obtains key task where "taskAt sv key = Some task" and "TsPhase task = TaskQueued" and "c = TsClass task"
proof -
  obtain x where x: "x \<in> set (svTasks sv)" "TsPhase (snd x) = TaskQueued" "c = TsClass (snd x)"
    using assms(2) by (auto simp: queuedClasses_def classesIn_def)
  moreover have "taskAt sv (fst x) = Some (snd x)"
    using x(1) assms(1) by (simp add: taskAt_def serverOk_defs)
  ultimately show thesis using that by blast
qed

lemma serverOk_dispatch:
  "serverOk base P sv \<Longrightarrow> svExit sv = None \<Longrightarrow>
     serverOk base P (dispatchQueued leased sv) \<and> settled (dispatchQueued leased sv) \<and> svExit (dispatchQueued leased sv) = None"
proof (induction leased sv rule: dispatchQueued.induct)
  case (1 leased sv)
  let ?c = "compactQueue sv"
  have ok: "serverOk base P ?c" using 1(2) by (rule compactQueue_ok)
  show ?case
  proof (cases "firstAcquired ?c (svQueue ?c)")
    case None
    have "settled ?c"
      unfolding settled_def
    proof (intro ballI notI)
      fix c
      assume c: "c \<in># queuedClasses ?c" and admits: "admitsTask (svPool ?c) (runningClasses ?c) c"
      obtain key task where t: "taskAt ?c key = Some task" "TsPhase task = TaskQueued" "c = TsClass task"
        by (rule queuedClasses_key [OF ok c])
      have "key \<in> set (svQueue ?c)" using t ok by (auto simp: serverOk_defs isQueued_Some)
      from firstAcquired_None [OF None this t(1)] have "\<not> fst (acquireTask c (svPool ?c))" using t(3) by simp
      moreover have "servesFrom base (svPool ?c) (runningClasses ?c) (queuedClasses ?c)" using ok by (simp add: serverOk_defs)
      ultimately show False using limiter.acquire_law [of base, of "svPool ?c" _ _ c] admits by fastforce
    qed
    moreover have "dispatchQueued leased sv = ?c" using None by (simp add: dispatchQueued.simps [of leased sv] Let_def)
    ultimately show ?thesis using ok 1(3) by simp
  next
    case (Some r)
    obtain key task pool rest where r: "r = (key, task, pool, rest)" by (cases r)
    note first = firstAcquired_Some [OF Some [unfolded r]]
    let ?pool = "dequeueTask (TsClass task) pool"
    let ?a = "?c\<lparr>svQueue := rest, svPool := ?pool\<rparr>"
    have same_keys: "mset (svQueue ?c) = mset (key # rest)" using first by simp
    have "distinct (svQueue ?c)" using ok by (simp add: serverOk_defs)
    then have rest: "distinct rest" "key \<notin> set rest" "set (svQueue ?c) = insert key (set rest)"
      using mset_eq_imp_distinct_iff [OF same_keys] mset_eq_setD [OF same_keys] by simp_all
    then have "key \<in> set (svQueue ?c)" by simp
    then have "isQueued ?c key" by (simp add: compactQueue_def)
    then obtain t where t: "taskAt ?c key = Some t" "TsPhase t = TaskQueued" by (auto simp: isQueued_Some)
    then have at: "taskAt ?c key = Some task" "TsPhase task = TaskQueued" using first by simp_all
    note view = pool_dropped [OF ok at(1)]
    have serves: "servesFrom base (svPool ?c) (runningClasses (dropTask key ?c)) (add_mset (TsClass task) (queuedClasses (dropTask key ?c)))"
      using ok view at(2) by (simp add: serverOk_defs)
    have acq: "acquireTask (TsClass task) (svPool ?c) = (True, pool)" using first by simp
    note started = limiter.start_waiting [OF serves acq]
    note drop = serverOk_dropQueued [OF ok at]
    have dropA: "(dropTask key ?a)\<lparr>svPool := dequeueTask (TsClass task) (svPool ?c)\<rparr>
        = ((dropTask key ?c)\<lparr>svPool := dequeueTask (TsClass task) (svPool ?c)\<rparr>)\<lparr>svQueue := rest\<rparr>"
      by (simp add: dropTask_def)
    have okA: "serverOk base (insert key P) ((dropTask key ?a)\<lparr>svPool := dequeueTask (TsClass task) (svPool ?c)\<rparr>)"
      unfolding dropA using drop(1) rest by (intro serverOk_queue) (auto simp: serverOk_defs)
    have same: "runningClasses (dropTask key ?a) = runningClasses (dropTask key ?c)"
      "queuedClasses (dropTask key ?a) = queuedClasses (dropTask key ?c)"
      by (rule view_of_tasks; simp add: dropTask_def)+
    have admits: "admitsTask (dequeueTask (TsClass task) (svPool ?c)) = admitsTask (svPool ?c)"
      using limiter.dequeue_law [OF serves] by simp
    have "serverOk base P (startTask leased key task ?a)"
      by (rule serverOk_startTask(1) [OF okA])
        (use started serves admits limiter.acquire_True [OF serves acq] drop(3,4) ok 1(3) at(1) in
          \<open>simp_all add: same serverOk_defs\<close>)
    moreover have "dispatchQueued leased sv = dispatchQueued leased (startTask leased key task ?a)"
      using Some r by (simp add: dispatchQueued.simps [of leased sv] Let_def)
    ultimately show ?thesis using 1(1) [OF refl Some] r 1(3) by simp
  qed
qed


section \<open>The handlers\<close>

lemma svExit_answer: "svExit (answer sink r sv) = (if sink (length (svWritten sv)) then svExit sv else Some ExitError)"
  by (simp add: answer_def)

lemma cancelTasks_queue [simp]: "cancelTasks (sv\<lparr>svQueue := q\<rparr>) = cancelTasks sv"
proof -
  have one: "cancelTask key (sv\<lparr>svQueue := q\<rparr>) = (cancelTask key sv)\<lparr>svQueue := q\<rparr>" for key sv
    by (simp add: cancelTask_def dropTask_def putTask_def Let_def taskAt_def split: option.split)
  have "fold cancelTask ks (sv\<lparr>svQueue := q\<rparr>) = (fold cancelTask ks sv)\<lparr>svQueue := q\<rparr>" for ks
    by (induction ks arbitrary: sv) (simp_all add: one)
  then show ?thesis by (simp add: cancelTasks_def)
qed

text \<open>A queued task that is late leaves with its answer, or with the session when the answer cannot be written.\<close>

lemma serverOk_late:
  assumes ok: "serverOk base P sv" and at: "taskAt sv key = Some task" and queued: "TsPhase task = TaskQueued"
  defines "sv1 \<equiv> (dropTask key sv)\<lparr>svPool := dequeueTask (TsClass task) (svPool sv)\<rparr>"
  shows "TsCancelled task \<Longrightarrow> serverOk base P sv1"
    and "sink (length (svWritten sv1)) \<Longrightarrow> serverOk base P (sv1\<lparr>svWritten := svWritten sv1 @ [Response key QueueTimeout]\<rparr>)"
    and "serverOk base P ((cancelTasks sv1)\<lparr>svExit := Some ExitError\<rparr>)" and "settled (cancelTasks sv1)"
proof -
  note drop = serverOk_dropQueued [OF ok at queued, folded sv1_def]
  have gone: "key \<notin> taskKeys sv1" by (simp add: sv1_def)
  show "serverOk base P sv1" if "TsCancelled task"
    using that ok at by (intro serverOk_cancelled [OF drop(1)]) (auto simp: serverOk_defs sv1_def)
  show "serverOk base P (sv1\<lparr>svWritten := svWritten sv1 @ [Response key QueueTimeout]\<rparr>)" if "sink (length (svWritten sv1))"
    using serverOk_answer [OF drop(1,3,4) gone, of QueueTimeout sink] that by (simp add: answer_def)
  show "serverOk base P ((cancelTasks sv1)\<lparr>svExit := Some ExitError\<rparr>)"
    by (rule serverOk_exitError [OF serverOk_cancelTasks(1) [OF drop(1)]])
  show "settled (cancelTasks sv1)" by (rule serverOk_cancelTasks(2) [OF drop(1)])
qed

definition expiring :: "taskPool \<Rightarrow> bytes set \<Rightarrow> bytes list \<Rightarrow> server \<Rightarrow> bool" where
  "expiring base P keys sv \<longleftrightarrow>
     serverOk base P sv \<and> settled sv \<and> distinct keys \<and> set keys \<subseteq> seenKeys sv \<and> (\<forall>k. isQueued sv k \<longrightarrow> k \<in> set keys)"

lemma expireLoop_ok:
  "expiring base P (kept @ keys) sv \<Longrightarrow> serverOk base P (expireLoop sink now kept keys sv) \<and> settled (expireLoop sink now kept keys sv)"
proof (induction sink now kept keys sv rule: expireLoop.induct)
  case (1 sink now kept sv)
  then show ?case by (auto simp: expiring_def intro: serverOk_queue)
next
  case (2 sink now kept key keys sv)
  have ok: "serverOk base P sv" and settled: "settled sv" using 2(6) by (simp_all add: expiring_def)
  have skip: "expiring base P (kept @ keys) sv" if "\<not> isQueued sv key" using 2(6) that by (auto simp: expiring_def)
  show ?case
  proof (cases "taskAt sv key")
    case None
    then show ?thesis using 2(1) [OF None] skip by (simp add: isQueued_Some)
  next
    case (Some task)
    let ?sv = "(dropTask key sv)\<lparr>svPool := dequeueTask (TsClass task) (svPool sv)\<rparr>"
    consider (running) "TsPhase task \<noteq> TaskQueued" | (early) "TsPhase task = TaskQueued" "now < TsQueuedAt task + svQueueTimeout sv"
      | (late) "TsPhase task = TaskQueued" "\<not> now < TsQueuedAt task + svQueueTimeout sv" by blast
    then show ?thesis
    proof cases
      case running
      then show ?thesis using Some 2(2) [OF Some running] skip by (simp add: isQueued_Some)
    next
      case early
      then show ?thesis using Some 2(3) [OF Some] 2(6) by simp
    next
      case late
      note late_ok = serverOk_late [OF ok Some late(1)]
      have still: "settled ?sv" using serverOk_dropQueued(2) [OF ok Some late(1) settled] .
      have next_expiring: "expiring base P (kept @ keys) ?sv" if "serverOk base P ?sv"
        using that still 2(6) by (auto simp: expiring_def)
      have next_written: "expiring base P (kept @ keys) (?sv\<lparr>svWritten := w\<rparr>)" if "serverOk base P (?sv\<lparr>svWritten := w\<rparr>)" for w
        using that still 2(6) by (auto simp: expiring_def)
      show ?thesis
        using Some late late_ok 2(4) [OF Some _ _ refl] 2(5) [OF Some _ _ refl] next_expiring next_written
        by (simp add: Let_def)
    qed
  qed
qed

lemma expireQueued_ok:
  assumes "serverOk base P sv" and "settled sv"
  shows "serverOk base P (expireQueued sink now sv) \<and> settled (expireQueued sink now sv)"
  unfolding expireQueued_def
  by (rule expireLoop_ok) (use assms in \<open>auto simp: expiring_def serverOk_defs\<close>)

lemma dropTask_fresh: "key \<notin> taskKeys sv \<Longrightarrow> dropTask key sv = sv"
  by (simp add: dropTask_def taskKeys_def)

text \<open>A fresh id: seen in this turn.\<close>

definition freshKey :: "bytes \<Rightarrow> server \<Rightarrow> bool" where
  "freshKey key sv \<longleftrightarrow>
     key \<in> seenKeys sv \<and> key \<notin> set (answeredKeys sv) \<and> key \<notin> taskKeys sv \<and> key \<notin> set (svQueue sv)"

lemma answer_fresh:
  assumes "serverOk base {key} sv" and "settled sv" and "freshKey key sv" and "out \<noteq> DuplicateRequest"
  shows "serverOk base {} (answer sink (Response key out) sv) \<and> settled (answer sink (Response key out) sv)"
  using serverOk_answer [of base key "{}" sv out sink] settled_answer [OF assms(1,2)] assms by (simp add: freshKey_def)

lemma callTool_ok:
  assumes ok: "serverOk base {key} sv" and settled: "settled sv" and fresh: "freshKey key sv" and running: "svExit sv = None"
  shows "serverOk base {} (callTool sink leased now key req sv) \<and> settled (callTool sink leased now key req sv)"
proof (cases "readyForTools (svSession sv)")
  case False
  then show ?thesis using answer_fresh [OF ok settled fresh] by (simp add: callTool_def)
next
  case True
  let ?kind = "classifyMCPTask (RqCall req)"
  let ?task = "newTask ?kind now"
  have serves: "servesFrom base (svPool sv) (runningClasses sv) (queuedClasses sv)" using ok by (simp add: serverOk_defs)
  have absent: "dropTask key sv = sv" using fresh dropTask_fresh by (simp add: freshKey_def)
  obtain granted pool where acq: "acquireTask ?kind (svPool sv) = (granted, pool)" by (meson surj_pair)
  show ?thesis
  proof (cases granted)
    case granted: True
    then have "acquireTask ?kind (svPool sv) = (True, pool)" using acq by simp
    note got = limiter.acquire_True [OF serves this]
    have drop: "dropTask key (sv\<lparr>svPool := pool\<rparr>) = sv\<lparr>svPool := pool\<rparr>" using fresh by (intro dropTask_fresh) (simp add: freshKey_def)
    have restore: "(sv\<lparr>svPool := pool\<rparr>)\<lparr>svPool := svPool sv\<rparr> = sv" by simp
    have cls: "TsClass ?task = ?kind" "\<not> TsCancelled ?task" by (simp_all add: newTask_def)
    have distinct: "distinct (map fst (svTasks sv))" using ok by (simp add: serverOk_defs)
    have "serverOk base {} (startTask leased key ?task (sv\<lparr>svPool := pool\<rparr>))
        \<and> (settled sv \<longrightarrow> settled (startTask leased key ?task (sv\<lparr>svPool := pool\<rparr>)))"
    proof (intro conjI impI)
      note started = serverOk_startTask [where P = "{}" and key = key and sv = "sv\<lparr>svPool := pool\<rparr>" and pool = "svPool sv"
          and task = ?task and leased = leased and base = base, unfolded drop restore cls]
      have pre: "servesFrom base (svPool (sv\<lparr>svPool := pool\<rparr>)) (add_mset ?kind (runningClasses (sv\<lparr>svPool := pool\<rparr>)))
          (queuedClasses (sv\<lparr>svPool := pool\<rparr>))" "admitsTask (svPool (sv\<lparr>svPool := pool\<rparr>)) = admitsTask (svPool sv)"
        "admitsTask (svPool sv) (runningClasses (sv\<lparr>svPool := pool\<rparr>)) ?kind"
        "key \<in> seenKeys (sv\<lparr>svPool := pool\<rparr>)" "key \<notin> set (answeredKeys (sv\<lparr>svPool := pool\<rparr>))"
        "distinct (map fst (svTasks (sv\<lparr>svPool := pool\<rparr>)))" "svExit (sv\<lparr>svPool := pool\<rparr>) = None"
        using got fresh running distinct by (simp_all add: freshKey_def)
      show "serverOk base {} (startTask leased key ?task (sv\<lparr>svPool := pool\<rparr>))"
        by (rule started(1) [OF ok pre]) (simp add: cls)
      show "settled (startTask leased key ?task (sv\<lparr>svPool := pool\<rparr>))" if "settled sv"
        by (rule started(2) [OF ok pre]) (simp_all add: cls that)
    qed
    then have "serverOk base {} (startTask leased key ?task (sv\<lparr>svPool := pool\<rparr>))
        \<and> settled (startTask leased key ?task (sv\<lparr>svPool := pool\<rparr>))" using settled by blast
    then show ?thesis using True acq granted by (simp add: callTool_def Let_def)
  next
    case refused: False
    then have "acquireTask ?kind (svPool sv) = (False, pool)" using acq by simp
    note no = limiter.acquire_False [OF serves this]
    obtain queued pool1 where enq: "enqueueTask ?kind (svPool sv) = (queued, pool1)" by (meson surj_pair)
    show ?thesis
    proof (cases queued)
      case False
      then have "pool1 = svPool sv" using limiter.enqueue_law [OF serves, of ?kind] enq by (auto split: if_splits)
      then show ?thesis
        using True acq refused no enq False answer_fresh [OF ok settled fresh] by (simp add: callTool_def Let_def)
    next
      case True
      let ?sv = "(putTask key ?task (sv\<lparr>svPool := pool1\<rparr>))\<lparr>svQueue := svQueue sv @ [key]\<rparr>"
      have law: "servesFrom base pool1 (runningClasses sv) (add_mset ?kind (queuedClasses sv))" "admitsTask pool1 = admitsTask (svPool sv)"
        using limiter.enqueue_law [OF serves, of ?kind] enq True by (auto split: if_splits)
      have put: "tasksOf (putTask key ?task sv) = add_mset (key, ?task) (tasksOf sv)"
        using putTask_view [of sv key ?task] ok absent by (simp add: serverOk_defs)
      have same: "svTasks ?sv = svTasks (putTask key ?task sv)" by (simp add: putTask_def)
      have view: "runningClasses ?sv = runningClasses sv" "queuedClasses ?sv = add_mset ?kind (queuedClasses sv)"
        "keysIn TaskRunning (tasksOf ?sv) = keysIn TaskRunning (tasksOf sv)"
        unfolding runningClasses_def queuedClasses_def same put by (simp_all add: newTask_def)
      have "taskAt ?sv k = (if k = key then Some ?task else taskAt sv k)" for k
        by (simp add: taskAt_def putTask_def update_conv')
      then have "serverOk base {} ?sv"
        using ok law fresh view by (auto simp: serverOk_defs freshKey_def newTask_def)
      moreover have "settled ?sv" using settled no(1) law(2) view by (simp add: settled_def)
      ultimately show ?thesis
        using \<open>readyForTools (svSession sv)\<close> acq refused no enq True by (simp add: callTool_def Let_def)
    qed
  qed
qed


lemma serverOk_session:
  "SsSeen s = SsSeen (svSession sv) \<Longrightarrow> serverOk base P (sv\<lparr>svSession := s\<rparr>) = serverOk base P sv"
  by (simp add: serverOk_defs seenKeys_def)

lemma freshKey_session: "SsSeen s = SsSeen (svSession sv) \<Longrightarrow> freshKey key (sv\<lparr>svSession := s\<rparr>) = freshKey key sv"
  by (simp add: freshKey_def seenKeys_def)

lemma see_fresh:
  assumes "serverOk base {} sv" and "key \<notin> seenKeys sv"
  defines "sv1 \<equiv> sv\<lparr>svSession := (svSession sv)\<lparr>SsSeen := key # SsSeen (svSession sv)\<rparr>\<rparr>"
  shows "serverOk base {key} sv1" and "freshKey key sv1"
proof -
  have "seenKeys sv1 = insert key (seenKeys sv)" by (simp add: sv1_def seenKeys_def)
  then show "serverOk base {key} sv1" and "freshKey key sv1"
    using assms(1,2) by (auto simp: sv1_def serverOk_defs freshKey_def)
qed

lemma identified_ok:
  assumes ok: "serverOk base {} sv" and settled: "settled sv" and running: "svExit sv = None"
  shows "serverOk base {} (identified sink leased now key req sv) \<and> settled (identified sink leased now key req sv)"
proof (cases "key \<in> seenKeys sv")
  case True
  then show ?thesis
    using serverOk_reply [OF ok, of "Response key DuplicateRequest" sink] settled_answer [OF ok settled]
    by (simp add: identified_def seenKeys_def answers_def)
next
  case False
  let ?sv = "sv\<lparr>svSession := (svSession sv)\<lparr>SsSeen := key # SsSeen (svSession sv)\<rparr>\<rparr>"
  note fresh = see_fresh [OF ok False]
  have settled1: "settled ?sv" using settled by simp
  let ?init = "?sv\<lparr>svSession := (svSession ?sv)\<lparr>SsInitialized := True\<rparr>\<rparr>"
  have same: "SsSeen ((svSession ?sv)\<lparr>SsInitialized := True\<rparr>) = SsSeen (svSession ?sv)" by simp
  have init: "serverOk base {key} ?init" "freshKey key ?init" "settled ?init"
    using fresh settled1 by (simp_all only: serverOk_session [OF same] freshKey_session [OF same] settled_exit)
  note reply = answer_fresh [OF fresh(1) settled1 fresh(2)] and reply_init = answer_fresh [OF init(1,3,2)]
  have running1: "svExit ?sv = None" using running by simp
  show ?thesis
    unfolding identified_def Let_def
    using False reply reply_init callTool_ok [OF fresh(1) settled1 fresh(2) running1]
    by (simp add: seenKeys_def)
qed

lemma notified_ok:
  assumes "serverOk base {} sv" and "settled sv"
  shows "serverOk base {} (notified req sv) \<and> settled (notified req sv)"
proof -
  obtain cancelled session where n: "handleMCPNotification req (svSession sv) = (cancelled, session)" by (meson surj_pair)
  have "SsSeen session = SsSeen (svSession sv)" using n by (auto simp: handleMCPNotification_def split: if_splits)
  then have "serverOk base {} (sv\<lparr>svSession := session\<rparr>)" "settled (sv\<lparr>svSession := session\<rparr>)"
    using assms by (simp_all add: serverOk_session)
  then show ?thesis
    using n serverOk_cancelTask by (simp add: notified_def Let_def split: option.split)
qed

lemma handleRequest_ok:
  assumes "serverOk base {} sv" and "settled sv" and "svExit sv = None"
  shows "serverOk base {} (handleRequest sink leased now req sv) \<and> settled (handleRequest sink leased now req sv)"
  using identified_ok [OF assms] notified_ok [OF assms(1,2)] serverOk_reply [OF assms(1), of "NullResponse InvalidRequest" sink]
    settled_answer [OF assms(1,2)]
  by (simp add: handleRequest_def answers_def split: option.split)

lemma serverOk_inputClosed: "serverOk base P (sv\<lparr>svInputClosed := b\<rparr>) = serverOk base P sv"
  by (simp add: serverOk_defs)

lemma handleEvent_ok:
  assumes ok: "serverOk base {} sv" and settled: "settled sv" and running: "svExit sv = None"
  shows "serverOk base {} (handleEvent sink leased now event sv) \<and> settled (handleEvent sink leased now event sv)"
proof (cases event)
  case ReaderClosed
  then show ?thesis
    using serverOk_cancelTasks(1,2) [of base "{}" "sv\<lparr>svInputClosed := True\<rparr>"] ok
    by (simp add: handleEvent_def serverOk_inputClosed)
next
  case ReadFailed
  then show ?thesis
    using serverOk_exitError [OF serverOk_cancelTasks(1) [OF ok]] serverOk_cancelTasks(2) [OF ok]
    by (simp add: handleEvent_def)
next
  case (ReadRejected fatal out)
  let ?sv = "answer sink (NullResponse out) sv"
  have sv: "serverOk base {} ?sv" "settled ?sv"
    using serverOk_reply [OF ok, of "NullResponse out" sink] settled_answer [OF ok settled] by (simp_all add: answers_def)
  then show ?thesis
    using ReadRejected serverOk_exit [OF serverOk_cancelTasks(1) [OF sv(1)]] serverOk_cancelTasks(2) [OF sv(1)]
    by (simp add: handleEvent_def Let_def)
next
  case (ReadRequest req)
  then show ?thesis using handleRequest_ok [OF assms] by (simp add: handleEvent_def)
qed

lemma runningKey:
  assumes "serverOk base P sv" and "key \<in># keysIn TaskRunning (tasksOf sv)"
  obtains task where "taskAt sv key = Some task" and "TsPhase task = TaskRunning"
proof -
  obtain x where x: "x \<in> set (svTasks sv)" "TsPhase (snd x) = TaskRunning" "key = fst x"
    using assms(2) by (auto simp: keysIn_def)
  moreover have "taskAt sv (fst x) = Some (snd x)" using x(1) assms(1) by (simp add: taskAt_def serverOk_defs)
  ultimately show thesis using that by blast
qed

lemma serverOk_finished:
  assumes ok: "serverOk base P sv" and results: "svResults sv = result # results" and running: "svExit sv = None"
    and at: "taskAt sv (ReKey result) = Some task" "TsPhase task = TaskRunning"
  defines "sv1 \<equiv> (dropTask (ReKey result) (sv\<lparr>svResults := results\<rparr>))\<lparr>svPool := releaseTask (TsClass task) (svPool sv)\<rparr>"
  shows "serverOk base (insert (ReKey result) P) sv1" and "ReKey result \<in> seenKeys sv1" and "ReKey result \<notin> set (answeredKeys sv1)"
proof -
  let ?key = "ReKey result"
  note view = pool_dropped [OF ok at(1)]
  have key: "?key \<in> taskKeys sv" using at(1) by (rule taskAt_Some)
  have drop: "dropTask ?key (sv\<lparr>svResults := results\<rparr>) = (dropTask ?key sv)\<lparr>svResults := results\<rparr>" by (simp add: dropTask_def)
  have "servesFrom base (svPool sv) (add_mset (TsClass task) (runningClasses (dropTask ?key sv))) (queuedClasses (dropTask ?key sv))"
    using ok view(1,2) at(2) by (simp add: serverOk_defs)
  note law = limiter.release_law [OF this]
  have "poolOk base sv1" using ok law view(1) at(2) by (simp add: sv1_def drop serverOk_defs)
  moreover have "workersOk sv1"
    using ok view(3) at(2) results running by (auto simp: sv1_def drop serverOk_defs)
  moreover have "queueOk sv1" using ok at by (auto simp: sv1_def drop serverOk_defs isQueued_Some)
  moreover have "answersOk (insert ?key P) sv1" using ok by (auto simp: sv1_def drop serverOk_defs split: if_splits)
  ultimately show "serverOk base (insert ?key P) sv1" by (simp add: serverOk_def)
  show "?key \<in> seenKeys sv1" and "?key \<notin> set (answeredKeys sv1)" using ok key by (auto simp: sv1_def drop serverOk_defs)
qed

lemma handleResult_ok:
  assumes ok: "serverOk base {} sv" and running: "svExit sv = None" and results: "svResults sv = result # results"
  shows "serverOk base {} (handleResult sink leased result (sv\<lparr>svResults := results\<rparr>))
    \<and> settled (handleResult sink leased result (sv\<lparr>svResults := results\<rparr>))"
proof -
  let ?key = "ReKey result"
  have "mset (svWorkers sv) + mset (map ReKey (svResults sv)) \<subseteq># keysIn TaskRunning (tasksOf sv)"
    using ok by (simp add: serverOk_def workersOk_def)
  then have "?key \<in># keysIn TaskRunning (tasksOf sv)" by (rule mset_subset_eqD) (simp add: results)
  then obtain task where at: "taskAt sv ?key = Some task" "TsPhase task = TaskRunning" by (rule runningKey [OF ok])
  let ?sv = "(dropTask ?key (sv\<lparr>svResults := results\<rparr>))\<lparr>svPool := releaseTask (TsClass task) (svPool sv)\<rparr>"
  note fin = serverOk_finished [OF ok results running at]
  have gone: "?key \<notin> taskKeys ?sv" by simp
  let ?sv2 = "if \<not> TsCancelled task \<or> ReCommitted result then answer sink (Response ?key (ReOutcome result)) ?sv else ?sv"
  have cancelled: "?key \<in> set (svCancels ?sv)" if "TsCancelled task" using ok at that by (auto simp: serverOk_defs)
  have out: "ReOutcome result \<noteq> DuplicateRequest" using ok results by (simp add: serverOk_defs)
  have sv2: "serverOk base {} ?sv2"
  proof (cases "\<not> TsCancelled task \<or> ReCommitted result")
    case True
    then show ?thesis using serverOk_answer [OF fin gone out] by simp
  next
    case False
    then show ?thesis using serverOk_cancelled [OF fin(1)] cancelled by simp
  qed
  have failed: "settled ?sv2" if "svExit ?sv2 \<noteq> None"
    using that running serverOk_cancelTasks(2) [OF fin(1)] by (auto simp: answer_def split: if_splits)
  have "handleResult sink leased result (sv\<lparr>svResults := results\<rparr>) = (if svExit ?sv2 \<noteq> None then ?sv2 else dispatchQueued leased ?sv2)"
    using at(1) by (simp add: handleResult_def Let_def)
  then show ?thesis using sv2 failed serverOk_dispatch [OF sv2] by presburger
qed


section \<open>Every step\<close>

lemma serverOk_context: "serverOk base P sv \<Longrightarrow> serverOk base P (sv\<lparr>svContextDone := True\<rparr>)"
  by (auto simp: serverOk_defs view_of_tasks [of "sv\<lparr>svContextDone := True\<rparr>" sv] taskAt_def)

lemma serverOk_workers:
  assumes "serverOk base P sv" and "mset ws + mset (map ReKey rs) \<subseteq># mset (svWorkers sv) + mset (map ReKey (svResults sv))"
    and "\<not> svContextDone sv \<Longrightarrow> svExit sv = None \<Longrightarrow> mset ws + mset (map ReKey rs) = mset (svWorkers sv) + mset (map ReKey (svResults sv))"
    and "\<forall>r \<in> set rs. ReOutcome r \<noteq> DuplicateRequest"
  shows "serverOk base P (sv\<lparr>svWorkers := ws, svResults := rs\<rparr>)" and "settled (sv\<lparr>svWorkers := ws, svResults := rs\<rparr>) = settled sv"
proof -
  let ?sv = "sv\<lparr>svWorkers := ws, svResults := rs\<rparr>"
  have same: "runningClasses ?sv = runningClasses sv" "queuedClasses ?sv = queuedClasses sv" "taskKeys ?sv = taskKeys sv"
    "isQueued ?sv k = isQueued sv k" "seenKeys ?sv = seenKeys sv" "answeredKeys ?sv = answeredKeys sv" for k
    by (rule view_of_tasks; simp)+
  have at: "taskAt ?sv k = taskAt sv k" for k by (simp add: taskAt_def)
  have "poolOk base sv" "workersOk sv" "queueOk sv" "answersOk P sv" using assms(1) by (simp_all add: serverOk_def)
  then have "poolOk base ?sv" "queueOk ?sv" "answersOk P ?sv"
    unfolding poolOk_def queueOk_def answersOk_def same at by simp_all
  moreover have "workersOk ?sv"
    using \<open>workersOk sv\<close> assms(2-4) unfolding workersOk_def by (auto intro: subset_mset.order_trans)
  ultimately show "serverOk base P ?sv" by (simp add: serverOk_def)
  show "settled ?sv = settled sv" unfolding settled_def same by simp
qed

lemma toolTaskOutcome_fresh: "toolTaskOutcome deadlineExceeded committed result \<noteq> DuplicateRequest"
  by (simp add: toolTaskOutcome_def split: callerResult.split)

lemma serverStep_ok:
  assumes "serverStep sink sv sv'" and "serverOk base {} sv" and "settled sv"
  shows "serverOk base {} sv' \<and> settled sv'"
  using assms(1)
proof (cases rule: serverStep.cases)
  case loop_context
  then show ?thesis
    using serverOk_exit [OF serverOk_cancelTasks(1) [OF assms(2)]] serverOk_cancelTasks(2) [OF assms(2)]
    by (simp add: looping_def)
next
  case (loop_timer d now)
  then show ?thesis using expireQueued_ok [OF assms(2,3)] by simp
next
  case (loop_event leased now event)
  then show ?thesis using handleEvent_ok [OF assms(2,3)] by (simp add: looping_def)
next
  case (loop_result result results leased)
  then show ?thesis using handleResult_ok [OF assms(2)] by (simp add: looping_def)
next
  case loop_exit
  then show ?thesis using serverOk_exit [OF assms(2)] assms(3) by simp
next
  case (worker_sends key deadlineExceeded committed result)
  have "mset (svWorkers sv) = add_mset key (mset (remove1 key (svWorkers sv)))" using worker_sends(2) by simp
  then show ?thesis
    using worker_sends(1) serverOk_workers [OF assms(2), of "remove1 key (svWorkers sv)"
        "svResults sv @ [runMCPToolTask key deadlineExceeded committed result]"] assms(2,3) toolTaskOutcome_fresh
    by (auto simp: runMCPToolTask_def serverOk_def workersOk_def)
next
  case (worker_gives_up key)
  have "mset (svWorkers sv) = add_mset key (mset (remove1 key (svWorkers sv)))" using worker_gives_up(2) by simp
  then have "mset (remove1 key (svWorkers sv)) + mset (map ReKey (svResults sv)) \<subseteq># mset (svWorkers sv) + mset (map ReKey (svResults sv))"
    by simp
  then show ?thesis
    using worker_gives_up serverOk_workers [OF assms(2), of "remove1 key (svWorkers sv)" "svResults sv"] assms(2,3)
    by (auto simp: serverOk_def workersOk_def)
next
  case context_done
  have "runningClasses sv' = runningClasses sv" "queuedClasses sv' = queuedClasses sv" "svPool sv' = svPool sv"
    using context_done by (simp_all add: runningClasses_def queuedClasses_def)
  then show ?thesis using context_done serverOk_context [OF assms(2)] assms(3) by (simp add: settled_def)
qed

lemma reachable_ok:
  assumes "(serverStep sink)\<^sup>*\<^sup>* (startServer cfg timeoutSeconds usage) sv"
  shows "serverOk (newMCPTaskLimiter cfg, usage) {} sv" and "settled sv"
proof -
  have "serverOk (newMCPTaskLimiter cfg, usage) {} sv \<and> settled sv"
    using assms by (induction rule: rtranclp_induct) (use serverOk_start settled_start serverStep_ok in blast)+
  then show "serverOk (newMCPTaskLimiter cfg, usage) {} sv" and "settled sv" by simp_all
qed

end
