(* ===== verification/McpServerTheorems.thy ===== *)
theory McpServerTheorems
  imports McpServerFacts
begin

text \<open>
  The session loop's properties over all its reachable states, and the end of a session whose input is
  closed: every turn then uses up something, and as long as the loop has not returned there is a turn
  it can take.
\<close>

section \<open>A sample session\<close>

text \<open>A session that initializes, calls three expensive tools and, in the end, loses its client: two calls run,
  the third waits.\<close>

definition sampleRequest :: "bytes option \<Rightarrow> bytes \<Rightarrow> bytes \<Rightarrow> readEvent" where
  "sampleRequest key method tool = ReadRequest
     \<lparr>RqHasID = (key \<noteq> None), RqKey = key, RqJSONRPC = ''2.0'', RqMethod = method, RqInitializes = True, RqCancels = None,
      RqCall = Some (tool, BlankArguments)\<rparr>"

definition sampleEvents :: "readEvent list" where
  "sampleEvents =
     [sampleRequest (Some ''1'') ''initialize'' [], sampleRequest None ''notifications/initialized'' [],
      sampleRequest (Some ''2'') ''tools/call'' ''ck3_refresh'', sampleRequest (Some ''3'') ''tools/call'' ''ck3_impact'',
      sampleRequest (Some ''4'') ''tools/call'' ''ck3_review'']"

definition sampleServer :: server where
  "sampleServer = startServer \<lparr>CfMaxTasks = 4, CfMaxHeavyTasks = 2, CfMaxRasterTasks = 1, CfMaxQueuedTasks = 3\<rparr> 15
     \<lparr>UsActive = 0, UsHeavy = 0, UsRaster = 0, UsQueued = 0, UsQueuedHeavy = 0, UsQueuedRaster = 0\<rparr>"

primrec feed :: "readEvent list \<Rightarrow> server \<Rightarrow> server option" where
  "feed [] sv = Some sv"
| "feed (event # events) sv =
     (if looping sv \<and> \<not> svInputClosed sv then feed events (handleEvent (\<lambda>_. True) (\<lambda>_. True) 0 event sv) else None)"

lemma feed_reaches: "feed events sv = Some sv' \<Longrightarrow> (serverStep (\<lambda>_. True))\<^sup>*\<^sup>* sv sv'"
proof (induction events arbitrary: sv)
  case (Cons event events)
  then have "serverStep (\<lambda>_. True) sv (handleEvent (\<lambda>_. True) (\<lambda>_. True) 0 event sv)"
    by (intro serverStep.loop_event) (simp_all split: if_splits)
  moreover have "(serverStep (\<lambda>_. True))\<^sup>*\<^sup>* (handleEvent (\<lambda>_. True) (\<lambda>_. True) 0 event sv) sv'"
    using Cons by (simp split: if_splits)
  ultimately show ?case by (rule converse_rtranclp_into_rtranclp)
qed simp

lemma sample_reached:
  assumes "case feed events sampleServer of Some sv \<Rightarrow> Q sv | None \<Rightarrow> False"
  obtains sv where "(serverStep (\<lambda>_. True))\<^sup>*\<^sup>* sampleServer sv" and "Q sv"
  using assms feed_reaches by (auto split: option.splits)

section \<open>Safety\<close>

text \<open>C33. In every reachable state the running and the queued calls are within the configured limits, the
  session's counters are their numbers, and closing the limiter takes exactly this session's share off
  the process counters.\<close>

theorem session_within_limits:
  assumes "(serverStep sink)\<^sup>*\<^sup>* (startServer cfg timeoutSeconds usage) sv"
  shows "withinLimiter (newMCPTaskLimiter cfg) (runningClasses sv) (queuedClasses sv)
    \<and> LmActive (fst (svPool sv)) = int (size (runningClasses sv)) \<and> LmQueued (fst (svPool sv)) = int (size (queuedClasses sv))
    \<and> snd (closeLimiter (svPool sv)) = usage"
proof -
  obtain l u where p: "svPool sv = (l, u)" by (cases "svPool sv")
  have s: "servesFrom (newMCPTaskLimiter cfg, usage) (svPool sv) (runningClasses sv) (queuedClasses sv)"
    using reachable_ok(1) [OF assms] by (simp add: serverOk_defs)
  have "limits l = limits (newMCPTaskLimiter cfg)" "queueLimit l = queueLimit (newMCPTaskLimiter cfg)"
    "withinLimiter l (runningClasses sv) (queuedClasses sv)"
    using s by (simp_all add: p servesFrom_def)
  then have "withinLimiter (newMCPTaskLimiter cfg) (runningClasses sv) (queuedClasses sv)" by (simp add: withinLimiter_def)
  then show ?thesis
    using s closeLimiter_restores [OF s] by (simp add: p servesFrom_def)
qed

theorem session_within_limits_witness:
  "\<exists>sv. (serverStep (\<lambda>_. True))\<^sup>*\<^sup>* sampleServer sv \<and> svQueue sv = [''4''] \<and> LmActive (fst (svPool sv)) = 2
    \<and> int (size (runningClasses sv)) = 2"
proof -
  have "case feed sampleEvents sampleServer of Some sv \<Rightarrow> svQueue sv = [''4''] \<and> LmActive (fst (svPool sv)) = 2 | None \<Rightarrow> False"
    by code_simp
  then obtain sv where sv: "(serverStep (\<lambda>_. True))\<^sup>*\<^sup>* sampleServer sv" "svQueue sv = [''4''] \<and> LmActive (fst (svPool sv)) = 2"
    by (rule sample_reached)
  then show ?thesis using session_within_limits [OF sv(1) [unfolded sampleServer_def]] by auto
qed

text \<open>C34. No request is answered twice, a request that is still a task has not been answered, and unless a
  write has failed every request with a new id is answered, is still a task, or was cancelled.\<close>

theorem answered_once:
  assumes "(serverStep sink)\<^sup>*\<^sup>* (startServer cfg timeoutSeconds usage) sv"
  shows "distinct (answeredKeys sv) \<and> taskKeys sv \<inter> set (answeredKeys sv) = {}
    \<and> (svExit sv \<noteq> Some ExitError \<longrightarrow> seenKeys sv \<subseteq> set (answeredKeys sv) \<union> taskKeys sv \<union> set (svCancels sv))"
  using reachable_ok(1) [OF assms] by (simp add: serverOk_defs)

theorem answered_once_witness:
  "\<exists>sv. (serverStep (\<lambda>_. True))\<^sup>*\<^sup>* sampleServer sv \<and> answeredKeys sv = [''1''] \<and> svExit sv = None
    \<and> seenKeys sv \<subseteq> {''1''} \<union> taskKeys sv \<union> set (svCancels sv)"
proof -
  have "case feed sampleEvents sampleServer of Some sv \<Rightarrow> answeredKeys sv = [''1''] \<and> svExit sv = None | None \<Rightarrow> False"
    by code_simp
  then obtain sv where sv: "(serverStep (\<lambda>_. True))\<^sup>*\<^sup>* sampleServer sv" "answeredKeys sv = [''1''] \<and> svExit sv = None"
    by (rule sample_reached)
  then show ?thesis using answered_once [OF sv(1) [unfolded sampleServer_def]] by auto
qed

text \<open>C35. The loop never blocks on its own channel and never leaves work waiting that could run: the results
  and the goroutines together fit the channel, no queued call would be admitted, and when calls wait,
  some call runs.\<close>

theorem never_stuck:
  assumes "(serverStep sink)\<^sup>*\<^sup>* (startServer cfg timeoutSeconds usage) sv"
  shows "\<not> svBlocked sv \<and> int (length (svResults sv) + length (svWorkers sv)) \<le> svCapacity sv
    \<and> (\<forall>c \<in># queuedClasses sv. \<not> admitsTask (svPool sv) (runningClasses sv) c)
    \<and> (queuedClasses sv \<noteq> {#} \<longrightarrow> runningClasses sv \<noteq> {#})"
proof (intro conjI impI)
  note ok = reachable_ok [OF assms]
  show "\<not> svBlocked sv" using ok(1) by (simp add: serverOk_defs)
  have "mset (svWorkers sv) + mset (map ReKey (svResults sv)) \<subseteq># keysIn TaskRunning (tasksOf sv)"
    using ok(1) by (simp add: serverOk_defs)
  then have "size (mset (svWorkers sv) + mset (map ReKey (svResults sv))) \<le> size (runningClasses sv)"
    unfolding runningClasses_def size_keysIn [symmetric] by (rule size_mset_mono)
  moreover have "int (size (runningClasses sv)) \<le> svCapacity sv" using ok(1) by (simp add: serverOk_defs)
  ultimately show "int (length (svResults sv) + length (svWorkers sv)) \<le> svCapacity sv" by simp
  show refused: "\<forall>c \<in># queuedClasses sv. \<not> admitsTask (svPool sv) (runningClasses sv) c"
    using ok(2) by (simp add: settled_def)
  show "runningClasses sv \<noteq> {#}" if waiting: "queuedClasses sv \<noteq> {#}"
  proof -
    obtain c where "c \<in># queuedClasses sv" using waiting by blast
    then have "\<not> admitsTask (svPool sv) (runningClasses sv) c" using refused by blast
    then show ?thesis by (rule limiter.refused_busy)
  qed
qed

theorem never_stuck_witness:
  "\<exists>sv. (serverStep (\<lambda>_. True))\<^sup>*\<^sup>* sampleServer sv \<and> svQueue sv = [''4''] \<and> svWorkers sv = [''2'', ''3''] \<and> 2 \<le> svCapacity sv"
proof -
  have "case feed sampleEvents sampleServer of Some sv \<Rightarrow> svQueue sv = [''4''] \<and> svWorkers sv = [''2'', ''3''] | None \<Rightarrow> False"
    by code_simp
  then obtain sv where sv: "(serverStep (\<lambda>_. True))\<^sup>*\<^sup>* sampleServer sv" "svQueue sv = [''4''] \<and> svWorkers sv = [''2'', ''3'']"
    by (rule sample_reached)
  then show ?thesis using never_stuck [OF sv(1) [unfolded sampleServer_def]] by auto
qed

section \<open>Draining\<close>

definition nothingQueued :: "server \<Rightarrow> bool" where
  "nothingQueued sv \<longleftrightarrow> (\<forall>key. \<not> isQueued sv key)"

lemma dispatch_nothing: "nothingQueued sv \<Longrightarrow> dispatchQueued leased sv = sv\<lparr>svQueue := []\<rparr>"
  by (simp add: dispatchQueued.simps [of leased sv] compactQueue_def nothingQueued_def Let_def)

lemma nothingQueued_cancelTask: "nothingQueued sv \<Longrightarrow> nothingQueued (cancelTask key sv)"
  by (simp add: nothingQueued_def)

lemma nothingQueued_cancelTasks: "nothingQueued sv \<Longrightarrow> nothingQueued (cancelTasks sv)"
proof -
  have "nothingQueued sv \<Longrightarrow> nothingQueued (fold cancelTask ks sv)" for ks
    by (induction ks arbitrary: sv) (simp_all add: nothingQueued_cancelTask)
  then show "nothingQueued sv \<Longrightarrow> nothingQueued (cancelTasks sv)" by (simp add: cancelTasks_def nothingQueued_def)
qed

lemma queueDeadline_None: "nothingQueued sv \<Longrightarrow> queueDeadline sv = None"
  by (simp add: queueDeadline_def nothingQueued_def)

lemma nothingQueued_answer: "nothingQueued sv \<Longrightarrow> nothingQueued (answer sink r sv)"
  using nothingQueued_cancelTasks by (simp add: answer_def nothingQueued_def)

lemma answer_fields [simp]:
  "svInputClosed (answer sink r sv) = svInputClosed sv" "svContextDone (answer sink r sv) = svContextDone sv"
  "svResults (answer sink r sv) = svResults sv" "svWorkers (answer sink r sv) = svWorkers sv"
  by (simp_all add: answer_def)

text \<open>With nothing queued a result is only taken off.\<close>

lemma handleResult_draining:
  assumes "nothingQueued sv"
  shows "nothingQueued (handleResult sink leased result sv)"
    and "svInputClosed (handleResult sink leased result sv) = svInputClosed sv"
    and "svContextDone (handleResult sink leased result sv) = svContextDone sv"
    and "svResults (handleResult sink leased result sv) = svResults sv"
    and "svWorkers (handleResult sink leased result sv) = svWorkers sv"
    and "svExit sv = None \<or> svExit (handleResult sink leased result sv) \<noteq> None"
proof -
  let ?drop = "\<lambda>task. (dropTask (ReKey result) sv)\<lparr>svPool := releaseTask (TsClass task) (svPool sv)\<rparr>"
  have dropped: "nothingQueued (?drop task)" for task using assms by (simp add: nothingQueued_def)
  have replied: "nothingQueued (answer sink r (?drop task))" for task r using nothingQueued_answer [OF dropped] .
  have empty: "nothingQueued (sv'\<lparr>svQueue := []\<rparr>) = nothingQueued sv'" for sv' by (simp add: nothingQueued_def)
  show "nothingQueued (handleResult sink leased result sv)"
    and "svInputClosed (handleResult sink leased result sv) = svInputClosed sv"
    and "svContextDone (handleResult sink leased result sv) = svContextDone sv"
    and "svResults (handleResult sink leased result sv) = svResults sv"
    and "svWorkers (handleResult sink leased result sv) = svWorkers sv"
    and "svExit sv = None \<or> svExit (handleResult sink leased result sv) \<noteq> None"
    using assms by (auto simp: handleResult_def Let_def dispatch_nothing [OF dropped] dispatch_nothing [OF replied]
        dropped replied empty svExit_answer split: option.split)
qed

text \<open>What is left to do once the input is closed.\<close>

definition drainLeft :: "server \<Rightarrow> nat" where
  "drainLeft sv =
     (if svExit sv = None then 1 else 0) + (if svContextDone sv then 0 else 1) + 2 * length (svWorkers sv) + length (svResults sv)"

lemma drain_step:
  assumes "serverStep sink sv sv'" and "svInputClosed sv" and "nothingQueued sv" and "sv' \<noteq> sv"
  shows "drainLeft sv' < drainLeft sv \<and> svInputClosed sv' \<and> nothingQueued sv'"
  using assms(1)
proof (cases rule: serverStep.cases)
  case loop_context
  then show ?thesis
    using assms(2) nothingQueued_cancelTasks [OF assms(3)] by (simp add: drainLeft_def looping_def nothingQueued_def)
next
  case (loop_timer d now)
  then show ?thesis using queueDeadline_None [OF assms(3)] by simp
next
  case (loop_event leased now event)
  then show ?thesis using assms(2) by simp
next
  case (loop_result result results leased)
  have "nothingQueued (sv\<lparr>svResults := results\<rparr>)" using assms(3) by (simp add: nothingQueued_def)
  note drained = handleResult_draining [OF this, of sink leased result]
  then show ?thesis using loop_result assms(2) by (auto simp: drainLeft_def looping_def)
next
  case loop_exit
  then show ?thesis using assms(2,3) by (simp add: drainLeft_def nothingQueued_def)
next
  case (worker_sends key deadlineExceeded committed result)
  then have "length (svWorkers sv) = Suc (length (remove1 key (svWorkers sv)))"
    by (metis One_nat_def Suc_pred length_pos_if_in_set length_remove1)
  then show ?thesis
    using worker_sends assms(2,3) by (simp add: drainLeft_def nothingQueued_def isQueued_def taskAt_def)
next
  case (worker_gives_up key)
  then have "length (svWorkers sv) = Suc (length (remove1 key (svWorkers sv)))"
    by (metis One_nat_def Suc_pred length_pos_if_in_set length_remove1)
  then show ?thesis
    using worker_gives_up assms(2,3) by (simp add: drainLeft_def nothingQueued_def isQueued_def taskAt_def)
next
  case context_done
  then show ?thesis
    using assms(2-4) by (cases "svContextDone sv") (auto simp: drainLeft_def nothingQueued_def isQueued_def taskAt_def)
qed

text \<open>A state that can only stand still is one whose loop has returned and whose goroutines have ended.\<close>

lemma drain_enabled:
  assumes ok: "serverOk base {} sv" and "svInputClosed sv" and queue: "nothingQueued sv"
  shows "(\<exists>sv'. serverStep sink sv sv' \<and> sv' \<noteq> sv) \<or> (svExit sv \<noteq> None \<and> svWorkers sv = [])"
proof -
  have differs: "sv' \<noteq> sv" if "drainLeft sv' < drainLeft sv" for sv' using that by auto
  consider (returned) "svExit sv \<noteq> None" | (empty) "svExit sv = None" "svTasks sv = []"
    | (ended) "svExit sv = None" "svTasks sv \<noteq> []" "svContextDone sv"
    | (results) "svExit sv = None" "svTasks sv \<noteq> []" "\<not> svContextDone sv" "svResults sv \<noteq> []"
    | (working) "svExit sv = None" "svTasks sv \<noteq> []" "\<not> svContextDone sv" "svResults sv = []" by blast
  then show ?thesis
  proof cases
    case returned
    show ?thesis
    proof (cases "svWorkers sv")
      case (Cons key ws)
      then have "serverStep sink sv (sv\<lparr>svWorkers := remove1 key (svWorkers sv)\<rparr>)"
        using returned by (intro serverStep.worker_gives_up) simp_all
      moreover have "sv\<lparr>svWorkers := remove1 key (svWorkers sv)\<rparr> \<noteq> sv"
        by (rule differs) (simp add: drainLeft_def Cons)
      ultimately show ?thesis by blast
    qed (use returned in simp)
  next
    case empty
    then have "serverStep sink sv (sv\<lparr>svExit := Some ExitOk\<rparr>)"
      using assms(2) ok by (intro serverStep.loop_exit) (simp_all add: serverOk_defs)
    moreover have "sv\<lparr>svExit := Some ExitOk\<rparr> \<noteq> sv" using empty by (intro differs) (simp add: drainLeft_def)
    ultimately show ?thesis by blast
  next
    case ended
    then have "serverStep sink sv ((cancelTasks sv)\<lparr>svExit := Some ExitContext\<rparr>)"
      using ok by (intro serverStep.loop_context) (simp_all add: looping_def serverOk_defs)
    moreover have "(cancelTasks sv)\<lparr>svExit := Some ExitContext\<rparr> \<noteq> sv" using ended by (intro differs) (simp add: drainLeft_def)
    ultimately show ?thesis by blast
  next
    case results
    then obtain r rs where r: "svResults sv = r # rs" by (cases "svResults sv") simp_all
    have step: "serverStep sink sv (handleResult sink (\<lambda>_. True) r (sv\<lparr>svResults := rs\<rparr>))"
      using results r ok by (intro serverStep.loop_result) (simp_all add: looping_def serverOk_defs)
    have "nothingQueued (sv\<lparr>svResults := rs\<rparr>)" using queue by (simp add: nothingQueued_def)
    from handleResult_draining [OF this, of sink "\<lambda>_. True" r]
    have "handleResult sink (\<lambda>_. True) r (sv\<lparr>svResults := rs\<rparr>) \<noteq> sv"
      using results r by (intro differs) (simp add: drainLeft_def)
    then show ?thesis using step by blast
  next
    case working
    have keys: "mset (svWorkers sv) = keysIn TaskRunning (tasksOf sv)" using ok working by (simp add: serverOk_defs)
    obtain x where x: "x \<in> set (svTasks sv)" using working(2) by (cases "svTasks sv") auto
    then have "taskAt sv (fst x) = Some (snd x)" using ok by (simp add: taskAt_def serverOk_defs)
    then have "TsPhase (snd x) \<noteq> TaskQueued" using queue by (auto simp: nothingQueued_def isQueued_Some)
    then have "TsPhase (snd x) = TaskRunning" by (cases "TsPhase (snd x)") simp_all
    then have "fst x \<in># keysIn TaskRunning (tasksOf sv)" using x by (auto simp: keysIn_def)
    then have key: "fst x \<in> set (svWorkers sv)" using keys by (metis set_mset_mset)
    have "runningClasses sv \<noteq> {#}" using \<open>fst x \<in># keysIn TaskRunning (tasksOf sv)\<close> size_keysIn
      by (metis runningClasses_def empty_iff set_mset_empty size_eq_0_iff_empty)
    then have "0 < int (size (runningClasses sv))" by (simp add: nonempty_has_size)
    then have room: "int (length (svResults sv)) < svCapacity sv" using ok working(4) by (simp add: serverOk_defs)
    let ?sv = "sv\<lparr>svWorkers := remove1 (fst x) (svWorkers sv),
      svResults := svResults sv @ [runMCPToolTask (fst x) False False CallerError]\<rparr>"
    have "serverStep sink sv ?sv" using key room by (rule serverStep.worker_sends)
    moreover have "?sv \<noteq> sv" by (auto dest: arg_cong [of _ _ svResults])
    ultimately show ?thesis by blast
  qed
qed

text \<open>Only the reader's end closes the input.\<close>

lemma dispatch_input: "svInputClosed (dispatchQueued leased sv) = svInputClosed sv"
proof (induction leased sv rule: dispatchQueued.induct)
  case (1 leased sv)
  show ?case
  proof (cases "firstAcquired (compactQueue sv) (svQueue (compactQueue sv))")
    case None
    then show ?thesis by (simp add: dispatchQueued.simps [of leased sv] Let_def compactQueue_def)
  next
    case (Some r)
    obtain key task pool rest where r: "r = (key, task, pool, rest)" by (cases r)
    show ?thesis
      using 1 [OF refl Some r [symmetric] refl refl] Some r by (simp add: dispatchQueued.simps [of leased sv] Let_def compactQueue_def)
  qed
qed

lemma expireLoop_input: "svInputClosed (expireLoop sink now kept keys sv) = svInputClosed sv"
  by (induction sink now kept keys sv rule: expireLoop.induct) (auto simp: Let_def split: option.split)

lemma handlers_input:
  "svInputClosed (handleResult sink leased result sv) = svInputClosed sv"
  "svInputClosed (expireQueued sink now sv) = svInputClosed sv"
  "svInputClosed (handleRequest sink leased now req sv) = svInputClosed sv"
  by (auto simp: handleResult_def expireQueued_def handleRequest_def notified_def identified_def callTool_def Let_def
      dispatch_input expireLoop_input split: option.split prod.split bool.split)

lemma closed_nothingQueued:
  assumes "(serverStep sink)\<^sup>*\<^sup>* (startServer cfg timeoutSeconds usage) sv" and "svInputClosed sv"
  shows "nothingQueued sv"
  using assms
proof (induction rule: rtranclp_induct)
  case base
  then show ?case by (simp add: startServer_def)
next
  case (step sv sv')
  show ?case
  proof (cases "svInputClosed sv")
    case True
    then show ?thesis using drain_step [OF step(2) True step(3) [OF True]] step(3) [OF True] by (cases "sv' = sv") simp_all
  next
    case unclosed: False
    note ok = reachable_ok(1) [OF step(1)]
    from step(2) show ?thesis
    proof (cases rule: serverStep.cases)
      case (loop_event leased now event)
      have "serverOk (newMCPTaskLimiter cfg, usage) {} (sv\<lparr>svInputClosed := True\<rparr>)"
        using ok by (simp add: serverOk_inputClosed)
      then have "nothingQueued (cancelTasks (sv\<lparr>svInputClosed := True\<rparr>))"
        using serverOk_cancelTasks(3) by (auto simp: nothingQueued_def)
      then show ?thesis
        using loop_event unclosed step(4) handlers_input(3) by (cases event) (auto simp: handleEvent_def Let_def split: if_splits)
    qed (use unclosed step(4) in \<open>simp_all add: handlers_input\<close>)
  qed
qed


text \<open>C36. A session whose input is closed comes to its end, whatever the order in which its goroutines finish:
  every step that changes something leaves less to do, the input stays closed, and as long as the loop has not returned or a
  goroutine is left some step changes something. So every run ends, with the loop returned and no
  goroutine waiting.\<close>

theorem session_drains:
  assumes "(serverStep sink)\<^sup>*\<^sup>* (startServer cfg timeoutSeconds usage) sv" and "svInputClosed sv"
  shows "(\<forall>sv'. serverStep sink sv sv' \<longrightarrow> sv' \<noteq> sv \<longrightarrow> drainLeft sv' < drainLeft sv \<and> svInputClosed sv')
    \<and> ((\<exists>sv'. serverStep sink sv sv' \<and> sv' \<noteq> sv) \<or> (svExit sv \<noteq> None \<and> svWorkers sv = []))"
proof -
  note queue = closed_nothingQueued [OF assms]
  show ?thesis
    using drain_step [OF _ assms(2) queue] drain_enabled [OF reachable_ok(1) [OF assms(1)] assms(2) queue] by blast
qed

theorem session_drains_witness:
  "\<exists>sv. (serverStep (\<lambda>_. True))\<^sup>*\<^sup>* sampleServer sv \<and> svInputClosed sv \<and> svWorkers sv = [''2'', ''3'']
    \<and> (\<exists>sv'. serverStep (\<lambda>_. True) sv sv' \<and> sv' \<noteq> sv)"
proof -
  have "case feed (sampleEvents @ [ReaderClosed]) sampleServer of Some sv \<Rightarrow> svInputClosed sv \<and> svWorkers sv = [''2'', ''3''] | None \<Rightarrow> False"
    by code_simp
  then obtain sv where sv: "(serverStep (\<lambda>_. True))\<^sup>*\<^sup>* sampleServer sv" "svInputClosed sv \<and> svWorkers sv = [''2'', ''3'']"
    by (rule sample_reached)
  then show ?thesis using session_drains [OF sv(1) [unfolded sampleServer_def]] by fastforce
qed

end
