(* ===== verification/DatabaseManager.thy ===== *)
theory DatabaseManager
  imports McpServer
begin

text \<open>
  \<^verbatim>\<open>internal/mcpserver/database_manager.go\<close> with the read options of \<^verbatim>\<open>internal/indexer/db.go\<close>: the databases
  one server process holds open. A tool call runs on a lease of the active database; a switch or a reload
  makes another database the active one and retires the old one, whose connection pool is closed when its
  last lease is returned. Databases are numbered in the order they are opened; \<open>databases\<close> is the manager
  together with the leases, the switch or reload in progress and the pools that were decided to be closed.
  Each operation is cut where the code gives up its mutex, so that \<open>databaseStep\<close> can interleave them.
\<close>

section \<open>Configuration\<close>

record SQLiteReadOptions =
  RoConnections :: int
  RoCacheMBPerConnection :: int
  RoMMapLimitMB :: int

definition DefaultSQLiteReadConnections :: int where "DefaultSQLiteReadConnections = 8"
definition DefaultSQLiteCacheMBPerConnection :: int where "DefaultSQLiteCacheMBPerConnection = 64"
definition DefaultSQLiteMMapLimitMB :: int where "DefaultSQLiteMMapLimitMB = 1024"
definition DefaultMaxOpenDatabasePools :: int where "DefaultMaxOpenDatabasePools = 2"
definition DefaultMaxSQLiteCacheBudgetMB :: int where
  "DefaultMaxSQLiteCacheBudgetMB = DefaultMaxOpenDatabasePools * DefaultSQLiteReadConnections * DefaultSQLiteCacheMBPerConnection"

definition DefaultSQLiteReadOptions :: SQLiteReadOptions where
  "DefaultSQLiteReadOptions = \<lparr>RoConnections = DefaultSQLiteReadConnections,
     RoCacheMBPerConnection = DefaultSQLiteCacheMBPerConnection, RoMMapLimitMB = DefaultSQLiteMMapLimitMB\<rparr>"

definition normalizeSQLiteReadOptions :: "SQLiteReadOptions \<Rightarrow> SQLiteReadOptions" where
  "normalizeSQLiteReadOptions options =
     \<lparr>RoConnections = orDefault (RoConnections options) DefaultSQLiteReadConnections,
      RoCacheMBPerConnection = orDefault (RoCacheMBPerConnection options) DefaultSQLiteCacheMBPerConnection,
      RoMMapLimitMB = orDefault (RoMMapLimitMB options) DefaultSQLiteMMapLimitMB\<rparr>"

record MCPDatabaseTarget =
  TgName :: bytes
  TgDescription :: bytes
  TgDatabase :: bytes
  TgConfigPath :: bytes

text \<open>The part of \<^verbatim>\<open>indexer.Config\<close> that the manager reads.\<close>

record dbConfig =
  CgReadConnections :: int
  CgCacheMBPerConnection :: int
  CgMMapLimitMB :: int
  CgMaxOpenDatabasePools :: int
  CgMaxSQLiteCacheBudgetMB :: int
  CgTasks :: taskConfig
  CgQueueTimeoutSeconds :: int
  CgExecutionTimeoutSeconds :: int
  CgDatabase :: bytes
  CgBaseDatabase :: bytes
  CgDatabaseName :: bytes
  CgDatabaseDescription :: bytes
  CgDatabases :: "MCPDatabaseTarget list"
  CgConfigPath :: bytes

definition SQLiteReadOptionsOf :: "dbConfig \<Rightarrow> SQLiteReadOptions" where
  "SQLiteReadOptionsOf cfg = normalizeSQLiteReadOptions
     \<lparr>RoConnections = CgReadConnections cfg, RoCacheMBPerConnection = CgCacheMBPerConnection cfg,
      RoMMapLimitMB = CgMMapLimitMB cfg\<rparr>"

definition mcpExecutionTimeout :: "int \<Rightarrow> int" where
  "mcpExecutionTimeout seconds = (if seconds \<le> 0 then 900 else seconds)"

definition effectiveMCPDatabaseConfig :: "dbConfig \<Rightarrow> dbConfig" where
  "effectiveMCPDatabaseConfig cfg =
     (let options = SQLiteReadOptionsOf cfg; limiter = newMCPTaskLimiter (CgTasks cfg);
          (tasks, heavy, raster) = limits limiter in
      cfg\<lparr>CgReadConnections := RoConnections options, CgCacheMBPerConnection := RoCacheMBPerConnection options,
        CgMMapLimitMB := RoMMapLimitMB options,
        CgMaxOpenDatabasePools := orDefault (CgMaxOpenDatabasePools cfg) DefaultMaxOpenDatabasePools,
        CgMaxSQLiteCacheBudgetMB := orDefault (CgMaxSQLiteCacheBudgetMB cfg) DefaultMaxSQLiteCacheBudgetMB,
        CgTasks := \<lparr>CfMaxTasks = tasks, CfMaxHeavyTasks = heavy, CfMaxRasterTasks = raster, CfMaxQueuedTasks = queueLimit limiter\<rparr>,
        CgQueueTimeoutSeconds := mcpQueueTimeout (CgQueueTimeoutSeconds cfg),
        CgExecutionTimeoutSeconds := mcpExecutionTimeout (CgExecutionTimeoutSeconds cfg)\<rparr>)"

definition applyMCPServiceLimits :: "dbConfig \<Rightarrow> dbConfig \<Rightarrow> dbConfig" where
  "applyMCPServiceLimits target service =
     target\<lparr>CgMaxOpenDatabasePools := CgMaxOpenDatabasePools service, CgMaxSQLiteCacheBudgetMB := CgMaxSQLiteCacheBudgetMB service,
       CgTasks := CgTasks service, CgQueueTimeoutSeconds := CgQueueTimeoutSeconds service,
       CgExecutionTimeoutSeconds := CgExecutionTimeoutSeconds service\<rparr>"

text \<open>Go's integer division of positive numbers.\<close>

definition mcpDatabaseFitsCacheBudget :: "dbConfig \<Rightarrow> int \<Rightarrow> bool" where
  "mcpDatabaseFitsCacheBudget cfg budgetMB \<longleftrightarrow>
     (let options = SQLiteReadOptionsOf cfg in
      budgetMB > 0 \<and> RoCacheMBPerConnection options > 0 \<and> RoConnections options \<le> budgetMB div RoCacheMBPerConnection options)"

section \<open>Paths\<close>

text \<open>\<^verbatim>\<open>filepath.Clean\<close> where the separator is the slash.\<close>

definition cleanStep :: "bool \<Rightarrow> bytes \<Rightarrow> bytes list \<Rightarrow> bytes list" where
  "cleanStep rooted part kept =
     (if part = [] \<or> part = ''.'' then kept
      else if part = ''..'' then
        (case kept of [] \<Rightarrow> if rooted then [] else [part]
         | parent # rest \<Rightarrow> if parent = ''..'' then part # kept else rest)
      else part # kept)"

definition cleanPath :: "bytes \<Rightarrow> bytes" where
  "cleanPath path =
     (let rooted = (case path of [] \<Rightarrow> False | c # _ \<Rightarrow> c = CHR ''/'');
          kept = rev (fold (cleanStep rooted) (splitOn (CHR ''/'') path) []);
          joined = (if rooted then [CHR ''/''] else []) @ joinWith (CHR ''/'') kept in
      if joined = [] then ''.'' else joined)"

text \<open>Paths differ in case everywhere but on Windows, which is not modelled.\<close>

definition canonicalMCPDatabasePath :: "bytes \<Rightarrow> bytes" where
  "canonicalMCPDatabasePath path = cleanPath path"

definition trimSlashes :: "bytes \<Rightarrow> bytes" where
  "trimSlashes s = rev (dropWhile (\<lambda>c. c = CHR ''/'') (rev (dropWhile (\<lambda>c. c = CHR ''/'') s)))"

definition lastTwoSegments :: "bytes \<Rightarrow> bytes" where
  "lastTwoSegments trimmed =
     (let parts = splitOn (CHR ''/'') trimmed in
      if trimmed = [] then []
      else if length parts \<le> 2 then trimmed
      else joinWith (CHR ''/'') (drop (length parts - 2) parts))"

definition redactedMCPPath :: "bytes \<Rightarrow> bytes" where
  "redactedMCPPath path = lastTwoSegments (trimSlashes (trimSpace path))"

definition displayPath :: "bytes \<Rightarrow> bytes" where
  "displayPath path = lastTwoSegments (rev (dropWhile (\<lambda>c. c = CHR ''/'') (rev (trimSpace path))))"

definition DisplayConfigPath :: "dbConfig \<Rightarrow> bytes" where
  "DisplayConfigPath cfg = displayPath (CgConfigPath cfg)"

section \<open>Targets\<close>

record mcpDatabaseSpec =
  SpName :: bytes
  SpDescription :: bytes
  SpMode :: bytes
  SpConfig :: dbConfig
  SpPath :: bytes

definition mcpDatabaseCacheBudget :: "mcpDatabaseSpec \<Rightarrow> int" where
  "mcpDatabaseCacheBudget spec =
     (let options = SQLiteReadOptionsOf (SpConfig spec) in RoConnections options * RoCacheMBPerConnection options)"

datatype databaseError =
    TooFewPools
  | PrimaryExceedsBudget
  | TargetConfigUnreadable bytes
  | TargetExceedsBudget bytes
  | TargetConnections bytes
  | TargetPathUnresolved bytes
  | SameDatabase bytes bytes
  | ActiveExceedsBudget
  | ManagerClosed
  | SwitchUnavailable
  | TargetNotFound bytes
  | BudgetExceeded bytes int int
  | TargetUnavailable bytes
  | ConflictingGeneration

text \<open>Reading a target's configuration file and resolving the published path of a configuration are the
  parameters \<open>loadConfig\<close> and \<open>configuredPath\<close>. Names arrive trimmed and in lower case, as the configuration
  loader leaves them.\<close>

definition targetSpec ::
  "(bytes \<Rightarrow> dbConfig option) \<Rightarrow> (dbConfig \<Rightarrow> bytes option) \<Rightarrow> dbConfig \<Rightarrow> MCPDatabaseTarget \<Rightarrow> databaseError + mcpDatabaseSpec" where
  "targetSpec loadConfig configuredPath root target =
     (case (if TgConfigPath target \<noteq> [] then map_option (\<lambda>cfg. (''workspace_config'', cfg)) (loadConfig (TgConfigPath target))
            else Some (''snapshot'', root\<lparr>CgDatabase := TgDatabase target, CgBaseDatabase := []\<rparr>)) of
        None \<Rightarrow> Inl (TargetConfigUnreadable (TgName target))
      | Some (mode, loaded) \<Rightarrow>
          let trimmed = trimSpace (TgDescription target);
              description = (if trimmed = [] then trimSpace (CgDatabaseDescription loaded) else trimmed);
              cfg = applyMCPServiceLimits
                ((effectiveMCPDatabaseConfig loaded)\<lparr>CgDatabaseName := TgName target, CgDatabaseDescription := TgDescription target,
                   CgDatabases := []\<rparr>) root in
          if \<not> mcpDatabaseFitsCacheBudget cfg (CgMaxSQLiteCacheBudgetMB root) then Inl (TargetExceedsBudget (TgName target))
          else if CgReadConnections cfg \<le> CfMaxHeavyTasks (CgTasks root) then Inl (TargetConnections (TgName target))
          else (case configuredPath cfg of
              None \<Rightarrow> Inl (TargetPathUnresolved (TgName target))
            | Some path \<Rightarrow> Inr \<lparr>SpName = TgName target, SpDescription = description, SpMode = mode, SpConfig = cfg, SpPath = path\<rparr>))"

text \<open>The loop over the targets keeps the specifications, their order and the paths already taken.\<close>

type_synonym resolved = "(bytes \<times> mcpDatabaseSpec) list \<times> bytes list \<times> (bytes \<times> bytes) list"

primrec resolveTargets ::
  "(bytes \<Rightarrow> dbConfig option) \<Rightarrow> (dbConfig \<Rightarrow> bytes option) \<Rightarrow> dbConfig \<Rightarrow> MCPDatabaseTarget list \<Rightarrow> resolved \<Rightarrow> databaseError + resolved" where
  "resolveTargets loadConfig configuredPath root [] acc = Inr acc"
| "resolveTargets loadConfig configuredPath root (target # targets) acc =
     (case targetSpec loadConfig configuredPath root target of
        Inl e \<Rightarrow> Inl e
      | Inr spec \<Rightarrow>
          let (specs, order, paths) = acc; canonical = canonicalMCPDatabasePath (SpPath spec) in
          case map_of paths canonical of
            Some existing \<Rightarrow> Inl (SameDatabase existing (TgName target))
          | None \<Rightarrow> resolveTargets loadConfig configuredPath root targets
              (AList.update (TgName target) spec specs, order @ [TgName target], AList.update canonical (TgName target) paths))"

definition resolveMCPDatabaseSpecs ::
  "(bytes \<Rightarrow> dbConfig option) \<Rightarrow> (dbConfig \<Rightarrow> bytes option) \<Rightarrow> dbConfig \<Rightarrow> bytes
     \<Rightarrow> databaseError + (bytes \<times> mcpDatabaseSpec) list \<times> bytes list" where
  "resolveMCPDatabaseSpecs loadConfig configuredPath cfg dbPath =
     (let effective = effectiveMCPDatabaseConfig cfg in
      if CgDatabases effective \<noteq> [] \<and> CgMaxOpenDatabasePools effective < 2 then Inl TooFewPools
      else if \<not> mcpDatabaseFitsCacheBudget effective (CgMaxSQLiteCacheBudgetMB effective) then Inl PrimaryExceedsBudget
      else
        let primary = (if CgDatabaseName effective = [] then ''default'' else CgDatabaseName effective);
            root = effective\<lparr>CgDatabaseName := primary\<rparr>;
            spec = \<lparr>SpName = primary, SpDescription = trimSpace (CgDatabaseDescription root), SpMode = ''primary'',
              SpConfig = root, SpPath = cleanPath dbPath\<rparr> in
        case resolveTargets loadConfig configuredPath root (CgDatabases root)
            ([(primary, spec)], [primary], [(canonicalMCPDatabasePath dbPath, primary)]) of
          Inl e \<Rightarrow> Inl e
        | Inr (specs, order, _) \<Rightarrow> Inr (specs, order))"

section \<open>The manager\<close>

record managedMCPDatabase =
  MgSpec :: mcpDatabaseSpec
  MgRefs :: int
  MgRetired :: bool
  MgDeleteOnRetire :: bool

text \<open>\<open>MmHeap\<close> holds every database object the process has opened; the others fields are the struct's.\<close>

record mcpDatabaseManager =
  MmHeap :: "managedMCPDatabase list"
  MmSpecs :: "(bytes \<times> mcpDatabaseSpec) list"
  MmOrder :: "bytes list"
  MmLoaded :: "(bytes \<times> nat) list"
  MmActive :: "nat option"
  MmEpoch :: nat
  MmClosed :: bool
  MmOpeningCount :: int
  MmOpeningBudget :: int
  MmMaxPools :: int
  MmMaxBudget :: int

definition openedManaged :: "mcpDatabaseSpec \<Rightarrow> managedMCPDatabase" where
  "openedManaged spec = \<lparr>MgSpec = spec, MgRefs = 0, MgRetired = False, MgDeleteOnRetire = False\<rparr>"

abbreviation specAt :: "mcpDatabaseManager \<Rightarrow> nat \<Rightarrow> mcpDatabaseSpec" where
  "specAt m h \<equiv> MgSpec (MmHeap m ! h)"

definition setManaged :: "nat \<Rightarrow> (managedMCPDatabase \<Rightarrow> managedMCPDatabase) \<Rightarrow> mcpDatabaseManager \<Rightarrow> mcpDatabaseManager" where
  "setManaged h f m = m\<lparr>MmHeap := (MmHeap m)[h := f (MmHeap m ! h)]\<rparr>"

definition addRefs :: "int \<Rightarrow> managedMCPDatabase \<Rightarrow> managedMCPDatabase" where
  "addRefs k db = db\<lparr>MgRefs := MgRefs db + k\<rparr>"

definition newMCPDatabaseManager ::
  "(bytes \<Rightarrow> dbConfig option) \<Rightarrow> (dbConfig \<Rightarrow> bytes option) \<Rightarrow> dbConfig \<Rightarrow> bytes \<Rightarrow> databaseError + mcpDatabaseManager" where
  "newMCPDatabaseManager loadConfig configuredPath cfg dbPath =
     (case resolveMCPDatabaseSpecs loadConfig configuredPath cfg dbPath of
        Inl e \<Rightarrow> Inl e
      | Inr (specs, order) \<Rightarrow>
          let primary = the (map_of specs (hd order)) in
          if CgMaxOpenDatabasePools (SpConfig primary) < 1
            \<or> mcpDatabaseCacheBudget primary > CgMaxSQLiteCacheBudgetMB (SpConfig primary)
          then Inl ActiveExceedsBudget
          else Inr
            \<lparr>MmHeap = [openedManaged primary], MmSpecs = specs, MmOrder = order, MmLoaded = [(SpName primary, 0)],
             MmActive = Some 0, MmEpoch = 1, MmClosed = False, MmOpeningCount = 0, MmOpeningBudget = 0,
             MmMaxPools = CgMaxOpenDatabasePools (SpConfig primary), MmMaxBudget = CgMaxSQLiteCacheBudgetMB (SpConfig primary)\<rparr>)"

record mcpDatabaseIdentity =
  IdName :: bytes
  IdEpoch :: nat
  IdDatabase :: bytes
  IdConfig :: bytes
  IdPath :: bytes

definition identityLocked :: "mcpDatabaseManager \<Rightarrow> nat \<Rightarrow> mcpDatabaseIdentity" where
  "identityLocked m h = \<lparr>IdName = SpName (specAt m h), IdEpoch = MmEpoch m,
     IdDatabase = redactedMCPPath (SpPath (specAt m h)), IdConfig = DisplayConfigPath (SpConfig (specAt m h)),
     IdPath = SpPath (specAt m h)\<rparr>"

record mcpDatabaseResourceUsage =
  UgConfigured :: int
  UgLoaded :: int
  UgRetired :: int
  UgCacheBudgetMB :: int
  UgMaxPools :: int
  UgMaxCacheBudgetMB :: int

definition resourceUsageLocked :: "mcpDatabaseManager \<Rightarrow> mcpDatabaseResourceUsage" where
  "resourceUsageLocked m =
     \<lparr>UgConfigured = int (length (MmOrder m)),
      UgLoaded = int (length (MmLoaded m)) + MmOpeningCount m,
      UgRetired = int (length (filter (\<lambda>(_, h). MgRetired (MmHeap m ! h)) (MmLoaded m))),
      UgCacheBudgetMB = MmOpeningBudget m + (\<Sum>(_, h)\<leftarrow>MmLoaded m. mcpDatabaseCacheBudget (specAt m h)),
      UgMaxPools = MmMaxPools m, UgMaxCacheBudgetMB = MmMaxBudget m\<rparr>"

text \<open>\<^verbatim>\<open>Acquire\<close> answers the database of the lease and the epoch it was taken in.\<close>

definition acquireDatabase :: "mcpDatabaseManager \<Rightarrow> (databaseError + nat \<times> mcpDatabaseIdentity) \<times> mcpDatabaseManager" where
  "acquireDatabase m =
     (case MmActive m of
        None \<Rightarrow> (Inl ManagerClosed, m)
      | Some h \<Rightarrow>
          if MmClosed m then (Inl ManagerClosed, m)
          else (Inr (h, identityLocked m h), setManaged h (addRefs 1) m))"

text \<open>What an operation decides under the mutex to close after it: a database, and whether the files of its
  retired generation are removed then.\<close>

type_synonym closing = "(nat \<times> bool) list"

definition releaseDatabase :: "nat \<Rightarrow> mcpDatabaseManager \<Rightarrow> closing \<times> mcpDatabaseManager" where
  "releaseDatabase h m =
     (let m1 = (if MgRefs (MmHeap m ! h) > 0 then setManaged h (addRefs (- 1)) m else m);
          db = MmHeap m1 ! h; name = SpName (MgSpec db) in
      if MgRetired db \<and> MgRefs db = 0 then
        ([(h, MgDeleteOnRetire db)],
         if map_of (MmLoaded m1) name = Some h then m1\<lparr>MmLoaded := AList.delete name (MmLoaded m1)\<rparr> else m1)
      else ([], m1))"

definition releaseOpeningReservationLocked :: "int \<Rightarrow> mcpDatabaseManager \<Rightarrow> mcpDatabaseManager" where
  "releaseOpeningReservationLocked cacheBudgetMB m =
     m\<lparr>MmOpeningCount := (if MmOpeningCount m > 0 then MmOpeningCount m - 1 else MmOpeningCount m),
       MmOpeningBudget := (if cacheBudgetMB \<ge> MmOpeningBudget m then 0 else MmOpeningBudget m - cacheBudgetMB)\<rparr>"

section \<open>Switching\<close>

text \<open>The first part of \<^verbatim>\<open>Switch\<close>, up to giving up the mutex: it answers at once, pins a database that is
  still loaded, or reserves the budget of the one to open.\<close>

datatype switchStart =
    SwitchAnswered "databaseError + mcpDatabaseIdentity"
  | SwitchPins nat
  | SwitchReserves mcpDatabaseSpec int

definition reserveOpening :: "int \<Rightarrow> mcpDatabaseManager \<Rightarrow> mcpDatabaseManager" where
  "reserveOpening cacheBudgetMB m =
     m\<lparr>MmOpeningCount := MmOpeningCount m + 1, MmOpeningBudget := MmOpeningBudget m + cacheBudgetMB\<rparr>"

definition beginSwitch :: "bytes \<Rightarrow> mcpDatabaseManager \<Rightarrow> switchStart \<times> mcpDatabaseManager" where
  "beginSwitch name m =
     (case (MmClosed m, MmActive m) of
        (False, Some active) \<Rightarrow>
          (case map_of (MmSpecs m) name of
             None \<Rightarrow> (SwitchAnswered (Inl (TargetNotFound name)), m)
           | Some spec \<Rightarrow>
               if SpName (specAt m active) = name then (SwitchAnswered (Inr (identityLocked m active)), m)
               else case map_of (MmLoaded m) name of
                 Some h \<Rightarrow> (SwitchPins h, setManaged h (addRefs 1) m)
               | None \<Rightarrow>
                   let reserved = mcpDatabaseCacheBudget spec; usage = resourceUsageLocked m;
                       projectedPools = UgLoaded usage + 1; projectedBudget = UgCacheBudgetMB usage + reserved in
                   if projectedPools > MmMaxPools m \<or> UgCacheBudgetMB usage > MmMaxBudget m
                     \<or> reserved > MmMaxBudget m - UgCacheBudgetMB usage
                   then (SwitchAnswered (Inl (BudgetExceeded name projectedPools projectedBudget)), m)
                   else (SwitchReserves spec reserved, reserveOpening reserved m))
      | _ \<Rightarrow> (SwitchAnswered (Inl SwitchUnavailable), m))"

text \<open>The last part, after the candidate has passed its checks and with the mutex held again. \<open>reserved\<close> is 0
  when no reservation is held; \<open>None\<close> means that the manager was closed meanwhile.\<close>

definition swapRetired :: "nat \<Rightarrow> nat \<Rightarrow> mcpDatabaseManager \<Rightarrow> mcpDatabaseManager" where
  "swapRetired old candidate m =
     setManaged candidate (\<lambda>db. db\<lparr>MgRetired := False\<rparr>) (setManaged old (\<lambda>db. db\<lparr>MgRetired := True\<rparr>) m)"

definition settleHolds :: "nat \<Rightarrow> bool \<Rightarrow> int \<Rightarrow> mcpDatabaseManager \<Rightarrow> mcpDatabaseManager" where
  "settleHolds candidate newlyOpened reserved m =
     (let m1 = (if reserved > 0 then releaseOpeningReservationLocked reserved m else m) in
      if \<not> newlyOpened \<and> MgRefs (MmHeap m1 ! candidate) > 0 then setManaged candidate (addRefs (- 1)) m1 else m1)"

definition makeActive :: "bytes \<Rightarrow> nat \<Rightarrow> mcpDatabaseManager \<Rightarrow> mcpDatabaseManager" where
  "makeActive name candidate m =
     m\<lparr>MmLoaded := AList.update name candidate (MmLoaded m), MmActive := Some candidate, MmEpoch := MmEpoch m + 1\<rparr>"

definition unloadIdle :: "nat \<Rightarrow> mcpDatabaseManager \<Rightarrow> closing \<times> mcpDatabaseManager" where
  "unloadIdle old m =
     (if MgRefs (MmHeap m ! old) = 0 then
        ([(old, False)],
         if map_of (MmLoaded m) (SpName (specAt m old)) = Some old
         then m\<lparr>MmLoaded := AList.delete (SpName (specAt m old)) (MmLoaded m)\<rparr> else m)
      else ([], m))"

definition commitSwitch ::
  "bytes \<Rightarrow> nat \<Rightarrow> bool \<Rightarrow> int \<Rightarrow> mcpDatabaseManager \<Rightarrow> (closing \<times> mcpDatabaseManager) option" where
  "commitSwitch name candidate newlyOpened reserved m =
     (case (MmClosed m, MmActive m) of
        (False, Some old) \<Rightarrow>
          Some (unloadIdle old (makeActive name candidate (settleHolds candidate newlyOpened reserved (swapRetired old candidate m))))
      | _ \<Rightarrow> None)"

section \<open>Reloading and closing\<close>

text \<open>\<^verbatim>\<open>ReloadCurrent\<close> after the candidate has been opened and checked; \<open>None\<close> means that the active database
  is no longer the one the reload started from.\<close>

definition bindGeneration :: "nat \<Rightarrow> nat \<Rightarrow> mcpDatabaseManager \<Rightarrow> mcpDatabaseManager" where
  "bindGeneration old candidate m =
     (let m1 = setManaged old (\<lambda>db. db\<lparr>MgRetired := True, MgDeleteOnRetire := True\<rparr>) m;
          m2 = setManaged candidate (\<lambda>db. db\<lparr>MgRetired := False\<rparr>) m1;
          spec = specAt m2 candidate in
      setManaged candidate (addRefs 1)
        (makeActive (SpName spec) candidate (m2\<lparr>MmSpecs := AList.update (SpName spec) spec (MmSpecs m2)\<rparr>)))"

definition commitReload ::
  "nat \<Rightarrow> nat \<Rightarrow> mcpDatabaseManager \<Rightarrow> (mcpDatabaseIdentity \<times> closing \<times> mcpDatabaseManager) option" where
  "commitReload old candidate m =
     (if MmClosed m \<or> MmActive m \<noteq> Some old then None
      else
        let m1 = bindGeneration old candidate m in
        Some (identityLocked m1 candidate, if MgRefs (MmHeap m1 ! old) = 0 then [(old, True)] else [], m1))"

text \<open>\<^verbatim>\<open>Close\<close>\<close>

definition closeManager :: "mcpDatabaseManager \<Rightarrow> closing \<times> mcpDatabaseManager" where
  "closeManager m =
     (if MmClosed m then ([], m)
      else
        let m1 = fold (\<lambda>(name, h). setManaged h (\<lambda>db. db\<lparr>MgRetired := True\<rparr>)) (MmLoaded m) m;
            idle = (\<lambda>(name, h). MgRefs (MmHeap m1 ! h) = 0) in
        (map (\<lambda>(name, h). (h, False)) (filter idle (MmLoaded m)),
         m1\<lparr>MmClosed := True, MmActive := None, MmLoaded := filter (\<lambda>e. \<not> idle e) (MmLoaded m)\<rparr>))"

section \<open>Interleaving\<close>

text \<open>The gate admits one switch or reload at a time; its stage is where that operation stands between two
  critical sections. An undoing operation first closes the candidate it opened, if any, and then returns its
  reservation.\<close>

datatype gateStage =
    GateFree
  | SwitchOpens mcpDatabaseSpec int
  | SwitchChecks bytes nat bool int
  | ReloadStarts nat
  | ReloadOpens nat mcpDatabaseSpec
  | ReloadChecks nat nat
  | Undoes "nat option" int

record databaseLease =
  LsDatabase :: nat
  LsIdentity :: mcpDatabaseIdentity
  LsReleased :: bool

text \<open>\<open>dbClosing\<close> are the pools whose \<^verbatim>\<open>Close\<close> is decided and not yet done, \<open>dbClosed\<close> those that are closed,
  \<open>dbCleaned\<close> the paths whose retired files were handed to \<^verbatim>\<open>RemoveRetiredDatabaseGeneration\<close>, and
  \<open>dbBorrowed\<close> the databases that a reload handed out without a lease.\<close>

record databases =
  dbManager :: mcpDatabaseManager
  dbGate :: gateStage
  dbLeases :: "databaseLease list"
  dbClosing :: closing
  dbClosed :: "nat list"
  dbCleaned :: "bytes list"
  dbBorrowed :: "nat list"

definition startDatabases :: "mcpDatabaseManager \<Rightarrow> databases" where
  "startDatabases m = \<lparr>dbManager = m, dbGate = GateFree, dbLeases = [], dbClosing = [], dbClosed = [], dbCleaned = [], dbBorrowed = []\<rparr>"

definition takeLease :: "databases \<Rightarrow> databases" where
  "takeLease d =
     (case acquireDatabase (dbManager d) of
        (Inl _, m) \<Rightarrow> d\<lparr>dbManager := m\<rparr>
      | (Inr (h, identity), m) \<Rightarrow>
          d\<lparr>dbManager := m, dbLeases := dbLeases d @ [\<lparr>LsDatabase = h, LsIdentity = identity, LsReleased = False\<rparr>]\<rparr>)"

text \<open>Copies of a lease share its \<^verbatim>\<open>sync.Once\<close>: a second release does nothing.\<close>

definition releaseLease :: "nat \<Rightarrow> databases \<Rightarrow> databases" where
  "releaseLease k d =
     (if k < length (dbLeases d) \<and> \<not> LsReleased (dbLeases d ! k) then
        case releaseDatabase (LsDatabase (dbLeases d ! k)) (dbManager d) of
          (closing, m) \<Rightarrow> d\<lparr>dbManager := m, dbClosing := dbClosing d @ closing,
            dbLeases := (dbLeases d)[k := (dbLeases d ! k)\<lparr>LsReleased := True\<rparr>]\<rparr>
      else d)"

text \<open>One of the decided closes happens; the goroutine that decided it then removes the retired files.\<close>

definition finishClose :: "nat \<Rightarrow> databases \<Rightarrow> databases" where
  "finishClose k d =
     (if k < length (dbClosing d) then
        let (h, cleanup) = dbClosing d ! k in
        d\<lparr>dbClosing := take k (dbClosing d) @ drop (Suc k) (dbClosing d), dbClosed := dbClosed d @ [h],
          dbCleaned := dbCleaned d @ (if cleanup then [SpPath (specAt (dbManager d) h)] else [])\<rparr>
      else d)"

definition startSwitch :: "bytes \<Rightarrow> databases \<Rightarrow> databases" where
  "startSwitch name d =
     (case beginSwitch name (dbManager d) of
        (SwitchAnswered _, m) \<Rightarrow> d\<lparr>dbManager := m\<rparr>
      | (SwitchPins h, m) \<Rightarrow> d\<lparr>dbManager := m, dbGate := SwitchChecks name h False 0\<rparr>
      | (SwitchReserves spec reserved, m) \<Rightarrow> d\<lparr>dbManager := m, dbGate := SwitchOpens spec reserved\<rparr>)"

text \<open>\<^verbatim>\<open>openManagedMCPDatabase\<close> either opens no pool, opens one and closes it itself, or hands over an open one.\<close>

datatype openOutcome = OpensNothing | OpensAndCloses | OpensPool

definition openManagedMCPDatabase :: "mcpDatabaseSpec \<Rightarrow> openOutcome \<Rightarrow> databases \<Rightarrow> nat option \<times> databases" where
  "openManagedMCPDatabase spec opened d =
     (let m = dbManager d; h = length (MmHeap m); d1 = d\<lparr>dbManager := m\<lparr>MmHeap := MmHeap m @ [openedManaged spec]\<rparr>\<rparr> in
      case opened of
        OpensNothing \<Rightarrow> (None, d)
      | OpensAndCloses \<Rightarrow> (None, d1\<lparr>dbClosed := dbClosed d1 @ [h]\<rparr>)
      | OpensPool \<Rightarrow> (Some h, d1))"

text \<open>A switch whose checks fail, whose context ends, or whose manager was closed.\<close>

definition abandonSwitch :: "nat \<Rightarrow> bool \<Rightarrow> int \<Rightarrow> databases \<Rightarrow> databases" where
  "abandonSwitch candidate newlyOpened reserved d =
     (if newlyOpened then d\<lparr>dbGate := Undoes (Some candidate) reserved\<rparr>
      else case releaseDatabase candidate (dbManager d) of
        (closing, m) \<Rightarrow> d\<lparr>dbManager := m, dbClosing := dbClosing d @ closing, dbGate := Undoes None reserved\<rparr>)"

definition commitStage :: "bool \<Rightarrow> databases \<Rightarrow> databases" where
  "commitStage passes d =
     (case dbGate d of
        SwitchChecks name candidate newlyOpened reserved \<Rightarrow>
          (case (if passes then commitSwitch name candidate newlyOpened reserved (dbManager d) else None) of
             None \<Rightarrow> abandonSwitch candidate newlyOpened reserved d
           | Some (closing, m) \<Rightarrow> d\<lparr>dbManager := m, dbClosing := dbClosing d @ closing, dbGate := GateFree\<rparr>)
      | ReloadChecks old candidate \<Rightarrow>
          (case (if passes then commitReload old candidate (dbManager d) else None) of
             None \<Rightarrow> d\<lparr>dbGate := Undoes (Some candidate) 0\<rparr>
           | Some (identity, closing, m) \<Rightarrow>
               d\<lparr>dbManager := m, dbClosing := dbClosing d @ closing, dbGate := GateFree,
                 dbLeases := dbLeases d @ [\<lparr>LsDatabase = candidate, LsIdentity = identity, LsReleased = False\<rparr>]\<rparr>)
      | _ \<Rightarrow> d)"

definition undoStage :: "databases \<Rightarrow> databases" where
  "undoStage d =
     (case dbGate d of
        Undoes (Some candidate) reserved \<Rightarrow> d\<lparr>dbClosed := dbClosed d @ [candidate], dbGate := Undoes None reserved\<rparr>
      | Undoes None reserved \<Rightarrow>
          d\<lparr>dbManager := (if reserved > 0 then releaseOpeningReservationLocked reserved (dbManager d) else dbManager d),
            dbGate := GateFree\<rparr>
      | _ \<Rightarrow> d)"

definition startReload :: "databases \<Rightarrow> databases" where
  "startReload d =
     (case (MmClosed (dbManager d), MmActive (dbManager d)) of
        (False, Some active) \<Rightarrow> d\<lparr>dbGate := ReloadStarts active\<rparr>
      | _ \<Rightarrow> d)"

text \<open>The published path is resolved. An error ends the reload; so does the path of the database that was active
  at the start, which is handed to the caller as it is, with nothing to release.\<close>

definition resolveReload :: "bytes option \<Rightarrow> databases \<Rightarrow> databases" where
  "resolveReload published d =
     (case dbGate d of
        ReloadStarts old \<Rightarrow>
          let spec = specAt (dbManager d) old in
          (case published of
             None \<Rightarrow> d\<lparr>dbGate := GateFree\<rparr>
           | Some path \<Rightarrow>
               if canonicalMCPDatabasePath path = canonicalMCPDatabasePath (SpPath spec) then
                 d\<lparr>dbGate := GateFree,
                   dbBorrowed := dbBorrowed d @ (if \<not> MmClosed (dbManager d) \<and> MmActive (dbManager d) = Some old then [old] else [])\<rparr>
               else d\<lparr>dbGate := ReloadOpens old (spec\<lparr>SpPath := path\<rparr>)\<rparr>)
      | _ \<Rightarrow> d)"

definition openStage :: "openOutcome \<Rightarrow> databases \<Rightarrow> databases" where
  "openStage opened d =
     (case dbGate d of
        SwitchOpens spec reserved \<Rightarrow>
          (case openManagedMCPDatabase spec opened d of
             (None, d1) \<Rightarrow> d1\<lparr>dbGate := Undoes None reserved\<rparr>
           | (Some h, d1) \<Rightarrow> d1\<lparr>dbGate := SwitchChecks (SpName spec) h True reserved\<rparr>)
      | ReloadOpens old spec \<Rightarrow>
          (case openManagedMCPDatabase spec opened d of
             (None, d1) \<Rightarrow> d1\<lparr>dbGate := GateFree\<rparr>
           | (Some h, d1) \<Rightarrow> d1\<lparr>dbGate := ReloadChecks old h\<rparr>)
      | _ \<Rightarrow> d)"

definition closeDatabases :: "databases \<Rightarrow> databases" where
  "closeDatabases d =
     (case closeManager (dbManager d) of (closing, m) \<Rightarrow> d\<lparr>dbManager := m, dbClosing := dbClosing d @ closing\<rparr>)"

text \<open>One critical section, or one action between two. A call that waits at the gate does nothing; one that
  passes it finds the gate free.\<close>

datatype databaseAction =
    TakeLease
  | ReleaseLease nat
  | FinishClose nat
  | StartSwitch bytes
  | StartReload
  | ResolveReload "bytes option"
  | OpenStage openOutcome
  | CommitStage bool
  | UndoStage
  | CloseDatabases

primrec databaseAct :: "databaseAction \<Rightarrow> databases \<Rightarrow> databases" where
  "databaseAct TakeLease d = takeLease d"
| "databaseAct (ReleaseLease k) d = releaseLease k d"
| "databaseAct (FinishClose k) d = finishClose k d"
| "databaseAct (StartSwitch name) d = (if dbGate d = GateFree then startSwitch name d else d)"
| "databaseAct StartReload d = (if dbGate d = GateFree then startReload d else d)"
| "databaseAct (ResolveReload path) d = resolveReload path d"
| "databaseAct (OpenStage opened) d = openStage opened d"
| "databaseAct (CommitStage passes) d = commitStage passes d"
| "databaseAct UndoStage d = undoStage d"
| "databaseAct CloseDatabases d = closeDatabases d"

inductive databaseStep :: "databases \<Rightarrow> databases \<Rightarrow> bool" where
  databaseStep_act: "databaseStep d (databaseAct action d)"

abbreviation databaseReaches :: "databases \<Rightarrow> databases \<Rightarrow> bool" where
  "databaseReaches \<equiv> databaseStep\<^sup>*\<^sup>*"

end
