(* ===== verification/DatabaseManagerFacts.thy ===== *)
theory DatabaseManagerFacts
  imports DatabaseManager AssocLists "HOL-Library.Multiset"
begin

text \<open>
  The invariant of the database manager. \<open>managerOk m U own D\<close> relates the manager to how many holders each
  database has (\<open>U\<close>), to the databases that only the operation at the gate knows (\<open>own\<close>), and to the
  closes that were decided (\<open>D\<close>): it says that exactly the databases nobody needs are closed, each of them
  once. \<open>budgetOk\<close> is the accounting of pools and page cache. Each critical section keeps both.
\<close>

section \<open>Updating database objects\<close>

lemma setManaged_fields [simp]:
  "length (MmHeap (setManaged h f m)) = length (MmHeap m)" "MmSpecs (setManaged h f m) = MmSpecs m"
  "MmOrder (setManaged h f m) = MmOrder m" "MmLoaded (setManaged h f m) = MmLoaded m"
  "MmActive (setManaged h f m) = MmActive m" "MmEpoch (setManaged h f m) = MmEpoch m"
  "MmClosed (setManaged h f m) = MmClosed m" "MmOpeningCount (setManaged h f m) = MmOpeningCount m"
  "MmOpeningBudget (setManaged h f m) = MmOpeningBudget m" "MmMaxPools (setManaged h f m) = MmMaxPools m"
  "MmMaxBudget (setManaged h f m) = MmMaxBudget m"
  by (simp_all add: setManaged_def)

lemma setManaged_at [simp]:
  "i < length (MmHeap m) \<Longrightarrow> MmHeap (setManaged h f m) ! i = (if i = h then f (MmHeap m ! i) else MmHeap m ! i)"
  by (auto simp: setManaged_def)

lemma addRefs_fields [simp]:
  "MgSpec (addRefs k db) = MgSpec db" "MgRefs (addRefs k db) = MgRefs db + k"
  "MgRetired (addRefs k db) = MgRetired db" "MgDeleteOnRetire (addRefs k db) = MgDeleteOnRetire db"
  by (simp_all add: addRefs_def)

lemma openedManaged_fields [simp]:
  "MgSpec (openedManaged spec) = spec" "MgRefs (openedManaged spec) = 0"
  "\<not> MgRetired (openedManaged spec)" "\<not> MgDeleteOnRetire (openedManaged spec)"
  by (simp_all add: openedManaged_def)

section \<open>Who needs a database\<close>

definition exactlyOnce :: "mcpDatabaseManager \<Rightarrow> (nat \<Rightarrow> nat) \<Rightarrow> (nat \<Rightarrow> bool) \<Rightarrow> nat multiset \<Rightarrow> bool" where
  "exactlyOnce m U own D \<longleftrightarrow>
     (\<forall>h. count D h = (if h < length (MmHeap m) \<and> MmActive m \<noteq> Some h \<and> U h = 0 \<and> \<not> own h then 1 else 0))"

definition holdersOk :: "mcpDatabaseManager \<Rightarrow> (nat \<Rightarrow> nat) \<Rightarrow> (nat \<Rightarrow> bool) \<Rightarrow> bool" where
  "holdersOk m U own \<longleftrightarrow>
     (\<forall>h < length (MmHeap m). MgRefs (MmHeap m ! h) = int (U h))
     \<and> (\<forall>h. length (MmHeap m) \<le> h \<longrightarrow> U h = 0 \<and> \<not> own h)
     \<and> (\<forall>h. own h \<longrightarrow> U h = 0 \<and> MmActive m \<noteq> Some h)"

definition loadedOk :: "mcpDatabaseManager \<Rightarrow> (nat \<Rightarrow> nat) \<Rightarrow> (nat \<Rightarrow> bool) \<Rightarrow> bool" where
  "loadedOk m U own \<longleftrightarrow>
     distinct (map fst (MmLoaded m))
     \<and> (\<forall>k h. (k, h) \<in> set (MmLoaded m) \<longrightarrow>
          h < length (MmHeap m) \<and> SpName (specAt m h) = k \<and> \<not> own h \<and> (MmActive m = Some h \<or> U h > 0))"

definition retiredOk :: "mcpDatabaseManager \<Rightarrow> (nat \<Rightarrow> nat) \<Rightarrow> (nat \<Rightarrow> bool) \<Rightarrow> bool" where
  "retiredOk m U own \<longleftrightarrow>
     (MmClosed m \<longleftrightarrow> MmActive m = None)
     \<and> (\<forall>h. MmActive m = Some h \<longrightarrow> (SpName (specAt m h), h) \<in> set (MmLoaded m) \<and> \<not> MgRetired (MmHeap m ! h))
     \<and> (\<forall>h < length (MmHeap m). \<not> own h \<longrightarrow> MmActive m \<noteq> Some h \<longrightarrow> U h > 0 \<longrightarrow>
          MgRetired (MmHeap m ! h) \<and> ((SpName (specAt m h), h) \<in> set (MmLoaded m) \<or> MgDeleteOnRetire (MmHeap m ! h)))"

definition managerOk :: "mcpDatabaseManager \<Rightarrow> (nat \<Rightarrow> nat) \<Rightarrow> (nat \<Rightarrow> bool) \<Rightarrow> nat multiset \<Rightarrow> bool" where
  "managerOk m U own D \<longleftrightarrow>
     exactlyOnce m U own D \<and> holdersOk m U own \<and> loadedOk m U own \<and> retiredOk m U own
     \<and> (\<forall>k spec. (k, spec) \<in> set (MmSpecs m) \<longrightarrow> SpName spec = k)"

lemmas manager_defs = managerOk_def exactlyOnce_def holdersOk_def loadedOk_def retiredOk_def

lemma managerOk_active:
  assumes "managerOk m U own D" and "MmActive m = Some h"
  shows "h < length (MmHeap m)" and "\<not> own h" and "(SpName (specAt m h), h) \<in> set (MmLoaded m)" and "\<not> MmClosed m"
  using assms by (auto simp: manager_defs)

lemma managerOk_loaded:
  assumes "managerOk m U own D" and "map_of (MmLoaded m) k = Some h"
  shows "h < length (MmHeap m)" and "SpName (specAt m h) = k" and "\<not> own h" and "MmActive m = Some h \<or> U h > 0"
  using assms by (auto simp: manager_defs map_of_distinct)

lemma managerOk_entry:
  assumes "managerOk m U own D" and "(k, h) \<in> set (MmLoaded m)"
  shows "h < length (MmHeap m)" and "SpName (specAt m h) = k" and "\<not> own h" and "MmActive m = Some h \<or> U h > 0"
  using assms by (auto simp: manager_defs)

lemma managerOk_key:
  assumes ok: "managerOk m U own D" and h: "(k, h) \<in> set (MmLoaded m)" and e: "e \<in> set (MmLoaded m)"
  shows "fst e = k \<longleftrightarrow> snd e = h"
proof -
  have "distinct (map fst (MmLoaded m))" using ok by (simp add: managerOk_def loadedOk_def)
  note same = eq_key_imp_eq_value [OF this _ h]
  obtain i g where ig: "e = (i, g)" by (cases e)
  have "SpName (specAt m g) = i" "SpName (specAt m h) = k"
    using managerOk_entry(2) [OF ok] e h ig by simp_all
  then show ?thesis using same [of g] e ig by auto
qed

text \<open>The counters of the opening reservation play no part.\<close>

lemma managerOk_cong:
  assumes "managerOk m U own D" and "MmHeap m' = MmHeap m" "MmSpecs m' = MmSpecs m" "MmLoaded m' = MmLoaded m"
    "MmActive m' = MmActive m" "MmClosed m' = MmClosed m"
  shows "managerOk m' U own D"
  using assms by (simp add: manager_defs)

lemma managerOk_held:
  assumes ok: "managerOk m U own D" and h: "MmActive m = Some h \<or> U h > 0"
  shows "h < length (MmHeap m)" and "\<not> own h"
proof -
  have out: "length (MmHeap m) \<le> h \<Longrightarrow> U h = 0" "own h \<Longrightarrow> U h = 0 \<and> MmActive m \<noteq> Some h"
    using ok by (simp_all add: managerOk_def holdersOk_def)
  show "h < length (MmHeap m)"
    using h out(1) managerOk_active(1) [OF ok, of h] by linarith
  show "\<not> own h"
    using h out(2) by auto
qed

lemma managerOk_hold:
  assumes ok: "managerOk m U own D" and h: "MmActive m = Some h \<or> U h > 0"
  shows "managerOk (setManaged h (addRefs 1) m) (U(h := Suc (U h))) own D"
proof -
  note range = managerOk_held [OF ok h]
  let ?m = "setManaged h (addRefs 1) m" and ?U = "U(h := Suc (U h))"
  have "exactlyOnce ?m ?U own D"
    using ok h range by (auto simp: managerOk_def exactlyOnce_def)
  moreover have "holdersOk ?m ?U own"
    using ok range by (auto simp: managerOk_def holdersOk_def)
  moreover have "loadedOk ?m ?U own"
    using ok by (auto simp: managerOk_def loadedOk_def)
  moreover have "retiredOk ?m ?U own"
    using ok h range managerOk_active(1) [OF ok] by (auto simp: managerOk_def retiredOk_def)
  ultimately show ?thesis
    using ok by (simp add: managerOk_def)
qed

text \<open>Giving a hold back either keeps everything else or retires the database.\<close>

lemma managerOk_drop:
  assumes ok: "managerOk m U own D" and h: "U h > 0" and keep: "MmActive m = Some h \<or> U h > 1"
  shows "managerOk (setManaged h (addRefs (- 1)) m) (U(h := U h - 1)) own D"
proof -
  note range = managerOk_held [OF ok disjI2, OF h]
  let ?m = "setManaged h (addRefs (- 1)) m" and ?U = "U(h := U h - 1)"
  have "exactlyOnce ?m ?U own D"
    using ok keep range by (auto simp: managerOk_def exactlyOnce_def)
  moreover have "holdersOk ?m ?U own"
    using ok h by (auto simp: managerOk_def holdersOk_def)
  moreover have "loadedOk ?m ?U own"
    using ok keep by (auto simp: managerOk_def loadedOk_def)
  moreover have "retiredOk ?m ?U own"
    using ok range managerOk_active(1) [OF ok] by (auto simp: managerOk_def retiredOk_def)
  ultimately show ?thesis
    using ok by (simp add: managerOk_def)
qed

lemma managerOk_retire:
  assumes ok: "managerOk m U own D" and h: "U h = 1" "MmActive m \<noteq> Some h"
    and loaded: "set loaded = {e \<in> set (MmLoaded m). snd e \<noteq> h}" "distinct (map fst loaded)"
  shows "managerOk ((setManaged h (addRefs (- 1)) m)\<lparr>MmLoaded := loaded\<rparr>) (U(h := 0)) own (add_mset h D)"
proof -
  have range: "h < length (MmHeap m)" "\<not> own h"
    using managerOk_held [OF ok, of h] h by simp_all
  let ?m = "(setManaged h (addRefs (- 1)) m)\<lparr>MmLoaded := loaded\<rparr>" and ?U = "U(h := 0)"
  have "exactlyOnce ?m ?U own (add_mset h D)"
    using ok h range by (auto simp: managerOk_def exactlyOnce_def)
  moreover have "holdersOk ?m ?U own"
    using ok h by (auto simp: managerOk_def holdersOk_def)
  moreover have "loadedOk ?m ?U own"
    using ok loaded by (auto simp: managerOk_def loadedOk_def) (metis less_irrefl)
  moreover have "retiredOk ?m ?U own"
    using ok range h loaded managerOk_active(1) [OF ok] by (auto simp: managerOk_def retiredOk_def)
  ultimately show ?thesis
    using ok by (simp add: managerOk_def)
qed

lemma managerOk_unload:
  assumes "managerOk m U own D" and "h < length (MmHeap m)"
  shows "set (if map_of (MmLoaded m) (SpName (specAt m h)) = Some h then AList.delete (SpName (specAt m h)) (MmLoaded m) else MmLoaded m)
      = {e \<in> set (MmLoaded m). snd e \<noteq> h}"
    and "distinct (map fst (if map_of (MmLoaded m) (SpName (specAt m h)) = Some h then AList.delete (SpName (specAt m h)) (MmLoaded m) else MmLoaded m))"
proof -
  have loaded: "distinct (map fst (MmLoaded m))" "\<And>k i. (k, i) \<in> set (MmLoaded m) \<Longrightarrow> SpName (specAt m i) = k"
    using assms(1) by (auto simp: managerOk_def loadedOk_def)
  let ?name = "SpName (specAt m h)"
  have elsewhere: "snd e \<noteq> h" if "e \<in> set (MmLoaded m)" "map_of (MmLoaded m) ?name \<noteq> Some h" for e
  proof
    assume "snd e = h"
    then have "(?name, h) \<in> set (MmLoaded m)" using that(1) loaded(2) [of "fst e" "snd e"] by (cases e) simp
    then show False using that(2) loaded(1) by simp
  qed
  have there: "fst e = ?name \<longleftrightarrow> snd e = h" if "e \<in> set (MmLoaded m)" "map_of (MmLoaded m) ?name = Some h" for e
    using managerOk_key [OF assms(1) map_of_SomeD [OF that(2)] that(1)] .
  show "set (if map_of (MmLoaded m) ?name = Some h then AList.delete ?name (MmLoaded m) else MmLoaded m)
      = {e \<in> set (MmLoaded m). snd e \<noteq> h}"
    using elsewhere there by (auto simp: set_delete)
  show "distinct (map fst (if map_of (MmLoaded m) ?name = Some h then AList.delete ?name (MmLoaded m) else MmLoaded m))"
    using loaded(1) by (simp add: distinct_delete)
qed

definition withoutDatabase :: "nat \<Rightarrow> mcpDatabaseManager \<Rightarrow> (bytes \<times> nat) list" where
  "withoutDatabase h m =
     (let name = SpName (specAt m h) in if map_of (MmLoaded m) name = Some h then AList.delete name (MmLoaded m) else MmLoaded m)"

lemma release_cases:
  assumes ok: "managerOk m U own D" and h: "U h > 0" and rel: "releaseDatabase h m = (closing, m')"
  obtains (keeps) "closing = []" "m' = setManaged h (addRefs (- 1)) m" "MmActive m = Some h \<or> U h > 1"
  | (retires) "map fst closing = [h]" "m' = (setManaged h (addRefs (- 1)) m)\<lparr>MmLoaded := withoutDatabase h m\<rparr>"
      "U h = 1" "MmActive m \<noteq> Some h"
proof -
  note range = managerOk_held [OF ok disjI2, OF h]
  have refs: "MgRefs (MmHeap m ! h) = int (U h)"
    using ok range by (simp add: managerOk_def holdersOk_def)
  have retired: "MgRetired (MmHeap m ! h) \<longleftrightarrow> MmActive m \<noteq> Some h"
    using ok range h by (auto simp: managerOk_def retiredOk_def)
  show thesis
  proof (cases "MmActive m = Some h \<or> U h > 1")
    case True
    then have "closing = []" "m' = setManaged h (addRefs (- 1)) m"
      using rel refs retired h range by (auto simp: releaseDatabase_def Let_def)
    then show thesis using True by (rule keeps)
  next
    case False
    then have one: "U h = 1" "MmActive m \<noteq> Some h" using h by auto
    have "map fst closing = [h]" "m' = (setManaged h (addRefs (- 1)) m)\<lparr>MmLoaded := withoutDatabase h m\<rparr>"
      using rel refs retired one range by (auto simp: releaseDatabase_def withoutDatabase_def Let_def)
    then show thesis using one by (rule retires)
  qed
qed

lemma managerOk_release:
  assumes ok: "managerOk m U own D" and h: "U h > 0" and rel: "releaseDatabase h m = (closing, m')"
  shows "managerOk m' (U(h := U h - 1)) own (D + mset (map fst closing))"
  using ok h rel
proof (cases rule: release_cases)
  case keeps
  then show ?thesis using managerOk_drop [OF ok h keeps(3)] by simp
next
  case retires
  have "h < length (MmHeap m)" using managerOk_held(1) [OF ok] h by simp
  then show ?thesis
    using managerOk_retire [OF ok retires(3,4) managerOk_unload [OF ok]] retires(1-3)
    by (simp add: withoutDatabase_def Let_def)
qed

text \<open>A database that is opened belongs to whoever opened it, until it is closed or made the active one.\<close>

lemma managerOk_open:
  assumes ok: "managerOk m U own D"
  shows "managerOk (m\<lparr>MmHeap := MmHeap m @ [openedManaged spec]\<rparr>) U (own(length (MmHeap m) := True)) D"
proof -
  let ?m = "m\<lparr>MmHeap := MmHeap m @ [openedManaged spec]\<rparr>" and ?own = "own(length (MmHeap m) := True)"
  have out: "U (length (MmHeap m)) = 0" "MmActive m \<noteq> Some (length (MmHeap m))"
    using ok managerOk_active(1) [OF ok] by (auto simp: managerOk_def holdersOk_def)
  have at: "i < length (MmHeap m) \<Longrightarrow> MmHeap ?m ! i = MmHeap m ! i" for i by (simp add: nth_append)
  have "exactlyOnce ?m U ?own D"
    using ok by (auto simp: managerOk_def exactlyOnce_def)
  moreover have "holdersOk ?m U ?own"
    using ok out by (auto simp: managerOk_def holdersOk_def nth_append)
  moreover have "loadedOk ?m U ?own"
    using ok by (fastforce simp: managerOk_def loadedOk_def nth_append)
  moreover have "retiredOk ?m U ?own"
    using ok managerOk_active(1) [OF ok] by (auto simp: managerOk_def retiredOk_def nth_append)
  ultimately show ?thesis
    using ok by (simp add: managerOk_def)
qed

lemma managerOk_discard:
  assumes ok: "managerOk m U own D" and h: "own h"
  shows "managerOk m U (own(h := False)) (add_mset h D)"
proof -
  have range: "h < length (MmHeap m)" "U h = 0" "MmActive m \<noteq> Some h"
    using ok h by (auto simp: managerOk_def holdersOk_def not_le [symmetric])
  have "exactlyOnce m U (own(h := False)) (add_mset h D)"
    using ok h range by (auto simp: managerOk_def exactlyOnce_def)
  moreover have "holdersOk m U (own(h := False))"
    using ok by (auto simp: managerOk_def holdersOk_def)
  moreover have "loadedOk m U (own(h := False))"
    using ok by (auto simp: managerOk_def loadedOk_def)
  moreover have "retiredOk m U (own(h := False))"
    using ok range by (auto simp: managerOk_def retiredOk_def)
  ultimately show ?thesis
    using ok by (simp add: managerOk_def)
qed

lemma managerOk_activate:
  assumes ok: "managerOk m U own D" and old: "MmActive m = Some old" "cand \<noteq> old"
    and cand: "cand < length (MmHeap m)" "own cand \<or> U cand > 0"
    and heap: "length (MmHeap m') = length (MmHeap m)"
      "\<And>i. i < length (MmHeap m) \<Longrightarrow> MgSpec (MmHeap m' ! i) = MgSpec (MmHeap m ! i)"
      "\<And>i. i < length (MmHeap m) \<Longrightarrow> i \<noteq> old \<Longrightarrow> i \<noteq> cand \<Longrightarrow> MmHeap m' ! i = MmHeap m ! i"
      "MgRefs (MmHeap m' ! old) = MgRefs (MmHeap m ! old)" "MgRetired (MmHeap m' ! old)"
      "MgRefs (MmHeap m' ! cand) = int u" "\<not> MgRetired (MmHeap m' ! cand)"
    and fields: "MmActive m' = Some cand" "\<not> MmClosed m'" "\<And>k spec. (k, spec) \<in> set (MmSpecs m') \<Longrightarrow> SpName spec = k"
    and loaded: "distinct (map fst (MmLoaded m'))" "(SpName (specAt m cand), cand) \<in> set (MmLoaded m')"
      "\<And>k h. (k, h) \<in> set (MmLoaded m') \<Longrightarrow> h \<noteq> cand \<Longrightarrow> (k, h) \<in> set (MmLoaded m) \<and> (h = old \<longrightarrow> U old > 0)"
      "\<And>k. (k, cand) \<in> set (MmLoaded m') \<Longrightarrow> k = SpName (specAt m cand)"
      "\<And>k h. (k, h) \<in> set (MmLoaded m) \<Longrightarrow> h \<noteq> old \<Longrightarrow> (k, h) \<in> set (MmLoaded m')"
      "U old > 0 \<Longrightarrow> (SpName (specAt m old), old) \<in> set (MmLoaded m') \<or> MgDeleteOnRetire (MmHeap m' ! old)"
  shows "managerOk m' (U(cand := u)) (own(cand := False)) (D + (if U old = 0 then {#old#} else {#}))"
proof -
  let ?U = "U(cand := u)" and ?own = "own(cand := False)"
  note range = managerOk_active [OF ok old(1)]
  have "exactlyOnce m' ?U ?own (D + (if U old = 0 then {#old#} else {#}))"
    using ok old cand heap(1) fields(1) range by (auto simp: managerOk_def exactlyOnce_def)
  moreover have "MgRefs (MmHeap m' ! i) = int (?U i)" if "i < length (MmHeap m)" for i
    using ok that heap(3) [OF that] heap(4,6) old
    by (cases "i = old"; cases "i = cand") (simp_all add: managerOk_def holdersOk_def)
  then have "holdersOk m' ?U ?own"
    using ok heap(1) cand fields(1) by (auto simp: managerOk_def holdersOk_def)
  moreover have "h < length (MmHeap m') \<and> SpName (specAt m' h) = k \<and> \<not> ?own h \<and> (MmActive m' = Some h \<or> ?U h > 0)"
    if "(k, h) \<in> set (MmLoaded m')" for k h
  proof (cases "h = cand")
    case True then show ?thesis using that loaded(4) heap(1,2) cand(1) fields(1) by auto
  next
    case False
    then have there: "(k, h) \<in> set (MmLoaded m)" "h = old \<Longrightarrow> U old > 0" using loaded(3) [OF that] by auto
    then show ?thesis using managerOk_entry [OF ok there(1)] False heap(1,2) old by auto
  qed
  then have "loadedOk m' ?U ?own"
    using loaded(1) by (simp add: loadedOk_def)
  moreover have "MgRetired (MmHeap m' ! h) \<and> ((SpName (specAt m' h), h) \<in> set (MmLoaded m') \<or> MgDeleteOnRetire (MmHeap m' ! h))"
    if "h < length (MmHeap m')" "\<not> ?own h" "h \<noteq> cand" "U h > 0" for h
  proof (cases "h = old")
    case True then show ?thesis using that heap(2,5) range(1) loaded(6) by simp
  next
    case False
    then show ?thesis
      using ok that heap(1) heap(3) [of h] old loaded(5) by (auto simp: managerOk_def retiredOk_def)
  qed
  then have "retiredOk m' ?U ?own"
    using fields heap(2,7) cand(1) loaded(2) by (auto simp: retiredOk_def)
  ultimately show ?thesis
    using fields(3) by (simp add: managerOk_def)
qed

section \<open>The critical sections\<close>

lemma releaseOpening_fields [simp]:
  "MmHeap (releaseOpeningReservationLocked r m) = MmHeap m" "MmSpecs (releaseOpeningReservationLocked r m) = MmSpecs m"
  "MmOrder (releaseOpeningReservationLocked r m) = MmOrder m" "MmLoaded (releaseOpeningReservationLocked r m) = MmLoaded m"
  "MmActive (releaseOpeningReservationLocked r m) = MmActive m" "MmEpoch (releaseOpeningReservationLocked r m) = MmEpoch m"
  "MmClosed (releaseOpeningReservationLocked r m) = MmClosed m" "MmMaxPools (releaseOpeningReservationLocked r m) = MmMaxPools m"
  "MmMaxBudget (releaseOpeningReservationLocked r m) = MmMaxBudget m"
  by (simp_all add: releaseOpeningReservationLocked_def)

lemma reserveOpening_fields [simp]:
  "MmHeap (reserveOpening r m) = MmHeap m" "MmSpecs (reserveOpening r m) = MmSpecs m" "MmOrder (reserveOpening r m) = MmOrder m"
  "MmLoaded (reserveOpening r m) = MmLoaded m" "MmActive (reserveOpening r m) = MmActive m" "MmEpoch (reserveOpening r m) = MmEpoch m"
  "MmClosed (reserveOpening r m) = MmClosed m" "MmMaxPools (reserveOpening r m) = MmMaxPools m" "MmMaxBudget (reserveOpening r m) = MmMaxBudget m"
  by (simp_all add: reserveOpening_def)

text \<open>What the candidate of a switch is: a database of that name that is loaded and pinned, or a new one where
  no database of that name is loaded.\<close>

definition candidateOk :: "mcpDatabaseManager \<Rightarrow> (nat \<Rightarrow> nat) \<Rightarrow> (nat \<Rightarrow> bool) \<Rightarrow> bytes \<Rightarrow> nat \<Rightarrow> bool \<Rightarrow> bool" where
  "candidateOk m U own name c newlyOpened \<longleftrightarrow>
     c < length (MmHeap m) \<and> MmActive m \<noteq> Some c \<and> SpName (specAt m c) = name
     \<and> (if newlyOpened then own c \<and> name \<notin> fst ` set (MmLoaded m) else U c > 0 \<and> (name, c) \<in> set (MmLoaded m))"

lemma managerOk_commitSwitch:
  assumes ok: "managerOk m U own D" and cand: "candidateOk m U own name c newlyOpened"
    and commit: "commitSwitch name c newlyOpened reserved m = Some (closing, m')"
  shows "managerOk m' (U(c := U c - 1)) (own(c := False)) (D + mset (map fst closing))"
proof -
  obtain old where old: "MmActive m = Some old" "\<not> MmClosed m"
    using commit by (auto simp: commitSwitch_def split: bool.splits option.splits)
  note range = managerOk_active [OF ok old(1)]
  have c: "c < length (MmHeap m)" "c \<noteq> old" "SpName (specAt m c) = name" "own c \<or> U c > 0"
    using cand old by (auto simp: candidateOk_def split: if_splits)
  have refs: "MgRefs (MmHeap m ! c) = int (U c)" "MgRefs (MmHeap m ! old) = int (U old)" "newlyOpened \<Longrightarrow> U c = 0" "\<not> newlyOpened \<Longrightarrow> U c > 0"
    using ok range(1) cand by (auto simp: managerOk_def holdersOk_def candidateOk_def)
  define m4 where "m4 = makeActive name c (settleHolds c newlyOpened reserved (swapRetired old c m))"
  define oldName where "oldName = SpName (specAt m old)"
  define loaded where "loaded = (if U old = 0 then if map_of (MmLoaded m4) oldName = Some old then AList.delete oldName (MmLoaded m4) else MmLoaded m4
    else MmLoaded m4)"
  have heap: "length (MmHeap m4) = length (MmHeap m)"
    "\<And>i. i < length (MmHeap m) \<Longrightarrow> MgSpec (MmHeap m4 ! i) = MgSpec (MmHeap m ! i)"
    "\<And>i. i < length (MmHeap m) \<Longrightarrow> i \<noteq> old \<Longrightarrow> i \<noteq> c \<Longrightarrow> MmHeap m4 ! i = MmHeap m ! i"
    "MgRefs (MmHeap m4 ! old) = MgRefs (MmHeap m ! old)" "MgRetired (MmHeap m4 ! old)"
    "MgRefs (MmHeap m4 ! c) = int (U c - 1)" "\<not> MgRetired (MmHeap m4 ! c)"
    and fields4: "MmLoaded m4 = AList.update name c (MmLoaded m)" "MmSpecs m4 = MmSpecs m" "MmActive m4 = Some c" "MmClosed m4 = MmClosed m"
    using c refs range(1) by (auto simp: m4_def makeActive_def settleHolds_def swapRetired_def Let_def)
  have at: "specAt m4 old = specAt m old" using heap(2) range(1) by simp
  have step: "m' = m4\<lparr>MmLoaded := loaded\<rparr>" "map fst closing = (if U old = 0 then [old] else [])"
    using commit old at refs(2) heap(4)
    by (auto simp: commitSwitch_def unloadIdle_def m4_def [symmetric] oldName_def [symmetric] loaded_def split: if_splits)
  have L: "distinct (map fst (MmLoaded m))" "\<And>k h. (k, h) \<in> set (MmLoaded m) \<Longrightarrow> SpName (specAt m h) = k"
    using ok by (auto simp: managerOk_def loadedOk_def)
  have alone: "h = c" if "(name, h) \<in> set (MmLoaded m)" for h
  proof (cases newlyOpened)
    case True
    then have "name \<notin> fst ` set (MmLoaded m)" using cand by (simp add: candidateOk_def)
    with that show ?thesis by (metis fst_conv image_eqI)
  next
    case False
    then have "(name, c) \<in> set (MmLoaded m)" using cand by (simp add: candidateOk_def)
    then show ?thesis by (rule eq_key_imp_eq_value [OF L(1) that])
  qed
  have set4: "set (MmLoaded m4) = insert (name, c) (set (MmLoaded m))"
  proof -
    have "e = (name, c)" if "e \<in> set (MmLoaded m)" "fst e = name" for e
      using that alone by (metis prod.collapse)
    then show ?thesis unfolding fields4(1) set_update_distinct [OF L(1)] by blast
  qed
  have oldL: "(oldName, old) \<in> set (MmLoaded m)" "oldName \<noteq> name"
    using range(3) alone [of old] c(2) by (auto simp: oldName_def)
  have d4: "distinct (map fst (MmLoaded m4))" using L(1) by (simp add: fields4(1) distinct_update_keys)
  have setL: "set loaded = {e \<in> insert (name, c) (set (MmLoaded m)). U old = 0 \<longrightarrow> snd e \<noteq> old}"
  proof -
    have "map_of (MmLoaded m4) oldName = Some old" using d4 oldL set4 by simp
    moreover have "fst e = oldName \<longleftrightarrow> snd e = old" if "e \<in> insert (name, c) (set (MmLoaded m))" for e
      using that oldL(2) c(2) managerOk_key [OF ok oldL(1), of e] by auto
    ultimately show ?thesis using set4 unfolding loaded_def by (cases "U old = 0") (auto simp: set_delete)
  qed
  have "managerOk (m4\<lparr>MmLoaded := loaded\<rparr>) (U(c := U c - 1)) (own(c := False)) (D + (if U old = 0 then {#old#} else {#}))"
  proof (rule managerOk_activate [OF ok old(1) c(2) c(1) c(4)])
    show "distinct (map fst (MmLoaded (m4\<lparr>MmLoaded := loaded\<rparr>)))"
      using d4 by (simp add: loaded_def distinct_delete)
    show "SpName spec = k" if "(k, spec) \<in> set (MmSpecs (m4\<lparr>MmLoaded := loaded\<rparr>))" for k spec
      using that ok by (simp add: fields4 managerOk_def)
    show "k = SpName (specAt m c)" if "(k, c) \<in> set (MmLoaded (m4\<lparr>MmLoaded := loaded\<rparr>))" for k
      using that L(2) c(3) by (auto simp: setL)
  qed (use heap old c oldL in \<open>auto simp: setL fields4 oldName_def\<close>)
  then show ?thesis
    using step by (simp split: if_splits)
qed

lemma managerOk_commitReload:
  assumes ok: "managerOk m U own D" and own: "own c" "SpName (specAt m c) = SpName (specAt m old)"
    and commit: "commitReload old c m = Some (identity, closing, m')"
  shows "managerOk m' (U(c := 1)) (own(c := False)) (D + mset (map fst closing))"
proof -
  have old: "MmActive m = Some old"
    using commit by (auto simp: commitReload_def split: if_splits)
  note range = managerOk_active [OF ok old]
  have c: "c < length (MmHeap m)" "c \<noteq> old" "U c = 0"
    using ok own(1) range(2) by (auto simp: managerOk_def holdersOk_def not_le [symmetric])
  have refs: "MgRefs (MmHeap m ! c) = 0" "MgRefs (MmHeap m ! old) = int (U old)"
    using ok c range(1) by (auto simp: managerOk_def holdersOk_def)
  define name where "name = SpName (specAt m c)"
  have heap: "length (MmHeap m') = length (MmHeap m)"
    "\<And>i. i < length (MmHeap m) \<Longrightarrow> MgSpec (MmHeap m' ! i) = MgSpec (MmHeap m ! i)"
    "\<And>i. i < length (MmHeap m) \<Longrightarrow> i \<noteq> old \<Longrightarrow> i \<noteq> c \<Longrightarrow> MmHeap m' ! i = MmHeap m ! i"
    "MgRefs (MmHeap m' ! old) = MgRefs (MmHeap m ! old)" "MgRetired (MmHeap m' ! old)" "MgDeleteOnRetire (MmHeap m' ! old)"
    "MgRefs (MmHeap m' ! c) = int 1" "\<not> MgRetired (MmHeap m' ! c)"
    and fields: "MmLoaded m' = AList.update name c (MmLoaded m)" "MmSpecs m' = AList.update name (specAt m c) (MmSpecs m)"
      "MmActive m' = Some c" "\<not> MmClosed m'"
    and closing: "map fst closing = (if U old = 0 then [old] else [])"
    using commit c refs range by (auto simp: commitReload_def bindGeneration_def makeActive_def name_def Let_def split: if_splits)
  have L: "distinct (map fst (MmLoaded m))" using ok by (simp add: managerOk_def loadedOk_def)
  have oldL: "(name, old) \<in> set (MmLoaded m)" using range(3) own(2) by (simp add: name_def)
  have setL: "set (MmLoaded m') = insert (name, c) {e \<in> set (MmLoaded m). snd e \<noteq> old}"
  proof -
    have "fst e = name \<longleftrightarrow> snd e = old" if "e \<in> set (MmLoaded m)" for e
      using managerOk_key [OF ok oldL that] .
    then show ?thesis unfolding fields(1) set_update_distinct [OF L] by blast
  qed
  have "managerOk m' (U(c := 1)) (own(c := False)) (D + (if U old = 0 then {#old#} else {#}))"
  proof (rule managerOk_activate [OF ok old c(2) c(1)])
    show "distinct (map fst (MmLoaded m'))" using L by (simp add: fields distinct_update_keys)
    show "SpName spec = k" if "(k, spec) \<in> set (MmSpecs m')" for k spec
      using that ok set_update_subset [of name "specAt m c" "MmSpecs m"] by (auto simp: fields name_def managerOk_def)
    show "k = SpName (specAt m c)" if "(k, c) \<in> set (MmLoaded m')" for k
      using that managerOk_entry(3) [OF ok, of k c] own(1) by (auto simp: setL name_def)
  qed (use heap c own fields(3,4) in \<open>auto simp: setL name_def\<close>)
  then show ?thesis
    using closing by (simp split: if_splits)
qed

definition retireAll :: "mcpDatabaseManager \<Rightarrow> mcpDatabaseManager" where
  "retireAll m = fold (\<lambda>(name, h). setManaged h (\<lambda>db. db\<lparr>MgRetired := True\<rparr>)) (MmLoaded m) m"

lemma retireAll_fields:
  "length (MmHeap (retireAll m)) = length (MmHeap m)" "MmSpecs (retireAll m) = MmSpecs m"
  "i < length (MmHeap m) \<Longrightarrow> MmHeap (retireAll m) ! i =
     (if i \<in> snd ` set (MmLoaded m) then (MmHeap m ! i)\<lparr>MgRetired := True\<rparr> else MmHeap m ! i)"
proof -
  have "length (MmHeap (fold (\<lambda>(name, h). setManaged h (\<lambda>db. db\<lparr>MgRetired := True\<rparr>)) xs m)) = length (MmHeap m)
    \<and> MmSpecs (fold (\<lambda>(name, h). setManaged h (\<lambda>db. db\<lparr>MgRetired := True\<rparr>)) xs m) = MmSpecs m
    \<and> (\<forall>i < length (MmHeap m). MmHeap (fold (\<lambda>(name, h). setManaged h (\<lambda>db. db\<lparr>MgRetired := True\<rparr>)) xs m) ! i =
     (if i \<in> snd ` set xs then (MmHeap m ! i)\<lparr>MgRetired := True\<rparr> else MmHeap m ! i))" for xs
    by (induction xs arbitrary: m) (auto, metis image_eqI snd_conv)
  from this [of "MmLoaded m"] show "length (MmHeap (retireAll m)) = length (MmHeap m)" "MmSpecs (retireAll m) = MmSpecs m"
    "i < length (MmHeap m) \<Longrightarrow> MmHeap (retireAll m) ! i =
     (if i \<in> snd ` set (MmLoaded m) then (MmHeap m ! i)\<lparr>MgRetired := True\<rparr> else MmHeap m ! i)"
    by (simp_all add: retireAll_def)
qed

lemma retireAll_counters:
  "MmEpoch (retireAll m) = MmEpoch m \<and> MmMaxPools (retireAll m) = MmMaxPools m \<and> MmMaxBudget (retireAll m) = MmMaxBudget m
    \<and> MmOpeningCount (retireAll m) = MmOpeningCount m \<and> MmOpeningBudget (retireAll m) = MmOpeningBudget m"
proof -
  have "MmEpoch (fold (\<lambda>(name, h). setManaged h (\<lambda>db. db\<lparr>MgRetired := True\<rparr>)) xs m) = MmEpoch m
    \<and> MmMaxPools (fold (\<lambda>(name, h). setManaged h (\<lambda>db. db\<lparr>MgRetired := True\<rparr>)) xs m) = MmMaxPools m
    \<and> MmMaxBudget (fold (\<lambda>(name, h). setManaged h (\<lambda>db. db\<lparr>MgRetired := True\<rparr>)) xs m) = MmMaxBudget m
    \<and> MmOpeningCount (fold (\<lambda>(name, h). setManaged h (\<lambda>db. db\<lparr>MgRetired := True\<rparr>)) xs m) = MmOpeningCount m
    \<and> MmOpeningBudget (fold (\<lambda>(name, h). setManaged h (\<lambda>db. db\<lparr>MgRetired := True\<rparr>)) xs m) = MmOpeningBudget m" for xs
    by (induction xs arbitrary: m) auto
  then show ?thesis by (simp add: retireAll_def)
qed

lemma managerOk_close:
  assumes ok: "managerOk m U own D" and step: "closeManager m = (closing, m')"
  shows "managerOk m' U own (D + mset (map fst closing))"
proof (cases "MmClosed m")
  case True then show ?thesis using ok step by (simp add: closeManager_def)
next
  case False
  let ?idle = "\<lambda>(name :: bytes, h). MgRefs (MmHeap (retireAll m) ! h) = 0"
  have m': "m' = (retireAll m)\<lparr>MmClosed := True, MmActive := None, MmLoaded := filter (\<lambda>e. \<not> ?idle e) (MmLoaded m)\<rparr>"
    and closing: "map fst closing = map snd (filter ?idle (MmLoaded m))"
    using step False by (auto simp: closeManager_def Let_def retireAll_def [symmetric] o_def case_prod_beta)
  have refs: "MgRefs (MmHeap (retireAll m) ! h) = int (U h)" if "h < length (MmHeap m)" for h
    using ok retireAll_fields(3) [OF that] that by (simp add: managerOk_def holdersOk_def)
  have idle: "?idle (k, h) \<longleftrightarrow> U h = 0" if "(k, h) \<in> set (MmLoaded m)" for k h
    using refs [OF managerOk_entry(1) [OF ok that]] by simp
  have names: "distinct (map fst (MmLoaded m))" using ok by (simp add: managerOk_def loadedOk_def)
  have single: "distinct (map snd (MmLoaded m))"
  proof -
    have "map (\<lambda>h. SpName (specAt m h)) (map snd (MmLoaded m)) = map fst (MmLoaded m)"
      using managerOk_entry(2) [OF ok] by auto
    then show ?thesis using names distinct_map [of "\<lambda>h. SpName (specAt m h)" "map snd (MmLoaded m)"] by metis
  qed
  obtain active where active: "MmActive m = Some active" using ok False by (auto simp: managerOk_def retiredOk_def)
  note range = managerOk_active [OF ok active]
  have closes: "count (mset (map fst closing)) h = (if MmActive m = Some h \<and> U h = 0 then 1 else 0)" for h
  proof -
    have "h \<in> snd ` {e \<in> set (MmLoaded m). ?idle e} \<longleftrightarrow> MmActive m = Some h \<and> U h = 0"
    proof
      assume "h \<in> snd ` {e \<in> set (MmLoaded m). ?idle e}"
      then obtain k where k: "(k, h) \<in> set (MmLoaded m)" "?idle (k, h)" by auto
      then show "MmActive m = Some h \<and> U h = 0" using idle [OF k(1)] managerOk_entry(4) [OF ok k(1)] by auto
    next
      assume h: "MmActive m = Some h \<and> U h = 0"
      then have "(SpName (specAt m h), h) \<in> set (MmLoaded m)" using managerOk_active(3) [OF ok] by simp
      then show "h \<in> snd ` {e \<in> set (MmLoaded m). ?idle e}" using idle h by force
    qed
    then show ?thesis
      using distinct_map_filter [OF single] by (simp add: closing distinct_count_atmost_1)
  qed
  have "exactlyOnce m' U own (D + mset (map fst closing))"
    using ok closes range(1,2) active by (auto simp: managerOk_def exactlyOnce_def m' retireAll_fields)
  moreover have "holdersOk m' U own"
    using ok refs by (auto simp: managerOk_def holdersOk_def m' retireAll_fields)
  moreover have "loadedOk m' U own"
    unfolding loadedOk_def
  proof (intro conjI allI impI)
    show "distinct (map fst (MmLoaded m'))" using names by (simp add: m' distinct_map_filter)
    fix k h assume "(k, h) \<in> set (MmLoaded m')"
    then have there: "(k, h) \<in> set (MmLoaded m)" "U h > 0" using idle by (auto simp: m')
    note entry = managerOk_entry [OF ok there(1)]
    show "h < length (MmHeap m')" "SpName (specAt m' h) = k" "\<not> own h" "MmActive m' = Some h \<or> U h > 0"
      using entry there(2) by (auto simp: m' retireAll_fields)
  qed
  moreover have "retiredOk m' U own"
  proof -
    have "MgRetired (MmHeap m' ! h) \<and> ((SpName (specAt m' h), h) \<in> set (MmLoaded m') \<or> MgDeleteOnRetire (MmHeap m' ! h))"
      if h: "h < length (MmHeap m)" "\<not> own h" "U h > 0" for h
    proof (cases "(SpName (specAt m h), h) \<in> set (MmLoaded m)")
      case True
      then have "h \<in> snd ` set (MmLoaded m)" by force
      then show ?thesis using True h idle [OF True] by (simp add: m' retireAll_fields)
    next
      case False
      then have "MmActive m \<noteq> Some h" using managerOk_active(3) [OF ok] by auto
      then show ?thesis using ok h False by (auto simp: managerOk_def retiredOk_def m' retireAll_fields)
    qed
    then show ?thesis by (auto simp: retiredOk_def m' retireAll_fields)
  qed
  ultimately show ?thesis
    using ok by (simp add: managerOk_def m' retireAll_fields)
qed

section \<open>Pools and page cache\<close>

definition loadedBudget :: "mcpDatabaseManager \<Rightarrow> int" where
  "loadedBudget m = (\<Sum>(_, h)\<leftarrow>MmLoaded m. mcpDatabaseCacheBudget (specAt m h))"

definition openingPools :: "int \<Rightarrow> int" where
  "openingPools r = (if r > 0 then 1 else 0)"

text \<open>\<open>r\<close> is the page cache that the switch at the gate has reserved.\<close>

definition budgetOk :: "mcpDatabaseManager \<Rightarrow> int \<Rightarrow> bool" where
  "budgetOk m r \<longleftrightarrow>
     0 \<le> r \<and> MmOpeningCount m = openingPools r \<and> MmOpeningBudget m = r
     \<and> int (length (MmLoaded m)) + openingPools r \<le> MmMaxPools m \<and> loadedBudget m + r \<le> MmMaxBudget m"

lemma readOptions_positive: "RoConnections (SQLiteReadOptionsOf cfg) > 0" "RoCacheMBPerConnection (SQLiteReadOptionsOf cfg) > 0"
  by (simp_all add: SQLiteReadOptionsOf_def normalizeSQLiteReadOptions_def orDefault_def DefaultSQLiteReadConnections_def
      DefaultSQLiteCacheMBPerConnection_def)

lemma cacheBudget_positive: "mcpDatabaseCacheBudget spec > 0"
  using readOptions_positive [of "SpConfig spec"] by (simp add: mcpDatabaseCacheBudget_def Let_def)

text \<open>The test by division bounds the product without computing it.\<close>

lemma fits_bounds_product:
  assumes "mcpDatabaseFitsCacheBudget (SpConfig spec) b"
  shows "mcpDatabaseCacheBudget spec \<le> b"
proof -
  let ?o = "SQLiteReadOptionsOf (SpConfig spec)"
  have c: "0 < RoCacheMBPerConnection ?o" "RoConnections ?o \<le> b div RoCacheMBPerConnection ?o"
    using assms by (simp_all add: mcpDatabaseFitsCacheBudget_def Let_def)
  then have "RoConnections ?o * RoCacheMBPerConnection ?o \<le> b div RoCacheMBPerConnection ?o * RoCacheMBPerConnection ?o"
    by (intro mult_right_mono) simp_all
  also have "\<dots> \<le> b" using c(1) by (simp add: minus_mod_eq_div_mult [symmetric])
  finally show ?thesis by (simp add: mcpDatabaseCacheBudget_def Let_def)
qed

text \<open>What every section does that leaves the gate alone: it loads nothing, and unloads only databases without
  holders.\<close>

definition quietly :: "mcpDatabaseManager \<Rightarrow> (nat \<Rightarrow> nat) \<Rightarrow> mcpDatabaseManager \<Rightarrow> bool" where
  "quietly m U' m' \<longleftrightarrow>
     length (MmHeap m') = length (MmHeap m) \<and> (\<forall>h < length (MmHeap m). specAt m' h = specAt m h)
     \<and> MmSpecs m' = MmSpecs m \<and> MmEpoch m' = MmEpoch m \<and> MmMaxPools m' = MmMaxPools m \<and> MmMaxBudget m' = MmMaxBudget m
     \<and> MmOpeningCount m' = MmOpeningCount m \<and> MmOpeningBudget m' = MmOpeningBudget m
     \<and> (MmActive m' = MmActive m \<or> MmActive m' = None) \<and> (\<exists>P. MmLoaded m' = filter P (MmLoaded m))
     \<and> (\<forall>k h. (k, h) \<in> set (MmLoaded m) \<longrightarrow> U' h > 0 \<longrightarrow> (k, h) \<in> set (MmLoaded m'))"

lemma loadedBudget_cong:
  assumes "\<And>k h. (k, h) \<in> set (MmLoaded m) \<Longrightarrow> specAt m h = specAt n h"
  shows "loadedBudget m = (\<Sum>(_, h)\<leftarrow>MmLoaded m. mcpDatabaseCacheBudget (specAt n h))"
  unfolding loadedBudget_def by (rule arg_cong [of _ _ sum_list], rule map_cong) (auto simp: assms)

lemma budget_shrink:
  assumes budget: "budgetOk m r" and loaded: "MmLoaded m' = filter P (MmLoaded m)"
    and specs: "\<And>k h. (k, h) \<in> set (MmLoaded m) \<Longrightarrow> specAt m' h = specAt m h"
    and same: "MmMaxPools m' = MmMaxPools m" "MmMaxBudget m' = MmMaxBudget m"
      "MmOpeningCount m' = MmOpeningCount m" "MmOpeningBudget m' = MmOpeningBudget m"
  shows "budgetOk m' r"
proof -
  have "loadedBudget m' = (\<Sum>(_, h)\<leftarrow>filter P (MmLoaded m). mcpDatabaseCacheBudget (specAt m h))"
    unfolding loaded [symmetric] by (rule loadedBudget_cong) (auto simp: loaded specs)
  also have "\<dots> \<le> loadedBudget m"
    unfolding loadedBudget_def by (rule sum_filter_le) (auto simp: cacheBudget_positive less_imp_le)
  finally have "loadedBudget m' \<le> loadedBudget m" .
  moreover have "length (MmLoaded m') \<le> length (MmLoaded m)" by (simp add: loaded)
  ultimately show ?thesis using budget same by (simp add: budgetOk_def)
qed

lemma quietly_budget:
  assumes ok: "managerOk m U own D" and budget: "budgetOk m r" and step: "quietly m U' m'"
  shows "budgetOk m' r"
proof -
  obtain P where P: "MmLoaded m' = filter P (MmLoaded m)" using step by (auto simp: quietly_def)
  have "specAt m' h = specAt m h" if "(k, h) \<in> set (MmLoaded m)" for k h
    using step managerOk_entry(1) [OF ok that] by (simp add: quietly_def)
  then show ?thesis
    using budget_shrink [OF budget P] step by (simp add: quietly_def)
qed

text \<open>Activating a candidate swaps its reservation for a loaded pool.\<close>

lemma activated_fields:
  fixes m r c old name newlyOpened
  defines "m4 \<equiv> makeActive name c (settleHolds c newlyOpened r (swapRetired old c m))"
  shows "length (MmHeap m4) = length (MmHeap m)" and "h < length (MmHeap m) \<Longrightarrow> specAt m4 h = specAt m h"
    and "MmLoaded m4 = AList.update name c (MmLoaded m)" and "MmMaxPools m4 = MmMaxPools m" and "MmMaxBudget m4 = MmMaxBudget m"
    and "MmActive m4 = Some c" and "MmEpoch m4 = MmEpoch m + 1" and "MmClosed m4 = MmClosed m"
    and "budgetOk m r \<Longrightarrow> MmOpeningCount m4 = 0" and "budgetOk m r \<Longrightarrow> MmOpeningBudget m4 = 0"
  by (auto simp: m4_def makeActive_def settleHolds_def swapRetired_def releaseOpeningReservationLocked_def Let_def budgetOk_def
      openingPools_def)

lemma commitSwitch_forms:
  assumes "commitSwitch name c newlyOpened r m = Some (closing, m')"
  obtains old P where "MmActive m = Some old" "\<not> MmClosed m"
    "m' = (makeActive name c (settleHolds c newlyOpened r (swapRetired old c m)))
       \<lparr>MmLoaded := filter P (AList.update name c (MmLoaded m))\<rparr>"
proof -
  obtain old where old: "MmActive m = Some old" "\<not> MmClosed m"
    using assms by (auto simp: commitSwitch_def split: bool.splits option.splits)
  define m4 where "m4 = makeActive name c (settleHolds c newlyOpened r (swapRetired old c m))"
  have "m' = m4 \<or> m' = m4\<lparr>MmLoaded := AList.delete (SpName (specAt m4 old)) (MmLoaded m4)\<rparr>"
    using assms old by (auto simp: commitSwitch_def unloadIdle_def m4_def [symmetric] split: if_splits)
  moreover have "m4\<lparr>MmLoaded := filter (\<lambda>_. True) (MmLoaded m4)\<rparr> = m4" by simp
  ultimately have "\<exists>P. m' = m4\<lparr>MmLoaded := filter P (MmLoaded m4)\<rparr>"
    by (metis AList.delete_eq)
  then show thesis using that old by (auto simp: m4_def activated_fields(3))
qed

lemma budget_commitSwitch:
  assumes ok: "managerOk m U own D" and budget: "budgetOk m r" and cand: "candidateOk m U own name c newlyOpened"
    and r: "r = (if newlyOpened then mcpDatabaseCacheBudget (specAt m c) else 0)"
    and commit: "commitSwitch name c newlyOpened r m = Some (closing, m')"
  shows "budgetOk m' 0"
proof -
  obtain old P where m': "m' = (makeActive name c (settleHolds c newlyOpened r (swapRetired old c m)))
       \<lparr>MmLoaded := filter P (AList.update name c (MmLoaded m))\<rparr>"
    using commit by (rule commitSwitch_forms)
  define m4 where "m4 = makeActive name c (settleHolds c newlyOpened r (swapRetired old c m))"
  note fields = activated_fields [where m = m and r = r and c = c and old = old and name = name and newlyOpened = newlyOpened,
      folded m4_def]
  have L: "distinct (map fst (MmLoaded m))" using ok by (simp add: managerOk_def loadedOk_def)
  have "specAt m4 h = specAt m h" if "(k, h) \<in> set (MmLoaded m4)" for k h
    using that set_update_subset [of name c "MmLoaded m"] managerOk_entry(1) [OF ok, of k h] cand
    by (auto simp: fields(3) candidateOk_def intro!: fields(2))
  then have "loadedBudget m4 = (\<Sum>(_, h)\<leftarrow>AList.update name c (MmLoaded m). mcpDatabaseCacheBudget (specAt m h))"
    using loadedBudget_cong [of m4 m] by (simp add: fields(3))
  also have "\<dots> = loadedBudget m + r"
  proof (cases newlyOpened)
    case True
    then show ?thesis using cand r by (simp add: candidateOk_def update_new loadedBudget_def)
  next
    case False
    then show ?thesis using cand r update_present [OF L] by (simp add: candidateOk_def loadedBudget_def)
  qed
  finally have sum: "loadedBudget m4 = loadedBudget m + r" .
  have size: "int (length (MmLoaded m4)) = int (length (MmLoaded m)) + openingPools r"
  proof (cases newlyOpened)
    case True
    then show ?thesis using cand r cacheBudget_positive
      by (simp add: fields(3) candidateOk_def update_new openingPools_def)
  next
    case False
    then show ?thesis using cand r update_present [OF L] by (simp add: fields(3) candidateOk_def openingPools_def)
  qed
  have "budgetOk m4 0"
    using budget sum size fields(4,5,9,10) by (simp add: budgetOk_def openingPools_def)
  then show ?thesis
    unfolding m' m4_def [symmetric] by (rule budget_shrink [where P = P]) (simp_all add: fields(3))
qed

lemma commitReload_forms:
  assumes "commitReload old c m = Some (identity, closing, m')"
  shows "MmActive m = Some old" and "\<not> MmClosed m" and "identity = identityLocked m' c"
    and "length (MmHeap m') = length (MmHeap m)" and "h < length (MmHeap m) \<Longrightarrow> specAt m' h = specAt m h"
    and "c < length (MmHeap m) \<Longrightarrow> MmLoaded m' = AList.update (SpName (specAt m c)) c (MmLoaded m)"
    and "MmActive m' = Some c" and "MmEpoch m' = MmEpoch m + 1" and "MmClosed m' = MmClosed m"
    and "MmMaxPools m' = MmMaxPools m" and "MmMaxBudget m' = MmMaxBudget m"
    and "MmOpeningCount m' = MmOpeningCount m" and "MmOpeningBudget m' = MmOpeningBudget m"
  using assms by (auto simp: commitReload_def bindGeneration_def makeActive_def Let_def split: if_splits)

lemma budget_commitReload:
  assumes ok: "managerOk m U own D" and budget: "budgetOk m r" and own: "own c"
    and same: "SpName (specAt m c) = SpName (specAt m old)" "mcpDatabaseCacheBudget (specAt m c) = mcpDatabaseCacheBudget (specAt m old)"
    and commit: "commitReload old c m = Some (identity, closing, m')"
  shows "budgetOk m' r"
proof -
  note forms = commitReload_forms [OF commit]
  note range = managerOk_active [OF ok forms(1)]
  have c: "c < length (MmHeap m)" using ok own by (auto simp: managerOk_def holdersOk_def not_le [symmetric])
  have L: "distinct (map fst (MmLoaded m))" using ok by (simp add: managerOk_def loadedOk_def)
  let ?name = "SpName (specAt m c)"
  have loaded: "MmLoaded m' = AList.update ?name c (MmLoaded m)" using forms(6) c .
  have there: "(?name, old) \<in> set (MmLoaded m)" using range(3) same(1) by simp
  have "specAt m' h = specAt m h" if "(k, h) \<in> set (MmLoaded m')" for k h
    using that set_update_subset [of ?name c "MmLoaded m"] managerOk_entry(1) [OF ok, of k h] c
    by (auto simp: loaded intro!: forms(5))
  then have "loadedBudget m' = (\<Sum>(_, h)\<leftarrow>AList.update ?name c (MmLoaded m). mcpDatabaseCacheBudget (specAt m h))"
    using loadedBudget_cong [of m' m] by (simp add: loaded)
  also have "\<dots> = loadedBudget m"
    unfolding loadedBudget_def by (rule update_replaced(1) [OF L there]) (simp add: same(2))
  finally have "loadedBudget m' = loadedBudget m" .
  moreover have "length (MmLoaded m') = length (MmLoaded m)"
    unfolding loaded by (rule update_replaced(2) [OF L there, of "\<lambda>_. 0"]) simp
  ultimately show ?thesis using budget forms(10-13) by (simp add: budgetOk_def)
qed

lemma quietly_candidate:
  assumes cand: "candidateOk m U own name c newlyOpened" and step: "quietly m U' m'"
    and held: "\<not> newlyOpened \<Longrightarrow> U' c > 0"
  shows "candidateOk m' U' own name c newlyOpened"
proof -
  have "fst ` set (MmLoaded m') \<subseteq> fst ` set (MmLoaded m)" using step by (auto simp: quietly_def)
  then have "newlyOpened \<Longrightarrow> name \<notin> fst ` set (MmLoaded m')" using cand by (auto simp: candidateOk_def)
  moreover have "(name, c) \<in> set (MmLoaded m')" if "\<not> newlyOpened"
    using cand step held [OF that] that by (simp add: candidateOk_def quietly_def)
  moreover have "c < length (MmHeap m')" "MmActive m' \<noteq> Some c" "SpName (specAt m' c) = name" "newlyOpened \<Longrightarrow> own c"
    using cand step by (auto simp: candidateOk_def quietly_def)
  ultimately show ?thesis using held by (simp add: candidateOk_def)
qed

lemma quietly_hold: "quietly m U' (setManaged h (addRefs k) m)"
  by (auto simp: quietly_def intro!: exI [of _ "\<lambda>_. True"])

lemma quietly_release:
  assumes ok: "managerOk m U own D" and h: "U h > 0" and rel: "releaseDatabase h m = (closing, m')"
  shows "quietly m (U(h := U h - 1)) m'"
  using ok h rel
proof (cases rule: release_cases)
  case keeps
  then show ?thesis using quietly_hold by simp
next
  case retires
  have range: "h < length (MmHeap m)" using managerOk_held(1) [OF ok] h by simp
  have kept: "set (withoutDatabase h m) = {e \<in> set (MmLoaded m). snd e \<noteq> h}"
    using managerOk_unload(1) [OF ok range] by (simp add: withoutDatabase_def Let_def)
  have "\<exists>P. withoutDatabase h m = filter P (MmLoaded m)"
  proof (cases "map_of (MmLoaded m) (SpName (specAt m h)) = Some h")
    case True then show ?thesis by (auto simp: withoutDatabase_def Let_def AList.delete_eq)
  next
    case False then show ?thesis by (auto simp: withoutDatabase_def Let_def intro!: exI [of _ "\<lambda>_. True"])
  qed
  then show ?thesis
    using retires(2,3) kept by (auto simp: quietly_def split: if_splits)
qed

lemma quietly_close:
  assumes ok: "managerOk m U own D" and step: "closeManager m = (closing, m')"
  shows "quietly m U m'"
proof (cases "MmClosed m")
  case True
  then show ?thesis using step by (auto simp: closeManager_def quietly_def intro!: exI [of _ "\<lambda>_. True"])
next
  case False
  let ?idle = "\<lambda>(name :: bytes, h). MgRefs (MmHeap (retireAll m) ! h) = 0"
  have m': "m' = (retireAll m)\<lparr>MmClosed := True, MmActive := None, MmLoaded := filter (\<lambda>e. \<not> ?idle e) (MmLoaded m)\<rparr>"
    using step False by (auto simp: closeManager_def Let_def retireAll_def [symmetric])
  have fields: "MmEpoch (retireAll m) = MmEpoch m" "MmMaxPools (retireAll m) = MmMaxPools m" "MmMaxBudget (retireAll m) = MmMaxBudget m"
    "MmOpeningCount (retireAll m) = MmOpeningCount m" "MmOpeningBudget (retireAll m) = MmOpeningBudget m"
    using retireAll_counters by simp_all
  have "MgRefs (MmHeap (retireAll m) ! h) = int (U h)" if "(k, h) \<in> set (MmLoaded m)" for k h
    using ok retireAll_fields(3) [of h m] managerOk_entry(1) [OF ok that] by (simp add: managerOk_def holdersOk_def)
  then show ?thesis
    by (auto simp: quietly_def m' retireAll_fields fields)
qed

end
