(* ===== verification/DatabaseManagerTheorems.thy ===== *)
theory DatabaseManagerTheorems
  imports DatabaseManagerFacts
begin

text \<open>
  The reachable states of the database manager: every action keeps the invariant, and what follows from it for
  the callers. Leases stand until they are released, pools are closed exactly when nobody needs them, and the
  pools and page cache that are accounted for stay within the process limits.
\<close>

section \<open>The invariant of the whole\<close>

fun pinnedBy :: "gateStage \<Rightarrow> nat \<Rightarrow> bool" where
  "pinnedBy (SwitchChecks name c newlyOpened r) h \<longleftrightarrow> \<not> newlyOpened \<and> h = c"
| "pinnedBy _ h \<longleftrightarrow> False"

fun ownedBy :: "gateStage \<Rightarrow> nat \<Rightarrow> bool" where
  "ownedBy (SwitchChecks name c newlyOpened r) h \<longleftrightarrow> newlyOpened \<and> h = c"
| "ownedBy (ReloadChecks old c) h \<longleftrightarrow> h = c"
| "ownedBy (Undoes (Some c) r) h \<longleftrightarrow> h = c"
| "ownedBy _ h \<longleftrightarrow> False"

fun reservedBy :: "gateStage \<Rightarrow> int" where
  "reservedBy (SwitchOpens spec r) = r"
| "reservedBy (SwitchChecks name c newlyOpened r) = r"
| "reservedBy (Undoes c r) = r"
| "reservedBy _ = 0"

definition leaseCount :: "databaseLease list \<Rightarrow> nat \<Rightarrow> nat" where
  "leaseCount ls h = length (filter (\<lambda>l. LsDatabase l = h \<and> \<not> LsReleased l) ls)"

definition holders :: "databases \<Rightarrow> nat \<Rightarrow> nat" where
  "holders d h = leaseCount (dbLeases d) h + (if pinnedBy (dbGate d) h then 1 else 0)"

definition decided :: "databases \<Rightarrow> nat multiset" where
  "decided d = mset (map fst (dbClosing d)) + mset (dbClosed d)"

fun gateOk :: "gateStage \<Rightarrow> mcpDatabaseManager \<Rightarrow> (nat \<Rightarrow> nat) \<Rightarrow> (nat \<Rightarrow> bool) \<Rightarrow> bool" where
  "gateOk (SwitchOpens spec r) m U own \<longleftrightarrow> r = mcpDatabaseCacheBudget spec \<and> SpName spec \<notin> fst ` set (MmLoaded m)"
| "gateOk (SwitchChecks name c newlyOpened r) m U own \<longleftrightarrow>
     candidateOk m U own name c newlyOpened \<and> r = (if newlyOpened then mcpDatabaseCacheBudget (specAt m c) else 0)"
| "gateOk (ReloadStarts old) m U own \<longleftrightarrow> old < length (MmHeap m)"
| "gateOk (ReloadOpens old spec) m U own \<longleftrightarrow>
     old < length (MmHeap m) \<and> SpName spec = SpName (specAt m old) \<and> SpConfig spec = SpConfig (specAt m old)"
| "gateOk (ReloadChecks old c) m U own \<longleftrightarrow>
     old < length (MmHeap m) \<and> c < length (MmHeap m) \<and> SpName (specAt m c) = SpName (specAt m old)
     \<and> SpConfig (specAt m c) = SpConfig (specAt m old)"
| "gateOk _ m U own \<longleftrightarrow> True"

definition leaseOk :: "mcpDatabaseManager \<Rightarrow> nat \<times> mcpDatabaseIdentity \<Rightarrow> bool" where
  "leaseOk m = (\<lambda>(h, identity).
     h < length (MmHeap m) \<and> IdName identity = SpName (specAt m h) \<and> IdPath identity = SpPath (specAt m h)
     \<and> IdEpoch identity \<le> MmEpoch m \<and> (IdEpoch identity = MmEpoch m \<longrightarrow> MmActive m = None \<or> MmActive m = Some h))"

definition bindings :: "databases \<Rightarrow> (nat \<times> mcpDatabaseIdentity) list" where
  "bindings d = map (\<lambda>l. (LsDatabase l, LsIdentity l)) (dbLeases d)"

definition oneEpochOneDatabase :: "(nat \<times> mcpDatabaseIdentity) list \<Rightarrow> bool" where
  "oneEpochOneDatabase bs \<longleftrightarrow> (\<forall>x \<in> set bs. \<forall>y \<in> set bs. IdEpoch (snd x) = IdEpoch (snd y) \<longrightarrow> fst x = fst y)"

definition leasesOk :: "mcpDatabaseManager \<Rightarrow> (nat \<times> mcpDatabaseIdentity) list \<Rightarrow> bool" where
  "leasesOk m bs \<longleftrightarrow> (\<forall>b \<in> set bs. leaseOk m b) \<and> oneEpochOneDatabase bs"

definition databasesOk :: "databases \<Rightarrow> bool" where
  "databasesOk d \<longleftrightarrow>
     managerOk (dbManager d) (holders d) (ownedBy (dbGate d)) (decided d) \<and> budgetOk (dbManager d) (reservedBy (dbGate d))
     \<and> gateOk (dbGate d) (dbManager d) (holders d) (ownedBy (dbGate d)) \<and> leasesOk (dbManager d) (bindings d)"

lemma leaseCount_simps [simp]:
  "leaseCount [] h = 0" "leaseCount (ls @ ms) h = leaseCount ls h + leaseCount ms h"
  "leaseCount [l] h = (if LsDatabase l = h \<and> \<not> LsReleased l then 1 else 0)"
  by (simp_all add: leaseCount_def)

lemma length_filter_update:
  assumes "k < length xs"
  shows "length (filter P (xs[k := y])) + (if P (xs ! k) then 1 else 0) = length (filter P xs) + (if P y then 1 else 0)"
proof -
  have "length (filter P xs) = length (filter P (take k xs @ xs ! k # drop (Suc k) xs))"
    using id_take_nth_drop [OF assms] by simp
  then show ?thesis using assms by (simp add: upd_conv_take_nth_drop)
qed

lemma leaseCount_release:
  assumes "k < length ls" and "\<not> LsReleased (ls ! k)"
  shows "leaseCount (ls[k := (ls ! k)\<lparr>LsReleased := True\<rparr>]) = (leaseCount ls)(LsDatabase (ls ! k) := leaseCount ls (LsDatabase (ls ! k)) - 1)"
    and "leaseCount ls (LsDatabase (ls ! k)) > 0"
proof -
  let ?l = "(ls ! k)\<lparr>LsReleased := True\<rparr>"
  have "leaseCount (ls[k := ?l]) h + (if LsDatabase (ls ! k) = h then 1 else 0) = leaseCount ls h" for h
    using length_filter_update [OF assms(1), of "\<lambda>l. LsDatabase l = h \<and> \<not> LsReleased l" ?l] assms(2) by (simp add: leaseCount_def)
  from this [of "LsDatabase (ls ! k)"] this
  show "leaseCount (ls[k := ?l]) = (leaseCount ls)(LsDatabase (ls ! k) := leaseCount ls (LsDatabase (ls ! k)) - 1)"
    "leaseCount ls (LsDatabase (ls ! k)) > 0"
    by (auto simp: fun_eq_iff split: if_splits) (metis add_0_right)
qed

text \<open>Sections that leave the gate alone.\<close>

lemma gateOk_quietly:
  assumes ok: "managerOk m U own D" and gate: "gateOk g m U own" and step: "quietly m U' m'"
    and held: "\<And>c. pinnedBy g c \<Longrightarrow> U' c > 0"
  shows "gateOk g m' U' own"
proof (cases g)
  case (SwitchOpens spec r)
  have "fst ` set (MmLoaded m') \<subseteq> fst ` set (MmLoaded m)" using step by (auto simp: quietly_def)
  then show ?thesis using gate by (auto simp: SwitchOpens)
next
  case (SwitchChecks name c newlyOpened r)
  then have "candidateOk m' U' own name c newlyOpened"
    using gate held by (intro quietly_candidate [OF _ step]) auto
  moreover have "specAt m' c = specAt m c" using gate step SwitchChecks by (simp add: candidateOk_def quietly_def)
  ultimately show ?thesis using gate SwitchChecks by simp
qed (use gate step in \<open>auto simp: quietly_def\<close>)

lemma leasesOk_later:
  assumes ok: "leasesOk m bs" and heap: "length (MmHeap m) \<le> length (MmHeap m')"
    and specs: "\<And>h. h < length (MmHeap m) \<Longrightarrow> specAt m' h = specAt m h"
    and epoch: "MmEpoch m < MmEpoch m' \<or> MmEpoch m = MmEpoch m' \<and> (MmActive m' = MmActive m \<or> MmActive m' = None)"
  shows "leasesOk m' bs"
proof -
  have "leaseOk m' b" if "leaseOk m b" for b
    using that heap specs epoch by (cases b) (auto simp: leaseOk_def)
  then show ?thesis using ok by (simp add: leasesOk_def)
qed

lemma oneEpoch_append:
  assumes "oneEpochOneDatabase bs" and "\<And>b. b \<in> set bs \<Longrightarrow> IdEpoch (snd b) = IdEpoch (snd c) \<Longrightarrow> fst b = fst c"
  shows "oneEpochOneDatabase (bs @ [c])"
  unfolding oneEpochOneDatabase_def
proof (intro ballI impI)
  fix x y assume "x \<in> set (bs @ [c])" "y \<in> set (bs @ [c])" and same: "IdEpoch (snd x) = IdEpoch (snd y)"
  then have "x \<in> set bs \<or> x = c" "y \<in> set bs \<or> y = c" by auto
  then show "fst x = fst y"
    using assms(1) assms(2) [of x] assms(2) [of y] same unfolding oneEpochOneDatabase_def by metis
qed

lemma leasesOk_new:
  assumes ok: "leasesOk m bs" and range: "h < length (MmHeap m)"
    and current: "MmActive m = Some h"
  shows "leasesOk m (bs @ [(h, identityLocked m h)])"
proof -
  have "leaseOk m (h, identityLocked m h)"
    using range current by (simp add: leaseOk_def identityLocked_def)
  moreover have "fst b = h" if "b \<in> set bs" "IdEpoch (snd b) = MmEpoch m" for b
    using ok that current by (cases b) (auto simp: leasesOk_def leaseOk_def)
  moreover have "IdEpoch (identityLocked m h) = MmEpoch m" by (simp add: identityLocked_def)
  ultimately have "oneEpochOneDatabase (bs @ [(h, identityLocked m h)])" "leaseOk m (h, identityLocked m h)"
    using ok by (auto simp: leasesOk_def intro!: oneEpoch_append)
  then show ?thesis
    using ok by (simp add: leasesOk_def)
qed

lemma leasesOk_quietly: "leasesOk m bs \<Longrightarrow> quietly m U' m' \<Longrightarrow> leasesOk m' bs"
  by (erule leasesOk_later) (auto simp: quietly_def)

lemma databasesOkD:
  assumes "databasesOk d"
  shows "managerOk (dbManager d) (holders d) (ownedBy (dbGate d)) (decided d)" and "budgetOk (dbManager d) (reservedBy (dbGate d))"
    and "gateOk (dbGate d) (dbManager d) (holders d) (ownedBy (dbGate d))" and "leasesOk (dbManager d) (bindings d)"
  using assms by (simp_all add: databasesOk_def)

lemma databasesOkI:
  assumes "dbManager d = m" "dbGate d = g" "holders d = U" "ownedBy g = own" "decided d = D" "reservedBy g = r" "bindings d = bs"
    and "managerOk m U own D" and "budgetOk m r" and "gateOk g m U own" and "leasesOk m bs"
  shows "databasesOk d"
  using assms by (simp add: databasesOk_def)

lemma databasesOk_same:
  assumes "decided d' = decided d" "dbManager d' = dbManager d" "dbGate d' = dbGate d" "dbLeases d' = dbLeases d" and "databasesOk d"
  shows "databasesOk d'"
proof -
  have "holders d' = holders d" "bindings d' = bindings d" using assms by (simp_all add: holders_def bindings_def fun_eq_iff)
  then show ?thesis using assms by (simp add: databasesOk_def)
qed

text \<open>A critical section that leaves the gate alone keeps the invariant.\<close>

lemma databasesOk_quietly:
  assumes ok: "databasesOk d" and manager: "managerOk (dbManager d') (holders d') (ownedBy (dbGate d)) (decided d')"
    and step: "quietly (dbManager d) (holders d') (dbManager d')" and gate: "dbGate d' = dbGate d"
    and leases: "leasesOk (dbManager d') (bindings d')"
  shows "databasesOk d'"
proof -
  note parts = databasesOkD [OF ok]
  have "pinnedBy (dbGate d) c \<Longrightarrow> holders d' c > 0" for c by (simp add: holders_def gate)
  then have "gateOk (dbGate d) (dbManager d') (holders d') (ownedBy (dbGate d))"
    by (rule gateOk_quietly [OF parts(1,3) step])
  then show ?thesis
    using manager quietly_budget [OF parts(1,2) step] leases by (simp add: databasesOk_def gate)
qed

lemma databasesOk_takeLease:
  assumes ok: "databasesOk d"
  shows "databasesOk (takeLease d)"
proof (cases "acquireDatabase (dbManager d)")
  case (Pair granted m)
  note parts = databasesOkD [OF ok]
  show ?thesis
  proof (cases granted)
    case (Inl e)
    then show ?thesis using ok Pair by (auto simp: takeLease_def acquireDatabase_def split: option.splits if_splits)
  next
    case (Inr lease)
    then obtain h where h: "MmActive (dbManager d) = Some h" "lease = (h, identityLocked (dbManager d) h)"
      "m = setManaged h (addRefs 1) (dbManager d)"
      using Pair by (auto simp: acquireDatabase_def split: option.splits if_splits)
    let ?l = "\<lparr>LsDatabase = h, LsIdentity = identityLocked (dbManager d) h, LsReleased = False\<rparr>"
    let ?d = "d\<lparr>dbManager := m, dbLeases := dbLeases d @ [?l]\<rparr>"
    have step: "takeLease d = ?d" using Pair Inr h by (simp add: takeLease_def)
    have after: "holders ?d = (holders d)(h := Suc (holders d h))" by (auto simp: holders_def fun_eq_iff)
    have quiet: "quietly (dbManager d) (holders ?d) m" unfolding h(3) by (rule quietly_hold)
    show ?thesis unfolding step
    proof (rule databasesOk_quietly [OF ok])
      have "decided ?d = decided d" "dbManager ?d = setManaged h (addRefs 1) (dbManager d)" by (simp_all add: decided_def h(3))
      then show "managerOk (dbManager ?d) (holders ?d) (ownedBy (dbGate d)) (decided ?d)"
        using managerOk_hold [OF parts(1), of h] h(1) by (simp only: after simp_thms)
      have "leasesOk m (bindings d @ [(h, identityLocked (dbManager d) h)])"
        using leasesOk_new [OF parts(4)] managerOk_active(1) [OF parts(1)] h(1) leasesOk_quietly [OF _ quiet] by blast
      then show "leasesOk (dbManager ?d) (bindings ?d)" by (simp add: bindings_def)
    qed (use quiet in simp_all)
  qed
qed

lemma databasesOk_release:
  assumes ok: "databasesOk d"
  shows "databasesOk (releaseLease k d)"
proof (cases "k < length (dbLeases d) \<and> \<not> LsReleased (dbLeases d ! k)")
  case False then show ?thesis using ok unfolding releaseLease_def by (simp only: if_False)
next
  case True
  note parts = databasesOkD [OF ok]
  let ?h = "LsDatabase (dbLeases d ! k)"
  obtain closing m where rel: "releaseDatabase ?h (dbManager d) = (closing, m)" by (meson surj_pair)
  define d' where "d' = d\<lparr>dbManager := m, dbClosing := dbClosing d @ closing, dbLeases := (dbLeases d)[k := (dbLeases d ! k)\<lparr>LsReleased := True\<rparr>]\<rparr>"
  have step: "releaseLease k d = d'" using True rel by (simp add: releaseLease_def d'_def)
  have fields: "dbManager d' = m" "dbGate d' = dbGate d" "decided d' = decided d + mset (map fst closing)"
    by (simp_all add: d'_def decided_def)
  have count: "leaseCount (dbLeases d') = (leaseCount (dbLeases d))(?h := leaseCount (dbLeases d) ?h - 1)" "leaseCount (dbLeases d) ?h > 0"
    using leaseCount_release True by (auto simp: d'_def)
  have held: "holders d ?h > 0" using count(2) by (simp add: holders_def)
  have after: "holders d' = (holders d)(?h := holders d ?h - 1)"
    using count by (auto simp: holders_def fun_eq_iff fields)
  have quiet: "quietly (dbManager d) (holders d') m" using quietly_release [OF parts(1) held rel] by (simp add: after)
  have "bindings d' = bindings d"
    using True by (auto simp: bindings_def d'_def map_update intro: list_update_same_conv [THEN iffD2])
  then show ?thesis unfolding step
    using managerOk_release [OF parts(1) held rel] quiet leasesOk_quietly [OF parts(4) quiet]
    by (intro databasesOk_quietly [OF ok]) (simp_all only: fields after)
qed

lemma databasesOk_finishClose:
  assumes ok: "databasesOk d"
  shows "databasesOk (finishClose k d)"
proof (cases "k < length (dbClosing d)")
  case True
  have "dbClosing d = take k (dbClosing d) @ dbClosing d ! k # drop (Suc k) (dbClosing d)"
    using id_take_nth_drop [OF True] .
  then have "mset (map fst (dbClosing d)) = add_mset (fst (dbClosing d ! k)) (mset (map fst (take k (dbClosing d) @ drop (Suc k) (dbClosing d))))"
    by (metis (no_types, lifting) list.simps(9) map_append mset.simps(2) union_mset_add_mset_right mset_append)
  then have "decided (finishClose k d) = decided d"
    using True by (simp add: finishClose_def decided_def case_prod_beta Let_def)
  moreover have "dbManager (finishClose k d) = dbManager d" "dbGate (finishClose k d) = dbGate d" "dbLeases (finishClose k d) = dbLeases d"
    using True by (simp_all add: finishClose_def case_prod_beta Let_def)
  ultimately show ?thesis
    using ok by (rule databasesOk_same)
qed (use ok in \<open>simp add: finishClose_def\<close>)

lemma databasesOk_close:
  assumes ok: "databasesOk d"
  shows "databasesOk (closeDatabases d)"
proof -
  note parts = databasesOkD [OF ok]
  obtain closing m where step: "closeManager (dbManager d) = (closing, m)" by (meson surj_pair)
  define d' where "d' = d\<lparr>dbManager := m, dbClosing := dbClosing d @ closing\<rparr>"
  have fields: "dbManager d' = m" "dbGate d' = dbGate d" "decided d' = decided d + mset (map fst closing)" "holders d' = holders d"
    "bindings d' = bindings d" "closeDatabases d = d'"
    by (simp_all add: d'_def decided_def holders_def bindings_def fun_eq_iff closeDatabases_def step)
  note quiet = quietly_close [OF parts(1) step]
  show ?thesis
    using managerOk_close [OF parts(1) step] quiet leasesOk_quietly [OF parts(4) quiet]
    by (simp only: fields(6)) (intro databasesOk_quietly [OF ok]; simp only: fields)
qed

text \<open>The sections of a switch.\<close>

lemma beginSwitch_cases:
  assumes "beginSwitch name m = (begun, m')"
  obtains (answered) reply where "begun = SwitchAnswered reply" "m' = m"
  | (pins) active h where "begun = SwitchPins h" "m' = setManaged h (addRefs 1) m" "MmActive m = Some active"
      "SpName (specAt m active) \<noteq> name" "map_of (MmLoaded m) name = Some h"
  | (reserves) spec r where "begun = SwitchReserves spec r" "m' = reserveOpening r m" "map_of (MmSpecs m) name = Some spec"
      "r = mcpDatabaseCacheBudget spec" "map_of (MmLoaded m) name = None" "UgLoaded (resourceUsageLocked m) + 1 \<le> MmMaxPools m"
      "r \<le> MmMaxBudget m - UgCacheBudgetMB (resourceUsageLocked m)"
proof (cases "MmClosed m")
  case True
  then show thesis using assms by (auto simp: beginSwitch_def intro: answered)
next
  case live: False
  show thesis
  proof (cases "MmActive m")
    case None
    then show thesis using assms by (auto simp: beginSwitch_def intro: answered split: bool.splits)
  next
    case active: (Some active)
    show thesis
    proof (cases "map_of (MmSpecs m) name")
      case None
      then show thesis using assms active live by (auto simp: beginSwitch_def intro: answered)
    next
      case (Some spec)
      then show thesis
        using assms active live
        by (cases "map_of (MmLoaded m) name")
          (auto simp: beginSwitch_def Let_def split: if_splits intro: answered pins reserves)
    qed
  qed
qed

lemma usage_fields:
  "UgLoaded (resourceUsageLocked m) = int (length (MmLoaded m)) + MmOpeningCount m"
  "UgCacheBudgetMB (resourceUsageLocked m) = MmOpeningBudget m + loadedBudget m"
  "UgMaxPools (resourceUsageLocked m) = MmMaxPools m" "UgMaxCacheBudgetMB (resourceUsageLocked m) = MmMaxBudget m"
  by (simp_all add: resourceUsageLocked_def loadedBudget_def)

lemma databasesOk_startSwitch:
  assumes ok: "databasesOk d" and gate: "dbGate d = GateFree"
  shows "databasesOk (startSwitch name d)"
proof -
  note parts = databasesOkD [OF ok, unfolded gate]
  obtain begun m where start: "beginSwitch name (dbManager d) = (begun, m)" by (meson surj_pair)
  from start show ?thesis
  proof (cases rule: beginSwitch_cases)
    case (answered reply)
    then show ?thesis using ok start by (simp add: startSwitch_def)
  next
    case (pins active h)
    define d' where "d' = d\<lparr>dbManager := m, dbGate := SwitchChecks name h False 0\<rparr>"
    have step: "startSwitch name d = d'" using start pins(1) by (simp add: startSwitch_def d'_def)
    note loaded = managerOk_loaded [OF parts(1) pins(5)]
    have h: "MmActive (dbManager d) \<noteq> Some h" "holders d h > 0"
      using loaded(2,4) pins(3,4) by auto
    have after: "holders d' = (holders d)(h := Suc (holders d h))" "ownedBy (dbGate d') = ownedBy GateFree" "decided d' = decided d"
      "bindings d' = bindings d" "dbManager d' = m" "reservedBy (dbGate d') = 0" "dbGate d' = SwitchChecks name h False 0"
      using gate by (auto simp: holders_def fun_eq_iff decided_def bindings_def d'_def)
    have quiet: "quietly (dbManager d) (holders d') m" unfolding pins(2) by (rule quietly_hold)
    have "managerOk m (holders d') (ownedBy GateFree) (decided d)"
      using managerOk_hold [OF parts(1), of h] h(2) by (simp add: after pins(2))
    moreover have "candidateOk (dbManager d) (holders d') (ownedBy GateFree) name h False"
      using loaded h pins(5) unfolding candidateOk_def after by (auto dest: map_of_SomeD)
    then have "candidateOk m (holders d') (ownedBy GateFree) name h False"
      by (rule quietly_candidate [OF _ quiet]) (simp add: after)
    ultimately show ?thesis
      unfolding step using quietly_budget [OF parts(1,2) quiet] leasesOk_quietly [OF parts(4) quiet] after
      by (intro databasesOkI [OF after(5,7) refl _ after(3) refl after(4)]) simp_all
  next
    case (reserves spec r)
    define d' where "d' = d\<lparr>dbManager := m, dbGate := SwitchOpens spec r\<rparr>"
    have step: "startSwitch name d = d'" using start reserves(1) by (simp add: startSwitch_def d'_def)
    have after: "holders d' = holders d" "ownedBy (dbGate d') = ownedBy GateFree" "decided d' = decided d" "bindings d' = bindings d"
      "dbManager d' = m" "dbGate d' = SwitchOpens spec r"
      using gate by (auto simp: holders_def fun_eq_iff decided_def bindings_def d'_def)
    have "managerOk m (holders d) (ownedBy GateFree) (decided d)"
      using parts(1) by (rule managerOk_cong) (simp_all add: reserves(2))
    moreover have "loadedBudget m = loadedBudget (dbManager d)" by (simp add: loadedBudget_def reserves(2))
    then have "budgetOk m r"
      using parts(2) reserves(6,7) cacheBudget_positive [of spec]
      by (simp add: budgetOk_def openingPools_def usage_fields reserves(2,4) reserveOpening_def)
    moreover have "SpName spec = name" using parts(1) reserves(3) by (auto simp: managerOk_def dest: map_of_SomeD)
    then have "gateOk (SwitchOpens spec r) m (holders d) (ownedBy GateFree)"
      using reserves(4,5) by (simp add: reserves(2) map_of_eq_None_iff)
    moreover have "leasesOk m (bindings d)"
      using parts(4) by (rule leasesOk_later) (simp_all add: reserves(2))
    ultimately show ?thesis
      unfolding step by (intro databasesOkI [OF after(5,6,1) after(2) [unfolded after(6)] after(3) refl after(4)]) simp_all
  qed
qed

text \<open>A stage that only remembers what is already there.\<close>

lemma databasesOk_stage:
  assumes ok: "databasesOk d" and same: "\<And>h. pinnedBy g h = pinnedBy (dbGate d) h" "\<And>h. ownedBy g h = ownedBy (dbGate d) h"
      "reservedBy g = reservedBy (dbGate d)"
    and gate: "gateOk g (dbManager d) (holders d) (ownedBy (dbGate d))"
  shows "databasesOk (d\<lparr>dbGate := g\<rparr>)"
proof -
  have "holders (d\<lparr>dbGate := g\<rparr>) = holders d" "ownedBy g = ownedBy (dbGate d)" "decided (d\<lparr>dbGate := g\<rparr>) = decided d"
    "bindings (d\<lparr>dbGate := g\<rparr>) = bindings d"
    using same by (simp_all add: holders_def fun_eq_iff decided_def bindings_def)
  then show ?thesis
    using ok gate same(3) by (simp add: databasesOk_def)
qed

lemma databasesOk_startReload:
  assumes ok: "databasesOk d" and gate: "dbGate d = GateFree"
  shows "databasesOk (startReload d)"
  using ok gate managerOk_active(1) [OF databasesOkD(1) [OF ok]]
  by (auto simp: startReload_def split: bool.splits option.splits intro!: databasesOk_stage [OF ok])

lemma databasesOk_resolveReload:
  assumes ok: "databasesOk d"
  shows "databasesOk (resolveReload published d)"
proof (cases "dbGate d")
  case (ReloadStarts old)
  then have "old < length (MmHeap (dbManager d))" using databasesOkD(3) [OF ok] by simp
  then have stages: "databasesOk (d\<lparr>dbGate := GateFree\<rparr>)"
    "\<And>spec. SpName spec = SpName (specAt (dbManager d) old) \<Longrightarrow> SpConfig spec = SpConfig (specAt (dbManager d) old) \<Longrightarrow>
      databasesOk (d\<lparr>dbGate := ReloadOpens old spec\<rparr>)"
    by (auto simp: ReloadStarts intro!: databasesOk_stage [OF ok])
  have "databasesOk (d\<lparr>dbGate := GateFree, dbBorrowed := bs\<rparr>)" for bs
    by (rule databasesOk_same [OF _ _ _ _ stages(1)]) (simp_all add: decided_def)
  then show ?thesis
    using stages by (simp add: resolveReload_def ReloadStarts Let_def split: option.splits)
qed (use ok in \<open>simp_all add: resolveReload_def\<close>)

text \<open>Opening a pool.\<close>

definition withOpened :: "mcpDatabaseSpec \<Rightarrow> mcpDatabaseManager \<Rightarrow> mcpDatabaseManager" where
  "withOpened spec m = m\<lparr>MmHeap := MmHeap m @ [openedManaged spec]\<rparr>"

lemma withOpened_fields [simp]:
  "length (MmHeap (withOpened spec m)) = Suc (length (MmHeap m))" "h < length (MmHeap m) \<Longrightarrow> MmHeap (withOpened spec m) ! h = MmHeap m ! h"
  "MmHeap (withOpened spec m) ! length (MmHeap m) = openedManaged spec"
  "MmLoaded (withOpened spec m) = MmLoaded m" "MmActive (withOpened spec m) = MmActive m" "MmEpoch (withOpened spec m) = MmEpoch m"
  by (simp_all add: withOpened_def nth_append)

lemma budget_opened:
  assumes ok: "managerOk m U own D" and budget: "budgetOk m r"
  shows "budgetOk (withOpened spec m) r"
  by (rule budget_shrink [OF budget, where P = "\<lambda>_. True"]) (auto simp: withOpened_def nth_append dest: managerOk_entry(1) [OF ok])

lemma leases_opened: "leasesOk m bs \<Longrightarrow> leasesOk (withOpened spec m) bs"
  by (erule leasesOk_later) simp_all

lemma open_forms:
  "openManagedMCPDatabase spec OpensNothing d = (None, d)"
  "openManagedMCPDatabase spec OpensAndCloses d =
     (None, d\<lparr>dbManager := withOpened spec (dbManager d), dbClosed := dbClosed d @ [length (MmHeap (dbManager d))]\<rparr>)"
  "openManagedMCPDatabase spec OpensPool d = (Some (length (MmHeap (dbManager d))), d\<lparr>dbManager := withOpened spec (dbManager d)\<rparr>)"
  by (simp_all add: openManagedMCPDatabase_def withOpened_def Let_def)

text \<open>A pool that is opened and closed again changes neither the accounts nor the stage's view.\<close>

lemma databasesOk_openedAndClosed:
  assumes ok: "databasesOk d" and none: "\<And>h. \<not> ownedBy (dbGate d) h"
    and quiet: "gateOk (dbGate d) (withOpened spec (dbManager d)) (holders d) (ownedBy (dbGate d))"
  shows "databasesOk (d\<lparr>dbManager := withOpened spec (dbManager d), dbClosed := dbClosed d @ [length (MmHeap (dbManager d))]\<rparr>)"
    (is "databasesOk ?d")
proof -
  note parts = databasesOkD [OF ok]
  let ?n = "length (MmHeap (dbManager d))"
  have "managerOk (withOpened spec (dbManager d)) (holders d) ((ownedBy (dbGate d))(?n := True, ?n := False)) (add_mset ?n (decided d))"
    using managerOk_discard [OF managerOk_open [OF parts(1)], of ?n spec] by (simp add: withOpened_def)
  moreover have "(ownedBy (dbGate d))(?n := True, ?n := False) = ownedBy (dbGate d)" using none by (simp add: fun_eq_iff)
  moreover have "holders ?d = holders d" "decided ?d = add_mset ?n (decided d)" "bindings ?d = bindings d"
    by (simp_all add: holders_def fun_eq_iff decided_def bindings_def)
  ultimately show ?thesis
    using budget_opened [OF parts(1,2)] leases_opened [OF parts(4)] quiet by (simp add: databasesOk_def)
qed

lemma databasesOk_openedPool:
  assumes ok: "databasesOk d" and none: "\<And>h. \<not> ownedBy (dbGate d) h" "\<And>h. \<not> pinnedBy (dbGate d) h" "\<And>h. \<not> pinnedBy g h"
    and owns: "ownedBy g = (\<lambda>h. h = length (MmHeap (dbManager d)))" and reserved: "reservedBy g = reservedBy (dbGate d)"
    and gate: "gateOk g (withOpened spec (dbManager d)) (holders d) (ownedBy g)"
  shows "databasesOk (d\<lparr>dbManager := withOpened spec (dbManager d), dbGate := g\<rparr>)" (is "databasesOk ?d")
proof -
  note parts = databasesOkD [OF ok]
  let ?n = "length (MmHeap (dbManager d))"
  have "(ownedBy (dbGate d))(?n := True) = ownedBy g" using none owns by (auto simp: fun_eq_iff)
  then have "managerOk (withOpened spec (dbManager d)) (holders d) (ownedBy g) (decided d)"
    using managerOk_open [OF parts(1), of spec] by (simp add: withOpened_def)
  moreover have "holders ?d = holders d" "decided ?d = decided d" "bindings ?d = bindings d"
    using none by (simp_all add: holders_def fun_eq_iff decided_def bindings_def)
  ultimately show ?thesis
    using budget_opened [OF parts(1,2)] leases_opened [OF parts(4)] gate reserved by (simp add: databasesOk_def)
qed

lemma databasesOk_open:
  assumes ok: "databasesOk d"
  shows "databasesOk (openStage opened d)"
proof (cases "dbGate d")
  case gate: (SwitchOpens spec r)
  note parts = databasesOkD [OF ok, unfolded gate]
  let ?n = "length (MmHeap (dbManager d))"
  show ?thesis
  proof (cases opened)
    case OpensNothing
    then show ?thesis using ok gate by (auto simp: openStage_def open_forms intro!: databasesOk_stage)
  next
    case OpensAndCloses
    let ?d = "d\<lparr>dbManager := withOpened spec (dbManager d), dbClosed := dbClosed d @ [?n]\<rparr>"
    have "databasesOk ?d" using parts(3) by (intro databasesOk_openedAndClosed [OF ok]) (simp_all add: gate)
    then show ?thesis using OpensAndCloses gate by (auto simp: openStage_def open_forms intro!: databasesOk_stage)
  next
    case OpensPool
    have "MmActive (dbManager d) \<noteq> Some ?n" using managerOk_active(1) [OF parts(1)] by auto
    then have "gateOk (SwitchChecks (SpName spec) ?n True r) (withOpened spec (dbManager d)) (holders d)
        (ownedBy (SwitchChecks (SpName spec) ?n True r))"
      using parts(3) by (simp add: candidateOk_def)
    then show ?thesis
      using OpensPool gate by (auto simp: openStage_def open_forms intro!: databasesOk_openedPool [OF ok])
  qed
next
  case gate: (ReloadOpens old spec)
  note parts = databasesOkD [OF ok, unfolded gate]
  let ?n = "length (MmHeap (dbManager d))"
  show ?thesis
  proof (cases opened)
    case OpensNothing
    then show ?thesis using ok gate by (auto simp: openStage_def open_forms intro!: databasesOk_stage)
  next
    case OpensAndCloses
    let ?d = "d\<lparr>dbManager := withOpened spec (dbManager d), dbClosed := dbClosed d @ [?n]\<rparr>"
    have "databasesOk ?d" using parts(3) by (intro databasesOk_openedAndClosed [OF ok]) (simp_all add: gate)
    then show ?thesis using OpensAndCloses gate by (auto simp: openStage_def open_forms intro!: databasesOk_stage)
  next
    case OpensPool
    have "gateOk (ReloadChecks old ?n) (withOpened spec (dbManager d)) (holders d) (ownedBy (ReloadChecks old ?n))"
      using parts(3) by simp
    then show ?thesis
      using OpensPool gate by (auto simp: openStage_def open_forms intro!: databasesOk_openedPool [OF ok])
  qed
qed (use ok in \<open>simp_all add: openStage_def\<close>)

lemma databasesOk_abandon:
  assumes ok: "databasesOk d" and gate: "dbGate d = SwitchChecks name c newlyOpened r"
  shows "databasesOk (abandonSwitch c newlyOpened r d)"
proof (cases newlyOpened)
  case True
  then show ?thesis using ok gate by (auto simp: abandonSwitch_def intro!: databasesOk_stage)
next
  case False
  note parts = databasesOkD [OF ok, unfolded gate]
  obtain closing m where rel: "releaseDatabase c (dbManager d) = (closing, m)" by (meson surj_pair)
  define d' where "d' = d\<lparr>dbManager := m, dbClosing := dbClosing d @ closing, dbGate := Undoes None r\<rparr>"
  have step: "abandonSwitch c newlyOpened r d = d'" using False rel by (simp add: abandonSwitch_def d'_def)
  have held: "holders d c > 0" by (simp add: holders_def gate False)
  have own: "ownedBy (SwitchChecks name c newlyOpened r) = ownedBy (Undoes None r)" using False by (simp add: fun_eq_iff)
  have after: "holders d' = (holders d)(c := holders d c - 1)" "decided d' = decided d + mset (map fst closing)" "bindings d' = bindings d"
    "dbManager d' = m" "dbGate d' = Undoes None r"
    using False by (simp_all add: holders_def fun_eq_iff gate decided_def bindings_def d'_def)
  note quiet = quietly_release [OF parts(1) held rel]
  show ?thesis
    unfolding step
    using managerOk_release [OF parts(1) held rel] quietly_budget [OF parts(1,2) quiet] leasesOk_quietly [OF parts(4) quiet] own
    by (intro databasesOkI [OF after(4,5,1) refl after(2) refl after(3)]) simp_all
qed

lemma databasesOk_switched:
  assumes ok: "databasesOk d" and gate: "dbGate d = SwitchChecks name c newlyOpened r"
    and commit: "commitSwitch name c newlyOpened r (dbManager d) = Some (closing, m)"
  shows "databasesOk (d\<lparr>dbManager := m, dbClosing := dbClosing d @ closing, dbGate := GateFree\<rparr>)"
proof -
  define d' where "d' = d\<lparr>dbManager := m, dbClosing := dbClosing d @ closing, dbGate := GateFree\<rparr>"
  note parts = databasesOkD [OF ok, unfolded gate]
  have cand: "candidateOk (dbManager d) (holders d) (ownedBy (SwitchChecks name c newlyOpened r)) name c newlyOpened"
    "r = (if newlyOpened then mcpDatabaseCacheBudget (specAt (dbManager d) c) else 0)"
    using parts(3) unfolding gateOk.simps by blast+
  have "newlyOpened \<Longrightarrow> holders d c = 0" using parts(1) by (simp add: managerOk_def holdersOk_def)
  then have after: "holders d' = (holders d)(c := holders d c - 1)" "decided d' = decided d + mset (map fst closing)" "bindings d' = bindings d"
    "dbManager d' = m" "dbGate d' = GateFree"
    by (auto simp: holders_def fun_eq_iff gate decided_def bindings_def d'_def)
  have own: "(ownedBy (SwitchChecks name c newlyOpened r))(c := False) = ownedBy GateFree" by (simp add: fun_eq_iff)
  obtain old P where forms: "m = (makeActive name c (settleHolds c newlyOpened r (swapRetired old c (dbManager d))))
       \<lparr>MmLoaded := filter P (AList.update name c (MmLoaded (dbManager d)))\<rparr>"
    using commit by (rule commitSwitch_forms)
  have "leasesOk m (bindings d)"
    using parts(4) by (rule leasesOk_later) (simp_all add: forms activated_fields)
  then have "databasesOk d'"
    using managerOk_commitSwitch [OF parts(1) cand(1) commit] budget_commitSwitch [OF parts(1) _ cand commit] parts(2) own
    by (intro databasesOkI [OF after(4,5,1) refl after(2) refl after(3)]) simp_all
  then show ?thesis by (simp add: d'_def)
qed

lemma databasesOk_reloaded:
  assumes ok: "databasesOk d" and gate: "dbGate d = ReloadChecks old c"
    and commit: "commitReload old c (dbManager d) = Some (identity, closing, m)"
  shows "databasesOk (d\<lparr>dbManager := m, dbClosing := dbClosing d @ closing, dbGate := GateFree,
    dbLeases := dbLeases d @ [\<lparr>LsDatabase = c, LsIdentity = identity, LsReleased = False\<rparr>]\<rparr>)"
proof -
  define d' where "d' = d\<lparr>dbManager := m, dbClosing := dbClosing d @ closing, dbGate := GateFree,
    dbLeases := dbLeases d @ [\<lparr>LsDatabase = c, LsIdentity = identity, LsReleased = False\<rparr>]\<rparr>"
  note parts = databasesOkD [OF ok, unfolded gate]
  note forms = commitReload_forms [OF commit]
  have c: "c < length (MmHeap (dbManager d))" "SpName (specAt (dbManager d) c) = SpName (specAt (dbManager d) old)"
    "mcpDatabaseCacheBudget (specAt (dbManager d) c) = mcpDatabaseCacheBudget (specAt (dbManager d) old)"
    using parts(3) by (simp_all add: mcpDatabaseCacheBudget_def)
  have own: "ownedBy (ReloadChecks old c) c" "(ownedBy (ReloadChecks old c))(c := False) = ownedBy GateFree" by (simp_all add: fun_eq_iff)
  have none: "holders d c = 0" using parts(1) by (simp add: managerOk_def holdersOk_def)
  have after: "holders d' = (holders d)(c := 1)" "decided d' = decided d + mset (map fst closing)"
    "bindings d' = bindings d @ [(c, identityLocked m c)]" "dbManager d' = m" "dbGate d' = GateFree"
    using none forms(3) by (auto simp: holders_def fun_eq_iff gate decided_def bindings_def d'_def)
  have "leasesOk m (bindings d)"
    using parts(4) by (rule leasesOk_later) (simp_all add: forms)
  then have "leasesOk m (bindings d @ [(c, identityLocked m c)])"
    by (rule leasesOk_new) (simp_all add: forms c)
  then have "databasesOk d'"
    using managerOk_commitReload [OF parts(1) own(1) c(2) commit, unfolded own(2)] budget_commitReload [OF parts(1,2) own(1) c(2,3) commit]
    by (intro databasesOkI [OF after(4,5,1) refl after(2) refl after(3)]) simp_all
  then show ?thesis by (simp add: d'_def)
qed

lemma databasesOk_commit:
  assumes ok: "databasesOk d"
  shows "databasesOk (commitStage passes d)"
proof (cases "dbGate d")
  case gate: (SwitchChecks name c newlyOpened r)
  show ?thesis
  proof (cases "if passes then commitSwitch name c newlyOpened r (dbManager d) else None")
    case None
    then show ?thesis using databasesOk_abandon [OF ok gate] by (simp add: commitStage_def gate)
  next
    case (Some upshot)
    then obtain closing m where "commitSwitch name c newlyOpened r (dbManager d) = Some (closing, m)" "upshot = (closing, m)"
      by (cases upshot) (auto split: if_splits)
    then show ?thesis using databasesOk_switched [OF ok gate] Some by (simp add: commitStage_def gate)
  qed
next
  case gate: (ReloadChecks old c)
  show ?thesis
  proof (cases "if passes then commitReload old c (dbManager d) else None")
    case None
    then show ?thesis using ok gate by (auto simp: commitStage_def intro!: databasesOk_stage)
  next
    case (Some upshot)
    then obtain identity closing m where "commitReload old c (dbManager d) = Some (identity, closing, m)" "upshot = (identity, closing, m)"
      by (cases upshot) (auto split: if_splits)
    then show ?thesis using databasesOk_reloaded [OF ok gate] Some by (simp add: commitStage_def gate)
  qed
qed (use ok in \<open>simp_all add: commitStage_def\<close>)

lemma databasesOk_undo:
  assumes ok: "databasesOk d"
  shows "databasesOk (undoStage d)"
proof (cases "dbGate d")
  case gate: (Undoes co r)
  note parts = databasesOkD [OF ok, unfolded gate]
  show ?thesis
  proof (cases co)
    case (Some c)
    define d' where "d' = d\<lparr>dbClosed := dbClosed d @ [c], dbGate := Undoes None r\<rparr>"
    have after: "dbManager d' = dbManager d" "dbGate d' = Undoes None r" "holders d' = holders d" "decided d' = add_mset c (decided d)"
      "bindings d' = bindings d"
      by (simp_all add: d'_def holders_def fun_eq_iff gate decided_def bindings_def)
    have own: "(ownedBy (Undoes co r))(c := False) = ownedBy (Undoes None r)" "ownedBy (Undoes co r) c" by (simp_all add: fun_eq_iff Some)
    have "databasesOk d'"
      using managerOk_discard [OF parts(1) own(2)] own(1) parts(2,4)
      by (intro databasesOkI [OF after(1,2,3) refl after(4) refl after(5)]) simp_all
    then show ?thesis by (simp add: undoStage_def gate Some d'_def)
  next
    case None
    let ?m = "if r > 0 then releaseOpeningReservationLocked r (dbManager d) else dbManager d"
    define d' where "d' = d\<lparr>dbManager := ?m, dbGate := GateFree\<rparr>"
    have after: "dbManager d' = ?m" "dbGate d' = GateFree" "holders d' = holders d" "decided d' = decided d" "bindings d' = bindings d"
      by (simp_all add: d'_def holders_def fun_eq_iff gate decided_def bindings_def)
    have "managerOk ?m (holders d) (ownedBy GateFree) (decided d)"
    proof (rule managerOk_cong)
      have "ownedBy (Undoes co r) = ownedBy GateFree" by (simp add: None fun_eq_iff)
      then show "managerOk (dbManager d) (holders d) (ownedBy GateFree) (decided d)" using parts(1) by simp
    qed simp_all
    moreover have "budgetOk ?m 0"
      using parts(2) by (cases "r > 0") (auto simp: budgetOk_def openingPools_def releaseOpeningReservationLocked_def loadedBudget_def)
    moreover have "leasesOk ?m (bindings d)"
      using parts(4) by (rule leasesOk_later) simp_all
    ultimately have "databasesOk d'"
      by (intro databasesOkI [OF after(1,2,3) refl after(4) refl after(5)]) simp_all
    then show ?thesis by (simp add: undoStage_def gate None d'_def)
  qed
qed (use ok in \<open>simp_all add: undoStage_def\<close>)

section \<open>Reachable states\<close>

lemma databasesOk_act: "databasesOk d \<Longrightarrow> databasesOk (databaseAct action d)"
  by (cases action)
    (simp_all add: databasesOk_takeLease databasesOk_release databasesOk_finishClose databasesOk_startSwitch databasesOk_startReload
      databasesOk_resolveReload databasesOk_open databasesOk_commit databasesOk_undo databasesOk_close)

text \<open>Every target keeps its name, so that the manager starts in order.\<close>

lemma resolveTargets_names:
  "resolveTargets loadConfig configuredPath root targets (specs, order, paths) = Inr (specs', order', paths') \<Longrightarrow>
     (\<And>k spec. (k, spec) \<in> set specs \<Longrightarrow> SpName spec = k) \<Longrightarrow> fst ` set specs = set order \<Longrightarrow> order \<noteq> [] \<Longrightarrow>
     (\<forall>k spec. (k, spec) \<in> set specs' \<longrightarrow> SpName spec = k) \<and> fst ` set specs' = set order' \<and> order' \<noteq> []"
proof (induction targets arbitrary: specs order paths)
  case Nil
  then show ?case by auto
next
  case (Cons target targets)
  obtain spec where spec: "targetSpec loadConfig configuredPath root target = Inr spec"
    and tail: "resolveTargets loadConfig configuredPath root targets
      (AList.update (TgName target) spec specs, order @ [TgName target],
       AList.update (canonicalMCPDatabasePath (SpPath spec)) (TgName target) paths) = Inr (specs', order', paths')"
    using Cons.prems(1) by (auto simp: Let_def split: sum.splits option.splits)
  have name: "SpName spec = TgName target"
    using spec by (auto simp: targetSpec_def Let_def split: option.splits if_splits prod.splits)
  show ?case
  proof (rule Cons.IH [OF tail])
    show "SpName spec' = k" if "(k, spec') \<in> set (AList.update (TgName target) spec specs)" for k spec'
      using that set_update_subset [of "TgName target" spec specs] Cons.prems(2) name by auto
    show "fst ` set (AList.update (TgName target) spec specs) = set (order @ [TgName target])"
      using Cons.prems(3) by (simp add: dom_update)
  qed simp
qed

lemma databasesOk_start:
  assumes "newMCPDatabaseManager loadConfig configuredPath cfg dbPath = Inr m"
  shows "databasesOk (startDatabases m)"
proof -
  obtain specs order where resolve: "resolveMCPDatabaseSpecs loadConfig configuredPath cfg dbPath = Inr (specs, order)"
    using assms by (auto simp: newMCPDatabaseManager_def split: sum.splits)
  have names: "\<forall>k spec. (k, spec) \<in> set specs \<longrightarrow> SpName spec = k" "fst ` set specs = set order" "order \<noteq> []"
    using resolve by (auto simp: resolveMCPDatabaseSpecs_def Let_def split: if_splits sum.splits dest!: resolveTargets_names)
  let ?primary = "the (map_of specs (hd order))"
  have m: "m = \<lparr>MmHeap = [openedManaged ?primary], MmSpecs = specs, MmOrder = order, MmLoaded = [(SpName ?primary, 0)],
     MmActive = Some 0, MmEpoch = 1, MmClosed = False, MmOpeningCount = 0, MmOpeningBudget = 0,
     MmMaxPools = CgMaxOpenDatabasePools (SpConfig ?primary), MmMaxBudget = CgMaxSQLiteCacheBudgetMB (SpConfig ?primary)\<rparr>"
    "CgMaxOpenDatabasePools (SpConfig ?primary) \<ge> 1" "mcpDatabaseCacheBudget ?primary \<le> CgMaxSQLiteCacheBudgetMB (SpConfig ?primary)"
    using assms resolve by (auto simp: newMCPDatabaseManager_def Let_def split: if_splits)
  have "managerOk m (\<lambda>_. 0) (\<lambda>_. False) {#}"
    using names(1) by (auto simp: manager_defs m(1))
  moreover have "budgetOk m 0"
    using m(2,3) by (simp add: budgetOk_def openingPools_def loadedBudget_def m(1))
  moreover have "leasesOk m []" by (simp add: leasesOk_def oneEpochOneDatabase_def)
  moreover have "holders (startDatabases m) = (\<lambda>_. 0)" "ownedBy GateFree = (\<lambda>_. False)" "decided (startDatabases m) = {#}"
    "bindings (startDatabases m) = []"
    by (simp_all add: startDatabases_def holders_def decided_def bindings_def fun_eq_iff)
  ultimately show ?thesis
    by (intro databasesOkI [where m = m and g = GateFree and U = "\<lambda>_. 0" and own = "\<lambda>_. False" and D = "{#}" and r = 0 and bs = "[]"])
      (simp_all add: startDatabases_def)
qed

lemma databasesOk_reachable:
  assumes start: "newMCPDatabaseManager loadConfig configuredPath cfg dbPath = Inr m"
    and run: "databaseReaches (startDatabases m) d"
  shows "databasesOk d"
  using run
proof (induction rule: rtranclp_induct)
  case base
  then show ?case using databasesOk_start [OF start] .
next
  case (step d d')
  then show ?case by (auto elim: databaseStep.cases intro: databasesOk_act)
qed

definition giveUps :: "databases \<Rightarrow> nat list" where
  "giveUps d = map fst (dbClosing d) @ dbClosed d"

lemma giveUps_facts:
  assumes "databasesOk d"
  shows "distinct (giveUps d)" and "set (giveUps d) \<subseteq> {..<length (MmHeap (dbManager d))}"
    and "h < length (MmHeap (dbManager d)) \<Longrightarrow>
      h \<in> set (giveUps d) \<longleftrightarrow> MmActive (dbManager d) \<noteq> Some h \<and> holders d h = 0 \<and> \<not> ownedBy (dbGate d) h"
proof -
  have count: "count (mset (giveUps d)) h =
      (if h < length (MmHeap (dbManager d)) \<and> MmActive (dbManager d) \<noteq> Some h \<and> holders d h = 0 \<and> \<not> ownedBy (dbGate d) h then 1 else 0)" for h
    using databasesOkD(1) [OF assms] by (simp add: managerOk_def exactlyOnce_def decided_def giveUps_def)
  then have member: "h \<in> set (giveUps d) \<longleftrightarrow>
      h < length (MmHeap (dbManager d)) \<and> MmActive (dbManager d) \<noteq> Some h \<and> holders d h = 0 \<and> \<not> ownedBy (dbGate d) h" for h
    by (metis count_mset_0_iff zero_neq_one)
  show "distinct (giveUps d)" using count member by (simp add: distinct_count_atmost_1)
  show "set (giveUps d) \<subseteq> {..<length (MmHeap (dbManager d))}"
    "h < length (MmHeap (dbManager d)) \<Longrightarrow>
      h \<in> set (giveUps d) \<longleftrightarrow> MmActive (dbManager d) \<noteq> Some h \<and> holders d h = 0 \<and> \<not> ownedBy (dbGate d) h"
    using member by auto
qed

lemma leaseCount_0: "leaseCount ls h = 0 \<longleftrightarrow> (\<forall>l \<in> set ls. LsDatabase l = h \<longrightarrow> LsReleased l)"
  by (auto simp: leaseCount_def filter_empty_conv)

text \<open>Where an open pool is found.\<close>

lemma open_pool:
  assumes ok: "databasesOk d" and h: "h < length (MmHeap (dbManager d))" "h \<notin> set (giveUps d)"
  shows "(SpName (specAt (dbManager d) h), h) \<in> set (MmLoaded (dbManager d)) \<or> ownedBy (dbGate d) h
    \<or> MgDeleteOnRetire (MmHeap (dbManager d) ! h) \<and> MgRetired (MmHeap (dbManager d) ! h)
      \<and> (\<exists>l \<in> set (dbLeases d). LsDatabase l = h \<and> \<not> LsReleased l)"
proof (cases "ownedBy (dbGate d) h \<or> MmActive (dbManager d) = Some h \<or> (SpName (specAt (dbManager d) h), h) \<in> set (MmLoaded (dbManager d))")
  case True
  then show ?thesis using managerOk_active(3) [OF databasesOkD(1) [OF ok]] by blast
next
  case False
  note parts = databasesOkD [OF ok]
  have held: "holders d h > 0" using giveUps_facts(3) [OF ok h(1)] h(2) False by auto
  have retired: "MgRetired (MmHeap (dbManager d) ! h)" "MgDeleteOnRetire (MmHeap (dbManager d) ! h)"
    using parts(1) False held h(1) by (auto simp: managerOk_def retiredOk_def)
  have "\<not> pinnedBy (dbGate d) h"
  proof (cases "dbGate d")
    case (SwitchChecks name c newlyOpened r)
    then show ?thesis using parts(3) False by (auto simp: candidateOk_def)
  qed simp_all
  then have "leaseCount (dbLeases d) h \<noteq> 0" using held by (simp add: holders_def)
  then show ?thesis using retired by (auto simp: leaseCount_0)
qed

text \<open>A run of a server with a second target, on a machine where every path resolves.\<close>

definition sampleConfig :: "int \<Rightarrow> MCPDatabaseTarget list \<Rightarrow> dbConfig" where
  "sampleConfig pools targets =
     \<lparr>CgReadConnections = 8, CgCacheMBPerConnection = 64, CgMMapLimitMB = 0, CgMaxOpenDatabasePools = pools,
      CgMaxSQLiteCacheBudgetMB = 1024, CgTasks = \<lparr>CfMaxTasks = 0, CfMaxHeavyTasks = 0, CfMaxRasterTasks = 0, CfMaxQueuedTasks = 0\<rparr>,
      CgQueueTimeoutSeconds = 0, CgExecutionTimeoutSeconds = 0, CgDatabase = ''/data/main.sqlite'', CgBaseDatabase = [],
      CgDatabaseName = ''main'', CgDatabaseDescription = [], CgDatabases = targets, CgConfigPath = ''/etc/ck3.toml''\<rparr>"

definition sampleTarget :: MCPDatabaseTarget where
  "sampleTarget = \<lparr>TgName = ''old'', TgDescription = [], TgDatabase = ''/data/old.sqlite'', TgConfigPath = []\<rparr>"

definition sampleManager :: "int \<Rightarrow> MCPDatabaseTarget list \<Rightarrow> databaseError + mcpDatabaseManager" where
  "sampleManager pools targets =
     newMCPDatabaseManager (\<lambda>_. None) (\<lambda>cfg. Some (CgDatabase cfg)) (sampleConfig pools targets) ''/data/main.sqlite''"

definition sampleDatabases :: "int \<Rightarrow> MCPDatabaseTarget list \<Rightarrow> databaseAction list \<Rightarrow> databases option" where
  "sampleDatabases pools targets actions =
     (case sampleManager pools targets of Inl _ \<Rightarrow> None | Inr m \<Rightarrow> Some (fold databaseAct actions (startDatabases m)))"

lemma fold_reaches: "databaseReaches d (fold databaseAct actions d)"
proof (induction actions rule: rev_induct)
  case Nil then show ?case by simp
next
  case (snoc action actions)
  then show ?case using databaseStep_act by (auto intro: rtranclp.rtrancl_into_rtrancl)
qed

lemma manager_sample_reached:
  assumes "sampleDatabases pools targets actions = Some d"
  obtains m where "newMCPDatabaseManager (\<lambda>_. None) (\<lambda>cfg. Some (CgDatabase cfg)) (sampleConfig pools targets) ''/data/main.sqlite'' = Inr m"
    and "databaseReaches (startDatabases m) d"
proof -
  obtain m where m: "sampleManager pools targets = Inr m" "d = fold databaseAct actions (startDatabases m)"
    using assms by (auto simp: sampleDatabases_def split: sum.splits)
  show thesis
    by (rule that [of m]) (use m in \<open>auto simp: sampleManager_def fold_reaches\<close>)
qed


text \<open>One call holds a lease of the first generation; a second call binds the next generation; the first call
  finds it already bound; the second returns its lease; a third publication replaces the generation.\<close>

definition sampleBorrow :: "databaseAction list" where
  "sampleBorrow =
     [TakeLease, StartReload, ResolveReload (Some ''/data/main.2.sqlite''), OpenStage OpensPool, CommitStage True,
      StartReload, ResolveReload (Some ''/data/main.2.sqlite''), ReleaseLease 1, ReleaseLease 1,
      StartReload, ResolveReload (Some ''/data/main.3.sqlite''), OpenStage OpensPool, CommitStage True, FinishClose 0]"



definition sampleReload :: "databaseAction list" where
  "sampleReload = [TakeLease, StartReload, ResolveReload (Some ''/data/main.2.sqlite''), OpenStage OpensPool, CommitStage True]"


end
