(* ===== verification/ToolCache.thy ===== *)
theory ToolCache
  imports GoStd "HOL-Library.AList"
begin

text \<open>
  \<^verbatim>\<open>internal/mcpserver/tool_cache.go\<close>: the in-process cache of tool responses. The struct holds a map from keys
  to the elements of a doubly linked list with the most recently used element first; here an element is its
  number in \<open>TcElements\<close>. The interface \<open>response_store\<close> says what \<^verbatim>\<open>callMCPTool\<close> relies on; the abstract view is one
  list of keys and responses.
\<close>

section \<open>The struct\<close>

record toolCacheEntry =
  CeKey :: bytes
  CeData :: bytes

record readToolCache =
  TcElements :: "toolCacheEntry list"
  TcEntries :: "(bytes \<times> nat) list"
  TcLru :: "nat list"
  TcCurBytes :: int
  TcMaxBytes :: int
  TcMaxEntry :: int
  TcHits :: int
  TcMisses :: int

definition newReadToolCache :: "int \<Rightarrow> int \<Rightarrow> readToolCache" where
  "newReadToolCache maxBytes maxEntry =
     \<lparr>TcElements = [], TcEntries = [], TcLru = [], TcCurBytes = 0, TcMaxBytes = maxBytes, TcMaxEntry = maxEntry,
      TcHits = 0, TcMisses = 0\<rparr>"

text \<open>\<^verbatim>\<open>list.MoveToFront\<close>\<close>

definition moveToFront :: "nat \<Rightarrow> readToolCache \<Rightarrow> readToolCache" where
  "moveToFront element c = c\<lparr>TcLru := element # remove1 element (TcLru c)\<rparr>"

definition cacheGet :: "bytes \<Rightarrow> readToolCache \<Rightarrow> bytes option \<times> readToolCache" where
  "cacheGet key c =
     (case map_of (TcEntries c) key of
        None \<Rightarrow> (None, c\<lparr>TcMisses := TcMisses c + 1\<rparr>)
      | Some element \<Rightarrow>
          (Some (CeData (TcElements c ! element)), (moveToFront element c)\<lparr>TcHits := TcHits c + 1\<rparr>))"

definition removeElement :: "nat \<Rightarrow> readToolCache \<Rightarrow> readToolCache" where
  "removeElement element c =
     (let entry = TcElements c ! element in
      c\<lparr>TcLru := remove1 element (TcLru c), TcEntries := AList.delete (CeKey entry) (TcEntries c),
        TcCurBytes := TcCurBytes c - int (length (CeData entry))\<rparr>)"

function evictLoop :: "readToolCache \<Rightarrow> readToolCache" where
  "evictLoop c =
     (if TcCurBytes c > TcMaxBytes c \<and> TcLru c \<noteq> [] then evictLoop (removeElement (last (TcLru c)) c) else c)"
  by pat_completeness auto

termination
  by (relation "measure (\<lambda>c. length (TcLru c))") (auto simp: removeElement_def Let_def length_remove1)

declare evictLoop.simps [simp del]

definition insertEntry :: "bytes \<Rightarrow> bytes \<Rightarrow> readToolCache \<Rightarrow> readToolCache" where
  "insertEntry key data c =
     (case map_of (TcEntries c) key of
        Some element \<Rightarrow>
          let entry = TcElements c ! element in
          moveToFront element
            (c\<lparr>TcCurBytes := TcCurBytes c + (int (length data) - int (length (CeData entry))),
               TcElements := (TcElements c)[element := entry\<lparr>CeData := data\<rparr>]\<rparr>)
      | None \<Rightarrow>
          let element = length (TcElements c) in
          c\<lparr>TcElements := TcElements c @ [\<lparr>CeKey = key, CeData = data\<rparr>], TcLru := element # TcLru c,
            TcEntries := AList.update key element (TcEntries c), TcCurBytes := TcCurBytes c + int (length data)\<rparr>)"

definition cachePut :: "bytes \<Rightarrow> bytes \<Rightarrow> readToolCache \<Rightarrow> readToolCache" where
  "cachePut key data c = (if int (length data) > TcMaxEntry c then c else evictLoop (insertEntry key data c))"

definition invalidateTool :: "bytes \<Rightarrow> readToolCache \<Rightarrow> readToolCache" where
  "invalidateTool name c =
     fold (\<lambda>element c. if hasPrefix (CeKey (TcElements c ! element)) (name @ [CHR 0x00]) then removeElement element c else c)
       (TcLru c) c"

record readToolCacheStats =
  StHits :: int
  StMisses :: int
  StEntries :: int
  StCurBytes :: int
  StMaxBytes :: int

definition cacheStats :: "readToolCache \<Rightarrow> readToolCacheStats" where
  "cacheStats c = \<lparr>StHits = TcHits c, StMisses = TcMisses c, StEntries = int (length (TcEntries c)), StCurBytes = TcCurBytes c,
     StMaxBytes = TcMaxBytes c\<rparr>"

text \<open>The operations as the callers of the process interleave them; each runs under the mutex.\<close>

datatype cacheOp = CacheGet bytes | CachePut bytes bytes | CacheInvalidate bytes

primrec cacheAct :: "cacheOp \<Rightarrow> readToolCache \<Rightarrow> bytes option \<times> readToolCache" where
  "cacheAct (CacheGet key) c = cacheGet key c"
| "cacheAct (CachePut key data) c = (None, cachePut key data c)"
| "cacheAct (CacheInvalidate name) c = (None, invalidateTool name c)"

primrec cacheRun :: "cacheOp list \<Rightarrow> readToolCache \<Rightarrow> bytes option list \<times> readToolCache" where
  "cacheRun [] c = ([], c)"
| "cacheRun (op # ops) c =
     (case cacheAct op c of (found, c1) \<Rightarrow> (case cacheRun ops c1 of (founds, c2) \<Rightarrow> (found # founds, c2)))"

section \<open>Keys\<close>

text \<open>\<^verbatim>\<open>toolCacheKey\<close>; \<open>args\<close> are the arguments in canonical form, and no baseline revision is the empty one.\<close>

definition toolCacheKey :: "bytes \<Rightarrow> bytes \<Rightarrow> nat \<Rightarrow> int \<Rightarrow> bytes \<Rightarrow> bytes \<Rightarrow> bytes \<Rightarrow> bytes" where
  "toolCacheKey name path epoch generation revision args baselineRevision =
     (let marked = (if baselineRevision \<noteq> [] then revision @ CHR 0x00 # ''baseline:'' @ baselineRevision else revision) in
      name @ CHR 0x00 # path @ CHR 0x00 # formatNat epoch @ CHR 0x00 # formatInt generation @ CHR 0x00 # marked @ CHR 0x00 # args)"

text \<open>\<open>reencode\<close> stands for decoding JSON into a generic value and encoding it again; it may fail.\<close>

definition canonicalToolArgs :: "(bytes \<Rightarrow> bytes option) \<Rightarrow> bytes \<Rightarrow> bytes" where
  "canonicalToolArgs reencode raw =
     (if raw = [] then ''{}'' else case reencode raw of None \<Rightarrow> raw | Some canonical \<Rightarrow> canonical)"

definition cacheableReadTools :: "bytes list" where
  "cacheableReadTools = [''ck3_search'', ''ck3_inspect'', ''ck3_dependencies'', ''ck3_diagnostics'', ''ck3_script_reference'',
     ''map_province_info'', ''map_title_context'', ''map_physical_context'', ''map_neighbors'', ''map_spatial_relation'',
     ''map_strategic_passages'', ''map_recipe_catalog'', ''map_building_candidates'', ''map_assignment_plan'',
     ''map_build_metric'', ''map_route'']"

text \<open>\<open>field\<close> is what \<^verbatim>\<open>toolArgumentEquals\<close> finds when it decodes the arguments: the trimmed string of a field, in
  lower case, or nothing.\<close>

definition toolArgumentEquals :: "(bytes \<Rightarrow> bytes option) \<Rightarrow> bytes \<Rightarrow> bytes \<Rightarrow> bool" where
  "toolArgumentEquals field name expected \<longleftrightarrow> field name = Some expected"

definition cacheableReadRequest :: "bytes \<Rightarrow> (bytes \<Rightarrow> bytes option) \<Rightarrow> bool" where
  "cacheableReadRequest name field \<longleftrightarrow>
     (if name = ''ck3_inspect'' then name \<in> set cacheableReadTools \<and> \<not> toolArgumentEquals field ''operation'' ''compare''
      else if name = ''ck3_script_reference'' then name \<in> set cacheableReadTools \<and> \<not> toolArgumentEquals field ''kind'' ''on_action''
      else name \<in> set cacheableReadTools)"

section \<open>The interface\<close>

text \<open>\<open>holds c k d\<close>: the store answers \<open>d\<close> for the key \<open>k\<close>. A lookup tells what is held; a store holds nothing
  that was not put there, and only the last response of a key.\<close>

locale response_store =
  fixes sound :: "'c \<Rightarrow> bool"
    and holds :: "'c \<Rightarrow> 'k \<Rightarrow> 'd \<Rightarrow> bool"
    and fetch :: "'k \<Rightarrow> 'c \<Rightarrow> 'd option \<times> 'c"
    and put :: "'k \<Rightarrow> 'd \<Rightarrow> 'c \<Rightarrow> 'c"
    and discard :: "'n \<Rightarrow> 'c \<Rightarrow> 'c"
  assumes fetch_law: "sound c \<Longrightarrow> sound (snd (fetch k c)) \<and> (\<forall>d. fst (fetch k c) = Some d \<longleftrightarrow> holds c k d)
      \<and> (\<forall>k' d. holds (snd (fetch k c)) k' d \<longleftrightarrow> holds c k' d)"
    and put_law: "sound c \<Longrightarrow> sound (put k d c) \<and> (\<forall>k' d'. holds (put k d c) k' d' \<longrightarrow> (if k' = k then d' = d \<or> put k d c = c else holds c k' d'))"
    and discard_law: "sound c \<Longrightarrow> sound (discard n c) \<and> (\<forall>k d. holds (discard n c) k d \<longrightarrow> holds c k d)"
begin

text \<open>What all stored responses satisfy, all fetched responses satisfy.\<close>

definition honest :: "('k \<Rightarrow> 'd \<Rightarrow> bool) \<Rightarrow> 'c \<Rightarrow> bool" where
  "honest P c \<longleftrightarrow> sound c \<and> (\<forall>k d. holds c k d \<longrightarrow> P k d)"

lemma honest_fetch: "honest P c \<Longrightarrow> honest P (snd (fetch k c)) \<and> (fst (fetch k c) = Some d \<longrightarrow> P k d)"
  using fetch_law [of c k] by (auto simp: honest_def)

lemma honest_put: "honest P c \<Longrightarrow> P k d \<Longrightarrow> honest P (put k d c)"
  using put_law [of c k d] by (auto simp: honest_def) (metis (full_types))

lemma honest_discard: "honest P c \<Longrightarrow> honest P (discard n c)"
  using discard_law [of c n] by (auto simp: honest_def)

end

end
