(* ===== verification/ToolCall.thy ===== *)
theory ToolCall
  imports ToolCache
begin

text \<open>
  \<^verbatim>\<open>callMCPTool\<close> of \<^verbatim>\<open>internal/mcpserver/runtime.go\<close>: how one tool call is bound to one published generation of the
  index. The database is read before and after the handler, a read-only tool is run once more when the
  generation changed under it, and answers of cacheable reads go through the response cache. What a call
  learns from outside, in the order it asks, is a \<open>callWorld\<close>; a response is the JSON text of its map. Parsing the
  request, repairing and validating its arguments is done before and is the parameter \<open>prepared\<close>.
\<close>

section \<open>Index states\<close>

record IndexState =
  IxBaselineRevision :: bytes
  IxGeneration :: int
  IxRevision :: bytes
  IxCommittedAt :: bytes
  IxStatus :: bytes

definition IndexStatusReady :: bytes where "IndexStatusReady = ''ready''"
definition IndexStatusStale :: bytes where "IndexStatusStale = ''stale''"

definition Ready :: "IndexState \<Rightarrow> bool" where
  "Ready s \<longleftrightarrow> IxStatus s = IndexStatusReady"

definition indexStateChanged :: "IndexState \<Rightarrow> IndexState \<Rightarrow> bool" where
  "indexStateChanged s t \<longleftrightarrow> IxGeneration s \<noteq> IxGeneration t \<or> IxRevision s \<noteq> IxRevision t \<or> IxStatus s \<noteq> IxStatus t
     \<or> IxBaselineRevision s \<noteq> IxBaselineRevision t"

definition indexStatePublishing :: "IndexState \<Rightarrow> bool" where
  "indexStatePublishing s \<longleftrightarrow> IxStatus s = ''finalizing''"

text \<open>\<open>None\<close> is a read that failed.\<close>

definition cacheablePublishedTransition :: "IndexState option \<Rightarrow> IndexState option \<Rightarrow> bool" where
  "cacheablePublishedTransition before after \<longleftrightarrow>
     (case (before, after) of
        (Some s, Some t) \<Rightarrow> Ready s \<and> Ready t \<and> IxRevision s \<noteq> [] \<and> IxRevision t \<noteq> [] \<and> \<not> indexStateChanged s t
      | _ \<Rightarrow> False)"

definition indexStateIndependentTool :: "bytes \<Rightarrow> bool" where
  "indexStateIndependentTool name \<longleftrightarrow>
     name \<in> {''ck3_script_reference'', ''ck3_health'', ''ck3_refresh'', ''ck3_save'', ''ck3_database''}"

definition indexStateIndependentRequest :: "bytes \<Rightarrow> (bytes \<Rightarrow> bytes option) \<Rightarrow> bool" where
  "indexStateIndependentRequest name field \<longleftrightarrow>
     indexStateIndependentTool name \<or> name = ''ck3_workspace'' \<and> field ''operation'' = Some ''capabilities''"

section \<open>A call and what it learns\<close>

datatype callFailure =
    InvalidRequestArguments
  | CallCancelled
  | BindingFailed
  | IndexFinalizing
  | IndexStale
  | ConflictingScan
  | HandlerFailed bytes
  | EncodingFailed
  | ResponseTooLarge

record ToolDefinition =
  TdName :: bytes
  TdReadOnly :: bool

record toolOutput =
  OtValue :: bytes
  OtCommitted :: bool
  OtStateUnverified :: bool

text \<open>The prepared request: the tool, its arguments in canonical form, and the string fields the gates look at.\<close>

record toolRequest =
  RqTool :: ToolDefinition
  RqArguments :: bytes
  RqField :: "bytes \<Rightarrow> bytes option"

text \<open>\<open>CwBinding\<close> is the path and the epoch of the database the call is bound to. \<open>CwHit\<close> is only read after a
  cache hit, \<open>CwRetry\<close> and \<open>CwAfterRetry\<close> only when the generation changed.\<close>

record callWorld =
  CwCancelledAtStart :: bool
  CwBinding :: "(bytes \<times> nat) option"
  CwBefore :: "IndexState option"
  CwHit :: "IndexState option"
  CwHandler :: "bytes + toolOutput"
  CwCancelled :: bool
  CwAfter :: "IndexState option"
  CwRetry :: "bytes + toolOutput"
  CwCancelledAtRetry :: bool
  CwAfterRetry :: "IndexState option"

datatype indexEnvelope = NoIndexState | VerifiedState IndexState | StateUnavailable

datatype callResult = CallFailed callFailure | CallAnswered bytes indexEnvelope

text \<open>The index state attached to a response (\<^verbatim>\<open>finalizeToolResult\<close>); \<open>fits\<close> is the response budget.\<close>

definition indexEnvelopeOf :: "bytes \<Rightarrow> IndexState option \<Rightarrow> bool \<Rightarrow> indexEnvelope" where
  "indexEnvelopeOf name state verified =
     (if name = ''ck3_database'' then NoIndexState
      else case (verified, state) of (True, Some s) \<Rightarrow> VerifiedState s | _ \<Rightarrow> StateUnavailable)"

definition finalizeToolResult ::
  "(toolRequest \<Rightarrow> bytes \<Rightarrow> indexEnvelope \<Rightarrow> bool) \<Rightarrow> toolRequest \<Rightarrow> bytes \<Rightarrow> IndexState option \<Rightarrow> bool \<Rightarrow> callResult" where
  "finalizeToolResult fits request payload state verified =
     (let envelope = indexEnvelopeOf (TdName (RqTool request)) state verified in
      if fits request payload envelope then CallAnswered payload envelope else CallFailed ResponseTooLarge)"

section \<open>Before the handler\<close>

text \<open>The states in which an index-backed tool is refused.\<close>

definition refusedState :: "toolRequest \<Rightarrow> IndexState option \<Rightarrow> callFailure option" where
  "refusedState request before =
     (case before of
        None \<Rightarrow> None
      | Some s \<Rightarrow>
          if indexStateIndependentRequest (TdName (RqTool request)) (RqField request) then None
          else if indexStatePublishing s then Some IndexFinalizing
          else if IxStatus s = IndexStatusStale then Some IndexStale
          else None)"

definition cacheableCall :: "toolRequest \<Rightarrow> bool" where
  "cacheableCall request \<longleftrightarrow> TdReadOnly (RqTool request) \<and> cacheableReadRequest (TdName (RqTool request)) (RqField request)"

definition requestKey :: "toolRequest \<Rightarrow> bytes \<Rightarrow> nat \<Rightarrow> IndexState \<Rightarrow> bytes" where
  "requestKey request path epoch s =
     toolCacheKey (TdName (RqTool request)) path epoch (IxGeneration s) (IxRevision s) (RqArguments request) (IxBaselineRevision s)"

text \<open>The lookup: a hit answers when the state read after it is the one its key was built from.\<close>

definition fromCache ::
  "(toolRequest \<Rightarrow> bytes \<Rightarrow> indexEnvelope \<Rightarrow> bool) \<Rightarrow> toolRequest \<Rightarrow> bytes \<Rightarrow> nat \<Rightarrow> IndexState option \<Rightarrow> IndexState option
     \<Rightarrow> readToolCache \<Rightarrow> callResult option \<times> readToolCache" where
  "fromCache fits request path epoch before hit c =
     (case before of
        Some s \<Rightarrow>
          if cacheableCall request \<and> Ready s \<and> IxRevision s \<noteq> [] then
            (case cacheGet (requestKey request path epoch s) c of
               (None, c1) \<Rightarrow> (None, c1)
             | (Some payload, c1) \<Rightarrow>
                 (case hit of
                    None \<Rightarrow> (None, c1)
                  | Some t \<Rightarrow>
                      if Ready t \<and> \<not> indexStateChanged s t \<and> \<not> indexStatePublishing t then
                        (case finalizeToolResult fits request payload (Some t) True of
                           CallFailed _ \<Rightarrow> (None, c1)
                         | answered \<Rightarrow> (Some answered, c1))
                      else (None, c1)))
          else (None, c)
      | None \<Rightarrow> (None, c))"

section \<open>The handler and the generation it read\<close>

text \<open>The output with the state its last run started from and the state after it.\<close>

type_synonym handled = "callFailure + toolOutput \<times> IndexState option \<times> IndexState option"

definition retryHandler :: "toolRequest \<Rightarrow> callWorld \<Rightarrow> IndexState \<Rightarrow> handled" where
  "retryHandler request w start =
     (let independent = indexStateIndependentRequest (TdName (RqTool request)) (RqField request) in
      if indexStatePublishing start \<and> \<not> independent then Inl IndexFinalizing
      else if \<not> TdReadOnly (RqTool request) then Inl ConflictingScan
      else case CwRetry w of
        Inl e \<Rightarrow> Inl (HandlerFailed e)
      | Inr output \<Rightarrow>
          if CwCancelledAtRetry w then Inl CallCancelled
          else case CwAfterRetry w of
            None \<Rightarrow> Inl IndexStale
          | Some after \<Rightarrow>
              if indexStatePublishing after \<and> \<not> independent then Inl IndexFinalizing
              else if indexStateChanged start after then Inl ConflictingScan
              else Inr (output, Some start, Some after))"

definition runHandler :: "toolRequest \<Rightarrow> callWorld \<Rightarrow> handled" where
  "runHandler request w =
     (case CwHandler w of
        Inl e \<Rightarrow> Inl (HandlerFailed e)
      | Inr output \<Rightarrow>
          if CwCancelled w \<and> \<not> OtCommitted output then Inl CallCancelled
          else case (CwBefore w, CwAfter w) of
            (Some before, Some after) \<Rightarrow>
              if indexStateChanged before after \<and> TdName (RqTool request) \<noteq> ''ck3_refresh'' \<and> \<not> OtCommitted output
              then retryHandler request w after
              else Inr (output, Some before, Some after)
          | (before, after) \<Rightarrow> Inr (output, before, after))"

section \<open>The call\<close>

text \<open>The response, and what is stored in the cache when the call returns.\<close>

definition finishCall ::
  "(toolRequest \<Rightarrow> toolOutput \<Rightarrow> bytes option) \<Rightarrow> (toolRequest \<Rightarrow> bytes \<Rightarrow> indexEnvelope \<Rightarrow> bool) \<Rightarrow> toolRequest \<Rightarrow> bytes \<Rightarrow> nat
     \<Rightarrow> callWorld \<Rightarrow> callResult \<times> (bytes \<times> bytes) option" where
  "finishCall encode fits request path epoch w =
     (case runHandler request w of
        Inl e \<Rightarrow> (CallFailed e, None)
      | Inr (output, start, after) \<Rightarrow>
          (case encode request output of
             None \<Rightarrow> (CallFailed EncodingFailed, None)
           | Some payload \<Rightarrow>
               let verified = (\<not> OtStateUnverified output \<and> CwBefore w \<noteq> None
                 \<and> (case after of Some t \<Rightarrow> Ready t | None \<Rightarrow> False)) in
               (case finalizeToolResult fits request payload after verified of
                  CallFailed e \<Rightarrow> (CallFailed e, None)
                | answered \<Rightarrow>
                    (answered,
                     if cacheableCall request \<and> cacheablePublishedTransition start after then
                       map_option (\<lambda>t. (requestKey request path epoch t, payload)) after
                     else None))))"

definition callMCPTool ::
  "(toolRequest \<Rightarrow> toolOutput \<Rightarrow> bytes option) \<Rightarrow> (toolRequest \<Rightarrow> bytes \<Rightarrow> indexEnvelope \<Rightarrow> bool) \<Rightarrow> toolRequest option \<Rightarrow> callWorld
     \<Rightarrow> readToolCache \<Rightarrow> (callResult \<times> (bytes \<times> bytes) option) \<times> readToolCache" where
  "callMCPTool encode fits prepared w c =
     (case prepared of
        None \<Rightarrow> ((CallFailed InvalidRequestArguments, None), c)
      | Some request \<Rightarrow>
          if CwCancelledAtStart w then ((CallFailed CallCancelled, None), c)
          else case CwBinding w of
            None \<Rightarrow> ((CallFailed BindingFailed, None), c)
          | Some (path, epoch) \<Rightarrow>
              (case refusedState request (CwBefore w) of
                 Some e \<Rightarrow> ((CallFailed e, None), c)
               | None \<Rightarrow>
                   (case fromCache fits request path epoch (CwBefore w) (CwHit w) c of
                      (Some answered, c1) \<Rightarrow> ((answered, None), c1)
                    | (None, c1) \<Rightarrow> (finishCall encode fits request path epoch w, c1))))"

section \<open>Many calls on one cache\<close>

record startedCall =
  ScRequest :: toolRequest
  ScWorld :: callWorld
  ScResult :: callResult
  ScStore :: "(bytes \<times> bytes) option"

record callState =
  csCache :: readToolCache
  csCalls :: "startedCall list"

definition beginCall ::
  "(toolRequest \<Rightarrow> toolOutput \<Rightarrow> bytes option) \<Rightarrow> (toolRequest \<Rightarrow> bytes \<Rightarrow> indexEnvelope \<Rightarrow> bool) \<Rightarrow> toolRequest \<Rightarrow> callWorld
     \<Rightarrow> callState \<Rightarrow> callState" where
  "beginCall encode fits request w cs =
     (case callMCPTool encode fits (Some request) w (csCache cs) of
        ((result, stored), c) \<Rightarrow>
          \<lparr>csCache = c, csCalls = csCalls cs @ [\<lparr>ScRequest = request, ScWorld = w, ScResult = result, ScStore = stored\<rparr>]\<rparr>)"

text \<open>The store at the end of a call comes after lookups and stores of other calls.\<close>

definition storeResponse :: "nat \<Rightarrow> callState \<Rightarrow> callState" where
  "storeResponse k cs =
     (if k < length (csCalls cs) then
        case ScStore (csCalls cs ! k) of
          None \<Rightarrow> cs
        | Some (key, payload) \<Rightarrow>
            \<lparr>csCache = cachePut key payload (csCache cs), csCalls = (csCalls cs)[k := (csCalls cs ! k)\<lparr>ScStore := None\<rparr>]\<rparr>
      else cs)"

inductive callReaches ::
  "(toolRequest \<Rightarrow> toolOutput \<Rightarrow> bytes option) \<Rightarrow> (toolRequest \<Rightarrow> bytes \<Rightarrow> indexEnvelope \<Rightarrow> bool) \<Rightarrow> (toolRequest \<Rightarrow> callWorld \<Rightarrow> bool)
     \<Rightarrow> readToolCache \<Rightarrow> callState \<Rightarrow> bool"
  for encode fits possible cache where
  callReaches_start: "callReaches encode fits possible cache \<lparr>csCache = cache, csCalls = []\<rparr>"
| callReaches_begin: "callReaches encode fits possible cache cs \<Longrightarrow> possible request w \<Longrightarrow>
    callReaches encode fits possible cache (beginCall encode fits request w cs)"
| callReaches_store: "callReaches encode fits possible cache cs \<Longrightarrow> callReaches encode fits possible cache (storeResponse k cs)"
| callReaches_invalidate: "callReaches encode fits possible cache cs \<Longrightarrow>
    callReaches encode fits possible cache (cs\<lparr>csCache := invalidateTool name (csCache cs)\<rparr>)"

end
