(* ===== verification/ToolCacheFacts.thy ===== *)
theory ToolCacheFacts
  imports ToolCache AssocLists
begin

text \<open>
  The response cache refines one list of keys and responses, most recently used first: \<open>lruGet\<close>, \<open>lruPut\<close> and
  \<open>lruDrop\<close> say what the operations promise, \<open>absCache\<close> reads the list off the struct. The byte counter is the
  sum of what is held and never exceeds the budget. The interpretation of \<open>response_store\<close> is what the callers
  of the cache use.
\<close>

section \<open>The abstract cache\<close>

type_synonym lruList = "(bytes \<times> bytes) list"

definition totalBytes :: "lruList \<Rightarrow> int" where
  "totalBytes xs = (\<Sum>(k, d)\<leftarrow>xs. int (length d))"

function trimLru :: "int \<Rightarrow> lruList \<Rightarrow> lruList" where
  "trimLru maxBytes xs = (if totalBytes xs > maxBytes \<and> xs \<noteq> [] then trimLru maxBytes (butlast xs) else xs)"
  by pat_completeness auto

termination
  by (relation "measure (\<lambda>(_, xs). length xs)") auto

declare trimLru.simps [simp del]

definition lruGet :: "bytes \<Rightarrow> lruList \<Rightarrow> bytes option \<times> lruList" where
  "lruGet k xs = (map_of xs k, case map_of xs k of None \<Rightarrow> xs | Some d \<Rightarrow> (k, d) # AList.delete k xs)"

definition lruPut :: "int \<Rightarrow> int \<Rightarrow> bytes \<Rightarrow> bytes \<Rightarrow> lruList \<Rightarrow> lruList" where
  "lruPut maxBytes maxEntry k d xs =
     (if int (length d) > maxEntry then xs else trimLru maxBytes ((k, d) # AList.delete k xs))"

definition lruDrop :: "bytes \<Rightarrow> lruList \<Rightarrow> lruList" where
  "lruDrop name xs = filter (\<lambda>(k, d). \<not> hasPrefix k (name @ [CHR 0x00])) xs"

lemma totalBytes_simps [simp]:
  "totalBytes [] = 0" "totalBytes ((k, d) # xs) = int (length d) + totalBytes xs" "totalBytes (xs @ ys) = totalBytes xs + totalBytes ys"
  by (simp_all add: totalBytes_def)

lemma trimLru_bound: "0 \<le> maxBytes \<Longrightarrow> totalBytes (trimLru maxBytes xs) \<le> maxBytes"
proof (induction maxBytes xs rule: trimLru.induct)
  case (1 maxBytes xs)
  then show ?case by (subst trimLru.simps) (auto simp: not_less)
qed

lemma trimLru_prefix: "\<exists>ys. xs = trimLru maxBytes xs @ ys"
proof (induction maxBytes xs rule: trimLru.induct)
  case (1 maxBytes xs)
  show ?case
  proof (cases "totalBytes xs > maxBytes \<and> xs \<noteq> []")
    case True
    then obtain ys where ys: "butlast xs = trimLru maxBytes (butlast xs) @ ys" using 1 by blast
    have "xs = butlast xs @ [last xs]" using True by simp
    also have "\<dots> = trimLru maxBytes (butlast xs) @ (ys @ [last xs])" by (subst ys) simp
    also have "trimLru maxBytes (butlast xs) = trimLru maxBytes xs" using True by (subst (2) trimLru.simps) simp
    finally show ?thesis by blast
  next
    case False then show ?thesis by (subst trimLru.simps) auto
  qed
qed

text \<open>What is thrown out is thrown out because it does not fit.\<close>

lemma trimLru_fits: "totalBytes xs \<le> maxBytes \<Longrightarrow> trimLru maxBytes xs = xs"
  by (subst trimLru.simps) simp

section \<open>The struct and the list\<close>

definition entryAt :: "readToolCache \<Rightarrow> nat \<Rightarrow> bytes \<times> bytes" where
  "entryAt c e = (CeKey (TcElements c ! e), CeData (TcElements c ! e))"

definition absCache :: "readToolCache \<Rightarrow> lruList" where
  "absCache c = map (entryAt c) (TcLru c)"

definition cacheOk :: "readToolCache \<Rightarrow> bool" where
  "cacheOk c \<longleftrightarrow>
     distinct (TcLru c) \<and> (\<forall>e \<in> set (TcLru c). e < length (TcElements c))
     \<and> distinct (map fst (TcEntries c)) \<and> set (TcEntries c) = (\<lambda>e. (CeKey (TcElements c ! e), e)) ` set (TcLru c)
     \<and> TcCurBytes c = totalBytes (absCache c)"

lemma cacheOk_new: "cacheOk (newReadToolCache maxBytes maxEntry)" "absCache (newReadToolCache maxBytes maxEntry) = []"
  by (simp_all add: cacheOk_def newReadToolCache_def absCache_def)

lemma cacheOk_entry:
  assumes "cacheOk c"
  shows "map_of (TcEntries c) k = Some e \<longleftrightarrow> e \<in> set (TcLru c) \<and> CeKey (TcElements c ! e) = k"
proof -
  have "map_of (TcEntries c) k = Some e \<longleftrightarrow> (k, e) \<in> set (TcEntries c)"
    using assms by (simp add: cacheOk_def map_of_eq_Some_iff)
  then show ?thesis using assms by (auto simp: cacheOk_def)
qed

lemma cacheOk_unique:
  assumes "cacheOk c" and "e \<in> set (TcLru c)" "e' \<in> set (TcLru c)"
  shows "CeKey (TcElements c ! e) = CeKey (TcElements c ! e') \<longleftrightarrow> e = e'"
  using cacheOk_entry [OF assms(1)] assms(2,3) by (metis option.inject)

lemma absCache_keys: "cacheOk c \<Longrightarrow> distinct (map fst (absCache c))"
  using cacheOk_unique [of c] by (auto simp: absCache_def cacheOk_def distinct_map o_def entryAt_def intro!: inj_onI)

lemma absCache_lookup:
  assumes ok: "cacheOk c"
  shows "map_of (absCache c) k = map_option (\<lambda>e. CeData (TcElements c ! e)) (map_of (TcEntries c) k)"
proof (cases "map_of (TcEntries c) k")
  case None
  then have "\<forall>e \<in> set (TcLru c). CeKey (TcElements c ! e) \<noteq> k"
    using cacheOk_entry [OF ok, of k] by auto
  then have "k \<notin> fst ` set (absCache c)"
    by (simp add: absCache_def entryAt_def image_image image_iff eq_commute)
  then have "map_of (absCache c) k = None" by (simp add: map_of_eq_None_iff)
  then show ?thesis using None by simp
next
  case (Some e)
  then have "(k, CeData (TcElements c ! e)) \<in> set (absCache c)"
    using cacheOk_entry [OF ok] by (force simp: absCache_def entryAt_def)
  then show ?thesis using Some absCache_keys [OF ok] by (simp add: map_of_eq_Some_iff)
qed

lemma remove_is_delete:
  assumes ok: "cacheOk c" and e: "e \<in> set (TcLru c)"
  shows "map (entryAt c) (remove1 e (TcLru c)) = AList.delete (CeKey (TcElements c ! e)) (absCache c)"
proof -
  have "distinct (TcLru c)" using ok by (simp add: cacheOk_def)
  then have "map (entryAt c) (remove1 e (TcLru c)) = map (entryAt c) (filter (\<lambda>x. e \<noteq> x) (TcLru c))"
    by (simp add: distinct_remove1_removeAll removeAll_filter_not_eq)
  also have "\<dots> = map (entryAt c) (filter (\<lambda>x. CeKey (TcElements c ! x) \<noteq> CeKey (TcElements c ! e)) (TcLru c))"
    using cacheOk_unique [OF ok _ e] by (intro arg_cong [of _ _ "map (entryAt c)"] filter_cong) auto
  also have "\<dots> = AList.delete (CeKey (TcElements c ! e)) (absCache c)"
    by (simp add: AList.delete_eq absCache_def filter_map o_def entryAt_def case_prod_beta eq_commute)
  finally show ?thesis .
qed

lemma totalBytes_split:
  assumes "distinct (map fst xs)" and "(k, d) \<in> set xs"
  shows "totalBytes xs = int (length d) + totalBytes (AList.delete k xs)"
  using assms
proof (induction xs)
  case (Cons x xs)
  obtain i b where x: "x = (i, b)" by (cases x)
  show ?case
  proof (cases "i = k")
    case True
    then have "k \<notin> fst ` set xs" using Cons.prems(1) x by simp
    then have "AList.delete k xs = xs" "d = b"
      using Cons.prems(2) x True by (auto simp: AList.delete_eq filter_id_conv image_iff)
    then show ?thesis using x True by simp
  next
    case False then show ?thesis using Cons x by simp
  qed
qed simp

section \<open>The operations refine the list\<close>

lemma moveToFront_refines:
  assumes ok: "cacheOk c" and e: "e \<in> set (TcLru c)"
  shows "cacheOk (moveToFront e c)"
    and "absCache (moveToFront e c) = entryAt c e # AList.delete (CeKey (TcElements c ! e)) (absCache c)"
proof -
  have same: "entryAt (moveToFront e c) = entryAt c" by (simp add: entryAt_def moveToFront_def fun_eq_iff)
  show abs: "absCache (moveToFront e c) = entryAt c e # AList.delete (CeKey (TcElements c ! e)) (absCache c)"
    using remove_is_delete [OF ok e] by (simp add: absCache_def same) (simp add: moveToFront_def absCache_def)
  have "(CeKey (TcElements c ! e), CeData (TcElements c ! e)) \<in> set (absCache c)"
    using e by (simp add: absCache_def entryAt_def)
  then have "totalBytes (absCache (moveToFront e c)) = totalBytes (absCache c)"
    using totalBytes_split [OF absCache_keys [OF ok]] by (simp add: abs entryAt_def)
  moreover have "insert e (set (TcLru c) - {e}) = set (TcLru c)" using e by auto
  ultimately show "cacheOk (moveToFront e c)"
    using ok e by (simp add: cacheOk_def) (simp add: moveToFront_def)
qed

lemma cacheOk_counters [simp]:
  "cacheOk (c\<lparr>TcHits := h\<rparr>) = cacheOk c" "cacheOk (c\<lparr>TcMisses := h\<rparr>) = cacheOk c"
  "absCache (c\<lparr>TcHits := h\<rparr>) = absCache c" "absCache (c\<lparr>TcMisses := h\<rparr>) = absCache c"
proof -
  have "absCache (c\<lparr>TcHits := h\<rparr>) = absCache c" "absCache (c\<lparr>TcMisses := h\<rparr>) = absCache c"
    by (simp_all add: absCache_def entryAt_def fun_eq_iff)
  then show "cacheOk (c\<lparr>TcHits := h\<rparr>) = cacheOk c" "cacheOk (c\<lparr>TcMisses := h\<rparr>) = cacheOk c"
    "absCache (c\<lparr>TcHits := h\<rparr>) = absCache c" "absCache (c\<lparr>TcMisses := h\<rparr>) = absCache c"
    by (simp_all add: cacheOk_def)
qed

lemma cacheGet_refines:
  assumes ok: "cacheOk c"
  shows "cacheOk (snd (cacheGet k c))" and "fst (cacheGet k c) = fst (lruGet k (absCache c))"
    and "absCache (snd (cacheGet k c)) = snd (lruGet k (absCache c))"
    and "TcMaxBytes (snd (cacheGet k c)) = TcMaxBytes c" and "TcMaxEntry (snd (cacheGet k c)) = TcMaxEntry c"
proof -
  have "cacheOk (snd (cacheGet k c)) \<and> fst (cacheGet k c) = fst (lruGet k (absCache c))
    \<and> absCache (snd (cacheGet k c)) = snd (lruGet k (absCache c))
    \<and> TcMaxBytes (snd (cacheGet k c)) = TcMaxBytes c \<and> TcMaxEntry (snd (cacheGet k c)) = TcMaxEntry c"
  proof (cases "map_of (TcEntries c) k")
    case None
    then show ?thesis using ok absCache_lookup [OF ok] by (simp add: cacheGet_def lruGet_def)
  next
    case (Some e)
    then have e: "e \<in> set (TcLru c)" "CeKey (TcElements c ! e) = k" using cacheOk_entry [OF ok] by simp_all
    then show ?thesis
      using Some moveToFront_refines [OF ok e(1)] absCache_lookup [OF ok, of k]
      by (simp add: cacheGet_def lruGet_def entryAt_def) (simp add: moveToFront_def)
  qed
  then show "cacheOk (snd (cacheGet k c))" "fst (cacheGet k c) = fst (lruGet k (absCache c))"
    "absCache (snd (cacheGet k c)) = snd (lruGet k (absCache c))"
    "TcMaxBytes (snd (cacheGet k c)) = TcMaxBytes c" "TcMaxEntry (snd (cacheGet k c)) = TcMaxEntry c"
    by blast+
qed

lemma removeElement_fields [simp]:
  "TcElements (removeElement e c) = TcElements c" "TcLru (removeElement e c) = remove1 e (TcLru c)"
  "TcMaxBytes (removeElement e c) = TcMaxBytes c" "TcMaxEntry (removeElement e c) = TcMaxEntry c"
  by (simp_all add: removeElement_def Let_def)

lemma removeElement_refines:
  assumes ok: "cacheOk c" and e: "e \<in> set (TcLru c)"
  shows "cacheOk (removeElement e c)" and "absCache (removeElement e c) = AList.delete (CeKey (TcElements c ! e)) (absCache c)"
proof -
  have same: "entryAt (removeElement e c) = entryAt c" by (simp add: entryAt_def fun_eq_iff)
  show abs: "absCache (removeElement e c) = AList.delete (CeKey (TcElements c ! e)) (absCache c)"
    using remove_is_delete [OF ok e] by (simp add: absCache_def same)
  have "(CeKey (TcElements c ! e), CeData (TcElements c ! e)) \<in> set (absCache c)"
    using e by (simp add: absCache_def entryAt_def)
  then have bytes: "TcCurBytes (removeElement e c) = totalBytes (absCache (removeElement e c))"
    using totalBytes_split [OF absCache_keys [OF ok]] ok by (simp add: abs cacheOk_def) (simp add: removeElement_def Let_def)
  have entries: "TcEntries (removeElement e c) = AList.delete (CeKey (TcElements c ! e)) (TcEntries c)"
    by (simp add: removeElement_def Let_def)
  have "set (TcEntries (removeElement e c)) = (\<lambda>e. (CeKey (TcElements c ! e), e)) ` set (TcLru (removeElement e c))"
  proof -
    have "CeKey (TcElements c ! e) \<noteq> CeKey (TcElements c ! x) \<longleftrightarrow> x \<noteq> e" if "x \<in> set (TcLru c)" for x
      using cacheOk_unique [OF ok that e] by auto
    then show ?thesis using ok by (auto simp: entries AList.delete_eq cacheOk_def)
  qed
  then show "cacheOk (removeElement e c)"
    using ok bytes by (simp add: cacheOk_def entries distinct_delete)
qed

lemma remove1_last: "distinct xs \<Longrightarrow> xs \<noteq> [] \<Longrightarrow> remove1 (last xs) xs = butlast xs"
  by (cases xs rule: rev_cases) (auto simp: remove1_append)

lemma entryAt_removed [simp]: "entryAt (removeElement e c) = entryAt c"
  by (simp add: entryAt_def fun_eq_iff)

lemma evictLoop_refines:
  "cacheOk c \<Longrightarrow> cacheOk (evictLoop c) \<and> absCache (evictLoop c) = trimLru (TcMaxBytes c) (absCache c)
     \<and> TcMaxBytes (evictLoop c) = TcMaxBytes c \<and> TcMaxEntry (evictLoop c) = TcMaxEntry c"
proof (induction c rule: evictLoop.induct)
  case (1 c)
  have bytes: "TcCurBytes c = totalBytes (absCache c)" "absCache c = [] \<longleftrightarrow> TcLru c = []"
    using 1(2) by (auto simp: cacheOk_def absCache_def)
  show ?case
  proof (cases "TcCurBytes c > TcMaxBytes c \<and> TcLru c \<noteq> []")
    case True
    let ?e = "last (TcLru c)"
    have e: "?e \<in> set (TcLru c)" using True by simp
    note removed = removeElement_refines [OF 1(2) e]
    have "absCache (removeElement ?e c) = butlast (absCache c)"
      using 1(2) True by (simp add: absCache_def cacheOk_def remove1_last map_butlast)
    then have "trimLru (TcMaxBytes c) (absCache c) = trimLru (TcMaxBytes c) (absCache (removeElement ?e c))"
      using True bytes by (subst trimLru.simps) simp
    then show ?thesis
      using 1(1) [OF True removed(1)] True by (subst (1 2 3 4) evictLoop.simps) simp
  next
    case False
    then show ?thesis using 1(2) bytes by (subst (1 2 3 4) evictLoop.simps, subst trimLru.simps) auto
  qed
qed

lemma insertEntry_refines:
  assumes ok: "cacheOk c"
  shows "cacheOk (insertEntry k d c)" and "absCache (insertEntry k d c) = (k, d) # AList.delete k (absCache c)"
    and "TcMaxBytes (insertEntry k d c) = TcMaxBytes c" and "TcMaxEntry (insertEntry k d c) = TcMaxEntry c"
proof -
  have "cacheOk (insertEntry k d c) \<and> absCache (insertEntry k d c) = (k, d) # AList.delete k (absCache c)
    \<and> TcMaxBytes (insertEntry k d c) = TcMaxBytes c \<and> TcMaxEntry (insertEntry k d c) = TcMaxEntry c"
  proof (cases "map_of (TcEntries c) k")
    case (Some e)
    then have e: "e \<in> set (TcLru c)" "CeKey (TcElements c ! e) = k" using cacheOk_entry [OF ok] by simp_all
    define c1 where "c1 = c\<lparr>TcCurBytes := TcCurBytes c + (int (length d) - int (length (CeData (TcElements c ! e)))),
      TcElements := (TcElements c)[e := (TcElements c ! e)\<lparr>CeData := d\<rparr>]\<rparr>"
    have c1: "TcLru c1 = TcLru c" "TcEntries c1 = TcEntries c" "TcMaxBytes c1 = TcMaxBytes c" "TcMaxEntry c1 = TcMaxEntry c"
      "length (TcElements c1) = length (TcElements c)" by (simp_all add: c1_def)
    have range: "e < length (TcElements c)" using ok e(1) by (simp add: cacheOk_def)
    have key: "CeKey (TcElements c1 ! x) = CeKey (TcElements c ! x)" for x
      using range by (cases "x = e") (simp_all add: c1_def)
    have at: "entryAt c1 e = (k, d)" "x \<noteq> e \<Longrightarrow> entryAt c1 x = entryAt c x" for x
      using range e(2) by (simp_all add: c1_def entryAt_def)
    have keys: "map fst (absCache c1) = map fst (absCache c)" by (simp add: absCache_def c1 entryAt_def key)
    have "AList.delete k (absCache c1) = map (entryAt c1) (filter (\<lambda>x. CeKey (TcElements c ! x) \<noteq> k) (TcLru c))"
      by (simp add: AList.delete_eq absCache_def c1 filter_map o_def entryAt_def key eq_commute)
    also have "\<dots> = map (entryAt c) (filter (\<lambda>x. CeKey (TcElements c ! x) \<noteq> k) (TcLru c))"
      by (rule map_cong) (use e(2) in \<open>auto intro!: at(2)\<close>)
    also have "\<dots> = AList.delete k (absCache c)"
      by (simp add: AList.delete_eq absCache_def filter_map o_def entryAt_def eq_commute)
    finally have others: "AList.delete k (absCache c1) = AList.delete k (absCache c)" .
    have "(k, d) \<in> set (absCache c1)" "(k, CeData (TcElements c ! e)) \<in> set (absCache c)"
      using e at(1) by (force simp: absCache_def c1, force simp: absCache_def entryAt_def)
    then have "totalBytes (absCache c1) + int (length (CeData (TcElements c ! e))) = totalBytes (absCache c) + int (length d)"
      using totalBytes_split [of "absCache c1" k d] totalBytes_split [of "absCache c" k] absCache_keys [OF ok] by (simp add: keys others)
    then have "cacheOk c1"
      using ok by (simp add: cacheOk_def c1 key) (simp add: c1_def)
    then show ?thesis
      using moveToFront_refines [of c1 e] e others at(1) Some
      by (simp add: insertEntry_def Let_def c1_def [symmetric] c1 key) (simp add: moveToFront_def c1)
  next
    case None
    let ?n = "length (TcElements c)"
    define c1 where "c1 = c\<lparr>TcElements := TcElements c @ [\<lparr>CeKey = k, CeData = d\<rparr>], TcLru := ?n # TcLru c,
      TcEntries := AList.update k ?n (TcEntries c), TcCurBytes := TcCurBytes c + int (length d)\<rparr>"
    have range: "x < ?n" if "x \<in> set (TcLru c)" for x using ok that by (simp add: cacheOk_def)
    have at: "TcElements c1 ! ?n = \<lparr>CeKey = k, CeData = d\<rparr>" "x < ?n \<Longrightarrow> TcElements c1 ! x = TcElements c ! x" for x
      by (simp_all add: c1_def nth_append)
    have absent: "k \<notin> fst ` set (TcEntries c)" using None by (simp add: map_of_eq_None_iff)
    have entries: "TcEntries c1 = TcEntries c @ [(k, ?n)]"
      using absent by (simp add: c1_def update_new)
    have abs: "absCache c1 = (k, d) # absCache c"
      using range at by (auto simp: absCache_def entryAt_def) (simp_all add: c1_def entryAt_def nth_append)
    have "map_of (absCache c) k = None" using absCache_lookup [OF ok, of k] None by simp
    then have gone: "AList.delete k (absCache c) = absCache c" by (simp add: delete_id map_of_eq_None_iff)
    have "cacheOk c1"
      using ok range at absent by (auto simp: cacheOk_def entries abs) (auto simp: c1_def intro: less_SucI)
    then show ?thesis
      using None abs gone by (simp add: insertEntry_def Let_def c1_def [symmetric]) (simp add: c1_def)
  qed
  then show "cacheOk (insertEntry k d c)" "absCache (insertEntry k d c) = (k, d) # AList.delete k (absCache c)"
    "TcMaxBytes (insertEntry k d c) = TcMaxBytes c" "TcMaxEntry (insertEntry k d c) = TcMaxEntry c"
    by blast+
qed

lemma cachePut_refines:
  assumes ok: "cacheOk c"
  shows "cacheOk (cachePut k d c)" and "absCache (cachePut k d c) = lruPut (TcMaxBytes c) (TcMaxEntry c) k d (absCache c)"
    and "TcMaxBytes (cachePut k d c) = TcMaxBytes c" and "TcMaxEntry (cachePut k d c) = TcMaxEntry c"
  using ok insertEntry_refines [OF ok, of k d] evictLoop_refines [of "insertEntry k d c"]
  by (simp_all add: cachePut_def lruPut_def)

lemma invalidate_loop:
  fixes p :: bytes
  assumes "cacheOk c" and "distinct es" and "set es \<subseteq> set (TcLru c)"
  defines "c' \<equiv> fold (\<lambda>e c. if hasPrefix (CeKey (TcElements c ! e)) p then removeElement e c else c) es c"
  shows "cacheOk c' \<and> TcElements c' = TcElements c \<and> TcLru c' = filter (\<lambda>e. \<not> (e \<in> set es \<and> hasPrefix (CeKey (TcElements c ! e)) p)) (TcLru c)
    \<and> TcMaxBytes c' = TcMaxBytes c \<and> TcMaxEntry c' = TcMaxEntry c"
  using assms(1-3) unfolding c'_def
proof (induction es arbitrary: c)
  case Nil
  then show ?case by simp
next
  case (Cons e es)
  let ?hit = "hasPrefix (CeKey (TcElements c ! e)) p"
  let ?c = "if ?hit then removeElement e c else c"
  have d: "distinct (TcLru c)" using Cons.prems(1) by (simp add: cacheOk_def)
  have "cacheOk ?c" using Cons.prems removeElement_refines(1) by simp
  moreover have "set es \<subseteq> set (TcLru ?c)" using Cons.prems d by auto
  moreover have "TcElements ?c = TcElements c" "TcMaxBytes ?c = TcMaxBytes c" "TcMaxEntry ?c = TcMaxEntry c"
    "TcLru ?c = filter (\<lambda>x. \<not> (x = e \<and> ?hit)) (TcLru c)"
    using d by (auto simp: distinct_remove1_removeAll removeAll_filter_not_eq intro: filter_cong)
  ultimately show ?case
    using Cons.IH [of ?c] Cons.prems(2) by (auto intro!: filter_cong)
qed

lemma invalidateTool_refines:
  assumes ok: "cacheOk c"
  shows "cacheOk (invalidateTool name c)" and "absCache (invalidateTool name c) = lruDrop name (absCache c)"
    and "TcMaxBytes (invalidateTool name c) = TcMaxBytes c" and "TcMaxEntry (invalidateTool name c) = TcMaxEntry c"
proof -
  have "distinct (TcLru c)" using ok by (simp add: cacheOk_def)
  note loop = invalidate_loop [OF ok this order_refl, of "name @ [CHR 0x00]", folded invalidateTool_def]
  then show "cacheOk (invalidateTool name c)" "TcMaxBytes (invalidateTool name c) = TcMaxBytes c"
    "TcMaxEntry (invalidateTool name c) = TcMaxEntry c" by simp_all
  have "TcLru (invalidateTool name c) = filter (\<lambda>e. \<not> hasPrefix (CeKey (TcElements c ! e)) (name @ [CHR 0x00])) (TcLru c)"
    using loop by (auto intro: filter_cong)
  moreover have "entryAt (invalidateTool name c) = entryAt c" using loop by (simp add: entryAt_def fun_eq_iff)
  ultimately show "absCache (invalidateTool name c) = lruDrop name (absCache c)"
    by (simp add: absCache_def lruDrop_def filter_map o_def entryAt_def)
qed

section \<open>Keys\<close>

lemma formatNat_inject: "formatNat n = formatNat m \<Longrightarrow> n = m"
  by (metis option.inject parseDigits_formatNat)

definition int64 :: "int \<Rightarrow> bool" where
  "int64 n \<longleftrightarrow> - (2 ^ 63) \<le> n \<and> n < 2 ^ 63"

lemma formatInt_inject: "int64 n \<Longrightarrow> int64 m \<Longrightarrow> formatInt n = formatInt m \<Longrightarrow> n = m"
  unfolding int64_def by (metis option.inject parseInt_formatInt)

lemma nul_not_in_number: "CHR 0x00 \<notin> set (formatNat n)" "CHR 0x00 \<notin> set (formatInt i)"
proof -
  show nat: "CHR 0x00 \<notin> set (formatNat n)" for n
    using formatNat_digits [of "CHR 0x00" n] by (auto simp: isDigit_def byteOf_def)
  show "CHR 0x00 \<notin> set (formatInt i)" using nat by (simp add: formatInt_def)
qed

text \<open>A zero byte occurs in none of the fields, so the key determines them.\<close>

lemma toolCacheKey_fields:
  assumes "CHR 0x00 \<notin> set name \<union> set path \<union> set revision \<union> set args \<union> set baseline"
  shows "splitOn (CHR 0x00) (toolCacheKey name path epoch generation revision args baseline) =
    [name, path, formatNat epoch, formatInt generation, revision] @ (if baseline \<noteq> [] then [''baseline:'' @ baseline] else []) @ [args]"
proof -
  have nul: "CHR 0x00 \<notin> set name" "CHR 0x00 \<notin> set path" "CHR 0x00 \<notin> set revision" "CHR 0x00 \<notin> set args" "CHR 0x00 \<notin> set (''baseline:'' @ baseline)"
    using assms by auto
  note split = splitOn_append_sep [OF nul(1)] splitOn_append_sep [OF nul(2)] splitOn_append_sep [OF nul(3)] splitOn_append_sep [OF nul(5)]
    splitOn_append_sep [OF nul_not_in_number(1)] splitOn_append_sep [OF nul_not_in_number(2)] splitOn_no_sep [OF nul(4)]
  show ?thesis
  proof (cases "baseline = []")
    case True
    then show ?thesis by (simp only: toolCacheKey_def Let_def split simp_thms if_False if_True append.simps)
  next
    case False
    have "(revision @ CHR 0x00 # ''baseline:'' @ baseline) @ CHR 0x00 # args
        = revision @ CHR 0x00 # ((''baseline:'' @ baseline) @ CHR 0x00 # args)"
      by simp
    then show ?thesis using False by (simp only: toolCacheKey_def Let_def split simp_thms if_False if_True) simp
  qed
qed

lemma toolCacheKey_inject:
  assumes "toolCacheKey name path epoch generation revision args baseline = toolCacheKey name' path' epoch' generation' revision' args' baseline'"
    and nul: "CHR 0x00 \<notin> set name \<union> set path \<union> set revision \<union> set args \<union> set baseline"
      "CHR 0x00 \<notin> set name' \<union> set path' \<union> set revision' \<union> set args' \<union> set baseline'"
    and "int64 generation" "int64 generation'"
  shows "name = name' \<and> path = path' \<and> epoch = epoch' \<and> generation = generation' \<and> revision = revision' \<and> args = args' \<and> baseline = baseline'"
proof -
  have "[name, path, formatNat epoch, formatInt generation, revision] @ (if baseline \<noteq> [] then [''baseline:'' @ baseline] else []) @ [args]
      = [name', path', formatNat epoch', formatInt generation', revision'] @ (if baseline' \<noteq> [] then [''baseline:'' @ baseline'] else []) @ [args']"
    unfolding toolCacheKey_fields [OF nul(1), symmetric] toolCacheKey_fields [OF nul(2), symmetric] assms(1) ..
  moreover have "formatNat epoch = formatNat epoch' \<Longrightarrow> epoch = epoch'" by (rule formatNat_inject)
  moreover have "formatInt generation = formatInt generation' \<Longrightarrow> generation = generation'" by (rule formatInt_inject [OF assms(4,5)])
  ultimately show ?thesis by (auto split: if_splits)
qed

section \<open>The cache as a store of responses\<close>

definition cached :: "readToolCache \<Rightarrow> bytes \<Rightarrow> bytes \<Rightarrow> bool" where
  "cached c k d \<longleftrightarrow> map_of (absCache c) k = Some d"

lemma lruGet_keeps: "distinct (map fst xs) \<Longrightarrow> map_of (snd (lruGet k xs)) = map_of xs"
  by (auto simp: lruGet_def AList.delete_conv' fun_eq_iff split: option.splits)

lemma lruPut_keeps:
  assumes "distinct (map fst xs)" and "map_of (lruPut maxBytes maxEntry k d xs) k' = Some d'" and "int (length d) \<le> maxEntry"
  shows "if k' = k then d' = d else map_of xs k' = Some d'"
proof -
  obtain ys where ys: "(k, d) # AList.delete k xs = trimLru maxBytes ((k, d) # AList.delete k xs) @ ys"
    using trimLru_prefix by blast
  have "map_of (trimLru maxBytes ((k, d) # AList.delete k xs)) k' = Some d'"
    using assms(2,3) by (simp add: lruPut_def)
  then have "map_of (trimLru maxBytes ((k, d) # AList.delete k xs) @ ys) k' = Some d'" by simp
  then have "map_of ((k, d) # AList.delete k xs) k' = Some d'" unfolding ys [symmetric] .
  then show ?thesis by (auto simp: AList.delete_conv' split: if_splits)
qed

lemma lruDrop_keeps: "distinct (map fst xs) \<Longrightarrow> map_of (lruDrop name xs) k = Some d \<Longrightarrow> map_of xs k = Some d"
  by (auto simp: lruDrop_def dest!: map_of_SomeD)

interpretation responses: response_store cacheOk cached cacheGet cachePut invalidateTool
proof unfold_locales
  fix c k d n assume ok: "cacheOk c"
  note keys = absCache_keys [OF ok]
  show "cacheOk (snd (cacheGet k c)) \<and> (\<forall>d. (fst (cacheGet k c) = Some d) = cached c k d)
      \<and> (\<forall>k' d. cached (snd (cacheGet k c)) k' d = cached c k' d)"
    using cacheGet_refines [OF ok, of k] lruGet_keeps [OF keys] by (simp add: cached_def) (simp add: lruGet_def)
  show "cacheOk (cachePut k d c) \<and> (\<forall>k' d'. cached (cachePut k d c) k' d' \<longrightarrow>
      (if k' = k then d' = d \<or> cachePut k d c = c else cached c k' d'))"
  proof (cases "int (length d) > TcMaxEntry c")
    case True then show ?thesis using ok by (simp add: cachePut_def)
  next
    case False
    then show ?thesis
      using cachePut_refines(1,2) [OF ok, of k d] lruPut_keeps [OF keys] by (auto simp: cached_def)
  qed
  show "cacheOk (invalidateTool n c) \<and> (\<forall>k d. cached (invalidateTool n c) k d \<longrightarrow> cached c k d)"
    using invalidateTool_refines(1,2) [OF ok, of n] lruDrop_keeps [OF keys] by (simp add: cached_def)
qed

section \<open>Runs\<close>

primrec lruAct :: "int \<Rightarrow> int \<Rightarrow> cacheOp \<Rightarrow> lruList \<Rightarrow> bytes option \<times> lruList" where
  "lruAct maxBytes maxEntry (CacheGet key) xs = lruGet key xs"
| "lruAct maxBytes maxEntry (CachePut key data) xs = (None, lruPut maxBytes maxEntry key data xs)"
| "lruAct maxBytes maxEntry (CacheInvalidate name) xs = (None, lruDrop name xs)"

primrec lruRun :: "int \<Rightarrow> int \<Rightarrow> cacheOp list \<Rightarrow> lruList \<Rightarrow> bytes option list \<times> lruList" where
  "lruRun maxBytes maxEntry [] xs = ([], xs)"
| "lruRun maxBytes maxEntry (op # ops) xs =
     (case lruAct maxBytes maxEntry op xs of (found, ys) \<Rightarrow>
       (case lruRun maxBytes maxEntry ops ys of (founds, zs) \<Rightarrow> (found # founds, zs)))"

lemma cacheAct_refines:
  assumes ok: "cacheOk c" and act: "cacheAct op c = (found, c')"
  shows "cacheOk c'" and "lruAct (TcMaxBytes c) (TcMaxEntry c) op (absCache c) = (found, absCache c')"
    and "TcMaxBytes c' = TcMaxBytes c" and "TcMaxEntry c' = TcMaxEntry c"
proof -
  have "cacheOk c' \<and> lruAct (TcMaxBytes c) (TcMaxEntry c) op (absCache c) = (found, absCache c')
    \<and> TcMaxBytes c' = TcMaxBytes c \<and> TcMaxEntry c' = TcMaxEntry c"
  proof (cases op)
    case (CacheGet key)
    then show ?thesis using cacheGet_refines [OF ok, of key] act by (auto simp: prod_eq_iff)
  next
    case (CachePut key data)
    then show ?thesis using cachePut_refines [OF ok, of key data] act by auto
  next
    case (CacheInvalidate name)
    then show ?thesis using invalidateTool_refines [OF ok, of name] act by auto
  qed
  then show "cacheOk c'" "lruAct (TcMaxBytes c) (TcMaxEntry c) op (absCache c) = (found, absCache c')"
    "TcMaxBytes c' = TcMaxBytes c" "TcMaxEntry c' = TcMaxEntry c" by blast+
qed

lemma totalBytes_nonneg: "0 \<le> totalBytes xs"
  by (induction xs) auto

lemma lruAct_bounded:
  assumes "distinct (map fst xs)" and "totalBytes xs \<le> maxBytes" and "lruAct maxBytes maxEntry op xs = (found, ys)"
  shows "totalBytes ys \<le> maxBytes"
proof (cases op)
  case (CacheGet key)
  then show ?thesis
    using assms totalBytes_split [OF assms(1), of key] by (auto simp: lruGet_def split: option.splits dest: map_of_SomeD)
next
  case (CachePut key data)
  have "0 \<le> maxBytes" using totalBytes_nonneg [of xs] assms(2) by linarith
  then show ?thesis using assms(2,3) trimLru_bound CachePut by (auto simp: lruPut_def split: if_splits)
next
  case (CacheInvalidate name)
  have "totalBytes (lruDrop name xs) \<le> totalBytes xs"
    unfolding totalBytes_def lruDrop_def by (rule sum_filter_le) auto
  then show ?thesis using assms(2,3) CacheInvalidate by simp
qed

lemma cacheRun_refines:
  assumes "cacheOk c" and "totalBytes (absCache c) \<le> TcMaxBytes c" and "cacheRun ops c = (founds, c')"
  shows "cacheOk c' \<and> lruRun (TcMaxBytes c) (TcMaxEntry c) ops (absCache c) = (founds, absCache c') \<and> totalBytes (absCache c') \<le> TcMaxBytes c"
  using assms
proof (induction ops arbitrary: c founds)
  case Nil
  then show ?case by simp
next
  case (Cons op ops)
  obtain found c1 where act: "cacheAct op c = (found, c1)" by (meson surj_pair)
  obtain rest where rest: "cacheRun ops c1 = (rest, c')" "founds = found # rest"
    using Cons.prems(3) act by (auto split: prod.splits)
  note refines = cacheAct_refines [OF Cons.prems(1) act]
  have "totalBytes (absCache c1) \<le> TcMaxBytes c1"
    using lruAct_bounded [OF absCache_keys [OF Cons.prems(1)] Cons.prems(2) refines(2)] refines(3) by simp
  then show ?case
    using Cons.IH [OF refines(1) _ rest(1)] refines(2-4) rest(2) by simp
qed

text \<open>C39. Whatever lookups, stores and invalidations are made on a new cache, the struct with its map, its
  linked list and its byte counter answers as the plain list of keys and responses does, most recently used
  first: a lookup finds the response stored last under its key and moves it to the front, a store evicts from
  the back only while the budget is exceeded, an invalidation drops the responses of one tool. The byte
  counter is the sum of the sizes held, never above the budget, and the map has exactly the listed keys.\<close>

theorem cache_refines:
  assumes "0 \<le> maxBytes" and "cacheRun ops (newReadToolCache maxBytes maxEntry) = (founds, c)"
  shows "lruRun maxBytes maxEntry ops [] = (founds, absCache c) \<and> TcCurBytes c = totalBytes (absCache c) \<and> TcCurBytes c \<le> maxBytes
    \<and> distinct (map fst (absCache c)) \<and> fst ` set (TcEntries c) = fst ` set (absCache c)"
proof -
  have new: "TcMaxBytes (newReadToolCache maxBytes maxEntry) = maxBytes" "TcMaxEntry (newReadToolCache maxBytes maxEntry) = maxEntry"
    by (simp_all add: newReadToolCache_def)
  have run: "cacheOk c" "lruRun maxBytes maxEntry ops [] = (founds, absCache c)" "totalBytes (absCache c) \<le> maxBytes"
    using cacheRun_refines [OF cacheOk_new(1) _ assms(2)] assms(1) by (simp_all add: cacheOk_new(2) new)
  moreover have "fst ` set (TcEntries c) = fst ` set (absCache c)"
    using run(1) by (simp add: cacheOk_def absCache_def entryAt_def image_image)
  ultimately show ?thesis
    using absCache_keys by (simp add: cacheOk_def)
qed

definition sampleOps :: "cacheOp list" where
  "sampleOps = [CachePut ''a'' ''1111'', CachePut ''b'' ''22'', CacheGet ''a'', CachePut ''c'' ''333'', CacheGet ''b'', CachePut ''d'' ''too long for it'',
     CacheGet ''a'', CacheGet ''d'']"

theorem cache_refines_witness:
  "\<exists>c. cacheRun sampleOps (newReadToolCache 8 8) = ([None, None, Some ''1111'', None, None, None, Some ''1111'', None], c)
     \<and> lruRun 8 8 sampleOps [] = ([None, None, Some ''1111'', None, None, None, Some ''1111'', None], absCache c) \<and> TcCurBytes c = 7"
proof -
  have "fst (cacheRun sampleOps (newReadToolCache 8 8)) = [None, None, Some ''1111'', None, None, None, Some ''1111'', None]"
    "TcCurBytes (snd (cacheRun sampleOps (newReadToolCache 8 8))) = 7"
    by code_simp+
  then obtain c where c: "cacheRun sampleOps (newReadToolCache 8 8) = ([None, None, Some ''1111'', None, None, None, Some ''1111'', None], c)"
    "TcCurBytes c = 7"
    by (metis prod.collapse)
  show ?thesis by (rule exI [of _ c]) (use cache_refines [OF _ c(1)] c in simp)
qed

end
