(* ===== verification/ToolCallFacts.thy ===== *)
theory ToolCallFacts
  imports ToolCall ToolCacheFacts
begin

text \<open>
  The cache is transparent: an answer that carries a verified index state is the answer of that state, whether
  it was computed or found. The contract of the interface \<open>response_store\<close> carries the proof; \<open>servesAs\<close> is what
  every stored response satisfies.
\<close>

section \<open>What is known of the world\<close>

definition stateIdentity :: "IndexState \<Rightarrow> int \<times> bytes \<times> bytes" where
  "stateIdentity s = (IxGeneration s, IxRevision s, IxBaselineRevision s)"

definition noNul :: "bytes \<Rightarrow> bool" where
  "noNul b \<longleftrightarrow> CHR 0x00 \<notin> set b"

definition plainState :: "IndexState option \<Rightarrow> bool" where
  "plainState so \<longleftrightarrow> (case so of None \<Rightarrow> True | Some s \<Rightarrow> noNul (IxRevision s) \<and> noNul (IxBaselineRevision s) \<and> int64 (IxGeneration s))"

text \<open>No name, path, revision or canonical argument holds a zero byte, and generations are 64-bit integers.\<close>

definition plainCall :: "toolRequest \<Rightarrow> callWorld \<Rightarrow> bool" where
  "plainCall request w \<longleftrightarrow>
     noNul (TdName (RqTool request)) \<and> noNul (RqArguments request)
     \<and> (case CwBinding w of None \<Rightarrow> True | Some (path, _) \<Rightarrow> noNul path)
     \<and> plainState (CwBefore w) \<and> plainState (CwAfter w) \<and> plainState (CwAfterRetry w)"

text \<open>A cacheable tool is a pure read of the index: it publishes nothing, and a run that starts and ends in one
  ready state of the database yields \<open>answer\<close> for the tool, its arguments, the database and that state.\<close>

type_synonym answers = "bytes \<Rightarrow> bytes \<Rightarrow> bytes \<Rightarrow> int \<times> bytes \<times> bytes \<Rightarrow> bytes"

definition pureRun ::
  "answers \<Rightarrow> (toolRequest \<Rightarrow> toolOutput \<Rightarrow> bytes option) \<Rightarrow> toolRequest \<Rightarrow> bytes
     \<Rightarrow> IndexState option \<Rightarrow> bytes + toolOutput \<Rightarrow> IndexState option \<Rightarrow> bool" where
  "pureRun answer encode request path before run after \<longleftrightarrow>
     (case run of
        Inl _ \<Rightarrow> True
      | Inr output \<Rightarrow> \<not> OtCommitted output
          \<and> (case (before, after, encode request output) of
               (Some s, Some t, Some payload) \<Rightarrow> Ready s \<and> \<not> indexStateChanged s t \<longrightarrow>
                 payload = answer (TdName (RqTool request)) (RqArguments request) path (stateIdentity t)
             | _ \<Rightarrow> True))"

definition pureRead ::
  "answers \<Rightarrow> (toolRequest \<Rightarrow> toolOutput \<Rightarrow> bytes option) \<Rightarrow> toolRequest \<Rightarrow> callWorld \<Rightarrow> bool" where
  "pureRead answer encode request w \<longleftrightarrow>
     (case CwBinding w of
        None \<Rightarrow> True
      | Some (path, _) \<Rightarrow> cacheableReadRequest (TdName (RqTool request)) (RqField request) \<longrightarrow>
          pureRun answer encode request path (CwBefore w) (CwHandler w) (CwAfter w)
          \<and> pureRun answer encode request path (CwAfter w) (CwRetry w) (CwAfterRetry w))"

section \<open>What is stored\<close>

definition servesAs :: "answers \<Rightarrow> bytes \<Rightarrow> bytes \<Rightarrow> bool" where
  "servesAs answer key payload \<longleftrightarrow>
     (\<exists>name path epoch generation revision args baseline.
        noNul name \<and> noNul path \<and> noNul revision \<and> noNul args \<and> noNul baseline \<and> int64 generation
        \<and> key = toolCacheKey name path epoch generation revision args baseline
        \<and> payload = answer name args path (generation, revision, baseline))"

lemma servesAs_key:
  assumes "servesAs answer (requestKey request path epoch s) payload" and "noNul (TdName (RqTool request))" "noNul (RqArguments request)"
    "noNul path" "plainState (Some s)"
  shows "payload = answer (TdName (RqTool request)) (RqArguments request) path (stateIdentity s)"
proof -
  obtain name path' epoch' generation revision args baseline where
    nul: "noNul name" "noNul path'" "noNul revision" "noNul args" "noNul baseline" "int64 generation"
    and key: "requestKey request path epoch s = toolCacheKey name path' epoch' generation revision args baseline"
    and payload: "payload = answer name args path' (generation, revision, baseline)"
    using assms(1) by (auto simp: servesAs_def)
  show ?thesis
    using toolCacheKey_inject [OF key [unfolded requestKey_def]] nul assms(2-5) payload
    by (auto simp: noNul_def plainState_def stateIdentity_def)
qed

lemma unchanged_identity: "\<not> indexStateChanged s t \<Longrightarrow> stateIdentity s = stateIdentity t \<and> Ready s = Ready t"
  by (simp add: indexStateChanged_def stateIdentity_def Ready_def)

lemma cacheable_not_refresh: "cacheableReadRequest name field \<Longrightarrow> name \<noteq> ''ck3_refresh''"
  by (auto simp: cacheableReadRequest_def cacheableReadTools_def split: if_splits)

section \<open>The runs of a call\<close>

text \<open>An output stands between two states that were read, and for a pure read they are the same.\<close>

lemma retryHandler_forms:
  assumes "retryHandler request w s = Inr (output, start, after)"
  obtains t where "start = Some s" "after = Some t" "CwAfterRetry w = Some t" "CwRetry w = Inr output" "\<not> indexStateChanged s t"
proof (cases "CwAfterRetry w")
  case None
  then show thesis using assms by (auto simp: retryHandler_def Let_def split: if_splits sum.splits)
next
  case (Some t)
  then have "start = Some s" "after = Some t" "CwRetry w = Inr output" "\<not> indexStateChanged s t"
    using assms by (auto simp: retryHandler_def Let_def split: if_splits sum.splits)
  then show thesis using that Some by blast
qed

lemma runHandler_forms:
  assumes "runHandler request w = Inr (output, start, after)"
  obtains (once) "CwHandler w = Inr output" "start = CwBefore w" "after = CwAfter w"
      "\<And>s t. CwBefore w = Some s \<Longrightarrow> CwAfter w = Some t \<Longrightarrow>
        \<not> indexStateChanged s t \<or> TdName (RqTool request) = ''ck3_refresh'' \<or> OtCommitted output"
  | (twice) s t where "CwAfter w = Some s" "CwRetry w = Inr output" "CwAfterRetry w = Some t" "start = Some s" "after = Some t"
      "\<not> indexStateChanged s t"
proof (cases "CwHandler w")
  case (Inl e)
  then show thesis using assms by (simp add: runHandler_def)
next
  case (Inr first)
  then show thesis
  proof (cases "\<exists>s t. CwBefore w = Some s \<and> CwAfter w = Some t \<and> indexStateChanged s t
      \<and> TdName (RqTool request) \<noteq> ''ck3_refresh'' \<and> \<not> OtCommitted first")
    case True
    then obtain s t where changed: "CwBefore w = Some s" "CwAfter w = Some t" "indexStateChanged s t"
      "TdName (RqTool request) \<noteq> ''ck3_refresh''" "\<not> OtCommitted first" by blast
    then have "retryHandler request w t = Inr (output, start, after)"
      using assms Inr by (simp add: runHandler_def split: if_splits)
    then show thesis using changed by (elim retryHandler_forms) (rule twice)
  next
    case False
    then have "first = output" "start = CwBefore w" "after = CwAfter w"
      using assms Inr by (auto simp: runHandler_def split: if_splits option.splits)
    then show thesis using Inr False by (intro once) auto
  qed
qed

lemma runHandler_pure:
  assumes run: "runHandler request w = Inr (output, start, after)" and bound: "CwBinding w = Some (path, epoch)"
    and cacheable: "cacheableReadRequest (TdName (RqTool request)) (RqField request)" and pure: "pureRead answer encode request w"
    and plain: "plainCall request w" and ready: "after = Some t" "Ready t" "start \<noteq> None" and encoded: "encode request output = Some payload"
  shows "payload = answer (TdName (RqTool request)) (RqArguments request) path (stateIdentity t)" and "plainState (Some t)"
proof -
  have runs: "pureRun answer encode request path (CwBefore w) (CwHandler w) (CwAfter w)"
    "pureRun answer encode request path (CwAfter w) (CwRetry w) (CwAfterRetry w)"
    using pure bound cacheable by (simp_all add: pureRead_def)
  have "payload = answer (TdName (RqTool request)) (RqArguments request) path (stateIdentity t) \<and> plainState (Some t)"
    using run
  proof (cases rule: runHandler_forms)
    case once
    obtain s where s: "CwBefore w = Some s" using ready(3) once(2) by auto
    have t: "CwAfter w = Some t" using once(3) ready(1) by simp
    have "\<not> OtCommitted output" using runs(1) once(1) by (simp add: pureRun_def)
    then have same: "\<not> indexStateChanged s t" using once(4) s t cacheable_not_refresh [OF cacheable] by auto
    then show ?thesis
      using runs(1) once(1) s t ready(2) encoded plain unchanged_identity [OF same] by (simp add: pureRun_def plainCall_def)
  next
    case (twice s u)
    then show ?thesis
      using runs(2) ready(1,2) encoded plain unchanged_identity [OF twice(6)] by (simp add: pureRun_def plainCall_def)
  qed
  then show "payload = answer (TdName (RqTool request)) (RqArguments request) path (stateIdentity t)" "plainState (Some t)"
    by blast+
qed

section \<open>One call on an honest cache\<close>

definition currentAnswer :: "answers \<Rightarrow> startedCall \<Rightarrow> bool" where
  "currentAnswer answer call \<longleftrightarrow>
     (\<forall>payload t path epoch.
        cacheableReadRequest (TdName (RqTool (ScRequest call))) (RqField (ScRequest call)) \<longrightarrow>
        ScResult call = CallAnswered payload (VerifiedState t) \<longrightarrow> CwBinding (ScWorld call) = Some (path, epoch) \<longrightarrow>
        Ready t \<and> payload = answer (TdName (RqTool (ScRequest call))) (RqArguments (ScRequest call)) path (stateIdentity t)
        \<and> Some t \<in> {CwHit (ScWorld call), CwAfter (ScWorld call), CwAfterRetry (ScWorld call)})"

lemma finalize_answered:
  "finalizeToolResult fits request payload state verified = CallAnswered payload' envelope \<Longrightarrow>
     payload' = payload \<and> envelope = indexEnvelopeOf (TdName (RqTool request)) state verified"
  by (auto simp: finalizeToolResult_def Let_def split: if_splits)

lemma envelope_verified: "indexEnvelopeOf name state verified = VerifiedState t \<Longrightarrow> verified \<and> state = Some t"
  by (auto simp: indexEnvelopeOf_def split: if_splits bool.splits option.splits)

lemma fromCache_honest:
  assumes honest: "responses.honest (servesAs answer) c" and plain: "plainCall request w" and bound: "CwBinding w = Some (path, epoch)"
    and step: "fromCache fits request path epoch (CwBefore w) hit c = (found, c')"
  shows "responses.honest (servesAs answer) c'"
    and "found = Some (CallAnswered payload (VerifiedState t)) \<Longrightarrow>
      hit = Some t \<and> Ready t \<and> payload = answer (TdName (RqTool request)) (RqArguments request) path (stateIdentity t)"
proof -
  have "responses.honest (servesAs answer) c' \<and>
    (\<forall>payload t. found = Some (CallAnswered payload (VerifiedState t)) \<longrightarrow>
      hit = Some t \<and> Ready t \<and> payload = answer (TdName (RqTool request)) (RqArguments request) path (stateIdentity t))"
  proof (cases "\<exists>s. CwBefore w = Some s \<and> cacheableCall request \<and> Ready s \<and> IxRevision s \<noteq> []")
    case False
    then have "found = None" "c' = c" using step by (auto simp: fromCache_def split: option.splits if_splits)
    then show ?thesis using honest by simp
  next
    case True
    then obtain s where s: "CwBefore w = Some s" "cacheableCall request" "Ready s" "IxRevision s \<noteq> []" by blast
    let ?key = "requestKey request path epoch s"
    obtain got c1 where got: "cacheGet ?key c = (got, c1)" by (meson surj_pair)
    note fetched = responses.honest_fetch [OF honest, of ?key, unfolded got fst_conv snd_conv]
    have c1: "c' = c1" using step s got by (auto simp: fromCache_def split: option.splits if_splits callResult.splits)
    have "hit = Some t \<and> Ready t \<and> payload = answer (TdName (RqTool request)) (RqArguments request) path (stateIdentity t)"
      if found: "found = Some (CallAnswered payload (VerifiedState t))" for payload t
    proof -
      obtain stored u where hit: "got = Some stored" "hit = Some u" "Ready u" "\<not> indexStateChanged s u"
        "finalizeToolResult fits request stored (Some u) True = CallAnswered payload (VerifiedState t)"
        using step s got found by (auto simp: fromCache_def split: option.splits if_splits callResult.splits)
      have same: "stored = payload" "u = t"
        using finalize_answered [OF hit(5)] envelope_verified [of _ "Some u" True t] by auto
      have "servesAs answer ?key payload" using fetched hit(1) same by blast
      then have "payload = answer (TdName (RqTool request)) (RqArguments request) path (stateIdentity s)"
        by (rule servesAs_key) (use plain bound s(1) in \<open>simp_all add: plainCall_def\<close>)
      then show ?thesis using hit same unchanged_identity [OF hit(4)] by simp
    qed
    then show ?thesis using fetched c1 by blast
  qed
  then show "responses.honest (servesAs answer) c'"
    and "found = Some (CallAnswered payload (VerifiedState t)) \<Longrightarrow>
      hit = Some t \<and> Ready t \<and> payload = answer (TdName (RqTool request)) (RqArguments request) path (stateIdentity t)"
    by blast+
qed

lemma finishCall_pure:
  assumes plain: "plainCall request w" and pure: "pureRead answer encode request w" and bound: "CwBinding w = Some (path, epoch)"
    and step: "finishCall encode fits request path epoch w = (result, stored)"
  shows "stored = Some (k, d) \<Longrightarrow> servesAs answer k d"
    and "currentAnswer answer \<lparr>ScRequest = request, ScWorld = w, ScResult = result, ScStore = st\<rparr>"
proof -
  have "(\<forall>k d. stored = Some (k, d) \<longrightarrow> servesAs answer k d) \<and>
    currentAnswer answer \<lparr>ScRequest = request, ScWorld = w, ScResult = result, ScStore = st\<rparr>"
  proof (cases "runHandler request w")
    case (Inl e)
    then show ?thesis using step by (auto simp: finishCall_def currentAnswer_def)
  next
    case (Inr ran)
    obtain out start after where ran: "runHandler request w = Inr (out, start, after)"
      using Inr by (cases ran) auto
    show ?thesis
    proof (cases "encode request out")
      case None
      then show ?thesis using step ran by (auto simp: finishCall_def currentAnswer_def)
    next
      case (Some payload)
      let ?verified = "\<not> OtStateUnverified out \<and> CwBefore w \<noteq> None \<and> (case after of Some t \<Rightarrow> Ready t | None \<Rightarrow> False)"
      have result: "result = finalizeToolResult fits request payload after ?verified"
        using step ran Some by (auto simp: finishCall_def Let_def split: callResult.splits)
      have stores: "stored = Some (k, d) \<Longrightarrow> servesAs answer k d" for k d
      proof -
        assume "stored = Some (k, d)"
        then obtain t where t: "cacheableCall request" "cacheablePublishedTransition start after" "after = Some t"
          "k = requestKey request path epoch t" "d = payload"
          using step ran Some by (auto simp: finishCall_def Let_def split: callResult.splits if_splits)
        then have ready: "Ready t" "start \<noteq> None" by (auto simp: cacheablePublishedTransition_def split: option.splits)
        have cacheable: "cacheableReadRequest (TdName (RqTool request)) (RqField request)" using t(1) by (simp add: cacheableCall_def)
        note ran_pure = runHandler_pure [OF ran bound cacheable pure plain t(3) ready Some]
        show "servesAs answer k d"
          unfolding servesAs_def t(4,5) requestKey_def ran_pure(1)
          by (rule exI [of _ "TdName (RqTool request)"], rule exI [of _ path], rule exI [of _ epoch], rule exI [of _ "IxGeneration t"],
              rule exI [of _ "IxRevision t"], rule exI [of _ "RqArguments request"], rule exI [of _ "IxBaselineRevision t"])
            (use plain bound ran_pure(2) in \<open>simp add: plainCall_def plainState_def stateIdentity_def\<close>)
      qed
      have current: "Ready t \<and> pl = answer (TdName (RqTool request)) (RqArguments request) path (stateIdentity t)
          \<and> Some t \<in> {CwHit w, CwAfter w, CwAfterRetry w}"
        if cacheable: "cacheableReadRequest (TdName (RqTool request)) (RqField request)"
          and answered: "result = CallAnswered pl (VerifiedState t)" for pl t
      proof -
        have pl: "pl = payload" "?verified" "after = Some t"
          using finalize_answered [OF answered [unfolded result]] envelope_verified by metis+
        have start: "start \<noteq> None" "after = CwAfter w \<or> after = CwAfterRetry w"
          using ran pl(2) by (elim runHandler_forms; simp)+
        show ?thesis
          using runHandler_pure(1) [OF ran bound cacheable pure plain pl(3) _ start(1) Some] pl start(2) by auto
      qed
      then show ?thesis using stores bound by (simp add: currentAnswer_def)
    qed
  qed
  then show "stored = Some (k, d) \<Longrightarrow> servesAs answer k d"
    and "currentAnswer answer \<lparr>ScRequest = request, ScWorld = w, ScResult = result, ScStore = st\<rparr>"
    by blast+
qed

section \<open>All calls\<close>

definition callsOk :: "answers \<Rightarrow> callState \<Rightarrow> bool" where
  "callsOk answer cs \<longleftrightarrow> responses.honest (servesAs answer) (csCache cs)
     \<and> (\<forall>call \<in> set (csCalls cs). currentAnswer answer call \<and> (\<forall>k d. ScStore call = Some (k, d) \<longrightarrow> servesAs answer k d))"

lemma callsOk_begin:
  assumes ok: "callsOk answer cs" and plain: "plainCall request w" and pure: "pureRead answer encode request w"
  shows "callsOk answer (beginCall encode fits request w cs)"
proof -
  let ?call = "\<lambda>result stored. \<lparr>ScRequest = request, ScWorld = w, ScResult = result, ScStore = stored\<rparr>"
  obtain result stored c where call: "callMCPTool encode fits (Some request) w (csCache cs) = ((result, stored), c)"
    by (metis prod.collapse)
  have honest: "responses.honest (servesAs answer) (csCache cs)" using ok by (simp add: callsOk_def)
  have failed: "currentAnswer answer (?call (CallFailed e) None)" for e by (simp add: currentAnswer_def)
  have "responses.honest (servesAs answer) c \<and> currentAnswer answer (?call result stored)
    \<and> (\<forall>k d. stored = Some (k, d) \<longrightarrow> servesAs answer k d)"
  proof (cases "CwCancelledAtStart w \<or> CwBinding w = None \<or> refusedState request (CwBefore w) \<noteq> None")
    case True
    then have "c = csCache cs" "stored = None" "\<exists>e. result = CallFailed e"
      using call by (auto simp: callMCPTool_def split: if_splits option.splits)
    then show ?thesis using honest failed by auto
  next
    case False
    then obtain path epoch where bound: "CwBinding w = Some (path, epoch)" by auto
    obtain found c1 where look: "fromCache fits request path epoch (CwBefore w) (CwHit w) (csCache cs) = (found, c1)" by (meson surj_pair)
    note fetched = fromCache_honest [OF honest plain bound look]
    show ?thesis
    proof (cases found)
      case None
      then have "finishCall encode fits request path epoch w = (result, stored)" "c = c1"
        using call False bound look by (auto simp: callMCPTool_def)
      then show ?thesis using fetched(1) finishCall_pure [OF plain pure bound] by auto
    next
      case (Some answered)
      then have "result = answered" "stored = None" "c = c1"
        using call False bound look by (auto simp: callMCPTool_def)
      then show ?thesis using fetched Some bound by (auto simp: currentAnswer_def)
    qed
  qed
  then show ?thesis using ok by (simp add: beginCall_def call callsOk_def)
qed

lemma callsOk_store:
  assumes ok: "callsOk answer cs"
  shows "callsOk answer (storeResponse k cs)"
proof (cases "k < length (csCalls cs) \<and> ScStore (csCalls cs ! k) \<noteq> None")
  case False
  then show ?thesis using ok by (auto simp: storeResponse_def split: option.splits)
next
  case True
  then obtain key payload where stored: "ScStore (csCalls cs ! k) = Some (key, payload)" by auto
  let ?call = "(csCalls cs ! k)\<lparr>ScStore := None\<rparr>"
  have step: "storeResponse k cs = \<lparr>csCache = cachePut key payload (csCache cs), csCalls = (csCalls cs)[k := ?call]\<rparr>"
    using True stored by (simp add: storeResponse_def)
  have old: "currentAnswer answer (csCalls cs ! k)" "servesAs answer key payload"
    using ok nth_mem [of k "csCalls cs"] True stored unfolding callsOk_def by blast+
  then have "currentAnswer answer ?call" by (simp add: currentAnswer_def)
  then have "\<forall>call \<in> set ((csCalls cs)[k := ?call]). currentAnswer answer call \<and> (\<forall>k d. ScStore call = Some (k, d) \<longrightarrow> servesAs answer k d)"
    using ok by (auto simp: callsOk_def dest!: set_update_subset_insert [THEN subsetD])
  then show ?thesis
    using ok old(2) responses.honest_put by (simp add: callsOk_def step)
qed

lemma callsOk_reachable:
  assumes "callReaches encode fits (\<lambda>request w. plainCall request w \<and> pureRead answer encode request w) (newReadToolCache maxBytes maxEntry) cs"
  shows "callsOk answer cs"
  using assms
proof (induction rule: callReaches.induct)
  case callReaches_start
  then show ?case using cacheOk_new by (simp add: callsOk_def responses.honest_def cached_def)
next
  case (callReaches_begin cs request w)
  then show ?case by (simp add: callsOk_begin)
next
  case (callReaches_store cs k)
  then show ?case by (simp add: callsOk_store)
next
  case (callReaches_invalidate cs name)
  then show ?case using responses.honest_discard by (simp add: callsOk_def)
qed


text \<open>The first call computes and stores; the handler of the second would fail, the cache answers.\<close>

definition sampleRequest :: toolRequest where
  "sampleRequest = \<lparr>RqTool = \<lparr>TdName = ''ck3_search'', TdReadOnly = True\<rparr>, RqArguments = ''{}'', RqField = (\<lambda>_. None)\<rparr>"

definition sampleState :: IndexState where
  "sampleState = \<lparr>IxBaselineRevision = [], IxGeneration = 7, IxRevision = ''r7'', IxCommittedAt = [], IxStatus = ''ready''\<rparr>"

definition sampleWorld :: "bytes + toolOutput \<Rightarrow> callWorld" where
  "sampleWorld run = \<lparr>CwCancelledAtStart = False, CwBinding = Some (''/data/main.sqlite'', 1), CwBefore = Some sampleState,
     CwHit = Some sampleState, CwHandler = run, CwCancelled = False, CwAfter = Some sampleState, CwRetry = Inl [],
     CwCancelledAtRetry = False, CwAfterRetry = None\<rparr>"

definition sampleEncode :: "toolRequest \<Rightarrow> toolOutput \<Rightarrow> bytes option" where
  "sampleEncode request out = Some (OtValue out)"

definition sampleFits :: "toolRequest \<Rightarrow> bytes \<Rightarrow> indexEnvelope \<Rightarrow> bool" where
  "sampleFits request payload envelope = True"

definition sampleAnswer :: answers where
  "sampleAnswer name args path = (\<lambda>(generation, revision, baseline). revision)"

definition sampleCalls :: callState where
  "sampleCalls =
     beginCall sampleEncode sampleFits sampleRequest (sampleWorld (Inl ''down''))
       (storeResponse 0
         (beginCall sampleEncode sampleFits sampleRequest
           (sampleWorld (Inr \<lparr>OtValue = ''r7'', OtCommitted = False, OtStateUnverified = False\<rparr>))
           \<lparr>csCache = newReadToolCache 100 10, csCalls = []\<rparr>))"


end
