(* ===== verification/MergeText.thy ===== *)
theory MergeText
  imports AssocLists GoStd
begin

text \<open>
  \<^verbatim>\<open>internal/migrator/merge.go\<close> with \<^verbatim>\<open>splitLinesKeepEndings\<close> of \<^verbatim>\<open>rewrite.go\<close>: the three-way merge of a file
  that a project and a new version of the game both changed. A text is cut into lines that keep their
  endings; the merge strips what all three share at both ends, and otherwise splits at a line that occurs
  exactly once in each and merges the parts. A slice \<^verbatim>\<open>lines[a:b]\<close> is the list of its elements; the results
  \<^verbatim>\<open>(lines, true)\<close> and \<^verbatim>\<open>(nil, false)\<close> are \<open>Some lines\<close> and \<open>None\<close>. \<^verbatim>\<open>strings.ToLower\<close> and \<^verbatim>\<open>sha256.Sum256\<close> are
  arguments of the definitions that only pass their results on.
\<close>

section \<open>Lines\<close>

function splitLinesKeepEndings :: "bytes \<Rightarrow> bytes list" where
  "splitLinesKeepEndings t =
     (if t = [] then []
      else case indexByte t (CHR 0x0A) of
        None \<Rightarrow> [t]
      | Some index \<Rightarrow> take (index + 1) t # splitLinesKeepEndings (drop (index + 1) t))"
  by pat_completeness auto
termination by (relation "measure length") auto

declare splitLinesKeepEndings.simps [simp del]

fun linesEqual :: "bytes list \<Rightarrow> bytes list \<Rightarrow> bool" where
  "linesEqual (a # as) (b # bs) \<longleftrightarrow> a = b \<and> linesEqual as bs"
| "linesEqual [] [] \<longleftrightarrow> True"
| "linesEqual _ _ \<longleftrightarrow> False"

lemma linesEqual_iff [simp]: "linesEqual as bs = (as = bs)"
  by (induction as bs rule: linesEqual.induct) auto

section \<open>Anchors\<close>

record occurrence =
  OcCount :: nat
  OcIndex :: nat

text \<open>The closure \<^verbatim>\<open>count\<close>: how often each line occurs and where it occurs last.\<close>

definition countLine :: "nat \<times> bytes \<Rightarrow> (bytes \<Rightarrow> occurrence option) \<Rightarrow> (bytes \<Rightarrow> occurrence option)" where
  "countLine = (\<lambda>(i, line) m.
     m(line \<mapsto> \<lparr>OcCount = (case m line of None \<Rightarrow> 0 | Some item \<Rightarrow> OcCount item) + 1, OcIndex = i\<rparr>))"

definition countLines :: "bytes list \<Rightarrow> bytes \<Rightarrow> occurrence option" where
  "countLines ls = fold countLine (enumerate 0 ls) (\<lambda>_. None)"

definition absInt :: "int \<Rightarrow> int" where
  "absInt n = (if n < 0 then - n else n)"

type_synonym anchor = "int \<times> nat \<times> nat \<times> nat"

definition betterAnchor :: "int \<Rightarrow> nat \<Rightarrow> nat \<Rightarrow> nat \<Rightarrow> anchor option \<Rightarrow> bool" where
  "betterAnchor distance oi pi ti best =
     (case best of
        None \<Rightarrow> True
      | Some (bestDistance, bo, bp, bt) \<Rightarrow>
          distance < bestDistance
          \<or> distance = bestDistance \<and> (oi < bo \<or> oi = bo \<and> (pi < bp \<or> pi = bp \<and> ti < bt)))"

definition considerLine ::
  "(bytes \<Rightarrow> occurrence option) \<Rightarrow> (bytes \<Rightarrow> occurrence option) \<Rightarrow> (bytes \<Rightarrow> occurrence option)
     \<Rightarrow> nat \<times> bytes \<Rightarrow> anchor option \<Rightarrow> anchor option" where
  "considerLine co cp ct = (\<lambda>(oldIndex, line) best.
     case (co line, cp line, ct line) of
       (Some oo, Some pp, Some tt) \<Rightarrow>
         if OcCount oo = 1 \<and> OcCount pp = 1 \<and> OcCount tt = 1 then
           let distance = absInt (int (OcIndex oo) - int (OcIndex pp)) + absInt (int (OcIndex oo) - int (OcIndex tt))
           in if betterAnchor distance oldIndex (OcIndex pp) (OcIndex tt) best
              then Some (distance, OcIndex oo, OcIndex pp, OcIndex tt) else best
         else best
     | _ \<Rightarrow> best)"

definition uniqueTripleAnchor :: "bytes list \<Rightarrow> bytes list \<Rightarrow> bytes list \<Rightarrow> (nat \<times> nat \<times> nat) option" where
  "uniqueTripleAnchor oldLines projectLines targetLines =
     (case fold (considerLine (countLines oldLines) (countLines projectLines) (countLines targetLines))
             (enumerate 0 oldLines) None of
        None \<Rightarrow> None
      | Some (_, bo, bp, bt) \<Rightarrow> Some (bo, bp, bt))"

section \<open>The merge\<close>

text \<open>The loops that count the shared lines at the front, and on reversed lists those at the back.\<close>

fun sharedPrefix :: "bytes list \<Rightarrow> bytes list \<Rightarrow> bytes list \<Rightarrow> nat" where
  "sharedPrefix (a # as) (b # bs) (c # cs) = (if a = b \<and> a = c then Suc (sharedPrefix as bs cs) else 0)"
| "sharedPrefix _ _ _ = 0"

definition sharedSuffix :: "nat \<Rightarrow> bytes list \<Rightarrow> bytes list \<Rightarrow> bytes list \<Rightarrow> nat" where
  "sharedSuffix prefix as bs cs =
     sharedPrefix (rev (drop prefix as)) (rev (drop prefix bs)) (rev (drop prefix cs))"

text \<open>\<^verbatim>\<open>lines[prefix:len(lines)-suffix]\<close>.\<close>

definition inner :: "nat \<Rightarrow> nat \<Rightarrow> bytes list \<Rightarrow> bytes list" where
  "inner prefix suffix ls = drop prefix (take (length ls - suffix) ls)"

lemma inner_length: "length (inner p s ls) = length ls - s - p"
  by (simp add: inner_def)

lemma sharedPrefix_le:
  "sharedPrefix as bs cs \<le> length as" "sharedPrefix as bs cs \<le> length bs" "sharedPrefix as bs cs \<le> length cs"
  by (induction as bs cs rule: sharedPrefix.induct) auto

lemma countLines_snoc: "countLines (ls @ [l]) = countLine (length ls, l) (countLines ls)"
  by (simp add: countLines_def enumerate_append_eq)

lemma countLines_Some:
  "countLines ls x = Some w \<Longrightarrow> OcIndex w < length ls \<and> ls ! OcIndex w = x \<and> OcCount w = count_list ls x"
proof (induction ls arbitrary: w rule: rev_induct)
  case Nil then show ?case by (simp add: countLines_def)
next
  case (snoc l ls)
  have none: "countLines zs x = None \<Longrightarrow> x \<notin> set zs" for zs
    by (induction zs rule: rev_induct) (auto simp: countLines_snoc countLine_def split: if_splits)
  show ?case
  proof (cases "l = x")
    case True
    then show ?thesis using snoc none [of ls]
      by (auto simp: countLines_snoc countLine_def count_list_0_iff split: option.splits)
  next
    case False then show ?thesis using snoc by (auto simp: countLines_snoc countLine_def nth_append)
  qed
qed

lemma considerLine_found:
  assumes "considerLine (countLines as) (countLines bs) (countLines cs) e best = Some (d, i, j, k)"
  shows "best = Some (d, i, j, k) \<or>
    (i < length as \<and> j < length bs \<and> k < length cs \<and> as ! i = bs ! j \<and> as ! i = cs ! k)"
  using assms
  by (auto simp: considerLine_def Let_def split: prod.splits option.splits if_splits dest!: countLines_Some)

lemma uniqueTripleAnchor_in:
  assumes "uniqueTripleAnchor as bs cs = Some (i, j, k)"
  shows "i < length as \<and> j < length bs \<and> k < length cs \<and> as ! i = bs ! j \<and> as ! i = cs ! k"
proof -
  let ?f = "considerLine (countLines as) (countLines bs) (countLines cs)"
  have "fold ?f es best = Some (d, i, j, k) \<Longrightarrow> best = Some (d, i, j, k) \<or> ?thesis" for es d and best
  proof (induction es arbitrary: best)
    case (Cons e es)
    from Cons.IH [of "?f e best"] Cons.prems show ?case using considerLine_found [of as bs cs e best d i j k] by auto
  qed simp
  then show ?thesis using assms by (auto simp: uniqueTripleAnchor_def split: option.splits)
qed

function mergeLineRanges :: "bytes list \<Rightarrow> bytes list \<Rightarrow> bytes list \<Rightarrow> bytes list option" where
  "mergeLineRanges oldLines projectLines targetLines =
     (if linesEqual projectLines oldLines then Some targetLines
      else if linesEqual targetLines oldLines \<or> linesEqual projectLines targetLines then Some projectLines
      else
        let prefix = sharedPrefix oldLines projectLines targetLines;
            suffix = sharedSuffix prefix oldLines projectLines targetLines
        in case (if prefix > 0 \<or> suffix > 0
             then mergeLineRanges (inner prefix suffix oldLines) (inner prefix suffix projectLines)
               (inner prefix suffix targetLines)
             else None) of
          Some middle \<Rightarrow> Some (take prefix oldLines @ middle @ drop (length oldLines - suffix) oldLines)
        | None \<Rightarrow>
          (case uniqueTripleAnchor oldLines projectLines targetLines of
             None \<Rightarrow> None
           | Some (oi, pi, ti) \<Rightarrow>
             (case mergeLineRanges (take oi oldLines) (take pi projectLines) (take ti targetLines) of
                None \<Rightarrow> None
              | Some left \<Rightarrow>
                (case mergeLineRanges (drop (oi + 1) oldLines) (drop (pi + 1) projectLines) (drop (ti + 1) targetLines) of
                   None \<Rightarrow> None
                 | Some right \<Rightarrow> Some (left @ [oldLines ! oi] @ right)))))"
  by pat_completeness auto
termination
proof (relation "measure (\<lambda>(o1, p1, t1). length o1 + length p1 + length t1)", goal_cases)
  case (2 os ps ts prefix suffix)
  have s: "suffix \<le> length os - prefix" using 2 sharedPrefix_le(1) [of "rev (drop prefix os)"]
    by (simp add: sharedSuffix_def)
  have p: "prefix \<le> length os" using 2 sharedPrefix_le(1) by simp
  show ?case using s p 2 by (auto simp: inner_length)
next
  case (3 os ps ts prefix suffix w oi v pi ti)
  then show ?case using uniqueTripleAnchor_in [of os ps ts oi pi ti] by auto
next
  case (4 os ps ts prefix suffix w oi v pi ti)
  then show ?case using uniqueTripleAnchor_in [of os ps ts oi pi ti] by auto
qed simp

declare mergeLineRanges.simps [simp del]

section \<open>Conflicts and resolutions\<close>

record Resolution =
  RsConflictID :: bytes
  RsSourceProvince :: int
  RsAction :: bytes
  RsTargetProvinces :: "int list"
  RsAllowTypeChange :: bool

record Conflict =
  CfID :: bytes
  CfCode :: bytes
  CfMessage :: bytes
  CfPath :: bytes
  CfLine :: int
  CfSourceProvince :: int
  CfSeverity :: bytes
  CfSuggestedAction :: bytes

fun hexDigits :: "bytes \<Rightarrow> bytes" where
  "hexDigits [] = []"
| "hexDigits (c # cs) =
     (let hex = (\<lambda>n. if n < 10 then digitChar n else char_of (n + 87 :: nat))
      in hex (byteOf c div 16) # hex (byteOf c mod 16) # hexDigits cs)"

definition conflictID ::
  "(bytes \<Rightarrow> bytes) \<Rightarrow> (bytes \<Rightarrow> bytes) \<Rightarrow> bytes \<Rightarrow> bytes \<Rightarrow> int \<Rightarrow> int \<Rightarrow> bytes \<Rightarrow> bytes" where
  "conflictID toLower sha256 code path line source message =
     (let payload = code @ CHR 0x00 # toLower path @ CHR 0x00 # formatInt line @ CHR 0x00 # formatInt source
                      @ CHR 0x00 # message
      in ''migration-conflict-'' @ hexDigits (take 8 (sha256 payload)))"

definition mergeConflict :: "(bytes \<Rightarrow> bytes) \<Rightarrow> (bytes \<Rightarrow> bytes) \<Rightarrow> bytes \<Rightarrow> bytes \<Rightarrow> Conflict" where
  "mergeConflict toLower sha256 path message =
     \<lparr>CfID = conflictID toLower sha256 ''three_way_text_conflict'' path 0 0 message,
      CfCode = ''three_way_text_conflict'', CfMessage = message, CfPath = path, CfLine = 0, CfSourceProvince = 0,
      CfSeverity = ''error'', CfSuggestedAction = ''prefer_project''\<rparr>"

definition mergeText ::
  "(bytes \<Rightarrow> bytes) \<Rightarrow> (bytes \<Rightarrow> bytes) \<Rightarrow> bytes \<Rightarrow> bytes \<Rightarrow> bytes \<Rightarrow> bytes \<Rightarrow> (bytes \<Rightarrow> Resolution option)
     \<Rightarrow> Conflict + bytes" where
  "mergeText toLower sha256 path oldText projectText targetText resolutions =
     (if projectText = oldText then Inr targetText
      else if targetText = oldText \<or> projectText = targetText then Inr projectText
      else case mergeLineRanges (splitLinesKeepEndings oldText) (splitLinesKeepEndings projectText)
                  (splitLinesKeepEndings targetText) of
        Some merged \<Rightarrow> Inr (concat merged)
      | None \<Rightarrow>
          let conflict = mergeConflict toLower sha256 path ''project and target changed the same text region differently''
          in case resolutions (CfID conflict) of
               None \<Rightarrow> Inl conflict
             | Some resolution \<Rightarrow>
                 let action = toLower (trimSpace (RsAction resolution)) in
                 if action = ''prefer_project'' then Inr projectText
                 else if action = ''prefer_target'' \<or> action = ''drop'' then Inr targetText
                 else Inl conflict)"

end
