(* ===== verification/MergeTextFacts.thy ===== *)
theory MergeTextFacts
  imports MergeText
begin

text \<open>
  What the three-way merge promises. \<open>mergesTo\<close> is the specification: the three texts are cut at lines that all
  of them share, and in every region between two cuts at most one side changed, or both changed it alike; the
  result takes the change. A merge that succeeds is such a result, it is the same with the sides exchanged, and
  the lines of the merged text are the merged lines.
\<close>

inductive mergesTo :: "bytes list \<Rightarrow> bytes list \<Rightarrow> bytes list \<Rightarrow> bytes list \<Rightarrow> bool" where
  targetChanged: "mergesTo os os ts ts"
| projectChanged: "mergesTo os ps os ps"
| bothChanged: "mergesTo os ps ps ps"
| anchored: "mergesTo os ps ts rs \<Longrightarrow> mergesTo os' ps' ts' rs' \<Longrightarrow>
    mergesTo (os @ x # os') (ps @ x # ps') (ts @ x # ts') (rs @ x # rs')"

lemma mergesTo_prefix: "mergesTo os ps ts rs \<Longrightarrow> mergesTo (xs @ os) (xs @ ps) (xs @ ts) (xs @ rs)"
proof (induction xs)
  case (Cons x xs)
  then show ?case using anchored [OF targetChanged [of "[]" "[]"], of "xs @ os" "xs @ ps" "xs @ ts" "xs @ rs" x] by simp
qed simp

lemma mergesTo_suffix: "mergesTo os ps ts rs \<Longrightarrow> mergesTo (os @ xs) (ps @ xs) (ts @ xs) (rs @ xs)"
proof (induction xs arbitrary: os ps ts rs)
  case (Cons x xs)
  then show ?case
    using Cons.IH [OF anchored [OF Cons.prems targetChanged [of "[]" "[]"], of x]] by simp
qed simp

lemma mergesTo_lines:
  "mergesTo os ps ts rs \<Longrightarrow>
    set ps - set os \<subseteq> set rs \<and> set ts - set os \<subseteq> set rs \<and> set rs \<subseteq> set ps \<union> set ts
      \<and> set os \<inter> set ps \<inter> set ts \<subseteq> set rs \<union> (set os \<inter> set ps \<inter> set ts)"
  by (induction rule: mergesTo.induct) auto

lemma sharedPrefix_take:
  "take (sharedPrefix as bs cs) bs = take (sharedPrefix as bs cs) as \<and>
   take (sharedPrefix as bs cs) cs = take (sharedPrefix as bs cs) as"
  by (induction as bs cs rule: sharedPrefix.induct) auto

text \<open>Three lists with a shared front and back are their inner parts between the two.\<close>

lemma take_rev_drop:
  assumes "n \<le> length xs - p" and "p \<le> length xs"
  shows "rev (take n (rev (drop p xs))) = drop (length xs - n) xs"
  using assms by (simp add: take_rev drop_drop)

lemma inner_whole:
  assumes "s \<le> length xs - p" and "p \<le> length xs"
  shows "take p xs @ inner p s xs @ drop (length xs - s) xs = xs"
proof -
  have "p \<le> length xs - s" using assms by linarith
  then have "take p xs = take p (take (length xs - s) xs)" by (simp add: min_def)
  then show ?thesis unfolding inner_def by (metis append_assoc append_take_drop_id)
qed

lemma stripped_parts:
  assumes "prefix = sharedPrefix os ps ts" and "suffix = sharedSuffix prefix os ps ts"
  shows "ps = take prefix os @ inner prefix suffix ps @ drop (length os - suffix) os"
    and "ts = take prefix os @ inner prefix suffix ts @ drop (length os - suffix) os"
    and "os = take prefix os @ inner prefix suffix os @ drop (length os - suffix) os"
proof -
  have le: "prefix \<le> length os" "prefix \<le> length ps" "prefix \<le> length ts"
    using assms(1) sharedPrefix_le by auto
  have sle: "suffix \<le> length os - prefix" "suffix \<le> length ps - prefix" "suffix \<le> length ts - prefix"
    using sharedPrefix_le [of "rev (drop prefix os)" "rev (drop prefix ps)" "rev (drop prefix ts)"]
    by (simp_all add: assms(2) sharedSuffix_def)
  have pre: "take prefix ps = take prefix os" "take prefix ts = take prefix os"
    using sharedPrefix_take [of os ps ts] assms(1) by auto
  have "rev (take suffix (rev (drop prefix ps))) = rev (take suffix (rev (drop prefix os)))"
      "rev (take suffix (rev (drop prefix ts))) = rev (take suffix (rev (drop prefix os)))"
    using sharedPrefix_take [of "rev (drop prefix os)" "rev (drop prefix ps)" "rev (drop prefix ts)"]
    by (simp_all add: assms(2) sharedSuffix_def)
  then have suf: "drop (length ps - suffix) ps = drop (length os - suffix) os"
      "drop (length ts - suffix) ts = drop (length os - suffix) os"
    using le sle by (simp_all add: take_rev_drop)
  show "ps = take prefix os @ inner prefix suffix ps @ drop (length os - suffix) os"
    using inner_whole [OF sle(2) le(2)] pre(1) suf(1) by simp
  show "ts = take prefix os @ inner prefix suffix ts @ drop (length os - suffix) os"
    using inner_whole [OF sle(3) le(3)] pre(2) suf(2) by simp
  show "os = take prefix os @ inner prefix suffix os @ drop (length os - suffix) os"
    using inner_whole [OF sle(1) le(1)] by simp
qed

text \<open>The two halves of the merge: one side unchanged, or the texts to be cut.\<close>

lemma mergeLineRanges_plain:
  assumes "ps = os \<or> ts = os \<or> ps = ts"
  shows "mergeLineRanges os ps ts = Some (if ps = os then ts else ps)"
  unfolding mergeLineRanges.simps [of os ps ts] linesEqual_iff
  by (rule disjE [OF assms]; simp only: if_True if_False simp_thms if_cancel split: if_split; blast)

lemma mergeLineRanges_split:
  assumes "\<not> (ps = os \<or> ts = os \<or> ps = ts)"
  shows "mergeLineRanges os ps ts =
    (let prefix = sharedPrefix os ps ts; suffix = sharedSuffix prefix os ps ts
     in case (if prefix > 0 \<or> suffix > 0
          then mergeLineRanges (inner prefix suffix os) (inner prefix suffix ps) (inner prefix suffix ts) else None) of
       Some middle \<Rightarrow> Some (take prefix os @ middle @ drop (length os - suffix) os)
     | None \<Rightarrow> (case uniqueTripleAnchor os ps ts of None \<Rightarrow> None
         | Some (oi, pi, ti) \<Rightarrow> (case mergeLineRanges (take oi os) (take pi ps) (take ti ts) of None \<Rightarrow> None
             | Some left \<Rightarrow> (case mergeLineRanges (drop (oi + 1) os) (drop (pi + 1) ps) (drop (ti + 1) ts) of None \<Rightarrow> None
                 | Some right \<Rightarrow> Some (left @ [os ! oi] @ right)))))"
  by (subst mergeLineRanges.simps) (use assms in simp)

text \<open>The successful runs of the merge, one rule for each way it succeeds.\<close>

lemma mergeLineRanges_cases:
  assumes "mergeLineRanges os ps ts = Some rs"
  obtains (target) "ps = os" "rs = ts"
  | (project) "ts = os \<or> ps = ts" "rs = ps"
  | (stripped) prefix suffix middle where
      "prefix = sharedPrefix os ps ts" "suffix = sharedSuffix prefix os ps ts"
      "mergeLineRanges (inner prefix suffix os) (inner prefix suffix ps) (inner prefix suffix ts) = Some middle"
      "rs = take prefix os @ middle @ drop (length os - suffix) os" "prefix > 0 \<or> suffix > 0"
  | (anchor) oi pi ti left right where
      "uniqueTripleAnchor os ps ts = Some (oi, pi, ti)"
      "mergeLineRanges (take oi os) (take pi ps) (take ti ts) = Some left"
      "mergeLineRanges (drop (oi + 1) os) (drop (pi + 1) ps) (drop (ti + 1) ts) = Some right"
      "rs = left @ [os ! oi] @ right"
proof (cases "ps = os \<or> ts = os \<or> ps = ts")
  case True
  note plain = mergeLineRanges_plain [OF True]
  have "ps = os \<and> rs = ts \<or> (ts = os \<or> ps = ts) \<and> rs = ps" using plain assms True by (auto split: if_splits)
  then show ?thesis using that(1,2) by blast
next
  case False
  let ?prefix = "sharedPrefix os ps ts" and ?suffix = "sharedSuffix (sharedPrefix os ps ts) os ps ts"
  let ?inner = "\<lambda>ls. inner ?prefix ?suffix ls"
  let ?middle = "if ?prefix > 0 \<or> ?suffix > 0 then mergeLineRanges (?inner os) (?inner ps) (?inner ts) else None"
  note run = assms [unfolded mergeLineRanges_split [OF False] Let_def]
  show ?thesis
  proof (cases ?middle)
    case (Some middle)
    then have "rs = take ?prefix os @ middle @ drop (length os - ?suffix) os" using run False by simp
    then show ?thesis using Some that(3) [OF refl refl] by (simp split: if_splits)
  next
    case None
    then have "(case uniqueTripleAnchor os ps ts of None \<Rightarrow> None
      | Some (oi, pi, ti) \<Rightarrow> (case mergeLineRanges (take oi os) (take pi ps) (take ti ts) of None \<Rightarrow> None
          | Some left \<Rightarrow> (case mergeLineRanges (drop (oi + 1) os) (drop (pi + 1) ps) (drop (ti + 1) ts) of None \<Rightarrow> None
              | Some right \<Rightarrow> Some (left @ [os ! oi] @ right)))) = Some rs" using run False by simp
    then show ?thesis using that(4) by (auto split: option.splits)
  qed
qed

lemma mergeLineRanges_merges:
  "mergeLineRanges os ps ts = Some rs \<Longrightarrow> mergesTo os ps ts rs"
proof (induction "length os + length ps + length ts" arbitrary: os ps ts rs rule: less_induct)
  case less
  from less.prems show ?case
  proof (cases rule: mergeLineRanges_cases)
    case target then show ?thesis by (simp add: targetChanged)
  next
    case project then show ?thesis using projectChanged bothChanged by blast
  next
    case (stripped prefix suffix middle)
    note parts = stripped_parts [OF stripped(1,2)]
    have "prefix \<le> length os" "suffix \<le> length os - prefix"
      using sharedPrefix_le(1) [of os ps ts] sharedPrefix_le(1) [of "rev (drop prefix os)"]
      by (simp_all add: stripped(1,2) sharedSuffix_def)
    then have "length (inner prefix suffix os) < length os"
      unfolding inner_length using stripped(5) by linarith
    moreover have "length (inner prefix suffix ps) \<le> length ps" "length (inner prefix suffix ts) \<le> length ts"
      by (simp_all add: inner_length)
    ultimately have "mergesTo (inner prefix suffix os) (inner prefix suffix ps) (inner prefix suffix ts) middle"
      using less.hyps stripped(3) by simp
    from mergesTo_prefix [OF mergesTo_suffix [OF this]] parts stripped(4) show ?thesis by metis
  next
    case (anchor oi pi ti left right)
    note at = uniqueTripleAnchor_in [OF anchor(1)]
    have "mergesTo (take oi os) (take pi ps) (take ti ts) left"
      by (rule less.hyps [OF _ anchor(2)]) (use at in \<open>simp only: length_take; linarith\<close>)
    moreover have "mergesTo (drop (oi + 1) os) (drop (pi + 1) ps) (drop (ti + 1) ts) right"
      by (rule less.hyps [OF _ anchor(3)]) (use at in \<open>simp only: length_drop; linarith\<close>)
    ultimately have "mergesTo (take oi os @ os ! oi # drop (oi + 1) os) (take pi ps @ os ! oi # drop (pi + 1) ps)
        (take ti ts @ os ! oi # drop (ti + 1) ts) (left @ os ! oi # right)"
      by (rule anchored)
    moreover have "take oi os @ os ! oi # drop (oi + 1) os = os" "take pi ps @ os ! oi # drop (pi + 1) ps = ps"
      "take ti ts @ os ! oi # drop (ti + 1) ts = ts"
      using at id_take_nth_drop [of oi os] id_take_nth_drop [of pi ps] id_take_nth_drop [of ti ts]
      unfolding Suc_eq_plus1 by metis+
    ultimately show ?thesis using anchor(4) by simp
  qed
qed

section \<open>The sides are interchangeable\<close>

lemma sharedPrefix_sym: "sharedPrefix as bs cs = sharedPrefix as cs bs"
proof (induction as bs cs rule: sharedPrefix.induct)
  case (1 a as b bs c cs) then show ?case by auto
qed auto

lemma count_once: "count_list xs x = 1 \<Longrightarrow> i < length xs \<Longrightarrow> xs ! i = x \<Longrightarrow> j < length xs \<Longrightarrow> xs ! j = x \<Longrightarrow> i = j"
proof (induction xs arbitrary: i j)
  case (Cons a xs)
  have rest: "x \<notin> set xs" if "a = x" using Cons.prems(1) that by (simp add: count_list_0_iff)
  show ?case
  proof (cases "a = x")
    case True
    then have "\<not> (\<exists>n. i = Suc n)" "\<not> (\<exists>n. j = Suc n)" using rest Cons.prems by (auto dest: nth_mem)
    then show ?thesis by (metis not0_implies_Suc)
  next
    case False
    then obtain m n where "i = Suc m" "j = Suc n" using Cons.prems(3,5) by (metis nth_Cons_0 not0_implies_Suc)
    then show ?thesis using Cons False by simp
  qed
qed simp

definition flipAnchor :: "anchor \<Rightarrow> anchor" where
  "flipAnchor = (\<lambda>(d, i, j, k). (d, i, k, j))"

lemma countLines_once:
  "countLines ls x = Some w \<Longrightarrow> OcCount w = 1 \<Longrightarrow> i < length ls \<Longrightarrow> ls ! i = x \<Longrightarrow> OcIndex w = i"
  using countLines_Some [of ls x w] count_once [of ls x] by auto

lemma fold_flip:
  assumes "\<And>i l w. (i, l) \<in> set (enumerate n ls) \<Longrightarrow> co l = Some w \<Longrightarrow> OcCount w = 1 \<Longrightarrow> OcIndex w = i"
    and "\<And>d bo j k. best = Some (d, bo, j, k) \<Longrightarrow> bo < n"
  shows "fold (considerLine co ct cp) (enumerate n ls) (map_option flipAnchor best)
    = map_option flipAnchor (fold (considerLine co cp ct) (enumerate n ls) best)"
  using assms
proof (induction ls arbitrary: n best)
  case (Cons l ls)
  let ?next = "considerLine co cp ct (n, l) best"
  have flip: "considerLine co ct cp (n, l) (map_option flipAnchor best) = map_option flipAnchor ?next"
    using Cons.prems(2)
    by (cases best)
      (auto simp: considerLine_def betterAnchor_def flipAnchor_def Let_def add.commute split: option.splits dest: order_less_asym)
  have "\<And>d bo j k. ?next = Some (d, bo, j, k) \<Longrightarrow> bo < Suc n"
    using Cons.prems(1) [of n l] Cons.prems(2)
    by (auto simp: considerLine_def Let_def less_Suc_eq split: option.splits if_splits)
  moreover have "OcIndex w = i" if "(i, k) \<in> set (enumerate (Suc n) ls)" "co k = Some w" "OcCount w = 1" for i k w
    using Cons.prems(1) [of i k w] that by simp
  ultimately have "fold (considerLine co ct cp) (enumerate (Suc n) ls) (map_option flipAnchor ?next)
      = map_option flipAnchor (fold (considerLine co cp ct) (enumerate (Suc n) ls) ?next)"
    using Cons.IH by blast
  then show ?case by (simp add: flip)
qed simp

lemma uniqueTripleAnchor_sym:
  "uniqueTripleAnchor os ts ps = map_option (\<lambda>(i, j, k). (i, k, j)) (uniqueTripleAnchor os ps ts)"
proof -
  have "OcIndex w = i" if "(i, l) \<in> set (enumerate 0 os)" "countLines os l = Some w" "OcCount w = 1" for i l w
    using that countLines_once [of os l w i] by (auto simp: in_set_enumerate_eq)
  from fold_flip [of 0 os "countLines os" None "countLines ts" "countLines ps", OF this]
  show ?thesis by (auto simp: uniqueTripleAnchor_def flipAnchor_def split: option.splits)
qed

lemma mergeLineRanges_sym: "mergeLineRanges os ps ts = mergeLineRanges os ts ps"
proof (induction "length os + length ps + length ts" arbitrary: os ps ts rule: less_induct)
  case less
  show ?case
  proof (cases "ps = os \<or> ts = os \<or> ps = ts")
    case True
    then show ?thesis
      by (auto simp: mergeLineRanges_plain)
  next
    case False
    let ?prefix = "sharedPrefix os ps ts"
    let ?suffix = "sharedSuffix ?prefix os ps ts"
    have le: "?prefix \<le> length os" "?suffix \<le> length os - ?prefix"
      using sharedPrefix_le(1) [of os ps ts] sharedPrefix_le(1) [of "rev (drop ?prefix os)"]
      by (simp_all add: sharedSuffix_def)
    have same: "sharedPrefix os ts ps = ?prefix" "sharedSuffix ?prefix os ts ps = ?suffix"
      by (simp_all add: sharedPrefix_sym [of _ ts ps] sharedSuffix_def sharedPrefix_sym [of _ "rev (drop _ ts)"])
    have middle: "mergeLineRanges (inner ?prefix ?suffix os) (inner ?prefix ?suffix ps) (inner ?prefix ?suffix ts)
        = mergeLineRanges (inner ?prefix ?suffix os) (inner ?prefix ?suffix ts) (inner ?prefix ?suffix ps)"
      if "?prefix > 0 \<or> ?suffix > 0"
      by (rule less.hyps) (use le that in \<open>unfold inner_length, linarith\<close>)
    have parts: "mergeLineRanges (take oi os) (take pi ps) (take ti ts) = mergeLineRanges (take oi os) (take ti ts) (take pi ps)
        \<and> mergeLineRanges (drop (oi + 1) os) (drop (pi + 1) ps) (drop (ti + 1) ts)
          = mergeLineRanges (drop (oi + 1) os) (drop (ti + 1) ts) (drop (pi + 1) ps)"
      if "uniqueTripleAnchor os ps ts = Some (oi, pi, ti)" for oi pi ti
    proof -
      note at = uniqueTripleAnchor_in [OF that]
      have "length (take oi os) + length (take pi ps) + length (take ti ts) < length os + length ps + length ts"
        using at by simp
      moreover have "length (drop (oi + 1) os) + length (drop (pi + 1) ps) + length (drop (ti + 1) ts)
          < length os + length ps + length ts" using at by (simp only: length_drop) linarith
      ultimately show ?thesis using less.hyps by blast
    qed
    have stripped: "(if ?prefix > 0 \<or> ?suffix > 0 then mergeLineRanges (inner ?prefix ?suffix os)
          (inner ?prefix ?suffix ps) (inner ?prefix ?suffix ts) else None)
        = (if ?prefix > 0 \<or> ?suffix > 0 then mergeLineRanges (inner ?prefix ?suffix os)
          (inner ?prefix ?suffix ts) (inner ?prefix ?suffix ps) else None)"
      by (rule if_cong [OF refl middle refl])
    have "\<not> (ts = os \<or> ps = os \<or> ts = ps)" using False by auto
    note cut = mergeLineRanges_split [OF False] mergeLineRanges_split [OF this]
    show ?thesis
    proof (cases "uniqueTripleAnchor os ps ts")
      case None
      then show ?thesis unfolding cut Let_def same stripped uniqueTripleAnchor_sym [of os ts ps]
        by (simp only: option.map option.case)
    next
      case (Some found)
      obtain oi pi ti where found: "found = (oi, pi, ti)" by (cases found)
      then show ?thesis using parts [of oi pi ti] Some
        unfolding cut Let_def same stripped uniqueTripleAnchor_sym [of os ts ps]
        by (simp only: option.map option.case prod.case)
    qed
  qed
qed

section \<open>Independent edits\<close>

lemma uniqueTripleAnchor_once:
  assumes "uniqueTripleAnchor as bs cs = Some (i, j, k)"
  shows "count_list as (as ! i) = 1 \<and> count_list bs (as ! i) = 1 \<and> count_list cs (as ! i) = 1"
proof -
  let ?f = "considerLine (countLines as) (countLines bs) (countLines cs)"
  have found: "?f e best = Some (d, i, j, k) \<Longrightarrow> best = Some (d, i, j, k) \<or> ?thesis" for e d best
    by (auto simp: considerLine_def Let_def split: prod.splits option.splits if_splits dest!: countLines_Some)
  have "fold ?f es best = Some (d, i, j, k) \<Longrightarrow> best = Some (d, i, j, k) \<or> ?thesis" for es d and best
  proof (induction es arbitrary: best)
    case (Cons e es)
    from Cons.IH [of "?f e best"] Cons.prems show ?case using found [of e best d] by auto
  qed simp
  then show ?thesis using assms by (auto simp: uniqueTripleAnchor_def split: option.splits)
qed

lemma countLines_present: "x \<in> set ls \<Longrightarrow> \<exists>w. countLines ls x = Some w"
  by (induction ls rule: rev_induct) (auto simp: countLines_snoc countLine_def)

lemma uniqueTripleAnchor_found:
  assumes "count_list as x = 1" "count_list bs x = 1" "count_list cs x = 1"
  shows "uniqueTripleAnchor as bs cs \<noteq> None"
proof -
  let ?f = "considerLine (countLines as) (countLines bs) (countLines cs)"
  have mem: "x \<in> set as" "x \<in> set bs" "x \<in> set cs"
    using assms by (metis count_list_0_iff zero_neq_one)+
  from countLines_present [OF mem(1)] countLines_present [OF mem(2)] countLines_present [OF mem(3)]
  obtain u v w where "countLines as x = Some u" "countLines bs x = Some v" "countLines cs x = Some w" by blast
  then have now: "?f (i, x) best \<noteq> None" for i best
    using assms by (auto simp: considerLine_def betterAnchor_def Let_def dest!: countLines_Some split: option.splits)
  have keep: "best \<noteq> None \<Longrightarrow> ?f e best \<noteq> None" for e best
    by (auto simp: considerLine_def Let_def split: prod.splits option.splits)
  have stays: "best \<noteq> None \<Longrightarrow> fold ?f es best \<noteq> None" for es best
    by (induction es arbitrary: best) (simp_all add: keep del: not_None_eq)
  have "x \<in> snd ` set es \<Longrightarrow> fold ?f es best \<noteq> None" for es best
  proof (induction es arbitrary: best)
    case (Cons e es)
    show ?case
    proof (cases "snd e = x")
      case True then show ?thesis using stays [OF now [of "fst e" best], of es] by (metis fold_simps(2) prod.collapse)
    qed (use Cons in auto)
  qed simp
  moreover have "x \<in> snd ` set (enumerate 0 as)" using mem(1) by (metis list.set_map map_snd_enumerate)
  ultimately show ?thesis by (force simp: uniqueTripleAnchor_def split: option.splits)
qed

lemma once_either: "count_list (us @ x # vs) y = 1 \<Longrightarrow> \<not> (y \<in> set us \<and> y \<in> set vs)"
  using count_list_0_iff [of us y] count_list_0_iff [of vs y] by (auto split: if_splits)

text \<open>A line that occurs once determines where a list is cut.\<close>

lemma cut_once:
  assumes "xs = us @ y # vs" and "count_list xs y = 1" and "i < length xs" and "xs ! i = y"
  shows "take i xs = us \<and> drop (i + 1) xs = vs"
proof -
  have "length us = i" using count_once [OF assms(2), of "length us" i] assms by simp
  then show ?thesis using assms(1) by auto
qed

text \<open>A shared front of two lists that differ before a line that occurs once in each ends before it.\<close>

lemma shared_before:
  assumes "take n (us @ x # vs) = take n (us' @ x # vs')" and "us \<noteq> us'"
    and "x \<notin> set us" "x \<notin> set us'"
    and "n \<le> length (us @ x # vs)" "n \<le> length (us' @ x # vs')"
  shows "n \<le> length us \<and> n \<le> length us' \<and> take n us = take n us'"
proof -
  have at: "(us @ x # vs) ! i = (us' @ x # vs') ! i" if "i < n" for i using assms(1) that by (metis nth_take)
  have False if gt: "length us < n"
  proof -
    have "(us' @ x # vs') ! length us = x" using at [OF gt] by simp
    then have ge: "length us' \<le> length us" using assms(4) by (metis linorder_not_less nth_append nth_mem)
    then have "(us @ x # vs) ! length us' = x" using at [of "length us'"] gt by simp
    then have "length us \<le> length us'" using assms(3) by (metis linorder_not_less nth_append nth_mem)
    then have "us = us'" using ge gt arg_cong [OF assms(1), of "take (length us)"] by (simp add: min_def)
    then show False using assms(2) by simp
  qed
  moreover have False if gt: "length us' < n"
  proof -
    have "(us @ x # vs) ! length us' = x" using at [OF gt] by simp
    then have ge: "length us \<le> length us'" using assms(3) by (metis linorder_not_less nth_append nth_mem)
    then have "(us' @ x # vs') ! length us = x" using at [of "length us"] gt by simp
    then have "length us' \<le> length us" using assms(4) by (metis linorder_not_less nth_append nth_mem)
    then have "us = us'" using ge gt arg_cong [OF assms(1), of "take (length us)"] by (simp add: min_def)
    then show False using assms(2) by simp
  qed
  ultimately have "n \<le> length us" "n \<le> length us'" by force+
  then show ?thesis using assms(1) by simp
qed

lemma inner_around:
  "p \<le> length as \<Longrightarrow> n \<le> length bs \<Longrightarrow> inner p n (as @ x # bs) = drop p as @ x # take (length bs - n) bs"
  by (simp add: inner_def Suc_diff_le)

lemma behind_around: "n \<le> length bs \<Longrightarrow> drop (length (as @ x # bs) - n) (as @ x # bs) = drop (length bs - n) bs"
  by (simp add: Suc_diff_le)

lemma mergeLineRanges_at_anchor:
  assumes "\<not> (ps = os \<or> ts = os \<or> ps = ts)"
    and "\<not> (sharedPrefix os ps ts > 0 \<or> sharedSuffix (sharedPrefix os ps ts) os ps ts > 0)"
    and "uniqueTripleAnchor os ps ts = Some (oi, pi, ti)"
    and "mergeLineRanges (take oi os) (take pi ps) (take ti ts) = Some ls"
    and "mergeLineRanges (drop (oi + 1) os) (drop (pi + 1) ps) (drop (ti + 1) ts) = Some rs"
  shows "mergeLineRanges os ps ts = Some (ls @ os ! oi # rs)"
  unfolding mergeLineRanges_split [OF assms(1)] Let_def if_not_P [OF assms(2)]
  by (simp only: assms(3,4,5) option.case prod.case append_Cons append_Nil)

lemma merge_same_target: "mergeLineRanges os ps os = Some ps"
  by (cases "ps = os") (simp_all add: mergeLineRanges_plain)

lemma merge_same_project: "mergeLineRanges os os ts = Some ts"
  by (simp add: mergeLineRanges_plain)

lemma independent_edits:
  assumes "x \<notin> set as" "x \<notin> set as'" "x \<notin> set bs" "x \<notin> set bs'"
  shows "mergeLineRanges (as @ x # bs) (as' @ x # bs) (as @ x # bs') = Some (as' @ x # bs')"
  using assms
proof (induction "length as + length bs" arbitrary: as as' bs bs' rule: less_induct)
  case less
  let ?os = "as @ x # bs" and ?ps = "as' @ x # bs" and ?ts = "as @ x # bs'"
  show ?case
  proof (cases "as' = as \<or> bs' = bs")
    case True then show ?thesis using merge_same_target merge_same_project by auto
  next
    case False
    then have differ: "\<not> (?ps = ?os \<or> ?ts = ?os \<or> ?ps = ?ts)"
      using less.prems by (auto simp: append_Cons_eq_iff)
    let ?prefix = "sharedPrefix ?os ?ps ?ts"
    let ?suffix = "sharedSuffix ?prefix ?os ?ps ?ts"
    note les = sharedPrefix_le [of ?os ?ps ?ts]
    have "take ?prefix ?os = take ?prefix ?ps" using sharedPrefix_take [of ?os ?ps ?ts] by (rule conjunct1 [THEN sym])
    from shared_before [OF this _ less.prems(1,2) les(1,2)] False
    have pre: "?prefix \<le> length as" "?prefix \<le> length as'" "take ?prefix as = take ?prefix as'" by blast+
    have tails: "rev (drop ?prefix ?os) = rev bs @ x # rev (drop ?prefix as)"
        "rev (drop ?prefix ?ps) = rev bs @ x # rev (drop ?prefix as')"
        "rev (drop ?prefix ?ts) = rev bs' @ x # rev (drop ?prefix as)" using pre by simp_all
    note backs = sharedPrefix_le [of "rev (drop ?prefix ?os)" "rev (drop ?prefix ?ps)" "rev (drop ?prefix ?ts)",
        folded sharedSuffix_def]
    have "take ?suffix (rev (drop ?prefix ?os)) = take ?suffix (rev (drop ?prefix ?ts))"
      using sharedPrefix_take [of "rev (drop ?prefix ?os)" "rev (drop ?prefix ?ps)" "rev (drop ?prefix ?ts)"]
      unfolding sharedSuffix_def by (rule conjunct2 [THEN sym])
    from shared_before [OF this [unfolded tails] _ _ _ backs(1,3) [unfolded tails]] False less.prems(3,4)
    have suf: "?suffix \<le> length bs" "?suffix \<le> length bs'" "take ?suffix (rev bs) = take ?suffix (rev bs')" by auto
    have inners: "inner ?prefix ?suffix ?os = drop ?prefix as @ x # take (length bs - ?suffix) bs"
        "inner ?prefix ?suffix ?ps = drop ?prefix as' @ x # take (length bs - ?suffix) bs"
        "inner ?prefix ?suffix ?ts = drop ?prefix as @ x # take (length bs' - ?suffix) bs'"
      by (rule inner_around; rule pre suf)+
    have ends: "drop (length bs - ?suffix) bs = drop (length bs' - ?suffix) bs'"
      using suf(3) by (simp add: take_rev)
    show ?thesis
    proof (cases "?prefix > 0 \<or> ?suffix > 0")
      case True
      have "mergeLineRanges (inner ?prefix ?suffix ?os) (inner ?prefix ?suffix ?ps) (inner ?prefix ?suffix ?ts)
          = Some (drop ?prefix as' @ x # take (length bs' - ?suffix) bs')"
        unfolding inners
        by (rule less.hyps) (use True pre suf less.prems in \<open>auto dest: in_set_dropD in_set_takeD\<close>)
      moreover have "take ?prefix ?os @ (drop ?prefix as' @ x # take (length bs' - ?suffix) bs')
          @ drop (length ?os - ?suffix) ?os = as' @ x # bs'"
        unfolding behind_around [OF suf(1)] ends using pre by simp
      ultimately show ?thesis using True by (simp add: mergeLineRanges_split [OF differ] Let_def)
    next
      case none: False
      have "count_list ?os x = 1" "count_list ?ps x = 1" "count_list ?ts x = 1"
        using less.prems by (simp_all add: count_list_append)
      then obtain oi pi ti where anchor: "uniqueTripleAnchor ?os ?ps ?ts = Some (oi, pi, ti)"
        using uniqueTripleAnchor_found by (metis not_None_eq prod_cases3)
      note at = uniqueTripleAnchor_in [OF anchor] and once = uniqueTripleAnchor_once [OF anchor]
      let ?y = "?os ! oi"
      have merged: ?thesis if "mergeLineRanges (take oi ?os) (take pi ?ps) (take ti ?ts) = Some ls"
          "mergeLineRanges (drop (oi + 1) ?os) (drop (pi + 1) ?ps) (drop (ti + 1) ?ts) = Some rs"
          "ls @ ?y # rs = as' @ x # bs'" for ls rs
        using mergeLineRanges_at_anchor [OF differ none anchor that(1,2)] that(3) by simp
      have cut: "take oi ?os = us \<and> drop (oi + 1) ?os = vs" if "?os = us @ ?y # vs" for us vs
        using cut_once [OF that] once at by metis
      have cut_p: "take pi ?ps = us \<and> drop (pi + 1) ?ps = vs" if "?ps = us @ ?y # vs" for us vs
        using cut_once [OF that] once at by metis
      have cut_t: "take ti ?ts = us \<and> drop (ti + 1) ?ts = vs" if "?ts = us @ ?y # vs" for us vs
        using cut_once [OF that] once at by metis
      have y: "?y \<in> set ?os" "?y \<in> set ?ps" "?y \<in> set ?ts" using at by (metis nth_mem)+
      consider (anchor) "?y = x" | (before) "?y \<in> set as" "?y \<noteq> x" | (behind) "?y \<in> set bs" "?y \<noteq> x"
        using y(1) by auto
      then show ?thesis
      proof cases
        case anchor
        note cuts = cut [of as bs] cut_p [of as' bs] cut_t [of as bs']
        show ?thesis
          by (rule merged [of as' bs']) (use cuts anchor merge_same_target merge_same_project in simp_all)
      next
        case before
        then have "?y \<notin> set bs" using once_either [of as x bs ?y] once by blast
        then have "?y \<in> set as'" using y(2) before by auto
        then obtain us' vs' where as': "as' = us' @ ?y # vs'" by (meson split_list)
        obtain us vs where as: "as = us @ ?y # vs" using before(1) by (meson split_list)
        have "take oi ?os = us \<and> drop (oi + 1) ?os = vs @ x # bs" by (rule cut) (metis as append.assoc append_Cons)
        moreover have "take pi ?ps = us' \<and> drop (pi + 1) ?ps = vs' @ x # bs"
          by (rule cut_p) (metis as' append.assoc append_Cons)
        moreover have "take ti ?ts = us \<and> drop (ti + 1) ?ts = vs @ x # bs'"
          by (rule cut_t) (metis as append.assoc append_Cons)
        moreover have "mergeLineRanges (vs @ x # bs) (vs' @ x # bs) (vs @ x # bs') = Some (vs' @ x # bs')"
          by (rule less.hyps) (use less.prems arg_cong [OF as, of length] arg_cong [OF as, of set] arg_cong [OF as', of set] in auto)
        ultimately show ?thesis
          using merged [of us' "vs' @ x # bs'"] merge_same_target [of us us'] as' by (metis append.assoc append_Cons)
      next
        case behind
        then have "?y \<notin> set as" using once_either [of as x bs ?y] once by blast
        then have "?y \<in> set bs'" using y(3) behind by auto
        then obtain us' vs' where bs': "bs' = us' @ ?y # vs'" by (meson split_list)
        obtain us vs where bs: "bs = us @ ?y # vs" using behind(1) by (meson split_list)
        have "take oi ?os = as @ x # us \<and> drop (oi + 1) ?os = vs" by (rule cut) (metis bs append.assoc append_Cons)
        moreover have "take pi ?ps = as' @ x # us \<and> drop (pi + 1) ?ps = vs"
          by (rule cut_p) (metis bs append.assoc append_Cons)
        moreover have "take ti ?ts = as @ x # us' \<and> drop (ti + 1) ?ts = vs'"
          by (rule cut_t) (metis bs' append.assoc append_Cons)
        moreover have "mergeLineRanges (as @ x # us) (as' @ x # us) (as @ x # us') = Some (as' @ x # us')"
          by (rule less.hyps) (use less.prems arg_cong [OF bs, of length] arg_cong [OF bs, of set] arg_cong [OF bs', of set] in auto)
        ultimately show ?thesis
          using merged [of "as' @ x # us'" vs'] merge_same_project [of vs vs'] bs' by (metis append.assoc append_Cons)
      qed
    qed
  qed
qed

end
