(* ===== verification/MergeTheorems.thy ===== *)
theory MergeTheorems
  imports MergeTextFacts
begin

text \<open>
  The merge of texts: cutting a text into lines loses nothing, a merged text falls into exactly the merged
  lines, and the properties of \<open>mergeText\<close>.
\<close>

section \<open>Texts and their lines\<close>

abbreviation newline :: char where "newline \<equiv> CHR 0x0A"

definition endedLine :: "bytes \<Rightarrow> bool" where
  "endedLine l \<longleftrightarrow> l \<noteq> [] \<and> last l = newline \<and> newline \<notin> set (butlast l)"

text \<open>Every line ends with its only newline; the last line may lack it but is not empty.\<close>

fun linesOfText :: "bytes list \<Rightarrow> bool" where
  "linesOfText [] \<longleftrightarrow> True"
| "linesOfText [l] \<longleftrightarrow> l \<noteq> [] \<and> newline \<notin> set (butlast l)"
| "linesOfText (l # m # ls) \<longleftrightarrow> endedLine l \<and> linesOfText (m # ls)"

lemma linesOfText_Cons:
  "linesOfText (l # ls) \<longleftrightarrow> l \<noteq> [] \<and> newline \<notin> set (butlast l) \<and> linesOfText ls \<and> (ls \<noteq> [] \<longrightarrow> endedLine l)"
  by (cases ls) (auto simp: endedLine_def)

lemma linesOfText_append:
  "linesOfText (ls @ l # ms) \<longleftrightarrow> (\<forall>k \<in> set ls. endedLine k) \<and> linesOfText (l # ms)"
  by (induction ls) (auto simp: linesOfText_Cons endedLine_def)

lemma split_first:
  assumes "newline \<notin> set b"
  shows "splitLinesKeepEndings (b @ newline # rest) = (b @ [newline]) # splitLinesKeepEndings rest"
proof -
  have "indexByte (b @ newline # rest) newline = Some (length b)"
    using assms by (simp add: indexByte_append)
  then show ?thesis by (simp add: splitLinesKeepEndings.simps [of "b @ newline # rest"])
qed

lemma split_last: "newline \<notin> set b \<Longrightarrow> b \<noteq> [] \<Longrightarrow> splitLinesKeepEndings b = [b]"
  by (simp add: splitLinesKeepEndings.simps [of b] indexByte_None)

lemma split_concat: "linesOfText ls \<Longrightarrow> splitLinesKeepEndings (concat ls) = ls"
proof (induction ls rule: linesOfText.induct)
  case 1 then show ?case by (simp add: splitLinesKeepEndings.simps)
next
  case (2 l)
  show ?case
  proof (cases "last l = newline")
    case True
    then have "l = butlast l @ newline # []" using 2 by (metis append_butlast_last_id linesOfText.simps(2))
    then show ?thesis using 2 split_first [of "butlast l" "[]"] by (simp add: splitLinesKeepEndings.simps [of "[]"])
  next
    case False
    then have "newline \<notin> set l" using 2 by (metis append_butlast_last_id linesOfText.simps(2) in_set_conv_decomp
      set_append Un_iff list.set(2) insert_iff empty_iff list.set(1))
    then show ?thesis using 2 split_last [of l] by simp
  qed
next
  case (3 l m ls)
  then have "l = butlast l @ [newline]" "newline \<notin> set (butlast l)"
    by (auto simp: endedLine_def) (metis append_butlast_last_id)
  then show ?case using split_first [of "butlast l" "concat (m # ls)"] 3
    by (metis append.assoc append_Cons append_Nil concat.simps(2) linesOfText.simps(3))
qed

lemma concat_split: "concat (splitLinesKeepEndings t) = t"
proof (induction t rule: splitLinesKeepEndings.induct)
  case (1 t)
  show ?case
    by (subst splitLinesKeepEndings.simps) (use 1 in \<open>auto split: option.splits simp del: splitLinesKeepEndings.simps\<close>)
qed

lemma lines_split: "linesOfText (splitLinesKeepEndings t)"
proof (induction t rule: length_induct)
  case (1 t)
  consider "t = []" | (whole) "t \<noteq> []" "newline \<notin> set t" | (first) b rest where "newline \<notin> set b" "t = b @ newline # rest"
    by (metis split_list_first)
  then show ?case
  proof cases
    case whole then show ?thesis by (auto simp: split_last dest: in_set_butlastD)
  next
    case first
    then have "linesOfText (splitLinesKeepEndings rest)" using 1 by simp
    then show ?thesis using first by (simp add: split_first linesOfText_Cons endedLine_def)
  qed (simp add: splitLinesKeepEndings.simps)
qed

lemma mergesTo_linesOfText:
  "mergesTo os ps ts rs \<Longrightarrow> linesOfText ps \<Longrightarrow> linesOfText ts \<Longrightarrow> linesOfText rs"
proof (induction rule: mergesTo.induct)
  case (anchored os ps ts rs os' ps' ts' rs' x)
  have ended: "\<forall>l \<in> set rs. endedLine l"
    using mergesTo_lines [OF anchored.hyps(1)] anchored.prems by (auto simp: linesOfText_append)
  have "rs' \<noteq> [] \<Longrightarrow> ps' \<noteq> [] \<or> ts' \<noteq> []" using mergesTo_lines [OF anchored.hyps(2)] by auto
  then show ?case using anchored ended by (auto simp: linesOfText_append linesOfText_Cons)
qed

lemma merged_lines:
  assumes "mergeLineRanges (splitLinesKeepEndings oldText) (splitLinesKeepEndings projectText)
      (splitLinesKeepEndings targetText) = Some merged"
  shows "splitLinesKeepEndings (concat merged) = merged"
  by (rule split_concat [OF mergesTo_linesOfText [OF mergeLineRanges_merges [OF assms]]]) (rule lines_split)+

section \<open>The properties of a merge\<close>

text \<open>
  C7. Independent edits merge. When the project only changed what stands before a line that occurs once in all
  three texts, and the new version of the game only what stands behind it, the merged text has both changes:
  the project's lines before the line and the new version's lines behind it, whatever else the texts share.
  No conflict is reported and no resolution is consulted.
\<close>

theorem independent_edits_merge:
  assumes "line \<notin> set front" "line \<notin> set front'" "line \<notin> set rest" "line \<notin> set rest'"
    and "linesOfText (front @ line # rest)" "linesOfText (front' @ line # rest)" "linesOfText (front @ line # rest')"
  shows "mergeText toLower sha256 path (concat (front @ line # rest)) (concat (front' @ line # rest))
      (concat (front @ line # rest')) resolutions = Inr (concat (front' @ line # rest'))"
proof -
  note lines = split_concat [OF assms(5)] split_concat [OF assms(6)] split_concat [OF assms(7)]
  have apart: "concat (front' @ line # rest) = concat (front @ line # rest) \<longleftrightarrow> front' = front"
      "concat (front @ line # rest') = concat (front @ line # rest) \<longleftrightarrow> rest' = rest"
    using lines by (metis same_append_eq append_same_eq list.inject)+
  have both: "concat (front' @ line # rest) = concat (front @ line # rest') \<Longrightarrow> front' = front \<and> rest' = rest"
    using lines assms(1-4) by (metis append_Cons_eq_iff)
  have "mergeLineRanges (front @ line # rest) (front' @ line # rest) (front @ line # rest')
      = Some (front' @ line # rest')" by (rule independent_edits) (use assms in auto)
  then show ?thesis unfolding mergeText_def lines apart using both by auto
qed

definition sampleOld :: bytes where
  "sampleOld = ''a = 1'' @ newline # ''anchor = yes'' @ newline # ''b = 1'' @ [newline]"

definition sampleProject :: bytes where
  "sampleProject = ''a = 2'' @ newline # ''anchor = yes'' @ newline # ''b = 1'' @ [newline]"

definition sampleTarget :: bytes where
  "sampleTarget = ''a = 1'' @ newline # ''anchor = yes'' @ newline # ''b = 2'' @ [newline]"

theorem independent_edits_merge_witness:
  "mergeText (\<lambda>s. s) (\<lambda>s. s) ''common/test.txt'' sampleOld sampleProject sampleTarget (\<lambda>_. None)
    = Inr (''a = 2'' @ newline # ''anchor = yes'' @ newline # ''b = 2'' @ [newline])"
  using independent_edits_merge [of "''anchor = yes'' @ [newline]" "[''a = 1'' @ [newline]]" "[''a = 2'' @ [newline]]"
      "[''b = 1'' @ [newline]]" "[''b = 2'' @ [newline]]" "\<lambda>s. s" "\<lambda>s. s" "''common/test.txt''" "\<lambda>_. None"]
  by (simp add: sampleOld_def sampleProject_def sampleTarget_def endedLine_def)

text \<open>
  C13. A merge invents nothing and loses nothing. When merging gives a text, its lines are a merge of the lines of
  the three texts in the sense of \<open>mergesTo\<close>: the texts are cut at lines that all of them share, and between
  two cuts the side that changed wins. So every line that either side added is in the result, and every line of
  the result is a line of one of the two sides. Otherwise the change was in conflict and a recorded
  resolution chose one side as a whole.
\<close>

theorem merge_refines:
  assumes "mergeText toLower sha256 path oldText projectText targetText resolutions = Inr text"
  shows "(mergesTo (splitLinesKeepEndings oldText) (splitLinesKeepEndings projectText)
        (splitLinesKeepEndings targetText) (splitLinesKeepEndings text)
      \<and> set (splitLinesKeepEndings projectText) - set (splitLinesKeepEndings oldText) \<subseteq> set (splitLinesKeepEndings text)
      \<and> set (splitLinesKeepEndings targetText) - set (splitLinesKeepEndings oldText) \<subseteq> set (splitLinesKeepEndings text)
      \<and> set (splitLinesKeepEndings text)
          \<subseteq> set (splitLinesKeepEndings projectText) \<union> set (splitLinesKeepEndings targetText))
    \<or> ((\<exists>r. resolutions (CfID (mergeConflict toLower sha256 path
          ''project and target changed the same text region differently'')) = Some r)
      \<and> (text = projectText \<or> text = targetText))"
proof -
  let ?ls = splitLinesKeepEndings
  let ?decided = "(\<exists>r. resolutions (CfID (mergeConflict toLower sha256 path
      ''project and target changed the same text region differently'')) = Some r)
      \<and> (text = projectText \<or> text = targetText)"
  have "mergesTo (?ls oldText) (?ls projectText) (?ls targetText) (?ls text) \<or> ?decided"
  proof (cases "projectText = oldText \<or> targetText = oldText \<or> projectText = targetText")
    case True
    then show ?thesis using assms mergesTo.intros(1,2,3) by (auto simp: mergeText_def split: if_splits)
  next
    case False
    show ?thesis
    proof (cases "mergeLineRanges (?ls oldText) (?ls projectText) (?ls targetText)")
      case None then show ?thesis using assms False by (auto simp: mergeText_def Let_def split: option.splits if_splits)
    next
      case (Some merged)
      then have "text = concat merged" using assms False by (simp add: mergeText_def)
      then show ?thesis using mergeLineRanges_merges [OF Some] merged_lines [OF Some] by simp
    qed
  qed
  then show ?thesis using mergesTo_lines by blast
qed

theorem merge_refines_witness:
  "\<exists>text. mergeText (\<lambda>s. s) (\<lambda>s. s) ''common/test.txt'' sampleOld sampleProject sampleTarget (\<lambda>_. None) = Inr text
    \<and> mergesTo (splitLinesKeepEndings sampleOld) (splitLinesKeepEndings sampleProject)
        (splitLinesKeepEndings sampleTarget) (splitLinesKeepEndings text)"
proof -
  let ?text = "''a = 2'' @ newline # ''anchor = yes'' @ newline # ''b = 2'' @ [newline]"
  have "mergeText (\<lambda>s. s) (\<lambda>s. s) ''common/test.txt'' sampleOld sampleProject sampleTarget (\<lambda>_. None) = Inr ?text"
    by code_simp
  with merge_refines [OF this] show ?thesis by blast
qed


end
