(* ===== verification/TriggerAlgebra.thy ===== *)
theory TriggerAlgebra
  imports ScriptArena AssocLists
begin

text \<open>
  \<^verbatim>\<open>internal/indexer/trigger_algebra.go\<close>, with \<^verbatim>\<open>canonicalOverrideNodeHash\<close> of \<^verbatim>\<open>override_audit.go\<close> and
  \<^verbatim>\<open>walkNodes\<close> of \<^verbatim>\<open>lint.go\<close>: the lint rules for boolean blocks of the script language. A parsed node with its
  children is a \<open>scriptTree\<close>. The text of a diagnostic is the datatype \<open>advice\<close>, one constructor for each format
  with the values it prints. \<^verbatim>\<open>sha256\<close> is the argument \<open>digest\<close>; the order in which Go ranges over a map is the
  argument \<open>order\<close>, applied to the entries in the order of their insertion.
\<close>

section \<open>Nodes\<close>

datatype scriptTree = Tree (head: ScriptNode) (children: "scriptTree list")

abbreviation treeKey :: "scriptTree \<Rightarrow> bytes" where "treeKey n \<equiv> NdKey (head n)"
abbreviation treeLine :: "scriptTree \<Rightarrow> int" where "treeLine n \<equiv> NdLine (head n)"
abbreviation treeCol :: "scriptTree \<Rightarrow> int" where "treeCol n \<equiv> NdCol (head n)"

fun walkTree :: "scriptTree \<Rightarrow> scriptTree list" where
  "walkTree (Tree h cs) = Tree h cs # concat (map walkTree cs)"

definition walkNodes :: "scriptTree list \<Rightarrow> scriptTree list" where
  "walkNodes nodes = concat (map walkTree nodes)"

definition booleanConnectives :: "bytes list" where
  "booleanConnectives = [''and'', ''or'', ''not'', ''nor'', ''nand'']"

definition negatingConnectives :: "bytes list" where
  "negatingConnectives = [''not'', ''nor'', ''nand'']"

definition connectiveKey :: "scriptTree \<Rightarrow> bytes" where
  "connectiveKey node =
     (if NdKind (head node) \<noteq> ''block'' then []
      else let key = lowerText (treeKey node) in if key \<in> set booleanConnectives then key else [])"

text \<open>What the hash of a node is computed from.\<close>

definition canonicalHead :: "ScriptNode \<Rightarrow> bytes" where
  "canonicalHead h =
     NdKind h @ CHR 0x00 # NdKey h @ CHR 0x00 # NdOperator h @ CHR 0x00 # NdValue h @ [CHR 0x00]"

fun canonicalNode :: "scriptTree \<Rightarrow> bytes" where
  "canonicalNode (Tree h cs) = canonicalHead h @ concat (map canonicalNode cs) @ [CHR 0xFF]"

definition conditionIdentity :: "(bytes \<Rightarrow> bytes) \<Rightarrow> scriptTree \<Rightarrow> bytes" where
  "conditionIdentity digest node = digest (canonicalNode node)"

definition negationTarget :: "scriptTree \<Rightarrow> scriptTree option" where
  "negationTarget node =
     (if lowerText (treeKey node) = ''not'' \<and> NdKind (head node) = ''block''
      then (case children node of [target] \<Rightarrow> Some target | _ \<Rightarrow> None) else None)"

section \<open>Diagnostics\<close>

datatype advice =
    NestedInside bytes
  | RepeatsCondition bytes int bytes
  | RequiresBoth bytes
  | AcceptsBoth bytes
  | NegatesTwice bytes bytes
  | CheckedByEveryBranch bytes
  | DecidedByEnclosing bytes bytes bytes
  | ReadsCallersScope bytes

record ctxDiag =
  DgSeverity :: bytes
  DgCode :: bytes
  DgMsg :: advice
  DgLine :: int
  DgCol :: int

definition diagAt :: "bytes \<Rightarrow> bytes \<Rightarrow> advice \<Rightarrow> scriptTree \<Rightarrow> ctxDiag" where
  "diagAt severity code msg node =
     \<lparr>DgSeverity = severity, DgCode = code, DgMsg = msg, DgLine = treeLine node, DgCol = treeCol node\<rparr>"

definition checkNestedSameConnective :: "scriptTree \<Rightarrow> bytes \<Rightarrow> ctxDiag list" where
  "checkNestedSameConnective node key =
     (if key \<noteq> ''and'' \<and> key \<noteq> ''or'' then []
      else map (diagAt ''info'' ''trigger_nested_same_operator'' (NestedInside key))
        (filter (\<lambda>child. connectiveKey child = key) (children node)))"

fun duplicateLoop ::
  "(bytes \<Rightarrow> bytes) \<Rightarrow> bytes \<Rightarrow> (bytes \<rightharpoonup> scriptTree) \<Rightarrow> scriptTree list \<Rightarrow> ctxDiag list" where
  "duplicateLoop digest key seen [] = []"
| "duplicateLoop digest key seen (child # rest) =
     (let identity = conditionIdentity digest child in
      case seen identity of
        None \<Rightarrow> duplicateLoop digest key (seen(identity \<mapsto> child)) rest
      | Some first \<Rightarrow>
          diagAt ''warning'' ''trigger_duplicate_condition'' (RepeatsCondition (treeKey child) (treeLine first) key) child
          # duplicateLoop digest key seen rest)"

definition checkDuplicateConditions :: "(bytes \<Rightarrow> bytes) \<Rightarrow> scriptTree \<Rightarrow> bytes \<Rightarrow> ctxDiag list" where
  "checkDuplicateConditions digest node key = duplicateLoop digest key Map.empty (children node)"

type_synonym identityMap = "(bytes \<times> scriptTree) list"

text \<open>The maps \<^verbatim>\<open>positives\<close> and \<^verbatim>\<open>negatives\<close>.\<close>

definition sortSign ::
  "(bytes \<Rightarrow> bytes) \<Rightarrow> scriptTree \<Rightarrow> identityMap \<times> identityMap \<Rightarrow> identityMap \<times> identityMap" where
  "sortSign digest child = (\<lambda>(positives, negatives).
     case negationTarget child of
       Some target \<Rightarrow> (positives, AList.update (conditionIdentity digest target) child negatives)
     | None \<Rightarrow> (AList.update (conditionIdentity digest child) child positives, negatives))"

definition contradicts :: "bytes \<Rightarrow> identityMap \<Rightarrow> bytes \<times> scriptTree \<Rightarrow> ctxDiag list" where
  "contradicts key negatives = (\<lambda>(identity, positive).
     case map_of negatives identity of
       None \<Rightarrow> []
     | Some negative \<Rightarrow>
         let later = (if treeLine negative > treeLine positive then negative else positive) in
         [if key = ''or''
          then diagAt ''error'' ''trigger_always_true'' (AcceptsBoth (treeKey positive)) later
          else diagAt ''error'' ''trigger_always_false'' (RequiresBoth (treeKey positive)) later])"

text \<open>\<^verbatim>\<open>sort.SliceStable\<close>: each element in front of the later ones that are not smaller.\<close>

fun stableInsert :: "('a \<Rightarrow> 'a \<Rightarrow> bool) \<Rightarrow> 'a \<Rightarrow> 'a list \<Rightarrow> 'a list" where
  "stableInsert before x [] = [x]"
| "stableInsert before x (y # ys) = (if before y x then y # stableInsert before x ys else x # y # ys)"

definition sliceStable :: "('a \<Rightarrow> 'a \<Rightarrow> bool) \<Rightarrow> 'a list \<Rightarrow> 'a list" where
  "sliceStable before xs = foldr (stableInsert before) xs []"

definition checkContradiction ::
  "(bytes \<Rightarrow> bytes) \<Rightarrow> (identityMap \<Rightarrow> identityMap) \<Rightarrow> scriptTree \<Rightarrow> bytes \<Rightarrow> ctxDiag list" where
  "checkContradiction digest order node key =
     (if key \<noteq> ''and'' \<and> key \<noteq> ''or'' then []
      else let (positives, negatives) = fold (sortSign digest) (children node) ([], [])
           in sliceStable (\<lambda>a b. DgLine a < DgLine b) (concat (map (contradicts key negatives) (order positives))))"

definition checkDoubleNegation :: "scriptTree \<Rightarrow> bytes \<Rightarrow> ctxDiag list" where
  "checkDoubleNegation node key =
     (case negationTarget node of
        None \<Rightarrow> []
      | Some inside \<Rightarrow>
          let innerKey = lowerText (treeKey inside) in
          if NdKind (head inside) \<noteq> ''block'' \<or> innerKey \<notin> set negatingConnectives then []
          else
            let replacement = (if innerKey = ''nor'' then ''a single OR block''
                               else if innerKey = ''nand'' then ''a single AND block'' else ''the condition itself'')
            in [diagAt ''warning'' ''trigger_double_negation'' (NegatesTwice innerKey replacement) inside])"

text \<open>
  The intersection of the branches' conditions: entries of the first branch that every other has. The
  diagnostics made from it differ only in the key they print; the code then sorts them by their text, which
  the model leaves to \<open>order\<close>.
\<close>

fun sharedLoop :: "(bytes \<Rightarrow> bytes) \<Rightarrow> identityMap \<Rightarrow> scriptTree list list \<Rightarrow> identityMap" where
  "sharedLoop digest shared [] = shared"
| "sharedLoop digest shared (branch # branches) =
     (let present = map (conditionIdentity digest) branch;
          kept = filter (\<lambda>(identity, _). identity \<in> set present) shared
      in if kept = [] then [] else sharedLoop digest kept branches)"

definition checkCommonBranchCondition ::
  "(bytes \<Rightarrow> bytes) \<Rightarrow> (identityMap \<Rightarrow> identityMap) \<Rightarrow> scriptTree \<Rightarrow> bytes \<Rightarrow> ctxDiag list" where
  "checkCommonBranchCondition digest order node key =
     (if key \<noteq> ''or'' \<or> length (children node) < 2 then []
      else if list_ex (\<lambda>child. connectiveKey child \<noteq> ''and'' \<or> length (children child) < 2) (children node) then []
      else
        let branches = map children (children node);
            shared = fold (\<lambda>condition. AList.update (conditionIdentity digest condition) condition) (hd branches) []
        in map (\<lambda>(_, condition).
             diagAt ''info'' ''trigger_common_condition'' (CheckedByEveryBranch (treeKey condition)) node)
           (order (sharedLoop digest shared (tl branches))))"

definition checkAbsorbedBranch :: "(bytes \<Rightarrow> bytes) \<Rightarrow> scriptTree \<Rightarrow> bytes \<Rightarrow> ctxDiag list" where
  "checkAbsorbedBranch digest node key =
     (if key \<noteq> ''and'' \<and> key \<noteq> ''or'' then []
      else
        let opposite = (if key = ''and'' then ''or'' else ''and'');
            plain = map (conditionIdentity digest) (filter (\<lambda>child. connectiveKey child = []) (children node))
        in if plain = [] then []
           else concat (map (\<lambda>child.
             if connectiveKey child \<noteq> opposite then []
             else case filter (\<lambda>c. conditionIdentity digest c \<in> set plain) (children child) of
               [] \<Rightarrow> []
             | c # _ \<Rightarrow> [diagAt ''info'' ''trigger_absorbed_branch'' (DecidedByEnclosing opposite (treeKey c) key) child])
             (children node)))"

text \<open>Go compares strings byte by byte.\<close>

fun stringLess :: "bytes \<Rightarrow> bytes \<Rightarrow> bool" where
  "stringLess [] ys = (ys \<noteq> [])"
| "stringLess (x # xs) [] = False"
| "stringLess (x # xs) (y # ys) = (byteOf x < byteOf y \<or> x = y \<and> stringLess xs ys)"

definition diagLess :: "ctxDiag \<Rightarrow> ctxDiag \<Rightarrow> bool" where
  "diagLess a b =
     (if DgLine a \<noteq> DgLine b then DgLine a < DgLine b
      else if DgCol a \<noteq> DgCol b then DgCol a < DgCol b
      else stringLess (DgCode a) (DgCode b))"

definition checkBlock ::
  "(bytes \<Rightarrow> bytes) \<Rightarrow> (identityMap \<Rightarrow> identityMap) \<Rightarrow> scriptTree \<Rightarrow> ctxDiag list" where
  "checkBlock digest order node =
     (let key = connectiveKey node in
      if key = [] then []
      else checkNestedSameConnective node key @ checkDuplicateConditions digest node key
        @ checkContradiction digest order node key @ checkDoubleNegation node key
        @ checkCommonBranchCondition digest order node key @ checkAbsorbedBranch digest node key)"

definition checkTriggerAlgebra ::
  "(bytes \<Rightarrow> bytes) \<Rightarrow> (identityMap \<Rightarrow> identityMap) \<Rightarrow> scriptTree list \<Rightarrow> ctxDiag list" where
  "checkTriggerAlgebra digest order nodes =
     sliceStable diagLess (concat (map (checkBlock digest order) (walkNodes nodes)))"

section \<open>Scopes of the caller\<close>

definition scopeWordMatches :: "bytes \<Rightarrow> bytes \<Rightarrow> bool" where
  "scopeWordMatches t word =
     (let lower = lowerText (trimSpace t) in lower = word \<or> hasPrefix lower (word @ ''.''))"

definition referencesScopeWord :: "scriptTree \<Rightarrow> bytes \<Rightarrow> bool" where
  "referencesScopeWord node word \<longleftrightarrow> scopeWordMatches (treeKey node) word \<or> scopeWordMatches (NdValue (head node)) word"

definition diagBefore :: "ctxDiag \<Rightarrow> ctxDiag \<Rightarrow> bool" where
  "diagBefore a b = (if DgLine a \<noteq> DgLine b then DgLine a < DgLine b else DgCol a < DgCol b)"

definition checkHiddenScopeDependency :: "scriptTree list \<Rightarrow> bytes \<Rightarrow> ctxDiag list" where
  "checkHiddenScopeDependency nodes relPath =
     (let lower = lowerText (map (\<lambda>c. if c = CHR 0x5C then CHR ''/'' else c) relPath) in
      if \<not> containsText lower ''common/scripted_effects/'' \<and> \<not> containsText lower ''common/scripted_triggers/''
      then []
      else sliceStable diagBefore (concat (map (\<lambda>macro.
        if NdKind (head macro) \<noteq> ''block'' \<or> treeKey macro = [] \<or> containsText (lowerText (treeKey macro)) ''prev''
        then []
        else map (diagAt ''warning'' ''hidden_scope_dependency'' (ReadsCallersScope (treeKey macro)))
          (filter (\<lambda>child. referencesScopeWord child ''prev'') (children macro))) nodes)))"

end
