(* ===== verification/TriggerAlgebraFacts.thy ===== *)
theory TriggerAlgebraFacts
  imports TriggerAlgebra
begin

text \<open>
  The rules against the meaning of conditions. \<open>holds v n\<close> is the truth of a condition when \<open>v\<close> gives the truth
  of everything that is not a boolean block; two spellings of one condition have the same truth, because the
  canonical form of a node determines it up to its position. \<open>justified d n\<close> says what a diagnostic claims of
  the block it was made for, and every diagnostic is justified.
\<close>

section \<open>The meaning of conditions\<close>

lemma child_smaller: "c \<in> set (children n) \<Longrightarrow> size c < size n"
  by (cases n) (auto dest: size_list_estimation' [of _ _ _ size, OF _ order_refl])

function holds :: "(bytes \<Rightarrow> bool) \<Rightarrow> scriptTree \<Rightarrow> bool" where
  "holds v n =
     (let key = connectiveKey n in
      if key = ''and'' then \<forall>c \<in> set (children n). holds v c
      else if key = ''or'' then \<exists>c \<in> set (children n). holds v c
      else if key = ''not'' \<or> key = ''nor'' then \<not> (\<exists>c \<in> set (children n). holds v c)
      else if key = ''nand'' then \<not> (\<forall>c \<in> set (children n). holds v c)
      else v (canonicalNode n))"
  by pat_completeness auto
termination by (relation "measure (\<lambda>(_, n). size n)") (simp_all add: child_smaller)

declare holds.simps [simp del]

lemma holds_connectives:
  shows holds_and: "connectiveKey n = ''and'' \<Longrightarrow> holds v n \<longleftrightarrow> (\<forall>c \<in> set (children n). holds v c)"
    and holds_or: "connectiveKey n = ''or'' \<Longrightarrow> holds v n \<longleftrightarrow> (\<exists>c \<in> set (children n). holds v c)"
    and holds_not: "connectiveKey n = ''not'' \<Longrightarrow> holds v n \<longleftrightarrow> \<not> (\<exists>c \<in> set (children n). holds v c)"
    and holds_nor: "connectiveKey n = ''nor'' \<Longrightarrow> holds v n \<longleftrightarrow> \<not> (\<exists>c \<in> set (children n). holds v c)"
    and holds_nand: "connectiveKey n = ''nand'' \<Longrightarrow> holds v n \<longleftrightarrow> \<not> (\<forall>c \<in> set (children n). holds v c)"
  by (simp_all add: holds.simps [of v n])

text \<open>A block whose children have the same truth values has the same truth.\<close>

definition withChildren :: "scriptTree list \<Rightarrow> scriptTree \<Rightarrow> scriptTree" where
  "withChildren cs n = Tree (head n) cs"

lemma withChildren_simps [simp]:
  "head (withChildren cs n) = head n" "children (withChildren cs n) = cs"
  "connectiveKey (withChildren cs n) = connectiveKey n"
  by (simp_all add: withChildren_def connectiveKey_def)

lemma connectiveKey_cases:
  obtains "connectiveKey n = []" | "connectiveKey n = ''and''" | "connectiveKey n = ''or''" | "connectiveKey n = ''not''"
    | "connectiveKey n = ''nor''" | "connectiveKey n = ''nand''"
proof -
  have "connectiveKey n \<in> {[], ''and'', ''or'', ''not'', ''nor'', ''nand''}"
    by (simp add: connectiveKey_def booleanConnectives_def Let_def)
  then show ?thesis using that by blast
qed

lemma holds_same_children:
  assumes "connectiveKey n \<noteq> []" and "holds v ` set cs = holds v ` set (children n)"
  shows "holds v (withChildren cs n) = holds v n"
proof -
  have ex: "(\<exists>c \<in> set cs. holds v c) = (\<exists>c \<in> set (children n). holds v c)"
    and all: "(\<forall>c \<in> set cs. holds v c) = (\<forall>c \<in> set (children n). holds v c)"
    using assms(2) by (metis imageE image_eqI)+
  show ?thesis
    by (rule connectiveKey_cases [of n]) (use assms(1) ex all in
      \<open>simp_all add: holds.simps [of v "withChildren cs n"] holds.simps [of v n]\<close>)
qed

section \<open>Canonical forms\<close>

text \<open>Fields without the separator, as the parser makes them of a text without NUL bytes.\<close>

definition cleanHead :: "ScriptNode \<Rightarrow> bool" where
  "cleanHead h \<longleftrightarrow> CHR 0x00 \<notin> set (NdKind h @ NdKey h @ NdOperator h @ NdValue h) \<and> take 1 (NdKind h) \<noteq> [CHR 0xFF]"

fun clean :: "scriptTree \<Rightarrow> bool" where
  "clean (Tree h cs) \<longleftrightarrow> cleanHead h \<and> (\<forall>c \<in> set cs. clean c)"

lemma before_separator: "c \<notin> set xs \<Longrightarrow> c \<notin> set ys \<Longrightarrow> xs @ c # r = ys @ c # s \<Longrightarrow> xs = ys \<and> r = s"
proof (induction xs arbitrary: ys)
  case Nil then show ?case by (cases ys) auto
next
  case (Cons x xs) then show ?case by (cases ys) auto
qed

text \<open>Two nodes written the same up to their positions and numbers.\<close>

fun sameText :: "scriptTree \<Rightarrow> scriptTree \<Rightarrow> bool" where
  "sameText (Tree h cs) (Tree k ds) \<longleftrightarrow>
     NdKind h = NdKind k \<and> NdKey h = NdKey k \<and> NdOperator h = NdOperator k \<and> NdValue h = NdValue k
     \<and> list_all2 sameText cs ds"

lemma canonicalHead_inj:
  assumes "cleanHead h" "cleanHead k" "canonicalHead h @ r = canonicalHead k @ s"
  shows "NdKind h = NdKind k \<and> NdKey h = NdKey k \<and> NdOperator h = NdOperator k \<and> NdValue h = NdValue k \<and> r = s"
proof -
  note sep = before_separator [of "CHR 0x00"]
  from assms(3) have e: "NdKind h @ CHR 0x00 # (NdKey h @ CHR 0x00 # NdOperator h @ CHR 0x00 # NdValue h @ CHR 0x00 # r)
      = NdKind k @ CHR 0x00 # (NdKey k @ CHR 0x00 # NdOperator k @ CHR 0x00 # NdValue k @ CHR 0x00 # s)"
    by (simp add: canonicalHead_def)
  from sep [OF _ _ e] assms(1,2) have 1: "NdKind h = NdKind k"
      and e: "NdKey h @ CHR 0x00 # (NdOperator h @ CHR 0x00 # NdValue h @ CHR 0x00 # r)
        = NdKey k @ CHR 0x00 # (NdOperator k @ CHR 0x00 # NdValue k @ CHR 0x00 # s)" by (auto simp: cleanHead_def)
  from sep [OF _ _ e] assms(1,2) have 2: "NdKey h = NdKey k"
      and e: "NdOperator h @ CHR 0x00 # (NdValue h @ CHR 0x00 # r) = NdOperator k @ CHR 0x00 # (NdValue k @ CHR 0x00 # s)"
    by (auto simp: cleanHead_def)
  from sep [OF _ _ e] assms(1,2) have 3: "NdOperator h = NdOperator k"
      and e: "NdValue h @ CHR 0x00 # r = NdValue k @ CHR 0x00 # s" by (auto simp: cleanHead_def)
  from sep [OF _ _ e] assms(1,2) have "NdValue h = NdValue k \<and> r = s" by (auto simp: cleanHead_def)
  then show ?thesis using 1 2 3 by simp
qed

lemma canonicalNode_start: "clean n \<Longrightarrow> \<exists>c r. canonicalNode n = c # r \<and> c \<noteq> CHR 0xFF"
  by (cases n; cases "NdKind (head n)") (auto simp: canonicalHead_def cleanHead_def)

lemma canonicalNode_inj:
  "clean n \<Longrightarrow> clean m \<Longrightarrow> canonicalNode n @ r = canonicalNode m @ s \<Longrightarrow> sameText n m \<and> r = s"
proof (induction n arbitrary: m r s)
  case (Tree h cs)
  obtain k ds where m: "m = Tree k ds" by (cases m)
  have heads: "NdKind h = NdKind k \<and> NdKey h = NdKey k \<and> NdOperator h = NdOperator k \<and> NdValue h = NdValue k
      \<and> concat (map canonicalNode cs) @ CHR 0xFF # r = concat (map canonicalNode ds) @ CHR 0xFF # s"
    using canonicalHead_inj [of h k "concat (map canonicalNode cs) @ CHR 0xFF # r"
        "concat (map canonicalNode ds) @ CHR 0xFF # s"] Tree.prems m by simp
  have "list_all2 sameText as bs \<and> r = s"
    if "concat (map canonicalNode as) @ CHR 0xFF # r = concat (map canonicalNode bs) @ CHR 0xFF # s"
      "set as \<subseteq> set cs" "set bs \<subseteq> set ds" for as bs
    using that
  proof (induction as arbitrary: bs)
    case Nil
    then show ?case using canonicalNode_start Tree.prems(2) m by (cases bs) fastforce+
  next
    case (Cons a as)
    have a: "a \<in> set cs" "clean a" using Cons.prems(2) Tree.prems(1) by auto
    obtain b bs' where bs: "bs = b # bs'"
      using Cons.prems(1) canonicalNode_start [OF a(2)] by (cases bs) auto
    then have b: "clean b" using Cons.prems(3) Tree.prems(2) m by auto
    have "sameText a b \<and> concat (map canonicalNode as) @ CHR 0xFF # r = concat (map canonicalNode bs') @ CHR 0xFF # s"
      by (rule Tree.IH [OF a b]) (use Cons.prems(1) bs in simp)
    then show ?case using Cons.IH [of bs'] Cons.prems(2,3) bs by simp
  qed
  from this [of cs ds] heads m show ?case by simp
qed

lemma sameText_canonical: "sameText n m \<Longrightarrow> canonicalNode n = canonicalNode m"
proof (induction n m rule: sameText.induct)
  case (1 h cs k ds)
  then have "list_all2 (\<lambda>c d. canonicalNode c = canonicalNode d) cs ds"
    by (auto simp: list_all2_conv_all_nth in_set_zip)
  then have "map canonicalNode cs = map canonicalNode ds" by (simp add: list_all2_conv_all_nth list_eq_iff_nth_eq)
  then show ?case using 1 by (simp add: canonicalHead_def)
qed

lemma sameText_holds: "sameText n m \<Longrightarrow> holds v n = holds v m"
proof (induction n m rule: sameText.induct)
  case (1 h cs k ds)
  then have all: "list_all2 (\<lambda>c d. holds v c = holds v d) cs ds"
    by (auto simp: list_all2_conv_all_nth in_set_zip)
  have key: "connectiveKey (Tree h cs) = connectiveKey (Tree k ds)" using 1(2) by (simp add: connectiveKey_def)
  have canon: "canonicalNode (Tree h cs) = canonicalNode (Tree k ds)" by (rule sameText_canonical [OF 1(2)])
  have sets: "(\<exists>c \<in> set cs. holds v c) = (\<exists>d \<in> set ds. holds v d)" "(\<forall>c \<in> set cs. holds v c) = (\<forall>d \<in> set ds. holds v d)"
    using all by (auto simp: list_all2_conv_all_nth in_set_conv_nth Bex_def Ball_def)
  show ?case
    unfolding holds.simps [of v "Tree h cs"] holds.simps [of v "Tree k ds"] key canon scriptTree.sel sets by (rule refl)
qed

lemma canonical_holds: "clean n \<Longrightarrow> clean m \<Longrightarrow> canonicalNode n = canonicalNode m \<Longrightarrow> holds v n = holds v m"
  using canonicalNode_inj [of n m "[]" "[]"] sameText_holds by simp

section \<open>What a diagnostic claims\<close>

definition positionOf :: "ctxDiag \<Rightarrow> scriptTree \<Rightarrow> bool" where
  "positionOf d c \<longleftrightarrow> DgLine d = treeLine c \<and> DgCol d = treeCol c"

definition replaceChild :: "nat \<Rightarrow> scriptTree list \<Rightarrow> scriptTree \<Rightarrow> scriptTree" where
  "replaceChild i new n = withChildren (take i (children n) @ new @ drop (Suc i) (children n)) n"

definition justified :: "ctxDiag \<Rightarrow> scriptTree \<Rightarrow> bool" where
  "justified d n \<longleftrightarrow>
     (case DgMsg d of
        NestedInside key \<Rightarrow> \<exists>i < length (children n). positionOf d (children n ! i)
          \<and> (\<forall>v. holds v (replaceChild i (children (children n ! i)) n) = holds v n)
      | RepeatsCondition name line key \<Rightarrow> \<exists>i < length (children n). positionOf d (children n ! i)
          \<and> (\<exists>j < i. sameText (children n ! j) (children n ! i) \<and> treeLine (children n ! j) = line)
          \<and> (\<forall>v. holds v (replaceChild i [] n) = holds v n)
      | RequiresBoth name \<Rightarrow> (\<exists>c \<in> set (children n). positionOf d c) \<and> (\<forall>v. \<not> holds v n)
      | AcceptsBoth name \<Rightarrow> (\<exists>c \<in> set (children n). positionOf d c) \<and> (\<forall>v. holds v n)
      | NegatesTwice key replacement \<Rightarrow> \<exists>inside. children n = [inside] \<and> positionOf d inside
          \<and> (\<forall>v. holds v n = (if key = ''nand'' then \<forall>c \<in> set (children inside). holds v c
               else \<exists>c \<in> set (children inside). holds v c))
      | CheckedByEveryBranch name \<Rightarrow> positionOf d n \<and> (\<exists>c. treeKey c = name
          \<and> (\<forall>b \<in> set (children n). \<exists>x \<in> set (children b). sameText x c)
          \<and> (\<forall>v. holds v n =
               (holds v c \<and> (\<exists>b \<in> set (children n). \<forall>x \<in> set (children b). \<not> sameText x c \<longrightarrow> holds v x))))
      | DecidedByEnclosing opposite name key \<Rightarrow> \<exists>i < length (children n). positionOf d (children n ! i)
          \<and> connectiveKey (children n ! i) = opposite \<and> (\<forall>v. holds v (replaceChild i [] n) = holds v n)
      | ReadsCallersScope name \<Rightarrow> False)"

text \<open>Equal identities mean the same text, among the nodes \<open>S\<close>.\<close>

definition tellsApart :: "(bytes \<Rightarrow> bytes) \<Rightarrow> scriptTree set \<Rightarrow> bool" where
  "tellsApart digest S \<longleftrightarrow> (\<forall>a \<in> S. \<forall>b \<in> S. conditionIdentity digest a = conditionIdentity digest b \<longrightarrow> sameText a b)"

lemma tellsApartD:
  "tellsApart digest S \<Longrightarrow> a \<in> S \<Longrightarrow> b \<in> S \<Longrightarrow> conditionIdentity digest a = conditionIdentity digest b \<Longrightarrow> sameText a b"
  by (auto simp: tellsApart_def)

lemma children_around: "i < length (children n) \<Longrightarrow>
    set (children n) = set (take i (children n)) \<union> {children n ! i} \<union> set (drop (Suc i) (children n))"
  by (subst id_take_nth_drop [of i "children n"]) auto

lemma positionOf_diagAt [simp]: "positionOf (diagAt severity code msg c) c"
  by (simp add: positionOf_def diagAt_def)

lemma diagAt_msg [simp]: "DgMsg (diagAt severity code msg c) = msg"
  by (simp add: diagAt_def)

text \<open>Dropping a child that has the truth of another one, or of none that matters.\<close>

lemma drop_repeated:
  assumes "connectiveKey n \<noteq> []" "j < i" "i < length (children n)" "sameText (children n ! j) (children n ! i)"
  shows "holds v (replaceChild i [] n) = holds v n"
proof -
  have "children n ! j \<in> set (take i (children n))" using assms(2,3) by (metis in_set_conv_nth length_take min_less_iff_conj nth_take order_less_trans)
  moreover have "holds v (children n ! i) = holds v (children n ! j)" using sameText_holds [OF assms(4)] by simp
  ultimately have "holds v ` set (take i (children n) @ [] @ drop (Suc i) (children n)) = holds v ` set (children n)"
    by (subst children_around [OF assms(3)]) auto
  then show ?thesis unfolding replaceChild_def by (rule holds_same_children [OF assms(1)])
qed

lemma nested_justified:
  assumes "d \<in> set (checkNestedSameConnective n (connectiveKey n))"
  shows "justified d n"
proof -
  obtain c where key: "connectiveKey n = ''and'' \<or> connectiveKey n = ''or''"
    and c: "c \<in> set (children n)" "connectiveKey c = connectiveKey n"
    and d: "d = diagAt ''info'' ''trigger_nested_same_operator'' (NestedInside (connectiveKey n)) c"
    using assms by (auto simp: checkNestedSameConnective_def split: if_splits)
  obtain i where i: "i < length (children n)" "children n ! i = c" using c(1) by (auto simp: in_set_conv_nth)
  let ?cs = "take i (children n) @ children c @ drop (Suc i) (children n)"
  have cs: "set ?cs = set (take i (children n)) \<union> set (children c) \<union> set (drop (Suc i) (children n))" by auto
  note around = children_around [OF i(1), unfolded i(2)]
  have "holds v (withChildren ?cs n) = holds v n" for v
  proof (cases "connectiveKey n = ''and''")
    case True
    then have "holds v c = (\<forall>x \<in> set (children c). holds v x)" using holds_and [of c v] c(2) by metis
    moreover note holds_and [of n v, unfolded around ball_Un, OF True]
      holds_and [of "withChildren ?cs n" v, unfolded withChildren_simps cs ball_Un, OF True]
    ultimately show ?thesis by blast
  next
    case False
    then have or: "connectiveKey n = ''or''" using key by simp
    then have "holds v c = (\<exists>x \<in> set (children c). holds v x)" using holds_or [of c v] c(2) by metis
    moreover note holds_or [of n v, unfolded around bex_Un, OF or]
      holds_or [of "withChildren ?cs n" v, unfolded withChildren_simps cs bex_Un, OF or]
    ultimately show ?thesis by blast
  qed
  then show ?thesis using i d by (auto simp: justified_def replaceChild_def)
qed

lemma duplicateLoop_justified:
  assumes "tellsApart digest S" and "set (children n) \<subseteq> S" and "children n = pre @ rest"
    and "\<And>identity c. seen identity = Some c \<Longrightarrow> c \<in> set pre \<and> conditionIdentity digest c = identity"
    and "d \<in> set (duplicateLoop digest key seen rest)" and "connectiveKey n \<noteq> []"
  shows "justified d n"
  using assms(3-5)
proof (induction rest arbitrary: pre seen)
  case (Cons child rest)
  let ?id = "conditionIdentity digest child"
  show ?case
  proof (cases "seen ?id")
    case None
    show ?thesis
    proof (rule Cons.IH [of "pre @ [child]" "seen(?id \<mapsto> child)"])
      show "d \<in> set (duplicateLoop digest key (seen(?id \<mapsto> child)) rest)"
        using Cons.prems(3) None by (simp add: Let_def)
    qed (use Cons.prems(1,2) in \<open>auto split: if_splits\<close>)
  next
    case (Some c)
    note first = Cons.prems(2) [OF Some]
    consider "d = diagAt ''warning'' ''trigger_duplicate_condition'' (RepeatsCondition (treeKey child) (treeLine c) key) child"
      | "d \<in> set (duplicateLoop digest key seen rest)" using Cons.prems(3) Some by (auto simp: Let_def)
    then show ?thesis
    proof cases
      case 1
      obtain j where j: "j < length pre" "pre ! j = c" using first by (auto simp: in_set_conv_nth)
      have at: "children n ! j = c" "children n ! length pre = child" "length pre < length (children n)"
        using Cons.prems(1) j by (simp_all add: nth_append)
      have "sameText c child"
        by (rule tellsApartD [OF assms(1)]) (use first assms(2) Cons.prems(1) in auto)
      then show ?thesis using drop_repeated [OF assms(6) j(1) at(3)] 1 j(1) at by (auto simp: justified_def)
    next
      case 2
      show ?thesis by (rule Cons.IH [of "pre @ [child]" seen]) (use Cons.prems 2 in auto)
    qed
  qed
qed simp

lemma duplicates_justified:
  assumes "tellsApart digest S" and "set (children n) \<subseteq> S" and "d \<in> set (checkDuplicateConditions digest n key)"
    and "connectiveKey n \<noteq> []"
  shows "justified d n"
  by (rule duplicateLoop_justified [OF assms(1,2), of "[]" "children n" Map.empty d key])
    (use assms(3,4) in \<open>auto simp: checkDuplicateConditions_def\<close>)

lemma negationTarget_holds:
  assumes "negationTarget c = Some t"
  shows "connectiveKey c = ''not'' \<and> children c = [t] \<and> holds v c = (\<not> holds v t)"
proof -
  have c: "connectiveKey c = ''not''" "children c = [t]"
    using assms by (auto simp: negationTarget_def connectiveKey_def booleanConnectives_def split: if_splits list.splits)
  then show ?thesis using holds_not [of c v] by simp
qed

definition signsOf :: "(bytes \<Rightarrow> bytes) \<Rightarrow> scriptTree list \<Rightarrow> identityMap \<times> identityMap \<Rightarrow> bool" where
  "signsOf digest cs = (\<lambda>(positives, negatives).
     (\<forall>(k, c) \<in> set positives. c \<in> set cs \<and> conditionIdentity digest c = k)
     \<and> (\<forall>(k, c) \<in> set negatives. c \<in> set cs \<and> (\<exists>t. negationTarget c = Some t \<and> conditionIdentity digest t = k)))"

lemma signsOf_fold:
  "signsOf digest cs acc \<Longrightarrow> set xs \<subseteq> set cs \<Longrightarrow> signsOf digest cs (fold (sortSign digest) xs acc)"
proof (induction xs arbitrary: acc)
  case (Cons x xs)
  have "signsOf digest cs (sortSign digest x acc)"
    using Cons.prems set_update_subset [of "conditionIdentity digest x" x "fst acc"]
      set_update_subset [of "conditionIdentity digest (the (negationTarget x))" x "snd acc"]
    by (cases "negationTarget x"; cases acc) (auto simp: signsOf_def sortSign_def)
  then show ?case using Cons by simp
qed simp

lemma set_stableInsert [simp]: "set (stableInsert before x xs) = insert x (set xs)"
  by (induction before x xs rule: stableInsert.induct) auto

lemma set_sliceStable [simp]: "set (sliceStable before xs) = set xs"
  unfolding sliceStable_def by (induction xs) auto

lemma contradiction_justified:
  assumes "tellsApart digest S" and "set (children n) \<subseteq> S" and "\<And>c. c \<in> set (children n) \<Longrightarrow> set (children c) \<subseteq> S"
    and "\<And>xs. set (order xs) \<subseteq> set xs"
    and "d \<in> set (checkContradiction digest order n (connectiveKey n))"
  shows "justified d n"
proof -
  obtain positives negatives where signs: "fold (sortSign digest) (children n) ([], []) = (positives, negatives)"
    by fastforce
  have ok: "signsOf digest (children n) (positives, negatives)"
    using signsOf_fold [of digest "children n" "([], [])" "children n"] signs by (simp add: signsOf_def)
  have key: "connectiveKey n = ''and'' \<or> connectiveKey n = ''or''"
    using assms(5) by (auto simp: checkContradiction_def split: if_splits)
  then obtain e where e: "e \<in> set (order positives)" "d \<in> set (contradicts (connectiveKey n) negatives e)"
    using assms(5) by (auto simp: checkContradiction_def signs)
  obtain k positive where entry: "e = (k, positive)" by (cases e)
  then obtain negative where negative: "map_of negatives k = Some negative"
    using e(2) by (cases "map_of negatives k") (auto simp: contradicts_def)
  have p: "positive \<in> set (children n)" "conditionIdentity digest positive = k"
    using ok e(1) entry assms(4) [of positives] by (auto simp: signsOf_def)
  obtain t where q: "negative \<in> set (children n)" "negationTarget negative = Some t" "conditionIdentity digest t = k"
    using ok map_of_SomeD [OF negative] by (auto simp: signsOf_def)
  have t: "t \<in> S" using assms(3) [OF q(1)] negationTarget_holds [OF q(2)] by auto
  have "sameText positive t" by (rule tellsApartD [OF assms(1) _ t]) (use p q assms(2) in auto)
  then have opposite: "holds v negative = (\<not> holds v positive)" for v
    using negationTarget_holds [OF q(2), of v] sameText_holds [of positive t v] by simp
  define later where "later = (if treeLine negative > treeLine positive then negative else positive)"
  have "positionOf d later" using e(2) entry negative by (auto simp: contradicts_def later_def Let_def split: if_splits)
  then have at: "\<exists>c \<in> set (children n). positionOf d c"
    using p(1) q(1) by (auto simp: later_def split: if_splits)
  from key show ?thesis
  proof
    assume all: "connectiveKey n = ''and''"
    then have "\<not> holds v n" for v using holds_and [of n v] p(1) q(1) opposite [of v] by blast
    moreover have "\<exists>name. DgMsg d = RequiresBoth name"
      using e(2) entry negative all by (auto simp: contradicts_def Let_def)
    ultimately show ?thesis using at by (auto simp: justified_def)
  next
    assume or: "connectiveKey n = ''or''"
    then have "holds v n" for v using holds_or [of n v] p(1) q(1) opposite [of v] by blast
    moreover have "\<exists>name. DgMsg d = AcceptsBoth name"
      using e(2) entry negative or by (auto simp: contradicts_def Let_def)
    ultimately show ?thesis using at by (auto simp: justified_def)
  qed
qed

lemma doubleNegation_justified:
  assumes "d \<in> set (checkDoubleNegation n key)"
  shows "justified d n"
proof -
  let ?repl = "\<lambda>k. if k = ''nor'' then ''a single OR block'' else if k = ''nand'' then ''a single AND block'' else ''the condition itself''"
  obtain inside where t: "negationTarget n = Some inside"
    and block: "NdKind (head inside) = ''block''" "lowerText (treeKey inside) \<in> set negatingConnectives"
    and d: "d = diagAt ''warning'' ''trigger_double_negation''
      (NegatesTwice (lowerText (treeKey inside)) (?repl (lowerText (treeKey inside)))) inside"
    using assms by (cases "negationTarget n") (auto simp: checkDoubleNegation_def Let_def split: if_splits)
  have "lowerText (treeKey inside) \<in> set booleanConnectives"
    using block(2) by (auto simp: negatingConnectives_def booleanConnectives_def)
  then have key: "connectiveKey inside = lowerText (treeKey inside)" using block(1) by (simp add: connectiveKey_def)
  have "holds v n = (if lowerText (treeKey inside) = ''nand'' then \<forall>c \<in> set (children inside). holds v c
      else \<exists>c \<in> set (children inside). holds v c)" for v
    using negationTarget_holds [OF t, of v] block(2) key holds_not [of inside v] holds_nor [of inside v] holds_nand [of inside v]
    by (auto simp: negatingConnectives_def)
  then show ?thesis using d negationTarget_holds [OF t] by (auto simp: justified_def)
qed

lemma sharedLoop_in:
  assumes "(k, c) \<in> set (sharedLoop digest shared branches)"
  shows "(k, c) \<in> set shared \<and> (\<forall>b \<in> set branches. \<exists>x \<in> set b. conditionIdentity digest x = k)"
  using assms
proof (induction branches arbitrary: shared)
  case (Cons b branches)
  then show ?case by (force simp: Let_def split: if_splits)
qed simp

lemma common_entries:
  "(k, c) \<in> set (fold (\<lambda>condition. AList.update (conditionIdentity digest condition) condition) xs acc) \<Longrightarrow>
    (k, c) \<in> set acc \<or> c \<in> set xs \<and> conditionIdentity digest c = k"
proof (induction xs arbitrary: acc)
  case (Cons x xs)
  from Cons.IH [of "AList.update (conditionIdentity digest x) x acc"] Cons.prems
    set_update_subset [of "conditionIdentity digest x" x acc] show ?case by auto
qed simp

lemma common_justified:
  assumes "tellsApart digest S" and "\<And>c. c \<in> set (children n) \<Longrightarrow> set (children c) \<subseteq> S"
    and "\<And>xs. set (order xs) \<subseteq> set xs"
    and "d \<in> set (checkCommonBranchCondition digest order n (connectiveKey n))"
  shows "justified d n"
proof -
  let ?branches = "map children (children n)"
  let ?shared = "fold (\<lambda>condition. AList.update (conditionIdentity digest condition) condition) (hd ?branches) []"
  have or: "connectiveKey n = ''or''" and some: "children n \<noteq> []"
    and ands: "\<And>b. b \<in> set (children n) \<Longrightarrow> connectiveKey b = ''and''"
    using assms(4) by (auto simp: checkCommonBranchCondition_def list_ex_iff split: if_splits)
  have "set (checkCommonBranchCondition digest order n (connectiveKey n)) \<subseteq>
      (\<lambda>(_, condition). diagAt ''info'' ''trigger_common_condition'' (CheckedByEveryBranch (treeKey condition)) n)
        ` set (order (sharedLoop digest ?shared (tl ?branches)))"
    by (auto simp: checkCommonBranchCondition_def Let_def)
  then obtain k c where c: "(k, c) \<in> set (order (sharedLoop digest ?shared (tl ?branches)))"
    and d: "d = diagAt ''info'' ''trigger_common_condition'' (CheckedByEveryBranch (treeKey c)) n"
    using assms(4) by fast
  have k: "(k, c) \<in> set ?shared" "\<forall>b \<in> set (tl ?branches). \<exists>x \<in> set b. conditionIdentity digest x = k"
    using sharedLoop_in c assms(3) by blast+
  then have c_in: "c \<in> set (hd ?branches)" "conditionIdentity digest c = k" using common_entries [OF k(1)] by auto
  obtain b0 bs where bs: "children n = b0 # bs" using some by (cases "children n") auto
  have c_S: "c \<in> S" using c_in(1) assms(2) [of b0] bs by auto
  have everywhere: "\<exists>x \<in> set (children b). sameText x c" if b: "b \<in> set (children n)" for b
  proof -
    obtain x where x: "x \<in> set (children b)" "conditionIdentity digest x = k"
      using b bs k(2) c_in by auto
    have "sameText x c" by (rule tellsApartD [OF assms(1) _ c_S]) (use x c_in(2) assms(2) [OF b] in auto)
    then show ?thesis using x(1) by blast
  qed
  have "holds v n = (holds v c \<and> (\<exists>b \<in> set (children n). \<forall>x \<in> set (children b). \<not> sameText x c \<longrightarrow> holds v x))" for v
  proof -
    have "holds v b = (holds v c \<and> (\<forall>x \<in> set (children b). \<not> sameText x c \<longrightarrow> holds v x))" if b: "b \<in> set (children n)" for b
      using holds_and [OF ands [OF b], of v] everywhere [OF b] sameText_holds [of _ c v] by blast
    then show ?thesis using holds_or [OF or, of v] by blast
  qed
  then show ?thesis using everywhere d by (auto simp: justified_def)
qed

lemma in_if_nil: "d \<in> set (if A then [] else xs) \<Longrightarrow> d \<in> set xs"
  by (simp split: if_splits)

lemma in_concat_map: "d \<in> set (concat (map f xs)) \<Longrightarrow> \<exists>x \<in> set xs. d \<in> set (f x)"
  by auto

lemma absorbed_justified:
  assumes "tellsApart digest S" and "set (children n) \<subseteq> S" and "\<And>c. c \<in> set (children n) \<Longrightarrow> set (children c) \<subseteq> S"
    and "d \<in> set (checkAbsorbedBranch digest n (connectiveKey n))"
  shows "justified d n"
proof -
  let ?opp = "if connectiveKey n = ''and'' then ''or'' else ''and''"
  let ?plain = "map (conditionIdentity digest) (filter (\<lambda>child. connectiveKey child = []) (children n))"
  have key: "connectiveKey n = ''and'' \<or> connectiveKey n = ''or''"
    using assms(4) by (auto simp: checkAbsorbedBranch_def split: if_splits)
  let ?diag = "\<lambda>b c. diagAt ''info'' ''trigger_absorbed_branch'' (DecidedByEnclosing ?opp (treeKey c) (connectiveKey n)) b"
  let ?hits = "\<lambda>b. filter (\<lambda>c. conditionIdentity digest c \<in> set ?plain) (children b)"
  have "d \<in> set (concat (map (\<lambda>b. if connectiveKey b \<noteq> ?opp then [] else
      case ?hits b of [] \<Rightarrow> [] | c # _ \<Rightarrow> [?diag b c]) (children n)))"
    by (rule in_if_nil [OF in_if_nil [OF assms(4) [unfolded checkAbsorbedBranch_def Let_def]]])
  from in_concat_map [OF this] obtain b where b: "b \<in> set (children n)"
    and db: "d \<in> set (if connectiveKey b \<noteq> ?opp then [] else case ?hits b of [] \<Rightarrow> [] | c # _ \<Rightarrow> [?diag b c])" by blast
  have "connectiveKey b = ?opp" using db by (cases "connectiveKey b = ?opp") simp_all
  note b = b this
  have "d \<in> set (case ?hits b of [] \<Rightarrow> [] | c # _ \<Rightarrow> [?diag b c])" by (rule in_if_nil [OF db])
  then obtain c rest where hits: "filter (\<lambda>c. conditionIdentity digest c \<in> set ?plain) (children b) = c # rest"
    and d: "d = ?diag b c"
    by (cases "filter (\<lambda>c. conditionIdentity digest c \<in> set ?plain) (children b)") simp_all
  have "c \<in> set (filter (\<lambda>c. conditionIdentity digest c \<in> set ?plain) (children b))" unfolding hits by simp
  then have b3: "c \<in> set (children b)" and cid: "conditionIdentity digest c \<in> set ?plain" by auto
  note b = b b3
  obtain a where a: "a \<in> set (children n)" "connectiveKey a = []" "conditionIdentity digest a = conditionIdentity digest c"
    using cid by auto
  have "sameText a c" by (rule tellsApartD [OF assms(1)]) (use a b assms(2) assms(3) [OF b(1)] in auto)
  then have ac: "holds v a = holds v c" for v by (rule sameText_holds)
  obtain i where i: "i < length (children n)" "children n ! i = b" using b(1) by (auto simp: in_set_conv_nth)
  note around = children_around [OF i(1), unfolded i(2)]
  have "a \<noteq> b" using a(2) b(2) by (auto split: if_splits)
  then have a': "a \<in> set (take i (children n)) \<union> set (drop (Suc i) (children n))" using a(1) around by auto
  let ?cs = "take i (children n) @ [] @ drop (Suc i) (children n)"
  have cs: "set ?cs = set (take i (children n)) \<union> set (drop (Suc i) (children n))" by simp
  have "holds v (withChildren ?cs n) = holds v n" for v
  proof (cases "connectiveKey n = ''and''")
    case True
    then have "connectiveKey b = ''or''" using b(2) by simp
    from holds_or [OF this, of v] have "holds v a \<Longrightarrow> holds v b" using b(3) ac [of v] by blast
    moreover note holds_and [of n v, unfolded around ball_Un, OF True]
      holds_and [of "withChildren ?cs n" v, unfolded withChildren_simps cs ball_Un, OF True]
    ultimately show ?thesis using a' by blast
  next
    case False
    then have or: "connectiveKey n = ''or''" and "connectiveKey b = ''and''" using key b(2) by auto
    from holds_and [OF this(2), of v] have "holds v b \<Longrightarrow> holds v a" using b(3) ac [of v] by blast
    moreover note holds_or [of n v, unfolded around bex_Un, OF or]
      holds_or [of "withChildren ?cs n" v, unfolded withChildren_simps cs bex_Un, OF or]
    ultimately show ?thesis using a' by blast
  qed
  then show ?thesis using i b(2) d by (auto simp: justified_def replaceChild_def)
qed

section \<open>Every diagnostic is justified\<close>

lemma walkTree_closed: "n \<in> set (walkTree t) \<Longrightarrow> c \<in> set (children n) \<Longrightarrow> c \<in> set (walkTree t)"
proof (induction t)
  case (Tree h cs)
  have self: "x \<in> set (walkTree x)" for x by (cases x) simp
  show ?case using Tree self [of c] by auto
qed

lemma walkNodes_closed: "n \<in> set (walkNodes nodes) \<Longrightarrow> set (children n) \<subseteq> set (walkNodes nodes)"
  using walkTree_closed by (fastforce simp: walkNodes_def)

lemma clean_walk: "clean t \<Longrightarrow> n \<in> set (walkTree t) \<Longrightarrow> clean n"
  by (induction t) auto

lemma tellsApart_walk:
  assumes "\<forall>t \<in> set nodes. clean t" and "inj_on digest (canonicalNode ` set (walkNodes nodes))"
  shows "tellsApart digest (set (walkNodes nodes))"
proof -
  have "clean n" if "n \<in> set (walkNodes nodes)" for n
    using that assms(1) clean_walk by (auto simp: walkNodes_def)
  then show ?thesis
    using assms(2) canonicalNode_inj [of _ _ "[]" "[]"]
    by (auto simp: tellsApart_def conditionIdentity_def inj_on_def)
qed

lemma block_justified:
  assumes "tellsApart digest (set (walkNodes nodes))" and "\<And>xs. set (order xs) \<subseteq> set xs"
    and "n \<in> set (walkNodes nodes)" and "d \<in> set (checkBlock digest order n)"
  shows "justified d n"
proof -
  note inside = walkNodes_closed [OF assms(3)]
  then have grand: "\<And>c. c \<in> set (children n) \<Longrightarrow> set (children c) \<subseteq> set (walkNodes nodes)"
    using walkNodes_closed by blast
  have key: "connectiveKey n \<noteq> []" using assms(4) by (auto simp: checkBlock_def)
  then consider "d \<in> set (checkNestedSameConnective n (connectiveKey n))"
    | "d \<in> set (checkDuplicateConditions digest n (connectiveKey n))"
    | "d \<in> set (checkContradiction digest order n (connectiveKey n))"
    | "d \<in> set (checkDoubleNegation n (connectiveKey n))"
    | "d \<in> set (checkCommonBranchCondition digest order n (connectiveKey n))"
    | "d \<in> set (checkAbsorbedBranch digest n (connectiveKey n))"
    using assms(4) by (auto simp: checkBlock_def Let_def)
  then show ?thesis
    by cases
      (blast intro: nested_justified duplicates_justified [OF assms(1) inside _ key] doubleNegation_justified
        contradiction_justified [OF assms(1) inside grand assms(2)] common_justified [OF assms(1) grand assms(2)]
        absorbed_justified [OF assms(1) inside grand])+
qed

text \<open>Conversely, no block that directly holds a condition and its negation goes unreported.\<close>

lemma sign_keys:
  "k \<in> fst ` set (fst acc) \<Longrightarrow> k \<in> fst ` set (fst (fold (sortSign digest) xs acc))"
  "k \<in> fst ` set (snd acc) \<Longrightarrow> k \<in> fst ` set (snd (fold (sortSign digest) xs acc))"
proof (induction xs arbitrary: acc)
  case (Cons x xs)
  {
    case 1 then show ?case
      using Cons.IH(1) [of "sortSign digest x acc"] by (cases acc) (auto simp: sortSign_def dom_update split: option.splits)
  next
    case 2 then show ?case
      using Cons.IH(2) [of "sortSign digest x acc"] by (cases acc) (auto simp: sortSign_def dom_update split: option.splits)
  }
qed simp_all

lemma sign_present:
  assumes "c \<in> set xs"
  shows "negationTarget c = None \<Longrightarrow> conditionIdentity digest c \<in> fst ` set (fst (fold (sortSign digest) xs acc))"
    and "negationTarget c = Some t \<Longrightarrow> conditionIdentity digest t \<in> fst ` set (snd (fold (sortSign digest) xs acc))"
proof -
  obtain ys zs where xs: "xs = ys @ c # zs" using assms by (meson split_list)
  let ?mid = "fold (sortSign digest) ys acc"
  show "negationTarget c = None \<Longrightarrow> conditionIdentity digest c \<in> fst ` set (fst (fold (sortSign digest) xs acc))"
    unfolding xs fold_append fold_simps comp_apply
    by (rule sign_keys) (cases ?mid, auto simp: sortSign_def dom_update)
  show "negationTarget c = Some t \<Longrightarrow> conditionIdentity digest t \<in> fst ` set (snd (fold (sortSign digest) xs acc))"
    unfolding xs fold_append fold_simps comp_apply
    by (rule sign_keys) (cases ?mid, auto simp: sortSign_def dom_update)
qed

lemma contradiction_reported:
  assumes "connectiveKey n = ''and'' \<or> connectiveKey n = ''or''" and "a \<in> set (children n)" "negationTarget a = None"
    and "b \<in> set (children n)" "negationTarget b = Some t" "sameText a t" and "\<And>xs. set xs \<subseteq> set (order xs)"
  shows "\<exists>d \<in> set (checkContradiction digest order n (connectiveKey n)). \<exists>name.
    DgMsg d = (if connectiveKey n = ''and'' then RequiresBoth name else AcceptsBoth name)"
proof -
  obtain positives negatives where signs: "fold (sortSign digest) (children n) ([], []) = (positives, negatives)"
    by fastforce
  let ?k = "conditionIdentity digest a"
  have same: "conditionIdentity digest t = ?k" using sameText_canonical [OF assms(6)] by (simp add: conditionIdentity_def)
  have "?k \<in> fst ` set positives" using sign_present(1) [OF assms(2,3), of digest "([], [])"] signs by simp
  then obtain p where p: "(?k, p) \<in> set (order positives)" using assms(7) by force
  have "?k \<in> fst ` set negatives" using sign_present(2) [OF assms(4,5), of digest "([], [])"] signs same by simp
  then obtain q where "map_of negatives ?k = Some q" by (metis map_of_eq_None_iff not_None_eq)
  then have "\<exists>d. contradicts (connectiveKey n) negatives (?k, p) = [d]
      \<and> (\<exists>name. DgMsg d = (if connectiveKey n = ''and'' then RequiresBoth name else AcceptsBoth name))"
    using assms(1) by (auto simp: contradicts_def Let_def)
  then obtain d where d: "contradicts (connectiveKey n) negatives (?k, p) = [d]"
      "\<exists>name. DgMsg d = (if connectiveKey n = ''and'' then RequiresBoth name else AcceptsBoth name)" by blast
  have "d \<in> set (checkContradiction digest order n (connectiveKey n))"
    using assms(1) p d(1) by (force simp: checkContradiction_def signs)
  then show ?thesis using d(2) by blast
qed

text \<open>
  C12. The lint rules for boolean blocks are sound, and complete for contradictions. When the files hold no NUL
  bytes and the digest tells the conditions at hand apart, every diagnostic is justified by a block of the
  files, whatever order Go ranges over its maps in: moving the members of a nested block up, dropping a
  repeated condition or an absorbed branch, replacing a double negation and lifting a common condition out of
  an OR never change the truth of the block, and a block reported as always false or always true is. Conversely an
  AND or OR that directly holds a condition and its negation is reported as such, in some block of the files.
\<close>

theorem trigger_rules_sound:
  assumes "\<forall>t \<in> set nodes. clean t" and "inj_on digest (canonicalNode ` set (walkNodes nodes))"
    and "\<And>xs. set (order xs) = set xs"
  shows "(\<forall>d \<in> set (checkTriggerAlgebra digest order nodes). \<exists>n \<in> set (walkNodes nodes). justified d n)
    \<and> (\<forall>n \<in> set (walkNodes nodes). \<forall>a \<in> set (children n). \<forall>b \<in> set (children n). \<forall>t.
        (connectiveKey n = ''and'' \<or> connectiveKey n = ''or'')
          \<and> negationTarget a = None \<and> negationTarget b = Some t \<and> sameText a t \<longrightarrow>
        (\<exists>d \<in> set (checkTriggerAlgebra digest order nodes). justified d n
          \<and> (\<exists>name. DgMsg d = (if connectiveKey n = ''and'' then RequiresBoth name else AcceptsBoth name))))"
proof -
  note apart = tellsApart_walk [OF assms(1,2)]
  have sound: "n \<in> set (walkNodes nodes) \<Longrightarrow> d \<in> set (checkBlock digest order n) \<Longrightarrow> justified d n" for n d
    using block_justified [OF apart] assms(3) by blast
  have all: "set (checkTriggerAlgebra digest order nodes) = (\<Union>n \<in> set (walkNodes nodes). set (checkBlock digest order n))"
    by (simp add: checkTriggerAlgebra_def)
  have "\<exists>d \<in> set (checkBlock digest order n). \<exists>name.
      DgMsg d = (if connectiveKey n = ''and'' then RequiresBoth name else AcceptsBoth name)"
    if "connectiveKey n = ''and'' \<or> connectiveKey n = ''or''" "a \<in> set (children n)" "b \<in> set (children n)"
      "negationTarget a = None" "negationTarget b = Some t" "sameText a t" for n a b t
  proof -
    note here = that
    obtain d name where d: "d \<in> set (checkContradiction digest order n (connectiveKey n))"
        "DgMsg d = (if connectiveKey n = ''and'' then RequiresBoth name else AcceptsBoth name)"
      using contradiction_reported [OF here(1,2,4,3,5,6)] assms(3) by blast
    have "d \<in> set (checkBlock digest order n)" using d(1) here(1) by (auto simp: checkBlock_def Let_def)
    then show ?thesis using d(2) by blast
  qed
  note found = this
  show ?thesis
  proof (intro conjI ballI allI impI)
    fix d assume "d \<in> set (checkTriggerAlgebra digest order nodes)"
    then show "\<exists>n \<in> set (walkNodes nodes). justified d n" using sound unfolding all by blast
  next
    fix n a b t assume n: "n \<in> set (walkNodes nodes)" and ab: "a \<in> set (children n)" "b \<in> set (children n)"
      and pair: "(connectiveKey n = ''and'' \<or> connectiveKey n = ''or'')
        \<and> negationTarget a = None \<and> negationTarget b = Some t \<and> sameText a t"
    from pair have parts: "connectiveKey n = ''and'' \<or> connectiveKey n = ''or''" "negationTarget a = None"
        "negationTarget b = Some t" "sameText a t" by simp_all
    from found [OF parts(1) ab parts(2-4)] obtain d where "d \<in> set (checkBlock digest order n)"
      and "\<exists>name. DgMsg d = (if connectiveKey n = ''and'' then RequiresBoth name else AcceptsBoth name)" by (rule bexE)
    then show "\<exists>d \<in> set (checkTriggerAlgebra digest order nodes). justified d n
        \<and> (\<exists>name. DgMsg d = (if connectiveKey n = ''and'' then RequiresBoth name else AcceptsBoth name))"
      using sound [OF n] n unfolding all by blast
  qed
qed

text \<open>\<^verbatim>\<open>AND = { a = yes NOT = { a = yes } OR = { b = yes a = yes } }\<close>.\<close>

definition sampleCondition :: "bytes \<Rightarrow> int \<Rightarrow> scriptTree" where
  "sampleCondition key line = Tree (blankNode\<lparr>NdKind := ''assignment'', NdKey := key, NdOperator := ''='',
     NdValue := ''yes'', NdLine := line\<rparr>) []"

definition sampleBlock :: "bytes \<Rightarrow> int \<Rightarrow> scriptTree list \<Rightarrow> scriptTree" where
  "sampleBlock key line cs = Tree (blankNode\<lparr>NdKind := ''block'', NdKey := key, NdOperator := ''='', NdLine := line\<rparr>) cs"

definition sampleTrigger :: scriptTree where
  "sampleTrigger = sampleBlock ''AND'' 1 [sampleCondition ''a'' 2, sampleBlock ''NOT'' 3 [sampleCondition ''a'' 3],
     sampleBlock ''OR'' 4 [sampleCondition ''b'' 4, sampleCondition ''a'' 4]]"

theorem trigger_rules_sound_witness:
  "map DgCode (checkTriggerAlgebra (\<lambda>s. s) (\<lambda>xs. xs) [sampleTrigger]) = [''trigger_always_false'', ''trigger_absorbed_branch'']
    \<and> (\<exists>n. n \<in> set (walkNodes [sampleTrigger]) \<and> justified (hd (checkTriggerAlgebra (\<lambda>s. s) (\<lambda>xs. xs) [sampleTrigger])) n)"
proof
  show codes: "map DgCode (checkTriggerAlgebra (\<lambda>s. s) (\<lambda>xs. xs) [sampleTrigger])
      = [''trigger_always_false'', ''trigger_absorbed_branch'']"
    by code_simp
  have "\<forall>t \<in> set [sampleTrigger]. clean t"
    by (simp add: sampleTrigger_def sampleBlock_def sampleCondition_def cleanHead_def blankNode_def)
  from trigger_rules_sound [OF this, of "\<lambda>s. s" "\<lambda>xs. xs"] codes
  show "\<exists>n. n \<in> set (walkNodes [sampleTrigger])
      \<and> justified (hd (checkTriggerAlgebra (\<lambda>s. s) (\<lambda>xs. xs) [sampleTrigger])) n"
    by (cases "checkTriggerAlgebra (\<lambda>s. s) (\<lambda>xs. xs) [sampleTrigger]") auto
qed

end
