(* ===== verification/FloatArith.thy ===== *)
theory FloatArith
  imports Float64
begin

text \<open>
  Addition, subtraction, multiplication and comparison of \<^verbatim>\<open>float64\<close> values, without fused operations: the
  exact rational result rounded to nearest, ties to even, with infinities, NaNs and signed zeros as IEEE 754
  has them. A NaN result is the quiet NaN; the modelled code never looks at its payload.
\<close>

definition f64NaN :: float64 where
  "f64NaN = word_of_nat (f64Infinity + 2 ^ 51)"

definition f64IsNaN :: "float64 \<Rightarrow> bool" where
  "f64IsNaN w \<longleftrightarrow> f64MagOf w > f64Infinity"

definition f64Inf :: "bool \<Rightarrow> float64" where
  "f64Inf neg = word_of_nat ((if neg then 2 ^ 63 else 0) + f64Infinity)"

text \<open>The exact value of a finite float as a signed numerator and a denominator.\<close>

definition f64Exact :: "float64 \<Rightarrow> int \<times> nat" where
  "f64Exact w = (let (n, d) = f64Ratio (f64MagOf w) in (if f64Negative w then - int n else int n, d))"

definition f64Neg :: "float64 \<Rightarrow> float64" where
  "f64Neg w = word_of_nat ((if f64Negative w then 0 else 2 ^ 63) + f64MagOf w)"

definition f64Add :: "float64 \<Rightarrow> float64 \<Rightarrow> float64" where
  "f64Add x y =
     (if f64IsNaN x \<or> f64IsNaN y then f64NaN
      else if \<not> f64Finite x then (if \<not> f64Finite y \<and> f64Negative x \<noteq> f64Negative y then f64NaN else x)
      else if \<not> f64Finite y then y
      else if f64MagOf x = 0 then (if f64MagOf y = 0 then (if f64Negative x \<and> f64Negative y then x else 0) else y)
      else if f64MagOf y = 0 then x
      else
        let (a, b) = f64Exact x; (c, d) = f64Exact y; n = a * int d + c * int b in
        if n = 0 then 0 else f64OfRat (n < 0) (nat \<bar>n\<bar>) (b * d))"

definition f64Sub :: "float64 \<Rightarrow> float64 \<Rightarrow> float64" where
  "f64Sub x y = f64Add x (f64Neg y)"

definition f64Mul :: "float64 \<Rightarrow> float64 \<Rightarrow> float64" where
  "f64Mul x y =
     (let neg = (f64Negative x \<noteq> f64Negative y) in
      if f64IsNaN x \<or> f64IsNaN y then f64NaN
      else if \<not> f64Finite x \<or> \<not> f64Finite y then
        (if f64MagOf x = 0 \<or> f64MagOf y = 0 then f64NaN else f64Inf neg)
      else
        let (a, b) = f64Ratio (f64MagOf x); (c, d) = f64Ratio (f64MagOf y) in f64OfRat neg (a * c) (b * d))"

definition f64Abs :: "float64 \<Rightarrow> float64" where
  "f64Abs w = word_of_nat (f64MagOf w)"

text \<open>\<^verbatim>\<open><\<close> and \<^verbatim>\<open><=\<close>: false when an operand is a NaN; the zeros are equal.\<close>

definition f64Rank :: "float64 \<Rightarrow> int" where
  "f64Rank w = (if f64Negative w then - int (f64MagOf w) else int (f64MagOf w))"

definition f64Less :: "float64 \<Rightarrow> float64 \<Rightarrow> bool" where
  "f64Less x y \<longleftrightarrow> \<not> f64IsNaN x \<and> \<not> f64IsNaN y \<and> f64Rank x < f64Rank y"

definition f64LessEq :: "float64 \<Rightarrow> float64 \<Rightarrow> bool" where
  "f64LessEq x y \<longleftrightarrow> \<not> f64IsNaN x \<and> \<not> f64IsNaN y \<and> f64Rank x \<le> f64Rank y"

text \<open>A decimal constant of the source.\<close>

definition f64Const :: "nat \<Rightarrow> nat \<Rightarrow> float64" where
  "f64Const n d = f64OfRat False n d"

end
