(* ===== verification/MapRoute.thy ===== *)
theory MapRoute
  imports FloatArith AssocLists
begin

text \<open>
  \<^verbatim>\<open>internal/indexer/map_route.go\<close>: routes between provinces of the game's map. A Go map from province ids is an
  association list with distinct keys, and a lookup that finds nothing gives the zero value. A graph is mutated
  only in its count of rejected boundaries, which the search returns with its result. Distances are
  \<^verbatim>\<open>float64\<close> values. The rows of the SQL queries are arguments of the definition that builds the graph;
  resolving subjects, the corridor around a route and the rendering of the answer are not modelled.
\<close>

section \<open>The graph\<close>

record MapPoint =
  PtX :: float64
  PtY :: float64

record mapRouteNode =
  RnID :: int
  RnCenter :: MapPoint
  RnBlocked :: bool
  RnBlockKind :: bytes
  RnWaterKind :: bytes
  RnCounty :: bytes
  RnDuchy :: bytes
  RnArea :: int

definition zeroNode :: mapRouteNode where
  "zeroNode = \<lparr>RnID = 0, RnCenter = \<lparr>PtX = 0, PtY = 0\<rparr>, RnBlocked = False, RnBlockKind = [], RnWaterKind = [],
     RnCounty = [], RnDuchy = [], RnArea = 0\<rparr>"

record mapRouteEdge =
  ReTo :: int
  ReDistance :: float64
  ReKind :: bytes
  ReBlocked :: bool
  ReStrategic :: bool

definition zeroEdge :: mapRouteEdge where
  "zeroEdge = \<lparr>ReTo = 0, ReDistance = 0, ReKind = [], ReBlocked = False, ReStrategic = False\<rparr>"

record mapRouteGraph =
  GrNodes :: "(int \<times> mapRouteNode) list"
  GrEdges :: "(int \<times> mapRouteEdge list) list"

definition nodeOf :: "mapRouteGraph \<Rightarrow> int \<Rightarrow> mapRouteNode" where
  "nodeOf g p = (case map_of (GrNodes g) p of None \<Rightarrow> zeroNode | Some n \<Rightarrow> n)"

definition edgesOf :: "mapRouteGraph \<Rightarrow> int \<Rightarrow> mapRouteEdge list" where
  "edgesOf g p = (case map_of (GrEdges g) p of None \<Rightarrow> [] | Some es \<Rightarrow> es)"

definition isMapRouteSea :: "mapRouteNode \<Rightarrow> bool" where
  "isMapRouteSea node =
     (let water = lowerText (RnWaterKind node) in
      (water = ''sea'' \<or> water = ''coastal_sea'') \<and> \<not> containsText (lowerText (RnBlockKind node)) ''impassable'')"

definition isMapRouteWater :: "mapRouteNode \<Rightarrow> bool" where
  "isMapRouteWater node \<longleftrightarrow> trimSpace (RnWaterKind node) \<noteq> []"

definition isMapRouteLand :: "mapRouteNode \<Rightarrow> bool" where
  "isMapRouteLand node \<longleftrightarrow> \<not> RnBlocked node \<and> \<not> isMapRouteWater node"

definition classifyMapRouteBoundary :: "mapRouteNode \<Rightarrow> mapRouteNode \<Rightarrow> bool \<Rightarrow> bytes" where
  "classifyMapRouteBoundary from_node to_node blocked =
     (if isMapRouteWater from_node \<or> isMapRouteWater to_node then ''water_boundary''
      else if blocked then
        (if containsText (RnBlockKind from_node) ''mountain'' \<or> containsText (RnBlockKind to_node) ''mountain''
         then ''impassable_mountain_boundary'' else ''blocked_boundary'')
      else ''land_boundary'')"

definition nodeAllowed :: "mapRouteGraph \<Rightarrow> int \<Rightarrow> bytes \<Rightarrow> bool" where
  "nodeAllowed g p mode =
     (case map_of (GrNodes g) p of
        None \<Rightarrow> False
      | Some node \<Rightarrow>
          if mode = ''sea'' then isMapRouteSea node
          else if mode = ''land'' then isMapRouteLand node
          else if mode = ''mixed'' then isMapRouteLand node \<or> isMapRouteSea node
          else False)"

definition strategicCrossings :: "bytes list" where
  "strategicCrossings =
     [''strait'', ''river_crossing'', ''mountain_pass'', ''land_passage'', ''underground_internal'', ''explicit_passage'']"

definition edgeAllowed :: "mapRouteGraph \<Rightarrow> int \<Rightarrow> mapRouteEdge \<Rightarrow> bytes \<Rightarrow> bool \<times> bytes" where
  "edgeAllowed g p edge mode =
     (let kind = ReKind edge; seas = isMapRouteSea (nodeOf g p) \<and> isMapRouteSea (nodeOf g (ReTo edge)) in
      if \<not> nodeAllowed g p mode \<or> \<not> nodeAllowed g (ReTo edge) mode then
        (False, if kind \<noteq> [] then kind else ''invalid_endpoint_type'')
      else if ReBlocked edge \<and> kind \<noteq> ''water_boundary'' then (False, kind)
      else if ReStrategic edge then
        (if kind = ''offmap_gateway'' \<or> kind = ''underground_gateway'' then (False, kind)
         else if kind = ''sea_route'' then (mode \<noteq> ''land'' \<and> seas, kind)
         else if kind \<in> set strategicCrossings then (mode \<noteq> ''sea'', kind)
         else (False, kind))
      else if mode = ''sea'' then (kind = ''water_boundary'' \<and> seas, kind)
      else if mode = ''land'' then (kind = ''land_boundary'', kind)
      else if mode = ''mixed'' then (kind = ''land_boundary'' \<or> kind = ''water_boundary'', kind)
      else (False, kind))"

definition hasLandNeighbor :: "mapRouteGraph \<Rightarrow> int \<Rightarrow> bool" where
  "hasLandNeighbor g p = list_ex (\<lambda>edge. \<not> ReStrategic edge \<and> isMapRouteLand (nodeOf g (ReTo edge))) (edgesOf g p)"

text \<open>\<^verbatim>\<open>sortedMapRouteIDs\<close> of a set of ids.\<close>

definition sortedMapRouteIDs :: "int list \<Rightarrow> int list" where
  "sortedMapRouteIDs ids = sort (remdups ids)"

definition routeSubjectNodes :: "mapRouteGraph \<Rightarrow> int \<Rightarrow> bytes \<Rightarrow> int list" where
  "routeSubjectNodes g province mode =
     (let node = nodeOf g province in
      if mode = ''sea'' then
        (if isMapRouteSea node then [province]
         else sortedMapRouteIDs (map ReTo
           (filter (\<lambda>edge. isMapRouteSea (nodeOf g (ReTo edge)) \<and> ReKind edge = ''water_boundary'') (edgesOf g province))))
      else if mode = ''land'' then (if isMapRouteLand node then [province] else [])
      else if mode = ''mixed'' then (if isMapRouteLand node \<or> isMapRouteSea node then [province] else [])
      else [])"

section \<open>The queue\<close>

record mapRouteQueueItem =
  QiID :: int
  QiCost :: float64
  QiDistance :: float64
  QiOrder :: int

definition costTolerance :: float64 where
  "costTolerance = f64Const 1 1000000000"

definition queueLess :: "mapRouteQueueItem \<Rightarrow> mapRouteQueueItem \<Rightarrow> bool" where
  "queueLess a b =
     (if f64Less costTolerance (f64Abs (f64Sub (QiCost a) (QiCost b))) then f64Less (QiCost a) (QiCost b)
      else if QiID a \<noteq> QiID b then QiID a < QiID b
      else QiOrder a < QiOrder b)"

definition swapAt :: "nat \<Rightarrow> nat \<Rightarrow> 'a list \<Rightarrow> 'a list" where
  "swapAt i j xs = (xs[i := xs ! j])[j := xs ! i]"

fun siftUp :: "nat \<Rightarrow> mapRouteQueueItem list \<Rightarrow> mapRouteQueueItem list" where
  "siftUp index q =
     (if index = 0 then q
      else let parent = (index - 1) div 2 in
        if queueLess (q ! index) (q ! parent) then siftUp parent (swapAt index parent q) else q)"

definition pushMapRouteQueue :: "mapRouteQueueItem \<Rightarrow> mapRouteQueueItem list \<Rightarrow> mapRouteQueueItem list" where
  "pushMapRouteQueue item q = siftUp (length q) (q @ [item])"

function siftDown :: "nat \<Rightarrow> mapRouteQueueItem list \<Rightarrow> mapRouteQueueItem list" where
  "siftDown index q =
     (let left = index * 2 + 1 in
      if left \<ge> length q then q
      else
        let right = left + 1;
            smallest = (if right < length q \<and> queueLess (q ! right) (q ! left) then right else left)
        in if queueLess (q ! smallest) (q ! index) then siftDown smallest (swapAt index smallest q) else q)"
  by pat_completeness auto
termination
  by (relation "measure (\<lambda>(index, q). length q - index)") (auto simp: swapAt_def split: if_splits)

text \<open>\<^verbatim>\<open>popMapRouteQueue\<close> on a queue that is not empty.\<close>

definition popMapRouteQueue :: "mapRouteQueueItem list \<Rightarrow> mapRouteQueueItem \<times> mapRouteQueueItem list" where
  "popMapRouteQueue q =
     (let root = hd q; rest = butlast q in (root, if rest = [] then [] else siftDown 0 (rest[0 := last q])))"

declare siftUp.simps [simp del] siftDown.simps [simp del]

section \<open>The search\<close>

record routeSearch =
  SeCost :: "int \<rightharpoonup> float64"
  SeDistance :: "int \<rightharpoonup> float64"
  SePrevious :: "int \<rightharpoonup> int"
  SePreviousEdge :: "int \<rightharpoonup> mapRouteEdge"
  SeQueue :: "mapRouteQueueItem list"
  SeOrder :: int
  SeRejected :: "(bytes \<times> int) list"

definition orZero :: "float64 option \<Rightarrow> float64" where
  "orZero x = (case x of None \<Rightarrow> 0 | Some f \<Rightarrow> f)"

definition startSearch :: "mapRouteGraph \<Rightarrow> bytes \<Rightarrow> (bytes \<times> int) list \<Rightarrow> int list \<Rightarrow> routeSearch" where
  "startSearch g mode rejected starts =
     fold (\<lambda>p s. if \<not> nodeAllowed g p mode then s
          else s\<lparr>SeCost := (SeCost s)(p \<mapsto> 0), SeDistance := (SeDistance s)(p \<mapsto> 0),
            SeQueue := pushMapRouteQueue \<lparr>QiID = p, QiCost = 0, QiDistance = 0, QiOrder = SeOrder s\<rparr> (SeQueue s),
            SeOrder := SeOrder s + 1\<rparr>)
       starts
       \<lparr>SeCost = Map.empty, SeDistance = Map.empty, SePrevious = Map.empty, SePreviousEdge = Map.empty, SeQueue = [],
        SeOrder = 0, SeRejected = rejected\<rparr>"

text \<open>The weight of a step, in pixels: embarking costs 250, and a scenic search prefers coasts and islands.\<close>

definition stepWeight :: "mapRouteGraph \<Rightarrow> bytes \<Rightarrow> bool \<Rightarrow> int \<Rightarrow> mapRouteEdge \<Rightarrow> float64" where
  "stepWeight g mode scenic p edge =
     (let sea = isMapRouteSea (nodeOf g (ReTo edge));
          step = (if mode = ''mixed'' \<and> isMapRouteSea (nodeOf g p) \<noteq> sea
                  then f64Add (ReDistance edge) (f64Const 250 1) else ReDistance edge)
      in if scenic \<and> sea then
           (if lowerText (RnWaterKind (nodeOf g (ReTo edge))) = ''coastal_sea'' then f64Mul step (f64Const 88 100)
            else if hasLandNeighbor g (ReTo edge) then f64Mul step (f64Const 93 100) else step)
         else step)"

definition countRejected :: "bytes \<Rightarrow> (bytes \<times> int) list \<Rightarrow> (bytes \<times> int) list" where
  "countRejected kind m = AList.update kind ((case map_of m kind of None \<Rightarrow> 0 | Some n \<Rightarrow> n) + 1) m"

definition improves :: "int \<Rightarrow> float64 \<Rightarrow> mapRouteEdge \<Rightarrow> routeSearch \<Rightarrow> bool" where
  "improves p candidate edge s =
     (case SeCost s (ReTo edge) of
        None \<Rightarrow> True
      | Some known \<Rightarrow>
          f64Less candidate (f64Sub known costTolerance)
          \<or> f64LessEq (f64Abs (f64Sub candidate known)) costTolerance
            \<and> p < (case SePrevious s (ReTo edge) of None \<Rightarrow> 0 | Some q \<Rightarrow> q))"

definition relaxEdge :: "mapRouteGraph \<Rightarrow> bytes \<Rightarrow> bool \<Rightarrow> int \<Rightarrow> mapRouteEdge \<Rightarrow> routeSearch \<Rightarrow> routeSearch" where
  "relaxEdge g mode scenic p edge s =
     (case edgeAllowed g p edge mode of
        (False, kind) \<Rightarrow> if kind \<noteq> [] then s\<lparr>SeRejected := countRejected kind (SeRejected s)\<rparr> else s
      | (True, _) \<Rightarrow>
          let candidate = f64Add (orZero (SeCost s p)) (stepWeight g mode scenic p edge) in
          if improves p candidate edge s then
            let far = f64Add (orZero (SeDistance s p)) (ReDistance edge) in
            s\<lparr>SeCost := (SeCost s)(ReTo edge \<mapsto> candidate), SeDistance := (SeDistance s)(ReTo edge \<mapsto> far),
              SePrevious := (SePrevious s)(ReTo edge \<mapsto> p), SePreviousEdge := (SePreviousEdge s)(ReTo edge \<mapsto> edge),
              SeQueue := pushMapRouteQueue
                \<lparr>QiID = ReTo edge, QiCost = candidate, QiDistance = far, QiOrder = SeOrder s\<rparr> (SeQueue s),
              SeOrder := SeOrder s + 1\<rparr>
          else s)"

datatype searchEnd = ExceededNodes | Exhausted | ReachedGoal int

definition staleItem :: "mapRouteQueueItem \<Rightarrow> routeSearch \<Rightarrow> bool" where
  "staleItem item s =
     (case SeCost s (QiID item) of
        None \<Rightarrow> True
      | Some known \<Rightarrow> f64Less (f64Add known costTolerance) (QiCost item))"

partial_function (option) searchLoop ::
  "mapRouteGraph \<Rightarrow> bytes \<Rightarrow> bool \<Rightarrow> int list \<Rightarrow> int \<Rightarrow> int \<Rightarrow> routeSearch \<Rightarrow> (searchEnd \<times> int \<times> routeSearch) option" where
  "searchLoop g mode scenic ends maxNodes expanded s =
     (if SeQueue s = [] then Some (Exhausted, expanded, s)
      else
        let (item, rest) = popMapRouteQueue (SeQueue s); s1 = s\<lparr>SeQueue := rest\<rparr> in
        if staleItem item s1 then searchLoop g mode scenic ends maxNodes expanded s1
        else if expanded + 1 > maxNodes then Some (ExceededNodes, expanded + 1, s1)
        else if QiID item \<in> set ends then Some (ReachedGoal (QiID item), expanded + 1, s1)
        else searchLoop g mode scenic ends maxNodes (expanded + 1)
               (fold (relaxEdge g mode scenic (QiID item)) (edgesOf g (QiID item)) s1))"

text \<open>The loop that follows the links from the goal back to a start.\<close>

partial_function (option) tracePath :: "(int \<rightharpoonup> int) \<Rightarrow> int list \<Rightarrow> int list option" where
  "tracePath previous path =
     (case previous (last path) of
        None \<Rightarrow> Some path
      | Some p \<Rightarrow> tracePath previous (path @ [p]))"

datatype routeError = NoAccessProvince bytes | NodeLimit | NoLegalRoute bytes

record foundRoute =
  FrPath :: "int list"
  FrKinds :: "bytes list"
  FrDistances :: "float64 list"

record 'a routeAnswer =
  RaResult :: "routeError + 'a"
  RaExpanded :: int
  RaRejected :: "(bytes \<times> int) list"

definition edgeInto :: "routeSearch \<Rightarrow> int \<Rightarrow> mapRouteEdge" where
  "edgeInto s p = (case SePreviousEdge s p of None \<Rightarrow> zeroEdge | Some edge \<Rightarrow> edge)"

definition dijkstra ::
  "mapRouteGraph \<Rightarrow> (bytes \<times> int) list \<Rightarrow> int list \<Rightarrow> int list \<Rightarrow> bytes \<Rightarrow> bool \<Rightarrow> int \<Rightarrow> foundRoute routeAnswer option" where
  "dijkstra g rejected starts ends mode scenic maxNodes =
     (if maxNodes \<le> 0 then Some \<lparr>RaResult = Inl NodeLimit, RaExpanded = 0, RaRejected = rejected\<rparr>
      else case searchLoop g mode scenic ends maxNodes 0 (startSearch g mode rejected starts) of
        None \<Rightarrow> None
      | Some (ExceededNodes, expanded, s) \<Rightarrow>
          Some \<lparr>RaResult = Inl NodeLimit, RaExpanded = expanded, RaRejected = SeRejected s\<rparr>
      | Some (Exhausted, expanded, s) \<Rightarrow>
          Some \<lparr>RaResult = Inl (NoLegalRoute mode), RaExpanded = expanded, RaRejected = SeRejected s\<rparr>
      | Some (ReachedGoal goal, expanded, s) \<Rightarrow>
          if goal = 0 then Some \<lparr>RaResult = Inl (NoLegalRoute mode), RaExpanded = expanded, RaRejected = SeRejected s\<rparr>
          else
            (case tracePath (SePrevious s) [goal] of
               None \<Rightarrow> None
             | Some backwards \<Rightarrow>
                 let path = rev backwards; into = map (edgeInto s) (tl path) in
                 Some \<lparr>RaResult = Inr \<lparr>FrPath = path, FrKinds = map ReKind into, FrDistances = map ReDistance into\<rparr>,
                   RaExpanded = expanded, RaRejected = SeRejected s\<rparr>))"

section \<open>Routes through way points\<close>

definition sumFloat64 :: "float64 list \<Rightarrow> float64" where
  "sumFloat64 xs = fold (\<lambda>x total. f64Add total x) xs 0"

definition shortestRoute ::
  "mapRouteGraph \<Rightarrow> (bytes \<times> int) list \<Rightarrow> int list \<Rightarrow> int list \<Rightarrow> bytes \<Rightarrow> bytes \<Rightarrow> int \<Rightarrow> foundRoute routeAnswer option" where
  "shortestRoute g rejected starts ends mode objective maxNodes =
     (if starts = [] \<or> ends = [] then
        Some \<lparr>RaResult = Inl (NoAccessProvince mode), RaExpanded = 0, RaRejected = rejected\<rparr>
      else case dijkstra g rejected starts ends mode False maxNodes of
        None \<Rightarrow> None
      | Some answer \<Rightarrow>
          (case RaResult answer of
             Inl _ \<Rightarrow> Some answer
           | Inr shortest \<Rightarrow>
               if objective \<noteq> ''scenic'' \<or> mode = ''land'' then Some answer
               else if maxNodes - RaExpanded answer \<le> 0 then Some answer
               else case dijkstra g (RaRejected answer) starts ends mode True (maxNodes - RaExpanded answer) of
                 None \<Rightarrow> None
               | Some second \<Rightarrow>
                   let total = second\<lparr>RaExpanded := RaExpanded answer + RaExpanded second\<rparr> in
                   (case RaResult second of
                      Inl _ \<Rightarrow> Some (total\<lparr>RaResult := Inr shortest\<rparr>)
                    | Inr scenic \<Rightarrow>
                        if f64LessEq (sumFloat64 (FrDistances scenic))
                             (f64Add (f64Mul (sumFloat64 (FrDistances shortest)) (f64Const 125 100)) (f64Const 1 1000000))
                        then Some total else Some (total\<lparr>RaResult := Inr shortest\<rparr>))))"

text \<open>The loop over the legs between consecutive subjects; \<open>so_far\<close> is the route of the legs before.\<close>

fun legLoop ::
  "mapRouteGraph \<Rightarrow> bytes \<Rightarrow> bytes \<Rightarrow> int \<Rightarrow> (bytes \<times> int) list \<Rightarrow> foundRoute \<Rightarrow> int \<Rightarrow> int list \<Rightarrow> foundRoute routeAnswer option" where
  "legLoop g mode objective maxNodes rejected so_far expandedTotal (subject # target # more_subjects) =
     (let starts = (if FrPath so_far \<noteq> [] then [last (FrPath so_far)] else routeSubjectNodes g subject mode);
          ends = routeSubjectNodes g target mode
      in case shortestRoute g rejected starts ends mode objective (maxNodes - expandedTotal) of
        None \<Rightarrow> None
      | Some answer \<Rightarrow>
          (case RaResult answer of
             Inl e \<Rightarrow> Some (answer\<lparr>RaExpanded := expandedTotal + RaExpanded answer\<rparr>)
           | Inr leg \<Rightarrow>
               let path = (if FrPath so_far \<noteq> [] \<and> FrPath leg \<noteq> [] \<and> last (FrPath so_far) = hd (FrPath leg)
                           then tl (FrPath leg) else FrPath leg)
               in legLoop g mode objective maxNodes (RaRejected answer)
                    \<lparr>FrPath = FrPath so_far @ path, FrKinds = FrKinds so_far @ FrKinds leg,
                     FrDistances = FrDistances so_far @ FrDistances leg\<rparr>
                    (expandedTotal + RaExpanded answer) (target # more_subjects)))"
| "legLoop g mode objective maxNodes rejected so_far expandedTotal _ =
     Some \<lparr>RaResult = Inr so_far, RaExpanded = expandedTotal, RaRejected = rejected\<rparr>"

definition routeThroughSubjects ::
  "mapRouteGraph \<Rightarrow> (bytes \<times> int) list \<Rightarrow> int \<Rightarrow> int \<Rightarrow> int list \<Rightarrow> bytes \<Rightarrow> bytes \<Rightarrow> int \<Rightarrow> foundRoute routeAnswer option" where
  "routeThroughSubjects g rejected origin target waypoints mode objective maxNodes =
     legLoop g mode objective maxNodes rejected \<lparr>FrPath = [], FrKinds = [], FrDistances = []\<rparr> 0
       (origin # waypoints @ [target])"

end
