(* ===== verification/MapRouteFacts.thy ===== *)
theory MapRouteFacts
  imports MapRoute "HOL-Library.Multiset"
begin

text \<open>
  What a route search guarantees. The queue keeps its items, so the search always ends; the links it keeps lead
  back to a start over edges that the travel mode allows, so a route that is found is legal from end to end.
  Following the links may not end: the search links two provinces of equal cost to each other.
\<close>

section \<open>The queue keeps its items\<close>

lemma swapAt_mset: "i < length xs \<Longrightarrow> j < length xs \<Longrightarrow> mset (swapAt i j xs) = mset xs"
  unfolding swapAt_def by (rule mset_swap)

lemma swapAt_length [simp]: "length (swapAt i j xs) = length xs"
  by (simp add: swapAt_def)

lemma siftUp_mset: "i < length q \<Longrightarrow> mset (siftUp i q) = mset q"
proof (induction i q rule: siftUp.induct)
  case (1 i q)
  show ?case
  proof (cases "i \<noteq> 0 \<and> queueLess (q ! i) (q ! ((i - 1) div 2))")
    case True
    have p: "(i - 1) div 2 < length q" using 1(2) by linarith
    have "mset (siftUp ((i - 1) div 2) (swapAt i ((i - 1) div 2) q)) = mset (swapAt i ((i - 1) div 2) q)"
      by (rule 1(1) [OF _ refl]) (use True p in auto)
    then show ?thesis using True swapAt_mset [OF 1(2) p] by (simp add: siftUp.simps [of i q] Let_def)
  next
    case False then show ?thesis by (auto simp: siftUp.simps [of i q] Let_def)
  qed
qed

lemma siftDown_mset: "i < length q \<Longrightarrow> mset (siftDown i q) = mset q"
proof (induction i q rule: siftDown.induct)
  case (1 i q)
  let ?small = "if i * 2 + 1 + 1 < length q \<and> queueLess (q ! (i * 2 + 1 + 1)) (q ! (i * 2 + 1)) then i * 2 + 1 + 1 else i * 2 + 1"
  show ?case
  proof (cases "i * 2 + 1 < length q \<and> queueLess (q ! ?small) (q ! i)")
    case True
    have s: "?small < length q" using True by auto
    have "mset (siftDown ?small (swapAt i ?small q)) = mset (swapAt i ?small q)"
      by (rule 1(1) [of "i * 2 + 1" "i * 2 + 1 + 1" ?small]) (use True s in \<open>simp_all only: swapAt_length not_le\<close>)
    moreover have "siftDown i q = siftDown ?small (swapAt i ?small q)"
      unfolding siftDown.simps [of i q] Let_def
      by (rule if_not_P [THEN trans], use True in \<open>simp only: not_le\<close>, rule if_P, use True in \<open>simp only:\<close>)
    ultimately show ?thesis using swapAt_mset [OF 1(2) s] by (simp only:)
  next
    case False then show ?thesis by (auto simp: siftDown.simps [of i q] Let_def)
  qed
qed

lemma push_mset: "mset (pushMapRouteQueue item q) = add_mset item (mset q)"
  by (simp add: pushMapRouteQueue_def siftUp_mset)

lemma pop_mset:
  assumes "q \<noteq> []" and "popMapRouteQueue q = (item, rest)"
  shows "mset q = add_mset item (mset rest)"
proof (cases "butlast q = []")
  case True
  then obtain x where "q = [x]" using assms(1) by (metis append_butlast_last_id append_Nil)
  then show ?thesis using assms(2) by (simp add: popMapRouteQueue_def)
next
  case False
  then obtain x ys where b: "butlast q = x # ys" by (cases "butlast q") auto
  then have q: "q = x # ys @ [last q]" using assms(1) append_butlast_last_id [of q] by simp
  have "mset rest = mset (last q # ys)" using assms(2) b siftDown_mset [of 0 "last q # ys"]
    by (auto simp: popMapRouteQueue_def Let_def)
  moreover have "item = x" using assms(2) q by (metis fst_conv list.sel(1) popMapRouteQueue_def)
  moreover have "mset q = add_mset x (mset (last q # ys))" using arg_cong [OF q, of mset] by simp
  ultimately show ?thesis by simp
qed

lemma pop_length: "q \<noteq> [] \<Longrightarrow> popMapRouteQueue q = (item, rest) \<Longrightarrow> length q = Suc (length rest)"
  using pop_mset [of q item rest] by (metis size_add_mset size_mset)

section \<open>The search ends\<close>

text \<open>Every turn of the loop takes an item from the queue, and adds items only when it uses up a node.\<close>

lemma search_induct [case_names turn]:
  assumes "\<And>expanded s.
      (\<And>item rest. SeQueue s \<noteq> [] \<Longrightarrow> popMapRouteQueue (SeQueue s) = (item, rest) \<Longrightarrow> P expanded (s\<lparr>SeQueue := rest\<rparr>)) \<Longrightarrow>
      (\<And>item rest t. SeQueue s \<noteq> [] \<Longrightarrow> popMapRouteQueue (SeQueue s) = (item, rest) \<Longrightarrow> expanded + 1 \<le> maxNodes \<Longrightarrow>
        P (expanded + 1) t) \<Longrightarrow> P expanded s"
  shows "P (expanded :: int) (s :: routeSearch)"
proof (induction "nat (maxNodes - expanded)" arbitrary: expanded s rule: less_induct)
  case outer: (less expanded s)
  show ?case
  proof (induction "length (SeQueue s)" arbitrary: s rule: less_induct)
    case (less s)
    show ?case
    proof (rule assms)
      fix item rest assume "SeQueue s \<noteq> []" "popMapRouteQueue (SeQueue s) = (item, rest)"
      from pop_length [OF this] show "P expanded (s\<lparr>SeQueue := rest\<rparr>)" by (intro less) simp
    next
      fix t assume "expanded + 1 \<le> maxNodes"
      then show "P (expanded + 1) t" by (intro outer) simp
    qed
  qed
qed

lemma searchLoop_returns: "\<exists>r. searchLoop g mode scenic ends maxNodes expanded s = Some r"
proof (induction expanded s rule: search_induct [where maxNodes = maxNodes])
  case (turn expanded s)
  show ?case
  proof (cases "SeQueue s = []")
    case True then show ?thesis by (simp add: searchLoop.simps)
  next
    case False
    obtain item rest where pop: "popMapRouteQueue (SeQueue s) = (item, rest)" by fastforce
    show ?thesis
      unfolding searchLoop.simps [of g mode scenic ends maxNodes expanded s] pop Let_def prod.case
      using turn [OF False pop] False
      by (cases "staleItem item (s\<lparr>SeQueue := rest\<rparr>)"; cases "expanded + 1 \<le> maxNodes") simp_all
  qed
qed

section \<open>The links of a search\<close>

definition crossing :: "mapRouteGraph \<Rightarrow> bytes \<Rightarrow> int \<Rightarrow> mapRouteEdge \<Rightarrow> int \<Rightarrow> bool" where
  "crossing g mode p edge q \<longleftrightarrow> edge \<in> set (edgesOf g p) \<and> ReTo edge = q \<and> fst (edgeAllowed g p edge mode)"

definition linked :: "mapRouteGraph \<Rightarrow> bytes \<Rightarrow> int list \<Rightarrow> routeSearch \<Rightarrow> bool" where
  "linked g mode starts s \<longleftrightarrow>
     (\<forall>q p. SePrevious s q = Some p \<longrightarrow>
        (\<exists>edge. SePreviousEdge s q = Some edge \<and> crossing g mode p edge q) \<and> SeCost s p \<noteq> None)
     \<and> (\<forall>q. SeCost s q \<noteq> None \<longrightarrow> SePrevious s q = None \<longrightarrow> q \<in> set starts \<and> nodeAllowed g q mode)"

lemma linked_queue [simp]:
  "linked g mode starts (s\<lparr>SeQueue := q\<rparr>) = linked g mode starts s"
  "linked g mode starts (s\<lparr>SeRejected := r\<rparr>) = linked g mode starts s"
  by (simp_all add: linked_def)

lemma linked_start: "linked g mode starts (startSearch g mode rejected starts)"
proof -
  let ?add = "\<lambda>p s. if \<not> nodeAllowed g p mode then s
      else s\<lparr>SeCost := (SeCost s)(p \<mapsto> 0), SeDistance := (SeDistance s)(p \<mapsto> 0),
        SeQueue := pushMapRouteQueue \<lparr>QiID = p, QiCost = 0, QiDistance = 0, QiOrder = SeOrder s\<rparr> (SeQueue s),
        SeOrder := SeOrder s + 1\<rparr>"
  have "linked g mode starts (fold ?add ps s) \<and> SePrevious (fold ?add ps s) = Map.empty"
    if "linked g mode starts s" "SePrevious s = Map.empty" "set ps \<subseteq> set starts" for ps s
    using that
  proof (induction ps arbitrary: s)
    case (Cons p ps)
    have "linked g mode starts (?add p s) \<and> SePrevious (?add p s) = Map.empty"
      using Cons.prems by (auto simp: linked_def)
    then show ?case using Cons.IH [of "?add p s"] Cons.prems(3) by simp
  qed simp
  then show ?thesis unfolding startSearch_def by (rule conjunct1) (simp_all add: linked_def)
qed

lemma relaxEdge_linked:
  assumes "linked g mode starts s" and "SeCost s p \<noteq> None" and "edge \<in> set (edgesOf g p)"
  shows "linked g mode starts (relaxEdge g mode scenic p edge s) \<and> SeCost (relaxEdge g mode scenic p edge s) p \<noteq> None"
proof -
  obtain allowed kind where ea: "edgeAllowed g p edge mode = (allowed, kind)" by fastforce
  let ?candidate = "f64Add (orZero (SeCost s p)) (stepWeight g mode scenic p edge)"
  show ?thesis
  proof (cases "allowed \<and> improves p ?candidate edge s")
    case True
    let ?t = "s\<lparr>SeCost := (SeCost s)(ReTo edge \<mapsto> ?candidate), SePrevious := (SePrevious s)(ReTo edge \<mapsto> p),
        SePreviousEdge := (SePreviousEdge s)(ReTo edge \<mapsto> edge)\<rparr>"
    have new: "crossing g mode p edge (ReTo edge)" using True ea assms(3) by (simp add: crossing_def)
    have old: "(\<exists>edge. SePreviousEdge s q = Some edge \<and> crossing g mode r edge q) \<and> SeCost s r \<noteq> None"
      if "SePrevious s q = Some r" for q r using assms(1) that unfolding linked_def by blast
    have free: "q \<in> set starts \<and> nodeAllowed g q mode" if "SeCost s q \<noteq> None" "SePrevious s q = None" for q
      using assms(1) that unfolding linked_def by blast
    have "(\<exists>edge. SePreviousEdge ?t q = Some edge \<and> crossing g mode r edge q) \<and> SeCost ?t r \<noteq> None"
      if "SePrevious ?t q = Some r" for q r
      using that new assms(2) old [of q r] by (cases "q = ReTo edge") simp_all
    moreover have "q \<in> set starts \<and> nodeAllowed g q mode" if "SeCost ?t q \<noteq> None" "SePrevious ?t q = None" for q
      using that free [of q] by (cases "q = ReTo edge") simp_all
    ultimately have "linked g mode starts ?t \<and> SeCost ?t p \<noteq> None" using assms(2) unfolding linked_def by simp
    then show ?thesis using True ea by (simp add: relaxEdge_def Let_def linked_def)
  next
    case False then show ?thesis using assms(1,2) ea by (cases allowed) (simp_all add: relaxEdge_def Let_def)
  qed
qed

lemma fold_relax_linked:
  assumes "linked g mode starts s" and "SeCost s p \<noteq> None" and "set es \<subseteq> set (edgesOf g p)"
  shows "linked g mode starts (fold (relaxEdge g mode scenic p) es s)"
  using assms
proof (induction es arbitrary: s)
  case (Cons e es)
  then show ?case using relaxEdge_linked [of g mode starts s p e scenic] by simp
qed simp

text \<open>Where a search ends, its links are sound, a goal is one of the ends and its cost is known.\<close>

lemma searchLoop_linked:
  "searchLoop g mode scenic ends maxNodes expanded s = Some (outcome, n, t) \<Longrightarrow> linked g mode starts s \<Longrightarrow>
    expanded \<le> maxNodes \<Longrightarrow>
    linked g mode starts t \<and> n \<le> maxNodes + 1
    \<and> (\<forall>goal. outcome = ReachedGoal goal \<longrightarrow> goal \<in> set ends \<and> SeCost t goal \<noteq> None \<and> n \<le> maxNodes)"
proof (induction expanded s rule: search_induct [where maxNodes = maxNodes])
  case (turn expanded s)
  show ?case
  proof (cases "SeQueue s = []")
    case True then show ?thesis using turn.prems by (simp add: searchLoop.simps)
  next
    case False
    obtain item rest where pop: "popMapRouteQueue (SeQueue s) = (item, rest)" by fastforce
    let ?s1 = "s\<lparr>SeQueue := rest\<rparr>"
    let ?s2 = "fold (relaxEdge g mode scenic (QiID item)) (edgesOf g (QiID item)) ?s1"
    note run = turn.prems(1) [unfolded searchLoop.simps [of g mode scenic ends maxNodes expanded s] pop Let_def prod.case
        if_not_P [OF False]]
    show ?thesis
    proof (cases "staleItem item ?s1")
      case True then show ?thesis using run turn.IH(1) [OF False pop] turn.prems(2,3) by simp
    next
      case fresh: False
      then have known: "SeCost ?s1 (QiID item) \<noteq> None" by (auto simp: staleItem_def split: option.splits)
      have "linked g mode starts ?s2" by (rule fold_relax_linked) (use turn.prems(2) known in simp_all)
      then show ?thesis using run fresh known turn.IH(2) [OF False pop, of ?s2] turn.prems(2,3)
        by (auto split: if_splits)
    qed
  qed
qed

section \<open>A route that is found\<close>

definition legalRoute :: "mapRouteGraph \<Rightarrow> bytes \<Rightarrow> foundRoute \<Rightarrow> bool" where
  "legalRoute g mode r \<longleftrightarrow>
     FrPath r \<noteq> [] \<and> nodeAllowed g (hd (FrPath r)) mode
     \<and> Suc (length (FrKinds r)) = length (FrPath r) \<and> Suc (length (FrDistances r)) = length (FrPath r)
     \<and> (\<forall>i. Suc i < length (FrPath r) \<longrightarrow>
          (\<exists>edge. crossing g mode (FrPath r ! i) edge (FrPath r ! Suc i)
             \<and> FrKinds r ! i = ReKind edge \<and> FrDistances r ! i = ReDistance edge))"

text \<open>The links from the goal, one after the other until there is none.\<close>

lemma tracePath_chain:
  "tracePath previous path = Some full \<Longrightarrow> path \<noteq> [] \<longrightarrow>
    (\<forall>i. Suc i < length path \<longrightarrow> previous (path ! i) = Some (path ! Suc i)) \<longrightarrow>
    full \<noteq> [] \<and> hd full = hd path \<and> previous (last full) = None
    \<and> (\<forall>i. Suc i < length full \<longrightarrow> previous (full ! i) = Some (full ! Suc i))"
proof (rule tracePath.raw_induct [where P = "\<lambda>previous path full. path \<noteq> [] \<longrightarrow>
      (\<forall>i. Suc i < length path \<longrightarrow> previous (path ! i) = Some (path ! Suc i)) \<longrightarrow>
      full \<noteq> [] \<and> hd full = hd path \<and> previous (last full) = None
      \<and> (\<forall>i. Suc i < length full \<longrightarrow> previous (full ! i) = Some (full ! Suc i))"], goal_cases)
  case (1 trace previous path full)
  show ?case
  proof (cases "previous (last path)")
    case None then show ?thesis using 1(3) by auto
  next
    case (Some p)
    have "\<forall>i. Suc i < length (path @ [p]) \<longrightarrow> previous ((path @ [p]) ! i) = Some ((path @ [p]) ! Suc i)"
      if "path \<noteq> []" "\<forall>i. Suc i < length path \<longrightarrow> previous (path ! i) = Some (path ! Suc i)"
      using that Some by (auto simp: nth_append last_conv_nth less_Suc_eq) (metis diff_Suc_1 One_nat_def)
    then show ?thesis using 1(2) [of previous "path @ [p]" full] 1(3) Some by auto
  qed
qed

lemma chain_known:
  assumes "linked g mode starts s" and "\<forall>i. Suc i < length path \<longrightarrow> SePrevious s (path ! i) = Some (path ! Suc i)"
    and "path \<noteq> []" "SeCost s (hd path) \<noteq> None" and "i < length path"
  shows "SeCost s (path ! i) \<noteq> None"
  using assms(5)
proof (induction i)
  case 0 then show ?case using assms(3,4) by (simp add: hd_conv_nth)
next
  case (Suc i)
  then have "SePrevious s (path ! i) = Some (path ! Suc i)" using assms(2) by simp
  then show ?case using assms(1) unfolding linked_def by blast
qed

lemma dijkstra_legal:
  assumes "dijkstra g rejected starts ends mode scenic maxNodes = Some a"
  shows "RaExpanded a \<le> max maxNodes 0 + 1"
    and "RaResult a = Inr r \<Longrightarrow> legalRoute g mode r \<and> hd (FrPath r) \<in> set starts \<and> last (FrPath r) \<in> set ends
      \<and> RaExpanded a \<le> maxNodes \<and> 0 < maxNodes"
proof -
  obtain outcome n t where run: "searchLoop g mode scenic ends maxNodes 0 (startSearch g mode rejected starts) = Some (outcome, n, t)"
    using searchLoop_returns by (metis prod_cases3)
  have found: "linked g mode starts t \<and> n \<le> maxNodes + 1
      \<and> (\<forall>goal. outcome = ReachedGoal goal \<longrightarrow> goal \<in> set ends \<and> SeCost t goal \<noteq> None \<and> n \<le> maxNodes)" if "0 < maxNodes"
    using searchLoop_linked [OF run linked_start] that by simp
  show "RaExpanded a \<le> max maxNodes 0 + 1"
    using assms found run by (cases outcome) (auto simp: dijkstra_def Let_def split: if_splits option.splits)
  assume r: "RaResult a = Inr r"
  then obtain goal full where pos: "0 < maxNodes" and goal: "outcome = ReachedGoal goal" "goal \<noteq> 0"
    and full: "tracePath (SePrevious t) [goal] = Some full" and a: "RaExpanded a = n"
    and r_def: "r = \<lparr>FrPath = rev full, FrKinds = map ReKind (map (edgeInto t) (tl (rev full))),
      FrDistances = map ReDistance (map (edgeInto t) (tl (rev full)))\<rparr>"
    using assms run by (cases outcome) (auto simp: dijkstra_def Let_def split: if_splits option.splits)
  note found = found [OF pos]
  from tracePath_chain [OF full] have chain: "full \<noteq> []" "hd full = goal" "SePrevious t (last full) = None"
      "\<forall>i. Suc i < length full \<longrightarrow> SePrevious t (full ! i) = Some (full ! Suc i)" by simp_all
  have known: "i < length full \<Longrightarrow> SeCost t (full ! i) \<noteq> None" for i
    using chain_known [of g mode starts t full i] found chain goal by auto
  have start: "last full \<in> set starts \<and> nodeAllowed g (last full) mode"
    using found known [of "length full - 1"] chain(1,3) unfolding linked_def by (auto simp: last_conv_nth)
  let ?p = "rev full"
  have len: "length ?p = length full" by simp
  have step: "\<exists>edge. crossing g mode (?p ! i) edge (?p ! Suc i) \<and> edgeInto t (?p ! Suc i) = edge"
    if "Suc i < length full" for i
  proof -
    have "SePrevious t (full ! (length full - Suc (Suc i))) = Some (full ! Suc (length full - Suc (Suc i)))"
      using chain(4) that by simp
    moreover have "Suc (length full - Suc (Suc i)) = length full - Suc i" using that by simp
    ultimately have "SePrevious t (?p ! Suc i) = Some (?p ! i)" using that by (simp add: rev_nth)
    then obtain edge where "SePreviousEdge t (?p ! Suc i) = Some edge" "crossing g mode (?p ! i) edge (?p ! Suc i)"
      using found unfolding linked_def by blast
    then show ?thesis by (auto simp: edgeInto_def)
  qed
  have "legalRoute g mode r"
    unfolding legalRoute_def r_def using chain(1) start step
    by (auto simp: hd_rev nth_tl)
  then show "legalRoute g mode r \<and> hd (FrPath r) \<in> set starts \<and> last (FrPath r) \<in> set ends
      \<and> RaExpanded a \<le> maxNodes \<and> 0 < maxNodes"
    using start chain found goal a pos by (auto simp: r_def hd_rev last_rev)
qed

lemma shortestRoute_legal:
  assumes "shortestRoute g rejected starts ends mode objective maxNodes = Some a"
  shows "RaExpanded a \<le> max maxNodes 0 + 1"
    and "RaResult a = Inr r \<Longrightarrow> legalRoute g mode r \<and> hd (FrPath r) \<in> set starts \<and> last (FrPath r) \<in> set ends \<and> 0 < maxNodes"
proof -
  have both: "RaExpanded a \<le> max maxNodes 0 + 1 \<and> (RaResult a = Inr r \<longrightarrow>
      legalRoute g mode r \<and> hd (FrPath r) \<in> set starts \<and> last (FrPath r) \<in> set ends \<and> 0 < maxNodes)" for r
  proof (cases "starts = [] \<or> ends = []")
    case True then show ?thesis using assms by (auto simp: shortestRoute_def)
  next
    case False
    then obtain a1 where a1: "dijkstra g rejected starts ends mode False maxNodes = Some a1"
      using assms by (auto simp: shortestRoute_def split: option.splits)
    note first = dijkstra_legal [OF a1]
    show ?thesis
    proof (cases "RaResult a1")
      case (Inl e) then show ?thesis using assms False a1 first by (auto simp: shortestRoute_def)
    next
      case (Inr shortest)
      note first = first(1) first(2) [OF Inr]
      show ?thesis
      proof (cases "objective \<noteq> ''scenic'' \<or> mode = ''land'' \<or> maxNodes - RaExpanded a1 \<le> 0")
        case True then show ?thesis using assms False a1 first Inr by (auto simp: shortestRoute_def split: if_splits)
      next
        case more: False
        then obtain a2 where a2: "dijkstra g (RaRejected a1) starts ends mode True (maxNodes - RaExpanded a1) = Some a2"
          using assms False a1 Inr by (auto simp: shortestRoute_def split: option.splits)
        note second = dijkstra_legal [OF a2]
        have n: "RaExpanded a = RaExpanded a1 + RaExpanded a2" and res: "RaResult a = Inr shortest \<or> RaResult a = RaResult a2"
          using assms False a1 Inr a2 more
          by (cases "RaResult a2"; auto simp: shortestRoute_def Let_def split: if_splits)+
        have "RaExpanded a \<le> max maxNodes 0 + 1" using n second(1) more first by auto
        moreover have "legalRoute g mode r \<and> hd (FrPath r) \<in> set starts \<and> last (FrPath r) \<in> set ends \<and> 0 < maxNodes"
          if "RaResult a = Inr r" using res that second(2) [of r] first by auto
        ultimately show ?thesis by blast
      qed
    qed
  qed
  show "RaExpanded a \<le> max maxNodes 0 + 1" using both by blast
  show "RaResult a = Inr r \<Longrightarrow> legalRoute g mode r \<and> hd (FrPath r) \<in> set starts \<and> last (FrPath r) \<in> set ends \<and> 0 < maxNodes"
    using both by blast
qed

section \<open>Joining the legs\<close>

definition visitsInOrder :: "int list \<Rightarrow> int list list \<Rightarrow> bool" where
  "visitsInOrder path stops \<longleftrightarrow>
     (\<exists>at. sorted at \<and> list_all2 (\<lambda>i stop. i < length path \<and> path ! i \<in> set stop) at stops)"

lemma visits_extend:
  assumes "visitsInOrder path stops" and "last full \<in> set stop" and "full = path @ more_path" and "full \<noteq> []"
  shows "visitsInOrder full (stops @ [stop])"
proof -
  obtain at where at: "sorted at" "list_all2 (\<lambda>i s. i < length path \<and> path ! i \<in> set s) at stops"
    using assms(1) by (auto simp: visitsInOrder_def)
  have "\<forall>i \<in> set at. i < length path" using at(2) by (auto simp: list_all2_conv_all_nth in_set_conv_nth)
  then have "sorted (at @ [length full - 1])" using at(1) assms(3,4) by (auto simp: sorted_append)
  moreover have "list_all2 (\<lambda>i s. i < length full \<and> full ! i \<in> set s) at stops"
    using at(2) assms(3) by (auto simp: list_all2_conv_all_nth nth_append)
  then have "list_all2 (\<lambda>i s. i < length full \<and> full ! i \<in> set s) (at @ [length full - 1]) (stops @ [stop])"
    using assms(2,4) by (auto simp: last_conv_nth intro: list_all2_appendI)
  ultimately show ?thesis unfolding visitsInOrder_def by blast
qed

lemma legal_join:
  assumes "legalRoute g mode r" and "legalRoute g mode leg" and "last (FrPath r) = hd (FrPath leg)"
  shows "legalRoute g mode \<lparr>FrPath = FrPath r @ tl (FrPath leg), FrKinds = FrKinds r @ FrKinds leg,
    FrDistances = FrDistances r @ FrDistances leg\<rparr>"
proof -
  note r = assms(1) [unfolded legalRoute_def] and leg = assms(2) [unfolded legalRoute_def]
  obtain x xs where path: "FrPath leg = x # xs" using leg by (cases "FrPath leg") auto
  have x: "x = last (FrPath r)" using assms(3) path by simp
  let ?p = "FrPath r @ xs"
  have "\<exists>edge. crossing g mode (?p ! i) edge (?p ! Suc i)
      \<and> (FrKinds r @ FrKinds leg) ! i = ReKind edge \<and> (FrDistances r @ FrDistances leg) ! i = ReDistance edge"
    if i: "Suc i < length ?p" for i
  proof (cases "Suc i < length (FrPath r)")
    case True
    then show ?thesis using r by (auto simp: nth_append)
  next
    case False
    define j where "j = i - length (FrKinds r)"
    have ij: "i = length (FrKinds r) + j" "Suc j < length (FrPath leg)" using False i r path by (auto simp: j_def)
    have "?p ! i = FrPath leg ! j"
    proof (cases j)
      case 0
      have "length (FrPath r) = Suc (length (FrKinds r))" "FrPath r \<noteq> []" using r by auto
      then show ?thesis using 0 ij(1) x path by (simp add: nth_append last_conv_nth)
    next
      case (Suc k)
      have "length (FrPath r) = Suc (length (FrKinds r))" using r by simp
      then show ?thesis using Suc ij(1) path by (simp add: nth_append)
    qed
    moreover have "length (FrPath r) = Suc (length (FrKinds r))" using r by simp
    then have "?p ! Suc i = FrPath leg ! Suc j" using ij(1) path by (simp add: nth_append)
    moreover have same: "length (FrDistances r) = length (FrKinds r)" using r by simp
    then have "(FrKinds r @ FrKinds leg) ! i = FrKinds leg ! j" "(FrDistances r @ FrDistances leg) ! i = FrDistances leg ! j"
      unfolding ij(1) using same by (simp_all add: nth_append)
    ultimately show ?thesis using leg ij(2) by simp
  qed
  then show ?thesis unfolding legalRoute_def using r leg path by auto
qed

lemma legLoop_legal:
  assumes "legLoop g mode objective maxNodes rejected so_far expanded (subject # rest) = Some a"
    and "FrPath so_far = [] \<longrightarrow> FrKinds so_far = [] \<and> FrDistances so_far = [] \<and> stops = []"
    and "FrPath so_far \<noteq> [] \<longrightarrow> legalRoute g mode so_far \<and> stops \<noteq> []
      \<and> hd (FrPath so_far) \<in> set (hd stops) \<and> visitsInOrder (FrPath so_far) stops"
    and "expanded \<le> maxNodes + 1" and "0 \<le> maxNodes"
  shows "RaExpanded a \<le> maxNodes + 1 \<and> (\<forall>r. RaResult a = Inr r \<longrightarrow> rest = [] \<and> r = so_far
    \<or> rest \<noteq> [] \<and> legalRoute g mode r
      \<and> hd (FrPath r) \<in> set (hd ((if stops = [] then [routeSubjectNodes g subject mode] else stops)))
      \<and> last (FrPath r) \<in> set (routeSubjectNodes g (last rest) mode)
      \<and> visitsInOrder (FrPath r) ((if stops = [] then [routeSubjectNodes g subject mode] else stops)
          @ map (\<lambda>w. routeSubjectNodes g w mode) rest))"
  using assms
proof (induction rest arbitrary: rejected so_far expanded subject stops)
  case Nil then show ?case by auto
next
  case (Cons target rest)
  let ?starts = "if FrPath so_far \<noteq> [] then [last (FrPath so_far)] else routeSubjectNodes g subject mode"
  let ?ends = "routeSubjectNodes g target mode"
  let ?stops = "if stops = [] then [routeSubjectNodes g subject mode] else stops"
  obtain b where b: "shortestRoute g rejected ?starts ?ends mode objective (maxNodes - expanded) = Some b"
    using Cons.prems(1) by (auto simp: Let_def split: option.splits)
  note leg = shortestRoute_legal [OF b]
  have total: "expanded + RaExpanded b \<le> maxNodes + 1" if "0 < maxNodes - expanded" using leg(1) that by simp
  show ?case
  proof (cases "RaResult b")
    case (Inl e)
    have "RaExpanded b \<le> 0 \<or> 0 < maxNodes - expanded"
    proof (cases "0 < maxNodes - expanded")
      case False
      then have "RaExpanded b = 0" using b Inl
        by (auto simp: shortestRoute_def dijkstra_def split: if_splits)
      then show ?thesis by simp
    qed simp
    then have "expanded + RaExpanded b \<le> maxNodes + 1" using total Cons.prems(4) by linarith
    moreover have "a = b\<lparr>RaExpanded := expanded + RaExpanded b\<rparr>" using Cons.prems(1) b Inl by (simp add: Let_def)
    ultimately show ?thesis using Inl by simp
  next
    case (Inr route)
    note route = leg(2) [OF Inr]
    let ?path = "if FrPath so_far \<noteq> [] \<and> FrPath route \<noteq> [] \<and> last (FrPath so_far) = hd (FrPath route)
        then tl (FrPath route) else FrPath route"
    let ?next = "\<lparr>FrPath = FrPath so_far @ ?path, FrKinds = FrKinds so_far @ FrKinds route,
        FrDistances = FrDistances so_far @ FrDistances route\<rparr>"
    have run: "legLoop g mode objective maxNodes (RaRejected b) ?next (expanded + RaExpanded b) (target # rest) = Some a"
      using Cons.prems(1) b Inr by (simp add: Let_def)
    have ne: "FrPath route \<noteq> []" using route by (simp add: legalRoute_def)
    have joined: "legalRoute g mode ?next \<and> FrPath ?next \<noteq> [] \<and> hd (FrPath ?next) \<in> set (hd ?stops)
        \<and> last (FrPath ?next) \<in> set ?ends \<and> visitsInOrder (FrPath ?next) (?stops @ [?ends])"
    proof (cases "FrPath so_far = []")
      case True
      have "visitsInOrder (FrPath route) [routeSubjectNodes g subject mode]"
        unfolding visitsInOrder_def using route True ne by (intro exI [of _ "[0]"]) (auto simp: hd_conv_nth)
      then have "visitsInOrder (FrPath route) ([routeSubjectNodes g subject mode] @ [?ends])"
        by (rule visits_extend) (use route ne in auto)
      then show ?thesis using True Cons.prems(2) route ne by (simp add: legalRoute_def)
    next
      case False
      then have hd: "last (FrPath so_far) = hd (FrPath route)" using route by simp
      have path: "FrPath ?next = FrPath so_far @ tl (FrPath route)" using False hd ne by simp
      have legal: "legalRoute g mode ?next" using legal_join [OF _ _ hd] Cons.prems(3) False route hd ne by simp
      have "last (FrPath ?next) = last (FrPath route)"
        unfolding path using False hd ne by (cases "FrPath route") auto
      then have last: "last (FrPath ?next) \<in> set ?ends" using route by simp
      have "visitsInOrder (FrPath ?next) (stops @ [?ends])"
        by (rule visits_extend [OF _ last path]) (use Cons.prems(3) False path in auto)
      then show ?thesis using legal last Cons.prems(3) False path by simp
    qed
    have "RaExpanded a \<le> maxNodes + 1 \<and> (\<forall>r. RaResult a = Inr r \<longrightarrow> rest = [] \<and> r = ?next
      \<or> rest \<noteq> [] \<and> legalRoute g mode r \<and> hd (FrPath r) \<in> set (hd (?stops @ [?ends]))
        \<and> last (FrPath r) \<in> set (routeSubjectNodes g (last rest) mode)
        \<and> visitsInOrder (FrPath r) ((?stops @ [?ends]) @ map (\<lambda>w. routeSubjectNodes g w mode) rest))"
      using Cons.IH [OF run, of "?stops @ [?ends]"] joined total route Cons.prems(5) by simp
    then show ?thesis using joined by auto
  qed
qed

section \<open>Links in a circle\<close>

lemma tracePath_cycle:
  assumes "\<forall>p \<in> C. \<exists>q \<in> C. previous p = Some q" and "path \<noteq> []" and "last path \<in> C"
  shows "tracePath previous path = None"
proof (rule ccontr)
  assume "tracePath previous path \<noteq> None"
  then obtain full where "tracePath previous path = Some full" by blast
  then have "(\<forall>p \<in> C. \<exists>q \<in> C. previous p = Some q) \<longrightarrow> last path \<in> C \<longrightarrow> False"
  proof (rule tracePath.raw_induct [where P = "\<lambda>previous path full.
      (\<forall>p \<in> C. \<exists>q \<in> C. previous p = Some q) \<longrightarrow> last path \<in> C \<longrightarrow> False", rotated], goal_cases)
    case (1 trace previous path full)
    show ?case
    proof (intro impI)
      assume C: "\<forall>p \<in> C. \<exists>q \<in> C. previous p = Some q" and "last path \<in> C"
      then obtain q where "previous (last path) = Some q" "q \<in> C" by blast
      then show False using 1(1) [of previous "path @ [q]" full] 1(2) C by simp
    qed
  qed
  then show False using assms by blast
qed

end
