(* ===== verification/MapRouteTheorems.thy ===== *)
theory MapRouteTheorems
  imports MapRouteFacts
begin

text \<open>
  The properties of route searches, and a small map on which a search does not return. The sums and comparisons of
  distances that the search on this map makes are evaluated first: 10 and 20 pixels, and the tolerance 1e-9.
\<close>

section \<open>Routes through way points\<close>

text \<open>
  C9. A route is legal and visits its way points. When a route from one province to another through way
  points is found, it starts at a province that gives access to the origin, ends at one that gives access to the
  target, and comes by one of every way point in the order asked for; every step is an edge of the graph that the
  travel mode allows, between provinces it allows, and is reported with the kind and the distance of
  that edge. Whether or not a route is found, no more than one province beyond the limit is expanded.
\<close>

theorem route_legal:
  assumes "routeThroughSubjects g rejected origin target waypoints mode objective maxNodes = Some a" and "0 \<le> maxNodes"
  shows "RaExpanded a \<le> maxNodes + 1
    \<and> (\<forall>r. RaResult a = Inr r \<longrightarrow> legalRoute g mode r
        \<and> hd (FrPath r) \<in> set (routeSubjectNodes g origin mode)
        \<and> last (FrPath r) \<in> set (routeSubjectNodes g target mode)
        \<and> visitsInOrder (FrPath r) (map (\<lambda>p. routeSubjectNodes g p mode) (origin # waypoints @ [target])))"
  using legLoop_legal [OF assms(1) [unfolded routeThroughSubjects_def], of "[]"] assms(2) by auto

section \<open>Distances on the small map\<close>

definition px10 :: float64 where
  "px10 = 4621819117588971520"

definition px20 :: float64 where
  "px20 = 4626322717216342016"

lemma px_pixels: "px10 = f64Const 10 1" "px20 = f64Const 20 1"
  by (simp_all add: px10_def px20_def f64Const_def f64OfRat_def f64Magnitude_def bitLen.simps scaleBy_def
      roundQuot_def f64Infinity_def Let_def)

lemma costTolerance_word: "costTolerance = 4472406533629990549"
  by (simp add: costTolerance_def f64Const_def f64OfRat_def f64Magnitude_def bitLen.simps scaleBy_def roundQuot_def
      f64Infinity_def Let_def)

lemma f64_mags: "f64MagOf px10 = 4621819117588971520" "f64MagOf px20 = 4626322717216342016" "f64MagOf costTolerance = 4472406533629990549"
  "f64MagOf 0 = 0"
  by (simp_all add: px10_def px20_def costTolerance_word f64MagOf_def)

lemma f64_signs: "\<not> f64Negative px10" "\<not> f64Negative px20" "\<not> f64Negative costTolerance" "\<not> f64Negative 0"
  by (simp_all add: px10_def px20_def costTolerance_word f64Negative_def)

lemma f64MagOf_lt: "f64MagOf x < 2 ^ 63" by (simp add: f64MagOf_def)

lemma f64Neg_simps: "f64MagOf (f64Neg x) = f64MagOf x" "f64Negative (f64Neg x) = (\<not> f64Negative x)"
proof -
  have lt: "f64MagOf x < 2 ^ 63" by (rule f64MagOf_lt)
  have "unat (f64Neg x) = (if f64Negative x then 0 else 2 ^ 63) + f64MagOf x"
    unfolding f64Neg_def unat_of_nat by (rule mod_less) (use lt in simp)
  then show "f64MagOf (f64Neg x) = f64MagOf x" "f64Negative (f64Neg x) = (\<not> f64Negative x)"
    using lt by (simp_all add: f64MagOf_def [of "f64Neg x"] f64Negative_def [of "f64Neg x"])
qed

lemma f64_finite: "f64Finite px10" "f64Finite px20" "f64Finite costTolerance" "f64Finite 0"
  "\<not> f64IsNaN px10" "\<not> f64IsNaN px20" "\<not> f64IsNaN costTolerance" "\<not> f64IsNaN 0"
  by (simp_all add: f64Finite_def f64IsNaN_def f64_mags f64Infinity_def)

lemma f64Neg_finite: "f64Finite (f64Neg x) = f64Finite x" "f64IsNaN (f64Neg x) = f64IsNaN x"
  by (simp_all add: f64Finite_def f64IsNaN_def f64Neg_simps)

lemma px10_ratio: "f64Ratio 4621819117588971520 = (5629499534213120, 562949953421312)"
  by (simp add: f64Ratio_def)

lemma px20_ratio: "f64Ratio 4626322717216342016 = (5629499534213120, 281474976710656)"
  by (simp add: f64Ratio_def)

lemma costTolerance_ratio: "f64Ratio 4472406533629990549 = (4835703278458517, 4835703278458516698824704)"
  by (simp add: f64Ratio_def)


lemmas f64_facts = f64_mags f64_signs f64_finite f64Neg_simps f64Neg_finite px10_ratio px20_ratio costTolerance_ratio

lemma px10_plus_px10: "f64Add px10 px10 = word_of_nat 4626322717216342016"
proof -
  have "f64Add px10 px10 = f64OfRat False 6338253001141147007483516026880 316912650057057350374175801344"
    by (simp add: f64Sub_def f64Add_def f64_facts f64Exact_def Let_def)
  moreover have "f64Magnitude 6338253001141147007483516026880 316912650057057350374175801344 = 4626322717216342016"
    by (simp add: f64Magnitude_def bitLen.simps scaleBy_def roundQuot_def Let_def)
  ultimately show ?thesis by (simp add: f64OfRat_def f64Infinity_def)
qed

lemma px10_minus_px20: "f64Sub px10 px20 = word_of_nat 13845191154443747328"
proof -
  have "f64Sub px10 px20 = f64OfRat True 1584563250285286751870879006720 158456325028528675187087900672"
    by (simp add: f64Sub_def f64Add_def f64_facts f64Exact_def Let_def)
  moreover have "f64Magnitude 1584563250285286751870879006720 158456325028528675187087900672 = 4621819117588971520"
    by (simp add: f64Magnitude_def bitLen.simps scaleBy_def roundQuot_def Let_def)
  ultimately show ?thesis by (simp add: f64OfRat_def f64Infinity_def)
qed

lemma px20_minus_px10: "f64Sub px20 px10 = word_of_nat 4621819117588971520"
proof -
  have "f64Sub px20 px10 = f64OfRat False 1584563250285286751870879006720 158456325028528675187087900672"
    by (simp add: f64Sub_def f64Add_def f64_facts f64Exact_def Let_def)
  moreover have "f64Magnitude 1584563250285286751870879006720 158456325028528675187087900672 = 4621819117588971520"
    by (simp add: f64Magnitude_def bitLen.simps scaleBy_def roundQuot_def Let_def)
  ultimately show ?thesis by (simp add: f64OfRat_def f64Infinity_def)
qed

lemma px10_minus_costTolerance: "f64Sub px10 costTolerance = word_of_nat 4621819117588408570"
proof -
  have "f64Sub px10 costTolerance = f64OfRat False 27222589350952818141702460717287841202176 2722258935367507707706996859454145691648"
    by (simp add: f64Sub_def f64Add_def f64_facts f64Exact_def Let_def)
  moreover have "f64Magnitude 27222589350952818141702460717287841202176 2722258935367507707706996859454145691648 = 4621819117588408570"
    by (simp add: f64Magnitude_def bitLen.simps scaleBy_def roundQuot_def Let_def)
  ultimately show ?thesis by (simp add: f64OfRat_def f64Infinity_def)
qed

lemma px10_plus_costTolerance: "f64Add px10 costTolerance = word_of_nat 4621819117589534470"
proof -
  have "f64Add px10 costTolerance = f64OfRat False 27222589356397336012437476471795072630784 2722258935367507707706996859454145691648"
    by (simp add: f64Sub_def f64Add_def f64_facts f64Exact_def Let_def)
  moreover have "f64Magnitude 27222589356397336012437476471795072630784 2722258935367507707706996859454145691648 = 4621819117589534470"
    by (simp add: f64Magnitude_def bitLen.simps scaleBy_def roundQuot_def Let_def)
  ultimately show ?thesis by (simp add: f64OfRat_def f64Infinity_def)
qed

lemma px20_minus_costTolerance: "f64Sub px20 costTolerance = word_of_nat 4626322717216060541"
proof -
  have "f64Sub px20 costTolerance = f64OfRat False 27222589352313947609386214655914649059328 1361129467683753853853498429727072845824"
    by (simp add: f64Sub_def f64Add_def f64_facts f64Exact_def Let_def)
  moreover have "f64Magnitude 27222589352313947609386214655914649059328 1361129467683753853853498429727072845824 = 4626322717216060541"
    by (simp add: f64Magnitude_def bitLen.simps scaleBy_def roundQuot_def Let_def)
  ultimately show ?thesis by (simp add: f64OfRat_def f64Infinity_def)
qed

lemma px20_plus_costTolerance: "f64Add px20 costTolerance = word_of_nat 4626322717216623491"
proof -
  have "f64Add px20 costTolerance = f64OfRat False 27222589355036206544753722533168264773632 1361129467683753853853498429727072845824"
    by (simp add: f64Sub_def f64Add_def f64_facts f64Exact_def Let_def)
  moreover have "f64Magnitude 27222589355036206544753722533168264773632 1361129467683753853853498429727072845824 = 4626322717216623491"
    by (simp add: f64Magnitude_def bitLen.simps scaleBy_def roundQuot_def Let_def)
  ultimately show ?thesis by (simp add: f64OfRat_def f64Infinity_def)
qed



lemma zero_sums: "f64Add 0 px10 = px10" "f64Add px10 0 = px10" "f64Add 0 0 = 0" "f64Add 0 costTolerance = costTolerance"
  "f64Sub px10 px10 = 0" "f64Sub px20 px20 = 0" "f64Sub 0 0 = 0" "f64Sub 0 px10 = f64Neg px10" "f64Sub 0 px20 = f64Neg px20"
  "f64Sub px10 0 = px10" "f64Sub px20 0 = px20" "f64Sub 0 costTolerance = f64Neg costTolerance"
  by (simp_all add: f64Add_def f64Sub_def f64_facts f64Exact_def Let_def)

lemma searched_adds: "f64Add 0 px10 = px10" "f64Add px10 0 = px10" "f64Add 0 0 = 0" "f64Add px10 px10 = px20"
  by (simp_all only: zero_sums px10_plus_px10) (simp add: px20_def)

lemma searched_close: "f64Abs (f64Sub 0 0) = 0" "f64Abs (f64Sub px10 px10) = 0" "f64Abs (f64Sub px20 px20) = 0"
  "f64Abs (f64Sub 0 px10) = px10" "f64Abs (f64Sub px10 0) = px10" "f64Abs (f64Sub 0 px20) = px20" "f64Abs (f64Sub px20 0) = px20"
  "f64Abs (f64Sub px10 px20) = px10" "f64Abs (f64Sub px20 px10) = px10"
  unfolding zero_sums px10_minus_px20 px20_minus_px10
  by (simp_all add: f64Abs_def f64Neg_simps f64_mags) (simp_all add: px10_def px20_def f64MagOf_def)

lemma searched_order: "f64Less costTolerance px10" "f64Less costTolerance px20" "\<not> f64Less costTolerance 0" "f64LessEq 0 costTolerance"
  "\<not> f64LessEq px10 costTolerance" "\<not> f64LessEq px20 costTolerance"
  "f64Less px10 px20" "\<not> f64Less px20 px10" "f64Less 0 px10" "\<not> f64Less px10 0" "f64Less 0 px20" "\<not> f64Less px20 0"
  by (simp_all add: f64Less_def f64LessEq_def f64Rank_def f64_facts)

lemma searched_improve: "\<not> f64Less px10 (f64Sub px10 costTolerance)" "\<not> f64Less px20 (f64Sub px20 costTolerance)"
  "\<not> f64Less px20 (f64Sub 0 costTolerance)" "\<not> f64Less px10 (f64Sub 0 costTolerance)" 
  "\<not> f64Less (f64Add px10 costTolerance) px10" "\<not> f64Less (f64Add px20 costTolerance) px20" "\<not> f64Less (f64Add 0 costTolerance) 0"
  unfolding zero_sums px10_minus_costTolerance px10_plus_costTolerance px20_minus_costTolerance px20_plus_costTolerance
  by (simp_all add: f64Less_def f64Rank_def f64_facts) (simp_all add: f64Negative_def f64MagOf_def f64IsNaN_def f64Infinity_def)

section \<open>The small map\<close>

text \<open>The plains 9, 5, 3 and 7, where 5 and 3 have the same centre.\<close>

definition plain :: "int \<Rightarrow> int \<times> mapRouteNode" where
  "plain p = (p, zeroNode\<lparr>RnID := p\<rparr>)"

definition border :: "int \<Rightarrow> float64 \<Rightarrow> mapRouteEdge" where
  "border p pixels = zeroEdge\<lparr>ReTo := p, ReDistance := pixels, ReKind := ''land_boundary''\<rparr>"

definition twinMap :: mapRouteGraph where
  "twinMap = \<lparr>GrNodes = map plain [9, 5, 3, 7],
     GrEdges = [(9, [border 3 px10, border 5 px10]), (5, [border 3 0, border 9 px10]),
       (3, [border 5 0, border 7 px10, border 9 px10]), (7, [border 3 px10])]\<rparr>"

lemma twin_land: "isMapRouteLand (zeroNode\<lparr>RnID := p\<rparr>)"
  by (simp add: isMapRouteLand_def isMapRouteWater_def zeroNode_def trimSpace_def trimLeftSpace.simps trimRightSpace.simps)

lemma twin_allowed: "nodeAllowed twinMap p ''land'' = (p \<in> {9, 5, 3, 7})"
  by (simp add: nodeAllowed_def twinMap_def plain_def twin_land)

lemma twin_edges: "edgesOf twinMap 9 = [border 3 px10, border 5 px10]" "edgesOf twinMap 5 = [border 3 0, border 9 px10]"
   "edgesOf twinMap 3 = [border 5 0, border 7 px10, border 9 px10]"
  by (simp_all add: edgesOf_def twinMap_def)

lemma twin_edge_allowed: "p \<in> {9, 5, 3, 7} \<Longrightarrow> q \<in> {9, 5, 3, 7} \<Longrightarrow> edgeAllowed twinMap p (border q px) ''land'' = (True, ''land_boundary'')"
  unfolding edgeAllowed_def by (simp add: twin_allowed border_def zeroEdge_def)

lemma twin_step: "stepWeight twinMap ''land'' False p (border q px) = px"
  by (simp add: stepWeight_def border_def)

lemma border_simps [simp]: "ReTo (border q px) = q" "ReDistance (border q px) = px" "ReKind (border q px) = ''land_boundary''"
  by (simp_all add: border_def)

lemmas search_eval = startSearch_def twin_allowed pushMapRouteQueue_def siftUp.simps siftDown.simps popMapRouteQueue_def staleItem_def
  twin_edges relaxEdge_def twin_edge_allowed twin_step improves_def orZero_def searched_adds searched_close searched_order searched_improve queueLess_def swapAt_def Let_def


theorem route_legal_witness:
  "\<exists>a r. routeThroughSubjects twinMap [] 9 5 [3] ''land'' ''shortest'' 5000 = Some a
    \<and> RaResult a = Inr r \<and> legalRoute twinMap ''land'' r \<and> hd (FrPath r) = 9 \<and> last (FrPath r) = 5
    \<and> visitsInOrder (FrPath r) [[9], [3], [5]]"
proof -
  have nodes: "routeSubjectNodes twinMap p ''land'' = [p]" if "p \<in> {9, 3, 5}" for p
    using that by (auto simp: routeSubjectNodes_def nodeOf_def twinMap_def plain_def twin_land)
  let ?r = "\<lparr>FrPath = [9, 3, 5], FrKinds = [''land_boundary'', ''land_boundary''], FrDistances = [px10, 0]\<rparr>"
  have run: "routeThroughSubjects twinMap [] 9 5 [3] ''land'' ''shortest'' 5000
      = Some \<lparr>RaResult = Inr ?r, RaExpanded = 4, RaRejected = []\<rparr>"
    by (simp add: routeThroughSubjects_def nodes shortestRoute_def dijkstra_def searchLoop.simps tracePath.simps
        edgeInto_def search_eval)
  show ?thesis using route_legal [OF run] by (simp add: nodes run)
qed

section \<open>A search that never returns\<close>

text \<open>
  C28. The search itself always returns: on every graph the loop over the queue ends. The route behind it need not:
  on the map of four plains where 5 and 3 have the same centre, the search from 9 reaches 7, but with equal costs
  3 becomes the predecessor of 5 and then 5 the predecessor of 3, so that following the links back from 7 never
  ends and \<^verbatim>\<open>dijkstra\<close> does not return.
\<close>

theorem route_search_hangs:
  "(\<forall>g mode scenic ends maxNodes rejected starts. \<exists>r.
      searchLoop g mode scenic ends maxNodes 0 (startSearch g mode rejected starts) = Some r)
    \<and> dijkstra twinMap [] [9] [7] ''land'' False 5000 = None"
proof -
  obtain outcome n s where run: "searchLoop twinMap ''land'' False [7] 5000 0 (startSearch twinMap ''land'' [] [9])
      = Some (outcome, n, s)" using searchLoop_returns by (metis prod_cases3)
  then have links: "outcome = ReachedGoal 7 \<and> SePrevious s 7 = Some 3 \<and> SePrevious s 3 = Some 5 \<and> SePrevious s 5 = Some 3"
    by (simp add: searchLoop.simps search_eval) auto
  have "tracePath (SePrevious s) [7] = None"
    by (rule tracePath_cycle [of "{7, 3, 5}"]) (simp_all add: links)
  then show ?thesis using searchLoop_returns links by (simp add: dijkstra_def run)
qed

end
