(* ===== verification/Spec2Isabelle.thy ===== *)
theory Spec2Isabelle
  imports BinaryRoundtrip TextFacts MetadataFacts EnvelopeFacts SavePathFacts TimelineFacts DocumentFacts ScriptParserFacts McpServerTheorems
    DatabaseManagerTheorems ToolCallFacts MergeTheorems TriggerAlgebraFacts MapRouteTheorems
begin

text \<open>
  A model of parts of ck3-index-mcp, a Go program that indexes the game Crusader Kings III and its mods and
  answers questions about them and about save files over the Model Context Protocol. File names below are
  under \<^verbatim>\<open>src/internal\<close>.

  \<^bold>\<open>Parts and how they interact.\<close> A client sends tool calls, one JSON line each. The session loop
  (\<^verbatim>\<open>mcpserver/server.go\<close>) admits them within per-process limits, runs each in a goroutine and collects the
  results from one channel. A tool call (\<^verbatim>\<open>mcpserver/runtime.go\<close>) is bound to one published generation of the
  index; read-only answers are kept in a cache (\<^verbatim>\<open>mcpserver/tool_cache.go\<close>) under a key that names the
  generation. The database manager (\<^verbatim>\<open>mcpserver/database_manager.go\<close>) owns the SQLite pools, hands out leases
  on them, and switches and reloads databases while calls run. The tools on save files use the package
  \<^verbatim>\<open>savefile\<close>: a requested path is confined to the configured roots, the header of the file says which of six
  layouts it has and where its two sections lie, a section is decoded, from memory or through a reused window,
  token by token in one of two grammars (binary and text), and four readers run over the tokens: metadata, one
  pass over the game state, one over what it dates, and a walk to any path of the document. The index itself is built from the game's script files by
  the parser of \<^verbatim>\<open>script\<close>.

  \<^bold>\<open>Conventions.\<close> \<^theory_text>\<open>Prelude\<close> and \<^theory_text>\<open>GoStd\<close> name the types and the parts of the standard library in use: byte
  strings are \<open>char list\<close>, Go's \<open>int\<close> is \<open>int\<close> where it counts, words are kept at their width where they are
  read, printed or wrap, floats (\<^theory_text>\<open>Float64\<close>) are 64-bit patterns with exact rounding. A Go function that returns
  an error is a state monad whose value is \<open>Inl\<close> the refusal or \<open>Inr\<close> the result, inside an option: \<open>None\<close> is a
  computation that never returns, or one that panics where a definition says so. Loops are
  \<^theory_text>\<open>partial_function\<close>s, so that termination is a theorem. Shared mutable objects (databases of the manager, cache
  elements, nodes of a parse) are positions in a list.

  \<^bold>\<open>Save files.\<close>
  \<^item> \<^theory_text>\<open>SavePath\<close>, \<^theory_text>\<open>SavePathFacts\<close> (\<^verbatim>\<open>path.go\<close>, C23): which requests are answered and with which path, exactly;
    \<^verbatim>\<open>os.Lstat\<close> and \<^verbatim>\<open>os.Getwd\<close> are parameters. \<^theory_text>\<open>Envelope\<close>, \<^theory_text>\<open>EnvelopeFacts\<close> (\<^verbatim>\<open>envelope.go\<close>, C8): both sections of a
    save are found and read back in every layout, and \<open>sections_inside\<close> bounds what is accepted from any bytes;
    \<^verbatim>\<open>archive/zip\<close> is a parameter.
  \<^item> \<^theory_text>\<open>SaveFile\<close> (\<^verbatim>\<open>savefile.go\<close>), \<^theory_text>\<open>BinaryToken\<close> (\<^verbatim>\<open>binary.go\<close>), \<^theory_text>\<open>TextToken\<close> (\<^verbatim>\<open>text.go\<close>), \<^theory_text>\<open>TokenMap\<close>
    (\<^verbatim>\<open>tokens.go\<close>), \<^theory_text>\<open>Decoders\<close> (\<^verbatim>\<open>stream.go\<close> and the decoder of \<^verbatim>\<open>binary.go\<close>): limits and refusals, the two
    grammars over any source of bytes, and the two decoders with their windows, refills and counters.
  \<^item> \<^theory_text>\<open>SourceSpec\<close> states what a token is as a function of the remaining bytes, and the interfaces \<open>take_source\<close>
    and \<open>text_source\<close> that the grammars rely on; \<^theory_text>\<open>DecoderFacts\<close> interprets them for both decoders.
    \<^theory_text>\<open>DecoderTheorems\<close>: both decoders return the specified tokens however the reader cuts the bytes (C1), within
    budget and nesting (C2), and skipping returns (C3). \<^theory_text>\<open>BinaryRoundtrip\<close> and \<^theory_text>\<open>TextFacts\<close>: what is encoded
    reads back (C4 to C6, C10; \<open>integer_roundtrip\<close>, \<open>dotted_stays_text\<close> and \<open>textDate_exact\<close> besides).
  \<^item> \<^theory_text>\<open>Progress\<close>: the interface \<open>token_source\<close> of the readers, with one rule for all their loops: a loop whose
    body takes a token ends. \<^theory_text>\<open>Metadata\<close>, \<^theory_text>\<open>MetadataFacts\<close> (\<^verbatim>\<open>metadata.go\<close>, C11, C14, C15), \<^theory_text>\<open>Gamestate\<close>,
    \<^theory_text>\<open>GamestateFacts\<close> (\<^verbatim>\<open>gamestate.go\<close>, C17 to C19), \<^theory_text>\<open>Timeline\<close>, \<^theory_text>\<open>TimelineFacts\<close> (\<^verbatim>\<open>timeline.go\<close>, C26),
    \<^theory_text>\<open>DocumentPath\<close>, \<^theory_text>\<open>FloatText\<close>, \<^theory_text>\<open>Document\<close>, \<^theory_text>\<open>DocumentFacts\<close> (\<^verbatim>\<open>document.go\<close>, C20 to C22): every reader returns, what it reports is within its caps and answers what was
    asked, and only fully named data is reported.

  \<^bold>\<open>Script files.\<close>
  \<^item> \<^theory_text>\<open>ScriptLexer\<close>, \<^theory_text>\<open>ScriptLexerFacts\<close> (\<^verbatim>\<open>script/lexer.go\<close>, C24, C25, C27): tokens in order and without
    overlap, the same from every representation of the source, and printed tokens read back.
  \<^item> \<^theory_text>\<open>ScriptParser\<close> (\<^verbatim>\<open>script/parser.go\<close>) with \<^theory_text>\<open>ScriptArena\<close>, \<^theory_text>\<open>ScriptLookahead\<close>, \<^theory_text>\<open>ScriptTreeFacts\<close> and
    \<^theory_text>\<open>ScriptParserFacts\<close> (C29 to C32): the node chunks are one sequence, the ring of tokens read ahead refines a
    position in the token list, the counting sort that links children agrees with filtering by parent, and
    every source parses to a well-formed file. A block is parsed by a recursion over \<open>levels\<close>, the nesting
    that the depth limit still allows: with none left no block is opened, so the bound loses nothing.

  \<^bold>\<open>The server.\<close>
  \<^item> \<^theory_text>\<open>TaskLimiter\<close>, \<^theory_text>\<open>McpServer\<close>, \<^theory_text>\<open>McpServerFacts\<close>, \<^theory_text>\<open>McpServerTheorems\<close> (\<^verbatim>\<open>server.go\<close>, \<^verbatim>\<open>protocol.go\<close>, C33
    to C36): the session as a step relation over requests, results, timers and the end of input; its limits,
    one answer per request, no deadlock, and its end.
  \<^item> \<^theory_text>\<open>DatabaseManager\<close>, \<^theory_text>\<open>DatabaseManagerFacts\<close>, \<^theory_text>\<open>DatabaseManagerTheorems\<close> (\<^verbatim>\<open>database_manager.go\<close> and the
    read options of \<^verbatim>\<open>indexer/db.go\<close> and \<^verbatim>\<open>indexer/config.go\<close>, C37, C38): the critical sections of every operation,
    cut at the mutex and interleaved with openings that succeed or fail.
  \<^item> \<^theory_text>\<open>ToolCache\<close>, \<^theory_text>\<open>ToolCacheFacts\<close> (C39): the cache refines a least-recently-used list; the interface
    \<open>response_store\<close> is what a tool call relies on. \<^theory_text>\<open>ToolCall\<close>, \<^theory_text>\<open>ToolCallFacts\<close> (\<^verbatim>\<open>runtime.go\<close>, C40): under any
    interleaving of calls a cached answer is the answer of the generation it is labelled with.
  \<^item> \<^theory_text>\<open>AssocLists\<close>: Go maps as association lists.

  \<^bold>\<open>Rules, maps and mods.\<close> Three parts work on what the index holds and on the mods themselves.
  \<^item> \<^theory_text>\<open>TriggerAlgebra\<close>, \<^theory_text>\<open>TriggerAlgebraFacts\<close> (\<^verbatim>\<open>indexer/trigger_algebra.go\<close>, C12): the lint rules for boolean
    blocks, over parsed nodes as trees. \<open>holds\<close> is the meaning of a condition; a diagnostic is \<open>justified\<close> when what it
    advises does not change that meaning.
  \<^item> \<^theory_text>\<open>FloatArith\<close>, \<^theory_text>\<open>MapRoute\<close>, \<^theory_text>\<open>MapRouteFacts\<close>, \<^theory_text>\<open>MapRouteTheorems\<close> (\<^verbatim>\<open>indexer/map_route.go\<close>, C9, C28): the
    binary heap, the search with its links, and the legs through way points. The search is shown to return by its
    measure, the nodes it may still expand and the items in its queue; the route is then read off the links, which is
    where it may not return.
  \<^item> \<^theory_text>\<open>MergeText\<close>, \<^theory_text>\<open>MergeTextFacts\<close>, \<^theory_text>\<open>MergeTheorems\<close> (\<^verbatim>\<open>migrator/merge.go\<close> with \<^verbatim>\<open>splitLinesKeepEndings\<close>, C7, C13,
    C16): the three-way merge of a file. It is defined by recursion on the number of lines; the relation
    \<open>mergesTo\<close> is what it implements.

  \<^bold>\<open>Bounds and fuel.\<close> No definition runs on fuel. The recursion of \<open>parseBlock\<close> over the remaining levels is the only
  bounded one, and the code's depth limit is that bound. The limits of the code (tokens, nesting, elements, nodes,
  pools, cache megabytes, running and queued calls) are the code's constants or stay variables of the theorems.

  \<^bold>\<open>What the modelling showed.\<close> \<open>textDate\<close> panics on a fifth number (C10). A reload that finds its generation
  active lends it out without counting the reference (C37), and a reload under load holds more pools open than the
  configured limit (C38). A route search can fail to return (C28). A timeline
  reports the sentinel for an absent character as a character, except where \<open>characterRef\<close> is used. Smaller ones are listed with the properties.

  \<^bold>\<open>Not modelled.\<close> Reading and writing files, archives and standard input and output; SQL, which is where scanning,
  indexing and most queries happen; JSON encoding and decoding, whose results are arguments of the tool calls; the
  tables of tools, schemas and generated engine data; rendering of maps, GUIs and coats of arms in floating point
  over rasters; the plans, reviews and packages the migrator and the packager write to disk. Where a modelled function calls such code, its result is a
  parameter or an outcome of a step. The lifetime of a token's text in the shared window of a decoder is not modelled:
  tokens carry their bytes.
\<close>

end
